(* ===== verification/Shph_Prelude.thy ===== *)
theory Shph_Prelude
  imports Main "HOL-Library.Word"
begin

text \<open>
  Shared vocabulary of the SHPH development.

  \<^item> Scalars. A Rust scalar of type \<open>usize\<close>, \<open>u64\<close>, \<open>u32\<close>, \<open>u16\<close> or \<open>u8\<close> that is only
    compared, added with a checked or saturating operation, or used as an index is a
    \<^typ>\<open>nat\<close> below the bound of its type; each operation that could leave the range is
    written with \<open>checked_add\<close>, \<open>sat_add\<close> or an explicit remainder.  \<open>usize\<close> has 64 bits.
    Bytes and bitmap words, whose bits matter, are \<open>8 word\<close> and \<open>64 word\<close>.
  \<^item> Fallible code returns \<open>Ok\<close> or \<open>Err\<close> with a value of \<open>shph_error\<close>, the enum of
    \<open>shph-core/src/error.rs\<close>.
  \<^item> A \<open>str\<close> is the list of its UTF-8 bytes, as a \<^typ>\<open>string\<close>.
  \<^item> A \<open>Duration\<close> or a monotonic \<open>Instant\<close> is a number of nanoseconds.
  \<^item> A caller-supplied random generator (\<open>StdRng\<close>, \<open>OsRng\<close> of the \<open>rand\<close> crate) is the
    record \<open>rng\<close> of its operations, with its documented contract as \<open>rng_ok\<close>.

  The lemmas are the list, byte-order and arithmetic facts that the components share; the
  collections \<open>codec_simps\<close> and \<open>range_simps\<close> gather them for the component proofs.
\<close>

named_theorems codec_simps \<open>byte layout of frames: writes, slices and byte order\<close>
named_theorems range_simps \<open>bounds of the machine types\<close>

section \<open>Machine types\<close>

type_synonym u8 = nat
type_synonym u16 = nat
type_synonym u32 = nat
type_synonym u64 = nat
type_synonym u128 = nat
type_synonym usize = nat
type_synonym duration = nat
type_synonym instant = nat
type_synonym byte = "8 word"
type_synonym bytes = "byte list"

definition u8_max :: nat where "u8_max = 255"
definition u16_max :: nat where "u16_max = 65535"
definition u32_max :: nat where "u32_max = 4294967295"
definition u64_max :: nat where "u64_max = 18446744073709551615"
definition u128_max :: nat where "u128_max = 340282366920938463463374607431768211455"
definition usize_max :: nat where "usize_max = 18446744073709551615"

lemmas range_defs = u8_max_def u16_max_def u32_max_def u64_max_def u128_max_def usize_max_def

definition sat_add :: "nat \<Rightarrow> nat \<Rightarrow> nat \<Rightarrow> nat" where
  \<comment> \<open>\<open>a.saturating_add(b)\<close> on the type whose largest value is the first argument\<close>
  "sat_add m a b = (if a + b \<le> m then a + b else m)"

definition checked_add :: "nat \<Rightarrow> nat \<Rightarrow> nat \<Rightarrow> nat option" where
  "checked_add m a b = (if a + b \<le> m then Some (a + b) else None)"

definition checked_mul :: "nat \<Rightarrow> nat \<Rightarrow> nat \<Rightarrow> nat option" where
  "checked_mul m a b = (if a * b \<le> m then Some (a * b) else None)"

definition checked_sub :: "nat \<Rightarrow> nat \<Rightarrow> nat option" where
  "checked_sub a b = (if b \<le> a then Some (a - b) else None)"

definition abs_diff :: "nat \<Rightarrow> nat \<Rightarrow> nat" where
  "abs_diff a b = (if a \<le> b then b - a else a - b)"

definition div_ceil :: "nat \<Rightarrow> nat \<Rightarrow> nat" where
  "div_ceil a b = (a + b - 1) div b"

lemma sat_add_le [range_simps]: "sat_add m a b \<le> m"
  by (simp add: sat_add_def)

lemma sat_add_mono: "a \<le> m \<Longrightarrow> a \<le> sat_add m a b"
  by (simp add: sat_add_def)

lemma sat_add_exact [range_simps]: "a + b \<le> m \<Longrightarrow> sat_add m a b = a + b"
  by (simp add: sat_add_def)

lemma checked_add_Some [range_simps]:
  "checked_add m a b = Some c \<longleftrightarrow> a + b \<le> m \<and> c = a + b"
  by (auto simp: checked_add_def)

lemma checked_add_None [range_simps]: "checked_add m a b = None \<longleftrightarrow> m < a + b"
  by (auto simp: checked_add_def)

lemma checked_mul_Some [range_simps]:
  "checked_mul m a b = Some c \<longleftrightarrow> a * b \<le> m \<and> c = a * b"
  by (auto simp: checked_mul_def)

lemma checked_sub_Some [range_simps]:
  "checked_sub a b = Some c \<longleftrightarrow> b \<le> a \<and> c = a - b"
  by (auto simp: checked_sub_def)

section \<open>Errors and results\<close>

datatype shph_error =
    Io string
  | Config string
  | Crypto string
  | Protocol string
  | Handshake string
  | Auth string
  | KeyStore string
  | Tun string
  | Transport string
  | Obfuscation string
  | Stealth string
  | Serialization string
  | InvalidArgument string
  | NotConnected
  | AlreadyConnected
  | ConnectionClosed
  | Timeout
  | ResourceExhausted string
  | PermissionDenied string
  | Unsupported string
  | Internal string

datatype 'a result = Ok 'a | Err shph_error

fun is_ok :: "'a result \<Rightarrow> bool" where
  "is_ok (Ok _) = True"
| "is_ok (Err _) = False"

fun ok_or :: "shph_error \<Rightarrow> 'a option \<Rightarrow> 'a result" where
  "ok_or e (Some x) = Ok x"
| "ok_or e None = Err e"

fun map_ok :: "('a \<Rightarrow> 'b) \<Rightarrow> 'a result \<Rightarrow> 'b result" where
  "map_ok f (Ok x) = Ok (f x)"
| "map_ok f (Err e) = Err e"

lemma is_ok_iff: "is_ok r \<longleftrightarrow> (\<exists>x. r = Ok x)"
  by (cases r) auto

lemma ok_or_Ok [simp]: "ok_or e m = Ok x \<longleftrightarrow> m = Some x"
  by (cases m) auto

lemma map_ok_Ok [simp]: "map_ok f r = Ok y \<longleftrightarrow> (\<exists>x. r = Ok x \<and> y = f x)"
  by (cases r) auto

lemma map_ok_Err [simp]: "map_ok f r = Err e \<longleftrightarrow> r = Err e"
  by (cases r) auto

section \<open>Byte order\<close>

text \<open>\<open>be_bytes n v\<close> is \<open>v.to_be_bytes()\<close> of an \<open>n\<close>-byte unsigned integer (a wider value is
  truncated, as the cast that precedes the call does), \<open>of_be\<close> is \<open>from_be_bytes\<close>.\<close>

fun be_bytes :: "nat \<Rightarrow> nat \<Rightarrow> bytes" where
  "be_bytes 0 v = []"
| "be_bytes (Suc n) v = be_bytes n (v div 256) @ [of_nat v]"

definition of_be :: "bytes \<Rightarrow> nat" where
  "of_be bs = foldl (\<lambda>acc b. acc * 256 + unat b) 0 bs"

definition le_bytes :: "nat \<Rightarrow> nat \<Rightarrow> bytes" where
  "le_bytes n v = rev (be_bytes n v)"

definition of_le :: "bytes \<Rightarrow> nat" where
  "of_le bs = of_be (rev bs)"

lemma length_be_bytes [simp]: "length (be_bytes n v) = n"
  by (induction n arbitrary: v) auto

lemma length_le_bytes [simp]: "length (le_bytes n v) = n"
  by (simp add: le_bytes_def)

lemma of_be_Nil [simp]: "of_be [] = 0"
  by (simp add: of_be_def)

lemma of_be_snoc [simp]: "of_be (bs @ [b]) = of_be bs * 256 + unat b"
  by (simp add: of_be_def)

lemma unat_of_nat_byte: "unat (of_nat v :: byte) = v mod 256"
  by (simp add: unat_of_nat)

lemma of_be_be_bytes: "of_be (be_bytes n v) = v mod 256 ^ n"
proof (induction n arbitrary: v)
  case 0
  show ?case by simp
next
  case (Suc n)
  have "v mod (256 * 256 ^ n) = 256 * (v div 256 mod 256 ^ n) + v mod 256"
    by (rule mod_mult2_eq)
  then show ?case by (simp add: Suc.IH unat_of_nat_byte)
qed

lemma of_be_be_bytes_id [codec_simps]: "v < 256 ^ n \<Longrightarrow> of_be (be_bytes n v) = v"
  by (simp add: of_be_be_bytes)

lemma of_le_le_bytes_id [codec_simps]: "v < 256 ^ n \<Longrightarrow> of_le (le_bytes n v) = v"
  by (simp add: of_le_def le_bytes_def of_be_be_bytes)

lemma unat_byte_lt: "unat (b :: byte) < 256"
  using unsigned_less [of b, where 'a = nat] by simp

lemma of_be_bound: "of_be bs < 256 ^ length bs"
proof (induction bs rule: rev_induct)
  case Nil
  show ?case by simp
next
  case (snoc b bs)
  have "unat b < 256" by (rule unat_byte_lt)
  with snoc show ?case by simp
qed

lemma be_bytes_of_be: "be_bytes (length bs) (of_be bs) = bs"
proof (induction bs rule: rev_induct)
  case Nil
  show ?case by simp
next
  case (snoc b bs)
  have b: "unat b < 256" by (rule unat_byte_lt)
  have "(of_be bs * 256 + unat b) div 256 = of_be bs" using b by simp
  moreover have "(of_nat (of_be bs * 256 + unat b) :: byte) = b"
  proof -
    have "unat (of_nat (of_be bs * 256 + unat b) :: byte) = unat b"
      unfolding unat_of_nat_byte using b by simp
    then show ?thesis by (rule word_unat_eq_iff [THEN iffD2])
  qed
  ultimately show ?case by (simp add: snoc.IH)
qed

lemma be_bytes_inj:
  "be_bytes n v = be_bytes n w \<Longrightarrow> v < 256 ^ n \<Longrightarrow> w < 256 ^ n \<Longrightarrow> v = w"
  by (metis of_be_be_bytes_id)

lemma of_be_two [codec_simps]: "of_be [a, b] = unat a * 256 + unat b"
  by (simp add: of_be_def)

lemma of_be_two_bound: "of_be [a, b] \<le> u16_max"
  using of_be_bound [of "[a, b]"] by (simp add: u16_max_def)

section \<open>Buffers\<close>

definition slice :: "'a list \<Rightarrow> nat \<Rightarrow> nat \<Rightarrow> 'a list" where
  \<comment> \<open>\<open>xs[i..j]\<close>, for \<open>i \<le> j \<le> xs.len()\<close>\<close>
  "slice xs i j = take (j - i) (drop i xs)"

definition write_at :: "'a list \<Rightarrow> nat \<Rightarrow> 'a list \<Rightarrow> 'a list" where
  \<comment> \<open>\<open>xs[i..i + ys.len()].copy_from_slice(ys)\<close>\<close>
  "write_at xs i ys = take i xs @ ys @ drop (i + length ys) xs"

definition resize :: "bytes \<Rightarrow> nat \<Rightarrow> bytes" where
  \<comment> \<open>\<open>v.resize(n, 0)\<close>\<close>
  "resize xs n = take n xs @ replicate (n - length xs) 0"

lemma length_slice [simp]: "j \<le> length xs \<Longrightarrow> length (slice xs i j) = j - i"
  by (simp add: slice_def)

lemma length_write_at [simp]:
  "i + length ys \<le> length xs \<Longrightarrow> length (write_at xs i ys) = length xs"
  by (simp add: write_at_def)

lemma length_resize [simp]: "length (resize xs n) = n"
  by (simp add: resize_def)

lemma resize_Nil [codec_simps]: "resize [] n = replicate n 0"
  by (simp add: resize_def)

text \<open>Writing the fields of a fresh zero buffer front to back lays them out one after the
  other: each write at the end of what is laid out consumes the zeros it covers.\<close>

lemma write_at_front [codec_simps]:
  assumes "length pre = i" and "length ys \<le> n"
  shows "write_at (pre @ replicate n z) i ys = (pre @ ys) @ replicate (n - length ys) z"
  using assms by (simp add: write_at_def)

lemma write_at_zero [codec_simps]:
  assumes "length ys \<le> n"
  shows "write_at (replicate n z) 0 ys = ys @ replicate (n - length ys) z"
  using assms by (simp add: write_at_def)

lemma update_front [codec_simps]:
  assumes "length pre = i" and "0 < n"
  shows "(pre @ replicate n z)[i := x] = (pre @ [x]) @ replicate (n - 1) z"
  using assms by (cases n) (simp_all add: list_update_append)

lemma slice_append_mid [codec_simps]:
  "length a = i \<Longrightarrow> length a + length b = j \<Longrightarrow> slice (a @ b @ c) i j = b"
  by (auto simp: slice_def)

lemma slice_append_end [codec_simps]:
  "length a = i \<Longrightarrow> length a + length b = j \<Longrightarrow> slice (a @ b) i j = b"
  by (auto simp: slice_def)

lemma slice_prefix [codec_simps]: "length a = j \<Longrightarrow> slice (a @ b) 0 j = a"
  by (auto simp: slice_def)

lemma drop_append_mid [codec_simps]: "length a + length b = n \<Longrightarrow> drop n (a @ b @ c) = c"
  by auto

lemma slice_full: "slice xs 0 (length xs) = xs"
  by (simp add: slice_def)

lemma slice_join:
  assumes "i \<le> j" and "j \<le> k"
  shows "slice xs i j @ slice xs j k = slice xs i k"
proof -
  have "drop j xs = drop (j - i) (drop i xs)" using assms(1) by simp
  then have "slice xs i j @ slice xs j k
      = take (j - i) (drop i xs) @ take (k - j) (drop (j - i) (drop i xs))"
    by (simp add: slice_def)
  also have "\<dots> = take ((j - i) + (k - j)) (drop i xs)" by (simp only: take_add)
  finally show ?thesis using assms by (simp add: slice_def)
qed

text \<open>Cutting a suffix at a later position; repeated from the front, it splits a buffer into its
  fields.\<close>

lemma drop_split: "i \<le> j \<Longrightarrow> drop i xs = slice xs i j @ drop j xs"
  using append_take_drop_id [of "j - i" "drop i xs"] by (simp add: slice_def)

lemma buffer_split: "xs = slice xs 0 j @ drop j xs"
  by (simp add: slice_def)

lemma if_mem: "a \<in> S \<Longrightarrow> b \<in> S \<Longrightarrow> (if c then a else b) \<in> S"
  by simp

lemma be_bytes_slice: "i + n = j \<Longrightarrow> j \<le> length xs \<Longrightarrow> be_bytes n (of_be (slice xs i j)) = slice xs i j"
  using be_bytes_of_be [of "slice xs i j"] by auto

lemma of_be_slice_bound: "i + n = j \<Longrightarrow> j \<le> length xs \<Longrightarrow> of_be (slice xs i j) < 256 ^ n"
  using of_be_bound [of "slice xs i j"] by auto

lemma slice_to_end: "slice xs i (length xs) = drop i xs"
  by (simp add: slice_def)

lemma nth_slice: "i + k < j \<Longrightarrow> j \<le> length xs \<Longrightarrow> slice xs i j ! k = xs ! (i + k)"
  by (simp add: slice_def)

lemma slice_one: "i < length xs \<Longrightarrow> slice xs i (Suc i) = [xs ! i]"
  by (simp add: slice_def take_Suc_conv_app_nth hd_drop_conv_nth take_Suc)

text \<open>A buffer that opens with a two-byte magic, a version byte and two 16-bit lengths.\<close>

lemma header7_split:
  assumes "7 + k \<le> length d"
  shows "d = slice d 0 2 @ [d ! 2] @ be_bytes 2 (of_be [d ! 3, d ! 4]) @ be_bytes 2 (of_be [d ! 5, d ! 6])
    @ slice d 7 (7 + k) @ drop (7 + k) d"
proof -
  have two: "be_bytes 2 (of_be [x, y]) = [x, y]" for x y using be_bytes_of_be [of "[x, y]"] by (simp add: numeral_2_eq_2)
  have f: "[d ! 3, d ! 4] = slice d 3 5" "[d ! 5, d ! 6] = slice d 5 7" "[d ! 2] = slice d 2 3"
    using assms slice_one [of 3 d] slice_one [of 4 d] slice_join [of 3 4 5 d]
      slice_one [of 5 d] slice_one [of 6 d] slice_join [of 5 6 7 d] slice_one [of 2 d] by simp_all
  have "d = slice d 0 2 @ slice d 2 3 @ slice d 3 5 @ slice d 5 7 @ slice d 7 (7 + k) @ drop (7 + k) d"
    using buffer_split [of d 2] drop_split [of 2 3 d] drop_split [of 3 5 d] drop_split [of 5 7 d]
      drop_split [of 7 "7 + k" d] by simp
  then show ?thesis unfolding two unfolding f .
qed

lemma header7_layout:
  assumes mg: "length mg = 2" and le: "length pl + 7 \<le> n"
  shows "write_at (write_at (write_at ((write_at (replicate n 0) 0 mg)[2 := v])
      3 (be_bytes 2 a)) 5 (be_bytes 2 b)) 7 pl
    = mg @ [v] @ be_bytes 2 a @ be_bytes 2 b @ pl @ replicate (n - (length pl + 7)) 0"
proof -
  obtain j where n: "n = 7 + (length pl + j)" using le le_Suc_ex by (metis add.assoc add.commute)
  with mg have "write_at (write_at (write_at ((write_at (replicate n 0) 0 mg)[2 := v])
      3 (be_bytes 2 a)) 5 (be_bytes 2 b)) 7 pl
    = ((((mg @ [v]) @ be_bytes 2 a) @ be_bytes 2 b) @ pl) @ replicate j 0"
    by (simp del: append_assoc append_Cons append_Nil replicate_Suc replicate.simps add: codec_simps)
  then show ?thesis using n by simp
qed

lemma header7_padding:
  assumes "length mg = 2" and "length pad = j"
  shows "write_at (mg @ [v] @ be_bytes 2 a @ be_bytes 2 b @ pl @ replicate j 0) (length pl + 7) pad
    = mg @ [v] @ be_bytes 2 a @ be_bytes 2 b @ pl @ pad"
proof -
  have "length (mg @ [v] @ be_bytes 2 a @ be_bytes 2 b @ pl) = length pl + 7" using assms by simp
  from write_at_front [OF this, of pad j 0] assms show ?thesis by simp
qed

section \<open>Text\<close>

text \<open>A Rust \<open>str\<close> is its UTF-8 encoding, one \<^typ>\<open>char\<close> per byte.  \<open>trim\<close> removes the encodings of
  the code points with the Unicode property \<open>White_Space\<close> at both ends.\<close>

definition utf8 :: "nat list \<Rightarrow> string" where
  "utf8 ns = map char_of ns"

definition whitespace_encodings :: "string list" where
  "whitespace_encodings =
     map (\<lambda>b. utf8 [b]) ([9..<14] @ [32]) @ [utf8 [194, 133], utf8 [194, 160], utf8 [225, 154, 128]]
     @ map (\<lambda>b. utf8 [226, 128, b]) ([128..<139] @ [168, 169, 175])
     @ [utf8 [226, 129, 159], utf8 [227, 128, 128]]"

fun strip_one :: "string list \<Rightarrow> string \<Rightarrow> string option" where
  "strip_one [] s = None"
| "strip_one (w # ws) s =
     (if w \<noteq> [] \<and> take (length w) s = w then Some (drop (length w) s) else strip_one ws s)"

lemma strip_one_shorter: "strip_one ws s = Some t \<Longrightarrow> length t < length s"
proof (induction ws)
  case (Cons w ws)
  show ?case
  proof (cases "w \<noteq> [] \<and> take (length w) s = w")
    case True
    then have "length w \<le> length s" and "0 < length w" by (metis length_take min.cobounded1, simp)
    moreover from True Cons.prems have "length t = length s - length w" by auto
    ultimately show ?thesis by linarith
  next
    case False
    with Cons show ?thesis by (simp split: if_splits)
  qed
qed simp

function strip_all :: "string list \<Rightarrow> string \<Rightarrow> string" where
  "strip_all ws s = (case strip_one ws s of None \<Rightarrow> s | Some t \<Rightarrow> strip_all ws t)"
  by pat_completeness auto
termination by (relation "measure (length \<circ> snd)") (auto dest: strip_one_shorter)

declare strip_all.simps [simp del]

definition str_trim :: "string \<Rightarrow> string" where
  "str_trim s = rev (strip_all (map rev whitespace_encodings) (rev (strip_all whitespace_encodings s)))"

definition ascii_lower :: "char \<Rightarrow> char" where
  "ascii_lower c = (if 65 \<le> (of_char c :: nat) \<and> (of_char c :: nat) \<le> 90 then char_of ((of_char c :: nat) + 32) else c)"

definition to_ascii_lowercase :: "string \<Rightarrow> string" where
  "to_ascii_lowercase s = map ascii_lower s"

lemma strip_one_None: "\<forall>w\<in>set ws. s = [] \<or> hd w \<noteq> hd s \<Longrightarrow> strip_one ws s = None"
proof (induction ws)
  case (Cons w ws)
  have "\<not> (w \<noteq> [] \<and> take (length w) s = w)"
    using Cons.prems by (cases w; cases s) auto
  with Cons show ?case by simp
qed simp

definition graphic :: "char \<Rightarrow> bool" where
  "graphic c \<longleftrightarrow> 33 \<le> (of_char c :: nat) \<and> (of_char c :: nat) < 127"

lemma strip_all_graphic:
  assumes "\<forall>c\<in>set s. graphic c" and "\<forall>w\<in>set ws. \<not> graphic (hd w)"
  shows "strip_all ws s = s"
proof -
  from assms have "strip_one ws s = None" by (intro strip_one_None) (metis hd_in_set)
  then show ?thesis by (simp add: strip_all.simps)
qed

lemma whitespace_not_graphic: "w \<in> set whitespace_encodings \<Longrightarrow> \<not> graphic (hd w) \<and> \<not> graphic (last w)"
  by (auto simp: whitespace_encodings_def utf8_def graphic_def)

lemma str_trim_graphic: "\<forall>c\<in>set s. graphic c \<Longrightarrow> str_trim s = s"
  using whitespace_not_graphic
  by (simp add: str_trim_def strip_all_graphic hd_rev)

text \<open>The bytes of a string, and \<open>{}\<close> of an unsigned integer.\<close>

definition as_bytes :: "string \<Rightarrow> bytes" where
  "as_bytes s = map (\<lambda>c. of_nat (of_char c)) s"

fun show_nat :: "nat \<Rightarrow> string" where
  "show_nat n = (if n < 10 then [char_of (48 + n)] else show_nat (n div 10) @ [char_of (48 + n mod 10)])"

declare show_nat.simps [simp del]

definition is_ascii :: "string \<Rightarrow> bool" where
  "is_ascii s \<longleftrightarrow> list_all (\<lambda>c. (of_char c :: nat) < 128) s"

text \<open>\<open>chars().any(char::is_control)\<close>: the code points below U+0020 and from U+007F to U+009F.\<close>

fun has_control :: "string \<Rightarrow> bool" where
  "has_control [] = False"
| "has_control [c] = ((of_char c :: nat) < 32 \<or> (of_char c :: nat) = 127)"
| "has_control (c # d # s) =
     ((of_char c :: nat) < 32 \<or> (of_char c :: nat) = 127
      \<or> ((of_char c :: nat) = 194 \<and> 128 \<le> (of_char d :: nat) \<and> (of_char d :: nat) \<le> 159) \<or> has_control (d # s))"

text \<open>\<open>chars().any(char::is_whitespace)\<close>: an encoding of a white-space code point at some position.\<close>

definition has_whitespace :: "string \<Rightarrow> bool" where
  "has_whitespace s \<longleftrightarrow> list_ex (\<lambda>i. strip_one whitespace_encodings (drop i s) \<noteq> None) [0..<length s]"

lemma graphic_no_control: "\<forall>c\<in>set s. graphic c \<Longrightarrow> \<not> has_control s"
  by (induction s rule: has_control.induct) (auto simp: graphic_def)

lemma graphic_no_whitespace:
  assumes g: "\<forall>c\<in>set s. graphic c"
  shows "\<not> has_whitespace s"
proof -
  have "strip_one whitespace_encodings (drop i s) = None" if "i < length s" for i
  proof (rule strip_one_None, intro ballI disjI2)
    fix w assume w: "w \<in> set whitespace_encodings"
    have "hd (drop i s) = s ! i" using that by (rule hd_drop_conv_nth)
    then have "graphic (hd (drop i s))" using g that by simp
    then show "hd w \<noteq> hd (drop i s)" using whitespace_not_graphic [OF w] by auto
  qed
  then show ?thesis by (auto simp: has_whitespace_def list_ex_iff)
qed

lemma length_as_bytes [simp]: "length (as_bytes s) = length s"
  by (simp add: as_bytes_def)

lemma as_bytes_inj: "as_bytes s = as_bytes t \<longleftrightarrow> s = t"
proof -
  have "inj (\<lambda>c :: char. of_nat (of_char c) :: byte)"
  proof (rule injI)
    fix c d :: char
    assume "(of_nat (of_char c) :: byte) = of_nat (of_char d)"
    then have "unat (of_nat (of_char c) :: byte) = unat (of_nat (of_char d) :: byte)" by simp
    then have "(of_char c :: nat) mod 256 = of_char d mod 256" by (simp only: unat_of_nat_byte)
    then show "c = d" by simp
  qed
  then show ?thesis by (simp add: as_bytes_def inj_map_eq_map)
qed

lemma set_map_filter: "y \<in> set (List.map_filter f xs) \<longleftrightarrow> (\<exists>x\<in>set xs. f x = Some y)"
  by (force simp: map_filter_def)

section \<open>Weighted choice\<close>

text \<open>The loop that the samplers of Phantom One, Shroud 2 and Shroud 3 share: walk the
  choices, return the first whose weight exceeds the remaining sample, subtract otherwise.
  \<open>None\<close> is the fall-through after the loop.\<close>

fun weighted_scan :: "('a \<times> nat) list \<Rightarrow> nat \<Rightarrow> 'a option" where
  "weighted_scan [] s = None"
| "weighted_scan ((x, w) # cs) s = (if s < w then Some x else weighted_scan cs (s - w))"

lemma weighted_scan_total:
  "s < sum_list (map snd cs) \<Longrightarrow> \<exists>x. weighted_scan cs s = Some x"
  by (induction cs s rule: weighted_scan.induct) auto

lemma weighted_scan_member:
  "weighted_scan cs s = Some x \<Longrightarrow> \<exists>w. (x, w) \<in> set cs \<and> 0 < w"
  by (induction cs s rule: weighted_scan.induct) (auto split: if_splits)

lemma weighted_scan_mem:
  assumes "s < sum_list (map snd cs)"
  obtains x w where "weighted_scan cs s = Some x" and "(x, w) \<in> set cs"
proof -
  from weighted_scan_total [OF assms] obtain x where x: "weighted_scan cs s = Some x" ..
  from weighted_scan_member [OF x] obtain w where "(x, w) \<in> set cs" by auto
  with x show thesis by (rule that)
qed

text \<open>The order of byte slices and strings.\<close>

fun lex_le :: "bytes \<Rightarrow> bytes \<Rightarrow> bool" where
  "lex_le [] ys = True"
| "lex_le (x # xs) [] = False"
| "lex_le (x # xs) (y # ys) = (if x < y then True else if y < x then False else lex_le xs ys)"

lemma lex_le_total: "lex_le a b \<or> lex_le b a"
  by (induction a b rule: lex_le.induct) auto

lemma lex_le_antisym: "lex_le a b \<Longrightarrow> lex_le b a \<Longrightarrow> a = b"
  by (induction a b rule: lex_le.induct) (auto split: if_splits elim: lex_le.elims)

section \<open>Random generators\<close>

text \<open>The operations the program calls on a generator: \<open>gen_range(lo..=hi)\<close>,
  \<open>try_fill_bytes\<close> on an \<open>n\<close>-byte buffer, \<open>next_u32\<close> and \<open>next_u64\<close>.\<close>

record 'g rng =
  gen_range :: "nat \<Rightarrow> nat \<Rightarrow> 'g \<Rightarrow> nat \<times> 'g"
  fill_bytes :: "nat \<Rightarrow> 'g \<Rightarrow> bytes option \<times> 'g"
  next_u32 :: "'g \<Rightarrow> u32 \<times> 'g"
  next_u64 :: "'g \<Rightarrow> u64 \<times> 'g"

definition rng_ok :: "'g rng \<Rightarrow> bool" where
  "rng_ok R \<longleftrightarrow>
     (\<forall>lo hi g. lo \<le> hi \<longrightarrow> lo \<le> fst (gen_range R lo hi g) \<and> fst (gen_range R lo hi g) \<le> hi)
   \<and> (\<forall>n g. \<forall>bs\<in>set_option (fst (fill_bytes R n g)). length bs = n)
   \<and> (\<forall>g. fst (next_u32 R g) \<le> u32_max)
   \<and> (\<forall>g. fst (next_u64 R g) \<le> u64_max)"

lemma rng_ok_range:
  assumes "rng_ok R" and "gen_range R lo hi g = (v, g')" and "lo \<le> hi"
  shows "lo \<le> v \<and> v \<le> hi"
proof -
  from assms(1,3) have "lo \<le> fst (gen_range R lo hi g) \<and> fst (gen_range R lo hi g) \<le> hi"
    by (simp add: rng_ok_def)
  with assms(2) show ?thesis by simp
qed

lemma rng_ok_fill:
  assumes "rng_ok R" and "fill_bytes R n g = (Some bs, g')"
  shows "length bs = n"
proof -
  from assms(1) have "\<forall>bs\<in>set_option (fst (fill_bytes R n g)). length bs = n"
    by (simp add: rng_ok_def)
  with assms(2) show ?thesis by simp
qed

text \<open>A counting generator, the concrete instance that the witnesses evaluate.\<close>

definition counter_rng :: "nat rng" where
  "counter_rng = \<lparr>gen_range = (\<lambda>lo hi g. (lo + g mod (hi - lo + 1), Suc g)),
     fill_bytes = (\<lambda>n g. (Some (map (\<lambda>i. of_nat (g + i)) [0..<n]), g + n)),
     next_u32 = (\<lambda>g. (g mod (u32_max + 1), Suc g)),
     next_u64 = (\<lambda>g. (g mod (u64_max + 1), Suc g))\<rparr>"

lemma counter_rng_ok: "rng_ok counter_rng"
proof -
  have "g mod (hi - lo + 1) \<le> hi - lo" for g hi lo :: nat
    using mod_less_divisor [of "hi - lo + 1" g] by linarith
  then have "lo + g mod (hi - lo + 1) \<le> hi" if "lo \<le> hi" for g hi lo :: nat
    using that by (metis add_le_cancel_left le_add_diff_inverse)
  moreover have "g mod (m + 1) \<le> m" for g m :: nat
    using mod_less_divisor [of "m + 1" g] by linarith
  ultimately show ?thesis by (simp add: rng_ok_def counter_rng_def)
qed

end
