(* ===== verification/Interfaces.thy ===== *)
theory Interfaces
  imports Shph_Prelude
begin

text \<open>
  The contracts that several components of SHPH share, each as a locale whose lemmas are
  proved once and reached by the components through interpretations on their own
  definitions.

  \<^item> \<open>replay_filter\<close>: a stateful filter over sequence numbers.  The sliding window of
    \<open>shph-core/src/crypto.rs\<close>, the replay state of its receiving cipher and the sequence
    window of \<open>shph-transport/src/phantom_one.rs\<close> promise it.
  \<^item> \<open>ordered_filter\<close>: in addition, everything above the highest number seen is accepted.
  \<^item> \<open>padded_codec\<close>: an envelope that frames a message and some padding, with a decoder that
    recovers the message.  \<open>strict_codec\<close> adds that the decoder accepts nothing else.
  \<^item> \<open>layered_codec\<close>: a second codec carried inside the payload of a first one.
\<close>

section \<open>Replay filters\<close>

text \<open>The numbers a filter accepts out of a sequence of arrivals, and its final state.\<close>

fun run_filter :: "('w \<Rightarrow> nat \<Rightarrow> 'w option) \<Rightarrow> 'w \<Rightarrow> nat list \<Rightarrow> nat list \<times> 'w" where
  "run_filter acc w [] = ([], w)"
| "run_filter acc w (n # ns) =
     (case acc w n of
        None \<Rightarrow> run_filter acc w ns
      | Some w' \<Rightarrow> (n # fst (run_filter acc w' ns), snd (run_filter acc w' ns)))"

locale replay_filter =
  fixes acc :: "'w \<Rightarrow> nat \<Rightarrow> 'w option"
    and inv :: "'w \<Rightarrow> bool"
  assumes accept_inv: "inv w \<Longrightarrow> acc w n = Some w' \<Longrightarrow> inv w'"
    and accept_once: "inv w \<Longrightarrow> acc w n = Some w' \<Longrightarrow> acc w' n = None"
    and refuse_stays: "inv w \<Longrightarrow> acc w m = None \<Longrightarrow> acc w n = Some w' \<Longrightarrow> acc w' m = None"
begin

lemma run_inv: "inv w \<Longrightarrow> inv (snd (run_filter acc w ns))"
  by (induction ns arbitrary: w) (auto split: option.splits intro: accept_inv)

lemma refused_forever:
  "inv w \<Longrightarrow> acc w m = None \<Longrightarrow> m \<notin> set (fst (run_filter acc w ns))"
proof (induction ns arbitrary: w)
  case Nil
  then show ?case by simp
next
  case (Cons n ns)
  show ?case
  proof (cases "acc w n")
    case None
    with Cons show ?thesis by simp
  next
    case (Some w')
    with Cons.prems have "m \<noteq> n" and "inv w'" and "acc w' m = None"
      by (auto intro: accept_inv refuse_stays)
    with Some Cons.IH show ?thesis by simp
  qed
qed

theorem run_distinct: "inv w \<Longrightarrow> distinct (fst (run_filter acc w ns))"
proof (induction ns arbitrary: w)
  case Nil
  then show ?case by simp
next
  case (Cons n ns)
  show ?case
  proof (cases "acc w n")
    case None
    with Cons show ?thesis by simp
  next
    case (Some w')
    with Cons.prems have w': "inv w'" and "acc w' n = None"
      by (auto intro: accept_inv accept_once)
    then have "n \<notin> set (fst (run_filter acc w' ns))" by (rule refused_forever)
    with Some Cons.IH [OF w'] show ?thesis by simp
  qed
qed

lemma refused_at_end:
  "inv w \<Longrightarrow> acc w n = None \<Longrightarrow> acc (snd (run_filter acc w ns)) n = None"
proof (induction ns arbitrary: w)
  case Nil
  then show ?case by simp
next
  case (Cons m ns)
  show ?case
  proof (cases "acc w m")
    case None
    with Cons show ?thesis by simp
  next
    case (Some w')
    with Cons.prems have "inv w'" and "acc w' n = None"
      using accept_inv refuse_stays by blast+
    with Some Cons.IH show ?thesis by simp
  qed
qed

lemma run_refused_after:
  "inv w \<Longrightarrow> n \<in> set (fst (run_filter acc w ns)) \<Longrightarrow> acc (snd (run_filter acc w ns)) n = None"
proof (induction ns arbitrary: w)
  case Nil
  then show ?case by simp
next
  case (Cons k ns)
  show ?case
  proof (cases "acc w k")
    case None
    with Cons show ?thesis by simp
  next
    case (Some w')
    with Cons.prems have w': "inv w'" by (auto intro: accept_inv)
    show ?thesis
    proof (cases "n = k")
      case True
      with Some Cons.prems have "acc w' n = None" by (auto intro: accept_once)
      with Some refused_at_end w' show ?thesis by simp
    next
      case False
      with Some Cons.prems Cons.IH [OF w'] show ?thesis by simp
    qed
  qed
qed

end

locale ordered_filter = replay_filter acc inv
  for acc :: "'w \<Rightarrow> nat \<Rightarrow> 'w option" and inv +
  fixes top :: "'w \<Rightarrow> nat option"
  assumes accept_above: "inv w \<Longrightarrow> (\<forall>h\<in>set_option (top w). h < n) \<Longrightarrow> \<exists>w'. acc w n = Some w'"
    and top_accept: "inv w \<Longrightarrow> acc w n = Some w' \<Longrightarrow>
      top w' = Some (case top w of None \<Rightarrow> n | Some h \<Rightarrow> max h n)"
begin

theorem in_order_all_accepted:
  "inv w \<Longrightarrow> sorted_wrt (<) ns \<Longrightarrow> (\<forall>h\<in>set_option (top w). \<forall>n\<in>set ns. h < n) \<Longrightarrow>
   fst (run_filter acc w ns) = ns"
proof (induction ns arbitrary: w)
  case Nil
  then show ?case by simp
next
  case (Cons n ns)
  from Cons.prems have "\<forall>h\<in>set_option (top w). h < n" by auto
  with Cons.prems(1) obtain w' where w': "acc w n = Some w'" using accept_above by blast
  with Cons.prems(1) have "inv w'" by (auto intro: accept_inv)
  moreover have "top w' = Some n"
    using top_accept [OF Cons.prems(1) w'] Cons.prems(3) by (auto split: option.splits)
  with Cons.prems(2) have "\<forall>h\<in>set_option (top w'). \<forall>k\<in>set ns. h < k" by auto
  ultimately have "fst (run_filter acc w' ns) = ns" using Cons.IH Cons.prems(2) by auto
  with w' show ?case by simp
qed

end

text \<open>One filter behaves as another: a relation between their states that fixes the verdict and
  survives every acceptance.\<close>

locale filter_refinement =
  fixes acc :: "'w \<Rightarrow> nat \<Rightarrow> 'w option"
    and spec :: "'s \<Rightarrow> nat \<Rightarrow> 's option"
    and R :: "'w \<Rightarrow> 's \<Rightarrow> bool"
  assumes verdict: "R w s \<Longrightarrow> acc w n = None \<longleftrightarrow> spec s n = None"
    and step: "R w s \<Longrightarrow> acc w n = Some w' \<Longrightarrow> spec s n = Some s' \<Longrightarrow> R w' s'"
begin

theorem run_refines:
  "R w s \<Longrightarrow> fst (run_filter acc w ns) = fst (run_filter spec s ns)
     \<and> R (snd (run_filter acc w ns)) (snd (run_filter spec s ns))"
proof (induction ns arbitrary: w s)
  case Nil
  then show ?case by simp
next
  case (Cons n ns)
  show ?case
  proof (cases "acc w n")
    case None
    with verdict [OF Cons.prems] have "spec s n = None" by simp
    with None Cons show ?thesis by simp
  next
    case (Some w')
    with verdict [OF Cons.prems] obtain s' where s': "spec s n = Some s'"
      by (metis not_None_eq)
    with Some Cons.prems have "R w' s'" using step by blast
    with Some s' Cons.IH show ?thesis by simp
  qed
qed

end

section \<open>Buffers\<close>

text \<open>A buffer that hands out its content in order: an operation says whether it was accepted, what it released, and the state it left
  behind, whether accepted or refused; it releases a prefix of the content followed by the items it accepted.\<close>

fun run_buffer :: "('s \<Rightarrow> 'i \<Rightarrow> bool \<times> 'm list \<times> 's) \<Rightarrow> 's \<Rightarrow> 'i list \<Rightarrow> bool list \<times> 'm list list \<times> 's" where
  "run_buffer opr s [] = ([], [], s)"
| "run_buffer opr s (i # is) =
     (case opr s i of (ok, out, s1) \<Rightarrow> (case run_buffer opr s1 is of (oks, outs, s') \<Rightarrow> (ok # oks, out # outs, s')))"

locale fifo_buffer =
  fixes opr :: "'s \<Rightarrow> 'i \<Rightarrow> bool \<times> 'm list \<times> 's"
    and contents :: "'s \<Rightarrow> 'm list"
    and items :: "'i \<Rightarrow> 'm list"
    and fits :: "'i \<Rightarrow> bool"
    and inv :: "'s \<Rightarrow> bool"
    and good :: "'m list \<Rightarrow> bool"
  assumes opr_inv: "inv s \<Longrightarrow> opr s i = (ok, out, s') \<Longrightarrow> inv s'"
    and opr_fits: "inv s \<Longrightarrow> opr s i = (ok, out, s') \<Longrightarrow> ok = fits i"
    and opr_order: "inv s \<Longrightarrow> opr s i = (ok, out, s') \<Longrightarrow> out @ contents s' = contents s @ (if fits i then items i else [])"
    and opr_good: "inv s \<Longrightarrow> opr s i = (ok, out, s') \<Longrightarrow> out \<noteq> [] \<Longrightarrow> good out"
begin

theorem run_keeps_order:
  "inv s \<Longrightarrow> run_buffer opr s is = (oks, outs, s') \<Longrightarrow>
   inv s' \<and> oks = map fits is \<and> concat outs @ contents s' = contents s @ concat (map items (filter fits is))
     \<and> (\<forall>out\<in>set outs. out \<noteq> [] \<longrightarrow> good out)"
proof (induction "is" arbitrary: s oks outs)
  case (Cons i "is")
  obtain ok out s1 where o: "opr s i = (ok, out, s1)" by (metis prod_cases3)
  then obtain oks' outs' where r: "run_buffer opr s1 is = (oks', outs', s')"
    using Cons.prems(2) by (auto split: prod.splits)
  from Cons.IH [OF opr_inv [OF Cons.prems(1) o] r] opr_fits [OF Cons.prems(1) o] opr_order [OF Cons.prems(1) o] opr_good [OF Cons.prems(1) o]
    Cons.prems(2) o r show ?case by auto
qed simp

end

section \<open>Envelope codecs\<close>

locale padded_codec =
  fixes frame :: "'m \<Rightarrow> 'p \<Rightarrow> bytes"
    and dec :: "bytes \<Rightarrow> 'm result"
    and legal :: "'m \<Rightarrow> 'p \<Rightarrow> bool"
  assumes dec_frame: "legal m p \<Longrightarrow> dec (frame m p) = Ok m"
begin

text \<open>No two messages share an envelope, whatever their padding.\<close>

lemma frame_unambiguous: "legal m p \<Longrightarrow> legal m' p' \<Longrightarrow> frame m p = frame m' p' \<Longrightarrow> m = m'"
  using dec_frame by (metis result.inject(1))

end

locale strict_codec = padded_codec +
  assumes dec_only: "dec b = Ok m \<Longrightarrow> \<exists>p. legal m p \<and> b = frame m p"
begin

lemma dec_accepts_iff: "dec b = Ok m \<longleftrightarrow> (\<exists>p. legal m p \<and> b = frame m p)"
  using dec_only dec_frame by auto

lemma dec_rejects_iff: "(\<exists>e. dec b = Err e) \<longleftrightarrow> (\<forall>m p. legal m p \<longrightarrow> b \<noteq> frame m p)"
proof -
  have "(\<exists>e. dec b = Err e) \<longleftrightarrow> (\<nexists>m. dec b = Ok m)" by (cases "dec b") auto
  then show ?thesis by (auto simp: dec_accepts_iff)
qed

end

text \<open>An inner codec carried in the payload of an outer one: the outer decoder runs first and
  hands its payload to the inner one.\<close>

fun stack_dec :: "(bytes \<Rightarrow> bytes result) \<Rightarrow> (bytes \<Rightarrow> 'm result) \<Rightarrow> bytes \<Rightarrow> 'm result" where
  "stack_dec outer inner b = (case outer b of Ok pl \<Rightarrow> inner pl | Err e \<Rightarrow> Err e)"

definition stack_frame :: "(bytes \<Rightarrow> 'p \<Rightarrow> bytes) \<Rightarrow> ('m \<Rightarrow> 'q \<Rightarrow> bytes) \<Rightarrow> 'm \<Rightarrow> 'q \<times> 'p \<Rightarrow> bytes" where
  "stack_frame outer inner m qp = outer (inner m (fst qp)) (snd qp)"

definition stack_legal ::
    "(bytes \<Rightarrow> 'p \<Rightarrow> bool) \<Rightarrow> ('m \<Rightarrow> 'q \<Rightarrow> bytes) \<Rightarrow> ('m \<Rightarrow> 'q \<Rightarrow> bool) \<Rightarrow> 'm \<Rightarrow> 'q \<times> 'p \<Rightarrow> bool" where
  "stack_legal outer_legal inner inner_legal m qp \<longleftrightarrow>
     inner_legal m (fst qp) \<and> outer_legal (inner m (fst qp)) (snd qp)"

locale layered_codec =
  outer: strict_codec oframe odec olegal + inner: strict_codec iframe idec ilegal
  for oframe :: "bytes \<Rightarrow> 'p \<Rightarrow> bytes" and odec :: "bytes \<Rightarrow> bytes result" and olegal
    and iframe :: "'m \<Rightarrow> 'q \<Rightarrow> bytes" and idec :: "bytes \<Rightarrow> 'm result" and ilegal
begin

lemma stack_roundtrip:
  "stack_legal olegal iframe ilegal m qp \<Longrightarrow>
   stack_dec odec idec (stack_frame oframe iframe m qp) = Ok m"
  by (simp add: stack_legal_def stack_frame_def outer.dec_frame inner.dec_frame)

lemma stack_only:
  "stack_dec odec idec b = Ok m \<Longrightarrow>
   \<exists>qp. stack_legal olegal iframe ilegal m qp \<and> b = stack_frame oframe iframe m qp"
  by (auto simp: stack_legal_def stack_frame_def split: result.splits
      dest!: outer.dec_only inner.dec_only)

end

sublocale layered_codec \<subseteq> stacked: strict_codec "stack_frame oframe iframe" "stack_dec odec idec"
    "stack_legal olegal iframe ilegal"
  by unfold_locales (rule stack_roundtrip, assumption, rule stack_only)

section \<open>Prefix-free field encodings\<close>

text \<open>An encoding of the values that satisfy \<open>ok\<close> such that no encoding is cut off inside another: values that
  are written one after the other can be read back one after the other.\<close>

locale prefix_code =
  fixes enc :: "'a \<Rightarrow> bytes"
    and ok :: "'a \<Rightarrow> bool"
  assumes enc_cut: "ok x \<Longrightarrow> ok y \<Longrightarrow> enc x @ r = enc y @ s \<Longrightarrow> x = y \<and> r = s"
begin

lemma enc_inj: "ok x \<Longrightarrow> ok y \<Longrightarrow> enc x = enc y \<Longrightarrow> x = y"
  using enc_cut [of x y "[]" "[]"] by simp

lemma concat_cut:
  "length xs = length ys \<Longrightarrow> \<forall>x\<in>set xs. ok x \<Longrightarrow> \<forall>y\<in>set ys. ok y \<Longrightarrow>
     concat (map enc xs) @ r = concat (map enc ys) @ s \<Longrightarrow> xs = ys \<and> r = s"
proof (induction xs ys rule: list_induct2)
  case (Cons x xs y ys)
  then have "enc x @ (concat (map enc xs) @ r) = enc y @ (concat (map enc ys) @ s)" by simp
  from enc_cut [OF _ _ this] Cons.prems have "x = y" "concat (map enc xs) @ r = concat (map enc ys) @ s" by simp_all
  then show ?case using Cons by simp
qed simp

text \<open>A list after its 32-bit length.\<close>

lemma counted_cut:
  assumes "\<forall>x\<in>set xs. ok x" and "\<forall>y\<in>set ys. ok y" and "length xs \<le> u32_max" and "length ys \<le> u32_max"
    and "be_bytes 4 (length xs) @ concat (map enc xs) @ r = be_bytes 4 (length ys) @ concat (map enc ys) @ s"
  shows "xs = ys \<and> r = s"
proof -
  have "be_bytes 4 (length xs) = be_bytes 4 (length ys)" using assms(5) by simp
  then have "length xs = length ys" using assms(3,4) by (intro be_bytes_inj [of 4]) (simp_all add: u32_max_def)
  then show ?thesis using concat_cut [of xs ys] assms by simp
qed

end

end
