(* ===== verification/Replay_Window.thy ===== *)
theory Replay_Window
  imports Interfaces
begin

text \<open>
  The sliding anti-replay window of \<open>shph-core/src/crypto.rs\<close> (\<open>ReplayWindow\<close>): the highest
  accepted nonce and a bitmap of the \<open>size\<close> nonces below it, stored in 64-bit words.  The
  model keeps the words, the word and bit shifts of \<open>shift_down\<close> and its loop.  The lemmas
  read the bitmap as one row of bits, show that \<open>shift_down\<close> shifts that row, and relate
  the window to a specification that remembers every nonce it ever accepted.
\<close>

unbundle bit_operations_syntax

section \<open>The code\<close>

definition MAX_REPLAY_WINDOW_SIZE :: usize where
  "MAX_REPLAY_WINDOW_SIZE = 64 * 1024"

record replay_window =
  highest :: "u64 option"
  bits :: "64 word list"
  wsize :: usize

definition replay_window_new :: "usize \<Rightarrow> replay_window" where
  "replay_window_new requested =
     (let sz = max 64 (min requested MAX_REPLAY_WINDOW_SIZE);
          words = div_ceil sz 64
      in \<lparr>highest = None, bits = replicate words 0, wsize = words * 64\<rparr>)"

text \<open>One iteration \<open>i\<close> of the loops of \<open>shift_down\<close>.\<close>

definition shift_step :: "64 word list \<Rightarrow> nat \<Rightarrow> nat \<Rightarrow> nat \<Rightarrow> 64 word list \<Rightarrow> 64 word list" where
  "shift_step bs word_shift bit_shift i out =
     (let words = length bs in
      if bit_shift = 0 then
        (if i + word_shift < words then out[i + word_shift := bs ! i] else out)
      else
        let lo = push_bit bit_shift (bs ! i);
            out = (if i + word_shift < words
                   then out[i + word_shift := out ! (i + word_shift) OR lo] else out);
            hi = drop_bit (64 - bit_shift) (bs ! i)
        in if i + word_shift + 1 < words
           then out[i + word_shift + 1 := out ! (i + word_shift + 1) OR hi] else out)"

definition shift_down :: "64 word list \<Rightarrow> nat \<Rightarrow> 64 word list" where
  "shift_down bs gap =
     (let word_shift = gap div 64; bit_shift = gap mod 64; words = length bs
      in fold (shift_step bs word_shift bit_shift) [0..<words] (replicate words 0))"

definition set_bit_at :: "64 word list \<Rightarrow> nat \<Rightarrow> 64 word list" where
  \<comment> \<open>\<open>self.bits[bit_index / 64] |= 1u64 << (bit_index % 64)\<close>\<close>
  "set_bit_at bs bit_index =
     (let word = bit_index div 64; mask = push_bit (bit_index mod 64) 1
      in bs[word := bs ! word OR mask])"

definition check_and_insert :: "replay_window \<Rightarrow> u64 \<Rightarrow> bool \<times> replay_window" where
  "check_and_insert w nonce =
     (case highest w of
        None \<Rightarrow> (True, w\<lparr>highest := Some nonce\<rparr>)
      | Some h \<Rightarrow>
          if h < nonce then
            let gap = nonce - h;
                bs = (if wsize w < gap then map (\<lambda>_. 0) (bits w)
                      else if gap = wsize w then
                        let cleared = map (\<lambda>_. 0) (bits w);
                            last_word = length (bits w) - 1
                        in cleared[last_word := cleared ! last_word OR push_bit 63 1]
                      else set_bit_at (shift_down (bits w) gap) (gap - 1))
            in (True, w\<lparr>bits := bs, highest := Some nonce\<rparr>)
          else
            let offset = h - nonce in
            if offset = 0 \<or> wsize w < offset then (False, w)
            else
              let bit_index = offset - 1; word = bit_index div 64;
                  mask = push_bit (bit_index mod 64) 1
              in if bits w ! word AND mask \<noteq> 0 then (False, w)
                 else (True, w\<lparr>bits := set_bit_at (bits w) bit_index\<rparr>))"

definition rw_accept :: "replay_window \<Rightarrow> nat \<Rightarrow> replay_window option" where
  \<comment> \<open>the verdict of \<open>check_and_insert\<close> with the window it leaves\<close>
  "rw_accept w n = (case check_and_insert w n of (b, w') \<Rightarrow> if b then Some w' else None)"

section \<open>The bitmap as a row of bits\<close>

definition row :: "64 word list \<Rightarrow> nat \<Rightarrow> bool" where
  "row bs k \<longleftrightarrow> k < 64 * length bs \<and> bit (bs ! (k div 64)) (k mod 64)"

definition rw_inv :: "replay_window \<Rightarrow> bool" where
  "rw_inv w \<longleftrightarrow> wsize w = 64 * length (bits w) \<and> 0 < length (bits w)
     \<and> (highest w = None \<longrightarrow> (\<forall>b\<in>set (bits w). b = 0))"

lemma length_shift_step [simp]: "length (shift_step bs ws b i out) = length out"
  by (simp add: shift_step_def Let_def)

lemma length_shift_fold: "length (fold (shift_step bs ws b) is out) = length out"
  by (induction "is" arbitrary: out) auto

lemma length_shift_down [simp]: "length (shift_down bs gap) = length bs"
  by (simp add: shift_down_def Let_def length_shift_fold)

lemma length_set_bit_at [simp]: "length (set_bit_at bs k) = length bs"
  by (simp add: set_bit_at_def Let_def)

text \<open>What word \<open>j\<close> of the output holds once the loop has run for \<open>n\<close> words of the input.\<close>

lemma shift_fold_nth:
  fixes bs :: "64 word list"
  assumes "n \<le> length bs" and "j < length bs"
  shows "fold (shift_step bs ws b) [0..<n] (replicate (length bs) 0) ! j
       = (if ws \<le> j \<and> j - ws < n then push_bit b (bs ! (j - ws)) else 0)
         OR (if b \<noteq> 0 \<and> Suc ws \<le> j \<and> j - Suc ws < n
             then drop_bit (64 - b) (bs ! (j - Suc ws)) else 0)"
  using assms(1)
proof (induction n)
  case 0
  then show ?case using assms(2) by simp
next
  case (Suc n)
  define out where "out = fold (shift_step bs ws b) [0..<n] (replicate (length bs) 0)"
  have len: "length out = length bs" by (simp add: out_def length_shift_fold)
  have IH: "out ! j = (if ws \<le> j \<and> j - ws < n then push_bit b (bs ! (j - ws)) else 0)
         OR (if b \<noteq> 0 \<and> Suc ws \<le> j \<and> j - Suc ws < n
             then drop_bit (64 - b) (bs ! (j - Suc ws)) else 0)"
    using Suc by (simp add: out_def)
  have step: "fold (shift_step bs ws b) [0..<Suc n] (replicate (length bs) 0)
      = shift_step bs ws b n out"
    by (simp add: out_def)
  consider "j = n + ws" | "j = n + ws + 1" | "j \<noteq> n + ws" "j \<noteq> n + ws + 1" by blast
  then show ?case
  proof cases
    case 1
    then have "shift_step bs ws b n out ! j = out ! j OR push_bit b (bs ! n)"
      using assms(2) len IH by (auto simp: shift_step_def Let_def nth_list_update)
    with 1 IH show ?thesis unfolding step by (auto simp: or.commute or.left_commute)
  next
    case 2
    then have "shift_step bs ws b n out ! j
        = out ! j OR (if b \<noteq> 0 then drop_bit (64 - b) (bs ! n) else 0)"
      using assms(2) len by (auto simp: shift_step_def Let_def nth_list_update)
    with 2 IH show ?thesis unfolding step by auto
  next
    case 3
    then have "shift_step bs ws b n out ! j = out ! j"
      by (auto simp: shift_step_def Let_def nth_list_update)
    moreover have "(ws \<le> j \<and> j - ws < Suc n) = (ws \<le> j \<and> j - ws < n)"
      and "(Suc ws \<le> j \<and> j - Suc ws < Suc n) = (Suc ws \<le> j \<and> j - Suc ws < n)"
      using 3 by auto
    ultimately show ?thesis using IH by (simp only: step)
  qed
qed

lemma shift_down_nth:
  fixes bs :: "64 word list"
  assumes "j < length bs"
  shows "shift_down bs gap ! j
       = (if gap div 64 \<le> j then push_bit (gap mod 64) (bs ! (j - gap div 64)) else 0)
         OR (if gap mod 64 \<noteq> 0 \<and> Suc (gap div 64) \<le> j
             then drop_bit (64 - gap mod 64) (bs ! (j - Suc (gap div 64))) else 0)"
  using assms shift_fold_nth [of "length bs" bs j "gap div 64" "gap mod 64"]
  by (simp add: shift_down_def Let_def less_imp_diff_less)

text \<open>The index of the row bit that \<open>k - gap\<close> names, by cases on the carry between words.\<close>

lemma row_index_no_carry:
  fixes k gap :: nat
  assumes "gap div 64 \<le> k div 64" and "gap mod 64 \<le> k mod 64"
  shows "gap \<le> k" and "(k - gap) div 64 = k div 64 - gap div 64"
    and "(k - gap) mod 64 = k mod 64 - gap mod 64"
proof -
  define d m where "d = k div 64 - gap div 64" and "m = k mod 64 - gap mod 64"
  have k: "k = 64 * (k div 64) + k mod 64" and g: "gap = 64 * (gap div 64) + gap mod 64" by simp_all
  show "gap \<le> k" using assms k g by linarith
  have "m < 64" by (simp add: m_def less_imp_diff_less)
  moreover have "k - gap = 64 * d + m"
    using assms k g unfolding d_def m_def by (simp add: diff_mult_distrib2)
  ultimately show "(k - gap) div 64 = k div 64 - gap div 64"
    and "(k - gap) mod 64 = k mod 64 - gap mod 64"
    by (simp_all add: d_def m_def)
qed

lemma row_index_carry:
  fixes k gap :: nat
  assumes "gap \<le> k" and "k mod 64 < gap mod 64"
  shows "gap div 64 < k div 64" and "(k - gap) div 64 = k div 64 - Suc (gap div 64)"
    and "(k - gap) mod 64 = 64 - gap mod 64 + k mod 64"
proof -
  obtain kq kr gq gr where defs: "kq = k div 64" "kr = k mod 64" "gq = gap div 64" "gr = gap mod 64"
    by simp
  then have k: "k = 64 * kq + kr" and g: "gap = 64 * gq + gr" and gr: "gr < 64" by simp_all
  from assms have c: "kr < gr" by (simp add: defs)
  have lt: "gq < kq" using assms(1) c k g by linarith
  then show "gap div 64 < k div 64" by (simp add: defs)
  obtain d where d: "kq = d + Suc gq" using lt by (metis add.commute less_imp_Suc_add add_Suc_right)
  have "64 - gr + kr < 64" using gr c by linarith
  moreover have "k - gap = 64 * d + (64 - gr + kr)" using k g d gr c by simp
  ultimately have "(k - gap) div 64 = d" and "(k - gap) mod 64 = 64 - gr + kr" by simp_all
  then show "(k - gap) div 64 = k div 64 - Suc (gap div 64)"
    and "(k - gap) mod 64 = 64 - gap mod 64 + k mod 64"
    using d by (simp_all add: defs)
qed

lemma row_below:
  fixes k gap :: nat
  assumes "k < gap"
  shows "k div 64 < gap div 64 \<or> k div 64 = gap div 64 \<and> k mod 64 < gap mod 64"
proof -
  have "k = 64 * (k div 64) + k mod 64" and "gap = 64 * (gap div 64) + gap mod 64" by simp_all
  then have "k div 64 = gap div 64 \<Longrightarrow> k mod 64 < gap mod 64" using assms by linarith
  moreover have "k div 64 \<le> gap div 64" using assms by (simp add: div_le_mono)
  ultimately show ?thesis by linarith
qed

lemma row_shift_down:
  assumes k: "k < 64 * length bs"
  shows "row (shift_down bs gap) k \<longleftrightarrow> gap \<le> k \<and> row bs (k - gap)"
proof -
  have j: "k div 64 < length bs" using k by (simp add: less_mult_imp_div_less mult.commute)
  have lhs: "row (shift_down bs gap) k \<longleftrightarrow> bit (shift_down bs gap ! (k div 64)) (k mod 64)"
    using k by (simp add: row_def)
  have kd: "k - gap < 64 * length bs" using k by simp
  show ?thesis
  proof (cases "gap \<le> k")
    case False
    then have "k < gap" by simp
    then have "k div 64 < gap div 64 \<or> k div 64 = gap div 64 \<and> k mod 64 < gap mod 64"
      by (rule row_below)
    then show ?thesis
      using False by (auto simp: lhs shift_down_nth [OF j] bit_simps)
  next
    case True
    note gk = this
    then have dd: "gap div 64 \<le> k div 64" by (rule div_le_mono)
    show ?thesis
    proof (cases "gap mod 64 \<le> k mod 64")
      case True
      note ix = row_index_no_carry [OF dd True]
      have "\<not> bit (bs ! n) (64 - gap mod 64 + k mod 64)" for n
        using True by (auto simp: bit_word.rep_eq dest: bit_imp_le_length)
      then show ?thesis
        using gk dd True kd k by (auto simp: lhs shift_down_nth [OF j] bit_simps row_def ix)
    next
      case False
      then have c: "k mod 64 < gap mod 64" by simp
      note ix = row_index_carry [OF gk c]
      show ?thesis
        using gk dd c kd k ix(1) by (auto simp: lhs shift_down_nth [OF j] bit_simps row_def ix(2,3))
    qed
  qed
qed

lemma row_set_bit_at:
  assumes "i < 64 * length bs"
  shows "row (set_bit_at bs i) k \<longleftrightarrow> k = i \<or> row bs k"
proof -
  have i: "i div 64 < length bs" using assms by (simp add: less_mult_imp_div_less mult.commute)
  have eq: "k = i \<longleftrightarrow> k div 64 = i div 64 \<and> k mod 64 = i mod 64"
    by (metis div_mult_mod_eq)
  show ?thesis
    using assms i by (auto simp: row_def set_bit_at_def Let_def nth_list_update bit_simps eq)
qed

lemma row_all_zero:
  assumes "\<forall>b\<in>set bs. b = 0"
  shows "\<not> row bs k"
proof
  assume r: "row bs k"
  then have "k div 64 < length bs" by (simp add: row_def less_mult_imp_div_less mult.commute)
  with assms have "bs ! (k div 64) = 0" using nth_mem by blast
  with r show False by (simp add: row_def)
qed

lemma row_zeros: "\<not> row (map (\<lambda>_. 0) bs) k"
  by (auto simp: row_def less_mult_imp_div_less mult.commute)

lemma mask_test:
  "(x :: 64 word) AND push_bit m 1 \<noteq> 0 \<longleftrightarrow> m < 64 \<and> bit x m"
proof -
  have "x AND push_bit m 1 = (if bit x m then push_bit m 1 else 0)"
    by (rule bit_eqI) (auto simp: bit_simps)
  moreover have "bit x m \<Longrightarrow> m < 64" using bit_imp_le_length [of x m] by simp
  moreover have "push_bit m (1 :: 64 word) \<noteq> 0" if "m < 64"
  proof
    assume z: "push_bit m (1 :: 64 word) = 0"
    have "bit (push_bit m (1 :: 64 word)) m" using that by (simp add: bit_simps)
    with z that show False by simp
  qed
  ultimately show ?thesis by auto
qed

lemma mask_test_zero: "(x :: 64 word) AND 2 ^ m = 0 \<longleftrightarrow> 64 \<le> m \<or> \<not> bit x m"
  using mask_test [of x m] by auto

lemma disj_not_left: "\<not> P \<Longrightarrow> (P \<or> Q) \<longleftrightarrow> Q"
  by simp

lemma mask_test_mod: "(x :: 64 word) AND 2 ^ (k mod 64) = 0 \<longleftrightarrow> \<not> bit x (k mod 64)"
proof -
  have "k mod 64 < 64" by (rule mod_less_divisor) simp
  then have "\<not> 64 \<le> k mod 64" by (simp only: not_le)
  then show ?thesis unfolding mask_test_zero by (rule disj_not_left)
qed

text \<open>The nonces the window still remembers.\<close>

definition tracked :: "replay_window \<Rightarrow> nat \<Rightarrow> bool" where
  "tracked w n \<longleftrightarrow> (case highest w of None \<Rightarrow> False | Some h \<Rightarrow>
     n = h \<or> (n < h \<and> h - n \<le> wsize w \<and> row (bits w) (h - n - 1)))"

lemma rw_inv_new: "rw_inv (replay_window_new s)"
  by (auto simp: rw_inv_def replay_window_new_def Let_def div_ceil_def)

lemma row_bit_test:
  assumes "rw_inv w" and "0 < d" and "d \<le> wsize w"
  shows "bits w ! ((d - 1) div 64) AND 2 ^ ((d - 1) mod 64) = 0 \<longleftrightarrow> \<not> row (bits w) (d - 1)"
proof -
  have "d - 1 < 64 * length (bits w)" using assms by (simp add: rw_inv_def)
  then show ?thesis by (simp only: mask_test_mod row_def simp_thms)
qed

lemma rw_accept_None:
  assumes "rw_inv w"
  shows "rw_accept w n = None \<longleftrightarrow>
    (\<exists>h. highest w = Some h \<and> n \<le> h \<and> (wsize w < h - n \<or> tracked w n))"
proof (cases "highest w")
  case None
  then show ?thesis by (simp add: rw_accept_def check_and_insert_def)
next
  case (Some h)
  have "bits w ! ((h - n - 1) div 64) AND 2 ^ ((h - n - 1) mod 64) = 0
      \<longleftrightarrow> \<not> row (bits w) (h - n - 1)"
    if "n < h" "h - n \<le> wsize w"
    using that by (intro row_bit_test [OF assms]) auto
  with Some show ?thesis
    by (auto simp: rw_accept_def check_and_insert_def tracked_def Let_def)
qed

text \<open>The three ways the window moves: the bitmap is cleared, cleared but for its last bit, or
  shifted, each time leaving exactly the old nonces that are still within reach.\<close>

definition advance_bits :: "replay_window \<Rightarrow> nat \<Rightarrow> 64 word list" where
  "advance_bits w gap =
     (if wsize w < gap then map (\<lambda>_. 0) (bits w)
      else if gap = wsize w then
        let cleared = map (\<lambda>_. 0) (bits w); last_word = length (bits w) - 1
        in cleared[last_word := cleared ! last_word OR push_bit 63 1]
      else set_bit_at (shift_down (bits w) gap) (gap - 1))"

lemma length_advance_bits: "length (advance_bits w gap) = length (bits w)"
  by (simp add: advance_bits_def Let_def)

lemma last_bit_eq_set_bit_at:
  assumes "rw_inv w"
  shows "(let cleared = map (\<lambda>_. 0) (bits w); last_word = length (bits w) - 1
          in cleared[last_word := cleared ! last_word OR push_bit 63 1])
       = set_bit_at (map (\<lambda>_. 0) (bits w)) (wsize w - 1)"
proof -
  obtain m where m: "length (bits w) = Suc m" using assms by (auto simp: rw_inv_def gr0_conv_Suc)
  then have "wsize w - 1 = 64 * m + 63" using assms by (simp add: rw_inv_def)
  then have "(wsize w - 1) div 64 = m" and "(wsize w - 1) mod 64 = 63" by simp_all
  with m show ?thesis by (simp add: set_bit_at_def Let_def)
qed

lemma row_advance_bits:
  assumes inv: "rw_inv w" and gap: "0 < gap" and k: "k < wsize w"
  shows "row (advance_bits w gap) k \<longleftrightarrow> k = gap - 1 \<or> (gap \<le> k \<and> row (bits w) (k - gap))"
proof -
  have size: "wsize w = 64 * length (bits w)" using inv by (simp add: rw_inv_def)
  consider "wsize w < gap" | "gap = wsize w" | "gap < wsize w" by linarith
  then show ?thesis
  proof cases
    case 1
    then show ?thesis using k by (auto simp: advance_bits_def row_zeros)
  next
    case 2
    then have "advance_bits w gap = set_bit_at (map (\<lambda>_. 0) (bits w)) (wsize w - 1)"
      using last_bit_eq_set_bit_at [OF inv] by (simp add: advance_bits_def)
    with 2 gap k size show ?thesis by (auto simp: row_set_bit_at row_zeros)
  next
    case 3
    then have "advance_bits w gap = set_bit_at (shift_down (bits w) gap) (gap - 1)"
      by (simp add: advance_bits_def)
    with 3 gap k size show ?thesis by (auto simp: row_set_bit_at row_shift_down)
  qed
qed

lemma rw_accept_cases:
  assumes "rw_accept w n = Some w'"
  obtains (first) "highest w = None" "w' = w\<lparr>highest := Some n\<rparr>"
    | (above) h where "highest w = Some h" "h < n"
        "w' = w\<lparr>bits := advance_bits w (n - h), highest := Some n\<rparr>"
    | (inside) h where "highest w = Some h" "n < h" "h - n \<le> wsize w"
        "w' = w\<lparr>bits := set_bit_at (bits w) (h - n - 1)\<rparr>"
  using assms
  by (auto simp: rw_accept_def check_and_insert_def advance_bits_def Let_def not_less
      split: option.splits if_splits)

lemma rw_accept_frame:
  assumes "rw_inv w" and "rw_accept w n = Some w'"
  shows "rw_inv w' \<and> wsize w' = wsize w
    \<and> highest w' = Some (case highest w of None \<Rightarrow> n | Some h \<Rightarrow> max h n)"
  using assms(2)
  by (cases rule: rw_accept_cases) (use assms(1) in \<open>auto simp: rw_inv_def length_advance_bits\<close>)

text \<open>After an acceptance the window remembers what it did before and the new nonce, as far as
  its width reaches.\<close>

lemma tracked_accept:
  assumes inv: "rw_inv w" and acc: "rw_accept w n = Some w'" and h': "highest w' = Some h'"
    and m: "m \<le> h'" "h' - m \<le> wsize w"
  shows "tracked w' m \<longleftrightarrow> m = n \<or> tracked w m"
  using acc
proof (cases rule: rw_accept_cases)
  case first
  then have "\<not> row (bits w) k" for k
    using inv row_all_zero by (auto simp: rw_inv_def)
  with first h' show ?thesis by (auto simp: tracked_def)
next
  case (above h)
  have "row (advance_bits w (n - h)) (n - m - 1) \<longleftrightarrow>
      n - m - 1 = n - h - 1 \<or> (n - h \<le> n - m - 1 \<and> row (bits w) (n - m - 1 - (n - h)))"
    if "m < n"
    using that above h' m by (intro row_advance_bits [OF inv]) auto
  moreover have "n - m - 1 - (n - h) = h - m - 1" if "m < h" using that above(2) by simp
  ultimately show ?thesis using above h' m by (auto simp: tracked_def)
next
  case (inside h)
  have "row (set_bit_at (bits w) (h - n - 1)) k \<longleftrightarrow> k = h - n - 1 \<or> row (bits w) k" for k
    using inside inv by (intro row_set_bit_at) (auto simp: rw_inv_def)
  with inside h' m show ?thesis by (auto simp: tracked_def)
qed

section \<open>The window against its specification\<close>

text \<open>The specification keeps the highest nonce and the set of all nonces ever accepted; it
  refuses a nonce that is in the set or more than \<open>width\<close> below the highest.\<close>

definition spec_accept :: "nat \<Rightarrow> nat option \<times> nat set \<Rightarrow> nat \<Rightarrow> (nat option \<times> nat set) option" where
  "spec_accept width s n =
     (if n \<in> snd s \<or> (\<exists>h\<in>set_option (fst s). width < h - n) then None
      else Some (Some (case fst s of None \<Rightarrow> n | Some h \<Rightarrow> max h n), insert n (snd s)))"

definition rw_refines :: "replay_window \<Rightarrow> nat option \<times> nat set \<Rightarrow> bool" where
  "rw_refines w s \<longleftrightarrow> rw_inv w \<and> highest w = fst s
     \<and> (\<forall>m\<in>snd s. \<exists>h. fst s = Some h \<and> m \<le> h)
     \<and> (\<forall>h m. fst s = Some h \<longrightarrow> m \<le> h \<longrightarrow> h - m \<le> wsize w \<longrightarrow> (m \<in> snd s \<longleftrightarrow> tracked w m))"

lemma rw_refines_verdict:
  assumes "rw_refines w s"
  shows "rw_accept w n = None \<longleftrightarrow> spec_accept (wsize w) s n = None"
proof (cases "fst s")
  case None
  with assms have "rw_inv w" "highest w = None" "snd s = {}" by (auto simp: rw_refines_def)
  with None show ?thesis by (simp add: rw_accept_None spec_accept_def)
next
  case (Some h)
  with assms have inv: "rw_inv w" and top: "highest w = Some h" and le: "m \<in> snd s \<Longrightarrow> m \<le> h"
    and mem: "m \<le> h \<Longrightarrow> h - m \<le> wsize w \<Longrightarrow> m \<in> snd s \<longleftrightarrow> tracked w m" for m
    by (auto simp: rw_refines_def)
  have "rw_accept w n = None \<longleftrightarrow> n \<le> h \<and> (wsize w < h - n \<or> tracked w n)"
    using rw_accept_None [OF inv] top by simp
  moreover have "spec_accept (wsize w) s n = None \<longleftrightarrow> n \<in> snd s \<or> wsize w < h - n"
    using Some by (simp add: spec_accept_def)
  ultimately show ?thesis using le [of n] mem [of n] by (cases "wsize w < h - n") auto
qed

lemma rw_refines_step:
  assumes R: "rw_refines w s" and w': "rw_accept w n = Some w'"
    and s': "spec_accept (wsize w) s n = Some s'"
  shows "rw_refines w' s' \<and> wsize w' = wsize w"
proof -
  have inv: "rw_inv w" and top: "highest w = fst s" using R by (simp_all add: rw_refines_def)
  from s' have fs': "fst s' = Some (case fst s of None \<Rightarrow> n | Some h \<Rightarrow> max h n)"
    and ss': "snd s' = insert n (snd s)"
    by (auto simp: spec_accept_def split: if_splits)
  note fr = rw_accept_frame [OF inv w']
  have le: "\<exists>h. fst s' = Some h \<and> m \<le> h" if "m \<in> snd s'" for m
    using that R unfolding fs' ss' rw_refines_def by (fastforce split: option.splits)
  have mem: "m \<in> snd s' \<longleftrightarrow> tracked w' m"
    if h': "fst s' = Some h'" and m: "m \<le> h'" "h' - m \<le> wsize w" for h' m
  proof -
    have t: "tracked w' m \<longleftrightarrow> m = n \<or> tracked w m"
      using fr fs' top h' m by (intro tracked_accept [OF inv w']) auto
    have "m \<in> snd s \<longleftrightarrow> tracked w m" if "m \<noteq> n"
    proof (cases "fst s")
      case None
      with R top show ?thesis by (auto simp: rw_refines_def tracked_def)
    next
      case (Some h)
      have "m \<le> h \<Longrightarrow> h - m \<le> wsize w" using fs' h' m Some by auto
      moreover have "m \<notin> snd s \<and> \<not> tracked w m" if "h < m"
        using R Some top that by (auto simp: rw_refines_def tracked_def)
      ultimately show ?thesis using R Some by (cases "m \<le> h") (auto simp: rw_refines_def)
    qed
    with t ss' show ?thesis by auto
  qed
  show ?thesis
    using fr le mem top fs' by (auto simp: rw_refines_def)
qed

lemma rw_refines_new: "rw_refines (replay_window_new sz) (None, {})"
  using rw_inv_new [of sz] by (simp add: rw_refines_def replay_window_new_def Let_def)

interpretation rw: ordered_filter rw_accept rw_inv highest
proof unfold_locales
  fix w n w'
  assume inv: "rw_inv w" and acc: "rw_accept w n = Some w'"
  note fr = rw_accept_frame [OF inv acc]
  show "rw_inv w'" using fr by simp
  show "highest w' = Some (case highest w of None \<Rightarrow> n | Some h \<Rightarrow> max h n)" using fr by simp
  obtain h' where h': "highest w' = Some h'" "n \<le> h'" using fr by (auto split: option.splits)
  have "tracked w' n" if "h' - n \<le> wsize w"
    using tracked_accept [OF inv acc h' that] by simp
  then show "rw_accept w' n = None"
    using fr h' by (cases "h' - n \<le> wsize w") (auto simp: rw_accept_None)
  fix m
  assume ref: "rw_accept w m = None"
  then obtain h where h: "highest w = Some h" "m \<le> h" "wsize w < h - m \<or> tracked w m"
    using rw_accept_None [OF inv] by auto
  have hh: "h \<le> h'" using fr h h' by auto
  have "tracked w' m" if "h' - m \<le> wsize w"
    using tracked_accept [OF inv acc h'(1) _ that] h hh that by auto
  then show "rw_accept w' m = None"
    using fr h h' hh by (cases "h' - m \<le> wsize w") (auto simp: rw_accept_None)
next
  fix w n
  assume "rw_inv w" and "\<forall>h\<in>set_option (highest w). h < n"
  then show "\<exists>w'. rw_accept w n = Some w'"
    using rw_accept_None [of w n] by auto
qed

interpretation rw_ref: filter_refinement rw_accept "spec_accept width"
    "\<lambda>w s. rw_refines w s \<and> wsize w = width" for width
proof unfold_locales
  fix w s n
  assume "rw_refines w s \<and> wsize w = width"
  then show "rw_accept w n = None \<longleftrightarrow> spec_accept width s n = None"
    using rw_refines_verdict [of w s n] by simp
next
  fix w s n w' s'
  assume "rw_refines w s \<and> wsize w = width" and "rw_accept w n = Some w'"
    and "spec_accept width s n = Some s'"
  then show "rw_refines w' s' \<and> wsize w' = width" using rw_refines_step [of w s n w' s'] by simp
qed

lemma wsize_new: "wsize (replay_window_new sz) = 64 * div_ceil (max 64 (min sz MAX_REPLAY_WINDOW_SIZE)) 64"
  by (simp add: replay_window_new_def Let_def)

section \<open>Properties\<close>

text \<open>C4. A fresh window of any requested size gives every arrival, in any order, the verdict of
  the specification that remembers all nonces ever accepted: a nonce is accepted exactly when
  it was never accepted before and is at most the window width below the highest one.\<close>

theorem replay_window_matches_spec:
  "fst (run_filter rw_accept (replay_window_new sz) ns)
     = fst (run_filter (spec_accept (wsize (replay_window_new sz))) (None, {}) ns)"
  using rw_ref.run_refines [where width = "wsize (replay_window_new sz)"] rw_refines_new
  by blast

text \<open>The width that \<open>new\<close> chooses is a whole number of 64-bit words, between 64 and
  \<open>MAX_REPLAY_WINDOW_SIZE\<close>, at least the requested size as far as the cap allows, and the
  bitmap has exactly one bit per nonce of the width.\<close>

lemma replay_window_new_bounds:
  "64 \<le> wsize (replay_window_new sz) \<and> wsize (replay_window_new sz) \<le> MAX_REPLAY_WINDOW_SIZE
   \<and> min sz MAX_REPLAY_WINDOW_SIZE \<le> wsize (replay_window_new sz)
   \<and> 64 * length (bits (replay_window_new sz)) = wsize (replay_window_new sz)"
proof -
  define m where "m = max 64 (min sz MAX_REPLAY_WINDOW_SIZE)"
  have m: "64 \<le> m" "m \<le> 65536" "min sz MAX_REPLAY_WINDOW_SIZE \<le> m"
    by (auto simp: m_def MAX_REPLAY_WINDOW_SIZE_def)
  have "64 * ((m + 63) div 64) + (m + 63) mod 64 = m + 63" by simp
  moreover have "(m + 63) mod 64 < 64" by simp
  ultimately have "m \<le> 64 * ((m + 63) div 64)" by linarith
  moreover have "(m + 63) div 64 \<le> (65536 + 63) div 64" using m(2) by (intro div_le_mono) simp
  ultimately show ?thesis
    using m by (auto simp: replay_window_new_def Let_def div_ceil_def m_def [symmetric]
        MAX_REPLAY_WINDOW_SIZE_def)
qed

end
