(* ===== verification/Session_Cipher.thy ===== *)
theory Session_Cipher
  imports Replay_Window "HOL-Library.Multiset"
begin

text \<open>
  The session ciphers and key-derivation helpers of \<open>shph-core/src/crypto.rs\<close>:
  \<open>SendCipher::encrypt\<close>, \<open>ReceiveCipher::decrypt\<close> with both replay modes, \<open>nonce_counter\<close>,
  \<open>constant_time_eq\<close> and \<open>hkdf_sha256_into\<close>.  ChaCha20-Poly1305 and HKDF-SHA256 are
  library code: they are the parameters \<open>aead\<close> and \<open>hkdf\<close>, with the laws used here as
  \<open>aead_ok\<close>.  The lemmas give the counters a sender uses, show that a failed decryption
  leaves the receiver as it was, and lift both to runs of a session.
\<close>

section \<open>Constant-time comparison\<close>

definition or_xor :: "byte \<Rightarrow> byte \<times> byte \<Rightarrow> byte" where
  "or_xor diff xy = diff OR (fst xy XOR snd xy)"

definition constant_time_eq :: "bytes \<Rightarrow> bytes \<Rightarrow> bool" where
  "constant_time_eq a b =
     (if length a \<noteq> length b then False
      else foldl or_xor 0 (zip a b) = 0)"

lemma byte_or_zero: "x OR y = 0 \<longleftrightarrow> x = 0 \<and> y = (0 :: byte)"
  by (auto simp: bit_eq_iff bit_simps)

lemma xor_eq_0: "x XOR y = 0 \<longleftrightarrow> x = (y :: byte)"
  by (auto simp: bit_eq_iff bit_simps)

lemma foldl_or_xor_zero:
  "foldl or_xor d ps = 0 \<longleftrightarrow> d = 0 \<and> (\<forall>p\<in>set ps. fst p = snd p)"
  by (induction ps arbitrary: d) (auto simp: or_xor_def byte_or_zero xor_eq_0)

lemma zip_all_eq: "length a = length b \<Longrightarrow> (\<forall>p\<in>set (zip a b). fst p = snd p) \<longleftrightarrow> a = b"
  by (induction a b rule: list_induct2) auto

lemma constant_time_eq_iff [simp]: "constant_time_eq a b \<longleftrightarrow> a = b"
  by (auto simp: constant_time_eq_def foldl_or_xor_zero zip_all_eq)

section \<open>Key derivation\<close>

definition MAX_HKDF_OUTPUT_BYTES :: usize where "MAX_HKDF_OUTPUT_BYTES = 255 * 32"
definition MAX_HKDF_CONTEXT_BYTES :: usize where "MAX_HKDF_CONTEXT_BYTES = 256 * 1024"
definition STACK_SALT_BYTES :: usize where "STACK_SALT_BYTES = 256"

text \<open>\<open>hkdf salt ikm n\<close> stands for \<open>Hkdf::<Sha256>::new(Some(salt), ikm).expand(&[], out)\<close> with an
  \<open>n\<close>-byte output; \<open>None\<close> is an invalid output length.\<close>

type_synonym hkdf = "bytes \<Rightarrow> bytes \<Rightarrow> nat \<Rightarrow> bytes option"

fun checked_total :: "nat \<Rightarrow> bytes list \<Rightarrow> nat option" where
  "checked_total acc [] = Some acc"
| "checked_total acc (p # ps) =
     (case checked_add usize_max acc (length p) of None \<Rightarrow> None | Some t \<Rightarrow> checked_total t ps)"

fun fill_salt :: "bytes \<Rightarrow> nat \<Rightarrow> bytes list \<Rightarrow> bytes" where
  "fill_salt salt off [] = salt"
| "fill_salt salt off (p # ps) = fill_salt (write_at salt off p) (off + length p) ps"

definition hkdf_sha256_into :: "hkdf \<Rightarrow> bytes \<Rightarrow> bytes list \<Rightarrow> nat \<Rightarrow> bytes result" where
  "hkdf_sha256_into H input_key info output_len =
     (if MAX_HKDF_OUTPUT_BYTES < output_len then
        Err (Crypto ''HKDF output exceeds the SHA-256 expansion limit'')
      else case checked_total 0 info of
        None \<Rightarrow> Err (Crypto ''HKDF context length overflow'')
      | Some salt_len \<Rightarrow>
          if MAX_HKDF_CONTEXT_BYTES < salt_len then
            Err (Crypto ''HKDF context exceeds the 256 KiB safety limit'')
          else if salt_len \<le> STACK_SALT_BYTES then
            ok_or (Crypto ''invalid number of blocks, too large output'')
              (H (take salt_len (fill_salt (replicate STACK_SALT_BYTES 0) 0 info)) input_key output_len)
          else
            ok_or (Crypto ''invalid number of blocks, too large output'')
              (H (concat info) input_key output_len))"

definition hkdf_sha256 :: "hkdf \<Rightarrow> bytes \<Rightarrow> bytes list \<Rightarrow> nat \<Rightarrow> bytes result" where
  "hkdf_sha256 H input_key info output_len =
     (if MAX_HKDF_OUTPUT_BYTES < output_len then
        Err (Crypto ''HKDF output exceeds the SHA-256 expansion limit'')
      else hkdf_sha256_into H input_key info output_len)"

lemma checked_total_Some:
  "checked_total t ps = Some n \<Longrightarrow> n = t + length (concat ps)"
  by (induction ps arbitrary: t) (fastforce simp: range_simps split: option.splits)+

lemma checked_total_small:
  "t + length (concat ps) \<le> usize_max \<Longrightarrow> checked_total t ps = Some (t + length (concat ps))"
  by (induction ps arbitrary: t) (auto simp: checked_add_def)

lemma checked_total_large:
  "usize_max < t + length (concat ps) \<Longrightarrow> t \<le> usize_max \<Longrightarrow> checked_total t ps = None"
  by (induction ps arbitrary: t) (auto simp: checked_add_def)

lemma fill_salt_layout:
  "length pre = off \<Longrightarrow> length (concat ps) \<le> n \<Longrightarrow>
   fill_salt (pre @ replicate n 0) off ps = pre @ concat ps @ replicate (n - length (concat ps)) 0"
proof (induction ps arbitrary: pre off n)
  case Nil
  then show ?case by simp
next
  case (Cons p ps)
  then show ?case
    using Cons.IH [of "pre @ p" "off + length p" "n - length p"]
    by (simp add: codec_simps)
qed

lemma hkdf_sha256_into_eq:
  "hkdf_sha256_into H ikm info n =
     (if MAX_HKDF_OUTPUT_BYTES < n then
        Err (Crypto ''HKDF output exceeds the SHA-256 expansion limit'')
      else if usize_max < length (concat info) then Err (Crypto ''HKDF context length overflow'')
      else if MAX_HKDF_CONTEXT_BYTES < length (concat info) then
        Err (Crypto ''HKDF context exceeds the 256 KiB safety limit'')
      else ok_or (Crypto ''invalid number of blocks, too large output'') (H (concat info) ikm n))"
proof -
  have "take (length (concat info)) (fill_salt (replicate STACK_SALT_BYTES 0) 0 info) = concat info"
    if "length (concat info) \<le> STACK_SALT_BYTES"
    using that fill_salt_layout [of "[]" 0 info STACK_SALT_BYTES] by simp
  then show ?thesis
    using checked_total_small [of 0 info] checked_total_large [of 0 info]
    by (auto simp: hkdf_sha256_into_def not_less)
qed

section \<open>The sending cipher\<close>

record aead =
  aead_encrypt :: "bytes \<Rightarrow> bytes \<Rightarrow> bytes \<Rightarrow> bytes option"
  aead_decrypt :: "bytes \<Rightarrow> bytes \<Rightarrow> bytes \<Rightarrow> bytes option"

text \<open>Decryption under the same key and nonce inverts encryption.\<close>

definition aead_ok :: "aead \<Rightarrow> bool" where
  "aead_ok A \<longleftrightarrow> (\<forall>k n p. \<forall>c\<in>set_option (aead_encrypt A k n p). aead_decrypt A k n c = Some p)"

definition AEAD_NONCE_LIMIT :: u64 where "AEAD_NONCE_LIMIT = 2 ^ 32 - 1"

record send_cipher =
  skey :: bytes
  snonce :: u64

definition send_cipher_new :: "bytes \<Rightarrow> send_cipher" where
  "send_cipher_new key = \<lparr>skey = key, snonce = 0\<rparr>"

definition nonce_bytes :: "u64 \<Rightarrow> bytes" where
  "nonce_bytes n = write_at (replicate 12 0) 4 (be_bytes 8 n)"

definition encrypt :: "aead \<Rightarrow> send_cipher \<Rightarrow> bytes \<Rightarrow> bytes result \<times> send_cipher" where
  "encrypt A s plaintext =
     (if AEAD_NONCE_LIMIT \<le> snonce s then
        (Err (Crypto ''AEAD nonce limit reached; rekey required to avoid nonce reuse''), s)
      else if length (skey s) \<noteq> 32 then (Err (Crypto ''Invalid Length''), s)
      else case aead_encrypt A (skey s) (nonce_bytes (snonce s)) plaintext of
             None \<Rightarrow> (Err (Crypto ''aead::Error''), s)
           | Some ciphertext \<Rightarrow>
               (Ok (nonce_bytes (snonce s) @ ciphertext), s\<lparr>snonce := snonce s + 1\<rparr>))"

section \<open>The receiving cipher\<close>

datatype replay_state = Strict "u64 option" | Window replay_window

record receive_cipher =
  rkey :: bytes
  replay :: replay_state

definition receive_cipher_new :: "bytes \<Rightarrow> receive_cipher" where
  "receive_cipher_new key = \<lparr>rkey = key, replay = Strict None\<rparr>"

definition receive_cipher_new_with_replay_window :: "bytes \<Rightarrow> usize \<Rightarrow> receive_cipher" where
  "receive_cipher_new_with_replay_window key sz =
     \<lparr>rkey = key, replay = Window (replay_window_new sz)\<rparr>"

definition nonce_counter :: "bytes \<Rightarrow> u64 result" where
  "nonce_counter nb =
     (if length nb < 12 then Err (Crypto ''nonce too short'')
      else if slice nb 0 4 \<noteq> replicate 4 0 then
        Err (Crypto ''nonce prefix is not in canonical SHPH form'')
      else Ok (of_be (slice nb 4 12)))"

fun replay_candidate :: "replay_state \<Rightarrow> u64 \<Rightarrow> replay_window option result" where
  "replay_candidate (Strict lst) counter =
     (if \<exists>l\<in>set_option lst. counter \<le> l then Err (Crypto ''replay or stale nonce rejected'')
      else Ok None)"
| "replay_candidate (Window w) counter =
     (case check_and_insert w counter of
        (False, _) \<Rightarrow> Err (Crypto ''replay or stale nonce rejected'')
      | (True, candidate) \<Rightarrow> Ok (Some candidate))"

fun replay_commit :: "replay_state \<Rightarrow> u64 \<Rightarrow> replay_window option \<Rightarrow> replay_state" where
  "replay_commit (Strict _) counter None = Strict (Some counter)"
| "replay_commit (Window _) counter (Some w) = Window w"
| "replay_commit st counter _ = st"  \<comment> \<open>\<open>unreachable!\<close>\<close>

definition decrypt :: "aead \<Rightarrow> receive_cipher \<Rightarrow> bytes \<Rightarrow> bytes result \<times> receive_cipher" where
  "decrypt A r ciphertext =
     (if length (rkey r) \<noteq> 32 then (Err (Crypto ''Invalid Length''), r)
      else if length ciphertext < 12 then (Err (Crypto ''ciphertext too short''), r)
      else case nonce_counter (take 12 ciphertext) of
        Err e \<Rightarrow> (Err e, r)
      | Ok counter \<Rightarrow>
          (case replay_candidate (replay r) counter of
             Err e \<Rightarrow> (Err e, r)
           | Ok candidate \<Rightarrow>
               (case aead_decrypt A (rkey r) (take 12 ciphertext) (drop 12 ciphertext) of
                  None \<Rightarrow> (Err (Crypto ''aead::Error''), r)
                | Some plaintext \<Rightarrow>
                    (Ok plaintext, r\<lparr>replay := replay_commit (replay r) counter candidate\<rparr>))))"

section \<open>Counters and single steps\<close>

lemma nonce_bytes_layout: "nonce_bytes n = replicate 4 0 @ be_bytes 8 n"
  by (simp add: nonce_bytes_def write_at_def)

lemma length_nonce_bytes [simp]: "length (nonce_bytes n) = 12"
  by (simp add: nonce_bytes_layout)

lemma nonce_counter_nonce_bytes:
  "n \<le> u64_max \<Longrightarrow> nonce_counter (nonce_bytes n) = Ok n"
  by (simp add: nonce_counter_def nonce_bytes_layout slice_def u64_max_def of_be_be_bytes)

text \<open>The replay decision of \<open>decrypt\<close>, check and commit together, as a filter.\<close>

definition replay_accept :: "replay_state \<Rightarrow> nat \<Rightarrow> replay_state option" where
  "replay_accept st n = (case replay_candidate st n of
     Err _ \<Rightarrow> None | Ok c \<Rightarrow> Some (replay_commit st n c))"

fun replay_inv :: "replay_state \<Rightarrow> bool" where
  "replay_inv (Strict lst) = True"
| "replay_inv (Window w) = rw_inv w"

fun replay_top :: "replay_state \<Rightarrow> nat option" where
  "replay_top (Strict lst) = lst"
| "replay_top (Window w) = highest w"

lemma replay_accept_Strict:
  "replay_accept (Strict lst) n = (if \<exists>l\<in>set_option lst. n \<le> l then None else Some (Strict (Some n)))"
  by (simp add: replay_accept_def)

lemma replay_accept_Window: "replay_accept (Window w) n = map_option Window (rw_accept w n)"
  by (auto simp: replay_accept_def rw_accept_def split: prod.splits bool.splits)

interpretation rs: ordered_filter replay_accept replay_inv replay_top
proof unfold_locales
  fix w n w'
  assume "replay_inv w" and "replay_accept w n = Some w'"
  then show "replay_inv w'" and "replay_accept w' n = None"
    and "replay_top w' = Some (case replay_top w of None \<Rightarrow> n | Some h \<Rightarrow> max h n)"
    by (cases w; auto simp: replay_accept_Strict replay_accept_Window rw.accept_once rw.top_accept
        split: if_splits option.splits intro: rw.accept_inv)+
  fix m
  assume "replay_accept w m = None"
  with \<open>replay_inv w\<close> \<open>replay_accept w n = Some w'\<close> show "replay_accept w' m = None"
    by (cases w) (auto simp: replay_accept_Strict replay_accept_Window split: if_splits
        intro: rw.refuse_stays)
next
  fix w n
  assume "replay_inv w" and "\<forall>h\<in>set_option (replay_top w). h < n"
  then show "\<exists>w'. replay_accept w n = Some w'"
    by (cases w) (use rw.accept_above in \<open>auto simp: replay_accept_Strict replay_accept_Window not_le\<close>)
qed

lemma encrypt_Ok:
  assumes "encrypt A s p = (Ok f, s')"
  shows "snonce s < AEAD_NONCE_LIMIT" and "length (skey s) = 32"
    and "\<exists>c. aead_encrypt A (skey s) (nonce_bytes (snonce s)) p = Some c \<and> f = nonce_bytes (snonce s) @ c"
    and "s' = s\<lparr>snonce := snonce s + 1\<rparr>"
  using assms by (auto simp: encrypt_def split: if_splits option.splits)

lemma encrypt_Err: "encrypt A s p = (Err e, s') \<Longrightarrow> s' = s"
  by (auto simp: encrypt_def split: if_splits option.splits)

lemma decrypt_Err: "decrypt A r c = (Err e, r') \<Longrightarrow> r' = r"
  by (auto simp: decrypt_def split: if_splits result.splits option.splits)

lemma decrypt_Ok:
  assumes "decrypt A r c = (Ok p, r')"
  shows "\<exists>n. nonce_counter (take 12 c) = Ok n \<and> replay_accept (replay r) n = Some (replay r')
    \<and> aead_decrypt A (rkey r) (take 12 c) (drop 12 c) = Some p \<and> rkey r' = rkey r"
  using assms by (auto simp: decrypt_def replay_accept_def split: if_splits result.splits option.splits)

lemma decrypt_sent:
  assumes "aead_ok A" and "length key = 32" and "n \<le> u64_max"
    and "aead_encrypt A key (nonce_bytes n) p = Some c"
    and "rkey r = key" and "replay_accept (replay r) n = Some st"
  shows "decrypt A r (nonce_bytes n @ c) = (Ok p, r\<lparr>replay := st\<rparr>)"
proof -
  from assms(1,4) have "aead_decrypt A key (nonce_bytes n) c = Some p"
    by (auto simp: aead_ok_def)
  with assms show ?thesis
    by (auto simp: decrypt_def nonce_counter_nonce_bytes replay_accept_def split: result.splits)
qed

section \<open>Sessions\<close>

text \<open>A sender encrypting messages one after the other, and a receiver decrypting whatever
  byte strings arrive.  An \<open>Err\<close> in the sender's run is a refused message.\<close>

fun send_run :: "aead \<Rightarrow> send_cipher \<Rightarrow> bytes list \<Rightarrow> bytes result list \<times> send_cipher" where
  "send_run A s [] = ([], s)"
| "send_run A s (p # ps) =
     (case encrypt A s p of (f, s') \<Rightarrow> (f # fst (send_run A s' ps), snd (send_run A s' ps)))"

fun recv_run :: "aead \<Rightarrow> receive_cipher \<Rightarrow> bytes list \<Rightarrow> bytes result list \<times> receive_cipher" where
  "recv_run A r [] = ([], r)"
| "recv_run A r (c # cs) =
     (case decrypt A r c of (p, r') \<Rightarrow> (p # fst (recv_run A r' cs), snd (recv_run A r' cs)))"

text \<open>The frames a receiver delivered, with their plaintexts.\<close>

definition delivered :: "aead \<Rightarrow> receive_cipher \<Rightarrow> bytes list \<Rightarrow> (bytes \<times> bytes) list" where
  "delivered A r cs = List.map_filter
     (\<lambda>(c, p). case p of Ok x \<Rightarrow> Some (c, x) | Err _ \<Rightarrow> None) (zip cs (fst (recv_run A r cs)))"

lemma length_recv_run [simp]: "length (fst (recv_run A r cs)) = length cs"
  by (induction cs arbitrary: r) (auto split: prod.splits)

lemma delivered_Nil [simp]: "delivered A r [] = []"
  by (simp add: delivered_def map_filter_def)

lemma delivered_Cons:
  "delivered A r (c # cs) = (case decrypt A r c of
     (Ok p, r') \<Rightarrow> (c, p) # delivered A r' cs | (Err e, r') \<Rightarrow> delivered A r cs)"
  by (auto simp: delivered_def map_filter_def split: prod.splits result.splits dest: decrypt_Err)

fun frame_counter :: "bytes \<Rightarrow> u64" where
  "frame_counter c = (case nonce_counter (take 12 c) of Ok n \<Rightarrow> n | Err _ \<Rightarrow> 0)"

lemma delivered_run_filter:
  "fst (run_filter replay_accept (replay r) (map (frame_counter \<circ> fst) (delivered A r cs)))
     = map (frame_counter \<circ> fst) (delivered A r cs)"
proof (induction cs arbitrary: r)
  case Nil
  then show ?case by simp
next
  case (Cons c cs)
  show ?case
  proof (cases "decrypt A r c")
    case (Pair p r')
    show ?thesis
    proof (cases p)
      case (Ok x)
      with Pair decrypt_Ok [of A r c x r'] obtain n where
        "nonce_counter (take 12 c) = Ok n" "replay_accept (replay r) n = Some (replay r')" by auto
      with Pair Ok Cons.IH [of r'] show ?thesis by (simp add: delivered_Cons)
    next
      case (Err e)
      with Pair Cons.IH [of r] show ?thesis by (simp add: delivered_Cons)
    qed
  qed
qed

fun ok_values :: "'a result list \<Rightarrow> 'a list" where
  "ok_values [] = []"
| "ok_values (Ok x # rs) = x # ok_values rs"
| "ok_values (Err e # rs) = ok_values rs"

lemma frame_counter_sent:
  assumes "encrypt A s p = (Ok f, s')"
  shows "frame_counter f = snonce s" and "12 \<le> length f"
proof -
  from encrypt_Ok [OF assms] obtain c where f: "f = nonce_bytes (snonce s) @ c"
    and "snonce s < AEAD_NONCE_LIMIT" by auto
  then have "snonce s \<le> u64_max" by (simp add: AEAD_NONCE_LIMIT_def u64_max_def)
  then show "frame_counter f = snonce s" and "12 \<le> length f"
    by (simp_all add: f nonce_counter_nonce_bytes)
qed

lemma send_run_mono: "snonce s \<le> snonce (snd (send_run A s ps))"
proof (induction ps arbitrary: s)
  case (Cons p ps)
  show ?case
  proof (cases "encrypt A s p")
    case (Pair f s')
    then have "snonce s \<le> snonce s'"
      by (cases f) (auto dest: encrypt_Err encrypt_Ok(4))
    with Pair Cons.IH [of s'] show ?thesis by simp
  qed
qed simp

lemma send_run_limit:
  "snonce (snd (send_run A s ps)) \<le> max (snonce s) AEAD_NONCE_LIMIT"
proof (induction ps arbitrary: s)
  case (Cons p ps)
  show ?case
  proof (cases "encrypt A s p")
    case (Pair f s')
    then have "max (snonce s') AEAD_NONCE_LIMIT \<le> max (snonce s) AEAD_NONCE_LIMIT"
      using encrypt_Ok(1,4) [of A s p _ s'] by (cases f) (auto dest: encrypt_Err)
    with Pair Cons.IH [of s'] show ?thesis by (simp del: max.bounded_iff)
  qed
qed simp

lemma delivered_inv_distinct:
  "replay_inv (replay r) \<Longrightarrow> distinct (map (frame_counter \<circ> fst) (delivered A r cs))"
  using rs.run_distinct delivered_run_filter by metis

lemma fresh_receiver:
  assumes "r \<in> {receive_cipher_new key, receive_cipher_new_with_replay_window key sz}"
  shows "rkey r = key" and "replay_inv (replay r)" and "replay_top (replay r) = None"
  using assms by (auto simp: receive_cipher_new_def receive_cipher_new_with_replay_window_def
      rw_inv_new) (simp add: replay_window_new_def Let_def)

lemma in_order_step:
  assumes A: "aead_ok A" and inv: "replay_inv (replay r)" and key: "rkey r = skey s"
    and top: "\<forall>h\<in>set_option (replay_top (replay r)). h < snonce s"
    and enc: "encrypt A s p = (Ok f, s')"
  obtains r' where "decrypt A r f = (Ok p, r')" "replay_inv (replay r')" "rkey r' = skey s'"
    "\<forall>h\<in>set_option (replay_top (replay r')). h < snonce s'"
proof -
  from encrypt_Ok [OF enc] obtain c where lim: "snonce s < AEAD_NONCE_LIMIT"
    and len: "length (skey s) = 32" and c: "aead_encrypt A (skey s) (nonce_bytes (snonce s)) p = Some c"
    and f: "f = nonce_bytes (snonce s) @ c" and s': "s' = s\<lparr>snonce := snonce s + 1\<rparr>" by auto
  from rs.accept_above [OF inv top] obtain st where
    st: "replay_accept (replay r) (snonce s) = Some st" ..
  from lim have "snonce s \<le> u64_max" by (simp add: AEAD_NONCE_LIMIT_def u64_max_def)
  from decrypt_sent [OF A len this c key st]
  have "decrypt A r f = (Ok p, r\<lparr>replay := st\<rparr>)" by (simp add: f)
  moreover from rs.accept_inv [OF inv st] have "replay_inv st" .
  moreover from rs.top_accept [OF inv st] have "replay_top st = Some (snonce s)"
    using top by (auto split: option.splits)
  ultimately show thesis using key s' by (intro that [of "r\<lparr>replay := st\<rparr>"]) auto
qed

text \<open>The frames a sender produced, with the message each carries.\<close>

fun sent :: "aead \<Rightarrow> send_cipher \<Rightarrow> bytes list \<Rightarrow> (bytes \<times> bytes) list" where
  "sent A s [] = []"
| "sent A s (p # ps) = (case encrypt A s p of
     (Ok f, s') \<Rightarrow> (f, p) # sent A s' ps | (Err e, s') \<Rightarrow> sent A s' ps)"

lemma sent_frame:
  "(f, p) \<in> set (sent A s ps) \<Longrightarrow>
   \<exists>n c. f = nonce_bytes n @ c \<and> aead_encrypt A (skey s) (nonce_bytes n) p = Some c
     \<and> snonce s \<le> n \<and> n < AEAD_NONCE_LIMIT"
proof (induction ps arbitrary: s)
  case (Cons q ps)
  show ?case
  proof (cases "encrypt A s q")
    case (Pair g s')
    show ?thesis
    proof (cases g)
      case (Ok x)
      with Pair have s': "skey s' = skey s" "snonce s' = snonce s + 1" and lim: "snonce s < AEAD_NONCE_LIMIT"
        and x: "\<exists>c. aead_encrypt A (skey s) (nonce_bytes (snonce s)) q = Some c \<and> x = nonce_bytes (snonce s) @ c"
        using encrypt_Ok [of A s q x s'] by auto
      from Cons.prems Pair Ok consider "f = x" "p = q" | "(f, p) \<in> set (sent A s' ps)" by auto
      then show ?thesis
      proof cases
        case 1
        with x lim show ?thesis by auto
      next
        case 2
        with Cons.IH [of s'] s' show ?thesis by fastforce
      qed
    next
      case (Err e)
      with Pair Cons show ?thesis by (auto dest: encrypt_Err)
    qed
  qed
qed simp

lemma delivered_decrypted:
  "(c, p) \<in> set (delivered A r cs) \<Longrightarrow>
   c \<in> set cs \<and> aead_decrypt A (rkey r) (take 12 c) (drop 12 c) = Some p"
proof (induction cs arbitrary: r)
  case (Cons d cs)
  show ?case
  proof (cases "decrypt A r d")
    case (Pair q r')
    show ?thesis
    proof (cases q)
      case (Ok x)
      with Pair decrypt_Ok [of A r d x r'] have "rkey r' = rkey r"
        and "aead_decrypt A (rkey r) (take 12 d) (drop 12 d) = Some x" by auto
      with Cons Pair Ok show ?thesis by (fastforce simp: delivered_Cons)
    next
      case (Err e)
      with Cons Pair show ?thesis by (auto simp: delivered_Cons)
    qed
  qed
qed simp

lemma mset_subset_if_distinct:
  "distinct xs \<Longrightarrow> set xs \<subseteq> set ys \<Longrightarrow> mset xs \<subseteq># mset ys"
proof (rule mset_subset_eqI)
  fix a
  assume "distinct xs" and sub: "set xs \<subseteq> set ys"
  then have "count (mset xs) a = (if a \<in> set xs then 1 else 0)"
    using distinct_count_atmost_1 [of xs] by simp
  moreover have "a \<in> set ys \<Longrightarrow> 0 < count (mset ys) a" by simp
  ultimately show "count (mset xs) a \<le> count (mset ys) a"
    using sub by (auto simp: Suc_le_eq)
qed

text \<open>A tag-checking cipher without secrecy, the concrete instance that the witnesses evaluate.\<close>

definition tag_aead :: aead where
  "tag_aead = \<lparr>aead_encrypt = (\<lambda>k n p. Some (p @ n)),
     aead_decrypt = (\<lambda>k n c. if drop (length c - length n) c = n
        then Some (take (length c - length n) c) else None)\<rparr>"

lemma tag_aead_ok: "aead_ok tag_aead"
  by (simp add: aead_ok_def tag_aead_def)

section \<open>Properties\<close>

text \<open>C6. Over any sequence of calls to \<open>encrypt\<close> the successful frames carry the consecutive
  counters from the cipher's starting nonce on, and the counter never passes
  \<open>AEAD_NONCE_LIMIT\<close>: no nonce is used twice under a key and the 64-bit counter cannot wrap.\<close>

theorem send_nonces_never_reused:
  "map frame_counter (ok_values (fst (send_run A (send_cipher_new key) ps)))
     = [0..<snonce (snd (send_run A (send_cipher_new key) ps))]
   \<and> snonce (snd (send_run A (send_cipher_new key) ps)) \<le> AEAD_NONCE_LIMIT"
proof -
  have "map frame_counter (ok_values (fst (send_run A s ps)))
      = [snonce s..<snonce (snd (send_run A s ps))]" for s
  proof (induction ps arbitrary: s)
    case (Cons p ps)
    show ?case
    proof (cases "encrypt A s p")
      case (Pair f s')
      show ?thesis
      proof (cases f)
        case (Ok x)
        with Pair have s': "s' = s\<lparr>snonce := snonce s + 1\<rparr>" by (auto dest: encrypt_Ok(4))
        with Pair Ok Cons.IH [of s'] frame_counter_sent(1) [of A s p x s'] send_run_mono [of s' A ps]
        show ?thesis by (simp add: upt_conv_Cons del: frame_counter.simps)
      next
        case (Err e)
        with Pair Cons.IH [of s'] show ?thesis by (auto dest: encrypt_Err)
      qed
    qed
  qed simp
  from this [of "send_cipher_new key"] send_run_limit [of A "send_cipher_new key" ps] show ?thesis
    by (simp add: send_cipher_new_def AEAD_NONCE_LIMIT_def)
qed

text \<open>C5. Whatever byte strings reach a receiver, in whatever order and however often, the
  frames it delivers have pairwise distinct counters, in strict mode and with a replay window
  of any size: no frame is delivered twice.\<close>

theorem no_frame_delivered_twice:
  "distinct (map (frame_counter \<circ> fst) (delivered A (receive_cipher_new key) cs))
   \<and> distinct (map (frame_counter \<circ> fst)
       (delivered A (receive_cipher_new_with_replay_window key sz) cs))"
  by (intro conjI delivered_inv_distinct)
    (simp_all add: receive_cipher_new_def receive_cipher_new_with_replay_window_def rw_inv_new)

lemma in_order_delivery:
  assumes A: "aead_ok A" and key: "length key = 32"
    and few: "length msgs \<le> AEAD_NONCE_LIMIT"
    and enc: "\<forall>n. \<forall>p\<in>set msgs. aead_encrypt A key (nonce_bytes n) p \<noteq> None"
    and r: "r \<in> {receive_cipher_new key, receive_cipher_new_with_replay_window key sz}"
  shows "fst (recv_run A r (ok_values (fst (send_run A (send_cipher_new key) msgs)))) = map Ok msgs"
proof -
  have "fst (recv_run A r (ok_values (fst (send_run A s ps)))) = map Ok ps"
    if "replay_inv (replay r)" "rkey r = skey s" "skey s = key" "set ps \<subseteq> set msgs"
      "\<forall>h\<in>set_option (replay_top (replay r)). h < snonce s" "snonce s + length ps \<le> AEAD_NONCE_LIMIT"
    for r s ps
    using that
  proof (induction ps arbitrary: r s)
    case (Cons p ps)
    from Cons.prems enc obtain c where "aead_encrypt A key (nonce_bytes (snonce s)) p = Some c"
      by fastforce
    with Cons.prems key obtain f s' where e: "encrypt A s p = (Ok f, s')"
      by (simp add: encrypt_def)
    from in_order_step [OF A Cons.prems(1,2,5) e] obtain r' where r':
      "decrypt A r f = (Ok p, r')" "replay_inv (replay r')" "rkey r' = skey s'"
      "\<forall>h\<in>set_option (replay_top (replay r')). h < snonce s'" .
    have "skey s' = key" "snonce s' + length ps \<le> AEAD_NONCE_LIMIT"
      using encrypt_Ok(4) [OF e] Cons.prems by auto
    with r' Cons.IH [of r' s'] Cons.prems e show ?case by simp
  qed simp
  from this [of r "send_cipher_new key" msgs] fresh_receiver [OF r] few show ?thesis
    by (simp add: send_cipher_new_def)
qed

text \<open>An uninterrupted session delivers every message: if the AEAD decrypts what it
  encrypted and accepts the messages, and there are at most \<open>AEAD_NONCE_LIMIT\<close> of them, then
  the receiver, strict or windowed, turns the sender's frames back into the messages in order.\<close>

lemma session_delivers_in_order:
  assumes "aead_ok A" and "length key = 32" and "length msgs \<le> AEAD_NONCE_LIMIT"
    and "\<forall>n. \<forall>p\<in>set msgs. aead_encrypt A key (nonce_bytes n) p \<noteq> None"
    and "r \<in> {receive_cipher_new key, receive_cipher_new_with_replay_window key sz}"
  shows "fst (recv_run A r (ok_values (fst (send_run A (send_cipher_new key) msgs)))) = map Ok msgs"
  using assms by (rule in_order_delivery)

text \<open>A frame is authentic under a key when the AEAD opens it; this does not depend on what a receiver has seen.\<close>

definition authentic :: "aead \<Rightarrow> bytes \<Rightarrow> bytes \<Rightarrow> bool" where
  "authentic A key c \<longleftrightarrow> aead_decrypt A key (take 12 c) (drop 12 c) \<noteq> None"

lemma decrypt_forged: "\<not> authentic A (rkey r) c \<Longrightarrow> \<exists>e. decrypt A r c = (Err e, r)"
  by (cases "decrypt A r c"; cases "fst (decrypt A r c)") (auto simp: authentic_def dest: decrypt_Err decrypt_Ok)

lemma decrypt_rkey: "rkey (snd (decrypt A r c)) = rkey r"
  by (cases "decrypt A r c"; cases "fst (decrypt A r c)") (auto dest: decrypt_Err decrypt_Ok)

lemma recv_run_authentic:
  "snd (recv_run A r cs) = snd (recv_run A r (filter (authentic A (rkey r)) cs))
   \<and> map snd (filter (authentic A (rkey r) \<circ> fst) (zip cs (fst (recv_run A r cs)))) = fst (recv_run A r (filter (authentic A (rkey r)) cs))
   \<and> (\<forall>(c, p)\<in>set (zip cs (fst (recv_run A r cs))). authentic A (rkey r) c \<or> (\<exists>e. p = Err e))"
proof (induction cs arbitrary: r)
  case (Cons c cs)
  show ?case
  proof (cases "authentic A (rkey r) c")
    case True
    then show ?thesis using Cons.IH [of "snd (decrypt A r c)"] decrypt_rkey [of A r c] by (auto split: prod.splits)
  next
    case False
    then obtain e where "decrypt A r c = (Err e, r)" using decrypt_forged by blast
    with False Cons.IH [of r] show ?thesis by auto
  qed
qed simp

lemma delivered_snd: "map snd (delivered A r cs) = ok_values (fst (recv_run A r cs))"
  by (induction cs arbitrary: r) (auto simp: delivered_Cons  split: prod.splits result.splits dest: decrypt_Err)

lemma recv_run_authentic_values:
  "ok_values (fst (recv_run A r cs)) = ok_values (fst (recv_run A r (filter (authentic A (rkey r)) cs)))"
proof (induction cs arbitrary: r)
  case (Cons c cs)
  show ?case
  proof (cases "authentic A (rkey r) c")
    case True
    moreover obtain p r' where p: "decrypt A r c = (p, r')" by fastforce
    ultimately show ?thesis using Cons.IH [of r'] decrypt_rkey [of A r c] by (cases p) simp_all
  next
    case False
    then obtain e where "decrypt A r c = (Err e, r)" using decrypt_forged by blast
    with False Cons.IH [of r] show ?thesis by (auto simp: )
  qed
qed simp

text \<open>C7. Forged frames are harmless: whatever byte strings an attacker mixes into the arrivals, a receiver in any state answers the forged
  ones with an error, answers the authentic ones exactly as if the forged ones had never arrived, and ends in the same state.  So
  when the authentic arrivals are the sender's frames in order, a fresh receiver, strict or windowed, delivers every message,
  however many forgeries with whatever counters come in between.\<close>

theorem rejected_frames_are_harmless:
  assumes "aead_ok A" and "length key = 32" and "length msgs \<le> AEAD_NONCE_LIMIT"
    and "\<forall>n. \<forall>p\<in>set msgs. aead_encrypt A key (nonce_bytes n) p \<noteq> None"
    and "r \<in> {receive_cipher_new key, receive_cipher_new_with_replay_window key sz}"
    and "filter (authentic A key) cs = ok_values (fst (send_run A (send_cipher_new key) msgs))"
  shows "map snd (delivered A r cs) = msgs
   \<and> (\<forall>q ds. let good = authentic A (rkey q); answers = fst (recv_run A q ds) in
        snd (recv_run A q ds) = snd (recv_run A q (filter good ds))
      \<and> map snd (filter (good \<circ> fst) (zip ds answers)) = fst (recv_run A q (filter good ds))
      \<and> (\<forall>(c, p)\<in>set (zip ds answers). \<not> good c \<longrightarrow> (\<exists>e. p = Err e)))"
proof
  have "rkey r = key" using fresh_receiver(1) [OF assms(5)] .
  then have "map snd (delivered A r cs) = ok_values (map Ok msgs :: bytes result list)"
    using recv_run_authentic_values [of A r cs] in_order_delivery [OF assms(1-5)] assms(6) by (simp add: delivered_snd)
  also have "\<dots> = msgs" by (induction msgs) simp_all
  finally show "map snd (delivered A r cs) = msgs" .
qed (use recv_run_authentic [of A] in \<open>fastforce simp: Let_def\<close>)

theorem rejected_frames_are_harmless_witness:
  "map snd (delivered tag_aead (receive_cipher_new (replicate 32 7))
     [nonce_bytes 0 @ [2] @ nonce_bytes 0, nonce_bytes 9 @ [4] @ nonce_bytes 8, [1], nonce_bytes 1 @ [3] @ nonce_bytes 1]) = [[2], [3]]"
proof -
  have sent: "ok_values (fst (send_run tag_aead (send_cipher_new (replicate 32 7)) [[2], [3]]))
      = [nonce_bytes 0 @ [2] @ nonce_bytes 0, nonce_bytes 1 @ [3] @ nonce_bytes 1]"
    by (simp add: encrypt_def send_cipher_new_def tag_aead_def AEAD_NONCE_LIMIT_def )
  have auth: "filter (authentic tag_aead (replicate 32 7))
      [nonce_bytes 0 @ [2] @ nonce_bytes 0, nonce_bytes 9 @ [4] @ nonce_bytes 8, [1], nonce_bytes 1 @ [3] @ nonce_bytes 1]
    = [nonce_bytes 0 @ [2] @ nonce_bytes 0, nonce_bytes 1 @ [3] @ nonce_bytes 1]"
    by code_simp
  show ?thesis
    by (rule rejected_frames_are_harmless [OF tag_aead_ok _ _ _ _ trans [OF auth sent [symmetric]], THEN conjunct1])
      (simp_all add: AEAD_NONCE_LIMIT_def tag_aead_def)
qed

text \<open>C3. At-most-once delivery under arbitrary reordering, loss and replay: if only frames of
  the sender reach the receiver, in any order and any number of times, then the messages it
  delivers are a sub-multiset of the messages sent.\<close>

theorem at_most_once_delivery:
  assumes A: "aead_ok A"
    and cs: "set cs \<subseteq> set (map fst (sent A (send_cipher_new key) msgs))"
    and r: "r \<in> {receive_cipher_new key, receive_cipher_new_with_replay_window key sz}"
  shows "mset (map snd (delivered A r cs)) \<subseteq># mset (map snd (sent A (send_cipher_new key) msgs))"
proof -
  note key = fresh_receiver(1) [OF r] and inv = fresh_receiver(2) [OF r]
  have "x \<in> set (sent A (send_cipher_new key) msgs)" if x: "x \<in> set (delivered A r cs)" for x
  proof -
    obtain c p where cp: "x = (c, p)" by (cases x)
    from delivered_decrypted [of c p A r cs] x cs cp
    have d: "aead_decrypt A key (take 12 c) (drop 12 c) = Some p" and "c \<in> set cs"
      by (auto simp: key)
    then obtain q where q: "(c, q) \<in> set (sent A (send_cipher_new key) msgs)" using cs by auto
    from sent_frame [OF q] obtain n ct where "c = nonce_bytes n @ ct"
      and "aead_encrypt A key (nonce_bytes n) q = Some ct" by (auto simp: send_cipher_new_def)
    with A d have "p = q" by (fastforce simp: aead_ok_def)
    with q cp show ?thesis by simp
  qed
  moreover have "distinct (delivered A r cs)"
    using delivered_inv_distinct [OF inv] distinct_map by blast
  ultimately have "mset (delivered A r cs) \<subseteq># mset (sent A (send_cipher_new key) msgs)"
    by (intro mset_subset_if_distinct) auto
  then show ?thesis by (metis image_mset_subseteq_mono mset_map)
qed

theorem at_most_once_delivery_witness:
  "mset (map snd (delivered tag_aead (receive_cipher_new (replicate 32 7))
       [nonce_bytes 1 @ [3] @ nonce_bytes 1, nonce_bytes 0 @ [2] @ nonce_bytes 0,
        nonce_bytes 1 @ [3] @ nonce_bytes 1]))
     \<subseteq># mset [[2], [3]]"
proof -
  have sent: "sent tag_aead (send_cipher_new (replicate 32 7)) [[2], [3]]
      = [(nonce_bytes 0 @ [2] @ nonce_bytes 0, [2]), (nonce_bytes 1 @ [3] @ nonce_bytes 1, [3])]"
    by (simp add: encrypt_def send_cipher_new_def tag_aead_def AEAD_NONCE_LIMIT_def)
  show ?thesis
    using at_most_once_delivery [OF tag_aead_ok, of
        "[nonce_bytes 1 @ [3] @ nonce_bytes 1, nonce_bytes 0 @ [2] @ nonce_bytes 0,
          nonce_bytes 1 @ [3] @ nonce_bytes 1]" "replicate 32 7" "[[2], [3]]"
        "receive_cipher_new (replicate 32 7)"]
    by (simp add: sent del: sent.simps)
qed

text \<open>\<open>hkdf_sha256_into\<close> feeds HKDF with the concatenation of the context parts as salt,
  whether the parts are gathered in the 256-byte stack buffer or in an allocation, and rejects
  output and context lengths above their limits before it derives anything.\<close>

lemma hkdf_sha256_into_spec:
  "hkdf_sha256_into H ikm info n =
     (if MAX_HKDF_OUTPUT_BYTES < n then
        Err (Crypto ''HKDF output exceeds the SHA-256 expansion limit'')
      else if usize_max < length (concat info) then Err (Crypto ''HKDF context length overflow'')
      else if MAX_HKDF_CONTEXT_BYTES < length (concat info) then
        Err (Crypto ''HKDF context exceeds the 256 KiB safety limit'')
      else ok_or (Crypto ''invalid number of blocks, too large output'') (H (concat info) ikm n))"
  by (rule hkdf_sha256_into_eq)

end
