(* ===== verification/Identity.thy ===== *)
theory Identity
  imports Session_Cipher
begin

text \<open>
  Identities, the post-quantum key encapsulation wrapper and the cryptographic suite they rest on:
  \<open>IdentityKeyPair\<close> of \<open>shph-core/src/crypto.rs\<close>, \<open>shph-core/src/pqc.rs\<close> and
  \<open>compute_fingerprint_hex\<close> of \<open>shph-core/src/keystore.rs\<close>.  X25519, Ed25519, ML-KEM-768, SHA-256,
  HKDF, base64 and hex are library code: they are the fields of the record \<open>suite\<close>, and \<open>suite_ok\<close>
  states the documented behaviour that the handshake relies on.  Operating-system randomness is the
  generator parameter \<open>R\<close>.
\<close>

section \<open>The cryptographic suite\<close>

record suite =
  b64_enc :: "bytes \<Rightarrow> string"
  b64_dec :: "string \<Rightarrow> bytes option"
  hex_enc :: "bytes \<Rightarrow> string"
  x25519_base :: "bytes \<Rightarrow> bytes"
  x25519 :: "bytes \<Rightarrow> bytes \<Rightarrow> bytes"
  ed_public :: "bytes \<Rightarrow> bytes"
  ed_sign :: "bytes \<Rightarrow> bytes \<Rightarrow> bytes"
  ed_verify :: "bytes \<Rightarrow> bytes \<Rightarrow> bytes \<Rightarrow> bool"
  kem_public :: "bytes \<Rightarrow> bytes"
  kem_encaps :: "bytes \<Rightarrow> bytes \<Rightarrow> (bytes \<times> bytes) option"
  kem_decaps :: "bytes \<Rightarrow> bytes \<Rightarrow> bytes"
  sha256 :: "bytes \<Rightarrow> bytes"
  suite_hkdf :: hkdf

definition ML_KEM_768_CIPHERTEXT_BYTES :: usize where "ML_KEM_768_CIPHERTEXT_BYTES = 1088"
definition ML_KEM_768_PUBLIC_KEY_BYTES :: usize where "ML_KEM_768_PUBLIC_KEY_BYTES = 1184"

text \<open>Base64 decoding inverts encoding; X25519 commutes; a signature verifies under the signer's
  public key; decapsulation recovers the encapsulated secret; HKDF expands to any length up to 255 blocks; and the
  fixed sizes of keys, digests and ciphertexts.\<close>

definition suite_ok :: "suite \<Rightarrow> bool" where
  "suite_ok S \<longleftrightarrow>
     (\<forall>b. b64_dec S (b64_enc S b) = Some b)
   \<and> (\<forall>a b. x25519 S a (x25519_base S b) = x25519 S b (x25519_base S a))
   \<and> (\<forall>a p. length (x25519_base S a) = 32 \<and> length (x25519 S a p) = 32 \<and> length (ed_public S a) = 32)
   \<and> (\<forall>s m. ed_verify S (ed_public S s) m (ed_sign S s m))
   \<and> (\<forall>s. length (kem_public S s) = ML_KEM_768_PUBLIC_KEY_BYTES)
   \<and> (\<forall>s r. \<exists>ct ss. kem_encaps S (kem_public S s) r = Some (ct, ss) \<and> kem_decaps S s ct = ss
        \<and> length ct = ML_KEM_768_CIPHERTEXT_BYTES \<and> length ss = 32)
   \<and> (\<forall>m. length (sha256 S m) = 32)
   \<and> (\<forall>salt ikm n. n \<le> MAX_HKDF_OUTPUT_BYTES \<longrightarrow> (\<exists>k. suite_hkdf S salt ikm n = Some k \<and> length k = n))"

lemma suite_okD:
  assumes "suite_ok S"
  shows "b64_dec S (b64_enc S b) = Some b"
    and "x25519 S a (x25519_base S p) = x25519 S p (x25519_base S a)"
    and "length (x25519_base S a) = 32" and "length (x25519 S a q) = 32" and "length (ed_public S a) = 32"
    and "ed_verify S (ed_public S a) m (ed_sign S a m)"
    and "length (kem_public S a) = ML_KEM_768_PUBLIC_KEY_BYTES"
    and "\<exists>ct ss. kem_encaps S (kem_public S a) r = Some (ct, ss) \<and> kem_decaps S a ct = ss
        \<and> length ct = ML_KEM_768_CIPHERTEXT_BYTES \<and> length ss = 32"
    and "length (sha256 S m) = 32"
    and "n \<le> MAX_HKDF_OUTPUT_BYTES \<Longrightarrow> \<exists>k. suite_hkdf S salt ikm n = Some k \<and> length k = n"
proof -
  show "x25519 S a (x25519_base S p) = x25519 S p (x25519_base S a)"
    using assms unfolding suite_ok_def by blast
qed (use assms in \<open>simp_all add: suite_ok_def\<close>)

section \<open>Identity key pairs\<close>

record identity_key_pair =
  ik_private :: bytes
  ik_public :: bytes
  ik_signing_public :: bytes
  ik_sign_seed :: bytes

definition identity_from_seeds :: "suite \<Rightarrow> bytes \<Rightarrow> bytes \<Rightarrow> identity_key_pair" where
  "identity_from_seeds S dh_seed sign_seed =
     \<lparr>ik_private = dh_seed, ik_public = x25519_base S dh_seed,
      ik_signing_public = ed_public S sign_seed, ik_sign_seed = sign_seed\<rparr>"

definition identity_from_private_key :: "suite \<Rightarrow> bytes \<Rightarrow> identity_key_pair" where
  "identity_from_private_key S private_bytes = identity_from_seeds S private_bytes private_bytes"

definition ring_fill :: "'g rng \<Rightarrow> nat \<Rightarrow> 'g \<Rightarrow> bytes result \<times> 'g" where
  "ring_fill R n g = (case fill_bytes R n g of
     (None, g') \<Rightarrow> (Err (Crypto ''ring operation failed''), g') | (Some b, g') \<Rightarrow> (Ok b, g'))"

definition identity_generate :: "suite \<Rightarrow> 'g rng \<Rightarrow> 'g \<Rightarrow> identity_key_pair result \<times> 'g" where
  "identity_generate S R g =
     (case ring_fill R 32 g of
        (Err e, g1) \<Rightarrow> (Err e, g1)
      | (Ok private_bytes, g1) \<Rightarrow>
          (case ring_fill R 32 g1 of
             (Err e, g2) \<Rightarrow> (Err e, g2)
           | (Ok sign_seed, g2) \<Rightarrow> (Ok (identity_from_seeds S private_bytes sign_seed), g2)))"

definition identity_from_base64 :: "suite \<Rightarrow> string \<Rightarrow> string option \<Rightarrow> identity_key_pair result" where
  "identity_from_base64 S private_b64 public_b64 =
     (case b64_dec S private_b64 of
        None \<Rightarrow> Err (Crypto ''invalid private key base64'')
      | Some private_raw \<Rightarrow>
      if length private_raw \<noteq> 32 then Err (Crypto ''private key must be 32 bytes'')
      else let pair = identity_from_private_key S private_raw in
        (case public_b64 of
           None \<Rightarrow> Ok pair
         | Some pb \<Rightarrow>
             (case b64_dec S pb of
                None \<Rightarrow> Err (Crypto ''invalid public key base64'')
              | Some expected \<Rightarrow>
                  if expected \<noteq> ik_public pair then Err (Crypto ''public key does not match private key'')
                  else Ok pair)))"

definition derive_shared :: "suite \<Rightarrow> identity_key_pair \<Rightarrow> bytes \<Rightarrow> bytes" where
  "derive_shared S i peer_public = x25519 S (ik_private i) peer_public"

definition sign_handshake :: "suite \<Rightarrow> identity_key_pair \<Rightarrow> bytes \<Rightarrow> string" where
  "sign_handshake S i transcript = b64_enc S (ed_sign S (ik_sign_seed i) transcript)"

definition verify_handshake_signature :: "suite \<Rightarrow> bytes \<Rightarrow> string \<Rightarrow> bytes \<Rightarrow> unit result" where
  "verify_handshake_signature S transcript signature_b64 peer_sign_public =
     (case b64_dec S signature_b64 of
        None \<Rightarrow> Err (Handshake ''invalid signature encoding'')
      | Some sg \<Rightarrow>
          if ed_verify S peer_sign_public transcript sg then Ok ()
          else Err (Handshake ''signature verification failed''))"

definition compute_fingerprint_hex :: "suite \<Rightarrow> bytes \<Rightarrow> string" where
  "compute_fingerprint_hex S public_key_raw =
     hex_enc S (sha256 S (as_bytes ''shph-fingerprint-v1'' @ public_key_raw))"

section \<open>ML-KEM-768\<close>

text \<open>A key pair is the 64-byte seed it is generated from; the randomness of an encapsulation is an
  argument.\<close>

type_synonym pqc_keypair = bytes

definition pqc_generate :: "'g rng \<Rightarrow> 'g \<Rightarrow> pqc_keypair result \<times> 'g" where
  "pqc_generate R g = ring_fill R 64 g"

definition encap_public_bytes :: "suite \<Rightarrow> pqc_keypair \<Rightarrow> bytes" where
  "encap_public_bytes S k = kem_public S k"

definition decapsulate :: "suite \<Rightarrow> pqc_keypair \<Rightarrow> bytes \<Rightarrow> bytes result" where
  "decapsulate S k ciphertext =
     (if length ciphertext \<noteq> ML_KEM_768_CIPHERTEXT_BYTES then Err (Crypto ''invalid ML-KEM ciphertext length'')
      else Ok (kem_decaps S k ciphertext))"

definition encapsulate_against :: "suite \<Rightarrow> bytes \<Rightarrow> bytes \<Rightarrow> (bytes \<times> bytes) result" where
  "encapsulate_against S r peer_encap_pub =
     (if length peer_encap_pub \<noteq> ML_KEM_768_PUBLIC_KEY_BYTES
        then Err (Crypto ''invalid ML-KEM peer public key length'')
      else ok_or (Crypto ''invalid ML-KEM peer public key'') (kem_encaps S peer_encap_pub r))"

definition identity_ok :: "suite \<Rightarrow> identity_key_pair \<Rightarrow> bool" where
  "identity_ok S i \<longleftrightarrow> ik_public i = x25519_base S (ik_private i) \<and> ik_signing_public i = ed_public S (ik_sign_seed i)"

lemma identity_from_seeds_ok [simp]: "identity_ok S (identity_from_seeds S d s)"
  by (simp add: identity_ok_def identity_from_seeds_def)

lemma identity_ok_lengths:
  "suite_ok S \<Longrightarrow> identity_ok S i \<Longrightarrow> length (ik_public i) = 32 \<and> length (ik_signing_public i) = 32"
  by (simp add: identity_ok_def suite_okD)

lemma own_signature_verifies:
  "suite_ok S \<Longrightarrow> identity_ok S i \<Longrightarrow>
   verify_handshake_signature S m (sign_handshake S i m) (ik_signing_public i) = Ok ()"
  by (simp add: verify_handshake_signature_def sign_handshake_def identity_ok_def suite_okD)

lemma shared_commutes:
  "suite_ok S \<Longrightarrow> identity_ok S a \<Longrightarrow> identity_ok S b \<Longrightarrow>
   derive_shared S a (ik_public b) = derive_shared S b (ik_public a)"
  by (simp add: derive_shared_def identity_ok_def suite_okD(2))

lemma encaps_decaps:
  assumes "suite_ok S"
  obtains ct ss where "encapsulate_against S r (encap_public_bytes S k) = Ok (ct, ss)"
    "decapsulate S k ct = Ok ss" "length ct = ML_KEM_768_CIPHERTEXT_BYTES" "length ss = 32"
  using suite_okD(8) [OF assms, of k r] suite_okD(7) [OF assms, of k]
  by (auto simp: encapsulate_against_def decapsulate_def encap_public_bytes_def)

text \<open>A suite without secrecy that satisfies the laws, the concrete instance that the witnesses
  evaluate.\<close>

definition plain_suite :: suite where
  "plain_suite = \<lparr>b64_enc = map (\<lambda>b. char_of (unat b)), b64_dec = (\<lambda>s. Some (as_bytes s)),
     hex_enc = map (\<lambda>b. char_of (unat b)),
     x25519_base = (\<lambda>a. resize a 32), x25519 = (\<lambda>a p. map2 (XOR) (resize a 32) (resize p 32)),
     ed_public = (\<lambda>s. resize s 32), ed_sign = (\<lambda>s m. resize s 32 @ m),
     ed_verify = (\<lambda>p m sg. sg = p @ m),
     kem_public = (\<lambda>s. resize s ML_KEM_768_PUBLIC_KEY_BYTES),
     kem_encaps = (\<lambda>p r. Some (replicate ML_KEM_768_CIPHERTEXT_BYTES 7, resize p 32)),
     kem_decaps = (\<lambda>s ct. resize (resize s ML_KEM_768_PUBLIC_KEY_BYTES) 32),
     sha256 = (\<lambda>m. resize m 32), suite_hkdf = (\<lambda>salt ikm n. Some (resize (rev salt @ ikm) n))\<rparr>"

lemma as_bytes_char_of: "as_bytes (map (\<lambda>b. char_of (unat b)) bs) = bs"
proof -
  have "(of_nat (of_char (char_of (unat b) :: char)) :: byte) = b" for b :: byte
    using unat_byte_lt [of b] by simp
  then show ?thesis by (simp add: as_bytes_def map_idI)
qed

lemma plain_suite_ok: "suite_ok plain_suite"
proof -
  have xor: "map2 (XOR) xs ys = map2 (XOR) ys (xs :: bytes)" for xs ys
    by (rule nth_equalityI) (simp_all add: xor.commute)
  have rr: "resize (resize a n) n = resize a n" for a n by (simp add: resize_def)
  show ?thesis
    unfolding suite_ok_def plain_suite_def
    by (auto simp: as_bytes_char_of rr intro: xor)
qed

text \<open>A suite whose signatures have the 64 bytes of Ed25519.\<close>

definition record_suite :: suite where
  "record_suite = plain_suite\<lparr>ed_sign := (\<lambda>s m. resize (resize s 32 @ m) 64), ed_verify := (\<lambda>p m sg. sg = resize (p @ m) 64)\<rparr>"

lemma record_suite_ok: "suite_ok record_suite"
  using plain_suite_ok unfolding suite_ok_def by (simp add: record_suite_def plain_suite_def)

lemma record_suite_signature: "\<forall>s m. length (ed_sign record_suite s m) = 64"
  by (simp add: record_suite_def)

end
