(* ===== verification/Handshake.thy ===== *)
theory Handshake
  imports Identity
begin

text \<open>
  The authenticated handshake of \<open>shph-core/src/handshake.rs\<close>: hello construction and signing,
  local-material and peer-hello verification, the hybrid post-quantum exchange, the transcript, and
  key derivation.  The system clock is an argument, \<open>None\<close> being a clock before the Unix epoch; the
  JSON encoding of a hello is a parameter of the frame serializer.
\<close>

section \<open>Profiles, hellos and policies\<close>

definition MAX_SIGNED_PAYLOAD_BYTES :: usize where "MAX_SIGNED_PAYLOAD_BYTES = 1400"
definition MAX_HANDSHAKE_FRAME_TAIL_BYTES :: usize where "MAX_HANDSHAKE_FRAME_TAIL_BYTES = 64"
definition MAX_PEER_PINS :: usize where "MAX_PEER_PINS = 4096"

datatype handshake_profile = SecureDefault | ClassicalLab

fun profile_as_str :: "handshake_profile \<Rightarrow> string" where
  "profile_as_str SecureDefault = ''secure-default''"
| "profile_as_str ClassicalLab = ''classical-lab''"

fun protocol_tag :: "handshake_profile \<Rightarrow> string" where
  "protocol_tag SecureDefault = ''shph/5/secure-default''"
| "protocol_tag ClassicalLab = ''shph/5/classical-lab''"

fun uses_pqc :: "handshake_profile \<Rightarrow> bool" where
  "uses_pqc SecureDefault = True"
| "uses_pqc ClassicalLab = False"

definition handshake_profile_from_str :: "string \<Rightarrow> handshake_profile result" where
  "handshake_profile_from_str value =
     (let s = to_ascii_lowercase (str_trim value) in
      if s \<in> {''secure-default'', ''secure_default'', ''secure''} then Ok SecureDefault
      else if s \<in> {''classical-lab'', ''classical_lab'', ''classical''} then Ok ClassicalLab
      else Err (InvalidArgument (''unsupported handshake profile: '' @ value)))"

record hello =
  h_proto :: string
  h_profile :: handshake_profile
  h_identity_pub_b64 :: string
  h_sign_pub_b64 :: string
  h_pqc_pub_b64 :: "string option"
  h_pqc_ct_b64 :: "string option"
  h_ephemeral_pub_b64 :: string
  h_nonce_b64 :: string
  h_timestamp_secs :: u64
  h_sig :: string

record handshake_material =
  local_ephemeral :: identity_key_pair
  local_nonce :: bytes
  hm_profile :: handshake_profile
  local_pqc :: "pqc_keypair option"
  local_hello :: hello
  pq_shared :: "bytes option"
  pq_ciphertext :: "bytes option"

record session_keys =
  send_key :: bytes
  recv_key :: bytes
  send_nonce :: u64
  recv_nonce :: u64

record handshake_state =
  peer_fingerprint_hex :: string
  peer_identity_pubkey_b64 :: string
  peer_signing_pubkey_b64 :: string
  hs_session_keys :: session_keys
  transcript_hash_hex :: string

datatype handshake_role = Initiator | Responder

definition deterministic_role :: "bytes \<Rightarrow> bytes \<Rightarrow> handshake_role" where
  "deterministic_role local_identity peer_identity =
     (if lex_le local_identity peer_identity then Initiator else Responder)"

record peer_pin =
  identity_public :: bytes
  signing_public :: bytes

type_synonym peer_policy = "peer_pin list"

definition pin_for_identity :: "identity_key_pair \<Rightarrow> peer_pin" where
  "pin_for_identity i = \<lparr>identity_public = ik_public i, signing_public = ik_signing_public i\<rparr>"

definition peer_policy_new :: "peer_pin list \<Rightarrow> peer_policy result" where
  "peer_policy_new pins =
     (if pins = [] then Err (Auth ''peer policy cannot be empty'')
      else if MAX_PEER_PINS < length pins
        then Err (Auth (''peer policy exceeds the '' @ show_nat MAX_PEER_PINS @ ''-pin safety limit''))
      else Ok pins)"

definition peer_policy_single :: "peer_pin \<Rightarrow> peer_policy" where
  "peer_policy_single pin = [pin]"

definition allows :: "peer_policy \<Rightarrow> bytes \<Rightarrow> bytes \<Rightarrow> bool" where
  "allows policy idp sgp = list_ex (\<lambda>pin. constant_time_eq (identity_public pin) idp
     \<and> constant_time_eq (signing_public pin) sgp) policy"

section \<open>The signed payload\<close>

definition append_signed_part :: "bytes \<times> nat \<Rightarrow> bytes \<Rightarrow> (bytes \<times> nat) result" where
  "append_signed_part bl part =
     (case checked_add usize_max (snd bl) (length part) of
        None \<Rightarrow> Err (Handshake ''signed payload length overflow'')
      | Some fin \<Rightarrow>
          if length (fst bl) < fin then Err (Handshake ''signed payload exceeds handshake limit'')
          else Ok (write_at (fst bl) (snd bl) part, fin))"

fun append_signed_parts :: "bytes \<times> nat \<Rightarrow> bytes list \<Rightarrow> (bytes \<times> nat) result" where
  "append_signed_parts bl [] = Ok bl"
| "append_signed_parts bl (p # ps) =
     (case append_signed_part bl p of Err e \<Rightarrow> Err e | Ok bl' \<Rightarrow> append_signed_parts bl' ps)"

text \<open>The sequence of appends that signing and both verifications share.\<close>

definition signed_parts :: "handshake_profile \<Rightarrow> bytes \<Rightarrow> bytes \<Rightarrow> bytes option \<Rightarrow> bytes \<Rightarrow> bytes \<Rightarrow> u64 \<Rightarrow> bytes list" where
  "signed_parts profile idp sgp pqc eph nonce ts =
     [as_bytes (protocol_tag profile), idp, sgp] @ (case pqc of None \<Rightarrow> [] | Some p \<Rightarrow> [p])
     @ [eph, nonce, be_bytes 8 ts]"

definition signed_payload ::
    "handshake_profile \<Rightarrow> bytes \<Rightarrow> bytes \<Rightarrow> bytes option \<Rightarrow> bytes \<Rightarrow> bytes \<Rightarrow> u64 \<Rightarrow> bytes result" where
  "signed_payload profile idp sgp pqc eph nonce ts =
     map_ok (\<lambda>(buf, n). take n buf)
       (append_signed_parts (replicate MAX_SIGNED_PAYLOAD_BYTES 0, 0) (signed_parts profile idp sgp pqc eph nonce ts))"

section \<open>Building a hello\<close>

definition build_hello_with_profile ::
    "suite \<Rightarrow> 'g rng \<Rightarrow> u64 option \<Rightarrow> identity_key_pair \<Rightarrow> handshake_profile \<Rightarrow> 'g
      \<Rightarrow> handshake_material result \<times> 'g" where
  "build_hello_with_profile S R clock local_identity profile g =
     (case identity_generate S R g of (Err e, g1) \<Rightarrow> (Err e, g1) | (Ok eph, g1) \<Rightarrow>
     (case ring_fill R 32 g1 of (Err e, g2) \<Rightarrow> (Err e, g2) | (Ok nonce, g2) \<Rightarrow>
     (case clock of None \<Rightarrow> (Err (Handshake ''system clock before unix epoch''), g2) | Some ts \<Rightarrow>
     (case (if uses_pqc profile
            then (case pqc_generate R g2 of (Err e, g3) \<Rightarrow> (Err e, g3) | (Ok k, g3) \<Rightarrow> (Ok (Some k), g3))
            else (Ok None, g2)) of
        (Err e, g3) \<Rightarrow> (Err e, g3)
      | (Ok pqc, g3) \<Rightarrow>
          let pqc_pub = map_option (encap_public_bytes S) pqc in
          (case signed_payload profile (ik_public local_identity) (ik_signing_public local_identity) pqc_pub
                 (ik_public eph) nonce ts of
             Err e \<Rightarrow> (Err e, g3)
           | Ok payload \<Rightarrow>
               (Ok \<lparr>local_ephemeral = eph, local_nonce = nonce, hm_profile = profile, local_pqc = pqc,
                 local_hello = \<lparr>h_proto = protocol_tag profile, h_profile = profile,
                   h_identity_pub_b64 = b64_enc S (ik_public local_identity),
                   h_sign_pub_b64 = b64_enc S (ik_signing_public local_identity),
                   h_pqc_pub_b64 = map_option (b64_enc S) pqc_pub, h_pqc_ct_b64 = None,
                   h_ephemeral_pub_b64 = b64_enc S (ik_public eph), h_nonce_b64 = b64_enc S nonce,
                   h_timestamp_secs = ts, h_sig = sign_handshake S local_identity payload\<rparr>,
                 pq_shared = None, pq_ciphertext = None\<rparr>, g3))))))"

definition build_hello ::
    "suite \<Rightarrow> 'g rng \<Rightarrow> u64 option \<Rightarrow> identity_key_pair \<Rightarrow> 'g \<Rightarrow> handshake_material result \<times> 'g" where
  "build_hello S R clock local_identity g = build_hello_with_profile S R clock local_identity SecureDefault g"

definition serialize_hello_frame_with_padding_len ::
    "(hello \<Rightarrow> bytes option) \<Rightarrow> 'g rng \<Rightarrow> hello \<Rightarrow> usize \<Rightarrow> 'g \<Rightarrow> bytes result \<times> 'g" where
  "serialize_hello_frame_with_padding_len to_json R h padding_len g =
     (if MAX_HANDSHAKE_FRAME_TAIL_BYTES < padding_len
        then (Err (Protocol ''handshake frame tail exceeds size limit''), g)
      else case to_json h of
        None \<Rightarrow> (Err (Serialization ''''), g)
      | Some payload \<Rightarrow>
          if padding_len = 0 then (Ok payload, g)
          else (case ring_fill R MAX_HANDSHAKE_FRAME_TAIL_BYTES g of
                  (Err e, g1) \<Rightarrow> (Err e, g1)
                | (Ok random_tail, g1) \<Rightarrow>
                    (Ok (payload @ map (\<lambda>b. if b AND 1 = 0 then 0x20 else 0x09) (take padding_len random_tail)), g1)))"

definition serialize_hello_frame ::
    "(hello \<Rightarrow> bytes option) \<Rightarrow> 'g rng \<Rightarrow> hello \<Rightarrow> 'g \<Rightarrow> bytes result \<times> 'g" where
  "serialize_hello_frame to_json R h g =
     (case ring_fill R 1 g of
        (Err e, g1) \<Rightarrow> (Err e, g1)
      | (Ok random, g1) \<Rightarrow>
          serialize_hello_frame_with_padding_len to_json R h
            (unat (random ! 0) mod (MAX_HANDSHAKE_FRAME_TAIL_BYTES + 1)) g1)"

section \<open>Verification\<close>

definition decode_32 :: "suite \<Rightarrow> string \<Rightarrow> string \<Rightarrow> bytes result" where
  "decode_32 S input what =
     (case b64_dec S input of
        None \<Rightarrow> Err (Handshake (''invalid '' @ what @ '' encoding''))
      | Some raw \<Rightarrow> if length raw = 32 then Ok raw else Err (Handshake (what @ '' must be 32 bytes'')))"

definition hs_b64_decode :: "suite \<Rightarrow> string \<Rightarrow> string \<Rightarrow> bytes result" where
  "hs_b64_decode S input what = ok_or (Handshake (''invalid '' @ what @ '' encoding'')) (b64_dec S input)"

fun hs_b64_decode_opt :: "suite \<Rightarrow> string option \<Rightarrow> string \<Rightarrow> bytes option result" where
  "hs_b64_decode_opt S None what = Ok None"
| "hs_b64_decode_opt S (Some input) what = map_ok Some (hs_b64_decode S input what)"

definition pqc_material_check :: "suite \<Rightarrow> handshake_material \<Rightarrow> unit result" where
  "pqc_material_check S m =
     (let h = local_hello m in
      if uses_pqc (hm_profile m) then
        (case local_pqc m of
           None \<Rightarrow> Err (Handshake ''missing local PQ keypair'')
         | Some k \<Rightarrow>
        (case h_pqc_pub_b64 h of
           None \<Rightarrow> Err (Handshake ''missing local PQ public key'')
         | Some encoded \<Rightarrow>
        (case hs_b64_decode S encoded ''local PQ public key'' of Err e \<Rightarrow> Err e | Ok p \<Rightarrow>
           if p \<noteq> encap_public_bytes S k
             then Err (Handshake ''local hello PQ key does not match handshake material'')
           else Ok ())))
      else if local_pqc m \<noteq> None \<or> h_pqc_pub_b64 h \<noteq> None \<or> pq_shared m \<noteq> None
          \<or> pq_ciphertext m \<noteq> None \<or> h_pqc_ct_b64 h \<noteq> None
        then Err (Handshake ''classical profile contains post-quantum material'')
      else Ok ())"

definition validate_local_material :: "suite \<Rightarrow> identity_key_pair \<Rightarrow> handshake_material \<Rightarrow> unit result" where
  "validate_local_material S i m =
     (let h = local_hello m; profile = hm_profile m in
      if h_proto h \<noteq> protocol_tag profile \<or> h_profile h \<noteq> profile
        then Err (Handshake ''local protocol profile mismatch'')
      else (case decode_32 S (h_identity_pub_b64 h) ''local identity'' of Err e \<Rightarrow> Err e | Ok idp \<Rightarrow>
      if \<not> constant_time_eq idp (ik_public i)
        then Err (Handshake ''local hello identity does not match the configured identity'')
      else (case decode_32 S (h_sign_pub_b64 h) ''local signing key'' of Err e \<Rightarrow> Err e | Ok sgp \<Rightarrow>
      if \<not> constant_time_eq sgp (ik_signing_public i)
        then Err (Handshake ''local hello signing key does not match the configured identity'')
      else (case decode_32 S (h_ephemeral_pub_b64 h) ''local ephemeral'' of Err e \<Rightarrow> Err e | Ok eph \<Rightarrow>
      if \<not> constant_time_eq eph (ik_public (local_ephemeral m))
        then Err (Handshake ''local hello ephemeral key does not match handshake material'')
      else (case decode_32 S (h_nonce_b64 h) ''local nonce'' of Err e \<Rightarrow> Err e | Ok nonce \<Rightarrow>
      if \<not> constant_time_eq nonce (local_nonce m)
        then Err (Handshake ''local hello nonce does not match handshake material'')
      else (case pqc_material_check S m of Err e \<Rightarrow> Err e | Ok _ \<Rightarrow>
      (case hs_b64_decode_opt S (h_pqc_pub_b64 h) ''local PQ public key'' of Err e \<Rightarrow> Err e | Ok pqc \<Rightarrow>
      (case signed_payload profile idp sgp pqc eph nonce (h_timestamp_secs h) of Err e \<Rightarrow> Err e | Ok payload \<Rightarrow>
      (case verify_handshake_signature S payload (h_sig h) sgp of Err e \<Rightarrow> Err e | Ok _ \<Rightarrow>
      (case h_pqc_ct_b64 h of
         None \<Rightarrow> Ok ()
       | Some encoded \<Rightarrow>
           (case hs_b64_decode S encoded ''local PQ ciphertext'' of Err e \<Rightarrow> Err e | Ok ct \<Rightarrow>
              if pq_ciphertext m \<noteq> Some ct
                then Err (Handshake ''local hello PQ ciphertext does not match handshake material'')
              else Ok ())))))))))))"

text \<open>The peer's fields: what \<open>verify_hello_signature\<close> and \<open>verify_and_derive_with_profile\<close> decode from
  a hello, in the order they do.\<close>

definition MAX_SKEW_SECS :: u64 where "MAX_SKEW_SECS = 300"

definition verify_hello_signature ::
    "suite \<Rightarrow> u64 option \<Rightarrow> identity_key_pair \<Rightarrow> handshake_material \<Rightarrow> hello \<Rightarrow> peer_policy \<Rightarrow> unit result" where
  "verify_hello_signature S clock i m p policy =
     (case validate_local_material S i m of Err e \<Rightarrow> Err e | Ok _ \<Rightarrow>
      let profile = hm_profile m in
      if h_profile p \<noteq> profile \<or> h_proto p \<noteq> protocol_tag profile then Err (Handshake ''protocol mismatch'')
      else if h_proto (local_hello m) \<noteq> protocol_tag profile \<or> h_profile (local_hello m) \<noteq> profile
        then Err (Handshake ''local protocol profile mismatch'')
      else if h_pqc_ct_b64 p \<noteq> None
        then Err (Handshake ''peer PQ ciphertext must be sent as a separate handshake frame'')
      else (case decode_32 S (h_identity_pub_b64 p) ''peer identity'' of Err e \<Rightarrow> Err e | Ok idp \<Rightarrow>
      (case decode_32 S (h_ephemeral_pub_b64 p) ''peer ephemeral'' of Err e \<Rightarrow> Err e | Ok eph \<Rightarrow>
      (case decode_32 S (h_nonce_b64 p) ''peer nonce'' of Err e \<Rightarrow> Err e | Ok nonce \<Rightarrow>
      (case clock of None \<Rightarrow> Err (Handshake ''system clock before unix epoch'') | Some now \<Rightarrow>
      if MAX_SKEW_SECS < abs_diff now (h_timestamp_secs p) then Err (Handshake ''peer timestamp out of window'')
      else (case decode_32 S (h_sign_pub_b64 p) ''peer signing key'' of Err e \<Rightarrow> Err e | Ok sgp \<Rightarrow>
      (case hs_b64_decode_opt S (h_pqc_pub_b64 p) ''peer PQ public key'' of Err e \<Rightarrow> Err e | Ok pqc \<Rightarrow>
      if uses_pqc profile \<noteq> (pqc \<noteq> None) then Err (Handshake ''peer post-quantum profile material mismatch'')
      else if \<exists>k\<in>set_option pqc. length k \<noteq> ML_KEM_768_PUBLIC_KEY_BYTES
        then Err (Handshake (''peer PQ public key must be '' @ show_nat ML_KEM_768_PUBLIC_KEY_BYTES @ '' bytes''))
      else (case signed_payload profile idp sgp pqc eph nonce (h_timestamp_secs p) of Err e \<Rightarrow> Err e | Ok payload \<Rightarrow>
      (case verify_handshake_signature S payload (h_sig p) sgp of Err e \<Rightarrow> Err e | Ok _ \<Rightarrow>
       if \<not> allows policy idp sgp then Err (Auth ''peer identity and signing key are not pinned'')
       else Ok ())))))))))"

section \<open>The transcript\<close>

definition transcript_field :: "string \<Rightarrow> bytes \<Rightarrow> bytes" where
  "transcript_field label value =
     be_bytes 4 (length label) @ as_bytes label @ be_bytes 8 (length value) @ value"

definition transcript_optional_field :: "string \<Rightarrow> bytes option \<Rightarrow> bytes" where
  "transcript_optional_field label value =
     transcript_field label [if value \<noteq> None then 1 else 0]
     @ (case value of None \<Rightarrow> [] | Some v \<Rightarrow> transcript_field label v)"

definition transcript_u64 :: "string \<Rightarrow> u64 \<Rightarrow> bytes" where
  "transcript_u64 label value = transcript_field label (be_bytes 8 value)"

text \<open>What one side contributes to the transcript.\<close>

record side =
  sd_identity :: bytes
  sd_signing :: bytes
  sd_pqc :: "bytes option"
  sd_ephemeral :: bytes
  sd_nonce :: bytes
  sd_timestamp :: u64

definition transcript :: "handshake_profile \<Rightarrow> bytes \<Rightarrow> side \<Rightarrow> side \<Rightarrow> bytes option \<Rightarrow> bytes" where
  "transcript profile initiator_identity a b ct =
     transcript_field ''domain'' (as_bytes ''shph/handshake-transcript-v2'')
     @ transcript_field ''protocol'' (as_bytes (protocol_tag profile))
     @ transcript_field ''profile'' (as_bytes (profile_as_str profile))
     @ transcript_field ''initiator-identity'' initiator_identity
     @ transcript_field ''peer-a-identity'' (sd_identity a)
     @ transcript_field ''peer-a-signing'' (sd_signing a)
     @ transcript_optional_field ''peer-a-pqc'' (sd_pqc a)
     @ transcript_field ''peer-a-ephemeral'' (sd_ephemeral a)
     @ transcript_field ''peer-a-nonce'' (sd_nonce a)
     @ transcript_u64 ''peer-a-timestamp'' (sd_timestamp a)
     @ transcript_field ''peer-b-identity'' (sd_identity b)
     @ transcript_field ''peer-b-signing'' (sd_signing b)
     @ transcript_optional_field ''peer-b-pqc'' (sd_pqc b)
     @ transcript_field ''peer-b-ephemeral'' (sd_ephemeral b)
     @ transcript_field ''peer-b-nonce'' (sd_nonce b)
     @ transcript_u64 ''peer-b-timestamp'' (sd_timestamp b)
     @ transcript_optional_field ''pqc-ciphertext'' ct"

text \<open>The two sides are ordered by identity, so that both peers hash the same bytes.\<close>

definition session_transcript :: "handshake_profile \<Rightarrow> bool \<Rightarrow> side \<Rightarrow> side \<Rightarrow> bytes option \<Rightarrow> bytes" where
  "session_transcript profile initiator here there ct =
     (let initiator_identity = (if initiator then sd_identity here else sd_identity there) in
      if lex_le (sd_identity here) (sd_identity there)
        then transcript profile initiator_identity here there ct
        else transcript profile initiator_identity there here ct)"

section \<open>Key derivation\<close>

text \<open>The 64-byte buffer of the X25519 secret followed by the ML-KEM secret.\<close>

definition hybrid_secret :: "bytes \<Rightarrow> bytes option \<Rightarrow> bytes" where
  "hybrid_secret ecdh pq =
     (let s0 = write_at (replicate 64 0) 0 ecdh in case pq of None \<Rightarrow> s0 | Some s \<Rightarrow> write_at s0 32 s)"

definition derive_session_key ::
    "suite \<Rightarrow> handshake_profile \<Rightarrow> bytes \<Rightarrow> bytes \<Rightarrow> string \<Rightarrow> bytes result" where
  "derive_session_key S profile shared transcript_hash direction =
     hkdf_sha256_into (suite_hkdf S) (take (if uses_pqc profile then 64 else 32) shared)
       [as_bytes ''shph-session-v2'', as_bytes (protocol_tag profile), transcript_hash, as_bytes direction] 32"

text \<open>The second half of \<open>verify_and_derive_with_profile\<close>, from the X25519 agreement on; \<open>there\<close> are the
  decoded fields of the peer's hello.\<close>

definition derive_state :: "suite \<Rightarrow> handshake_material \<Rightarrow> bool \<Rightarrow> side \<Rightarrow> handshake_state result" where
  "derive_state S m initiator there =
     (let profile = hm_profile m; lh = local_hello m;
          ecdh_shared = derive_shared S (local_ephemeral m) (sd_ephemeral there) in
      if ecdh_shared = replicate 32 0
        then Err (Handshake ''peer X25519 public key produced an all-zero shared secret'')
      else (case (if uses_pqc profile then
                    (case pq_shared m of
                       None \<Rightarrow> Err (Handshake ''missing post-quantum shared secret (downgrade blocked)'')
                     | Some s \<Rightarrow> Ok (Some s))
                  else if pq_shared m \<noteq> None
                    then Err (Handshake ''classical lab profile cannot carry post-quantum material'')
                  else Ok None) of Err e \<Rightarrow> Err e | Ok pq \<Rightarrow>
      (case (if uses_pqc profile then
               (case pq_ciphertext m of
                  None \<Rightarrow> Err (Handshake ''missing post-quantum ciphertext binding (downgrade blocked)'')
                | Some c \<Rightarrow>
                    if length c \<noteq> ML_KEM_768_CIPHERTEXT_BYTES
                      then Err (Handshake ''invalid post-quantum ciphertext binding length'') else Ok (Some c))
             else Ok None) of Err e \<Rightarrow> Err e | Ok ct \<Rightarrow>
      (case decode_32 S (h_identity_pub_b64 lh) ''local identity'' of Err e \<Rightarrow> Err e | Ok l_idp \<Rightarrow>
      (case decode_32 S (h_sign_pub_b64 lh) ''local signing key'' of Err e \<Rightarrow> Err e | Ok l_sgp \<Rightarrow>
      (case decode_32 S (h_ephemeral_pub_b64 lh) ''local ephemeral'' of Err e \<Rightarrow> Err e | Ok l_eph \<Rightarrow>
      (case hs_b64_decode_opt S (h_pqc_pub_b64 lh) ''local PQ public key'' of Err e \<Rightarrow> Err e | Ok l_pqc \<Rightarrow>
      let here = \<lparr>sd_identity = l_idp, sd_signing = l_sgp, sd_pqc = l_pqc, sd_ephemeral = l_eph,
                   sd_nonce = local_nonce m, sd_timestamp = h_timestamp_secs lh\<rparr>;
          shared = hybrid_secret ecdh_shared pq;
          th = sha256 S (session_transcript profile initiator here there ct)
      in (case derive_session_key S profile shared th (if initiator then ''initiator'' else ''responder'') of
            Err e \<Rightarrow> Err e
          | Ok sk \<Rightarrow>
         (case derive_session_key S profile shared th (if initiator then ''responder'' else ''initiator'') of
            Err e \<Rightarrow> Err e
          | Ok rk \<Rightarrow>
              Ok \<lparr>peer_fingerprint_hex = compute_fingerprint_hex S (sd_identity there),
                peer_identity_pubkey_b64 = b64_enc S (sd_identity there),
                peer_signing_pubkey_b64 = b64_enc S (sd_signing there),
                hs_session_keys = \<lparr>send_key = sk, recv_key = rk, send_nonce = 0, recv_nonce = 0\<rparr>,
                transcript_hash_hex = hex_enc S th\<rparr>)))))))))"

definition verify_and_derive_with_profile ::
    "suite \<Rightarrow> u64 option \<Rightarrow> identity_key_pair \<Rightarrow> handshake_material \<Rightarrow> hello \<Rightarrow> bool \<Rightarrow> peer_policy
      \<Rightarrow> handshake_state result" where
  "verify_and_derive_with_profile S clock i m p initiator policy =
     (case verify_hello_signature S clock i m p policy of Err e \<Rightarrow> Err e | Ok _ \<Rightarrow>
      let profile = hm_profile m; lh = local_hello m in
      if h_profile p \<noteq> profile \<or> h_proto p \<noteq> protocol_tag profile then Err (Handshake ''protocol mismatch'')
      else if h_proto lh \<noteq> protocol_tag profile \<or> h_profile lh \<noteq> profile
        then Err (Handshake ''local protocol profile mismatch'')
      else (case decode_32 S (h_identity_pub_b64 p) ''peer identity'' of Err e \<Rightarrow> Err e | Ok idp \<Rightarrow>
      (case decode_32 S (h_ephemeral_pub_b64 p) ''peer ephemeral'' of Err e \<Rightarrow> Err e | Ok eph \<Rightarrow>
      (case decode_32 S (h_nonce_b64 p) ''peer nonce'' of Err e \<Rightarrow> Err e | Ok nonce \<Rightarrow>
      (case clock of None \<Rightarrow> Err (Handshake ''system clock before unix epoch'') | Some now \<Rightarrow>
      if MAX_SKEW_SECS < abs_diff now (h_timestamp_secs p) then Err (Handshake ''peer timestamp out of window'')
      else (case decode_32 S (h_sign_pub_b64 p) ''peer signing key'' of Err e \<Rightarrow> Err e | Ok sgp \<Rightarrow>
      (case hs_b64_decode_opt S (h_pqc_pub_b64 p) ''peer PQ public key'' of Err e \<Rightarrow> Err e | Ok pqc \<Rightarrow>
      if uses_pqc profile \<noteq> (pqc \<noteq> None) then Err (Handshake ''peer post-quantum profile material mismatch'')
      else (case signed_payload profile idp sgp pqc eph nonce (h_timestamp_secs p) of Err e \<Rightarrow> Err e | Ok payload \<Rightarrow>
      (case verify_handshake_signature S payload (h_sig p) sgp of Err e \<Rightarrow> Err e | Ok _ \<Rightarrow>
      derive_state S m initiator \<lparr>sd_identity = idp, sd_signing = sgp, sd_pqc = pqc, sd_ephemeral = eph,
        sd_nonce = nonce, sd_timestamp = h_timestamp_secs p\<rparr>)))))))))"

definition verify_and_derive ::
    "suite \<Rightarrow> u64 option \<Rightarrow> identity_key_pair \<Rightarrow> handshake_material \<Rightarrow> hello \<Rightarrow> bool \<Rightarrow> peer_policy
      \<Rightarrow> handshake_state result" where
  "verify_and_derive S clock i m p initiator policy =
     verify_and_derive_with_profile S clock i m p initiator policy"

section \<open>The post-quantum exchange\<close>

definition finalize_initiator_pq ::
    "suite \<Rightarrow> u64 option \<Rightarrow> bytes \<Rightarrow> identity_key_pair \<Rightarrow> handshake_material \<Rightarrow> hello \<Rightarrow> peer_policy
      \<Rightarrow> bytes result \<times> handshake_material" where
  "finalize_initiator_pq S clock r i m p policy =
     (if \<not> uses_pqc (hm_profile m)
        then (Err (Handshake ''classical lab profile does not use post-quantum exchange''), m)
      else case verify_hello_signature S clock i m p policy of Err e \<Rightarrow> (Err e, m) | Ok _ \<Rightarrow>
     (case h_pqc_pub_b64 p of None \<Rightarrow> (Err (Handshake ''missing peer PQ public key''), m) | Some encoded \<Rightarrow>
     (case hs_b64_decode S encoded ''peer PQ public key'' of Err e \<Rightarrow> (Err e, m) | Ok pk \<Rightarrow>
     (case encapsulate_against S r pk of Err e \<Rightarrow> (Err e, m) | Ok (ct, ss) \<Rightarrow>
        (Ok ct, m\<lparr>local_hello := (local_hello m)\<lparr>h_pqc_ct_b64 := Some (b64_enc S ct)\<rparr>,
           pq_shared := Some ss, pq_ciphertext := Some ct\<rparr>)))))"

definition absorb_responder_pq_unverified ::
    "suite \<Rightarrow> handshake_material \<Rightarrow> bytes \<Rightarrow> unit result \<times> handshake_material" where
  "absorb_responder_pq_unverified S m peer_ct =
     (if \<not> uses_pqc (hm_profile m)
        then (Err (Handshake ''classical lab profile does not use post-quantum exchange''), m)
      else case local_pqc m of None \<Rightarrow> (Err (Handshake ''missing local PQ keypair''), m) | Some k \<Rightarrow>
     (case decapsulate S k peer_ct of Err e \<Rightarrow> (Err e, m) | Ok ss \<Rightarrow>
        (Ok (), m\<lparr>pq_shared := Some ss, pq_ciphertext := Some peer_ct\<rparr>)))"

definition absorb_responder_pq ::
    "suite \<Rightarrow> u64 option \<Rightarrow> identity_key_pair \<Rightarrow> handshake_material \<Rightarrow> hello \<Rightarrow> bytes \<Rightarrow> peer_policy
      \<Rightarrow> unit result \<times> handshake_material" where
  "absorb_responder_pq S clock i m p peer_ct policy =
     (case verify_hello_signature S clock i m p policy of
        Err e \<Rightarrow> (Err e, m) | Ok _ \<Rightarrow> absorb_responder_pq_unverified S m peer_ct)"

section \<open>Reading a hello\<close>

text \<open>The side that a hello encodes: every fixed-size field decodes to 32 bytes.\<close>

definition hello_side :: "suite \<Rightarrow> hello \<Rightarrow> side \<Rightarrow> bool" where
  "hello_side S p sd \<longleftrightarrow>
     b64_dec S (h_identity_pub_b64 p) = Some (sd_identity sd) \<and> length (sd_identity sd) = 32
   \<and> b64_dec S (h_sign_pub_b64 p) = Some (sd_signing sd) \<and> length (sd_signing sd) = 32
   \<and> b64_dec S (h_ephemeral_pub_b64 p) = Some (sd_ephemeral sd) \<and> length (sd_ephemeral sd) = 32
   \<and> b64_dec S (h_nonce_b64 p) = Some (sd_nonce sd) \<and> length (sd_nonce sd) = 32
   \<and> hs_b64_decode_opt S (h_pqc_pub_b64 p) [] = Ok (sd_pqc sd)
   \<and> sd_timestamp sd = h_timestamp_secs p"

definition side_payload :: "handshake_profile \<Rightarrow> side \<Rightarrow> bytes result" where
  "side_payload profile sd = signed_payload profile (sd_identity sd) (sd_signing sd) (sd_pqc sd)
     (sd_ephemeral sd) (sd_nonce sd) (sd_timestamp sd)"

lemma decode_32_Ok [simp]: "decode_32 S x w = Ok b \<longleftrightarrow> b64_dec S x = Some b \<and> length b = 32"
  by (auto simp: decode_32_def split: option.splits)

lemma hs_b64_decode_opt_Ok:
  "hs_b64_decode_opt S x w = Ok y \<longleftrightarrow> hs_b64_decode_opt S x [] = Ok y"
  by (cases x) (auto simp: hs_b64_decode_def)

lemma hello_side_unique: "hello_side S p a \<Longrightarrow> hello_side S p b \<Longrightarrow> a = (b :: side)"
  by (auto simp: hello_side_def)

lemma verify_hello_signature_iff:
  "verify_hello_signature S clock i m p policy = Ok () \<longleftrightarrow>
     validate_local_material S i m = Ok ()
   \<and> h_profile p = hm_profile m \<and> h_proto p = protocol_tag (hm_profile m) \<and> h_pqc_ct_b64 p = None
   \<and> (\<exists>now sd payload. clock = Some now \<and> hello_side S p sd
        \<and> abs_diff now (h_timestamp_secs p) \<le> MAX_SKEW_SECS
        \<and> (uses_pqc (hm_profile m) \<longleftrightarrow> sd_pqc sd \<noteq> None)
        \<and> (\<forall>k\<in>set_option (sd_pqc sd). length k = ML_KEM_768_PUBLIC_KEY_BYTES)
        \<and> side_payload (hm_profile m) sd = Ok payload
        \<and> verify_handshake_signature S payload (h_sig p) (sd_signing sd) = Ok ()
        \<and> allows policy (sd_identity sd) (sd_signing sd))" (is "?l \<longleftrightarrow> ?r")
proof
  assume ?l
  then have v: "validate_local_material S i m = Ok ()"
    by (auto simp: verify_hello_signature_def split: result.splits)
  from \<open>?l\<close> v obtain now idp eph nonce sgp pqc payload where *:
    "h_profile p = hm_profile m" "h_proto p = protocol_tag (hm_profile m)" "h_pqc_ct_b64 p = None"
    "clock = Some now" "b64_dec S (h_identity_pub_b64 p) = Some idp" "length idp = 32"
    "b64_dec S (h_ephemeral_pub_b64 p) = Some eph" "length eph = 32"
    "b64_dec S (h_nonce_b64 p) = Some nonce" "length nonce = 32"
    "b64_dec S (h_sign_pub_b64 p) = Some sgp" "length sgp = 32"
    "abs_diff now (h_timestamp_secs p) \<le> MAX_SKEW_SECS"
    "hs_b64_decode_opt S (h_pqc_pub_b64 p) ''peer PQ public key'' = Ok pqc"
    "uses_pqc (hm_profile m) \<longleftrightarrow> pqc \<noteq> None" "\<forall>k\<in>set_option pqc. length k = ML_KEM_768_PUBLIC_KEY_BYTES"
    "signed_payload (hm_profile m) idp sgp pqc eph nonce (h_timestamp_secs p) = Ok payload"
    "verify_handshake_signature S payload (h_sig p) sgp = Ok ()" "allows policy idp sgp"
    by (auto simp: verify_hello_signature_def Let_def not_less split: result.splits if_splits option.splits)
  then show ?r using v
    by (intro conjI exI [of _ now] exI [of _ "\<lparr>sd_identity = idp, sd_signing = sgp, sd_pqc = pqc,
        sd_ephemeral = eph, sd_nonce = nonce, sd_timestamp = h_timestamp_secs p\<rparr>"] exI [of _ payload])
      (simp_all add: hello_side_def side_payload_def hs_b64_decode_opt_Ok [of S "h_pqc_pub_b64 p" "''peer PQ public key''"])
next
  assume r: ?r
  then obtain now sd payload where sd: "hello_side S p sd" and c: "clock = Some now"
    and w: "\<not> MAX_SKEW_SECS < abs_diff now (h_timestamp_secs p)"
    and pq: "uses_pqc (hm_profile m) \<longleftrightarrow> sd_pqc sd \<noteq> None" "\<not> (\<exists>k\<in>set_option (sd_pqc sd). length k \<noteq> ML_KEM_768_PUBLIC_KEY_BYTES)"
    and sig: "side_payload (hm_profile m) sd = Ok payload" "verify_handshake_signature S payload (h_sig p) (sd_signing sd) = Ok ()"
      "allows policy (sd_identity sd) (sd_signing sd)" by auto
  from r have l: "h_proto (local_hello m) = protocol_tag (hm_profile m)" "h_profile (local_hello m) = hm_profile m"
    by (auto simp: validate_local_material_def Let_def split: if_splits)
  have d: "decode_32 S (h_identity_pub_b64 p) w = Ok (sd_identity sd)" "decode_32 S (h_ephemeral_pub_b64 p) w = Ok (sd_ephemeral sd)"
    "decode_32 S (h_nonce_b64 p) w = Ok (sd_nonce sd)" "decode_32 S (h_sign_pub_b64 p) w = Ok (sd_signing sd)"
    "hs_b64_decode_opt S (h_pqc_pub_b64 p) w = Ok (sd_pqc sd)" "h_timestamp_secs p = sd_timestamp sd" for w
    using sd hs_b64_decode_opt_Ok [of S "h_pqc_pub_b64 p" w] by (auto simp: hello_side_def)
  show ?l using r l c w pq sig
    by (simp add: verify_hello_signature_def Let_def d side_payload_def)
qed

definition material_side :: "suite \<Rightarrow> handshake_material \<Rightarrow> side \<Rightarrow> bool" where
  "material_side S m sd \<longleftrightarrow> (let h = local_hello m in
     b64_dec S (h_identity_pub_b64 h) = Some (sd_identity sd) \<and> length (sd_identity sd) = 32
   \<and> b64_dec S (h_sign_pub_b64 h) = Some (sd_signing sd) \<and> length (sd_signing sd) = 32
   \<and> b64_dec S (h_ephemeral_pub_b64 h) = Some (sd_ephemeral sd) \<and> length (sd_ephemeral sd) = 32
   \<and> hs_b64_decode_opt S (h_pqc_pub_b64 h) [] = Ok (sd_pqc sd)
   \<and> sd_nonce sd = local_nonce m \<and> sd_timestamp sd = h_timestamp_secs h)"

text \<open>The post-quantum secret and ciphertext that enter the derivation: both for the secure profile,
  neither for the classical one.\<close>

definition pq_binding :: "handshake_material \<Rightarrow> bytes option \<Rightarrow> bytes option \<Rightarrow> bool" where
  "pq_binding m pq ct \<longleftrightarrow>
     (if uses_pqc (hm_profile m)
      then pq \<noteq> None \<and> pq = pq_shared m \<and> ct = pq_ciphertext m
        \<and> (\<exists>c. ct = Some c \<and> length c = ML_KEM_768_CIPHERTEXT_BYTES)
      else pq_shared m = None \<and> pq = None \<and> ct = None)"

lemma derive_state_iff:
  "derive_state S m initiator there = Ok st \<longleftrightarrow>
     (\<exists>here pq ct sk rk ecdh th. material_side S m here \<and> pq_binding m pq ct
      \<and> ecdh = derive_shared S (local_ephemeral m) (sd_ephemeral there) \<and> ecdh \<noteq> replicate 32 0
      \<and> th = sha256 S (session_transcript (hm_profile m) initiator here there ct)
      \<and> derive_session_key S (hm_profile m) (hybrid_secret ecdh pq) th
          (if initiator then ''initiator'' else ''responder'') = Ok sk
      \<and> derive_session_key S (hm_profile m) (hybrid_secret ecdh pq) th
          (if initiator then ''responder'' else ''initiator'') = Ok rk
      \<and> st = \<lparr>peer_fingerprint_hex = compute_fingerprint_hex S (sd_identity there),
          peer_identity_pubkey_b64 = b64_enc S (sd_identity there),
          peer_signing_pubkey_b64 = b64_enc S (sd_signing there),
          hs_session_keys = \<lparr>send_key = sk, recv_key = rk, send_nonce = 0, recv_nonce = 0\<rparr>,
          transcript_hash_hex = hex_enc S th\<rparr>)" (is "?l \<longleftrightarrow> ?r")
proof
  assume ?l
  let ?e = "derive_shared S (local_ephemeral m) (sd_ephemeral there)"
  from \<open>?l\<close> obtain pq ct idp sgp eph pq' here sk rk where *: "?e \<noteq> replicate 32 0"
    "pq_binding m pq ct" "b64_dec S (h_identity_pub_b64 (local_hello m)) = Some idp" "length idp = 32"
    "b64_dec S (h_sign_pub_b64 (local_hello m)) = Some sgp" "length sgp = 32"
    "b64_dec S (h_ephemeral_pub_b64 (local_hello m)) = Some eph" "length eph = 32"
    "hs_b64_decode_opt S (h_pqc_pub_b64 (local_hello m)) ''local PQ public key'' = Ok pq'"
    and here: "here = \<lparr>sd_identity = idp, sd_signing = sgp, sd_pqc = pq', sd_ephemeral = eph,
      sd_nonce = local_nonce m, sd_timestamp = h_timestamp_secs (local_hello m)\<rparr>"
    and keys: "derive_session_key S (hm_profile m) (hybrid_secret ?e pq)
        (sha256 S (session_transcript (hm_profile m) initiator here there ct))
        (if initiator then ''initiator'' else ''responder'') = Ok sk"
      "derive_session_key S (hm_profile m) (hybrid_secret ?e pq)
        (sha256 S (session_transcript (hm_profile m) initiator here there ct))
        (if initiator then ''responder'' else ''initiator'') = Ok rk"
    and st: "st = \<lparr>peer_fingerprint_hex = compute_fingerprint_hex S (sd_identity there),
        peer_identity_pubkey_b64 = b64_enc S (sd_identity there),
        peer_signing_pubkey_b64 = b64_enc S (sd_signing there),
        hs_session_keys = \<lparr>send_key = sk, recv_key = rk, send_nonce = 0, recv_nonce = 0\<rparr>,
        transcript_hash_hex = hex_enc S (sha256 S (session_transcript (hm_profile m) initiator here there ct))\<rparr>"
    by (auto simp: derive_state_def Let_def pq_binding_def simp del: if_split
        split: result.splits option.splits if_split_asm)
  have "material_side S m here"
    using * hs_b64_decode_opt_Ok [of S "h_pqc_pub_b64 (local_hello m)" "''local PQ public key''"]
    by (simp add: material_side_def Let_def here)
  with * keys st show ?r by blast
next
  assume ?r
  then obtain here pq ct sk rk ecdh th where h: "material_side S m here" "pq_binding m pq ct"
    "ecdh = derive_shared S (local_ephemeral m) (sd_ephemeral there)" "ecdh \<noteq> replicate 32 0"
    and keys: "th = sha256 S (session_transcript (hm_profile m) initiator here there ct)"
      "derive_session_key S (hm_profile m) (hybrid_secret ecdh pq) th
        (if initiator then ''initiator'' else ''responder'') = Ok sk"
      "derive_session_key S (hm_profile m) (hybrid_secret ecdh pq) th
        (if initiator then ''responder'' else ''initiator'') = Ok rk"
    and st: "st = \<lparr>peer_fingerprint_hex = compute_fingerprint_hex S (sd_identity there),
        peer_identity_pubkey_b64 = b64_enc S (sd_identity there),
        peer_signing_pubkey_b64 = b64_enc S (sd_signing there),
        hs_session_keys = \<lparr>send_key = sk, recv_key = rk, send_nonce = 0, recv_nonce = 0\<rparr>,
        transcript_hash_hex = hex_enc S th\<rparr>" by blast
  have here: "\<lparr>sd_identity = sd_identity here, sd_signing = sd_signing here, sd_pqc = sd_pqc here,
      sd_ephemeral = sd_ephemeral here, sd_nonce = local_nonce m, sd_timestamp = h_timestamp_secs (local_hello m)\<rparr> = here"
    using h(1) by (simp add: material_side_def Let_def)
  have dl: "decode_32 S (h_identity_pub_b64 (local_hello m)) w = Ok (sd_identity here)"
    "decode_32 S (h_sign_pub_b64 (local_hello m)) w = Ok (sd_signing here)"
    "decode_32 S (h_ephemeral_pub_b64 (local_hello m)) w = Ok (sd_ephemeral here)"
    "hs_b64_decode_opt S (h_pqc_pub_b64 (local_hello m)) w = Ok (sd_pqc here)" for w
    using h(1) hs_b64_decode_opt_Ok [of S _ w] by (auto simp: material_side_def Let_def)
  show ?l
  proof (cases "uses_pqc (hm_profile m)")
    case True
    with h(2) obtain s c where "pq_shared m = Some s" "pq = Some s" "pq_ciphertext m = Some c" "ct = Some c"
      "length c = ML_KEM_768_CIPHERTEXT_BYTES" by (cases "pq_shared m") (auto simp: pq_binding_def)
    with True h(4) keys(2,3) show ?thesis
      by (simp add: derive_state_def Let_def dl here st h(3) keys(1) split del: if_split)
  next
    case False
    with h(2,4) keys(2,3) show ?thesis
      by (simp add: derive_state_def Let_def dl here pq_binding_def st h(3) keys(1) split del: if_split)
  qed
qed

lemma verify_and_derive_eq:
  assumes v: "verify_hello_signature S clock i m p policy = Ok ()" and sd: "hello_side S p there"
  shows "verify_and_derive_with_profile S clock i m p initiator policy = derive_state S m initiator there"
proof -
  from v have prof: "h_profile p = hm_profile m" "h_proto p = protocol_tag (hm_profile m)"
    and loc: "validate_local_material S i m = Ok ()"
    by (simp_all add: verify_hello_signature_iff)
  from v obtain now sd' payload where c: "clock = Some now" and sd': "hello_side S p sd'"
    and w: "abs_diff now (h_timestamp_secs p) \<le> MAX_SKEW_SECS"
    and pqc': "uses_pqc (hm_profile m) \<longleftrightarrow> sd_pqc sd' \<noteq> None"
    and sig': "side_payload (hm_profile m) sd' = Ok payload"
      "verify_handshake_signature S payload (h_sig p) (sd_signing sd') = Ok ()"
    unfolding verify_hello_signature_iff by blast
  have t: "sd' = there" using sd' sd by (rule hello_side_unique)
  note sig = sig' [unfolded t]
  have pqc: "(uses_pqc (hm_profile m) \<noteq> (sd_pqc there \<noteq> None)) = False" using pqc' t by simp
  from loc have l: "h_proto (local_hello m) = protocol_tag (hm_profile m)" "h_profile (local_hello m) = hm_profile m"
    by (auto simp: validate_local_material_def Let_def split: if_splits)
  have d: "decode_32 S (h_identity_pub_b64 p) w = Ok (sd_identity there)" "decode_32 S (h_ephemeral_pub_b64 p) w = Ok (sd_ephemeral there)"
    "decode_32 S (h_nonce_b64 p) w = Ok (sd_nonce there)" "decode_32 S (h_sign_pub_b64 p) w = Ok (sd_signing there)"
    "hs_b64_decode_opt S (h_pqc_pub_b64 p) w = Ok (sd_pqc there)" "h_timestamp_secs p = sd_timestamp there" for w
    using sd hs_b64_decode_opt_Ok [of S _ w] by (auto simp: hello_side_def)
  have there: "\<lparr>sd_identity = sd_identity there, sd_signing = sd_signing there, sd_pqc = sd_pqc there,
      sd_ephemeral = sd_ephemeral there, sd_nonce = sd_nonce there, sd_timestamp = sd_timestamp there\<rparr> = there"
    by simp
  have w': "(MAX_SKEW_SECS < abs_diff now (sd_timestamp there)) = False" using w d(6) by simp
  show ?thesis
    unfolding verify_and_derive_with_profile_def v result.case Let_def prof l d c option.case pqc if_False
      sig(1) [unfolded side_payload_def] sig(2) there w' by (simp add: v [unfolded c])
qed

section \<open>The signed payload is the concatenation of its parts\<close>

lemma append_signed_parts_fits:
  "length pre = k \<Longrightarrow> length (concat ps) \<le> n \<Longrightarrow> k + n \<le> usize_max \<Longrightarrow>
   append_signed_parts (pre @ replicate n 0, k) ps
     = Ok (pre @ concat ps @ replicate (n - length (concat ps)) 0, k + length (concat ps))"
proof (induction ps arbitrary: pre k n)
  case (Cons p ps)
  then have "append_signed_part (pre @ replicate n 0, k) p = Ok ((pre @ p) @ replicate (n - length p) 0, k + length p)"
    by (simp add: append_signed_part_def checked_add_def write_at_front)
  with Cons.IH [of "pre @ p" "k + length p" "n - length p"] Cons.prems show ?case by simp
qed simp

lemma append_signed_parts_overflow:
  "length buf \<le> usize_max \<Longrightarrow> length buf < k + length (concat ps) \<Longrightarrow> k \<le> length buf \<Longrightarrow>
   \<exists>e. append_signed_parts (buf, k) ps = Err (Handshake e)"
proof (induction ps arbitrary: buf k)
  case (Cons p ps)
  show ?case
  proof (cases "k + length p \<le> length buf")
    case True
    with Cons.IH [of "write_at buf k p" "k + length p"] Cons.prems show ?thesis
      by (simp add: append_signed_part_def checked_add_def)
  next
    case False
    then show ?thesis by (auto simp: append_signed_part_def range_simps split: option.splits)
  qed
qed simp

lemma signed_payload_eq:
  "signed_payload profile idp sgp pqc eph nonce ts = Ok b \<longleftrightarrow>
     length (concat (signed_parts profile idp sgp pqc eph nonce ts)) \<le> 1400
     \<and> b = concat (signed_parts profile idp sgp pqc eph nonce ts)"
proof (cases "length (concat (signed_parts profile idp sgp pqc eph nonce ts)) \<le> 1400")
  case True
  then show ?thesis
    using append_signed_parts_fits [of "[]" 0 "signed_parts profile idp sgp pqc eph nonce ts" 1400]
    by (auto simp: signed_payload_def MAX_SIGNED_PAYLOAD_BYTES_def usize_max_def)
next
  case False
  then show ?thesis
    using append_signed_parts_overflow [of "replicate 1400 0" 0 "signed_parts profile idp sgp pqc eph nonce ts"]
    by (auto simp: signed_payload_def MAX_SIGNED_PAYLOAD_BYTES_def usize_max_def)
qed

definition side_sizes :: "handshake_profile \<Rightarrow> side \<Rightarrow> bool" where
  "side_sizes profile sd \<longleftrightarrow> length (sd_identity sd) = 32 \<and> length (sd_signing sd) = 32
     \<and> length (sd_ephemeral sd) = 32 \<and> length (sd_nonce sd) = 32 \<and> sd_timestamp sd \<le> u64_max
     \<and> (uses_pqc profile \<longleftrightarrow> sd_pqc sd \<noteq> None)
     \<and> (\<forall>k\<in>set_option (sd_pqc sd). length k = ML_KEM_768_PUBLIC_KEY_BYTES)"

lemma side_payload_total:
  "side_sizes profile sd \<Longrightarrow> side_payload profile sd = Ok (concat (signed_parts profile (sd_identity sd)
     (sd_signing sd) (sd_pqc sd) (sd_ephemeral sd) (sd_nonce sd) (sd_timestamp sd)))"
  by (cases profile)
    (auto simp: side_payload_def signed_payload_eq signed_parts_def side_sizes_def ML_KEM_768_PUBLIC_KEY_BYTES_def)

lemma be_bytes8_inj: "be_bytes 8 a = be_bytes 8 b \<Longrightarrow> a \<le> u64_max \<Longrightarrow> b \<le> u64_max \<Longrightarrow> a = b"
proof (rule be_bytes_inj)
  have "(256 :: nat) ^ 8 = u64_max + 1" by (simp add: u64_max_def)
  then show "a \<le> u64_max \<Longrightarrow> a < 256 ^ 8" and "b \<le> u64_max \<Longrightarrow> b < 256 ^ 8" by simp_all
qed

lemma signed_parts_inj:
  assumes "side_sizes p1 a" and "side_sizes p2 b"
    and eq: "concat (signed_parts p1 (sd_identity a) (sd_signing a) (sd_pqc a) (sd_ephemeral a) (sd_nonce a) (sd_timestamp a))
      = concat (signed_parts p2 (sd_identity b) (sd_signing b) (sd_pqc b) (sd_ephemeral b) (sd_nonce b) (sd_timestamp b))"
  shows "p1 = p2 \<and> a = (b :: side)"
proof -
  have tag: "take 8 (concat (signed_parts p i s q e n t)) = as_bytes (take 8 (protocol_tag p))" for p i s q e n t
    by (cases p) (simp_all add: signed_parts_def as_bytes_def)
  from tag [of p1] tag [of p2] eq have "as_bytes (take 8 (protocol_tag p1)) = as_bytes (take 8 (protocol_tag p2))" by metis
  then have "take 8 (protocol_tag p1) = take 8 (protocol_tag p2)" by (simp add: as_bytes_inj)
  then have p: "p1 = p2" by (cases p1; cases p2) simp_all
  have "sd_timestamp a = sd_timestamp b \<and> sd_identity a = sd_identity b \<and> sd_signing a = sd_signing b
      \<and> sd_pqc a = sd_pqc b \<and> sd_ephemeral a = sd_ephemeral b \<and> sd_nonce a = sd_nonce b"
    using assms p be_bytes8_inj [of "sd_timestamp a" "sd_timestamp b"]
    by (cases "sd_pqc a"; cases "sd_pqc b") (auto simp: signed_parts_def side_sizes_def)
  with p show ?thesis by (cases a; cases b) simp
qed

section \<open>The transcript determines its fields\<close>

lemma transcript_field_inj:
  assumes "transcript_field l v @ r = transcript_field l w @ s"
    and "length v \<le> u64_max" and "length w \<le> u64_max"
  shows "v = w \<and> r = s"
proof -
  from assms(1) have e: "be_bytes 8 (length v) @ v @ r = be_bytes 8 (length w) @ w @ s"
    by (simp add: transcript_field_def)
  then have "be_bytes 8 (length v) = be_bytes 8 (length w)" by simp
  from be_bytes8_inj [OF this assms(2,3)] have "length v = length w" .
  with e show ?thesis by simp
qed

lemma transcript_optional_field_inj:
  assumes eq: "transcript_optional_field l v @ r = transcript_optional_field l w @ s"
    and "\<forall>x\<in>set_option v. length x \<le> u64_max" and "\<forall>x\<in>set_option w. length x \<le> u64_max"
  shows "v = w \<and> r = s"
proof -
  from eq have "transcript_field l [if v \<noteq> None then 1 else 0] @ ((case v of None \<Rightarrow> [] | Some x \<Rightarrow> transcript_field l x) @ r)
      = transcript_field l [if w \<noteq> None then 1 else 0] @ ((case w of None \<Rightarrow> [] | Some x \<Rightarrow> transcript_field l x) @ s)"
    by (simp add: transcript_optional_field_def)
  from transcript_field_inj [OF this] have f: "(v = None) = (w = None)"
    and rest: "(case v of None \<Rightarrow> [] | Some x \<Rightarrow> transcript_field l x) @ r
      = (case w of None \<Rightarrow> [] | Some x \<Rightarrow> transcript_field l x) @ s"
    by (auto simp: u64_max_def split: if_splits)
  show ?thesis
  proof (cases v)
    case None
    with f rest show ?thesis by simp
  next
    case (Some x)
    with f obtain y where y: "w = Some y" by auto
    with Some rest transcript_field_inj [of l x r y s] assms(2,3) show ?thesis by simp
  qed
qed

lemma transcript_u64_inj:
  assumes "transcript_u64 l a @ r = transcript_u64 l b @ s" and "a \<le> u64_max" and "b \<le> u64_max"
  shows "a = b \<and> r = s"
proof -
  from transcript_field_inj [OF assms(1) [unfolded transcript_u64_def]]
  have "be_bytes 8 a = be_bytes 8 b" "r = s" by (simp_all add: u64_max_def)
  with assms(2,3) be_bytes8_inj show ?thesis by blast
qed

lemma transcript_field_eq:
  "length v \<le> u64_max \<Longrightarrow> length w \<le> u64_max \<Longrightarrow>
   transcript_field l v @ r = transcript_field l w @ s \<longleftrightarrow> v = w \<and> r = s"
  using transcript_field_inj by blast

lemma transcript_optional_field_eq:
  "\<forall>x\<in>set_option v. length x \<le> u64_max \<Longrightarrow> \<forall>x\<in>set_option w. length x \<le> u64_max \<Longrightarrow>
   transcript_optional_field l v @ r = transcript_optional_field l w @ s \<longleftrightarrow> v = w \<and> r = s"
  using transcript_optional_field_inj by blast

lemma transcript_optional_field_eq_end:
  "\<forall>x\<in>set_option v. length x \<le> u64_max \<Longrightarrow> \<forall>x\<in>set_option w. length x \<le> u64_max \<Longrightarrow>
   transcript_optional_field l v = transcript_optional_field l w \<longleftrightarrow> v = w"
  using transcript_optional_field_eq [of v w l "[]" "[]"] by simp

lemma transcript_u64_eq:
  "a \<le> u64_max \<Longrightarrow> b \<le> u64_max \<Longrightarrow> transcript_u64 l a @ r = transcript_u64 l b @ s \<longleftrightarrow> a = b \<and> r = s"
  using transcript_u64_inj by blast

lemma side_sizes_small:
  "side_sizes p sd \<Longrightarrow> length (sd_identity sd) \<le> u64_max \<and> length (sd_signing sd) \<le> u64_max
     \<and> length (sd_ephemeral sd) \<le> u64_max \<and> length (sd_nonce sd) \<le> u64_max \<and> sd_timestamp sd \<le> u64_max
     \<and> (\<forall>k\<in>set_option (sd_pqc sd). length k \<le> u64_max)"
  by (simp add: side_sizes_def u64_max_def ML_KEM_768_PUBLIC_KEY_BYTES_def)

lemma protocol_tag_inj: "protocol_tag p = protocol_tag q \<longleftrightarrow> p = q"
  by (cases p; cases q) simp_all

lemma transcript_inj:
  assumes "side_sizes p a" "side_sizes p b" "side_sizes q c" "side_sizes q d"
    and "length i \<le> u64_max" "length j \<le> u64_max"
    and "\<forall>x\<in>set_option ct. length x \<le> u64_max" "\<forall>x\<in>set_option dt. length x \<le> u64_max"
    and eq: "transcript p i a b ct = transcript q j c d dt"
  shows "p = q \<and> i = j \<and> a = (c :: side) \<and> b = (d :: side) \<and> ct = dt"
proof -
  have t: "length (protocol_tag x) \<le> u64_max" "length (profile_as_str x) \<le> u64_max" for x
    by (cases x; simp add: u64_max_def)+
  note s = side_sizes_small [OF assms(1)] side_sizes_small [OF assms(2)]
    side_sizes_small [OF assms(3)] side_sizes_small [OF assms(4)]
  have "as_bytes (protocol_tag p) = as_bytes (protocol_tag q) \<and> i = j \<and> sd_identity a = sd_identity c
    \<and> sd_signing a = sd_signing c \<and> sd_pqc a = sd_pqc c \<and> sd_ephemeral a = sd_ephemeral c
    \<and> sd_nonce a = sd_nonce c \<and> sd_timestamp a = sd_timestamp c
    \<and> sd_identity b = sd_identity d \<and> sd_signing b = sd_signing d \<and> sd_pqc b = sd_pqc d
    \<and> sd_ephemeral b = sd_ephemeral d \<and> sd_nonce b = sd_nonce d \<and> sd_timestamp b = sd_timestamp d \<and> ct = dt"
    using eq s assms(5-8) t unfolding transcript_def
    by (simp add: transcript_field_eq transcript_optional_field_eq transcript_optional_field_eq_end transcript_u64_eq)
  then show ?thesis by (cases a; cases b; cases c; cases d) (simp add: as_bytes_inj protocol_tag_inj)
qed

section \<open>Honest peers\<close>

lemma session_transcript_sym:
  "sd_identity a \<noteq> sd_identity b \<Longrightarrow> session_transcript p True a b ct = session_transcript p False b a ct"
  using lex_le_total [of "sd_identity a" "sd_identity b"] lex_le_antisym [of "sd_identity a" "sd_identity b"]
  by (auto simp: session_transcript_def Let_def)

lemma derive_session_key_total:
  assumes "suite_ok S" and "length th = 32" and "dir \<in> {''initiator'', ''responder''}"
  shows "\<exists>k. derive_session_key S p sh th dir = Ok k \<and> length k = 32"
proof -
  have "length (concat [as_bytes ''shph-session-v2'', as_bytes (protocol_tag p), th, as_bytes dir]) \<le> 100"
    using assms(2,3) by (cases p) auto
  moreover obtain k where "suite_hkdf S (concat [as_bytes ''shph-session-v2'', as_bytes (protocol_tag p), th, as_bytes dir])
      (take (if uses_pqc p then 64 else 32) sh) 32 = Some k" "length k = 32"
    using suite_okD(10) [OF assms(1), of 32] by (auto simp: MAX_HKDF_OUTPUT_BYTES_def)
  ultimately show ?thesis
    unfolding derive_session_key_def hkdf_sha256_into_eq
    by (simp add: MAX_HKDF_OUTPUT_BYTES_def MAX_HKDF_CONTEXT_BYTES_def usize_max_def)
qed

definition own_side :: "suite \<Rightarrow> identity_key_pair \<Rightarrow> handshake_material \<Rightarrow> side" where
  "own_side S i m = \<lparr>sd_identity = ik_public i, sd_signing = ik_signing_public i,
     sd_pqc = map_option (encap_public_bytes S) (local_pqc m), sd_ephemeral = ik_public (local_ephemeral m),
     sd_nonce = local_nonce m, sd_timestamp = h_timestamp_secs (local_hello m)\<rparr>"

definition honest :: "suite \<Rightarrow> identity_key_pair \<Rightarrow> handshake_material \<Rightarrow> bool" where
  "honest S i m \<longleftrightarrow> identity_ok S i \<and> identity_ok S (local_ephemeral m) \<and> length (local_nonce m) = 32
     \<and> (uses_pqc (hm_profile m) \<longleftrightarrow> local_pqc m \<noteq> None) \<and> h_timestamp_secs (local_hello m) \<le> u64_max
     \<and> (let h = local_hello m; sd = own_side S i m in
          h_proto h = protocol_tag (hm_profile m) \<and> h_profile h = hm_profile m
        \<and> h_identity_pub_b64 h = b64_enc S (sd_identity sd) \<and> h_sign_pub_b64 h = b64_enc S (sd_signing sd)
        \<and> h_pqc_pub_b64 h = map_option (b64_enc S) (sd_pqc sd)
        \<and> h_ephemeral_pub_b64 h = b64_enc S (sd_ephemeral sd) \<and> h_nonce_b64 h = b64_enc S (sd_nonce sd)
        \<and> (\<exists>payload. side_payload (hm_profile m) sd = Ok payload \<and> h_sig h = sign_handshake S i payload))"

lemma honest_sides:
  assumes S: "suite_ok S" and h: "honest S i m"
  shows "hello_side S (local_hello m) (own_side S i m)" and "material_side S m (own_side S i m)"
    and "side_sizes (hm_profile m) (own_side S i m)"
proof -
  note ok = suite_okD(1) [OF S] identity_ok_lengths [OF S]
  have "hs_b64_decode_opt S (h_pqc_pub_b64 (local_hello m)) [] = Ok (sd_pqc (own_side S i m))"
    using h by (cases "local_pqc m") (auto simp: honest_def own_side_def Let_def hs_b64_decode_def ok)
  then show "hello_side S (local_hello m) (own_side S i m)" and "material_side S m (own_side S i m)"
    using h by (auto simp: honest_def Let_def hello_side_def material_side_def ok own_side_def)
  show "side_sizes (hm_profile m) (own_side S i m)"
    using h suite_okD(7) [OF S]
    by (auto simp: honest_def Let_def side_sizes_def own_side_def ok encap_public_bytes_def)
qed

text \<open>The post-quantum fields of a material are those of its profile and agree with its hello.\<close>

definition pq_state_ok :: "suite \<Rightarrow> handshake_material \<Rightarrow> bool" where
  "pq_state_ok S m \<longleftrightarrow>
     (\<not> uses_pqc (hm_profile m) \<longrightarrow> pq_shared m = None \<and> pq_ciphertext m = None \<and> h_pqc_ct_b64 (local_hello m) = None)
   \<and> (\<forall>e. h_pqc_ct_b64 (local_hello m) = Some e \<longrightarrow> (\<exists>c. b64_dec S e = Some c \<and> pq_ciphertext m = Some c))"

lemma honest_validates:
  assumes S: "suite_ok S" and h: "honest S i m" and pq: "pq_state_ok S m"
  shows "validate_local_material S i m = Ok ()"
proof -
  let ?sd = "own_side S i m"
  note hs = honest_sides(1) [OF S h]
  have d: "decode_32 S (h_identity_pub_b64 (local_hello m)) w = Ok (ik_public i)"
    "decode_32 S (h_ephemeral_pub_b64 (local_hello m)) w = Ok (ik_public (local_ephemeral m))"
    "decode_32 S (h_nonce_b64 (local_hello m)) w = Ok (local_nonce m)"
    "decode_32 S (h_sign_pub_b64 (local_hello m)) w = Ok (ik_signing_public i)"
    "hs_b64_decode_opt S (h_pqc_pub_b64 (local_hello m)) w = Ok (sd_pqc ?sd)" for w
    using hs hs_b64_decode_opt_Ok [of S _ w] by (auto simp: hello_side_def own_side_def)
  have chk: "pqc_material_check S m = Ok ()"
    using h pq by (auto simp: pqc_material_check_def Let_def honest_def own_side_def pq_state_ok_def
        hs_b64_decode_def suite_okD(1) [OF S])
  from h obtain payload where pl: "side_payload (hm_profile m) ?sd = Ok payload"
    "h_sig (local_hello m) = sign_handshake S i payload" by (auto simp: honest_def Let_def)
  have sp: "signed_payload (hm_profile m) (ik_public i) (ik_signing_public i) (sd_pqc ?sd)
      (ik_public (local_ephemeral m)) (local_nonce m) (h_timestamp_secs (local_hello m)) = Ok payload"
    using pl(1) by (simp add: side_payload_def own_side_def)
  have sig: "verify_handshake_signature S payload (h_sig (local_hello m)) (ik_signing_public i) = Ok ()"
    unfolding pl(2) by (rule own_signature_verifies [OF S]) (use h in \<open>simp add: honest_def\<close>)
  have prof: "h_proto (local_hello m) = protocol_tag (hm_profile m)" "h_profile (local_hello m) = hm_profile m"
    using h by (auto simp: honest_def Let_def)
  show ?thesis
    using pq by (auto simp: validate_local_material_def Let_def prof d chk sp sig hs_b64_decode_def
        pq_state_ok_def split: option.splits)
qed

lemma honest_verifies:
  assumes S: "suite_ok S" and a: "honest S ia ma" "pq_state_ok S ma" and b: "honest S ib mb"
    and p: "hm_profile ma = hm_profile mb" "h_pqc_ct_b64 (local_hello mb) = None"
    and w: "abs_diff now (h_timestamp_secs (local_hello mb)) \<le> 300"
    and pin: "pin_for_identity ib \<in> set pol"
  shows "verify_hello_signature S (Some now) ia ma (local_hello mb) pol = Ok ()"
proof -
  let ?sd = "own_side S ib mb"
  note sides = honest_sides [OF S b]
  from b obtain payload where pl: "side_payload (hm_profile mb) ?sd = Ok payload"
    "h_sig (local_hello mb) = sign_handshake S ib payload" by (auto simp: honest_def Let_def)
  have "verify_handshake_signature S payload (h_sig (local_hello mb)) (sd_signing ?sd) = Ok ()"
    unfolding pl(2) own_side_def by simp (rule own_signature_verifies [OF S], use b in \<open>simp add: honest_def\<close>)
  moreover have "allows pol (sd_identity ?sd) (sd_signing ?sd)"
    unfolding allows_def list_ex_iff
    by (rule bexI [OF _ pin]) (simp add: own_side_def pin_for_identity_def)
  ultimately show ?thesis
    unfolding verify_hello_signature_iff
    using honest_validates [OF S a] sides pl(1) p w b
    by (intro conjI exI [of _ now] exI [of _ ?sd] exI [of _ payload])
      (auto simp: side_sizes_def honest_def Let_def MAX_SKEW_SECS_def)
qed

lemma build_honest:
  assumes S: "suite_ok S" and R: "rng_ok R" and i: "identity_ok S i" and ts: "ts \<le> u64_max"
    and build: "build_hello_with_profile S R (Some ts) i profile g = (Ok m, g')"
  shows "honest S i m" and "hm_profile m = profile" and "h_pqc_ct_b64 (local_hello m) = None"
    and "pq_shared m = None" and "pq_ciphertext m = None" and "h_timestamp_secs (local_hello m) = ts"
proof -
  obtain eph g1 where eph: "identity_generate S R g = (Ok eph, g1)"
    using build by (auto simp: build_hello_with_profile_def split: prod.splits result.splits)
  then obtain nonce g2 where nonce: "ring_fill R 32 g1 = (Ok nonce, g2)"
    using build by (auto simp: build_hello_with_profile_def split: prod.splits result.splits)
  have nl: "length nonce = 32"
    using nonce rng_ok_fill [OF R, of 32 g1] by (auto simp: ring_fill_def split: prod.splits option.splits)
  have ek: "identity_ok S eph"
    using eph by (auto simp: identity_generate_def split: prod.splits result.splits)
  obtain pqc g3 where pqc: "(if uses_pqc profile
            then (case pqc_generate R g2 of (Err e, g3) \<Rightarrow> (Err e, g3) | (Ok k, g3) \<Rightarrow> (Ok (Some k), g3))
            else (Ok None, g2)) = (Ok pqc, g3)" and up: "uses_pqc profile \<longleftrightarrow> pqc \<noteq> None"
    using build by (auto simp: build_hello_with_profile_def eph nonce split: prod.splits result.splits if_splits)
  from build obtain payload where pl: "signed_payload profile (ik_public i) (ik_signing_public i)
      (map_option (encap_public_bytes S) pqc) (ik_public eph) nonce ts = Ok payload"
    by (auto simp: build_hello_with_profile_def eph nonce pqc Let_def split: result.splits simp del: if_split)
  have m: "m = \<lparr>local_ephemeral = eph, local_nonce = nonce, hm_profile = profile, local_pqc = pqc,
      local_hello = \<lparr>h_proto = protocol_tag profile, h_profile = profile,
        h_identity_pub_b64 = b64_enc S (ik_public i), h_sign_pub_b64 = b64_enc S (ik_signing_public i),
        h_pqc_pub_b64 = map_option (b64_enc S) (map_option (encap_public_bytes S) pqc), h_pqc_ct_b64 = None,
        h_ephemeral_pub_b64 = b64_enc S (ik_public eph), h_nonce_b64 = b64_enc S nonce,
        h_timestamp_secs = ts, h_sig = sign_handshake S i payload\<rparr>,
      pq_shared = None, pq_ciphertext = None\<rparr>"
    using build by (simp add: build_hello_with_profile_def eph nonce pqc Let_def pl split del: if_split)
  show "honest S i m"
    using i ek nl up ts pl by (simp add: honest_def m own_side_def Let_def side_payload_def)
  show "hm_profile m = profile" "h_pqc_ct_b64 (local_hello m) = None"
    "pq_shared m = None" "pq_ciphertext m = None" "h_timestamp_secs (local_hello m) = ts" by (simp_all add: m)
qed

text \<open>Two honest materials with the same post-quantum secret and ciphertext derive matching keys.\<close>

lemma honest_agree:
  assumes S: "suite_ok S" and a: "honest S ia ma" and b: "honest S ib mb"
    and p: "hm_profile ma = hm_profile mb" and ne: "ik_public ia \<noteq> ik_public ib"
    and nz: "derive_shared S (local_ephemeral ma) (ik_public (local_ephemeral mb)) \<noteq> replicate 32 0"
    and pq: "pq_binding ma s ct" "pq_binding mb s ct"
  obtains sa sb where "derive_state S ma True (own_side S ib mb) = Ok sa" "derive_state S mb False (own_side S ia ma) = Ok sb"
    "send_key (hs_session_keys sa) = recv_key (hs_session_keys sb)"
    "recv_key (hs_session_keys sa) = send_key (hs_session_keys sb)"
    "transcript_hash_hex sa = transcript_hash_hex sb"
    "length (send_key (hs_session_keys sa)) = 32" "length (recv_key (hs_session_keys sa)) = 32"
proof -
  let ?A = "own_side S ia ma" and ?B = "own_side S ib mb"
  have sh: "derive_shared S (local_ephemeral mb) (ik_public (local_ephemeral ma))
      = derive_shared S (local_ephemeral ma) (ik_public (local_ephemeral mb))"
    using shared_commutes [OF S] a b by (simp add: honest_def)
  have tr: "session_transcript (hm_profile ma) True ?A ?B ct = session_transcript (hm_profile mb) False ?B ?A ct"
    unfolding p by (rule session_transcript_sym) (simp add: own_side_def ne)
  define th where "th = sha256 S (session_transcript (hm_profile ma) True ?A ?B ct)"
  define sec where "sec = hybrid_secret (derive_shared S (local_ephemeral ma) (ik_public (local_ephemeral mb))) s"
  have len: "length th = 32" by (simp add: th_def suite_okD(9) [OF S])
  obtain ki where ki: "derive_session_key S (hm_profile ma) sec th ''initiator'' = Ok ki" "length ki = 32"
    using derive_session_key_total [OF S len, of "''initiator''" "hm_profile ma" sec] by auto
  obtain kr where kr: "derive_session_key S (hm_profile ma) sec th ''responder'' = Ok kr" "length kr = 32"
    using derive_session_key_total [OF S len, of "''responder''" "hm_profile ma" sec] by auto
  note k = ki(1) kr(1)
  define sa where "sa = \<lparr>peer_fingerprint_hex = compute_fingerprint_hex S (sd_identity ?B),
      peer_identity_pubkey_b64 = b64_enc S (sd_identity ?B), peer_signing_pubkey_b64 = b64_enc S (sd_signing ?B),
      hs_session_keys = \<lparr>send_key = ki, recv_key = kr, send_nonce = 0, recv_nonce = 0\<rparr>,
      transcript_hash_hex = hex_enc S th\<rparr>"
  define sb where "sb = \<lparr>peer_fingerprint_hex = compute_fingerprint_hex S (sd_identity ?A),
      peer_identity_pubkey_b64 = b64_enc S (sd_identity ?A), peer_signing_pubkey_b64 = b64_enc S (sd_signing ?A),
      hs_session_keys = \<lparr>send_key = kr, recv_key = ki, send_nonce = 0, recv_nonce = 0\<rparr>,
      transcript_hash_hex = hex_enc S th\<rparr>"
  have eA: "sd_ephemeral ?A = ik_public (local_ephemeral ma)" "sd_ephemeral ?B = ik_public (local_ephemeral mb)"
    by (simp_all add: own_side_def)
  have "derive_state S ma True ?B = Ok sa"
    unfolding derive_state_iff eA
    using honest_sides(2) [OF S a] pq(1) nz k
    by (intro exI [of _ ?A] exI [of _ s] exI [of _ ct] exI [of _ ki] exI [of _ kr] exI [of _ th] exI conjI)
      (simp_all add: sec_def th_def sa_def)
  moreover have "derive_state S mb False ?A = Ok sb"
    unfolding derive_state_iff eA sh
    using honest_sides(2) [OF S b] pq(2) nz k
    by (intro exI [of _ ?B] exI [of _ s] exI [of _ ct] exI [of _ kr] exI [of _ ki] exI [of _ th] exI conjI)
      (simp_all add: sec_def th_def sb_def tr p [symmetric])
  ultimately show thesis by (rule that) (use ki(2) kr(2) in \<open>simp_all add: sa_def sb_def\<close>)
qed

lemma honest_pq_update [simp]:
  "honest S i (m\<lparr>pq_shared := s\<rparr>) = honest S i m"
  "honest S i (m\<lparr>pq_ciphertext := c\<rparr>) = honest S i m"
  "honest S i (m\<lparr>local_hello := (local_hello m)\<lparr>h_pqc_ct_b64 := e\<rparr>\<rparr>) = honest S i m"
  "own_side S i (m\<lparr>pq_shared := s\<rparr>) = own_side S i m"
  "own_side S i (m\<lparr>pq_ciphertext := c\<rparr>) = own_side S i m"
  "own_side S i (m\<lparr>local_hello := (local_hello m)\<lparr>h_pqc_ct_b64 := e\<rparr>\<rparr>) = own_side S i m"
  by (simp_all add: honest_def own_side_def Let_def)

text \<open>What a completed handshake promises to both ends.\<close>

definition agreed :: "handshake_state \<Rightarrow> handshake_state \<Rightarrow> bool" where
  "agreed sa sb \<longleftrightarrow> send_key (hs_session_keys sa) = recv_key (hs_session_keys sb)
     \<and> recv_key (hs_session_keys sa) = send_key (hs_session_keys sb)
     \<and> transcript_hash_hex sa = transcript_hash_hex sb
     \<and> length (send_key (hs_session_keys sa)) = 32 \<and> length (recv_key (hs_session_keys sa)) = 32"

lemma honest_derive:
  assumes S: "suite_ok S" and a: "honest S ia ma" "pq_state_ok S ma" and b: "honest S ib mb" "pq_state_ok S mb"
    and p: "hm_profile ma = hm_profile mb" and ne: "ik_public ia \<noteq> ik_public ib"
    and nz: "derive_shared S (local_ephemeral ma) (ik_public (local_ephemeral mb)) \<noteq> replicate 32 0"
    and pq: "pq_binding ma s ct" "pq_binding mb s ct"
    and ha: "honest S ia a0" "local_hello a0 = ha" "hm_profile a0 = hm_profile ma" "own_side S ia a0 = own_side S ia ma"
      "h_pqc_ct_b64 ha = None"
    and hb: "honest S ib b0" "local_hello b0 = hb" "hm_profile b0 = hm_profile mb" "own_side S ib b0 = own_side S ib mb"
      "h_pqc_ct_b64 hb = None"
    and w: "abs_diff na (h_timestamp_secs hb) \<le> 300" "abs_diff nb (h_timestamp_secs ha) \<le> 300"
    and pin: "pin_for_identity ib \<in> set pa" "pin_for_identity ia \<in> set pb"
  shows "\<exists>sa sb. verify_and_derive_with_profile S (Some na) ia ma hb True pa = Ok sa
     \<and> verify_and_derive_with_profile S (Some nb) ib mb ha False pb = Ok sb \<and> agreed sa sb"
proof -
  from honest_agree [OF S a(1) b(1) p ne nz pq] obtain sa sb where
    d: "derive_state S ma True (own_side S ib mb) = Ok sa" "derive_state S mb False (own_side S ia ma) = Ok sb"
    and ag: "agreed sa sb" unfolding agreed_def by metis
  have vb: "verify_hello_signature S (Some na) ia ma (local_hello b0) pa = Ok ()"
    using hb w p by (intro honest_verifies [OF S a hb(1)] pin(1)) simp_all
  have va: "verify_hello_signature S (Some nb) ib mb (local_hello a0) pb = Ok ()"
    using ha w p by (intro honest_verifies [OF S b ha(1)] pin(2)) simp_all
  have "verify_and_derive_with_profile S (Some na) ia ma hb True pa = Ok sa"
    using verify_and_derive_eq [OF vb honest_sides(1) [OF S hb(1)], of True] d(1) hb(2,4) by simp
  moreover have "verify_and_derive_with_profile S (Some nb) ib mb ha False pb = Ok sb"
    using verify_and_derive_eq [OF va honest_sides(1) [OF S ha(1)], of False] d(2) ha(2,4) by simp
  ultimately show ?thesis using ag by blast
qed

text \<open>The exchange between two honest peers: both hellos, then, for the secure profile, the ciphertext
  of the initiator.\<close>

lemma honest_exchange:
  assumes S: "suite_ok S" and a: "honest S ia ma" and b: "honest S ib mb"
    and p: "hm_profile ma = hm_profile mb" and ne: "ik_public ia \<noteq> ik_public ib"
    and ca: "h_pqc_ct_b64 (local_hello ma) = None" "pq_shared ma = None" "pq_ciphertext ma = None"
    and cb: "h_pqc_ct_b64 (local_hello mb) = None" "pq_shared mb = None" "pq_ciphertext mb = None"
    and nz: "derive_shared S (local_ephemeral ma) (ik_public (local_ephemeral mb)) \<noteq> replicate 32 0"
    and w: "abs_diff na (h_timestamp_secs (local_hello mb)) \<le> 300" "abs_diff nb (h_timestamp_secs (local_hello ma)) \<le> 300"
    and pin: "pin_for_identity ib \<in> set pa" "pin_for_identity ia \<in> set pb"
  shows "\<exists>ct ma' mb' sa sb.
     (if uses_pqc (hm_profile ma)
      then finalize_initiator_pq S (Some na) r ia ma (local_hello mb) pa = (Ok ct, ma')
         \<and> absorb_responder_pq S (Some nb) ib mb (local_hello ma) ct pb = (Ok (), mb')
      else ma' = ma \<and> mb' = mb)
     \<and> verify_and_derive_with_profile S (Some na) ia ma' (local_hello mb) True pa = Ok sa
     \<and> verify_and_derive_with_profile S (Some nb) ib mb' (local_hello ma) False pb = Ok sb \<and> agreed sa sb"
proof (cases "uses_pqc (hm_profile ma)")
  case False
  with p ca cb have pq: "pq_state_ok S ma" "pq_state_ok S mb" "pq_binding ma None None" "pq_binding mb None None"
    by (simp_all add: pq_state_ok_def pq_binding_def)
  from honest_derive [OF S a pq(1) b pq(2) p ne nz pq(3,4) a refl refl refl ca(1) b refl refl refl cb(1) w pin]
  show ?thesis using False by auto
next
  case True
  have pq0: "pq_state_ok S ma" "pq_state_ok S mb" using ca cb by (simp_all add: pq_state_ok_def)
  from True b p obtain kb where kb: "local_pqc mb = Some kb" by (auto simp: honest_def)
  from encaps_decaps [OF S, of r kb] obtain ct ss where e: "encapsulate_against S r (encap_public_bytes S kb) = Ok (ct, ss)"
    "decapsulate S kb ct = Ok ss" "length ct = ML_KEM_768_CIPHERTEXT_BYTES" by metis
  define ma' where "ma' = ma\<lparr>local_hello := (local_hello ma)\<lparr>h_pqc_ct_b64 := Some (b64_enc S ct)\<rparr>,
      pq_shared := Some ss, pq_ciphertext := Some ct\<rparr>"
  define mb' where "mb' = mb\<lparr>pq_shared := Some ss, pq_ciphertext := Some ct\<rparr>"
  have hk: "h_pqc_pub_b64 (local_hello mb) = Some (b64_enc S (encap_public_bytes S kb))"
    using b by (simp add: honest_def Let_def own_side_def kb)
  have fin: "finalize_initiator_pq S (Some na) r ia ma (local_hello mb) pa = (Ok ct, ma')"
    using honest_verifies [OF S a pq0(1) b p cb(1) w(1) pin(1)] True e(1)
    by (simp add: finalize_initiator_pq_def hk hs_b64_decode_def suite_okD(1) [OF S] ma'_def)
  have ab: "absorb_responder_pq S (Some nb) ib mb (local_hello ma) ct pb = (Ok (), mb')"
    using honest_verifies [OF S b pq0(2) a p [symmetric] ca(1) w(2) pin(2)] True p e(2)
    by (simp add: absorb_responder_pq_def absorb_responder_pq_unverified_def kb mb'_def)
  have pq: "pq_state_ok S ma'" "pq_state_ok S mb'" "pq_binding ma' (Some ss) (Some ct)" "pq_binding mb' (Some ss) (Some ct)"
    using True p cb e(3) by (simp_all add: pq_state_ok_def pq_binding_def ma'_def mb'_def suite_okD(1) [OF S])
  have "\<exists>sa sb. verify_and_derive_with_profile S (Some na) ia ma' (local_hello mb) True pa = Ok sa
     \<and> verify_and_derive_with_profile S (Some nb) ib mb' (local_hello ma) False pb = Ok sb \<and> agreed sa sb"
    by (rule honest_derive [OF S _ pq(1) _ pq(2) _ ne _ pq(3,4) a refl _ _ ca(1) b refl _ _ cb(1) w pin])
      (use a b p nz in \<open>simp_all add: ma'_def mb'_def\<close>)
  with True fin ab show ?thesis by auto
qed

section \<open>Properties\<close>

text \<open>Two honest peers agree.  Each built its hello with \<open>build_hello_with_profile\<close> for the same profile,
  each pins the other, the two identities differ, each clock is within 300 seconds of the other hello's
  timestamp and the X25519 secret is not the all-zero value.  Then every step of the handshake succeeds: for the
  secure profile the initiator encapsulates and the responder accepts that ciphertext, and both
  derivations return states whose send and receive keys are each other's 32-byte keys and whose
  transcript hashes are equal.\<close>

lemma handshake_agreement:
  assumes S: "suite_ok S" and R: "rng_ok Ra" "rng_ok Rb" and i: "identity_ok S ia" "identity_ok S ib"
    and t: "ta \<le> u64_max" "tb \<le> u64_max"
    and ba: "build_hello_with_profile S Ra (Some ta) ia profile ga = (Ok ma, ga')"
    and bb: "build_hello_with_profile S Rb (Some tb) ib profile gb = (Ok mb, gb')"
    and ne: "ik_public ia \<noteq> ik_public ib"
    and nz: "derive_shared S (local_ephemeral ma) (ik_public (local_ephemeral mb)) \<noteq> replicate 32 0"
    and w: "abs_diff na tb \<le> 300" "abs_diff nb ta \<le> 300"
    and pin: "pin_for_identity ib \<in> set pa" "pin_for_identity ia \<in> set pb"
  shows "\<exists>ct ma' mb' sa sb.
     (if uses_pqc profile
      then finalize_initiator_pq S (Some na) r ia ma (local_hello mb) pa = (Ok ct, ma')
         \<and> absorb_responder_pq S (Some nb) ib mb (local_hello ma) ct pb = (Ok (), mb')
      else ma' = ma \<and> mb' = mb)
     \<and> verify_and_derive_with_profile S (Some na) ia ma' (local_hello mb) True pa = Ok sa
     \<and> verify_and_derive_with_profile S (Some nb) ib mb' (local_hello ma) False pb = Ok sb
     \<and> send_key (hs_session_keys sa) = recv_key (hs_session_keys sb)
     \<and> recv_key (hs_session_keys sa) = send_key (hs_session_keys sb)
     \<and> transcript_hash_hex sa = transcript_hash_hex sb
     \<and> length (send_key (hs_session_keys sa)) = 32 \<and> length (recv_key (hs_session_keys sa)) = 32"
proof -
  note A = build_honest [OF S R(1) i(1) t(1) ba] and B = build_honest [OF S R(2) i(2) t(2) bb]
  have "hm_profile ma = hm_profile mb" using A(2) B(2) by simp
  from honest_exchange [OF S A(1) B(1) this ne A(3,4,5) B(3,4,5) nz _ _ pin, of na nb r] w
  show ?thesis unfolding agreed_def A(2,6) B(6) by simp
qed

text \<open>The concrete peers of the witnesses: a hello built from a generator that never fails.\<close>

lemma build_total:
  assumes S: "suite_ok S" and R: "rng_ok R" and i: "identity_ok S i" and ts: "ts \<le> u64_max"
    and f: "fill_bytes R 32 g = (Some d, g1)" "fill_bytes R 32 g1 = (Some s, g2)" "fill_bytes R 32 g2 = (Some n, g3)"
      "fill_bytes R 64 g3 = (Some k, g4)"
  shows "\<exists>m g'. build_hello_with_profile S R (Some ts) i profile g = (Ok m, g')
     \<and> local_ephemeral m = identity_from_seeds S d s"
proof -
  have eph: "identity_generate S R g = (Ok (identity_from_seeds S d s), g2)"
    by (simp add: identity_generate_def ring_fill_def f)
  have nonce: "ring_fill R 32 g2 = (Ok n, g3)" and pqc: "pqc_generate R g3 = (Ok k, g4)"
    by (simp_all add: ring_fill_def pqc_generate_def f)
  have ok: "identity_ok S (identity_from_seeds S d s)" by simp
  note l = identity_ok_lengths [OF S i] identity_ok_lengths [OF S ok] rng_ok_fill [OF R f(3)] suite_okD(7) [OF S]
  have "length (concat (signed_parts profile (ik_public i) (ik_signing_public i)
      (if uses_pqc profile then Some (encap_public_bytes S k) else None)
      (ik_public (identity_from_seeds S d s)) n ts)) \<le> 1400"
    by (cases profile) (simp_all add: signed_parts_def l encap_public_bytes_def ML_KEM_768_PUBLIC_KEY_BYTES_def)
  then obtain payload where "signed_payload profile (ik_public i) (ik_signing_public i)
      (if uses_pqc profile then Some (encap_public_bytes S k) else None)
      (ik_public (identity_from_seeds S d s)) n ts = Ok payload" by (auto simp: signed_payload_eq)
  then show ?thesis
    by (cases "uses_pqc profile") (simp_all add: build_hello_with_profile_def eph nonce pqc Let_def)
qed

definition sample_identity :: "byte \<Rightarrow> identity_key_pair" where
  "sample_identity b = identity_from_seeds plain_suite [b] [b]"

lemma sample_identity_ok [simp]: "identity_ok plain_suite (sample_identity b)"
  by (simp add: sample_identity_def)

lemma sample_identity_distinct: "ik_public (sample_identity 1) \<noteq> ik_public (sample_identity 2)"
  by (simp add: sample_identity_def identity_from_seeds_def plain_suite_def resize_def)

lemma counter_fill: "fill_bytes counter_rng n g = (Some (map (\<lambda>i. of_nat (g + i)) [0..<n]), g + n)"
  by (simp add: counter_rng_def)

lemma sample_build:
  assumes "ts \<le> u64_max"
  shows "\<exists>m g'. build_hello_with_profile plain_suite counter_rng (Some ts) (sample_identity b) profile g = (Ok m, g')
     \<and> local_ephemeral m = identity_from_seeds plain_suite (map (\<lambda>i. of_nat (g + i)) [0..<32]) (map (\<lambda>i. of_nat (g + 32 + i)) [0..<32])"
  by (rule build_total [OF plain_suite_ok counter_rng_ok sample_identity_ok assms
      counter_fill counter_fill counter_fill counter_fill])

lemma plain_shared_nth:
  assumes "length a = 32" and "length b = 32"
  shows "derive_shared plain_suite (identity_from_seeds plain_suite a s) (ik_public (identity_from_seeds plain_suite b t)) ! 0
    = a ! 0 XOR b ! 0"
  using assms by (simp add: derive_shared_def identity_from_seeds_def plain_suite_def resize_def)

lemma sample_shared:
  "derive_shared plain_suite (identity_from_seeds plain_suite (map (\<lambda>i. of_nat (0 + i)) [0..<32]) s)
     (ik_public (identity_from_seeds plain_suite (map (\<lambda>i. of_nat (7 + i)) [0..<32]) t)) \<noteq> replicate 32 0"
  (is "?x \<noteq> _")
proof
  assume "?x = replicate 32 0"
  then have "?x ! 0 = 0" by (simp del: upt_rec_numeral)
  moreover have "?x ! 0 = 7" by (subst plain_shared_nth) (simp_all del: upt_rec_numeral)
  ultimately show False by simp
qed

text \<open>A completed exchange on the concrete suite, in which the initiator's state is derived.\<close>

lemma sample_handshake:
  obtains ma p sa where "hm_profile ma = SecureDefault" "\<forall>ss\<in>set_option (pq_shared ma). length ss = 32"
    "verify_and_derive_with_profile plain_suite (Some 1000) (sample_identity 1) ma p True
       [pin_for_identity (sample_identity 2)] = Ok sa"
proof -
  obtain ma ga' where a: "build_hello_with_profile plain_suite counter_rng (Some 990) (sample_identity 1) SecureDefault 0 = (Ok ma, ga')"
    "local_ephemeral ma = identity_from_seeds plain_suite (map (\<lambda>i. of_nat (0 + i)) [0..<32]) (map (\<lambda>i. of_nat (0 + 32 + i)) [0..<32])"
    using sample_build [of 990 1 SecureDefault 0] by (auto simp: u64_max_def)
  obtain mb gb' where b: "build_hello_with_profile plain_suite counter_rng (Some 890) (sample_identity 2) SecureDefault 7 = (Ok mb, gb')"
    "local_ephemeral mb = identity_from_seeds plain_suite (map (\<lambda>i. of_nat (7 + i)) [0..<32]) (map (\<lambda>i. of_nat (7 + 32 + i)) [0..<32])"
    using sample_build [of 890 2 SecureDefault 7] by (auto simp: u64_max_def)
  have t: "(990 :: nat) \<le> u64_max" "(890 :: nat) \<le> u64_max" by (simp_all add: u64_max_def)
  note A = build_honest [OF plain_suite_ok counter_rng_ok sample_identity_ok t(1) a(1)]
  note B = build_honest [OF plain_suite_ok counter_rng_ok sample_identity_ok t(2) b(1)]
  have nz: "derive_shared plain_suite (local_ephemeral ma) (ik_public (local_ephemeral mb)) \<noteq> replicate 32 0"
    unfolding a(2) b(2) by (rule sample_shared)
  have p: "hm_profile ma = hm_profile mb" using A(2) B(2) by simp
  from honest_exchange [OF plain_suite_ok A(1) B(1) p sample_identity_distinct A(3,4,5) B(3,4,5) nz, of 1000 890
      "[pin_for_identity (sample_identity 2)]" "[pin_for_identity (sample_identity 1)]" "[]"] A(2,6) B(6)
  obtain ct ma' sa where f: "finalize_initiator_pq plain_suite (Some 1000) [] (sample_identity 1) ma (local_hello mb)
      [pin_for_identity (sample_identity 2)] = (Ok ct, ma')"
    and v: "verify_and_derive_with_profile plain_suite (Some 1000) (sample_identity 1) ma' (local_hello mb) True
       [pin_for_identity (sample_identity 2)] = Ok sa" by (auto simp: abs_diff_def)
  from f A(2) have "hm_profile ma' = SecureDefault" "\<forall>ss\<in>set_option (pq_shared ma'). length ss = 32"
    by (auto simp: finalize_initiator_pq_def encapsulate_against_def plain_suite_def split: result.splits option.splits prod.splits if_splits)
  from that [OF this v] show thesis .
qed

text \<open>C2. A derived state authenticates the peer.  When \<open>verify_and_derive_with_profile\<close> succeeds, the peer's
  hello decodes to fields of the right sizes, its timestamp is within 300 seconds of the local clock, its
  profile and protocol tag are the local ones, the pair of its identity key and signing key is pinned in the
  policy as one pin, and its signature verifies under that pinned signing key over exactly the decoded
  fields.  The returned state names that peer.\<close>

theorem handshake_authenticates:
  assumes "verify_and_derive_with_profile S clock i m p initiator policy = Ok st"
  shows "\<exists>now sd payload sg. clock = Some now \<and> hello_side S p sd
     \<and> abs_diff now (h_timestamp_secs p) \<le> 300
     \<and> h_profile p = hm_profile m \<and> h_proto p = protocol_tag (hm_profile m)
     \<and> (\<exists>pin\<in>set policy. identity_public pin = sd_identity sd \<and> signing_public pin = sd_signing sd)
     \<and> signed_payload (hm_profile m) (sd_identity sd) (sd_signing sd) (sd_pqc sd) (sd_ephemeral sd)
          (sd_nonce sd) (sd_timestamp sd) = Ok payload
     \<and> b64_dec S (h_sig p) = Some sg \<and> ed_verify S (sd_signing sd) payload sg
     \<and> peer_identity_pubkey_b64 st = b64_enc S (sd_identity sd)
     \<and> peer_signing_pubkey_b64 st = b64_enc S (sd_signing sd)
     \<and> peer_fingerprint_hex st = compute_fingerprint_hex S (sd_identity sd)"
proof -
  from assms have v: "verify_hello_signature S clock i m p policy = Ok ()"
    by (auto simp: verify_and_derive_with_profile_def split: result.splits)
  then obtain now sd payload where c: "clock = Some now" "hello_side S p sd"
    "abs_diff now (h_timestamp_secs p) \<le> MAX_SKEW_SECS" "side_payload (hm_profile m) sd = Ok payload"
    "verify_handshake_signature S payload (h_sig p) (sd_signing sd) = Ok ()"
    "allows policy (sd_identity sd) (sd_signing sd)" "h_profile p = hm_profile m" "h_proto p = protocol_tag (hm_profile m)"
    unfolding verify_hello_signature_iff by blast
  from c(5) obtain sg where sg: "b64_dec S (h_sig p) = Some sg" "ed_verify S (sd_signing sd) payload sg"
    by (auto simp: verify_handshake_signature_def split: option.splits if_splits)
  from assms verify_and_derive_eq [OF v c(2)] have "derive_state S m initiator sd = Ok st" by simp
  then have "peer_identity_pubkey_b64 st = b64_enc S (sd_identity sd)"
    "peer_signing_pubkey_b64 st = b64_enc S (sd_signing sd)"
    "peer_fingerprint_hex st = compute_fingerprint_hex S (sd_identity sd)"
    by (auto simp: derive_state_iff)
  with c sg show ?thesis
    by (intro exI [of _ now] exI [of _ sd] exI [of _ payload] exI [of _ sg])
      (auto simp: allows_def list_ex_iff side_payload_def MAX_SKEW_SECS_def)
qed

theorem handshake_authenticates_witness:
  "\<exists>m p st sd. verify_and_derive_with_profile plain_suite (Some 1000) (sample_identity 1) m p True
       [pin_for_identity (sample_identity 2)] = Ok st
     \<and> hello_side plain_suite p sd \<and> abs_diff 1000 (h_timestamp_secs p) \<le> 300
     \<and> sd_identity sd = ik_public (sample_identity 2)"
proof (rule sample_handshake)
  fix m p st
  assume v: "verify_and_derive_with_profile plain_suite (Some 1000) (sample_identity 1) m p True
       [pin_for_identity (sample_identity 2)] = Ok st"
  from handshake_authenticates [OF v] obtain sd where "hello_side plain_suite p sd"
    "abs_diff 1000 (h_timestamp_secs p) \<le> 300" "sd_identity sd = ik_public (sample_identity 2)"
    by (auto simp: pin_for_identity_def)
  with v show ?thesis by blast
qed

lemma session_key_hkdf:
  assumes "derive_session_key S SecureDefault secret th dir = Ok key" and "length secret = 64"
  shows "suite_hkdf S (as_bytes ''shph-session-v2'' @ as_bytes (protocol_tag SecureDefault) @ th @ as_bytes dir) secret 32 = Some key"
  using assms unfolding derive_session_key_def hkdf_sha256_into_eq
  by (cases "suite_hkdf S (concat [as_bytes ''shph-session-v2'', as_bytes (protocol_tag SecureDefault), th, as_bytes dir]) secret 32")
    (auto split: if_splits)

lemma hybrid_secret_layout: "length ecdh = 32 \<Longrightarrow> length ss = 32 \<Longrightarrow> hybrid_secret ecdh (Some ss) = ecdh @ ss"
  by (simp add: hybrid_secret_def write_at_def)

text \<open>C8. The secure profile cannot be downgraded.  When \<open>verify_and_derive_with_profile\<close> succeeds for
  \<open>secure-default\<close>, the material holds an ML-KEM secret (a 32-byte array) and a ciphertext of 1088 bytes, and
  both session keys are the output of HKDF on exactly the X25519 secret followed by that whole ML-KEM secret, salted with
  the hash of the transcript that contains the ciphertext and with the direction; the X25519 secret is not all-zero.\<close>

theorem secure_profile_is_hybrid:
  assumes S: "suite_ok S" and prof: "hm_profile m = SecureDefault" and pq32: "\<forall>ss\<in>set_option (pq_shared m). length ss = 32"
    and ok: "verify_and_derive_with_profile S clock i m p initiator policy = Ok st"
  shows "\<exists>here there ss ct ecdh th.
     pq_shared m = Some ss \<and> pq_ciphertext m = Some ct \<and> length ct = ML_KEM_768_CIPHERTEXT_BYTES
     \<and> hello_side S p there \<and> material_side S m here
     \<and> ecdh = derive_shared S (local_ephemeral m) (sd_ephemeral there) \<and> ecdh \<noteq> replicate 32 0
     \<and> th = sha256 S (session_transcript SecureDefault initiator here there (Some ct))
     \<and> suite_hkdf S (as_bytes ''shph-session-v2'' @ as_bytes (protocol_tag SecureDefault) @ th
          @ as_bytes (if initiator then ''initiator'' else ''responder'')) (ecdh @ ss) 32 = Some (send_key (hs_session_keys st))
     \<and> suite_hkdf S (as_bytes ''shph-session-v2'' @ as_bytes (protocol_tag SecureDefault) @ th
          @ as_bytes (if initiator then ''responder'' else ''initiator'')) (ecdh @ ss) 32 = Some (recv_key (hs_session_keys st))"
proof -
  from ok have v: "verify_hello_signature S clock i m p policy = Ok ()"
    by (auto simp: verify_and_derive_with_profile_def split: result.splits)
  then obtain there where t: "hello_side S p there" unfolding verify_hello_signature_iff by blast
  from ok verify_and_derive_eq [OF v t] have "derive_state S m initiator there = Ok st" by simp
  then obtain here pq ct' where d: "material_side S m here" "pq_binding m pq ct'"
    "derive_shared S (local_ephemeral m) (sd_ephemeral there) \<noteq> replicate 32 0"
    "derive_session_key S SecureDefault (hybrid_secret (derive_shared S (local_ephemeral m) (sd_ephemeral there)) pq)
        (sha256 S (session_transcript SecureDefault initiator here there ct'))
        (if initiator then ''initiator'' else ''responder'') = Ok (send_key (hs_session_keys st))"
    "derive_session_key S SecureDefault (hybrid_secret (derive_shared S (local_ephemeral m) (sd_ephemeral there)) pq)
        (sha256 S (session_transcript SecureDefault initiator here there ct'))
        (if initiator then ''responder'' else ''initiator'') = Ok (recv_key (hs_session_keys st))"
    unfolding derive_state_iff prof by force
  from d(2) prof obtain ss ct where pq: "pq = Some ss" "ct' = Some ct" "pq_shared m = Some ss" "pq_ciphertext m = Some ct"
    "length ct = ML_KEM_768_CIPHERTEXT_BYTES" by (cases "pq_shared m") (auto simp: pq_binding_def)
  have e: "length (derive_shared S (local_ephemeral m) (sd_ephemeral there)) = 32" and ss: "length ss = 32"
    using suite_okD(4) [OF S] pq32 pq(3) by (simp_all add: derive_shared_def)
  note keys = d(4,5) [unfolded pq(1,2) hybrid_secret_layout [OF e ss], THEN session_key_hkdf]
  show ?thesis
    by (intro exI conjI) (use d(1,3) pq t keys e ss in simp_all)
qed

theorem secure_profile_is_hybrid_witness:
  "\<exists>m p st there ss ct salt. verify_and_derive_with_profile plain_suite (Some 1000) (sample_identity 1) m p True
       [pin_for_identity (sample_identity 2)] = Ok st
     \<and> pq_shared m = Some ss \<and> pq_ciphertext m = Some ct \<and> length ct = 1088 \<and> hello_side plain_suite p there
     \<and> suite_hkdf plain_suite salt (derive_shared plain_suite (local_ephemeral m) (sd_ephemeral there) @ ss) 32
         = Some (send_key (hs_session_keys st))"
proof (rule sample_handshake)
  fix m p st
  assume prof: "hm_profile m = SecureDefault" and ss: "\<forall>ss\<in>set_option (pq_shared m). length ss = 32"
    and v: "verify_and_derive_with_profile plain_suite (Some 1000) (sample_identity 1) m p True
       [pin_for_identity (sample_identity 2)] = Ok st"
  from secure_profile_is_hybrid [OF plain_suite_ok prof ss v] v show ?thesis
    unfolding ML_KEM_768_CIPHERTEXT_BYTES_def by metis
qed

text \<open>A signature covers every field of a hello.  Two field tuples of the sizes that verification
  enforces, under whatever profiles, that are signed as the same byte string are the same tuple under the
  same profile: moving bytes between fields, dropping the post-quantum key or switching the profile always
  changes the signed payload.\<close>

lemma signed_payload_injective:
  assumes "side_sizes p1 a" and "side_sizes p2 b"
    and "signed_payload p1 (sd_identity a) (sd_signing a) (sd_pqc a) (sd_ephemeral a) (sd_nonce a) (sd_timestamp a)
       = signed_payload p2 (sd_identity b) (sd_signing b) (sd_pqc b) (sd_ephemeral b) (sd_nonce b) (sd_timestamp b)"
  shows "p1 = p2 \<and> a = (b :: side)"
  using assms side_payload_total [OF assms(1)] side_payload_total [OF assms(2)]
  by (intro signed_parts_inj) (simp_all add: side_payload_def)

definition sample_side :: side where
  "sample_side = \<lparr>sd_identity = replicate 32 1, sd_signing = replicate 32 2, sd_pqc = None,
     sd_ephemeral = replicate 32 3, sd_nonce = replicate 32 4, sd_timestamp = 5\<rparr>"

lemma sample_side_sizes [simp]: "side_sizes ClassicalLab sample_side"
  by (simp add: side_sizes_def sample_side_def u64_max_def)

lemma lex_le_refl [simp]: "lex_le a a"
  by (induction a) simp_all

text \<open>C9. The transcript binds the whole session.  If the transcripts of two sessions are equal, the sessions
  have the same profile, the same initiator and responder with the same keys, nonces and timestamps, and the same
  post-quantum ciphertext, although the two sides enter the transcript in the order of their
  identities and not by role.\<close>

theorem transcript_binds_session:
  assumes a: "side_sizes p a" and b: "side_sizes p b" and c: "side_sizes q c" and d: "side_sizes q d"
    and ct: "\<forall>x\<in>set_option ct. length x \<le> u64_max" and dt: "\<forall>x\<in>set_option dt. length x \<le> u64_max"
    and eq: "session_transcript p True a b ct = session_transcript q True c d dt"
  shows "p = q \<and> a = (c :: side) \<and> b = (d :: side) \<and> ct = dt"
proof -
  have i: "length (sd_identity a) \<le> u64_max" "length (sd_identity c) \<le> u64_max"
    using a c by (simp_all add: side_sizes_def u64_max_def)
  note inj = transcript_inj [OF _ _ _ _ i ct dt]
  show ?thesis
  proof (cases "lex_le (sd_identity a) (sd_identity b)"; cases "lex_le (sd_identity c) (sd_identity d)")
    assume "lex_le (sd_identity a) (sd_identity b)" "lex_le (sd_identity c) (sd_identity d)"
    with eq inj [OF a b c d] show ?thesis by (simp add: session_transcript_def)
  next
    assume "lex_le (sd_identity a) (sd_identity b)" "\<not> lex_le (sd_identity c) (sd_identity d)"
    with eq inj [OF a b d c] show ?thesis by (auto simp: session_transcript_def)
  next
    assume "\<not> lex_le (sd_identity a) (sd_identity b)" "lex_le (sd_identity c) (sd_identity d)"
    with eq inj [OF b a c d] show ?thesis by (auto simp: session_transcript_def)
  next
    assume "\<not> lex_le (sd_identity a) (sd_identity b)" "\<not> lex_le (sd_identity c) (sd_identity d)"
    with eq inj [OF b a d c] show ?thesis by (simp add: session_transcript_def)
  qed
qed

theorem transcript_binds_session_witness:
  "session_transcript ClassicalLab True sample_side sample_side None
     \<noteq> session_transcript ClassicalLab True sample_side (sample_side\<lparr>sd_timestamp := 6\<rparr>) None"
proof
  have s: "side_sizes ClassicalLab (sample_side\<lparr>sd_timestamp := 6\<rparr>)"
    by (simp add: side_sizes_def sample_side_def u64_max_def)
  have n: "\<forall>x\<in>set_option None. length x \<le> u64_max" by simp
  assume "session_transcript ClassicalLab True sample_side sample_side None
     = session_transcript ClassicalLab True sample_side (sample_side\<lparr>sd_timestamp := 6\<rparr>) None"
  from transcript_binds_session [OF sample_side_sizes sample_side_sizes sample_side_sizes s n n this]
  have "sd_timestamp sample_side = sd_timestamp (sample_side\<lparr>sd_timestamp := 6\<rparr>)" by metis
  then show False by (simp add: sample_side_def)
qed

text \<open>The roles computed from the two identities are complementary exactly when the identities differ:
  of two peers with distinct keys, one is the initiator and the other the responder.\<close>

lemma roles_are_complementary:
  "deterministic_role a b \<noteq> deterministic_role b a \<longleftrightarrow> a \<noteq> b"
  using lex_le_total [of a b] lex_le_antisym [of a b] by (auto simp: deterministic_role_def)

text \<open>A failed post-quantum step leaves the handshake material as it was, and a material of the classical
  profile is never given post-quantum state.\<close>

lemma pq_failure_keeps_material:
  "(finalize_initiator_pq S clock r i m p policy = (Err e, m') \<longrightarrow> m' = m)
   \<and> (absorb_responder_pq S clock i m p ct policy = (Err e, m') \<longrightarrow> m' = m)
   \<and> (hm_profile m = ClassicalLab \<longrightarrow>
        (\<exists>e. finalize_initiator_pq S clock r i m p policy = (Err e, m))
        \<and> (\<exists>e. absorb_responder_pq S clock i m p ct policy = (Err e, m)))"
  by (auto simp: finalize_initiator_pq_def absorb_responder_pq_def absorb_responder_pq_unverified_def
      split: result.splits option.splits prod.splits if_splits)

end
