(* ===== verification/Net.thy ===== *)
theory Net
  imports Interfaces
begin

text \<open>
  Socket addresses and \<open>shph-core/src/net.rs\<close>: parsing an endpoint and turning it into a socket address.
  The operating system's resolver is a parameter.  A socket address is the octets of its IP address and its
  port; the flow label and scope of an IPv6 address are not modelled.
\<close>

section \<open>Socket addresses\<close>

datatype ip_addr = V4 bytes | V6 bytes

record socket_addr =
  sa_ip :: ip_addr
  sa_port :: u16

fun ip_ok :: "ip_addr \<Rightarrow> bool" where
  "ip_ok (V4 octets) = (length octets = 4)"
| "ip_ok (V6 octets) = (length octets = 16)"

definition addr_ok :: "socket_addr \<Rightarrow> bool" where
  "addr_ok peer \<longleftrightarrow> ip_ok (sa_ip peer) \<and> sa_port peer < 2 ^ 16"

fun is_unspecified :: "ip_addr \<Rightarrow> bool" where
  "is_unspecified (V4 octets) = (octets = replicate 4 0)"
| "is_unspecified (V6 octets) = (octets = replicate 16 0)"

section \<open>Parsing numbers and splitting strings\<close>

text \<open>\<open>str::parse::<u16>\<close>: an optional plus sign and at least one decimal digit, with the three error
  texts of the standard library.\<close>

definition digit_of :: "char \<Rightarrow> nat option" where
  "digit_of c = (let n = of_char c in if 48 \<le> n \<and> n < 58 then Some (n - 48) else None)"

fun parse_digits :: "nat \<Rightarrow> nat \<Rightarrow> string \<Rightarrow> string + nat" where
  "parse_digits mx acc [] = Inr acc"
| "parse_digits mx acc (c # cs) =
     (case digit_of c of
        None \<Rightarrow> Inl ''invalid digit found in string''
      | Some x \<Rightarrow>
          (case Option.bind (checked_mul mx acc 10) (\<lambda>a. checked_add mx a x) of
             None \<Rightarrow> Inl ''number too large to fit in target type''
           | Some acc' \<Rightarrow> parse_digits mx acc' cs))"

definition parse_unsigned :: "nat \<Rightarrow> string \<Rightarrow> string + nat" where
  "parse_unsigned mx s =
     (if s = [] then Inl ''cannot parse integer from empty string''
      else if s = ''+'' \<or> s = ''-'' then Inl ''invalid digit found in string''
      else parse_digits mx 0 (if hd s = CHR ''+'' then List.tl s else s))"

fun split_once2 :: "char \<Rightarrow> char \<Rightarrow> string \<Rightarrow> (string \<times> string) option" where
  "split_once2 a b (x # y # s) =
     (if x = a \<and> y = b then Some ([], s)
      else map_option (\<lambda>(l, r). (x # l, r)) (split_once2 a b (y # s)))"
| "split_once2 a b s = None"

definition rsplit_once :: "char \<Rightarrow> string \<Rightarrow> (string \<times> string) option" where
  "rsplit_once c s =
     (if c \<in> set s then Some (rev (List.tl (dropWhile (\<lambda>x. x \<noteq> c) (rev s))), rev (takeWhile (\<lambda>x. x \<noteq> c) (rev s)))
      else None)"

section \<open>Endpoints\<close>

record endpoint =
  ep_host :: string
  ep_port :: u16

definition endpoint_parse :: "string \<Rightarrow> string + endpoint" where
  "endpoint_parse addr =
     (let invalid = Inl (''invalid endpoint: '' @ addr);
          parts = (if addr \<noteq> [] \<and> hd addr = CHR ''['' then split_once2 (CHR '']'') (CHR '':'') (List.tl addr)
                   else rsplit_once (CHR '':'') addr)
      in case parts of
           None \<Rightarrow> invalid
         | Some (host, port_text) \<Rightarrow>
             (case parse_unsigned u16_max port_text of
                Inl e \<Rightarrow> Inl e
              | Inr port \<Rightarrow>
                  if str_trim host = [] \<or> port = 0 then invalid
                  else Inr \<lparr>ep_host = host, ep_port = port\<rparr>))"

definition endpoint_candidate :: "endpoint \<Rightarrow> string" where
  "endpoint_candidate ep =
     (if CHR '':'' \<in> set (ep_host ep) then ''['' @ ep_host ep @ '']:'' @ show_nat (ep_port ep)
      else ep_host ep @ '':'' @ show_nat (ep_port ep))"

definition to_socket_addr_result :: "(string \<Rightarrow> string + socket_addr list) \<Rightarrow> endpoint \<Rightarrow> string + socket_addr" where
  "to_socket_addr_result resolve ep =
     (let candidate = endpoint_candidate ep in
      case resolve candidate of
        Inl e \<Rightarrow> Inl (''invalid endpoint '' @ candidate @ '': '' @ e)
      | Inr [] \<Rightarrow> Inl (''endpoint resolved to no address: '' @ candidate)
      | Inr (a # as) \<Rightarrow> Inr a)"

definition socket_addr_from_endpoint :: "(string \<Rightarrow> string + socket_addr list) \<Rightarrow> endpoint \<Rightarrow> socket_addr" where
  "socket_addr_from_endpoint resolve ep =
     (case to_socket_addr_result resolve ep of
        Inr addr \<Rightarrow> addr | Inl _ \<Rightarrow> \<lparr>sa_ip = V4 [127, 0, 0, 1], sa_port = 0\<rparr>)"

section \<open>Round trip\<close>

lemma digit_of_show: "n < 10 \<Longrightarrow> digit_of (char_of (48 + n)) = Some n"
  by (simp add: digit_of_def)

lemma show_nat_digits: "\<forall>c\<in>set (show_nat n). digit_of c \<noteq> None"
proof (induction n rule: show_nat.induct)
  case (1 n)
  then show ?case using digit_of_show [of "n mod 10"] digit_of_show [of n]
    by (subst show_nat.simps) auto
qed

lemma show_nat_ne [simp]: "show_nat n \<noteq> []"
  by (subst show_nat.simps) simp

lemma parse_digits_append:
  "parse_digits mx acc (s @ t) = (case parse_digits mx acc s of Inl e \<Rightarrow> Inl e | Inr a \<Rightarrow> parse_digits mx a t)"
  by (induction mx acc s rule: parse_digits.induct) (auto split: option.splits)

lemma parse_digits_show: "n \<le> mx \<Longrightarrow> parse_digits mx 0 (show_nat n) = Inr n"
proof (induction n rule: show_nat.induct)
  case (1 n)
  show ?case
  proof (cases "n < 10")
    case True
    with "1.prems" digit_of_show [OF True] show ?thesis
      by (subst show_nat.simps) (simp add: checked_mul_def checked_add_def)
  next
    case False
    have "n div 10 \<le> mx" using "1.prems" by (meson div_le_dividend le_trans)
    with 1 False have "parse_digits mx 0 (show_nat (n div 10)) = Inr (n div 10)" by simp
    moreover have "n div 10 * 10 \<le> mx" "n div 10 * 10 + n mod 10 = n" using "1.prems" by simp_all
    ultimately show ?thesis using False "1.prems" digit_of_show [of "n mod 10"]
      by (subst show_nat.simps) (simp add: parse_digits_append checked_mul_def checked_add_def)
  qed
qed

lemma parse_unsigned_show: "n \<le> mx \<Longrightarrow> parse_unsigned mx (show_nat n) = Inr n"
proof -
  assume n: "n \<le> mx"
  have d: "digit_of (hd (show_nat n)) \<noteq> None" using show_nat_digits [of n] by simp
  have "digit_of (CHR ''+'') = None" "digit_of (CHR ''-'') = None" by (simp_all add: digit_of_def)
  with d have "hd (show_nat n) \<noteq> CHR ''+''" "show_nat n \<noteq> ''+''" "show_nat n \<noteq> ''-''"
    by (metis, metis list.sel(1), metis list.sel(1))
  then show ?thesis using parse_digits_show [OF n] by (simp add: parse_unsigned_def)
qed

lemma rsplit_once_append: "c \<notin> set r \<Longrightarrow> rsplit_once c (l @ c # r) = Some (l, r)"
  by (auto simp: rsplit_once_def takeWhile_append dropWhile_append)

lemma split_once2_append:
  "a \<noteq> b \<Longrightarrow> \<forall>u v. l \<noteq> u @ a # b # v \<Longrightarrow> split_once2 a b (l @ a # b # r) = Some (l, r)"
proof (induction a b "l @ a # b # r" arbitrary: l rule: split_once2.induct)
  case (1 a b x y s)
  show ?case
  proof (cases l)
    case Nil
    with "1.hyps" show ?thesis by simp
  next
    case (Cons x' l')
    have free: "\<forall>u v. l' \<noteq> u @ a # b # v" using "1.prems"(2) Cons by (metis append_Cons)
    have nxy: "\<not> (x = a \<and> y = b)" using "1.hyps" "1.prems" Cons by (cases l') (auto, metis append_Nil)
    have ys: "y # s = l' @ a # b # r" and x: "x = x'" using "1.hyps"(2) Cons by simp_all
    have sp: "split_once2 a b (y # s) = Some (l', r)" using "1.hyps"(1) [OF nxy ys "1.prems"(1) free] ys by simp
    have "split_once2 a b (x # y # s) = Some (x # l', r)"
      by (simp only: split_once2.simps if_not_P [OF nxy] sp option.map prod.case)
    from this [unfolded "1.hyps"(2)] show ?thesis using Cons x by metis
  qed
qed auto

section \<open>Properties\<close>

text \<open>Endpoint text round trip.  The text that an endpoint is resolved under parses back to that endpoint:
  for every host that is not blank, does not start with a bracket and does not contain \<open>]:\<close>, and every
  port from 1 to 65535, with the brackets that an IPv6 literal needs.  Conversely whatever parses has a host that
  is not blank and a port in that range.\<close>

lemma endpoint_roundtrip:
  assumes "str_trim (ep_host ep) \<noteq> []" and "hd (ep_host ep) \<noteq> CHR ''[''"
    and "\<forall>u v. ep_host ep \<noteq> u @ '']:'' @ v" and "0 < ep_port ep" and "ep_port ep \<le> 65535"
  shows "endpoint_parse (endpoint_candidate ep) = Inr ep
    \<and> (\<forall>s ep'. endpoint_parse s = Inr ep' \<longrightarrow> str_trim (ep_host ep') \<noteq> [] \<and> 0 < ep_port ep' \<and> ep_port ep' \<le> 65535)"
proof
  have ne: "ep_host ep \<noteq> []" using assms(1) by (auto simp: str_trim_def strip_all.simps strip_one_None)
  have port: "parse_unsigned u16_max (show_nat (ep_port ep)) = Inr (ep_port ep)"
    using assms(5) by (simp add: parse_unsigned_show u16_max_def)
  have colon: "CHR '':'' \<notin> set (show_nat (ep_port ep))"
    using show_nat_digits [of "ep_port ep"] by (force simp: digit_of_def)
  have ep: "\<lparr>ep_host = ep_host ep, ep_port = ep_port ep\<rparr> = ep" by simp
  show "endpoint_parse (endpoint_candidate ep) = Inr ep"
  proof (cases "CHR '':'' \<in> set (ep_host ep)")
    case True
    then have "split_once2 (CHR '']'') (CHR '':'') (ep_host ep @ CHR '']'' # CHR '':'' # show_nat (ep_port ep))
        = Some (ep_host ep, show_nat (ep_port ep))"
      using assms(3) by (intro split_once2_append) auto
    with True port assms show ?thesis by (simp add: endpoint_parse_def endpoint_candidate_def)
  next
    case False
    have "hd (ep_host ep @ CHR '':'' # show_nat (ep_port ep)) \<noteq> CHR ''[''" using ne assms(2) by simp
    with False port assms rsplit_once_append [OF colon, of "ep_host ep"] show ?thesis
      by (simp add: endpoint_parse_def endpoint_candidate_def)
  qed
  have "parse_digits mx a s = Inr n \<Longrightarrow> a \<le> mx \<Longrightarrow> n \<le> mx" for mx a s n
    by (induction mx a s rule: parse_digits.induct)
      (auto simp: checked_add_def Option.bind_eq_Some_conv split: option.splits if_splits)
  then have "parse_unsigned u16_max s = Inr n \<Longrightarrow> n \<le> 65535" for s n
    by (auto simp: parse_unsigned_def u16_max_def split: if_splits)
  then show "\<forall>s ep'. endpoint_parse s = Inr ep' \<longrightarrow> str_trim (ep_host ep') \<noteq> [] \<and> 0 < ep_port ep' \<and> ep_port ep' \<le> 65535"
    by (auto simp: endpoint_parse_def Let_def split: option.splits if_splits sum.splits)
qed

end
