(* ===== verification/Cookie.thy ===== *)
theory Cookie
  imports Identity Net
begin

text \<open>
  Stateless pre-authentication cookies, \<open>shph-core/src/cookie.rs\<close>.  HMAC-SHA256 is the parameter \<open>H\<close>
  (key, message), operating-system randomness the generator \<open>R\<close> and the system clock an argument in
  seconds, \<open>None\<close> being a clock before the Unix epoch.
\<close>

section \<open>Definitions\<close>

definition COOKIE_EPOCH_SECS :: u64 where "COOKIE_EPOCH_SECS = 30"
definition COOKIE_SECRET_BYTES :: usize where "COOKIE_SECRET_BYTES = 32"
definition COOKIE_TAG_BYTES :: usize where "COOKIE_TAG_BYTES = 32"
definition COOKIE_DOMAIN :: bytes where "COOKIE_DOMAIN = as_bytes ''shph-preauth-cookie-v1''"

record cookie_authority =
  current_secret :: bytes
  previous_secret :: bytes
  ca_epoch :: u64

definition current_epoch :: "u64 option \<Rightarrow> u64 result" where
  "current_epoch clock = (case clock of
     None \<Rightarrow> Err (Crypto ''system clock before unix epoch'')
   | Some secs \<Rightarrow> Ok (secs div COOKIE_EPOCH_SECS))"

definition constant_time_diff :: "bytes \<Rightarrow> bytes \<Rightarrow> byte" where
  "constant_time_diff left right =
     foldl or_xor (if length left \<noteq> length right then 1 else 0) (zip left right)"

definition cookie_authority_new ::
    "'g rng \<Rightarrow> u64 option \<Rightarrow> 'g \<Rightarrow> cookie_authority result \<times> 'g" where
  "cookie_authority_new R clock g =
     (case ring_fill R COOKIE_SECRET_BYTES g of (Err e, g1) \<Rightarrow> (Err e, g1) | (Ok cur, g1) \<Rightarrow>
     (case ring_fill R COOKIE_SECRET_BYTES g1 of (Err e, g2) \<Rightarrow> (Err e, g2) | (Ok prev, g2) \<Rightarrow>
     (case current_epoch clock of Err e \<Rightarrow> (Err e, g2) | Ok epoch \<Rightarrow>
       (Ok \<lparr>current_secret = cur, previous_secret = prev, ca_epoch = epoch\<rparr>, g2))))"

definition rotate_to :: "'g rng \<Rightarrow> cookie_authority \<Rightarrow> u64 \<Rightarrow> 'g \<Rightarrow> unit result \<times> cookie_authority \<times> 'g" where
  "rotate_to R a epoch g =
     (if epoch \<le> ca_epoch a then (Ok (), a, g)
      else case ring_fill R COOKIE_SECRET_BYTES g of
        (Err e, g1) \<Rightarrow> (Err e, a, g1)
      | (Ok next_secret, g1) \<Rightarrow>
          (Ok (), a\<lparr>previous_secret := current_secret a, current_secret := next_secret, ca_epoch := epoch\<rparr>, g1))"

text \<open>The message buffer is written front to back and its used prefix authenticated.\<close>

definition cookie_message :: "socket_addr \<Rightarrow> u64 \<Rightarrow> bytes" where
  "cookie_message peer epoch =
     (let buf = write_at (replicate (length COOKIE_DOMAIN + 16 + 2 + 8 + 1) 0) 0 COOKIE_DOMAIN;
          offset = length COOKIE_DOMAIN;
          (buf, offset) = (case sa_ip peer of
              V4 octets \<Rightarrow> (write_at (buf[offset := 4]) (offset + 1) octets, offset + 1 + 4)
            | V6 octets \<Rightarrow> (write_at (buf[offset := 6]) (offset + 1) octets, offset + 1 + 16));
          buf = write_at buf offset (be_bytes 2 (sa_port peer));
          offset = offset + 2;
          buf = write_at buf offset (be_bytes 8 epoch)
      in take (offset + 8) buf)"

definition cookie_mac :: "(bytes \<Rightarrow> bytes \<Rightarrow> bytes) \<Rightarrow> bytes \<Rightarrow> socket_addr \<Rightarrow> u64 \<Rightarrow> bytes" where
  "cookie_mac H secret peer epoch = H secret (cookie_message peer epoch)"

definition issue ::
    "(bytes \<Rightarrow> bytes \<Rightarrow> bytes) \<Rightarrow> 'g rng \<Rightarrow> u64 option \<Rightarrow> cookie_authority \<Rightarrow> socket_addr \<Rightarrow> 'g
      \<Rightarrow> bytes result \<times> cookie_authority \<times> 'g" where
  "issue H R clock a peer g =
     (case current_epoch clock of Err e \<Rightarrow> (Err e, a, g) | Ok epoch \<Rightarrow>
     (case rotate_to R a epoch g of
        (Err e, a1, g1) \<Rightarrow> (Err e, a1, g1)
      | (Ok _, a1, g1) \<Rightarrow> (Ok (cookie_mac H (current_secret a1) peer epoch), a1, g1)))"

definition cookie_matches :: "(bytes \<Rightarrow> bytes \<Rightarrow> bytes) \<Rightarrow> cookie_authority \<Rightarrow> socket_addr \<Rightarrow> u64 \<Rightarrow> bytes \<Rightarrow> byte" where
  "cookie_matches H a peer epoch cookie =
     foldl (\<lambda>acc (secret, candidate_epoch).
         acc OR (if constant_time_diff cookie (cookie_mac H secret peer candidate_epoch) = 0 then 1 else 0))
       0 (List.product [current_secret a, previous_secret a] [epoch, epoch - 1])"

definition cookie_verify ::
    "(bytes \<Rightarrow> bytes \<Rightarrow> bytes) \<Rightarrow> 'g rng \<Rightarrow> u64 option \<Rightarrow> cookie_authority \<Rightarrow> socket_addr \<Rightarrow> bytes \<Rightarrow> 'g
      \<Rightarrow> bool result \<times> cookie_authority \<times> 'g" where
  "cookie_verify H R clock a peer cookie g =
     (if length cookie \<noteq> COOKIE_TAG_BYTES then (Ok False, a, g)
      else (case current_epoch clock of Err e \<Rightarrow> (Err e, a, g) | Ok epoch \<Rightarrow>
     (case rotate_to R a epoch g of
        (Err e, a1, g1) \<Rightarrow> (Err e, a1, g1)
      | (Ok _, a1, g1) \<Rightarrow> (Ok (cookie_matches H a1 peer epoch cookie \<noteq> 0), a1, g1))))"

section \<open>The message and the comparison\<close>

lemma constant_time_diff_zero [simp]: "constant_time_diff a b = 0 \<longleftrightarrow> a = b"
  by (auto simp: constant_time_diff_def foldl_or_xor_zero zip_all_eq)

lemma cookie_matches_iff:
  "cookie_matches H a peer epoch cookie \<noteq> 0 \<longleftrightarrow>
     (\<exists>s\<in>{current_secret a, previous_secret a}. \<exists>e\<in>{epoch, epoch - 1}. cookie = cookie_mac H s peer e)"
  by (auto simp: cookie_matches_def byte_or_zero)

fun ip_part :: "ip_addr \<Rightarrow> bytes" where
  "ip_part (V4 octets) = 4 # octets"
| "ip_part (V6 octets) = 6 # octets"

lemma take_Suc_0_update: "take (Suc 0) ((replicate (Suc n) x)[0 := y]) = [y]"
  by simp

lemma cookie_message_eq:
  assumes "addr_ok peer"
  shows "cookie_message peer epoch = COOKIE_DOMAIN @ ip_part (sa_ip peer) @ be_bytes 2 (sa_port peer) @ be_bytes 8 epoch"
proof -
  have "length COOKIE_DOMAIN = 22" by (simp add: COOKIE_DOMAIN_def)
  moreover have "take (Suc 0) ((replicate 27 x)[0 := y]) = [y]" for x y :: byte
    using take_Suc_0_update [of 26] by simp
  ultimately show ?thesis using assms
    by (cases "sa_ip peer") (simp_all add: cookie_message_def Let_def write_at_def addr_ok_def list_update_append)
qed

lemma cookie_message_inj:
  assumes p: "addr_ok p" and q: "addr_ok q" and t: "t \<le> u64_max" and u: "u \<le> u64_max"
    and eq: "cookie_message p t = cookie_message q u"
  shows "p = q \<and> t = u"
proof -
  have *: "ip_part (sa_ip p) @ be_bytes 2 (sa_port p) @ be_bytes 8 t
      = ip_part (sa_ip q) @ be_bytes 2 (sa_port q) @ be_bytes 8 u"
    using eq by (simp add: cookie_message_eq p q)
  then have ip: "sa_ip p = sa_ip q" and rest: "be_bytes 2 (sa_port p) @ be_bytes 8 t = be_bytes 2 (sa_port q) @ be_bytes 8 u"
    using p q by (cases "sa_ip p"; cases "sa_ip q"; simp add: addr_ok_def)+
  from rest have b: "be_bytes 2 (sa_port p) = be_bytes 2 (sa_port q)" "be_bytes 8 t = be_bytes 8 u" by simp_all
  have "sa_port p = sa_port q" using b(1) by (rule be_bytes_inj) (use p q in \<open>simp_all add: addr_ok_def\<close>)
  moreover have "t = u" using b(2) by (rule be_bytes_inj) (use t u in \<open>simp_all add: u64_max_def\<close>)
  ultimately show ?thesis using ip by (cases p; cases q) simp
qed

section \<open>Rotation\<close>

lemma rotate_to_epoch: "rotate_to R a x g = (Ok (), a', g') \<Longrightarrow> x \<le> ca_epoch a' \<and> ca_epoch a \<le> ca_epoch a'"
  by (auto simp: rotate_to_def split: if_splits prod.splits result.splits)

text \<open>The secret of a cookie issued in epoch \<open>e\<close> is still held.\<close>

definition holds_secret :: "bytes \<Rightarrow> u64 \<Rightarrow> cookie_authority \<Rightarrow> bool" where
  "holds_secret s e a \<longleftrightarrow> current_secret a = s \<and> e \<le> ca_epoch a \<or> previous_secret a = s \<and> e + 1 \<le> ca_epoch a"

lemma rotate_holds: "holds_secret s e a \<Longrightarrow> x \<le> e + 1 \<Longrightarrow> rotate_to R a x g = (r, a', g') \<Longrightarrow> holds_secret s e a'"
  by (auto simp: rotate_to_def holds_secret_def split: if_splits prod.splits result.splits)

text \<open>Operations of the authority, in any order; \<open>None\<close> is a clock before the Unix epoch.\<close>

datatype cookie_op = Issue "u64 option" socket_addr | Verify "u64 option" socket_addr bytes

fun op_clock :: "cookie_op \<Rightarrow> u64 option" where
  "op_clock (Issue clock peer) = clock"
| "op_clock (Verify clock peer cookie) = clock"

fun cookie_step :: "(bytes \<Rightarrow> bytes \<Rightarrow> bytes) \<Rightarrow> 'g rng \<Rightarrow> cookie_op \<Rightarrow> cookie_authority \<times> 'g \<Rightarrow> cookie_authority \<times> 'g" where
  "cookie_step H R (Issue clock peer) (a, g) = snd (issue H R clock a peer g)"
| "cookie_step H R (Verify clock peer cookie) (a, g) = snd (cookie_verify H R clock a peer cookie g)"

definition cookie_run :: "(bytes \<Rightarrow> bytes \<Rightarrow> bytes) \<Rightarrow> 'g rng \<Rightarrow> cookie_op list \<Rightarrow> cookie_authority \<times> 'g \<Rightarrow> cookie_authority \<times> 'g" where
  "cookie_run H R = fold (cookie_step H R)"

lemma cookie_step_holds:
  assumes "holds_secret s e a" and "\<forall>t\<in>set_option (op_clock oper). t div COOKIE_EPOCH_SECS \<le> e + 1"
    and "cookie_step H R oper (a, g) = (a', g')"
  shows "holds_secret s e a'"
proof -
  have "\<exists>x r g0 g1. x \<le> e + 1 \<and> (a' = a \<or> rotate_to R a x g0 = (r, a', g1))"
    using assms(2,3) by (cases oper)
      (auto simp: issue_def cookie_verify_def current_epoch_def split: result.splits prod.splits option.splits if_splits)
  with assms(1) rotate_holds show ?thesis by metis
qed

lemma cookie_run_holds:
  "holds_secret s e a \<Longrightarrow> \<forall>oper\<in>set ops. \<forall>t\<in>set_option (op_clock oper). t div COOKIE_EPOCH_SECS \<le> e + 1 \<Longrightarrow>
   cookie_run H R ops (a, g) = (a', g') \<Longrightarrow> holds_secret s e a'"
proof (induction ops arbitrary: a g)
  case (Cons oper ops)
  obtain a1 g1 where s: "cookie_step H R oper (a, g) = (a1, g1)" by fastforce
  with Cons.prems cookie_step_holds have "holds_secret s e a1" by (metis list.set_intros(1))
  with Cons.IH [of a1 g1] Cons.prems s show ?case by (simp add: cookie_run_def)
qed (simp add: cookie_run_def)

section \<open>Properties\<close>

text \<open>A cookie stays valid into the next epoch.  A cookie that \<open>issue\<close> returned at time \<open>t0\<close> is accepted for
  the same peer at every time of the same or the next 30-second epoch, whatever the authority issued or
  verified in between for other peers at times up to that next epoch, as long as the generator delivers.\<close>

lemma cookie_valid_into_next_epoch:
  assumes H: "\<And>k m. length (H k m) = 32" and R: "\<And>g. fst (fill_bytes R 32 g) \<noteq> None"
    and iss: "issue H R (Some t0) a peer g = (Ok cookie, a1, g1)"
    and ops: "\<forall>oper\<in>set ops. \<forall>t\<in>set_option (op_clock oper). t div 30 \<le> t0 div 30 + 1"
    and run: "cookie_run H R ops (a1, g1) = (a2, g2)"
    and t: "t div 30 = t0 div 30 \<or> t div 30 = t0 div 30 + 1"
  shows "fst (cookie_verify H R (Some t) a2 peer cookie g2) = Ok True"
proof -
  define e where "e = t0 div 30"
  from iss have c: "cookie = cookie_mac H (current_secret a1) peer e" and "e \<le> ca_epoch a1"
    using rotate_to_epoch [of R a e g a1 g1]
    by (auto simp: issue_def current_epoch_def COOKIE_EPOCH_SECS_def e_def split: result.splits prod.splits)
  then have "holds_secret (current_secret a1) e a1" by (simp add: holds_secret_def)
  with cookie_run_holds [OF this _ run] ops have h2: "holds_secret (current_secret a1) e a2"
    by (simp add: e_def COOKIE_EPOCH_SECS_def)
  from R [of g2] obtain k g3 where "ring_fill R 32 g2 = (Ok k, g3)"
    by (cases "fill_bytes R 32 g2") (auto simp: ring_fill_def)
  then have "\<exists>a3 g3. rotate_to R a2 (t div 30) g2 = (Ok (), a3, g3)"
    by (simp add: rotate_to_def COOKIE_SECRET_BYTES_def)
  then obtain a3 g3 where rot: "rotate_to R a2 (t div 30) g2 = (Ok (), a3, g3)" by blast
  have "t div 30 \<le> e + 1" using t by (auto simp: e_def)
  with rotate_holds [OF h2 _ rot] have "holds_secret (current_secret a1) e a3" by blast
  then have "current_secret a1 \<in> {current_secret a3, previous_secret a3}" by (auto simp: holds_secret_def)
  moreover have "e \<in> {t div 30, t div 30 - 1}" using t by (auto simp: e_def)
  ultimately have "cookie_matches H a3 peer (t div 30) cookie \<noteq> 0" unfolding cookie_matches_iff c by blast
  moreover have "length cookie = 32" by (simp add: c cookie_mac_def H)
  ultimately show ?thesis
    by (simp add: cookie_verify_def current_epoch_def COOKIE_TAG_BYTES_def COOKIE_EPOCH_SECS_def rot)
qed

text \<open>A tag function of the right length and a sample peer, the concrete instance that the witnesses
  evaluate.\<close>

definition plain_tag :: "bytes \<Rightarrow> bytes \<Rightarrow> bytes" where
  "plain_tag k m = resize (k @ m) 32"

definition sample_peer :: socket_addr where
  "sample_peer = \<lparr>sa_ip = V4 [10, 0, 0, 1], sa_port = 4433\<rparr>"

definition sample_authority :: cookie_authority where
  "sample_authority = \<lparr>current_secret = replicate 32 1, previous_secret = replicate 32 2, ca_epoch = 1\<rparr>"

text \<open>What rotation does: nothing up to the epoch of the secrets; past it, the current secret becomes the previous one and a fresh one the current.\<close>

definition rotated :: "bytes \<Rightarrow> u64 \<Rightarrow> cookie_authority \<Rightarrow> cookie_authority" where
  "rotated fresh epoch a = (if epoch \<le> ca_epoch a then a else \<lparr>current_secret = fresh, previous_secret = current_secret a, ca_epoch = epoch\<rparr>)"

lemma rotate_to_rotated: "fill_bytes R 32 g = (Some fresh, g1) \<Longrightarrow> \<exists>g'. rotate_to R a epoch g = (Ok (), rotated fresh epoch a, g')"
  by (auto simp: rotate_to_def rotated_def ring_fill_def COOKIE_SECRET_BYTES_def)

lemma cookie_verify_result:
  assumes f: "fill_bytes R 32 g = (Some fresh, g1)"
  shows "\<exists>b g'. cookie_verify H R (Some t) a peer cookie g
        = (Ok b, (if length cookie \<noteq> 32 \<or> t div 30 \<le> ca_epoch a then a
             else \<lparr>current_secret = fresh, previous_secret = current_secret a, ca_epoch = t div 30\<rparr>), g')
      \<and> (b \<longleftrightarrow> length cookie = 32 \<and> (\<exists>s\<in>(if t div 30 \<le> ca_epoch a then {current_secret a, previous_secret a} else {fresh, current_secret a}).
            \<exists>e\<in>{t div 30, t div 30 - 1}. cookie = H s (cookie_message peer e)))"
proof (cases "length cookie = 32")
  case True
  obtain g' where "rotate_to R a (t div 30) g = (Ok (), rotated fresh (t div 30) a, g')" using rotate_to_rotated [OF f] by blast
  then have "cookie_verify H R (Some t) a peer cookie g
      = (Ok (cookie_matches H (rotated fresh (t div 30) a) peer (t div 30) cookie \<noteq> 0), rotated fresh (t div 30) a, g')"
    by (simp add: cookie_verify_def current_epoch_def COOKIE_TAG_BYTES_def COOKIE_EPOCH_SECS_def True)
  then show ?thesis unfolding cookie_matches_iff using True by (simp add: rotated_def cookie_mac_def)
qed (auto simp: cookie_verify_def COOKIE_TAG_BYTES_def)

text \<open>C28. Verification is exact and rotation loses no cookie too early.  With a generator that delivers: \<open>verify\<close> accepts a cookie precisely when it has 32 bytes
  and is the authentication tag, over that peer's address and port and the current or the preceding 30-second epoch, under one of
  two secrets, which are the two held before the call when its epoch is not newer than theirs, and otherwise the secret that was
  current before the call and one freshly drawn; these two are what the authority holds afterwards, and a cookie of another length changes nothing.
  The authenticated message determines address, port and epoch, so a tag for another peer or an older epoch is a tag of a
  different message.  And a cookie that \<open>issue\<close> returned is accepted for its peer throughout the same and the next epoch, whatever is issued and
  verified in between at times up to then.\<close>

theorem cookie_verify_exact:
  assumes H: "\<forall>k m. length (H k m) = 32" and R: "\<forall>g. fst (fill_bytes R 32 g) \<noteq> None"
  shows "(\<forall>g fresh g1 t a peer cookie. fill_bytes R 32 g = (Some fresh, g1) \<longrightarrow> (\<exists>b g'. cookie_verify H R (Some t) a peer cookie g
        = (Ok b, (if length cookie \<noteq> 32 \<or> t div 30 \<le> ca_epoch a then a
             else \<lparr>current_secret = fresh, previous_secret = current_secret a, ca_epoch = t div 30\<rparr>), g')
      \<and> (b \<longleftrightarrow> length cookie = 32 \<and> (\<exists>s\<in>(if t div 30 \<le> ca_epoch a then {current_secret a, previous_secret a} else {fresh, current_secret a}).
            \<exists>e\<in>{t div 30, t div 30 - 1}. cookie = H s (cookie_message peer e)))))
   \<and> (\<forall>p q e e'. addr_ok p \<and> addr_ok q \<and> e \<le> u64_max \<and> e' \<le> u64_max \<and> cookie_message p e = cookie_message q e' \<longrightarrow> p = q \<and> e = e')
   \<and> (\<forall>t0 a peer g issued a1 g1 ops a2 g2 t. issue H R (Some t0) a peer g = (Ok issued, a1, g1) \<and> cookie_run H R ops (a1, g1) = (a2, g2)
        \<and> (\<forall>oper\<in>set ops. \<forall>u\<in>set_option (op_clock oper). u div 30 \<le> t0 div 30 + 1)
        \<and> t div 30 \<in> {t0 div 30, t0 div 30 + 1} \<longrightarrow> fst (cookie_verify H R (Some t) a2 peer issued g2) = Ok True)"
proof (intro conjI allI impI)
  fix t0 a peer g issued a1 g1 ops a2 g2 t
  assume "issue H R (Some t0) a peer g = (Ok issued, a1, g1) \<and> cookie_run H R ops (a1, g1) = (a2, g2)
        \<and> (\<forall>oper\<in>set ops. \<forall>u\<in>set_option (op_clock oper). u div 30 \<le> t0 div 30 + 1) \<and> t div 30 \<in> {t0 div 30, t0 div 30 + 1}"
  then show "fst (cookie_verify H R (Some t) a2 peer issued g2) = Ok True"
    using H R by (intro cookie_valid_into_next_epoch) auto
next
  fix p q e e'
  assume "addr_ok p \<and> addr_ok q \<and> e \<le> u64_max \<and> e' \<le> u64_max \<and> cookie_message p e = cookie_message q e'"
  then show "p = q" "e = e'" using cookie_message_inj [of p q e e'] by simp_all
qed (rule cookie_verify_result)

text \<open>A cookie issued in epoch 1 and verified after the rotation of epoch 2, and a wrong one.\<close>

theorem cookie_verify_exact_witness:
  "\<exists>cookie a1 g1. issue plain_tag counter_rng (Some 59) sample_authority sample_peer 0 = (Ok cookie, a1, g1)
     \<and> fst (cookie_verify plain_tag counter_rng (Some 60) a1 sample_peer cookie g1) = Ok True
     \<and> fst (cookie_verify plain_tag counter_rng (Some 59) sample_authority sample_peer (replicate 32 9) 0) = Ok False"
proof -
  have "\<forall>k m. length (plain_tag k m) = 32" "\<forall>g. fst (fill_bytes counter_rng 32 g) \<noteq> None" by (simp_all add: plain_tag_def counter_rng_def)
  note exact = cookie_verify_exact [OF this]
  obtain cookie a1 g1 where i: "issue plain_tag counter_rng (Some 59) sample_authority sample_peer 0 = (Ok cookie, a1, g1)"
    by (simp add: issue_def current_epoch_def rotate_to_def COOKIE_EPOCH_SECS_def sample_authority_def)
  have ok: "fst (cookie_verify plain_tag counter_rng (Some 60) a1 sample_peer cookie g1) = Ok True"
    using exact [THEN conjunct2, THEN conjunct2, rule_format, of 59 sample_authority sample_peer 0 cookie a1 g1 "[]" a1 g1 60] i
    by (simp add: cookie_run_def)
  obtain fresh g' where f: "fill_bytes counter_rng 32 0 = (Some fresh, g')" by (simp add: counter_rng_def)
  have other: "replicate 32 9 \<noteq> plain_tag (replicate 32 k) m" if "k \<noteq> 9" for k m
  proof
    assume "replicate 32 9 = plain_tag (replicate 32 k) m"
    then have "replicate 32 9 ! 0 = plain_tag (replicate 32 k) m ! 0" by simp
    with that show False by (simp add: plain_tag_def resize_def)
  qed
  have "fst (cookie_verify plain_tag counter_rng (Some 59) sample_authority sample_peer (replicate 32 9) 0) = Ok False"
    using exact [THEN conjunct1, rule_format, OF f, of 59 sample_authority sample_peer "replicate 32 9"] other by (auto simp: sample_authority_def)
  with i ok show ?thesis by blast
qed

end
