(* ===== verification/Framing.thy ===== *)
theory Framing
  imports Interfaces
begin

text \<open>
  Shroud profiles and fixed-size cells: \<open>shph-core/src/stealth.rs\<close> and
  \<open>shph-core/src/framing.rs\<close>.  The records and constants are those of the source; a cell
  is \<open>SD\<close>, the frame type, a two-byte length, the payload and zeros up to the cell size.
  The lemmas show that decoding accepts exactly the cells that encoding produces.
\<close>

section \<open>Profiles\<close>

record shroud_profile =
  sp_name :: string
  cell_size :: usize
  send_interval :: duration
  chaff_interval :: duration
  max_payload_chunk :: usize
  deterministic_padding :: bool
  adaptive_chunking :: bool

definition from_millis :: "nat \<Rightarrow> duration" where
  "from_millis n = n * 1000000"

definition payload_capacity :: "shroud_profile \<Rightarrow> usize" where
  "payload_capacity p = cell_size p - 5"

definition is_tuned :: "shroud_profile \<Rightarrow> bool" where
  "is_tuned p \<longleftrightarrow> sp_name p \<in> {''tuned-low'', ''tuned-medium'', ''tuned-high''}"

definition is_valid :: "shroud_profile \<Rightarrow> bool" where
  "is_valid p \<longleftrightarrow> 64 \<le> cell_size p \<and> cell_size p \<le> 16 * 1024
     \<and> 0 < max_payload_chunk p \<and> max_payload_chunk p \<le> payload_capacity p
     \<and> send_interval p \<noteq> 0 \<and> chaff_interval p \<noteq> 0"

definition BALANCED :: shroud_profile where
  "BALANCED = \<lparr>sp_name = ''balanced'', cell_size = 1024, send_interval = from_millis 25,
     chaff_interval = from_millis 250, max_payload_chunk = 768,
     deterministic_padding = True, adaptive_chunking = True\<rparr>"

definition LOW_LATENCY :: shroud_profile where
  "LOW_LATENCY = \<lparr>sp_name = ''low-latency'', cell_size = 512, send_interval = from_millis 5,
     chaff_interval = from_millis 100, max_payload_chunk = 384,
     deterministic_padding = True, adaptive_chunking = True\<rparr>"

definition BULK :: shroud_profile where
  "BULK = \<lparr>sp_name = ''bulk'', cell_size = 4096, send_interval = from_millis 10,
     chaff_interval = from_millis 500, max_payload_chunk = 3072,
     deterministic_padding = True, adaptive_chunking = True\<rparr>"

definition RANDOMIZED_LAB :: shroud_profile where
  "RANDOMIZED_LAB = \<lparr>sp_name = ''randomized-lab'', cell_size = 1024, send_interval = from_millis 25,
     chaff_interval = from_millis 250, max_payload_chunk = 768,
     deterministic_padding = False, adaptive_chunking = True\<rparr>"

definition EXTREME_LAB :: shroud_profile where
  "EXTREME_LAB = \<lparr>sp_name = ''extreme-lab'', cell_size = 8192, send_interval = from_millis 20,
     chaff_interval = from_millis 1000, max_payload_chunk = 6144,
     deterministic_padding = False, adaptive_chunking = True\<rparr>"

definition TUNED_LOW :: shroud_profile where
  "TUNED_LOW = \<lparr>sp_name = ''tuned-low'', cell_size = 256, send_interval = from_millis 3,
     chaff_interval = from_millis 150, max_payload_chunk = 192,
     deterministic_padding = False, adaptive_chunking = True\<rparr>"

definition TUNED_MEDIUM :: shroud_profile where
  "TUNED_MEDIUM = \<lparr>sp_name = ''tuned-medium'', cell_size = 768, send_interval = from_millis 10,
     chaff_interval = from_millis 350, max_payload_chunk = 700,
     deterministic_padding = False, adaptive_chunking = True\<rparr>"

definition TUNED_HIGH :: shroud_profile where
  "TUNED_HIGH = \<lparr>sp_name = ''tuned-high'', cell_size = 1360, send_interval = from_millis 5,
     chaff_interval = from_millis 500, max_payload_chunk = 1200,
     deterministic_padding = False, adaptive_chunking = True\<rparr>"

definition profiles :: "shroud_profile list" where
  "profiles = [BALANCED, LOW_LATENCY, BULK, RANDOMIZED_LAB, EXTREME_LAB,
     TUNED_LOW, TUNED_MEDIUM, TUNED_HIGH]"

definition shroud_profile_by_name :: "string \<Rightarrow> shroud_profile option" where
  "shroud_profile_by_name nm = find (\<lambda>p. sp_name p = nm) profiles"

definition shroud_profile_by_selection :: "string \<Rightarrow> shroud_profile option option" where
  "shroud_profile_by_selection nm =
     (let s = to_ascii_lowercase (str_trim nm) in
      if s \<in> {''off'', ''none'', ''disabled''} then Some None
      else if s \<in> {''low'', ''low-latency''} then Some (Some LOW_LATENCY)
      else if s \<in> {''medium'', ''balanced''} then Some (Some BALANCED)
      else if s \<in> {''high'', ''bulk''} then Some (Some BULK)
      else if s \<in> {''extreme'', ''extreme-lab''} then Some (Some EXTREME_LAB)
      else if s = ''randomized-lab'' then Some (Some RANDOMIZED_LAB)
      else if s \<in> {''tuned'', ''optimized'', ''tuned-medium'', ''optimized-medium''}
        then Some (Some TUNED_MEDIUM)
      else if s \<in> {''tuned-low'', ''optimized-low''} then Some (Some TUNED_LOW)
      else if s \<in> {''tuned-high'', ''optimized-high''} then Some (Some TUNED_HIGH)
      else None)"

datatype tls_camouflage = TlsBalanced | BrowserBlend | Http11Favor | BrowserStrict | H3Camouflage

datatype chunk_distribution = Uniform | FrontLoaded | TailLoaded

record morph_profile =
  chunk_distr :: chunk_distribution
  padding_probability_pct :: u8
  burst_probability_pct :: u8
  idle_chaff_probability_pct :: u8
  cell_size_classes :: "usize list"

record stealth_profile =
  st_name :: string
  tls_camo :: tls_camouflage
  handshake_jitter_floor :: duration
  handshake_jitter_ceil :: duration
  morph :: morph_profile
  quic_candidate :: bool

definition STEADY :: stealth_profile where
  "STEADY = \<lparr>st_name = ''steady'', tls_camo = TlsBalanced,
     handshake_jitter_floor = from_millis 5, handshake_jitter_ceil = from_millis 40,
     morph = \<lparr>chunk_distr = Uniform, padding_probability_pct = 18, burst_probability_pct = 22,
       idle_chaff_probability_pct = 35, cell_size_classes = [1024, 1280]\<rparr>,
     quic_candidate = False\<rparr>"

definition CAMOUFLAGE :: stealth_profile where
  "CAMOUFLAGE = \<lparr>st_name = ''camouflage'', tls_camo = BrowserBlend,
     handshake_jitter_floor = from_millis 12, handshake_jitter_ceil = from_millis 90,
     morph = \<lparr>chunk_distr = FrontLoaded, padding_probability_pct = 30, burst_probability_pct = 38,
       idle_chaff_probability_pct = 45, cell_size_classes = [768, 1024, 1280]\<rparr>,
     quic_candidate = True\<rparr>"

definition MIMICRY_LAB :: stealth_profile where
  "MIMICRY_LAB = \<lparr>st_name = ''mimicry-lab'', tls_camo = Http11Favor,
     handshake_jitter_floor = from_millis 20, handshake_jitter_ceil = from_millis 140,
     morph = \<lparr>chunk_distr = TailLoaded, padding_probability_pct = 44, burst_probability_pct = 53,
       idle_chaff_probability_pct = 58, cell_size_classes = [512, 768, 1024, 1536]\<rparr>,
     quic_candidate = True\<rparr>"

definition stealth_profiles :: "stealth_profile list" where
  "stealth_profiles = [STEADY, CAMOUFLAGE, MIMICRY_LAB]"

definition stealth_profile_by_name :: "string \<Rightarrow> stealth_profile option" where
  "stealth_profile_by_name nm = find (\<lambda>p. st_name p = nm) stealth_profiles"

lemmas profile_defs = BALANCED_def LOW_LATENCY_def BULK_def RANDOMIZED_LAB_def EXTREME_LAB_def
  TUNED_LOW_def TUNED_MEDIUM_def TUNED_HIGH_def

section \<open>Cells\<close>

definition SHROUD_FRAME_HEADER :: bytes where "SHROUD_FRAME_HEADER = [0x53, 0x44]"
definition SHROUD_FRAME_DATA :: byte where "SHROUD_FRAME_DATA = 1"
definition SHROUD_FRAME_CHAFF :: byte where "SHROUD_FRAME_CHAFF = 2"

definition shroud_cell_new :: "shroud_profile \<Rightarrow> byte \<Rightarrow> bytes \<Rightarrow> bytes result" where
  "shroud_cell_new profile frame_type payload =
     (if \<not> is_valid profile then Err (Protocol ''invalid cell size'')
      else if frame_type \<notin> {SHROUD_FRAME_DATA, SHROUD_FRAME_CHAFF}
        then Err (Protocol ''unsupported frame type'')
      else if payload_capacity profile < length payload
        then Err (Protocol ''payload exceeds cell capacity'')
      else Ok (resize (SHROUD_FRAME_HEADER @ [frame_type] @ be_bytes 2 (length payload) @ payload)
             (cell_size profile)))"

definition encode_cell :: "shroud_profile \<Rightarrow> byte \<Rightarrow> bytes \<Rightarrow> bytes result" where
  "encode_cell profile frame_type payload = shroud_cell_new profile frame_type payload"

definition encode_data_cell :: "shroud_profile \<Rightarrow> bytes \<Rightarrow> bytes result" where
  "encode_data_cell profile payload =
     (if max_payload_chunk profile < length payload
        then Err (Protocol ''payload exceeds profile capacity'')
      else encode_cell profile SHROUD_FRAME_DATA payload)"

definition encode_chaff_cell :: "shroud_profile \<Rightarrow> bytes \<Rightarrow> bytes result" where
  "encode_chaff_cell profile payload = encode_cell profile SHROUD_FRAME_CHAFF payload"

definition decode_cell_payload :: "shroud_profile \<Rightarrow> bytes \<Rightarrow> bytes option result" where
  "decode_cell_payload profile cell =
     (if \<not> is_valid profile then Err (Protocol ''invalid cell size'')
      else if length cell \<noteq> cell_size profile then Err (Protocol ''cell size mismatch'')
      else if slice cell 0 2 \<noteq> SHROUD_FRAME_HEADER then Err (Protocol ''frame header mismatch'')
      else let frame_type = cell ! 2; payload_len = of_be [cell ! 3, cell ! 4] in
        if payload_capacity profile < payload_len
          then Err (Protocol ''payload length exceeds cell capacity'')
        else if list_ex (\<lambda>b. b \<noteq> 0) (drop (5 + payload_len) cell)
          then Err (Protocol ''non-canonical cell padding'')
        else if frame_type = SHROUD_FRAME_DATA then Ok (Some (slice cell 5 (5 + payload_len)))
        else if frame_type = SHROUD_FRAME_CHAFF then Ok None
        else Err (Protocol ''unsupported frame type''))"

definition decode_cell :: "shroud_profile \<Rightarrow> bytes \<Rightarrow> bytes option result" where
  "decode_cell profile cell = decode_cell_payload profile cell"

section \<open>The cell as a codec\<close>

text \<open>A cell carries a data payload, or nothing and some chaff.\<close>

definition raw_cell :: "shroud_profile \<Rightarrow> byte \<Rightarrow> bytes \<Rightarrow> bytes" where
  "raw_cell profile ft pl = SHROUD_FRAME_HEADER @ [ft] @ be_bytes 2 (length pl) @ pl
     @ replicate (payload_capacity profile - length pl) 0"

fun cell_frame :: "shroud_profile \<Rightarrow> bytes option \<Rightarrow> bytes \<Rightarrow> bytes" where
  "cell_frame profile (Some pl) chaff = raw_cell profile SHROUD_FRAME_DATA pl"
| "cell_frame profile None chaff = raw_cell profile SHROUD_FRAME_CHAFF chaff"

fun cell_legal :: "shroud_profile \<Rightarrow> bytes option \<Rightarrow> bytes \<Rightarrow> bool" where
  "cell_legal profile (Some pl) chaff \<longleftrightarrow> is_valid profile \<and> length pl \<le> payload_capacity profile"
| "cell_legal profile None chaff \<longleftrightarrow> is_valid profile \<and> length chaff \<le> payload_capacity profile"

lemma is_valid_bounds:
  "is_valid p \<Longrightarrow> payload_capacity p + 5 = cell_size p \<and> payload_capacity p < 65536"
  by (auto simp: is_valid_def payload_capacity_def)

lemma shroud_cell_new_Ok:
  "shroud_cell_new p ft pl = Ok c \<longleftrightarrow>
   is_valid p \<and> ft \<in> {SHROUD_FRAME_DATA, SHROUD_FRAME_CHAFF} \<and> length pl \<le> payload_capacity p
   \<and> c = raw_cell p ft pl"
  using is_valid_bounds [of p]
  by (auto simp: shroud_cell_new_def raw_cell_def resize_def SHROUD_FRAME_HEADER_def)

lemma raw_cell_fields:
  assumes "length pl \<le> payload_capacity p" and "payload_capacity p < 65536"
  shows "length (raw_cell p ft pl) = payload_capacity p + 5"
    and "slice (raw_cell p ft pl) 0 2 = SHROUD_FRAME_HEADER"
    and "raw_cell p ft pl ! 2 = ft"
    and "of_be [raw_cell p ft pl ! 3, raw_cell p ft pl ! 4] = length pl"
    and "slice (raw_cell p ft pl) 5 (5 + length pl) = pl"
    and "drop (5 + length pl) (raw_cell p ft pl) = replicate (payload_capacity p - length pl) 0"
proof -
  define hdr where "hdr = SHROUD_FRAME_HEADER @ [ft] @ be_bytes 2 (length pl)"
  have c: "raw_cell p ft pl = hdr @ pl @ replicate (payload_capacity p - length pl) 0"
    and len: "length hdr = 5" by (simp_all add: raw_cell_def hdr_def SHROUD_FRAME_HEADER_def)
  show "slice (raw_cell p ft pl) 5 (5 + length pl) = pl"
    and "drop (5 + length pl) (raw_cell p ft pl) = replicate (payload_capacity p - length pl) 0"
    using len by (auto simp: c intro: slice_append_mid drop_append_mid)
qed (use assms of_be_be_bytes_id [of "length pl" 2] in
  \<open>auto simp: raw_cell_def SHROUD_FRAME_HEADER_def slice_def numeral_2_eq_2 nth_Cons' numeral_3_eq_3\<close>)

lemma decode_raw_cell:
  assumes "is_valid p" and "length pl \<le> payload_capacity p"
    and "ft \<in> {SHROUD_FRAME_DATA, SHROUD_FRAME_CHAFF}"
  shows "decode_cell p (raw_cell p ft pl) = Ok (if ft = SHROUD_FRAME_DATA then Some pl else None)"
proof -
  from assms(1) have b: "payload_capacity p + 5 = cell_size p" "payload_capacity p < 65536"
    using is_valid_bounds by auto
  note f = raw_cell_fields [OF assms(2) b(2), of ft]
  have ne: "SHROUD_FRAME_DATA \<noteq> SHROUD_FRAME_CHAFF"
    by (simp add: SHROUD_FRAME_DATA_def SHROUD_FRAME_CHAFF_def)
  show ?thesis using assms b ne
    by (auto simp: decode_cell_def decode_cell_payload_def f(1-4,6) Let_def list_ex_iff)
      (simp add: raw_cell_fields(5) [OF assms(2) b(2), of SHROUD_FRAME_DATA])
qed

text \<open>Reading the fields back from an arbitrary buffer that has them.\<close>

lemma five_fields:
  assumes "length c = n + 5" and "slice c 0 2 = SHROUD_FRAME_HEADER"
    and "of_be [c ! 3, c ! 4] = k" and "k \<le> n" and "\<forall>b\<in>set (drop (5 + k) c). b = 0"
  shows "c = SHROUD_FRAME_HEADER @ [c ! 2] @ be_bytes 2 k @ slice c 5 (5 + k) @ replicate (n - k) 0"
proof -
  from assms(1) have "be_bytes 2 k = [c ! 3, c ! 4]"
    using be_bytes_of_be [of "[c ! 3, c ! 4]"] assms(3) by (simp add: numeral_2_eq_2)
  moreover have "[c ! 3, c ! 4] = slice c 3 5"
    using assms(1) slice_one [of 3 c] slice_one [of 4 c] slice_join [of 3 4 5 c] by simp
  moreover have "[c ! 2] = slice c 2 3" using assms(1) slice_one [of 2 c] by simp
  moreover have "drop (5 + k) c = replicate (n - k) 0"
    using assms by (intro replicate_eqI) auto
  moreover have "c = slice c 0 2 @ slice c 2 3 @ slice c 3 5 @ slice c 5 (5 + k) @ drop (5 + k) c"
    using buffer_split [of c 2] drop_split [of 2 3 c] drop_split [of 3 5 c] drop_split [of 5 "5 + k" c]
    by simp
  ultimately show ?thesis using assms(2) by simp
qed

lemma decode_cell_raw:
  assumes "decode_cell p c = Ok m"
  shows "is_valid p \<and> (\<exists>ft\<in>{SHROUD_FRAME_DATA, SHROUD_FRAME_CHAFF}. \<exists>pl. length pl \<le> payload_capacity p
    \<and> c = raw_cell p ft pl \<and> m = (if ft = SHROUD_FRAME_DATA then Some pl else None))"
proof -
  define k where "k = of_be [c ! 3, c ! 4]"
  from assms have v: "is_valid p" and len: "length c = payload_capacity p + 5"
    and h: "slice c 0 2 = SHROUD_FRAME_HEADER" and k: "k \<le> payload_capacity p"
    and z: "\<forall>b\<in>set (drop (5 + k) c). b = 0"
    and m: "c ! 2 = SHROUD_FRAME_DATA \<and> m = Some (slice c 5 (5 + k))
      \<or> c ! 2 = SHROUD_FRAME_CHAFF \<and> c ! 2 \<noteq> SHROUD_FRAME_DATA \<and> m = None"
    using is_valid_bounds [of p]
    by (auto simp: decode_cell_def decode_cell_payload_def Let_def k_def list_ex_iff split: if_splits)
  from five_fields [OF len h _ k z] have "c = raw_cell p (c ! 2) (slice c 5 (5 + k))"
    using k len by (simp add: raw_cell_def k_def)
  moreover have "length (slice c 5 (5 + k)) \<le> payload_capacity p" using k len by simp
  ultimately show ?thesis using v m by (intro conjI bexI [of _ "c ! 2"] exI [of _ "slice c 5 (5 + k)"]) auto
qed

interpretation cell: strict_codec "cell_frame profile" "decode_cell profile" "cell_legal profile" for profile
proof unfold_locales
  fix m p
  assume "cell_legal profile m p"
  then show "decode_cell profile (cell_frame profile m p) = Ok m"
    by (cases m) (simp_all add: decode_raw_cell SHROUD_FRAME_DATA_def SHROUD_FRAME_CHAFF_def)
next
  fix b m
  assume "decode_cell profile b = Ok m"
  from decode_cell_raw [OF this] obtain ft pl where
    *: "is_valid profile" "length pl \<le> payload_capacity profile" "b = raw_cell profile ft pl"
    "ft \<in> {SHROUD_FRAME_DATA, SHROUD_FRAME_CHAFF}" "m = (if ft = SHROUD_FRAME_DATA then Some pl else None)"
    by auto
  then show "\<exists>p. cell_legal profile m p \<and> b = cell_frame profile m p"
    by (cases "ft = SHROUD_FRAME_DATA") (auto intro: exI [of _ pl])
qed

section \<open>Properties\<close>

text \<open>Decoding a cell is exactly the inverse of encoding one: \<open>decode_cell\<close> accepts a buffer if
  and only if \<open>encode_cell\<close> produces it under the same profile, and returns the payload of a data
  cell and nothing for chaff.  Every other buffer (wrong size, header, type, length or non-zero
  padding) is refused, and both functions refuse every input under an invalid profile.\<close>

lemma decode_cell_exact:
  "decode_cell profile c = Ok m \<longleftrightarrow>
     (\<exists>ft pl. encode_cell profile ft pl = Ok c \<and> m = (if ft = SHROUD_FRAME_DATA then Some pl else None))"
proof
  assume "decode_cell profile c = Ok m"
  from decode_cell_raw [OF this] show "\<exists>ft pl. encode_cell profile ft pl = Ok c
      \<and> m = (if ft = SHROUD_FRAME_DATA then Some pl else None)"
    unfolding encode_cell_def shroud_cell_new_Ok by blast
qed (auto simp: encode_cell_def shroud_cell_new_Ok decode_raw_cell)

text \<open>Every named profile is valid and found under its own name, and whatever a user selects
  is off or one of these profiles.\<close>

lemma selected_profile_is_valid:
  "(\<forall>nm p. shroud_profile_by_name nm = Some p \<longrightarrow> is_valid p \<and> sp_name p = nm)
   \<and> (\<forall>nm p. shroud_profile_by_selection nm = Some (Some p) \<longrightarrow>
        is_valid p \<and> shroud_profile_by_name (sp_name p) = Some p)"
proof -
  have "list_all (\<lambda>p. is_valid p \<and> shroud_profile_by_name (sp_name p) = Some p) profiles"
    by (simp add: profiles_def shroud_profile_by_name_def profile_defs is_valid_def
        payload_capacity_def from_millis_def)
  then have "is_valid p \<and> shroud_profile_by_name (sp_name p) = Some p" if "p \<in> set profiles" for p
    using that by (simp add: list_all_iff)
  moreover have sel: "shroud_profile_by_selection nm \<in> {None, Some None} \<union> Some ` Some ` set profiles" for nm
    unfolding shroud_profile_by_selection_def Let_def profiles_def
    by (rule if_mem, simp)+ simp
  have "p \<in> set profiles" if "shroud_profile_by_selection nm = Some (Some p)" for nm p
    using sel [of nm] by (auto simp: that)
  moreover have "p \<in> set profiles \<and> sp_name p = nm" if "shroud_profile_by_name nm = Some p" for nm p
    using that by (auto simp: shroud_profile_by_name_def find_Some_iff)
  ultimately show ?thesis by blast
qed

end
