(* ===== verification/Shroud2.thy ===== *)
theory Shroud2
  imports Framing
begin

text \<open>
  Shroud 2 morphology, \<open>shph-transport/src/shroud2/mod.rs\<close>: the datagram envelope, the batch encoding
  carried inside it, and the morphology engine that chooses outer sizes and delays.  The generator of an
  engine is a parameter.  An empirical histogram is a list of bins together with the function that
  turns a generator state into the index of a bin: that index is a binary search over floating-point
  cumulative weights, which are not modelled.
\<close>

section \<open>Constants and profiles\<close>

definition MORPHOLOGY_MAGIC :: bytes where "MORPHOLOGY_MAGIC = [0x53, 0x32]"
definition MORPHOLOGY_VERSION :: byte where "MORPHOLOGY_VERSION = 1"
definition MORPHOLOGY_HEADER_BYTES :: usize where "MORPHOLOGY_HEADER_BYTES = 7"
definition MAX_MORPHOLOGY_DATAGRAM_BYTES :: usize where "MAX_MORPHOLOGY_DATAGRAM_BYTES = 65535"
definition BATCH_MESSAGE_LENGTH_BYTES :: usize where "BATCH_MESSAGE_LENGTH_BYTES = 2"
definition MAX_BATCH_MESSAGES :: usize where "MAX_BATCH_MESSAGES = 32"
definition MAX_BATCH_WAIT :: duration where "MAX_BATCH_WAIT = from_millis 1000"
definition MAX_BATCH_PAYLOAD_BYTES :: usize where
  "MAX_BATCH_PAYLOAD_BYTES = MAX_MORPHOLOGY_DATAGRAM_BYTES - MORPHOLOGY_HEADER_BYTES"
definition MAX_PROFILE_SIZE_CLASSES :: usize where "MAX_PROFILE_SIZE_CLASSES = 8"

lemmas s2_consts = MORPHOLOGY_HEADER_BYTES_def MAX_MORPHOLOGY_DATAGRAM_BYTES_def BATCH_MESSAGE_LENGTH_BYTES_def
  MAX_BATCH_MESSAGES_def MAX_BATCH_PAYLOAD_BYTES_def MAX_PROFILE_SIZE_CLASSES_def

definition from_micros :: "nat \<Rightarrow> duration" where
  "from_micros n = n * 1000"

datatype morphology_profile =
    LowLatency | WebBrowsingLab | VideoStreamingLab | VideoStreamingLargePayloadLab
  | VideoStreamingBalancedPayloadLab | BulkLab
  | TunedLowLatency | TunedWebBrowsingLab | TunedVideoStreamingLab | TunedBulkLab

fun size_classes :: "morphology_profile \<Rightarrow> usize list" where
  "size_classes LowLatency = [128, 256, 512, 1024]"
| "size_classes WebBrowsingLab = [384, 768, 1024, 1280, 1536]"
| "size_classes VideoStreamingLab = [1024, 1280, 1536, 2048, 4096]"
| "size_classes VideoStreamingLargePayloadLab = [1408, 1440, 1465]"
| "size_classes VideoStreamingBalancedPayloadLab = [1415, 1430, 1445, 1460, 1472]"
| "size_classes BulkLab = [1280, 2048, 4096, 8192, 16384]"
| "size_classes TunedLowLatency = [64, 96, 128, 192, 256, 512, 768]"
| "size_classes TunedWebBrowsingLab = [256, 384, 512, 768, 1024, 1280, 1360]"
| "size_classes TunedVideoStreamingLab = [1024, 1152, 1280, 1360, 1408, 1440, 1472]"
| "size_classes TunedBulkLab = [1024, 1152, 1280, 1360, 1408, 1440, 1472]"

fun size_class_weights :: "morphology_profile \<Rightarrow> u32 list option" where
  "size_class_weights LowLatency = Some [65, 25, 8, 2]"
| "size_class_weights WebBrowsingLab = Some [45, 30, 15, 8, 2]"
| "size_class_weights VideoStreamingLab = Some [45, 30, 15, 8, 2]"
| "size_class_weights VideoStreamingLargePayloadLab = Some [60, 30, 10]"
| "size_class_weights VideoStreamingBalancedPayloadLab = Some [35, 30, 20, 12, 3]"
| "size_class_weights BulkLab = None"
| "size_class_weights TunedLowLatency = Some [65, 20, 6, 4, 3, 1, 1]"
| "size_class_weights TunedWebBrowsingLab = Some [35, 25, 18, 12, 7, 2, 1]"
| "size_class_weights TunedVideoStreamingLab = Some [26, 24, 20, 14, 8, 5, 3]"
| "size_class_weights TunedBulkLab = Some [5, 10, 15, 20, 20, 15, 15]"

fun jitter_bounds :: "morphology_profile \<Rightarrow> duration \<times> duration" where
  "jitter_bounds LowLatency = (0, from_micros 500)"
| "jitter_bounds WebBrowsingLab = (from_micros 100, from_millis 8)"
| "jitter_bounds VideoStreamingLab = (from_micros 50, from_millis 3)"
| "jitter_bounds VideoStreamingLargePayloadLab = (from_micros 50, from_millis 3)"
| "jitter_bounds VideoStreamingBalancedPayloadLab = (from_micros 50, from_millis 3)"
| "jitter_bounds BulkLab = (0, from_micros 750)"
| "jitter_bounds TunedLowLatency = (0, from_micros 250)"
| "jitter_bounds TunedWebBrowsingLab = (from_micros 50, from_millis 5)"
| "jitter_bounds TunedVideoStreamingLab = (from_micros 50, from_millis 3)"
| "jitter_bounds TunedBulkLab = (0, from_micros 500)"

section \<open>Validation\<close>

definition s2_validate_path_mtu :: "usize \<Rightarrow> unit result" where
  "s2_validate_path_mtu path_mtu =
     (if \<not> (MORPHOLOGY_HEADER_BYTES \<le> path_mtu \<and> path_mtu \<le> MAX_MORPHOLOGY_DATAGRAM_BYTES)
        then Err (Config (''morphology path MTU must be between '' @ show_nat MORPHOLOGY_HEADER_BYTES @ '' and ''
          @ show_nat MAX_MORPHOLOGY_DATAGRAM_BYTES @ '' bytes''))
      else Ok ())"

definition s2_validate_payload_for_path :: "usize \<Rightarrow> usize \<Rightarrow> usize result" where
  "s2_validate_payload_for_path payload_len path_mtu =
     (case s2_validate_path_mtu path_mtu of Err e \<Rightarrow> Err e | Ok _ \<Rightarrow>
      if payload_len = 0 then Err (Protocol ''morphology payload must not be empty'')
      else if u16_max < payload_len then Err (Protocol ''morphology payload exceeds the length field'')
      else case checked_add usize_max payload_len MORPHOLOGY_HEADER_BYTES of
        None \<Rightarrow> Err (Protocol ''morphology payload length overflow'')
      | Some minimum \<Rightarrow>
          if path_mtu < minimum then Err (Protocol ''morphology payload exceeds negotiated datagram limit'')
          else Ok minimum)"

definition validate_batch_message :: "bytes \<Rightarrow> unit result" where
  "validate_batch_message message =
     (if message = [] then Err (Protocol ''morphology batch messages must not be empty'')
      else if u16_max < length message then Err (Protocol ''morphology batch message exceeds the length field'')
      else Ok ())"

section \<open>Datagrams\<close>

text \<open>The wipe guard empties the buffer on every error.\<close>

definition s2_wipe_prepare :: "bytes \<Rightarrow> usize \<Rightarrow> bytes" where
  "s2_wipe_prepare buffer target_len =
     take 0 (if target_len < length buffer
       then take target_len buffer @ replicate (length buffer - target_len) 0 else buffer)"

definition encode_datagram_with_rng_into ::
    "'g rng \<Rightarrow> bytes \<Rightarrow> usize \<Rightarrow> usize \<Rightarrow> bytes \<Rightarrow> 'g \<Rightarrow> unit result \<times> bytes \<times> 'g" where
  "encode_datagram_with_rng_into R payload target path_mtu datagram g =
     (case s2_validate_payload_for_path (length payload) path_mtu of
        Err e \<Rightarrow> (Err e, [], g)
      | Ok minimum \<Rightarrow>
      if path_mtu < target \<or> MAX_MORPHOLOGY_DATAGRAM_BYTES < target
        then (Err (Protocol ''morphology target exceeds negotiated datagram limit''), [], g)
      else if target < minimum then (Err (Protocol ''morphology target is smaller than the payload''), [], g)
      else if u16_max < target then (Err (Protocol ''morphology target length overflow''), [], g)
      else
        let b0 = resize (s2_wipe_prepare datagram target) target;
            b1 = write_at b0 0 MORPHOLOGY_MAGIC;
            b2 = b1[2 := MORPHOLOGY_VERSION];
            b3 = write_at b2 3 (be_bytes 2 (length payload));
            b4 = write_at b3 5 (be_bytes 2 target);
            b5 = write_at b4 7 payload
        in case fill_bytes R (length b5 - minimum) g of
             (None, g1) \<Rightarrow> (Err (Crypto ''morphology padding randomness failed''), [], g1)
           | (Some padding, g1) \<Rightarrow> (Ok (), write_at b5 minimum padding, g1))"

definition s2_encode_datagram :: "'g rng \<Rightarrow> bytes \<Rightarrow> usize \<Rightarrow> usize \<Rightarrow> 'g \<Rightarrow> bytes result \<times> 'g" where
  "s2_encode_datagram R payload target path_mtu g =
     (case encode_datagram_with_rng_into R payload target path_mtu [] g of
        (Err e, _, g1) \<Rightarrow> (Err e, g1) | (Ok _, datagram, g1) \<Rightarrow> (Ok datagram, g1))"

definition decode_datagram_in_place :: "bytes \<Rightarrow> usize \<Rightarrow> unit result \<times> bytes" where
  "decode_datagram_in_place d path_mtu =
     (case s2_validate_path_mtu path_mtu of Err e \<Rightarrow> (Err e, d) | Ok _ \<Rightarrow>
      if length d < MORPHOLOGY_HEADER_BYTES \<or> path_mtu < length d
        then (Err (Protocol ''morphology datagram length is outside the negotiated limit''), d)
      else if slice d 0 2 \<noteq> MORPHOLOGY_MAGIC \<or> d ! 2 \<noteq> MORPHOLOGY_VERSION
        then (Err (Protocol ''morphology envelope version mismatch''), d)
      else let payload_len = of_be [d ! 3, d ! 4]; declared_size = of_be [d ! 5, d ! 6] in
      if declared_size \<noteq> length d
        then (Err (Protocol ''morphology datagram size does not match its envelope''), d)
      else case checked_add usize_max MORPHOLOGY_HEADER_BYTES payload_len of
        None \<Rightarrow> (Err (Protocol ''morphology payload length overflow''), d)
      | Some payload_end \<Rightarrow>
          if payload_len = 0 \<or> length d < payload_end
            then (Err (Protocol ''morphology payload length is invalid''), d)
          else let moved = write_at d 0 (slice d MORPHOLOGY_HEADER_BYTES payload_end);
                   wiped = take payload_len moved @ replicate (length d - payload_len) 0
               in (Ok (), take payload_len wiped))"

definition decode_datagram :: "bytes \<Rightarrow> usize \<Rightarrow> bytes result" where
  "decode_datagram d path_mtu =
     (case decode_datagram_in_place d path_mtu of (Ok _, decoded) \<Rightarrow> Ok decoded | (Err e, _) \<Rightarrow> Err e)"

section \<open>Batches\<close>

fun batch_total :: "usize \<Rightarrow> bytes list \<Rightarrow> usize result" where
  "batch_total acc [] = Ok acc"
| "batch_total acc (message # ms) =
     (case validate_batch_message message of Err e \<Rightarrow> Err e | Ok _ \<Rightarrow>
      (case Option.bind (checked_add usize_max acc BATCH_MESSAGE_LENGTH_BYTES)
              (\<lambda>n. checked_add usize_max n (length message)) of
         None \<Rightarrow> Err (Protocol ''morphology batch length overflow'')
       | Some n \<Rightarrow> batch_total n ms))"

fun batch_bytes :: "bytes list \<Rightarrow> bytes" where
  "batch_bytes [] = []"
| "batch_bytes (message # ms) = be_bytes 2 (length message) @ message @ batch_bytes ms"

definition encode_batch_payload :: "bytes list \<Rightarrow> usize \<Rightarrow> bytes result" where
  "encode_batch_payload messages path_mtu =
     (case s2_validate_path_mtu path_mtu of Err e \<Rightarrow> Err e | Ok _ \<Rightarrow>
      if messages = [] then Err (Protocol ''morphology batch must contain at least one message'')
      else if MAX_BATCH_MESSAGES < length messages
        then Err (Protocol (''morphology batch exceeds the '' @ show_nat MAX_BATCH_MESSAGES @ ''-message limit''))
      else (case batch_total 0 messages of Err e \<Rightarrow> Err e | Ok expected \<Rightarrow>
        if path_mtu - MORPHOLOGY_HEADER_BYTES < expected
          then Err (Protocol ''morphology batch exceeds the negotiated datagram limit'')
        else Ok (batch_bytes messages)))"

function decode_batch_loop :: "bytes \<Rightarrow> usize \<Rightarrow> bytes list \<Rightarrow> bytes list result" where
  "decode_batch_loop payload offset messages =
     (if offset < length payload then
        if MAX_BATCH_MESSAGES \<le> length messages
          then Err (Protocol (''morphology batch exceeds the '' @ show_nat MAX_BATCH_MESSAGES @ ''-message limit''))
        else case checked_add usize_max offset BATCH_MESSAGE_LENGTH_BYTES of
          None \<Rightarrow> Err (Protocol ''morphology batch offset overflow'')
        | Some length_end \<Rightarrow>
            if length payload < length_end then Err (Protocol ''morphology batch has a truncated length prefix'')
            else let message_len = of_be [payload ! offset, payload ! (offset + 1)] in
              if message_len = 0 then Err (Protocol ''morphology batch contains an empty message'')
              else case checked_add usize_max length_end message_len of
                None \<Rightarrow> Err (Protocol ''morphology batch message overflow'')
              | Some message_end \<Rightarrow>
                  if length payload < message_end then Err (Protocol ''morphology batch has a truncated message'')
                  else decode_batch_loop payload message_end (messages @ [slice payload length_end message_end])
      else Ok messages)"
  by auto
termination
  by (relation "measure (\<lambda>(payload, offset, messages). length payload - offset)")
    (auto simp: checked_add_def split: if_splits)

declare decode_batch_loop.simps [simp del]

definition decode_batch_payload :: "bytes \<Rightarrow> bytes list result" where
  "decode_batch_payload payload =
     (if payload = [] then Err (Protocol ''morphology batch payload must not be empty'')
      else if MAX_BATCH_PAYLOAD_BYTES < length payload
        then Err (Protocol ''morphology batch payload exceeds the global envelope limit'')
      else decode_batch_loop payload 0 [])"

definition decode_batched_datagram :: "bytes \<Rightarrow> usize \<Rightarrow> bytes list result" where
  "decode_batched_datagram d path_mtu =
     (case decode_datagram d path_mtu of Err e \<Rightarrow> Err e | Ok payload \<Rightarrow> decode_batch_payload payload)"

section \<open>The engine\<close>

record 'g histogram =
  hist_bins :: "u64 list"
  hist_index :: "'g \<Rightarrow> nat \<times> 'g"

definition sample_bin :: "'g histogram \<Rightarrow> 'g \<Rightarrow> u64 \<times> 'g" where
  "sample_bin h g = (case hist_index h g of
     (i, g1) \<Rightarrow> (if i < length (hist_bins h) then hist_bins h ! i else last (hist_bins h), g1))"

record morphology_metrics =
  mm_frames :: u64
  mm_payload_bytes :: u64
  mm_wire_bytes :: u64
  mm_padding_bytes :: u64
  mm_min_wire_bytes :: "usize option"
  mm_max_wire_bytes :: "usize option"

definition morphology_metrics_default :: morphology_metrics where
  "morphology_metrics_default = \<lparr>mm_frames = 0, mm_payload_bytes = 0, mm_wire_bytes = 0, mm_padding_bytes = 0,
     mm_min_wire_bytes = None, mm_max_wire_bytes = None\<rparr>"

definition metrics_record :: "morphology_metrics \<Rightarrow> usize \<Rightarrow> usize \<Rightarrow> morphology_metrics" where
  "metrics_record m payload_bytes wire_bytes =
     m\<lparr>mm_frames := sat_add u64_max (mm_frames m) 1,
       mm_payload_bytes := sat_add u64_max (mm_payload_bytes m) payload_bytes,
       mm_wire_bytes := sat_add u64_max (mm_wire_bytes m) wire_bytes,
       mm_padding_bytes := sat_add u64_max (mm_padding_bytes m) (wire_bytes - payload_bytes),
       mm_min_wire_bytes := Some (case mm_min_wire_bytes m of None \<Rightarrow> wire_bytes | Some c \<Rightarrow> min c wire_bytes),
       mm_max_wire_bytes := Some (case mm_max_wire_bytes m of None \<Rightarrow> wire_bytes | Some c \<Rightarrow> max c wire_bytes)\<rparr>"

record 'g morphology_engine =
  me_profile :: morphology_profile
  me_rng :: 'g
  size_histogram :: "'g histogram option"
  me_metrics :: morphology_metrics
  metrics_enabled :: bool

definition morphology_engine_new :: "morphology_profile \<Rightarrow> 'g \<Rightarrow> 'g morphology_engine" where
  "morphology_engine_new profile g = \<lparr>me_profile = profile, me_rng = g, size_histogram = None,
     me_metrics = morphology_metrics_default, metrics_enabled = False\<rparr>"

definition morphology_engine_from_histogram ::
    "morphology_profile \<Rightarrow> 'g histogram \<Rightarrow> 'g \<Rightarrow> 'g morphology_engine" where
  "morphology_engine_from_histogram profile h g =
     (morphology_engine_new profile g)\<lparr>size_histogram := Some h\<rparr>"

definition set_metrics_enabled :: "bool \<Rightarrow> 'g morphology_engine \<Rightarrow> 'g morphology_engine" where
  "set_metrics_enabled enabled e = e\<lparr>metrics_enabled := enabled\<rparr>"

definition reset_metrics :: "'g morphology_engine \<Rightarrow> 'g morphology_engine" where
  "reset_metrics e = e\<lparr>me_metrics := morphology_metrics_default\<rparr>"

definition set_profile :: "morphology_profile \<Rightarrow> 'g morphology_engine \<Rightarrow> 'g morphology_engine" where
  "set_profile profile e = e\<lparr>me_profile := profile, size_histogram := None\<rparr>"

text \<open>The filled prefix of the fixed array \<open>eligible\<close> is the list; the loop breaks when it is full.\<close>

fun eligible_weighted :: "usize \<Rightarrow> usize \<Rightarrow> (usize \<times> u32) list \<Rightarrow> (usize \<times> u32) list \<Rightarrow> (usize \<times> u32) list" where
  "eligible_weighted minimum path_mtu [] eligible = eligible"
| "eligible_weighted minimum path_mtu ((class, weight) # cs) eligible =
     (if weight = 0 then eligible_weighted minimum path_mtu cs eligible
      else let effective_class = min class path_mtu in
        if effective_class < minimum then eligible_weighted minimum path_mtu cs eligible
        else if eligible \<noteq> [] \<and> fst (last eligible) = effective_class
          then eligible_weighted minimum path_mtu cs
            (butlast eligible @ [(effective_class, sat_add u32_max (snd (last eligible)) weight)])
        else if length eligible = MAX_PROFILE_SIZE_CLASSES then eligible
        else eligible_weighted minimum path_mtu cs (eligible @ [(effective_class, weight)]))"

fun pick_weighted :: "(usize \<times> u32) list \<Rightarrow> u64 \<Rightarrow> usize option" where
  "pick_weighted [] selection = None"
| "pick_weighted ((class, weight) # cs) selection =
     (if selection < weight then Some class else pick_weighted cs (selection - weight))"

definition sample_weighted_size_class ::
    "'g rng \<Rightarrow> usize list \<Rightarrow> u32 list \<Rightarrow> usize \<Rightarrow> usize \<Rightarrow> 'g \<Rightarrow> usize \<times> 'g" where
  "sample_weighted_size_class R classes weights minimum path_mtu g =
     (let eligible = eligible_weighted minimum path_mtu (zip classes weights) [];
          total_weight = foldl (\<lambda>acc cw. sat_add u64_max acc (snd cw)) 0 eligible
      in if total_weight = 0 then (minimum, g)
         else case gen_range R 0 (total_weight - 1) g of
           (selection, g1) \<Rightarrow>
             (case pick_weighted eligible selection of
                Some class \<Rightarrow> (class, g1)
              | None \<Rightarrow> (fst (last eligible), g1)))"

fun eligible_uniform :: "usize \<Rightarrow> usize \<Rightarrow> usize list \<Rightarrow> usize list \<Rightarrow> usize list" where
  "eligible_uniform minimum path_mtu [] eligible = eligible"
| "eligible_uniform minimum path_mtu (class # cs) eligible =
     (if minimum \<le> class \<and> class \<le> path_mtu
      then if length eligible = MAX_PROFILE_SIZE_CLASSES then eligible
           else eligible_uniform minimum path_mtu cs (eligible @ [class])
      else eligible_uniform minimum path_mtu cs eligible)"

definition sample_uniform_size_class :: "'g rng \<Rightarrow> usize list \<Rightarrow> usize \<Rightarrow> usize \<Rightarrow> 'g \<Rightarrow> usize \<times> 'g" where
  "sample_uniform_size_class R classes minimum path_mtu g =
     (let eligible = eligible_uniform minimum path_mtu classes []
      in if eligible = [] then (minimum, g)
         else case gen_range R 0 (length eligible - 1) g of (i, g1) \<Rightarrow> (eligible ! i, g1))"

definition morphology_target_size ::
    "'g rng \<Rightarrow> 'g morphology_engine \<Rightarrow> usize \<Rightarrow> usize \<Rightarrow> usize result \<times> 'g morphology_engine" where
  "morphology_target_size R e payload_len path_mtu =
     (case s2_validate_payload_for_path payload_len path_mtu of
        Err x \<Rightarrow> (Err x, e)
      | Ok minimum \<Rightarrow>
          (case (case size_histogram e of
                   Some h \<Rightarrow> sample_bin h (me_rng e)
                 | None \<Rightarrow>
                     (case size_class_weights (me_profile e) of
                        Some weights \<Rightarrow>
                          sample_weighted_size_class R (size_classes (me_profile e)) weights minimum path_mtu (me_rng e)
                      | None \<Rightarrow> sample_uniform_size_class R (size_classes (me_profile e)) minimum path_mtu (me_rng e))) of
             (sampled, g1) \<Rightarrow> (Ok (min (max sampled minimum) path_mtu), e\<lparr>me_rng := g1\<rparr>)))"

definition engine_encode_into ::
    "'g rng \<Rightarrow> 'g morphology_engine \<Rightarrow> bytes \<Rightarrow> usize \<Rightarrow> bytes \<Rightarrow> unit result \<times> bytes \<times> 'g morphology_engine" where
  "engine_encode_into R e payload path_mtu datagram =
     (case morphology_target_size R e (length payload) path_mtu of
        (Err x, e1) \<Rightarrow> (Err x, [], e1)
      | (Ok target, e1) \<Rightarrow>
          (case encode_datagram_with_rng_into R payload target path_mtu datagram (me_rng e1) of
             (Err x, d, g) \<Rightarrow> (Err x, d, e1\<lparr>me_rng := g\<rparr>)
           | (Ok _, d, g) \<Rightarrow>
               let e2 = e1\<lparr>me_rng := g\<rparr> in
               (Ok (), d, if metrics_enabled e2
                  then e2\<lparr>me_metrics := metrics_record (me_metrics e2) (length payload) target\<rparr> else e2)))"

definition engine_encode ::
    "'g rng \<Rightarrow> 'g morphology_engine \<Rightarrow> bytes \<Rightarrow> usize \<Rightarrow> bytes result \<times> 'g morphology_engine" where
  "engine_encode R e payload path_mtu =
     (case engine_encode_into R e payload path_mtu [] of
        (Err x, _, e1) \<Rightarrow> (Err x, e1) | (Ok _, d, e1) \<Rightarrow> (Ok d, e1))"

definition encode_batched_datagram ::
    "'g rng \<Rightarrow> 'g morphology_engine \<Rightarrow> bytes list \<Rightarrow> usize \<Rightarrow> bytes result \<times> 'g morphology_engine" where
  "encode_batched_datagram R e messages path_mtu =
     (case encode_batch_payload messages path_mtu of
        Err x \<Rightarrow> (Err x, e) | Ok payload \<Rightarrow> engine_encode R e payload path_mtu)"

definition morphology_next_delay :: "'g rng \<Rightarrow> 'g morphology_engine \<Rightarrow> duration \<times> 'g morphology_engine" where
  "morphology_next_delay R e =
     (let (minimum, maximum) = jitter_bounds (me_profile e) in
      if maximum \<le> minimum then (minimum, e)
      else case gen_range R minimum maximum (me_rng e) of (d, g) \<Rightarrow> (d, e\<lparr>me_rng := g\<rparr>))"

section \<open>The datagram as a codec\<close>

definition s2_wire :: "bytes \<Rightarrow> bytes \<Rightarrow> bytes" where
  "s2_wire payload pad = MORPHOLOGY_MAGIC @ [MORPHOLOGY_VERSION] @ be_bytes 2 (length payload)
     @ be_bytes 2 (MORPHOLOGY_HEADER_BYTES + length payload + length pad) @ payload @ pad"

definition s2_legal :: "usize \<Rightarrow> bytes \<Rightarrow> bytes \<Rightarrow> bool" where
  "s2_legal mtu payload pad \<longleftrightarrow> mtu \<le> u16_max \<and> payload \<noteq> []
     \<and> MORPHOLOGY_HEADER_BYTES + length payload + length pad \<le> mtu"

lemma s2_wire_fields:
  assumes "7 + length pl + length pad \<le> u16_max"
  shows "length (s2_wire pl pad) = 7 + length pl + length pad"
    and "slice (s2_wire pl pad) 0 2 = MORPHOLOGY_MAGIC" and "s2_wire pl pad ! 2 = MORPHOLOGY_VERSION"
    and "of_be [s2_wire pl pad ! 3, s2_wire pl pad ! 4] = length pl"
    and "of_be [s2_wire pl pad ! 5, s2_wire pl pad ! 6] = 7 + length pl + length pad"
    and "slice (s2_wire pl pad) 7 (7 + length pl) = pl"
proof -
  show "of_be [s2_wire pl pad ! 3, s2_wire pl pad ! 4] = length pl"
    and "of_be [s2_wire pl pad ! 5, s2_wire pl pad ! 6] = 7 + length pl + length pad"
    using assms of_be_be_bytes_id [of "length pl" 2] of_be_be_bytes_id [of "7 + length pl + length pad" 2]
    by (simp_all add: s2_wire_def MORPHOLOGY_MAGIC_def MORPHOLOGY_HEADER_BYTES_def u16_max_def numeral_2_eq_2)
  define hdr where "hdr = MORPHOLOGY_MAGIC @ [MORPHOLOGY_VERSION] @ be_bytes 2 (length pl)
    @ be_bytes 2 (MORPHOLOGY_HEADER_BYTES + length pl + length pad)"
  have "s2_wire pl pad = hdr @ pl @ pad" "length hdr = 7"
    by (simp_all add: s2_wire_def hdr_def MORPHOLOGY_MAGIC_def)
  then show "slice (s2_wire pl pad) 7 (7 + length pl) = pl" by (simp add: slice_append_mid)
qed (simp_all add: s2_wire_def MORPHOLOGY_MAGIC_def slice_def)

lemma s2_decode_wire:
  assumes "s2_legal mtu pl pad"
  shows "decode_datagram (s2_wire pl pad) mtu = Ok pl"
proof -
  from assms have l: "7 + length pl + length pad \<le> u16_max" "7 + length pl + length pad \<le> mtu" "mtu \<le> u16_max" "pl \<noteq> []"
    by (auto simp: s2_legal_def s2_consts)
  note f = s2_wire_fields [OF l(1)]
  have "checked_add usize_max 7 (length pl) = Some (7 + length pl)"
    using l by (simp add: checked_add_def usize_max_def u16_max_def)
  then show ?thesis using l
    by (simp add: decode_datagram_def decode_datagram_in_place_def s2_validate_path_mtu_def s2_consts f Let_def
        write_at_def u16_max_def)
qed

lemma s2_decode_only:
  assumes "decode_datagram d mtu = Ok m"
  shows "\<exists>pad. s2_legal mtu m pad \<and> d = s2_wire m pad"
proof -
  define k where "k = of_be [d ! 3, d ! 4]"
  from assms have len: "7 \<le> length d" "length d \<le> mtu" "mtu \<le> u16_max"
    and h: "slice d 0 2 = MORPHOLOGY_MAGIC" "d ! 2 = MORPHOLOGY_VERSION" and t: "of_be [d ! 5, d ! 6] = length d"
    and k: "k \<noteq> 0" "7 + k \<le> length d"
    and m: "m = take k (take k (write_at d 0 (slice d 7 (7 + k))) @ replicate (length d - k) 0)"
    by (auto simp: decode_datagram_def decode_datagram_in_place_def s2_validate_path_mtu_def s2_consts Let_def
        k_def range_simps u16_max_def simp del: take_append split: result.splits prod.splits option.splits if_splits)
  have m': "m = slice d 7 (7 + k)" using k by (simp add: m write_at_def)
  have lm: "length m = k" using k by (simp add: m')
  have "d = s2_wire m (drop (7 + k) d)"
    using header7_split [OF k(2)] h t lm k by (simp add: s2_wire_def m' MORPHOLOGY_HEADER_BYTES_def k_def [symmetric])
  moreover have "s2_legal mtu m (drop (7 + k) d)"
    using len k lm by (auto simp: s2_legal_def s2_consts)
  ultimately show ?thesis by blast
qed

interpretation s2: strict_codec s2_wire "\<lambda>d. decode_datagram d mtu" "s2_legal mtu" for mtu
  by unfold_locales (rule s2_decode_wire, assumption, rule s2_decode_only)

section \<open>The batch as a codec\<close>

definition batch_messages_ok :: "bytes list \<Rightarrow> bool" where
  "batch_messages_ok ms \<longleftrightarrow> (\<forall>m\<in>set ms. m \<noteq> [] \<and> length m \<le> u16_max)"

definition batch_legal :: "bytes list \<Rightarrow> unit \<Rightarrow> bool" where
  "batch_legal ms u \<longleftrightarrow> ms \<noteq> [] \<and> length ms \<le> MAX_BATCH_MESSAGES \<and> batch_messages_ok ms
     \<and> length (batch_bytes ms) \<le> MAX_BATCH_PAYLOAD_BYTES"

lemma batch_messages_ok_Cons [simp]:
  "batch_messages_ok [] = True"
  "batch_messages_ok (m # ms) \<longleftrightarrow> m \<noteq> [] \<and> length m \<le> u16_max \<and> batch_messages_ok ms"
  by (simp_all add: batch_messages_ok_def)

lemma batch_bytes_append [simp]: "batch_bytes (xs @ ys) = batch_bytes xs @ batch_bytes ys"
  by (induction xs) simp_all

lemma batch_bytes_empty [simp]: "batch_bytes ms = [] \<longleftrightarrow> ms = []"
proof (cases ms)
  case (Cons m ms')
  have "length (be_bytes 2 (length m)) = 2" by simp
  then have "be_bytes 2 (length m) \<noteq> []" by force
  with Cons show ?thesis by simp
qed simp

lemma validate_batch_message_iff: "validate_batch_message m = Ok () \<longleftrightarrow> m \<noteq> [] \<and> length m \<le> u16_max"
  by (auto simp: validate_batch_message_def)

lemma batch_total_Ok:
  "acc \<le> usize_max \<Longrightarrow> batch_total acc ms = Ok n \<longleftrightarrow>
     batch_messages_ok ms \<and> n = acc + length (batch_bytes ms) \<and> n \<le> usize_max"
proof (induction ms arbitrary: acc)
  case (Cons m ms)
  show ?case
  proof (cases "m \<noteq> [] \<and> length m \<le> u16_max")
    case True
    then have "validate_batch_message m = Ok ()" by (simp add: validate_batch_message_iff)
    with True Cons show ?thesis
      by (auto simp: checked_add_def BATCH_MESSAGE_LENGTH_BYTES_def)
  next
    case False
    then have "validate_batch_message m \<noteq> Ok ()" by (simp add: validate_batch_message_iff)
    then obtain e where "validate_batch_message m = Err e" by (cases "validate_batch_message m") auto
    with False show ?thesis by auto
  qed
qed auto

lemma batch_loop_frame:
  "batch_messages_ok ms \<Longrightarrow> length acc + length ms \<le> MAX_BATCH_MESSAGES \<Longrightarrow>
   length pre + length (batch_bytes ms) \<le> usize_max \<Longrightarrow>
   decode_batch_loop (pre @ batch_bytes ms) (length pre) acc = Ok (acc @ ms)"
proof (induction ms arbitrary: pre acc)
  case Nil
  then show ?case by (simp add: decode_batch_loop.simps)
next
  case (Cons m ms)
  let ?p = "pre @ batch_bytes (m # ms)"
  have at: "of_be [?p ! length pre, ?p ! (length pre + 1)] = length m"
    using Cons.prems of_be_be_bytes_id [of "length m" 2] by (simp add: nth_append numeral_2_eq_2 u16_max_def)
  have sl: "slice ?p (length pre + 2) (length pre + 2 + length m) = m"
    by (simp add: slice_def)
  have "decode_batch_loop ?p (length pre) acc = decode_batch_loop ?p (length pre + 2 + length m) (acc @ [m])"
    using Cons.prems at sl
    by (subst decode_batch_loop.simps) (simp add: checked_add_def s2_consts Let_def)
  also have "\<dots> = Ok ((acc @ [m]) @ ms)"
    using Cons.IH [of "acc @ [m]" "pre @ be_bytes 2 (length m) @ m"] Cons.prems by simp
  finally show ?case by simp
qed

lemma batch_loop_only:
  "decode_batch_loop payload off acc = Ok r \<Longrightarrow> off \<le> length payload \<Longrightarrow> length acc \<le> MAX_BATCH_MESSAGES \<Longrightarrow>
   \<exists>ms. r = acc @ ms \<and> drop off payload = batch_bytes ms \<and> batch_messages_ok ms
     \<and> length acc + length ms \<le> MAX_BATCH_MESSAGES"
proof (induction payload off acc rule: decode_batch_loop.induct)
  case (1 payload off acc)
  show ?case
  proof (cases "off < length payload")
    case False
    with 1 show ?thesis by (intro exI [of _ "[]"]) (simp add: decode_batch_loop.simps)
  next
    case True
    define k where "k = of_be [payload ! off, payload ! (off + 1)]"
    from 1(2) True have c: "length acc < MAX_BATCH_MESSAGES" "checked_add usize_max off BATCH_MESSAGE_LENGTH_BYTES = Some (off + 2)"
      "off + 2 \<le> length payload" "k \<noteq> 0" "checked_add usize_max (off + 2) k = Some (off + 2 + k)" "off + 2 + k \<le> length payload"
      and rec: "decode_batch_loop payload (off + 2 + k) (acc @ [slice payload (off + 2) (off + 2 + k)]) = Ok r"
      by (auto simp: decode_batch_loop.simps [of payload off acc] Let_def k_def checked_add_def BATCH_MESSAGE_LENGTH_BYTES_def not_less
          split: if_splits option.splits)
    let ?m = "slice payload (off + 2) (off + 2 + k)"
    from 1(1) [OF True _ c(2) _ refl _ _ _ rec] c k_def obtain ms where ms: "r = (acc @ [?m]) @ ms"
      "drop (off + 2 + k) payload = batch_bytes ms" "batch_messages_ok ms" "length (acc @ [?m]) + length ms \<le> MAX_BATCH_MESSAGES"
      by auto
    have lm: "length ?m = k" using c by simp
    have two: "[payload ! off, payload ! (off + 1)] = slice payload off (off + 2)"
      using c slice_one [of off payload] slice_one [of "Suc off" payload] slice_join [of off "Suc off" "off + 2" payload] by simp
    have "be_bytes 2 k = [payload ! off, payload ! (off + 1)]"
      using be_bytes_of_be [of "[payload ! off, payload ! (off + 1)]"] by (simp add: k_def numeral_2_eq_2)
    then have "drop off payload = be_bytes 2 (length ?m) @ ?m @ batch_bytes ms"
      using drop_split [of off "off + 2" payload] drop_split [of "off + 2" "off + 2 + k" payload] ms(2) lm two by simp
    moreover have "k \<le> u16_max" using of_be_two_bound by (simp add: k_def)
    ultimately show ?thesis using ms lm c(4) by (intro exI [of _ "?m # ms"]) auto
  qed
qed

lemma batch_dec_frame: "batch_legal ms u \<Longrightarrow> decode_batch_payload (batch_bytes ms) = Ok ms"
  using batch_loop_frame [of ms "[]" "[]"]
  by (cases ms) (auto simp: decode_batch_payload_def batch_legal_def s2_consts usize_max_def)

lemma batch_dec_only: "decode_batch_payload b = Ok ms \<Longrightarrow> \<exists>u. batch_legal ms u \<and> b = batch_bytes ms"
  using batch_loop_only [of b 0 "[]" ms]
  by (auto simp: decode_batch_payload_def batch_legal_def split: if_splits)

interpretation batched: layered_codec s2_wire "\<lambda>d. decode_datagram d mtu" "s2_legal mtu"
    "\<lambda>ms _. batch_bytes ms" decode_batch_payload batch_legal for mtu
  by unfold_locales (rule batch_dec_frame, assumption, rule batch_dec_only)

lemma decode_batched_stack:
  "decode_batched_datagram d mtu = stack_dec (\<lambda>d. decode_datagram d mtu) decode_batch_payload d"
  by (simp add: decode_batched_datagram_def split: result.splits)

section \<open>Encoding\<close>

lemma s2_validate_path_mtu_iff: "s2_validate_path_mtu mtu = Ok () \<longleftrightarrow> 7 \<le> mtu \<and> mtu \<le> u16_max"
  by (simp add: s2_validate_path_mtu_def s2_consts u16_max_def)

lemma s2_validate_payload_Ok:
  "s2_validate_payload_for_path n mtu = Ok m \<longleftrightarrow> 0 < n \<and> n + 7 \<le> mtu \<and> mtu \<le> u16_max \<and> m = n + 7"
  by (auto simp: s2_validate_payload_for_path_def s2_validate_path_mtu_def s2_consts u16_max_def checked_add_def
      usize_max_def split: result.splits option.splits if_splits)

lemma s2_magic_length: "length MORPHOLOGY_MAGIC = 2"
  by (simp add: MORPHOLOGY_MAGIC_def)

lemmas s2_layout = header7_layout [OF s2_magic_length, where v = MORPHOLOGY_VERSION]
lemmas s2_layout_padding = header7_padding [OF s2_magic_length, where v = MORPHOLOGY_VERSION]

lemma encode_datagram_wire:
  assumes R: "rng_ok R" and p: "pl \<noteq> []" "length pl + 7 \<le> t" "t \<le> mtu" "mtu \<le> u16_max"
    and fill: "fill_bytes R (t - (length pl + 7)) g = (Some pad, g1)"
  shows "encode_datagram_with_rng_into R pl t mtu buf g = (Ok (), s2_wire pl pad, g1)"
    and "t = 7 + length pl + length pad"
proof -
  have len: "length pad = t - (length pl + 7)" using rng_ok_fill [OF R fill] .
  then show t: "t = 7 + length pl + length pad" using p by simp
  have v: "s2_validate_payload_for_path (length pl) mtu = Ok (length pl + 7)"
    using p by (simp add: s2_validate_payload_Ok)
  have z: "resize (s2_wipe_prepare buf t) t = replicate t 0" by (simp add: s2_wipe_prepare_def resize_def)
  have m: "length (MORPHOLOGY_MAGIC @ [MORPHOLOGY_VERSION] @ be_bytes 2 (length pl) @ be_bytes 2 t @ pl
      @ replicate (t - (length pl + 7)) 0) - (length pl + 7) = t - (length pl + 7)"
    by (simp add: s2_magic_length)
  have "\<not> (mtu < t \<or> MAX_MORPHOLOGY_DATAGRAM_BYTES < t)" "\<not> t < length pl + 7" "\<not> u16_max < t"
    using p by (auto simp: s2_consts u16_max_def)
  then show "encode_datagram_with_rng_into R pl t mtu buf g = (Ok (), s2_wire pl pad, g1)"
    unfolding encode_datagram_with_rng_into_def v result.case Let_def z s2_layout [OF p(2)] m fill prod.case option.case
      s2_layout_padding [OF len]
    by (simp add: s2_wire_def t MORPHOLOGY_HEADER_BYTES_def)
qed

lemma encode_datagram_Err: "encode_datagram_with_rng_into R pl t mtu buf g = (Err e, d, g') \<Longrightarrow> d = []"
  by (auto simp: encode_datagram_with_rng_into_def Let_def split: result.splits if_splits prod.splits option.splits)

section \<open>The chosen size\<close>

text \<open>The sizes a profile can give a payload: its classes clipped to the path, when they hold the
  payload, or the smallest envelope.\<close>

definition shape_sizes :: "morphology_profile \<Rightarrow> nat \<Rightarrow> nat \<Rightarrow> nat set" where
  "shape_sizes p minimum mtu = insert minimum {s. minimum \<le> s \<and> (\<exists>c\<in>set (size_classes p). s = min c mtu)}"

lemma eligible_weighted_all:
  "\<forall>x\<in>set el. P (fst x) \<Longrightarrow> \<forall>c\<in>set cs. minimum \<le> min (fst c) mtu \<longrightarrow> P (min (fst c) mtu) \<Longrightarrow>
   \<forall>x\<in>set (eligible_weighted minimum mtu cs el). P (fst x)"
proof (induction minimum mtu cs el rule: eligible_weighted.induct)
  case (2 minimum mtu c w cs el)
  let ?ec = "min c mtu"
  have tl: "\<forall>c\<in>set cs. minimum \<le> min (fst c) mtu \<longrightarrow> P (min (fst c) mtu)" using "2.prems"(2) by simp
  consider "w = 0 \<or> ?ec < minimum" | "w \<noteq> 0" "minimum \<le> ?ec" "el \<noteq> []" "fst (last el) = ?ec"
    | "w \<noteq> 0" "minimum \<le> ?ec" "\<not> (el \<noteq> [] \<and> fst (last el) = ?ec)" by linarith
  then show ?case
  proof cases
    case 1
    with "2.IH"(1,2) "2.prems"(1) tl show ?thesis by (cases "w = 0") (simp_all add: Let_def)
  next
    case 2
    then have "P ?ec" using "2.prems"(2) by simp
    then have "\<forall>x\<in>set (butlast el @ [(?ec, sat_add u32_max (snd (last el)) w)]). P (fst x)"
      using "2.prems"(1) by (auto dest: in_set_butlastD)
    moreover have nl: "\<not> ?ec < minimum" using 2 by linarith
    ultimately have "\<forall>x\<in>set (eligible_weighted minimum mtu cs (butlast el @ [(?ec, sat_add u32_max (snd (last el)) w)])). P (fst x)"
      using 2 tl by (intro "2.IH"(3) [OF _ refl nl]) simp_all
    moreover have "eligible_weighted minimum mtu ((c, w) # cs) el
        = eligible_weighted minimum mtu cs (butlast el @ [(?ec, sat_add u32_max (snd (last el)) w)])"
      unfolding eligible_weighted.simps Let_def using 2 nl by (simp only: if_True if_False simp_thms)
    ultimately show ?thesis by simp
  next
    case 3
    then have "\<forall>x\<in>set (el @ [(?ec, w)]). P (fst x)" using "2.prems" by auto
    moreover have nl: "\<not> ?ec < minimum" using 3 by linarith
    ultimately have "\<forall>x\<in>set (eligible_weighted minimum mtu cs (el @ [(?ec, w)])). P (fst x)"
      if "length el \<noteq> MAX_PROFILE_SIZE_CLASSES" using 3 tl that by (intro "2.IH"(4) [OF _ refl nl]) simp_all
    moreover have "eligible_weighted minimum mtu ((c, w) # cs) el
        = (if length el = MAX_PROFILE_SIZE_CLASSES then el else eligible_weighted minimum mtu cs (el @ [(?ec, w)]))"
      unfolding eligible_weighted.simps Let_def using 3 nl by (simp only: if_True if_False simp_thms)
    ultimately show ?thesis using "2.prems"(1) by simp
  qed
qed simp

lemma pick_weighted_mem: "pick_weighted cs s = Some c \<Longrightarrow> c \<in> fst ` set cs"
  by (induction cs s rule: pick_weighted.induct) (auto split: if_splits)

lemma sample_weighted_mem:
  assumes "sample_weighted_size_class R (size_classes p) ws minimum mtu g = (s, g')"
  shows "s \<in> shape_sizes p minimum mtu"
proof -
  let ?el = "eligible_weighted minimum mtu (zip (size_classes p) ws) []"
  have sub: "fst ` set ?el \<subseteq> shape_sizes p minimum mtu"
    using eligible_weighted_all [of "[]" "\<lambda>s. s \<in> shape_sizes p minimum mtu" "zip (size_classes p) ws" minimum mtu]
    by (force simp: shape_sizes_def dest: set_zip_leftD)
  have "s = minimum \<or> s \<in> fst ` set ?el"
  proof (cases "?el = []")
    case True
    with assms show ?thesis by (simp add: sample_weighted_size_class_def)
  next
    case False
    then have "fst (last ?el) \<in> fst ` set ?el" by simp
    with assms show ?thesis
      by (auto simp: sample_weighted_size_class_def Let_def dest: pick_weighted_mem
          split: if_splits prod.splits option.splits)
  qed
  then show ?thesis using sub by (auto simp: shape_sizes_def)
qed

lemma eligible_uniform_set:
  "set (eligible_uniform minimum mtu cs el) \<subseteq> set el \<union> {s. minimum \<le> s \<and> s \<le> mtu \<and> s \<in> set cs}"
  by (induction minimum mtu cs el rule: eligible_uniform.induct) auto

lemma sample_uniform_mem:
  assumes R: "rng_ok R" and "sample_uniform_size_class R (size_classes p) minimum mtu g = (s, g')"
  shows "s \<in> shape_sizes p minimum mtu"
proof -
  let ?el = "eligible_uniform minimum mtu (size_classes p) []"
  have sub: "set ?el \<subseteq> shape_sizes p minimum mtu"
    using eligible_uniform_set [of minimum mtu "size_classes p" "[]"] by (force simp: shape_sizes_def min_def)
  show ?thesis
  proof (cases "?el = []")
    case True
    with assms(2) show ?thesis by (simp add: sample_uniform_size_class_def shape_sizes_def)
  next
    case False
    obtain i g1 where i: "gen_range R 0 (length ?el - 1) g = (i, g1)" by fastforce
    with rng_ok_range [OF R i] False have "i < length ?el" by (cases ?el) auto
    with assms(2) False i have "s \<in> set ?el" by (auto simp: sample_uniform_size_class_def Let_def)
    with sub show ?thesis by blast
  qed
qed

lemma morphology_target_size_Ok:
  assumes R: "rng_ok R" and v: "0 < n" "n + 7 \<le> mtu" "mtu \<le> u16_max"
  obtains t g where "morphology_target_size R e n mtu = (Ok t, e\<lparr>me_rng := g\<rparr>)" "n + 7 \<le> t" "t \<le> mtu"
    "size_histogram e = None \<Longrightarrow> t \<in> shape_sizes (me_profile e) (n + 7) mtu"
proof -
  have v': "s2_validate_payload_for_path n mtu = Ok (n + 7)" using v by (simp add: s2_validate_payload_Ok)
  obtain s g where s: "(case size_histogram e of
                   Some h \<Rightarrow> sample_bin h (me_rng e)
                 | None \<Rightarrow>
                     (case size_class_weights (me_profile e) of
                        Some weights \<Rightarrow>
                          sample_weighted_size_class R (size_classes (me_profile e)) weights (n + 7) mtu (me_rng e)
                      | None \<Rightarrow> sample_uniform_size_class R (size_classes (me_profile e)) (n + 7) mtu (me_rng e))) = (s, g)"
    by fastforce
  have eq: "morphology_target_size R e n mtu = (Ok (min (max s (n + 7)) mtu), e\<lparr>me_rng := g\<rparr>)"
    unfolding morphology_target_size_def v' result.case s by simp
  have "min (max s (n + 7)) mtu \<in> shape_sizes (me_profile e) (n + 7) mtu" if "size_histogram e = None"
  proof -
    have "s \<in> shape_sizes (me_profile e) (n + 7) mtu"
      using s that sample_uniform_mem [OF R] sample_weighted_mem by (auto split: option.splits)
    moreover then have "n + 7 \<le> s" "s \<le> mtu" using v by (auto simp: shape_sizes_def)
    ultimately show ?thesis by simp
  qed
  with that [OF eq] v show thesis by simp
qed

lemma engine_encode_Ok:
  assumes R: "rng_ok R" and fills: "\<forall>n g. fst (fill_bytes R n g) \<noteq> None"
    and p: "pl \<noteq> []" "length pl + 7 \<le> mtu" "mtu \<le> u16_max"
  obtains d e' pad where "engine_encode R e pl mtu = (Ok d, e')" "d = s2_wire pl pad" "s2_legal mtu pl pad"
    "size_histogram e = None \<Longrightarrow> length d \<in> shape_sizes (me_profile e) (length pl + 7) mtu"
    "me_profile e' = me_profile e" "size_histogram e' = size_histogram e"
proof -
  obtain t g where t: "morphology_target_size R e (length pl) mtu = (Ok t, e\<lparr>me_rng := g\<rparr>)" "length pl + 7 \<le> t" "t \<le> mtu"
    "size_histogram e = None \<Longrightarrow> t \<in> shape_sizes (me_profile e) (length pl + 7) mtu"
    using morphology_target_size_Ok [OF R _ p(2,3), of e] p(1) by (metis length_greater_0_conv)
  obtain pad g1 where f: "fill_bytes R (t - (length pl + 7)) g = (Some pad, g1)"
    using fills by (metis not_None_eq prod.collapse)
  note w = encode_datagram_wire [OF R p(1) t(2,3) p(3) f]
  define e' where "e' = (let e2 = e\<lparr>me_rng := g1\<rparr> in if metrics_enabled e2
      then e2\<lparr>me_metrics := metrics_record (me_metrics e2) (length pl) t\<rparr> else e2)"
  have "engine_encode R e pl mtu = (Ok (s2_wire pl pad), e')"
    by (simp add: engine_encode_def engine_encode_into_def t(1) w(1) Let_def e'_def)
  moreover have "s2_legal mtu pl pad" using w(2) t p by (simp add: s2_legal_def MORPHOLOGY_HEADER_BYTES_def)
  moreover have "length (s2_wire pl pad) = t" using w(2) t p by (simp add: s2_wire_fields)
  moreover have "me_profile e' = me_profile e" "size_histogram e' = size_histogram e" by (simp_all add: e'_def Let_def)
  ultimately show thesis using that t(4) by metis
qed

section \<open>Properties\<close>

text \<open>C29. The batched decoder accepts exactly the datagrams that carry a batch: a payload envelope within the
  path MTU whose payload is the concatenation of between 1 and 32 length-prefixed non-empty messages, with any
  padding; and it returns those messages.  Every truncated, overlong, empty or miscounted encoding is refused.\<close>

theorem decode_batched_exact:
  "decode_batched_datagram d mtu = Ok ms \<longleftrightarrow>
     (\<exists>pad. d = s2_wire (batch_bytes ms) pad \<and> mtu \<le> u16_max \<and> 7 + length (batch_bytes ms) + length pad \<le> mtu
        \<and> ms \<noteq> [] \<and> length ms \<le> 32 \<and> (\<forall>m\<in>set ms. m \<noteq> [] \<and> length m \<le> u16_max))"
proof -
  have "decode_batched_datagram d mtu = Ok ms \<longleftrightarrow>
      (\<exists>qp. stack_legal (s2_legal mtu) (\<lambda>ms _. batch_bytes ms) batch_legal ms qp
        \<and> d = stack_frame s2_wire (\<lambda>ms _. batch_bytes ms) ms qp)"
    unfolding decode_batched_stack by (rule batched.stacked.dec_accepts_iff)
  also have "\<dots> \<longleftrightarrow> (\<exists>pad. d = s2_wire (batch_bytes ms) pad \<and> mtu \<le> u16_max \<and> 7 + length (batch_bytes ms) + length pad \<le> mtu
        \<and> ms \<noteq> [] \<and> length ms \<le> 32 \<and> (\<forall>m\<in>set ms. m \<noteq> [] \<and> length m \<le> u16_max))"
    by (auto simp: stack_legal_def stack_frame_def s2_legal_def batch_legal_def batch_messages_ok_def s2_consts u16_max_def)
  finally show ?thesis .
qed

theorem decode_batched_exact_witness:
  "decode_batched_datagram (s2_wire (batch_bytes [[1, 2], [3]]) [0, 0]) 1200 = Ok [[1, 2], [3]]"
  unfolding decode_batched_exact by (intro exI [of _ "[0, 0]"]) (simp add: u16_max_def)

text \<open>Sending a batch: a batch that fits the path is always encoded, whatever the profile and the state of
  the generator; the datagram decodes back to the same messages in the same order, it is never longer than
  the path MTU, and, unless an empirical histogram was installed, its length is one of the size classes of the
  profile clipped to the path or the smallest envelope that holds the batch.\<close>

lemma batch_roundtrip:
  assumes R: "rng_ok R" and fills: "\<forall>n g. fst (fill_bytes R n g) \<noteq> None"
    and ms: "ms \<noteq> []" "length ms \<le> 32" "\<forall>m\<in>set ms. m \<noteq> [] \<and> length m \<le> u16_max"
    and fits: "length (batch_bytes ms) + 7 \<le> mtu" "mtu \<le> u16_max"
  shows "\<exists>d e'. encode_batched_datagram R e ms mtu = (Ok d, e') \<and> decode_batched_datagram d mtu = Ok ms
     \<and> length d \<le> mtu
     \<and> (size_histogram e = None \<longrightarrow> length d \<in> shape_sizes (me_profile e) (length (batch_bytes ms) + 7) mtu)"
proof -
  have ok: "batch_messages_ok ms" using ms(3) by (simp add: batch_messages_ok_def)
  have "batch_total 0 ms = Ok (length (batch_bytes ms))"
    using batch_total_Ok [of 0 ms] ok fits by (simp add: usize_max_def u16_max_def)
  then have enc: "encode_batch_payload ms mtu = Ok (batch_bytes ms)"
    using ms fits s2_validate_path_mtu_iff [of mtu] by (simp add: encode_batch_payload_def s2_consts)
  have ne: "batch_bytes ms \<noteq> []" using ms(1) by simp
  from engine_encode_Ok [OF R fills ne fits] obtain d e' pad where e: "engine_encode R e (batch_bytes ms) mtu = (Ok d, e')"
    "d = s2_wire (batch_bytes ms) pad" "s2_legal mtu (batch_bytes ms) pad"
    "size_histogram e = None \<Longrightarrow> length d \<in> shape_sizes (me_profile e) (length (batch_bytes ms) + 7) mtu" by metis
  have l: "batch_legal ms ()" using ms ok fits by (simp add: batch_legal_def s2_consts u16_max_def)
  have "decode_batched_datagram d mtu = Ok ms"
    using e(2) s2_decode_wire [OF e(3)] batch_dec_frame [OF l] by (simp add: decode_batched_datagram_def)
  moreover have "length d \<le> mtu" using e(2,3) fits s2_wire_fields(1) by (simp add: s2_legal_def s2_consts)
  ultimately show ?thesis using e enc by (simp add: encode_batched_datagram_def)
qed

end
