(* ===== verification/Shroud2_Adaptive.thy ===== *)
theory Shroud2_Adaptive
  imports Shroud2
begin

text \<open>
  The stateful clients of the Shroud 2 engine: \<open>MorphologyBatcher\<close> and \<open>AdaptiveMorphologyEngine\<close> of
  \<open>shph-transport/src/shroud2/mod.rs\<close> and \<open>WorkloadMorphology\<close> of \<open>shph-transport/src/shroud2/workload.rs\<close>.
  An \<open>Instant\<close> is a number of nanoseconds from a fixed origin, so that \<open>saturating_duration_since\<close> is
  subtraction of natural numbers.
\<close>

section \<open>The batcher\<close>

record batch_policy =
  bp_max_messages :: usize
  bp_max_wait :: duration

definition batch_policy_new :: "usize \<Rightarrow> duration \<Rightarrow> batch_policy result" where
  "batch_policy_new max_messages max_wait =
     (if \<not> (1 \<le> max_messages \<and> max_messages \<le> MAX_BATCH_MESSAGES)
        then Err (Config (''morphology batch message limit must be between 1 and '' @ show_nat MAX_BATCH_MESSAGES))
      else if MAX_BATCH_WAIT < max_wait
        then Err (Config (''morphology batch wait must not exceed '' @ show_nat (MAX_BATCH_WAIT div 1000000) @ '' milliseconds''))
      else Ok \<lparr>bp_max_messages = max_messages, bp_max_wait = max_wait\<rparr>)"

fun recommended :: "morphology_profile \<Rightarrow> batch_policy" where
  "recommended LowLatency = \<lparr>bp_max_messages = 4, bp_max_wait = from_millis 2\<rparr>"
| "recommended WebBrowsingLab = \<lparr>bp_max_messages = 8, bp_max_wait = from_millis 10\<rparr>"
| "recommended VideoStreamingLab = \<lparr>bp_max_messages = 8, bp_max_wait = from_millis 20\<rparr>"
| "recommended VideoStreamingLargePayloadLab = \<lparr>bp_max_messages = 8, bp_max_wait = from_millis 20\<rparr>"
| "recommended VideoStreamingBalancedPayloadLab = \<lparr>bp_max_messages = 8, bp_max_wait = from_millis 20\<rparr>"
| "recommended BulkLab = \<lparr>bp_max_messages = MAX_BATCH_MESSAGES, bp_max_wait = from_millis 50\<rparr>"
| "recommended TunedLowLatency = \<lparr>bp_max_messages = 6, bp_max_wait = from_millis 2\<rparr>"
| "recommended TunedWebBrowsingLab = \<lparr>bp_max_messages = 10, bp_max_wait = from_millis 8\<rparr>"
| "recommended TunedVideoStreamingLab = \<lparr>bp_max_messages = 8, bp_max_wait = from_millis 16\<rparr>"
| "recommended TunedBulkLab = \<lparr>bp_max_messages = MAX_BATCH_MESSAGES, bp_max_wait = from_millis 40\<rparr>"

definition batch_policy_default :: batch_policy where
  "batch_policy_default = \<lparr>bp_max_messages = MAX_BATCH_MESSAGES, bp_max_wait = MAX_BATCH_WAIT\<rparr>"

record batcher =
  b_messages :: "bytes list"
  encoded_payload_bytes :: usize
  b_policy :: batch_policy
  first_message_at :: "duration option"

definition batcher_with_policy :: "batch_policy \<Rightarrow> batcher" where
  "batcher_with_policy policy =
     \<lparr>b_messages = [], encoded_payload_bytes = 0, b_policy = policy, first_message_at = None\<rparr>"

definition batcher_new :: batcher where
  "batcher_new = batcher_with_policy batch_policy_default"

definition batcher_for_profile :: "morphology_profile \<Rightarrow> batcher" where
  "batcher_for_profile profile = batcher_with_policy (recommended profile)"

definition is_due_at :: "batcher \<Rightarrow> duration \<Rightarrow> duration \<Rightarrow> bool" where
  "is_due_at b now started_at \<longleftrightarrow> bp_max_wait (b_policy b) \<le> now - started_at"

definition is_due :: "batcher \<Rightarrow> duration \<Rightarrow> bool" where
  "is_due b now = (case first_message_at b of None \<Rightarrow> False | Some started_at \<Rightarrow> is_due_at b now started_at)"

definition time_until_due :: "batcher \<Rightarrow> duration \<Rightarrow> duration option" where
  "time_until_due b now =
     map_option (\<lambda>started_at. bp_max_wait (b_policy b) - (now - started_at)) (first_message_at b)"

definition flush :: "batcher \<Rightarrow> bytes list option \<times> batcher" where
  "flush b =
     (if b_messages b = [] then (None, b)
      else (Some (b_messages b), b\<lparr>encoded_payload_bytes := 0, first_message_at := None, b_messages := []\<rparr>))"

definition flush_if_due :: "batcher \<Rightarrow> duration \<Rightarrow> bytes list option \<times> batcher" where
  "flush_if_due b now = (if is_due b now then flush b else (None, b))"

definition push_without_flush :: "batcher \<Rightarrow> bytes \<Rightarrow> duration \<Rightarrow> unit result \<times> batcher" where
  "push_without_flush b message now =
     (let b1 = (if b_messages b = [] then b\<lparr>first_message_at := Some now\<rparr> else b) in
      case checked_add usize_max BATCH_MESSAGE_LENGTH_BYTES (length message) of
        None \<Rightarrow> (Err (Protocol ''batch message length overflow''), b1)
      | Some n \<Rightarrow>
          (case checked_add usize_max (encoded_payload_bytes b1) n of
             None \<Rightarrow> (Err (Protocol ''morphology batch length overflow''), b1)
           | Some enc \<Rightarrow> (Ok (), b1\<lparr>encoded_payload_bytes := enc, b_messages := b_messages b1 @ [message]\<rparr>)))"

text \<open>\<open>None\<close> is \<open>Buffered\<close>, \<open>Some batch\<close> is \<open>Flush(batch)\<close>.\<close>

definition push_at :: "batcher \<Rightarrow> bytes \<Rightarrow> usize \<Rightarrow> duration \<Rightarrow> bytes list option result \<times> batcher" where
  "push_at b message path_mtu now =
     (case s2_validate_path_mtu path_mtu of Err e \<Rightarrow> (Err e, b) | Ok _ \<Rightarrow>
     (case validate_batch_message message of Err e \<Rightarrow> (Err e, b) | Ok _ \<Rightarrow>
      let maximum = path_mtu - MORPHOLOGY_HEADER_BYTES in
     (case checked_add usize_max BATCH_MESSAGE_LENGTH_BYTES (length message) of
        None \<Rightarrow> (Err (Protocol ''batch message length overflow''), b)
      | Some message_bytes \<Rightarrow>
      if maximum < message_bytes
        then (Err (Protocol ''batch message exceeds the negotiated datagram limit''), b)
      else (case checked_add usize_max (encoded_payload_bytes b) message_bytes of
        None \<Rightarrow> (Err (Protocol ''morphology batch length overflow''), b)
      | Some next_bytes \<Rightarrow>
          if b_messages b \<noteq> []
             \<and> (is_due b now \<or> bp_max_messages (b_policy b) \<le> length (b_messages b) \<or> maximum < next_bytes)
          then (case flush b of
                  (None, b1) \<Rightarrow> (Err (Protocol ''morphology batch state became inconsistent''), b1)
                | (Some flushed, b1) \<Rightarrow>
                    (case push_without_flush b1 message now of
                       (Err e, b2) \<Rightarrow> (Err e, b2) | (Ok _, b2) \<Rightarrow> (Ok (Some flushed), b2)))
          else (case push_without_flush b message now of
                  (Err e, b2) \<Rightarrow> (Err e, b2) | (Ok _, b2) \<Rightarrow> (Ok None, b2))))))"

section \<open>The adaptive engine\<close>

record adaptive_config =
  interactive_enter :: usize
  interactive_exit :: usize
  video_enter :: usize
  video_exit :: usize
  bulk_enter :: usize
  bulk_exit :: usize

definition adaptive_validate :: "adaptive_config \<Rightarrow> unit result" where
  "adaptive_validate c =
     (if interactive_enter c \<le> interactive_exit c \<or> video_exit c \<le> interactive_enter c
         \<or> video_enter c \<le> video_exit c \<or> bulk_exit c \<le> video_enter c \<or> bulk_enter c \<le> bulk_exit c
        then Err (Config ''adaptive morphology thresholds must be ordered with hysteresis'')
      else Ok ())"

definition adaptive_config_new ::
    "usize \<Rightarrow> usize \<Rightarrow> usize \<Rightarrow> usize \<Rightarrow> usize \<Rightarrow> usize \<Rightarrow> adaptive_config result" where
  "adaptive_config_new ie ix ve vx be bx =
     (let config = \<lparr>interactive_enter = ie, interactive_exit = ix, video_enter = ve, video_exit = vx,
        bulk_enter = be, bulk_exit = bx\<rparr>
      in map_ok (\<lambda>_. config) (adaptive_validate config))"

definition adaptive_config_default :: adaptive_config where
  "adaptive_config_default = \<lparr>interactive_enter = 192, interactive_exit = 128, video_enter = 900, video_exit = 640,
     bulk_enter = 1350, bulk_exit = 1100\<rparr>"

record 'g adaptive_engine =
  ae_engine :: "'g morphology_engine"
  ae_config :: adaptive_config
  ewma_payload :: usize
  ae_switches :: u64

definition adaptive_new :: "adaptive_config \<Rightarrow> 'g \<Rightarrow> 'g adaptive_engine result" where
  "adaptive_new config g =
     map_ok (\<lambda>_. \<lparr>ae_engine = morphology_engine_new TunedLowLatency g, ae_config = config,
       ewma_payload = 0, ae_switches = 0\<rparr>) (adaptive_validate config)"

definition ewma_step :: "usize \<Rightarrow> usize \<Rightarrow> usize" where
  "ewma_step ewma payload_len =
     (let adjustment = div_ceil (abs_diff payload_len ewma) 4 in
      if ewma \<le> payload_len then sat_add usize_max ewma adjustment else ewma - adjustment)"

fun next_profile :: "adaptive_config \<Rightarrow> usize \<Rightarrow> morphology_profile \<Rightarrow> morphology_profile option" where
  "next_profile c ewma TunedLowLatency =
     (if interactive_enter c \<le> ewma then Some TunedWebBrowsingLab else None)"
| "next_profile c ewma TunedWebBrowsingLab =
     (if ewma \<le> interactive_exit c then Some TunedLowLatency
      else if video_enter c \<le> ewma then Some TunedVideoStreamingLab else None)"
| "next_profile c ewma TunedVideoStreamingLab =
     (if ewma \<le> video_exit c then Some TunedWebBrowsingLab
      else if bulk_enter c \<le> ewma then Some TunedBulkLab else None)"
| "next_profile c ewma TunedBulkLab =
     (if ewma \<le> bulk_exit c then Some TunedVideoStreamingLab else None)"
| "next_profile c ewma profile = None"

definition observe_payload :: "usize \<Rightarrow> 'g adaptive_engine \<Rightarrow> 'g adaptive_engine" where
  "observe_payload payload_len a =
     (let a1 = a\<lparr>ewma_payload := ewma_step (ewma_payload a) payload_len\<rparr> in
      case next_profile (ae_config a1) (ewma_payload a1) (me_profile (ae_engine a1)) of
        None \<Rightarrow> a1
      | Some profile \<Rightarrow> a1\<lparr>ae_engine := set_profile profile (ae_engine a1),
          ae_switches := sat_add u64_max (ae_switches a1) 1\<rparr>)"

definition adaptive_encode_into ::
    "'g rng \<Rightarrow> 'g adaptive_engine \<Rightarrow> bytes \<Rightarrow> usize \<Rightarrow> bytes \<Rightarrow> unit result \<times> bytes \<times> 'g adaptive_engine" where
  "adaptive_encode_into R a payload path_mtu datagram =
     (case s2_validate_payload_for_path (length payload) path_mtu of
        Err e \<Rightarrow> (Err e, [], a)
      | Ok _ \<Rightarrow>
          let a1 = observe_payload (length payload) a in
          (case engine_encode_into R (ae_engine a1) payload path_mtu datagram of
             (r, d, e) \<Rightarrow> (r, d, a1\<lparr>ae_engine := e\<rparr>)))"

definition adaptive_encode ::
    "'g rng \<Rightarrow> 'g adaptive_engine \<Rightarrow> bytes \<Rightarrow> usize \<Rightarrow> bytes result \<times> 'g adaptive_engine" where
  "adaptive_encode R a payload path_mtu =
     (case adaptive_encode_into R a payload path_mtu [] of
        (Err e, _, a1) \<Rightarrow> (Err e, a1) | (Ok _, d, a1) \<Rightarrow> (Ok d, a1))"

section \<open>The workload engine\<close>

record workload_config =
  wc_minimum_dwell :: duration
  wc_burst_gap :: duration
  wc_burst_threshold :: u32
  wc_queue_age_limit :: duration
  use_arrivals :: bool
  use_queue_age :: bool

definition workload_config_default :: workload_config where
  "workload_config_default = \<lparr>wc_minimum_dwell = from_millis 100, wc_burst_gap = from_millis 5, wc_burst_threshold = 8,
     wc_queue_age_limit = from_millis 10, use_arrivals = True, use_queue_age = True\<rparr>"

definition workload_validate :: "workload_config \<Rightarrow> unit result" where
  "workload_validate c =
     (if from_millis 60000 < wc_minimum_dwell c \<or> wc_burst_gap c = 0 \<or> from_millis 1000 < wc_burst_gap c
         \<or> \<not> (2 \<le> wc_burst_threshold c \<and> wc_burst_threshold c \<le> 1024)
         \<or> wc_queue_age_limit c = 0 \<or> from_millis 1000 < wc_queue_age_limit c
        then Err (Config ''invalid workload adaptation bounds'')
      else Ok ())"

datatype s2_transition_reason = PayloadReason | BurstReason | QueueAgeReason

record workload_metrics =
  wm_observations :: u64
  wm_switches :: u64
  wm_payload_transitions :: u64
  wm_burst_transitions :: u64
  wm_queue_age_transitions :: u64
  wm_dwell_suppressed :: u64
  wm_burst_length :: u32
  wm_last_reason :: "s2_transition_reason option"

definition workload_metrics_default :: workload_metrics where
  "workload_metrics_default = \<lparr>wm_observations = 0, wm_switches = 0, wm_payload_transitions = 0,
     wm_burst_transitions = 0, wm_queue_age_transitions = 0, wm_dwell_suppressed = 0, wm_burst_length = 0,
     wm_last_reason = None\<rparr>"

record 'g workload_morphology =
  wl_engine :: "'g morphology_engine"
  wl_config :: workload_config
  wl_thresholds :: adaptive_config
  wl_last_observation :: "duration option"
  wl_last_switch :: "duration option"
  wl_ewma :: usize
  wl_metrics :: workload_metrics

definition workload_new :: "workload_config \<Rightarrow> 'g \<Rightarrow> 'g workload_morphology result" where
  "workload_new config g =
     map_ok (\<lambda>_. \<lparr>wl_engine = morphology_engine_new TunedLowLatency g, wl_config = config,
       wl_thresholds = adaptive_config_default, wl_last_observation = None, wl_last_switch = None,
       wl_ewma = 0, wl_metrics = workload_metrics_default\<rparr>) (workload_validate config)"

definition workload_burst :: "'g workload_morphology \<Rightarrow> duration \<Rightarrow> u32" where
  "workload_burst w at =
     (if \<exists>lst\<in>set_option (wl_last_observation w). at - lst \<le> wc_burst_gap (wl_config w)
        then min (sat_add u32_max (wm_burst_length (wl_metrics w)) 1) 1024 else 1)"

text \<open>The profile and the reason that the observations call for, before the dwell time is enforced.\<close>

definition workload_wanted ::
    "'g workload_morphology \<Rightarrow> usize \<Rightarrow> duration \<Rightarrow> duration \<Rightarrow> morphology_profile \<times> s2_transition_reason" where
  "workload_wanted w payload_len at age =
     (let burst = workload_burst w at;
          ewma = ewma_step (wl_ewma w) payload_len;
          current = me_profile (wl_engine w);
          t = wl_thresholds w;
          nr = (case next_profile t ewma current of None \<Rightarrow> current | Some p \<Rightarrow> p, PayloadReason);
          nr = (if use_arrivals (wl_config w) \<and> wc_burst_threshold (wl_config w) \<le> burst \<and> video_enter t \<le> ewma
                then (TunedBulkLab, BurstReason) else nr)
      in if use_queue_age (wl_config w) \<and> wc_queue_age_limit (wl_config w) \<le> age
         then (TunedLowLatency, QueueAgeReason) else nr)"

definition workload_suppressed :: "'g workload_morphology \<Rightarrow> morphology_profile \<Rightarrow> duration \<Rightarrow> bool" where
  "workload_suppressed w wanted at \<longleftrightarrow>
     (let origin = (case wl_last_switch w of Some t \<Rightarrow> t
          | None \<Rightarrow> (case wl_last_observation w of Some t \<Rightarrow> t | None \<Rightarrow> at))
      in wanted \<noteq> me_profile (wl_engine w) \<and> at - origin < wc_minimum_dwell (wl_config w))"

definition workload_count :: "s2_transition_reason \<Rightarrow> workload_metrics \<Rightarrow> workload_metrics" where
  "workload_count reason m =
     (let m1 = m\<lparr>wm_switches := sat_add u64_max (wm_switches m) 1\<rparr>;
          m2 = (case reason of
            PayloadReason \<Rightarrow> m1\<lparr>wm_payload_transitions := sat_add u64_max (wm_payload_transitions m1) 1\<rparr>
          | BurstReason \<Rightarrow> m1\<lparr>wm_burst_transitions := sat_add u64_max (wm_burst_transitions m1) 1\<rparr>
          | QueueAgeReason \<Rightarrow> m1\<lparr>wm_queue_age_transitions := sat_add u64_max (wm_queue_age_transitions m1) 1\<rparr>)
      in m2\<lparr>wm_last_reason := Some reason\<rparr>)"

text \<open>The assignments at the end of a successful \<open>encode\<close>.\<close>

definition workload_commit ::
    "'g workload_morphology \<Rightarrow> usize \<Rightarrow> duration \<Rightarrow> bool \<Rightarrow> s2_transition_reason \<Rightarrow> bool \<Rightarrow> 'g morphology_engine
      \<Rightarrow> 'g workload_morphology" where
  "workload_commit w payload_len at switched reason suppressed e =
     (let m1 = (if switched then workload_count reason (wl_metrics w) else wl_metrics w);
          m2 = m1\<lparr>wm_burst_length := workload_burst w at,
            wm_observations := sat_add u64_max (wm_observations m1) 1,
            wm_dwell_suppressed := sat_add u64_max (wm_dwell_suppressed m1) (if suppressed then 1 else 0)\<rparr>
      in w\<lparr>wl_engine := e,
           wl_last_switch := (if wl_last_switch w = None \<or> switched then Some at else wl_last_switch w),
           wl_ewma := ewma_step (wl_ewma w) payload_len, wl_last_observation := Some at, wl_metrics := m2\<rparr>)"

definition workload_encode ::
    "'g rng \<Rightarrow> 'g workload_morphology \<Rightarrow> bytes \<Rightarrow> usize \<Rightarrow> duration \<Rightarrow> duration
      \<Rightarrow> bytes result \<times> 'g workload_morphology" where
  "workload_encode R w payload path_mtu at age =
     (case s2_validate_payload_for_path (length payload) path_mtu of Err x \<Rightarrow> (Err x, w) | Ok _ \<Rightarrow>
      if (\<exists>lst\<in>set_option (wl_last_observation w). at < lst) \<or> at < age
        then (Err (InvalidArgument ''nonmonotonic or impossible workload observation''), w)
      else
        let current = me_profile (wl_engine w);
            (wanted, reason) = workload_wanted w (length payload) at age;
            suppressed = workload_suppressed w wanted at;
            nxt = (if suppressed then current else wanted)
        in case engine_encode R (set_profile nxt (wl_engine w)) payload path_mtu of
             (Err x, e) \<Rightarrow> (Err x, w\<lparr>wl_engine := set_profile current e\<rparr>)
           | (Ok d, e) \<Rightarrow> (Ok d, workload_commit w (length payload) at (nxt \<noteq> current) reason suppressed e))"

section \<open>The batcher as an ordered buffer\<close>

definition policy_ok :: "batch_policy \<Rightarrow> bool" where
  "policy_ok p \<longleftrightarrow> 1 \<le> bp_max_messages p \<and> bp_max_messages p \<le> MAX_BATCH_MESSAGES \<and> bp_max_wait p \<le> MAX_BATCH_WAIT"

definition batcher_inv :: "usize \<Rightarrow> batcher \<Rightarrow> bool" where
  "batcher_inv mtu b \<longleftrightarrow> policy_ok (b_policy b) \<and> 7 \<le> mtu \<and> mtu \<le> u16_max
     \<and> length (b_messages b) \<le> bp_max_messages (b_policy b) \<and> batch_messages_ok (b_messages b)
     \<and> encoded_payload_bytes b = length (batch_bytes (b_messages b))
     \<and> encoded_payload_bytes b \<le> mtu - 7 \<and> (first_message_at b = None \<longleftrightarrow> b_messages b = [])"

lemma batch_policy_new_ok: "batch_policy_new n t = Ok p \<Longrightarrow> policy_ok p"
  by (auto simp: batch_policy_new_def policy_ok_def split: if_splits)

lemma recommended_ok: "policy_ok (recommended profile)"
  by (cases profile) (simp_all add: policy_ok_def MAX_BATCH_MESSAGES_def MAX_BATCH_WAIT_def from_millis_def)

lemma batcher_with_policy_inv: "policy_ok p \<Longrightarrow> 7 \<le> mtu \<Longrightarrow> mtu \<le> u16_max \<Longrightarrow> batcher_inv mtu (batcher_with_policy p)"
  by (simp add: batcher_inv_def batcher_with_policy_def policy_ok_def)

lemma push_without_flush_Ok:
  assumes "7 \<le> mtu" "mtu \<le> u16_max" "m \<noteq> []" "length m \<le> u16_max" "policy_ok (b_policy b)" "batch_messages_ok (b_messages b)"
    and "encoded_payload_bytes b = length (batch_bytes (b_messages b))"
    and "encoded_payload_bytes b + (2 + length m) \<le> mtu - 7" "length (b_messages b) < bp_max_messages (b_policy b)"
    and "first_message_at b = None \<longleftrightarrow> b_messages b = []"
  obtains b' where "push_without_flush b m now = (Ok (), b')" "b_messages b' = b_messages b @ [m]" "batcher_inv mtu b'"
proof
  let ?b = "(if b_messages b = [] then b\<lparr>first_message_at := Some now\<rparr> else b)
    \<lparr>encoded_payload_bytes := encoded_payload_bytes b + (2 + length m), b_messages := b_messages b @ [m]\<rparr>"
  have small: "encoded_payload_bytes b + (2 + length m) \<le> usize_max" using assms by (simp add: usize_max_def u16_max_def)
  then show "push_without_flush b m now = (Ok (), ?b)"
    by (auto simp: push_without_flush_def Let_def checked_add_def BATCH_MESSAGE_LENGTH_BYTES_def)
  show "b_messages ?b = b_messages b @ [m]" by simp
  show "batcher_inv mtu ?b"
    using assms by (auto simp: batcher_inv_def batch_messages_ok_def)
qed

text \<open>A push that is too long, or empty, is refused and leaves the batcher as it was; every other push is accepted.\<close>

lemma push_at_refused:
  assumes "m = [] \<or> mtu - 7 < 2 + length m"
  shows "\<exists>e. push_at b m mtu now = (Err e, b)"
  using assms by (auto simp: push_at_def validate_batch_message_def Let_def s2_consts checked_add_def split: result.splits option.splits)

lemma push_at_accepted:
  assumes i: "batcher_inv mtu b" and "m \<noteq> []" and fit: "2 + length m \<le> mtu - 7"
  shows "\<exists>out b'. push_at b m mtu now = (Ok out, b') \<and> batcher_inv mtu b'
     \<and> (case out of None \<Rightarrow> [] | Some batch \<Rightarrow> batch) @ b_messages b' = b_messages b @ [m]
     \<and> (\<forall>batch\<in>set_option out. batch = b_messages b \<and> batch \<noteq> [])"
proof -
  have m: "m \<noteq> []" "length m \<le> u16_max" using assms by (auto simp: batcher_inv_def)
  have mtu: "7 \<le> mtu" "mtu \<le> u16_max" and po: "policy_ok (b_policy b)" using i by (auto simp: batcher_inv_def)
  have v: "s2_validate_path_mtu mtu = Ok ()" "validate_batch_message m = Ok ()"
    using mtu m by (simp_all add: s2_validate_path_mtu_iff validate_batch_message_iff)
  have c: "checked_add usize_max 2 (length m) = Some (2 + length m)"
    "checked_add usize_max (encoded_payload_bytes b) (2 + length m) = Some (encoded_payload_bytes b + (2 + length m))"
    using i m by (auto simp: checked_add_def usize_max_def batcher_inv_def u16_max_def)
  have nl: "(mtu - 7 < 2 + length m) = False" using fit by simp
  let ?full = "b_messages b \<noteq> [] \<and> (is_due b now \<or> bp_max_messages (b_policy b) \<le> length (b_messages b)
      \<or> mtu - 7 < encoded_payload_bytes b + (2 + length m))"
  have eq: "push_at b m mtu now = (if ?full then
        (case flush b of (None, b1) \<Rightarrow> (Err (Protocol ''morphology batch state became inconsistent''), b1)
         | (Some flushed, b1) \<Rightarrow> (case push_without_flush b1 m now of
             (Err e, b2) \<Rightarrow> (Err e, b2) | (Ok _, b2) \<Rightarrow> (Ok (Some flushed), b2)))
      else (case push_without_flush b m now of (Err e, b2) \<Rightarrow> (Err e, b2) | (Ok _, b2) \<Rightarrow> (Ok None, b2)))"
    unfolding push_at_def v result.case Let_def MORPHOLOGY_HEADER_BYTES_def BATCH_MESSAGE_LENGTH_BYTES_def c option.case nl if_False ..
  show ?thesis
  proof (cases ?full)
    case True
    let ?b1 = "b\<lparr>encoded_payload_bytes := 0, first_message_at := None, b_messages := []\<rparr>"
    obtain b2 where "push_without_flush ?b1 m now = (Ok (), b2)" "b_messages b2 = [m]" "batcher_inv mtu b2"
      by (rule push_without_flush_Ok [OF mtu m, of ?b1 now]) (use po fit in \<open>auto simp: policy_ok_def\<close>)
    with True eq show ?thesis by (auto simp: flush_def)
  next
    case False
    have room: "encoded_payload_bytes b + (2 + length m) \<le> mtu - 7" "length (b_messages b) < bp_max_messages (b_policy b)"
      using False i fit by (auto simp: batcher_inv_def policy_ok_def)
    obtain b2 where "push_without_flush b m now = (Ok (), b2)" "b_messages b2 = b_messages b @ [m]" "batcher_inv mtu b2"
      by (rule push_without_flush_Ok [OF mtu m po _ _ room]) (use i in \<open>auto simp: batcher_inv_def\<close>)
    with False eq show ?thesis by (auto split: if_splits)
  qed
qed

datatype batch_op = Push bytes duration | Flush | FlushIfDue duration

text \<open>One call: whether it succeeded, the batch it handed out, and the batcher it left behind, also when it failed.\<close>

fun batch_step :: "usize \<Rightarrow> batcher \<Rightarrow> batch_op \<Rightarrow> bool \<times> bytes list \<times> batcher" where
  "batch_step mtu b (Push m now) = (case push_at b m mtu now of
     (Err e, b') \<Rightarrow> (False, [], b') | (Ok out, b') \<Rightarrow> (True, case out of None \<Rightarrow> [] | Some batch \<Rightarrow> batch, b'))"
| "batch_step mtu b Flush = (case flush b of (out, b') \<Rightarrow> (True, case out of None \<Rightarrow> [] | Some batch \<Rightarrow> batch, b'))"
| "batch_step mtu b (FlushIfDue now) = (case flush_if_due b now of (out, b') \<Rightarrow> (True, case out of None \<Rightarrow> [] | Some batch \<Rightarrow> batch, b'))"

fun pushed :: "batch_op \<Rightarrow> bytes list" where
  "pushed (Push m now) = [m]"
| "pushed Flush = []"
| "pushed (FlushIfDue now) = []"

fun push_fits :: "usize \<Rightarrow> batch_op \<Rightarrow> bool" where
  "push_fits mtu (Push m now) = (m \<noteq> [] \<and> 2 + length m \<le> mtu - 7)"
| "push_fits mtu Flush = True"
| "push_fits mtu (FlushIfDue now) = True"

definition batch_sendable :: "usize \<Rightarrow> bytes list \<Rightarrow> bool" where
  "batch_sendable mtu batch \<longleftrightarrow> encode_batch_payload batch mtu = Ok (batch_bytes batch)"

lemma batcher_content_sendable: "batcher_inv mtu b \<Longrightarrow> b_messages b \<noteq> [] \<Longrightarrow> batch_sendable mtu (b_messages b)"
proof -
  assume i: "batcher_inv mtu b" and ne: "b_messages b \<noteq> []"
  have "batch_total 0 (b_messages b) = Ok (length (batch_bytes (b_messages b)))"
    using i by (subst batch_total_Ok) (auto simp: batcher_inv_def usize_max_def u16_max_def)
  moreover have "s2_validate_path_mtu mtu = Ok ()" using i by (simp add: s2_validate_path_mtu_iff batcher_inv_def)
  ultimately show ?thesis using i ne
    by (auto simp: batch_sendable_def encode_batch_payload_def batcher_inv_def policy_ok_def s2_consts)
qed

lemma flush_step:
  assumes "batcher_inv mtu b" and "flush b = (out, b')"
  shows "batcher_inv mtu b' \<and> (case out of None \<Rightarrow> [] | Some batch \<Rightarrow> batch) = b_messages b \<and> b_messages b' = []"
  using assms by (auto simp: flush_def batcher_inv_def split: if_splits)

lemma batch_step_laws:
  assumes i: "batcher_inv mtu b" and s: "batch_step mtu b i = (ok, out, b')"
  shows "batcher_inv mtu b' \<and> ok = push_fits mtu i \<and> out @ b_messages b' = b_messages b @ (if push_fits mtu i then pushed i else [])
     \<and> (out \<noteq> [] \<longrightarrow> out = b_messages b)"
proof (cases i)
  case (Push m now)
  show ?thesis
  proof (cases "push_fits mtu i")
    case True
    then obtain o' b1 where "push_at b m mtu now = (Ok o', b1)" "batcher_inv mtu b1"
      "(case o' of None \<Rightarrow> [] | Some batch \<Rightarrow> batch) @ b_messages b1 = b_messages b @ [m]"
      "\<forall>batch\<in>set_option o'. batch = b_messages b \<and> batch \<noteq> []"
      using push_at_accepted [OF i, of m now] Push by auto
    with True s Push show ?thesis by (cases o') auto
  next
    case False
    then have "m = [] \<or> mtu - 7 < 2 + length m" using Push by auto
    from push_at_refused [OF this] obtain e where "push_at b m mtu now = (Err e, b)" by blast
    with False s Push i show ?thesis by auto
  qed
next
  case Flush
  with s flush_step [OF i] show ?thesis by (auto split: prod.splits)
next
  case (FlushIfDue now)
  with s flush_step [OF i] i show ?thesis by (auto simp: flush_if_due_def split: prod.splits if_splits)
qed

interpretation bb: fifo_buffer "batch_step mtu" b_messages pushed "push_fits mtu" "batcher_inv mtu" "batch_sendable mtu" for mtu
proof unfold_locales
  fix s i ok out s'
  assume i: "batcher_inv mtu s" and "batch_step mtu s i = (ok, out, s')"
  note laws = batch_step_laws [OF this]
  show "batcher_inv mtu s'" "ok = push_fits mtu i" "out @ b_messages s' = b_messages s @ (if push_fits mtu i then pushed i else [])"
    using laws by blast+
  assume "out \<noteq> []"
  then show "batch_sendable mtu out" using laws batcher_content_sendable [OF i] by simp
qed

section \<open>Convergence of the moving average\<close>

lemma ewma_step_up: "e \<le> n \<Longrightarrow> n \<le> usize_max \<Longrightarrow> ewma_step e n = e + (n - e + 3) div 4"
  by (auto simp: ewma_step_def abs_diff_def div_ceil_def sat_add_def Let_def min_def)

lemma ewma_step_down: "n < e \<Longrightarrow> ewma_step e n = e - (e - n + 3) div 4"
  by (auto simp: ewma_step_def abs_diff_def div_ceil_def Let_def)

lemma ewma_step_closer:
  assumes "n \<le> usize_max" and "e \<noteq> n"
  shows "abs_diff n (ewma_step e n) < abs_diff n e"
proof (cases "e < n")
  case True
  then obtain d where d: "n = e + d" "0 < d" using less_imp_add_positive by blast
  then have "1 \<le> (d + 3) div 4" "(d + 3) div 4 \<le> d" by linarith+
  with ewma_step_up [of e n] assms d show ?thesis by (simp add: abs_diff_def)
next
  case False
  with assms obtain d where d: "e = n + d" "0 < d" using less_imp_add_positive [of n e] by auto
  then have "1 \<le> (d + 3) div 4" "(d + 3) div 4 \<le> d" by linarith+
  with ewma_step_down [of n e] d show ?thesis by (simp add: abs_diff_def)
qed

lemma ewma_step_fix: "n \<le> usize_max \<Longrightarrow> ewma_step n n = n"
  by (simp add: ewma_step_up)

lemma ewma_converges:
  assumes n: "n \<le> usize_max" and k: "abs_diff n e \<le> k"
  shows "((\<lambda>e. ewma_step e n) ^^ k) e = n"
  using k
proof (induction k arbitrary: e)
  case 0
  then show ?case by (auto simp: abs_diff_def split: if_splits)
next
  case (Suc k)
  show ?case
  proof (cases "e = n")
    case True
    with Suc.IH [of n] show ?thesis by (simp add: funpow_Suc_right ewma_step_fix [OF n] abs_diff_def del: funpow.simps(2))
  next
    case False
    from ewma_step_closer [OF n this] Suc.prems have "abs_diff n (ewma_step e n) \<le> k" by simp
    from Suc.IH [OF this] show ?thesis by (simp add: funpow_Suc_right del: funpow.simps(2))
  qed
qed

lemma next_profile_no_return:
  "adaptive_validate c = Ok () \<Longrightarrow> next_profile c e p = Some q \<Longrightarrow> next_profile c e q \<noteq> Some p"
  by (cases p) (auto simp: adaptive_validate_def split: if_splits)

text \<open>The rank of a tuned profile, and the rank that an average calls for from it.\<close>

fun settle :: "adaptive_config \<Rightarrow> usize \<Rightarrow> morphology_profile \<Rightarrow> morphology_profile" where
  "settle c e p = (case next_profile c e p of None \<Rightarrow> p | Some q \<Rightarrow> q)"

declare settle.simps [simp del]

lemma settle_thrice:
  assumes "adaptive_validate c = Ok ()" and "3 \<le> k"
  shows "(settle c e ^^ k) p = (settle c e ^^ 3) p"
proof -
  have fix3: "settle c e ((settle c e ^^ 3) p) = (settle c e ^^ 3) p"
    using assms(1) by (cases p) (auto simp: settle.simps numeral_3_eq_3 adaptive_validate_def split: if_splits)
  have "(settle c e ^^ j) ((settle c e ^^ 3) p) = (settle c e ^^ 3) p" for j
    by (induction j) (simp_all only: funpow.simps o_apply id_apply fix3)
  then show ?thesis using assms(2) by (metis funpow_add le_add_diff_inverse2 o_apply)
qed

lemma observe_payload_fields:
  "ewma_payload (observe_payload n a) = ewma_step (ewma_payload a) n"
  "ae_config (observe_payload n a) = ae_config a"
  "me_profile (ae_engine (observe_payload n a))
     = settle (ae_config a) (ewma_step (ewma_payload a) n) (me_profile (ae_engine a))"
  by (simp_all add: observe_payload_def Let_def set_profile_def settle.simps split: option.split)

lemma observe_payload_run:
  "ewma_payload ((observe_payload n ^^ k) a) = ((\<lambda>e. ewma_step e n) ^^ k) (ewma_payload a)"
  "ae_config ((observe_payload n ^^ k) a) = ae_config a"
  by (induction k) (simp_all add: observe_payload_fields)

lemma observe_payload_settled:
  "ewma_payload a = n \<Longrightarrow> n \<le> usize_max \<Longrightarrow>
   me_profile (ae_engine ((observe_payload n ^^ k) a)) = (settle (ae_config a) n ^^ k) (me_profile (ae_engine a))"
proof (induction k arbitrary: a)
  case (Suc k)
  have "ewma_payload (observe_payload n a) = n" using Suc.prems by (simp add: observe_payload_fields ewma_step_fix)
  from Suc.IH [OF this Suc.prems(2)] Suc.prems show ?case
    by (simp add: funpow_Suc_right observe_payload_fields ewma_step_fix del: funpow.simps(2))
qed simp

section \<open>Properties of the batcher and the adaptive engine\<close>

text \<open>C30. The batcher loses, duplicates and reorders nothing.  Over any sequence of pushes, flushes and timed
  flushes at a fixed path MTU, a push succeeds precisely when its message is not empty and fits a datagram of its own, a refused
  push costs nothing that is buffered, the released batches followed by what is still buffered are exactly the messages
  of the successful pushes in the order they were pushed, and every released batch is accepted by \<open>encode_batch_payload\<close>
  for that MTU.\<close>

theorem batcher_keeps_order:
  assumes p: "policy_ok policy" and mtu: "7 \<le> mtu" "mtu \<le> u16_max"
    and run: "run_buffer (batch_step mtu) (batcher_with_policy policy) ops = (oks, outs, b)"
  shows "oks = map (push_fits mtu) ops \<and> concat outs @ b_messages b = concat (map pushed (filter (push_fits mtu) ops))
     \<and> (\<forall>batch\<in>set outs. batch \<noteq> [] \<longrightarrow> encode_batch_payload batch mtu = Ok (batch_bytes batch))"
  using bb.run_keeps_order [OF batcher_with_policy_inv [OF p mtu] run]
  by (auto simp: batcher_with_policy_def batch_sendable_def)

theorem batcher_keeps_order_witness:
  "case run_buffer (batch_step 64) (batcher_with_policy \<lparr>bp_max_messages = 2, bp_max_wait = 10\<rparr>)
      [Push [1] 0, Push [] 1, Push [2] 1, Push [3] 2, FlushIfDue 3] of
     (oks, outs, b) \<Rightarrow> oks = [True, False, True, True, True] \<and> concat outs @ b_messages b = [[1], [2], [3]]"
proof -
  obtain oks outs b where r: "run_buffer (batch_step 64) (batcher_with_policy \<lparr>bp_max_messages = 2, bp_max_wait = 10\<rparr>)
      [Push [1] 0, Push [] 1, Push [2] 1, Push [3] 2, FlushIfDue 3] = (oks, outs, b)" by (metis prod_cases3)
  have "policy_ok \<lparr>bp_max_messages = 2, bp_max_wait = 10\<rparr>"
    by (simp add: policy_ok_def MAX_BATCH_MESSAGES_def MAX_BATCH_WAIT_def from_millis_def)
  from batcher_keeps_order [OF this _ _ r] show ?thesis unfolding r by (simp add: u16_max_def)
qed

text \<open>No message waits in the batcher past its deadline once the batcher is polled: after
  \<open>flush_if_due\<close> at time \<open>now\<close>, or after a push at that time, the oldest message still buffered has
  waited less than the policy's bound, or was pushed at this very call.\<close>

lemma batcher_deadline:
  assumes "batcher_inv mtu b" and "0 < bp_max_wait (b_policy b)"
  shows "(\<forall>t\<in>set_option (first_message_at (snd (flush_if_due b now))). now - t < bp_max_wait (b_policy b))
     \<and> (push_at b m mtu now = (Ok out, b') \<longrightarrow>
          (\<forall>t\<in>set_option (first_message_at b'). now - t < bp_max_wait (b_policy b)))"
proof (intro conjI impI)
  show "\<forall>t\<in>set_option (first_message_at (snd (flush_if_due b now))). now - t < bp_max_wait (b_policy b)"
    using assms(1) by (auto simp: flush_if_due_def flush_def is_due_def is_due_at_def batcher_inv_def split: option.splits)
  assume "push_at b m mtu now = (Ok out, b')"
  then show "\<forall>t\<in>set_option (first_message_at b'). now - t < bp_max_wait (b_policy b)"
    using assms by (auto simp: push_at_def Let_def flush_def push_without_flush_def is_due_def is_due_at_def batcher_inv_def
        split: result.splits option.splits if_splits prod.splits)
qed

definition sample_batcher :: batcher where
  "sample_batcher = \<lparr>b_messages = [[1, 2]], encoded_payload_bytes = 4, b_policy = \<lparr>bp_max_messages = 2, bp_max_wait = 10\<rparr>,
     first_message_at = Some 5\<rparr>"

text \<open>The adaptive engine settles.  When every payload has the same length, the moving average reaches
  exactly that length after at most as many observations as it was bytes away, and after three more
  observations the profile no longer changes: the hysteresis of a validated configuration rules out
  flapping.\<close>

lemma adaptive_settles:
  assumes n: "n \<le> usize_max" and c: "adaptive_validate (ae_config a) = Ok ()"
    and k: "abs_diff n (ewma_payload a) + 3 \<le> k"
  shows "ewma_payload ((observe_payload n ^^ k) a) = n
     \<and> me_profile (ae_engine ((observe_payload n ^^ k) a))
       = me_profile (ae_engine ((observe_payload n ^^ (abs_diff n (ewma_payload a) + 3)) a))"
proof -
  define d where "d = abs_diff n (ewma_payload a)"
  define b where "b = (observe_payload n ^^ d) a"
  have e: "ewma_payload b = n"
    using ewma_converges [OF n, of "ewma_payload a" d] by (simp add: b_def observe_payload_run d_def)
  have cb: "ae_config b = ae_config a" by (simp add: b_def observe_payload_run)
  have split: "(observe_payload n ^^ j) a = (observe_payload n ^^ (j - d)) b" if "d \<le> j" for j
    using that unfolding b_def by (metis funpow_add le_add_diff_inverse2 o_apply)
  have prof: "me_profile (ae_engine ((observe_payload n ^^ j) a)) = (settle (ae_config a) n ^^ (j - d)) (me_profile (ae_engine b))"
    if "d \<le> j" for j
    using split [OF that] observe_payload_settled [OF e n] cb by simp
  have "ewma_payload ((observe_payload n ^^ k) a) = n"
    using ewma_converges [OF n, of "ewma_payload a" k] k by (simp add: observe_payload_run)
  moreover have "me_profile (ae_engine ((observe_payload n ^^ k) a)) = me_profile (ae_engine ((observe_payload n ^^ (d + 3)) a))"
    using prof [of k] prof [of "d + 3"] settle_thrice [OF c, of "k - d" n] k by (simp add: d_def)
  ultimately show ?thesis by (simp add: d_def)
qed

definition sample_adaptive :: "nat adaptive_engine" where
  "sample_adaptive = \<lparr>ae_engine = morphology_engine_new TunedLowLatency 0, ae_config = adaptive_config_default,
     ewma_payload = 0, ae_switches = 0\<rparr>"

section \<open>Runs of the workload engine\<close>

inductive workload_reach :: "'g rng \<Rightarrow> workload_config \<Rightarrow> 'g workload_morphology \<Rightarrow> bool" for R c where
  workload_start: "workload_new c g = Ok w \<Longrightarrow> workload_reach R c w"
| workload_next: "workload_reach R c w \<Longrightarrow> workload_encode R w pl mtu at age = (r, w') \<Longrightarrow> workload_reach R c w'"

definition workload_inv :: "workload_config \<Rightarrow> 'g workload_morphology \<Rightarrow> bool" where
  "workload_inv c w \<longleftrightarrow> wl_config w = c \<and> workload_validate c = Ok ()
     \<and> size_histogram (wl_engine w) = None \<and> wm_burst_length (wl_metrics w) \<le> 1024
     \<and> (case wl_last_observation w of None \<Rightarrow> wl_last_switch w = None
          | Some t \<Rightarrow> \<exists>s. wl_last_switch w = Some s \<and> s \<le> t)"

lemma set_profile_fields [simp]:
  "me_profile (set_profile p e) = p" "size_histogram (set_profile p e) = None" "me_rng (set_profile p e) = me_rng e"
  by (simp_all add: set_profile_def)

lemma engine_encode_keeps:
  "engine_encode R e pl mtu = (r, e') \<Longrightarrow> me_profile e' = me_profile e \<and> size_histogram e' = size_histogram e
     \<and> metrics_enabled e' = metrics_enabled e \<and> (is_ok r \<or> me_metrics e' = me_metrics e)"
  by (auto simp: engine_encode_def engine_encode_into_def morphology_target_size_def Let_def
      split: prod.splits result.splits if_splits)

lemma workload_encode_Ok:
  assumes "workload_encode R w pl mtu at age = (Ok d, w')"
  obtains wanted reason e where "workload_wanted w (length pl) at age = (wanted, reason)"
    "engine_encode R (set_profile (if workload_suppressed w wanted at then me_profile (wl_engine w) else wanted) (wl_engine w)) pl mtu
       = (Ok d, e)"
    "w' = workload_commit w (length pl) at
       ((if workload_suppressed w wanted at then me_profile (wl_engine w) else wanted) \<noteq> me_profile (wl_engine w))
       reason (workload_suppressed w wanted at) e"
    "\<forall>t\<in>set_option (wl_last_observation w). t \<le> at" "age \<le> at"
    "s2_validate_payload_for_path (length pl) mtu = Ok (length pl + 7)"
  using assms that
  by (auto simp: workload_encode_def Let_def not_less s2_validate_payload_Ok split: result.splits if_splits prod.splits)

lemma workload_encode_Err:
  assumes "workload_encode R w pl mtu at age = (Err x, w')"
  shows "\<exists>g h. w' = w\<lparr>wl_engine := (wl_engine w)\<lparr>me_rng := g, size_histogram := h\<rparr>\<rparr> \<and> (h = None \<or> h = size_histogram (wl_engine w))"
proof (cases "w' = w")
  case True
  then show ?thesis by (intro exI [of _ "me_rng (wl_engine w)"] exI [of _ "size_histogram (wl_engine w)"]) simp
next
  case False
  with assms obtain p e where e: "engine_encode R (set_profile p (wl_engine w)) pl mtu = (Err x, e)"
    and w': "w' = w\<lparr>wl_engine := set_profile (me_profile (wl_engine w)) e\<rparr>"
    by (auto simp: workload_encode_def Let_def split: result.splits if_splits prod.splits)
  from engine_encode_keeps [OF e] have "me_metrics e = me_metrics (wl_engine w)" "metrics_enabled e = metrics_enabled (wl_engine w)"
    by (simp_all add: set_profile_def)
  then have "set_profile (me_profile (wl_engine w)) e = (wl_engine w)\<lparr>me_rng := me_rng e, size_histogram := None\<rparr>"
    by (cases e; cases "wl_engine w") (simp add: set_profile_def)
  with w' show ?thesis by metis
qed

lemma workload_reach_inv: "workload_reach R c w \<Longrightarrow> workload_inv c w"
proof (induction rule: workload_reach.induct)
  case (workload_start g w)
  then show ?case by (auto simp: workload_new_def workload_inv_def morphology_engine_new_def workload_metrics_default_def)
next
  case (workload_next w pl mtu at age r w')
  show ?case
  proof (cases r)
    case (Err x)
    from workload_encode_Err [OF workload_next.hyps(2) [unfolded Err]] obtain g h where
      "w' = w\<lparr>wl_engine := (wl_engine w)\<lparr>me_rng := g, size_histogram := h\<rparr>\<rparr>"
      "h = None \<or> h = size_histogram (wl_engine w)" by blast
    with workload_next.IH show ?thesis by (cases "wl_last_observation w") (auto simp: workload_inv_def)
  next
    case (Ok d)
    from workload_encode_Ok [OF workload_next.hyps(2) [unfolded Ok]] obtain sw reason sup e nxt where
      w': "w' = workload_commit w (length pl) at sw reason sup e"
      and e: "engine_encode R (set_profile nxt (wl_engine w)) pl mtu = (Ok d, e)"
      and mono: "\<forall>t\<in>set_option (wl_last_observation w). t \<le> at" by metis
    have "size_histogram e = None" using engine_encode_keeps [OF e] by simp
    moreover have "workload_burst w at \<le> 1024" by (simp add: workload_burst_def)
    ultimately show ?thesis using workload_next.IH mono
      by (auto simp: w' workload_inv_def workload_commit_def Let_def split: option.splits)
  qed
qed

section \<open>Properties of the workload engine\<close>

text \<open>Profile changes respect the dwell time.  In every state that a workload engine can reach, an encode
  that changes the profile happens at least \<open>minimum_dwell\<close> after the previous change (or after the first
  observation), is recorded as the new last switch, and counts one switch; an encode that keeps the profile
  leaves the time of the last switch alone once there is one.\<close>

lemma workload_dwell:
  assumes reach: "workload_reach R c w" and enc: "workload_encode R w pl mtu at age = (Ok d, w')"
  shows "if me_profile (wl_engine w') \<noteq> me_profile (wl_engine w)
    then (\<forall>t\<in>set_option (wl_last_switch w). t + wc_minimum_dwell c \<le> at)
      \<and> (wl_last_switch w = None \<longrightarrow> wc_minimum_dwell c = 0)
      \<and> wl_last_switch w' = Some at \<and> wm_switches (wl_metrics w') = sat_add u64_max (wm_switches (wl_metrics w)) 1
    else wl_last_switch w' = (if wl_last_switch w = None then Some at else wl_last_switch w)
      \<and> wm_switches (wl_metrics w') = wm_switches (wl_metrics w)"
proof -
  from workload_reach_inv [OF reach] have inv: "workload_inv c w" .
  obtain wanted reason e where e0: "engine_encode R (set_profile (if workload_suppressed w wanted at then me_profile (wl_engine w) else wanted) (wl_engine w)) pl mtu
       = (Ok d, e)"
    and w0: "w' = workload_commit w (length pl) at
       ((if workload_suppressed w wanted at then me_profile (wl_engine w) else wanted) \<noteq> me_profile (wl_engine w))
       reason (workload_suppressed w wanted at) e"
    and mono: "\<forall>t\<in>set_option (wl_last_observation w). t \<le> at" by (rule workload_encode_Ok [OF enc])
  let ?n = "if workload_suppressed w wanted at then me_profile (wl_engine w) else wanted"
  note e = e0 and w' = w0
  have prof: "me_profile (wl_engine w') = ?n"
    using engine_encode_keeps [OF e] by (simp add: w' workload_commit_def Let_def)
  show ?thesis
  proof (cases "?n = me_profile (wl_engine w)")
    case True
    then show ?thesis unfolding prof by (simp add: w' workload_commit_def Let_def)
  next
    case False
    then have ns: "\<not> workload_suppressed w wanted at" and ne: "wanted \<noteq> me_profile (wl_engine w)" by auto
    have "(\<forall>t\<in>set_option (wl_last_switch w). t + wc_minimum_dwell c \<le> at) \<and> (wl_last_switch w = None \<longrightarrow> wc_minimum_dwell c = 0)"
      using ns ne inv mono by (auto simp: workload_suppressed_def Let_def workload_inv_def not_less split: option.splits)
    moreover have "wm_switches (wl_metrics w') = sat_add u64_max (wm_switches (wl_metrics w)) 1"
      using False by (simp add: w' workload_commit_def workload_count_def Let_def split: s2_transition_reason.split)
    moreover have "wl_last_switch w' = Some at" using False by (simp add: w' workload_commit_def Let_def)
    ultimately show ?thesis unfolding prof using False by simp
  qed
qed

definition sample_workload :: "nat workload_morphology" where
  "sample_workload = \<lparr>wl_engine = morphology_engine_new TunedLowLatency 0, wl_config = workload_config_default,
     wl_thresholds = adaptive_config_default, wl_last_observation = None, wl_last_switch = None,
     wl_ewma = 0, wl_metrics = workload_metrics_default\<rparr>"

lemma sample_workload_reach: "workload_reach counter_rng workload_config_default sample_workload"
  by (rule workload_start [of _ 0])
    (simp add: workload_new_def sample_workload_def workload_validate_def workload_config_default_def from_millis_def)

lemma workload_encode_total:
  assumes R: "rng_ok R" and fills: "\<forall>n g. fst (fill_bytes R n g) \<noteq> None"
    and p: "pl \<noteq> []" "length pl + 7 \<le> mtu" "mtu \<le> u16_max" "age \<le> at" "\<forall>t\<in>set_option (wl_last_observation w). t \<le> at"
  shows "\<exists>d w'. workload_encode R w pl mtu at age = (Ok d, w') \<and> decode_datagram d mtu = Ok pl \<and> length d \<le> mtu
    \<and> length d \<in> shape_sizes (me_profile (wl_engine w')) (length pl + 7) mtu"
proof -
  obtain wanted reason where wr: "workload_wanted w (length pl) at age = (wanted, reason)" by fastforce
  define n where "n = (if workload_suppressed w wanted at then me_profile (wl_engine w) else wanted)"
  from engine_encode_Ok [OF R fills p(1,2,3), of "set_profile n (wl_engine w)"] obtain d e pad where
    e: "engine_encode R (set_profile n (wl_engine w)) pl mtu = (Ok d, e)" "d = s2_wire pl pad" "s2_legal mtu pl pad"
      "length d \<in> shape_sizes n (length pl + 7) mtu" "me_profile e = n" by (metis set_profile_fields(1,2))
  have v: "s2_validate_payload_for_path (length pl) mtu = Ok (length pl + 7)" using p by (simp add: s2_validate_payload_Ok)
  have ok: "\<not> ((\<exists>t\<in>set_option (wl_last_observation w). at < t) \<or> at < age)" using p by auto
  have "workload_encode R w pl mtu at age
      = (Ok d, workload_commit w (length pl) at (n \<noteq> me_profile (wl_engine w)) reason (workload_suppressed w wanted at) e)"
    unfolding workload_encode_def v result.case if_not_P [OF ok] wr Let_def prod.case n_def [symmetric] e(1) ..
  moreover have "decode_datagram d mtu = Ok pl" using s2_decode_wire [OF e(3)] e(2) by simp
  moreover have "length d \<le> mtu" using e(2,3) s2_wire_fields(1) by (simp add: s2_legal_def s2_consts)
  ultimately show ?thesis using e(4,5) by (auto simp: workload_commit_def Let_def)
qed

lemma counter_fills: "\<forall>n g. fst (fill_bytes counter_rng n g) \<noteq> None"
  by (simp add: counter_rng_def)

text \<open>Sending through the workload engine: in every reachable state a payload that fits the path, with a
  monotonic observation and a queue age that does not predate the session, is encoded, and the datagram
  decodes back to the payload, stays within the MTU and has a length of the profile that is in force
  after the call.  A refused or failed call changes nothing but the generator.\<close>

lemma workload_roundtrip:
  assumes R: "rng_ok R" and fills: "\<forall>n g. fst (fill_bytes R n g) \<noteq> None" and reach: "workload_reach R c w"
  shows "(pl \<noteq> [] \<and> length pl + 7 \<le> mtu \<and> mtu \<le> u16_max \<and> age \<le> at \<and> (\<forall>t\<in>set_option (wl_last_observation w). t \<le> at) \<longrightarrow>
      (\<exists>d w'. workload_encode R w pl mtu at age = (Ok d, w') \<and> decode_datagram d mtu = Ok pl \<and> length d \<le> mtu
        \<and> length d \<in> shape_sizes (me_profile (wl_engine w')) (length pl + 7) mtu))
    \<and> (\<forall>x w'. workload_encode R w pl mtu at age = (Err x, w') \<longrightarrow> (\<exists>g. w' = w\<lparr>wl_engine := (wl_engine w)\<lparr>me_rng := g\<rparr>\<rparr>))"
proof (intro conjI impI allI)
  assume "pl \<noteq> [] \<and> length pl + 7 \<le> mtu \<and> mtu \<le> u16_max \<and> age \<le> at \<and> (\<forall>t\<in>set_option (wl_last_observation w). t \<le> at)"
  then show "\<exists>d w'. workload_encode R w pl mtu at age = (Ok d, w') \<and> decode_datagram d mtu = Ok pl \<and> length d \<le> mtu
      \<and> length d \<in> shape_sizes (me_profile (wl_engine w')) (length pl + 7) mtu"
    using workload_encode_total [OF R fills] by blast
next
  fix x w'
  assume "workload_encode R w pl mtu at age = (Err x, w')"
  from workload_encode_Err [OF this] workload_reach_inv [OF reach] obtain g where
    "w' = w\<lparr>wl_engine := (wl_engine w)\<lparr>me_rng := g, size_histogram := None\<rparr>\<rparr>" "size_histogram (wl_engine w) = None"
    by (auto simp: workload_inv_def)
  then show "\<exists>g. w' = w\<lparr>wl_engine := (wl_engine w)\<lparr>me_rng := g\<rparr>\<rparr>"
    by (intro exI [of _ g]) (cases w, cases "wl_engine w", simp)
qed

end
