(* ===== verification/Onion.thy ===== *)
theory Onion
  imports Session_Cipher Framing Net
begin

text \<open>
  Onion circuits, \<open>shph-transport/src/onion.rs\<close>: relay descriptors, paths and relay policies, the open
  request that a client sends to each hop, the decision of a relay, the set-up of a whole circuit, and
  the byte quota that the two copying tasks of a relay share through one atomic counter.  TLS and the
  sockets are parameters; the two tasks are a step relation whose steps are the atomic operations.
\<close>

section \<open>Paths and policies\<close>

definition OPEN_MAGIC :: bytes where "OPEN_MAGIC = as_bytes ''SHONION1''"
definition OPEN_REQUEST_BYTES :: usize where "OPEN_REQUEST_BYTES = 8 + 32 + 1 + 16 + 2"
definition OPEN_OK :: bytes where "OPEN_OK = as_bytes ''OPEN''"
definition OPEN_DENIED :: bytes where "OPEN_DENIED = as_bytes ''NOPE''"
definition MAX_RELAY_HOPS :: usize where "MAX_RELAY_HOPS = 3"
definition MAX_TARGETS :: usize where "MAX_TARGETS = 64"
definition MAX_CIRCUITS :: usize where "MAX_CIRCUITS = 512"
definition MAX_CERTIFICATE_BYTES :: usize where "MAX_CERTIFICATE_BYTES = 16 * 1024"
definition MAX_CIRCUIT_BYTES :: u64 where "MAX_CIRCUIT_BYTES = 64 * 1024 * 1024"
definition RELAY_COPY_BUFFER_BYTES :: usize where "RELAY_COPY_BUFFER_BYTES = 8 * 1024"

record relay_hop =
  rh_endpoint :: socket_addr
  rh_server_name :: string
  rh_certificate :: bytes
  rh_token :: bytes

definition relay_hop_new :: "socket_addr \<Rightarrow> string \<Rightarrow> bytes \<Rightarrow> bytes \<Rightarrow> relay_hop result" where
  "relay_hop_new ep server_name certificate token =
     (if sa_port ep = 0 \<or> is_unspecified (sa_ip ep) \<or> str_trim server_name = [] \<or> 253 < length server_name
         \<or> certificate = [] \<or> MAX_CERTIFICATE_BYTES < length certificate
        then Err (Config ''invalid onion relay descriptor'')
      else Ok \<lparr>rh_endpoint = ep, rh_server_name = server_name, rh_certificate = certificate, rh_token = token\<rparr>)"

record onion_path =
  op_relays :: "relay_hop list"
  op_destination :: socket_addr

fun insert_endpoints :: "socket_addr set \<Rightarrow> relay_hop list \<Rightarrow> socket_addr set option" where
  "insert_endpoints seen [] = Some seen"
| "insert_endpoints seen (r # rs) =
     (if rh_endpoint r \<in> seen then None else insert_endpoints (insert (rh_endpoint r) seen) rs)"

definition onion_path_new :: "relay_hop list \<Rightarrow> socket_addr \<Rightarrow> onion_path result" where
  "onion_path_new relays destination =
     (if \<not> (2 \<le> length relays \<and> length relays \<le> MAX_RELAY_HOPS) \<or> sa_port destination = 0
         \<or> is_unspecified (sa_ip destination)
        then Err (Config ''onion path requires two or three pinned relays and a literal destination'')
      else case insert_endpoints {} relays of
        None \<Rightarrow> Err (Config ''onion path contains a repeated relay endpoint'')
      | Some seen \<Rightarrow>
          if destination \<in> seen then Err (Config ''onion destination must differ from every relay endpoint'')
          else Ok \<lparr>op_relays = relays, op_destination = destination\<rparr>)"

record relay_limits =
  max_circuits :: usize
  setup_timeout :: duration
  max_lifetime :: duration
  max_bytes_per_circuit :: u64

definition relay_limits_default :: relay_limits where
  "relay_limits_default = \<lparr>max_circuits = 32, setup_timeout = from_millis 10000, max_lifetime = from_millis 300000,
     max_bytes_per_circuit = MAX_CIRCUIT_BYTES\<rparr>"

definition relay_limits_validate :: "relay_limits \<Rightarrow> relay_limits result" where
  "relay_limits_validate l =
     (if max_circuits l = 0 \<or> MAX_CIRCUITS < max_circuits l
         \<or> setup_timeout l < from_millis 100 \<or> from_millis 30000 < setup_timeout l
         \<or> max_lifetime l < from_millis 1000 \<or> from_millis 3600000 < max_lifetime l
         \<or> max_bytes_per_circuit l = 0 \<or> 1024 * 1024 * 1024 < max_bytes_per_circuit l
        then Err (Config ''onion relay limits exceed supported bounds'')
      else Ok l)"

record relay_server_config =
  allowed_targets :: "socket_addr set"
  rs_token :: bytes
  rs_limits :: relay_limits

fun collect_targets :: "socket_addr set \<Rightarrow> socket_addr list \<Rightarrow> socket_addr set result" where
  "collect_targets seen [] = Ok seen"
| "collect_targets seen (t # ts) =
     (if sa_port t = 0 \<or> is_unspecified (sa_ip t)
        then Err (Config ''onion relay targets must use specific numeric addresses'')
      else if t \<notin> seen \<and> MAX_TARGETS \<le> card seen
        then Err (ResourceExhausted ''onion relay target allowlist exceeds 64 entries'')
      else collect_targets (insert t seen) ts)"

definition relay_server_config_new :: "bytes \<Rightarrow> socket_addr list \<Rightarrow> relay_limits \<Rightarrow> relay_server_config result" where
  "relay_server_config_new token targets limits =
     (case collect_targets {} targets of Err e \<Rightarrow> Err e | Ok target_set \<Rightarrow>
      if target_set = {} then Err (Config ''onion relay requires at least one allowed target'')
      else (case relay_limits_validate limits of Err e \<Rightarrow> Err e
        | Ok l \<Rightarrow> Ok \<lparr>allowed_targets = target_set, rs_token = token, rs_limits = l\<rparr>))"

section \<open>The open request\<close>

definition encode_open_request :: "socket_addr \<Rightarrow> bytes \<Rightarrow> bytes" where
  "encode_open_request target token =
     (let r = replicate OPEN_REQUEST_BYTES 0;
          r = write_at r 0 OPEN_MAGIC;
          r = write_at r 8 token;
          r = (case sa_ip target of
                 V4 octets \<Rightarrow> write_at (r[40 := 4]) 41 octets
               | V6 octets \<Rightarrow> write_at (r[40 := 6]) 41 octets)
      in write_at r 57 (be_bytes 2 (sa_port target)))"

definition parse_open_request :: "bytes \<Rightarrow> bytes \<Rightarrow> socket_addr option" where
  "parse_open_request request expected_token =
     (if slice request 0 8 \<noteq> OPEN_MAGIC \<or> \<not> constant_time_eq (slice request 8 40) expected_token then None
      else
        let family = request ! 40; address = slice request 41 57; port = of_be [request ! 57, request ! 58] in
        if port = 0 then None
        else case (if family = 4 \<and> (\<forall>b\<in>set (drop 4 address). b = 0)
                     then Some (V4 [address ! 0, address ! 1, address ! 2, address ! 3])
                   else if family = 6 then Some (V6 address) else None) of
          None \<Rightarrow> None
        | Some ip \<Rightarrow> if is_unspecified ip then None else Some \<lparr>sa_ip = ip, sa_port = port\<rparr>)"

text \<open>The decision of \<open>handle_relay_stream\<close> once the request is read: \<open>None\<close> closes the link without an answer;
  \<open>connect\<close> tells whether the target could be reached in time.\<close>

definition relay_answer :: "relay_server_config \<Rightarrow> (socket_addr \<Rightarrow> bool) \<Rightarrow> bytes \<Rightarrow> bytes option" where
  "relay_answer config connect request =
     (case parse_open_request request (rs_token config) of
        None \<Rightarrow> None
      | Some target \<Rightarrow>
          if target \<notin> allowed_targets config then Some OPEN_DENIED
          else if connect target then Some OPEN_OK else Some OPEN_DENIED)"

section \<open>Setting up a circuit\<close>

text \<open>\<open>link\<close> is the TLS connection to a hop with its identity and protocol checks, \<open>answer\<close> the reply of the
  relay behind it.\<close>

definition send_open_request ::
    "(relay_hop \<Rightarrow> bytes \<Rightarrow> bytes option) \<Rightarrow> relay_hop \<Rightarrow> socket_addr \<Rightarrow> unit result" where
  "send_open_request answer hop target =
     (case answer hop (encode_open_request target (rh_token hop)) of
        None \<Rightarrow> Err (Io ''unexpected end of file'')
      | Some response \<Rightarrow>
          if response \<noteq> OPEN_OK then Err (Transport ''onion relay refused the pinned path'') else Ok ())"

fun open_hops ::
    "(relay_hop \<Rightarrow> unit result) \<Rightarrow> (relay_hop \<Rightarrow> bytes \<Rightarrow> bytes option) \<Rightarrow> relay_hop list \<Rightarrow> socket_addr \<Rightarrow> unit result" where
  "open_hops link answer [] destination = Ok ()"
| "open_hops link answer (hop # hops) destination =
     (case link hop of Err e \<Rightarrow> Err e | Ok _ \<Rightarrow>
     (case send_open_request answer hop (case hops of [] \<Rightarrow> destination | nxt # _ \<Rightarrow> rh_endpoint nxt) of
        Err e \<Rightarrow> Err e | Ok _ \<Rightarrow> open_hops link answer hops destination))"

definition connect_stream_inner ::
    "(relay_hop \<Rightarrow> unit result) \<Rightarrow> (relay_hop \<Rightarrow> bytes \<Rightarrow> bytes option) \<Rightarrow> onion_path \<Rightarrow> unit result" where
  "connect_stream_inner link answer path =
     (if op_relays path = [] then Err (Config ''onion path has no entry relay'')
      else open_hops link answer (op_relays path) (op_destination path))"

section \<open>The shared byte quota\<close>

text \<open>The position of one copying task: waiting for input, having read \<open>n\<close> bytes, having loaded the
  counter, having reserved \<open>a\<close> of the \<open>n\<close> bytes, finished, out of quota, or broken by an input/output error.\<close>

datatype copy_pc = Reading | HaveRead nat | Loaded nat nat | Reserved nat nat | Finished | Exhausted | Broken

record relay_copy_state =
  copied :: u64
  pc :: "bool \<Rightarrow> copy_pc"
  written :: "bool \<Rightarrow> nat"

definition relay_copy_init :: relay_copy_state where
  "relay_copy_init = \<lparr>copied = 0, pc = (\<lambda>_. Reading), written = (\<lambda>_. 0)\<rparr>"

inductive copy_step :: "u64 \<Rightarrow> relay_copy_state \<Rightarrow> relay_copy_state \<Rightarrow> bool" for limit where
  read_some: "pc s d = Reading \<Longrightarrow> 0 < n \<Longrightarrow> n \<le> RELAY_COPY_BUFFER_BYTES \<Longrightarrow>
     copy_step limit s (s\<lparr>pc := (pc s)(d := HaveRead n)\<rparr>)"
| read_eof: "pc s d = Reading \<Longrightarrow> copy_step limit s (s\<lparr>pc := (pc s)(d := Finished)\<rparr>)"
| read_error: "pc s d = Reading \<Longrightarrow> copy_step limit s (s\<lparr>pc := (pc s)(d := Broken)\<rparr>)"
| load: "pc s d = HaveRead n \<Longrightarrow> copy_step limit s (s\<lparr>pc := (pc s)(d := Loaded n (copied s))\<rparr>)"
| no_quota: "pc s d = Loaded n c \<Longrightarrow> limit - c = 0 \<Longrightarrow> copy_step limit s (s\<lparr>pc := (pc s)(d := Exhausted)\<rparr>)"
| cas_success: "pc s d = Loaded n c \<Longrightarrow> limit - c \<noteq> 0 \<Longrightarrow> copied s = c \<Longrightarrow>
     copy_step limit s (s\<lparr>copied := c + min n (limit - c), pc := (pc s)(d := Reserved n (min n (limit - c)))\<rparr>)"
| cas_failure: "pc s d = Loaded n c \<Longrightarrow> limit - c \<noteq> 0 \<Longrightarrow>
     copy_step limit s (s\<lparr>pc := (pc s)(d := Loaded n (copied s))\<rparr>)"
| write_all: "pc s d = Reserved n a \<Longrightarrow>
     copy_step limit s (s\<lparr>written := (written s)(d := written s d + a),
       pc := (pc s)(d := if a \<noteq> n \<or> limit \<le> copied s then Exhausted else Reading)\<rparr>)"
| write_error: "pc s d = Reserved n a \<Longrightarrow> k \<le> a \<Longrightarrow>
     copy_step limit s (s\<lparr>written := (written s)(d := written s d + k), pc := (pc s)(d := Broken)\<rparr>)"

inductive copy_reach :: "u64 \<Rightarrow> relay_copy_state \<Rightarrow> bool" for limit where
  copy_start: "copy_reach limit relay_copy_init"
| copy_next: "copy_reach limit s \<Longrightarrow> copy_step limit s s' \<Longrightarrow> copy_reach limit s'"

section \<open>The request as a codec\<close>

fun ip_octets :: "ip_addr \<Rightarrow> bytes" where
  "ip_octets (V4 octets) = octets"
| "ip_octets (V6 octets) = octets"

fun ip_family :: "ip_addr \<Rightarrow> byte" where
  "ip_family (V4 octets) = 4"
| "ip_family (V6 octets) = 6"

definition target_ok :: "socket_addr \<Rightarrow> bool" where
  "target_ok t \<longleftrightarrow> addr_ok t \<and> sa_port t \<noteq> 0 \<and> \<not> is_unspecified (sa_ip t)"

lemma open_magic_length [simp]: "length OPEN_MAGIC = 8"
  by (simp add: OPEN_MAGIC_def)

lemma encode_open_layout:
  assumes "addr_ok t" and "length token = 32"
  shows "encode_open_request t token = OPEN_MAGIC @ token @ [ip_family (sa_ip t)] @ ip_octets (sa_ip t)
    @ replicate (16 - length (ip_octets (sa_ip t))) 0 @ be_bytes 2 (sa_port t)"
proof -
  have m: "write_at (replicate OPEN_REQUEST_BYTES 0) 0 OPEN_MAGIC = OPEN_MAGIC @ replicate 51 0"
    by (simp add: write_at_zero OPEN_REQUEST_BYTES_def)
  have t: "write_at (OPEN_MAGIC @ replicate 51 0) 8 token = (OPEN_MAGIC @ token) @ replicate 19 0"
    using assms(2) write_at_front [of OPEN_MAGIC 8 token 51 0] by simp
  have f: "(OPEN_MAGIC @ token @ replicate 19 0)[40 := x] = OPEN_MAGIC @ token @ x # replicate 18 0" for x :: byte
    using update_front [of "OPEN_MAGIC @ token" 40 19 0 x] assms(2) by simp
  have o: "write_at ((OPEN_MAGIC @ token @ [x]) @ replicate 18 0) 41 os = (OPEN_MAGIC @ token @ [x] @ os) @ replicate (18 - length os) 0"
    if "length os \<le> 18" for x :: byte and os
    using write_at_front [of "OPEN_MAGIC @ token @ [x]" 41 os 18 0] assms(2) that by simp
  have p: "write_at ((OPEN_MAGIC @ token @ [x] @ os) @ replicate (18 - length os) 0) 57 (be_bytes 2 pt)
      = OPEN_MAGIC @ token @ [x] @ os @ replicate (16 - length os) 0 @ be_bytes 2 pt"
    if "length os \<le> 16" for x :: byte and os pt
  proof -
    have "18 - length os = (16 - length os) + 2" using that by simp
    then have "replicate (18 - length os) (0 :: byte) = replicate (16 - length os) 0 @ replicate 2 0"
      by (simp only: replicate_add)
    then show ?thesis
      using write_at_front [of "OPEN_MAGIC @ token @ [x] @ os @ replicate (16 - length os) 0" 57 "be_bytes 2 pt" 2 0] assms(2) that
      by simp
  qed
  show ?thesis
  proof (cases "sa_ip t")
    case (V4 os)
    with assms have "length os = 4" by (simp add: addr_ok_def)
    then show ?thesis using V4 o [of os 4] p [of os 4] by (simp add: encode_open_request_def Let_def m t f)
  next
    case (V6 os)
    with assms have "length os = 16" by (simp add: addr_ok_def)
    then show ?thesis using V6 o [of os 6] p [of os 6] by (simp add: encode_open_request_def Let_def m t f)
  qed
qed

lemma take4: "4 \<le> length xs \<Longrightarrow> take 4 xs = [xs ! 0, xs ! 1, xs ! 2, xs ! 3]"
  by (auto simp: numeral_eq_Suc Suc_le_length_iff)

lemma request_bytes: "length r = 59 \<Longrightarrow> [r ! 57, r ! 58] = slice r 57 59 \<and> [r ! 40] = slice r 40 41"
  using slice_one [of 57 r] slice_one [of 58 r] slice_join [of 57 58 59 r] slice_one [of 40 r] by simp

lemma parse_encode_open:
  assumes t: "target_ok t" and tok: "length token = 32"
  shows "parse_open_request (encode_open_request t token) expected = (if expected = token then Some t else None)"
proof -
  let ?r = "encode_open_request t token" and ?o = "ip_octets (sa_ip t)"
  have a: "addr_ok t" and len: "length ?o \<le> 16" using t by (cases "sa_ip t"; simp add: target_ok_def addr_ok_def)+
  define addr where "addr = ?o @ replicate (16 - length ?o) 0"
  have r: "?r = OPEN_MAGIC @ token @ [ip_family (sa_ip t)] @ addr @ be_bytes 2 (sa_port t)" and la: "length addr = 16"
    using encode_open_layout [OF a tok] len by (simp_all add: addr_def)
  have m: "slice ?r 0 8 = OPEN_MAGIC" unfolding r by (rule slice_prefix) simp
  have k: "slice ?r 8 40 = token" unfolding r by (rule slice_append_mid) (simp_all add: tok)
  have l: "length ?r = 59" using tok la by (simp add: r)
  have "slice ?r 40 41 = [ip_family (sa_ip t)]"
    using slice_append_mid [of "OPEN_MAGIC @ token" 40 "[ip_family (sa_ip t)]" 41 "addr @ be_bytes 2 (sa_port t)"] tok r by simp
  then have fam: "?r ! 40 = ip_family (sa_ip t)" using request_bytes [OF l] by simp
  have ad: "slice ?r 41 57 = addr"
    using slice_append_mid [of "OPEN_MAGIC @ token @ [ip_family (sa_ip t)]" 41 addr 57 "be_bytes 2 (sa_port t)"] tok la r by simp
  have "slice ?r 57 59 = be_bytes 2 (sa_port t)"
    using slice_append_end [of "OPEN_MAGIC @ token @ [ip_family (sa_ip t)] @ addr" 57 "be_bytes 2 (sa_port t)" 59] tok la r by simp
  then have port: "of_be [?r ! 57, ?r ! 58] = sa_port t"
    using t of_be_be_bytes_id [of "sa_port t" 2] request_bytes [OF l] by (simp add: target_ok_def addr_ok_def)
  have v4: "[addr ! 0, addr ! 1, addr ! 2, addr ! 3] = os \<and> (\<forall>b\<in>set (drop 4 addr). b = 0)" if "sa_ip t = V4 os" for os
  proof -
    from that a have "length os = 4" by (simp add: addr_ok_def)
    then have "take 4 addr = os" "drop 4 addr = replicate 12 0" using that by (simp_all add: addr_def)
    then show ?thesis using take4 [of addr] la by simp
  qed
  have ip: "(if ip_family (sa_ip t) = 4 \<and> (\<forall>b\<in>set (drop 4 addr). b = 0) then Some (V4 [addr ! 0, addr ! 1, addr ! 2, addr ! 3])
      else if ip_family (sa_ip t) = 6 then Some (V6 addr) else None) = Some (sa_ip t)"
  proof (cases "sa_ip t")
    case (V4 os)
    with v4 [OF V4] show ?thesis by simp
  next
    case (V6 os)
    then have "addr = os" using a by (simp add: addr_def addr_ok_def)
    with V6 show ?thesis by simp
  qed
  have pn: "(sa_port t = 0) = False" "is_unspecified (sa_ip t) = False" using t by (simp_all add: target_ok_def)
  show ?thesis
    unfolding parse_open_request_def m k fam ad port Let_def ip option.case pn if_False by simp
qed

lemma parse_open_only:
  assumes p: "parse_open_request r token = Some t" and len: "length r = 59"
  shows "target_ok t \<and> length token = 32 \<and> r = encode_open_request t token"
proof -
  define address where "address = slice r 41 57"
  define port where "port = of_be [r ! 57, r ! 58]"
  from p have m: "slice r 0 8 = OPEN_MAGIC" and k: "slice r 8 40 = token" and pn: "port \<noteq> 0" "sa_port t = port"
    and ip: "r ! 40 = 4 \<and> (\<forall>b\<in>set (drop 4 address). b = 0) \<and> sa_ip t = V4 [address ! 0, address ! 1, address ! 2, address ! 3]
      \<or> r ! 40 = 6 \<and> sa_ip t = V6 address" and un: "\<not> is_unspecified (sa_ip t)"
    by (auto simp: parse_open_request_def Let_def address_def port_def split: if_splits option.splits)
  have la: "length address = 16" and tok: "length token = 32" using len k by (auto simp: address_def)
  have "port \<le> u16_max" by (simp add: port_def of_be_two_bound)
  then have ok: "target_ok t" using ip la pn un by (auto simp: target_ok_def addr_ok_def u16_max_def)
  have addr: "address = ip_octets (sa_ip t) @ replicate (16 - length (ip_octets (sa_ip t))) 0 \<and> r ! 40 = ip_family (sa_ip t)"
    using ip
  proof
    assume v4: "r ! 40 = 4 \<and> (\<forall>b\<in>set (drop 4 address). b = 0) \<and> sa_ip t = V4 [address ! 0, address ! 1, address ! 2, address ! 3]"
    then have "drop 4 address = replicate 12 0" using la replicate_eqI [of "drop 4 address" 12 0] by simp
    moreover have "take 4 address = [address ! 0, address ! 1, address ! 2, address ! 3]" using la by (simp add: take4)
    ultimately show ?thesis using v4 append_take_drop_id [of 4 address] by simp
  qed (use la in auto)
  have "be_bytes 2 port = [r ! 57, r ! 58]"
    using be_bytes_of_be [of "[r ! 57, r ! 58]"] by (simp add: port_def numeral_2_eq_2)
  moreover note request_bytes [OF len]
  moreover have "r = slice r 0 8 @ slice r 8 40 @ slice r 40 41 @ slice r 41 57 @ slice r 57 59"
    using buffer_split [of r 8] drop_split [of 8 40 r] drop_split [of 40 41 r] drop_split [of 41 57 r]
      slice_to_end [of r 57] len by simp
  ultimately have "r = OPEN_MAGIC @ token @ [r ! 40] @ address @ be_bytes 2 (sa_port t)"
    using m k pn by (simp add: address_def)
  also have "\<dots> = encode_open_request t token"
    using encode_open_layout [OF _ tok, of t] ok addr by (simp add: target_ok_def)
  finally show ?thesis using ok tok by simp
qed

section \<open>Reachable quota states\<close>

fun reserved :: "copy_pc \<Rightarrow> nat" where
  "reserved (Reserved n a) = a"
| "reserved p = 0"

definition copy_inv :: "u64 \<Rightarrow> relay_copy_state \<Rightarrow> bool" where
  "copy_inv limit s \<longleftrightarrow> copied s \<le> limit
     \<and> written s True + reserved (pc s True) + (written s False + reserved (pc s False)) \<le> copied s
     \<and> (\<forall>d. (pc s d = Exhausted \<longrightarrow> copied s = limit)
          \<and> (\<forall>n a. pc s d = Reserved n a \<longrightarrow> a \<le> n \<and> (a \<noteq> n \<longrightarrow> copied s = limit))
          \<and> (\<forall>n c. pc s d = Loaded n c \<longrightarrow> c \<le> copied s))"

lemma copy_step_inv: "copy_step limit s s' \<Longrightarrow> copy_inv limit s \<Longrightarrow> copy_inv limit s'"
proof (induction rule: copy_step.induct)
  case (read_some s d n)
  then show ?case by (cases d) (auto simp: copy_inv_def)
next
  case (read_eof s d)
  then show ?case by (cases d) (auto simp: copy_inv_def)
next
  case (read_error s d)
  then show ?case by (cases d) (auto simp: copy_inv_def)
next
  case (load s d n)
  then show ?case by (cases d) (auto simp: copy_inv_def)
next
  case (no_quota s d n c)
  then have "copied s = limit" unfolding copy_inv_def by (metis diff_is_0_eq le_antisym le_trans)
  with no_quota show ?case by (cases d) (auto simp: copy_inv_def)
next
  case (cas_success s d n c)
  then have "c + min n (limit - c) \<le> limit" "min n (limit - c) \<noteq> n \<longrightarrow> c + min n (limit - c) = limit"
    by (auto simp: copy_inv_def min_def)
  moreover have "copied s = limit \<longrightarrow> False" using cas_success by auto
  moreover have "\<forall>d n c. pc s d = Loaded n c \<longrightarrow> c \<le> copied s + min n' (limit - copied s)" for n'
    using cas_success.prems by (fastforce simp: copy_inv_def)
  ultimately show ?case using cas_success by (cases d) (auto simp: copy_inv_def)
next
  case (cas_failure s d n c)
  then show ?case by (cases d) (auto simp: copy_inv_def)
next
  case (write_all s d n a)
  then show ?case by (cases d) (auto simp: copy_inv_def split: if_splits)
next
  case (write_error s d n a k)
  then show ?case by (cases d) (auto simp: copy_inv_def)
qed

lemma copy_reach_inv: "copy_reach limit s \<Longrightarrow> copy_inv limit s"
proof (induction rule: copy_reach.induct)
  case copy_start
  then show ?case by (simp add: copy_inv_def relay_copy_init_def)
qed (rule copy_step_inv)

section \<open>Circuits\<close>

text \<open>The hops of a path with the target that each is asked for: the next relay, and the destination at
  the end.\<close>

fun hop_targets :: "relay_hop list \<Rightarrow> socket_addr \<Rightarrow> (relay_hop \<times> socket_addr) list" where
  "hop_targets [] destination = []"
| "hop_targets [h] destination = [(h, destination)]"
| "hop_targets (h # h' # hs) destination = (h, rh_endpoint h') # hop_targets (h' # hs) destination"

lemma open_hops_Ok:
  "open_hops link answer hops dest = Ok () \<longleftrightarrow>
     (\<forall>(h, t)\<in>set (hop_targets hops dest). link h = Ok () \<and> answer h (encode_open_request t (rh_token h)) = Some OPEN_OK)"
  by (induction hops dest rule: hop_targets.induct)
    (auto simp: send_open_request_def split: result.splits option.splits if_splits)

lemma hop_targets_ok:
  "(h, t) \<in> set (hop_targets hops dest) \<Longrightarrow> h \<in> set hops \<and> (t = dest \<or> t \<in> rh_endpoint ` set hops)"
  by (induction hops dest rule: hop_targets.induct) auto

definition hop_ok :: "relay_hop \<Rightarrow> bool" where
  "hop_ok h \<longleftrightarrow> target_ok (rh_endpoint h) \<and> length (rh_token h) = 32"

lemma relay_hop_new_ok:
  "relay_hop_new ep nm cert token = Ok h \<Longrightarrow> addr_ok ep \<Longrightarrow> length token = 32 \<Longrightarrow> hop_ok h"
  by (auto simp: relay_hop_new_def hop_ok_def target_ok_def split: if_splits)

lemma relay_answer_open:
  assumes "target_ok t" and "length token = 32"
  shows "relay_answer config connect (encode_open_request t token) = Some OPEN_OK \<longleftrightarrow>
    rs_token config = token \<and> t \<in> allowed_targets config \<and> connect t"
proof -
  have "OPEN_OK \<noteq> OPEN_DENIED" by (simp add: OPEN_OK_def OPEN_DENIED_def as_bytes_inj)
  then show ?thesis by (auto simp: relay_answer_def parse_encode_open [OF assms])
qed

lemma insert_endpoints_Some:
  "insert_endpoints seen rs = Some out \<longleftrightarrow> distinct (map rh_endpoint rs) \<and> rh_endpoint ` set rs \<inter> seen = {}
     \<and> out = seen \<union> rh_endpoint ` set rs"
  by (induction seen rs rule: insert_endpoints.induct) auto

lemma onion_path_new_Ok:
  "onion_path_new relays dest = Ok path \<longleftrightarrow> path = \<lparr>op_relays = relays, op_destination = dest\<rparr>
     \<and> 2 \<le> length relays \<and> length relays \<le> 3 \<and> distinct (map rh_endpoint relays @ [dest])
     \<and> sa_port dest \<noteq> 0 \<and> \<not> is_unspecified (sa_ip dest)"
  using insert_endpoints_Some [of "{}" relays] insert_endpoints_Some [of "{}" relays "rh_endpoint ` set relays"]
  by (cases "insert_endpoints {} relays") (auto simp: onion_path_new_def MAX_RELAY_HOPS_def)

section \<open>Properties\<close>

text \<open>The open request is exact: of the 59-byte requests, a relay with a given token understands precisely
  those that a client encodes for a specific address with that token, and reads back the address; any other
  magic, token, address family, zero port, unspecified address or non-zero filler byte is refused.\<close>

lemma open_request_exact:
  "length r = 59 \<and> parse_open_request r token = Some t \<longleftrightarrow>
     target_ok t \<and> length token = 32 \<and> r = encode_open_request t token"
proof
  assume "length r = 59 \<and> parse_open_request r token = Some t"
  then show "target_ok t \<and> length token = 32 \<and> r = encode_open_request t token" using parse_open_only by blast
next
  assume a: "target_ok t \<and> length token = 32 \<and> r = encode_open_request t token"
  then have ok: "addr_ok t" by (simp add: target_ok_def)
  then have "length (ip_octets (sa_ip t)) \<le> 16" by (cases "sa_ip t") (simp_all add: addr_ok_def)
  then have "length (encode_open_request t token) = 59" using a encode_open_layout [OF ok, of token] by simp
  with a show "length r = 59 \<and> parse_open_request r token = Some t" by (simp add: parse_encode_open)
qed

text \<open>C31. A circuit opens exactly along the pinned path.  Over a path that \<open>OnionPath::new\<close> accepts, the set-up
  succeeds if and only if every hop in turn passes its TLS identity check, holds the token of its
  descriptor, has the next relay (or, at the last hop, the destination) on its allowlist and can reach it:
  no relay is skipped and none forwards to anything else.\<close>

theorem circuit_opens_iff:
  assumes path: "onion_path_new relays dest = Ok path" and hops: "\<forall>h\<in>set relays. hop_ok h" and dest: "addr_ok dest"
  shows "connect_stream_inner link (\<lambda>h. relay_answer (config h) (connect h)) path = Ok () \<longleftrightarrow>
     (\<forall>(h, t)\<in>set (hop_targets relays dest). link h = Ok () \<and> rs_token (config h) = rh_token h
        \<and> t \<in> allowed_targets (config h) \<and> connect h t)"
proof -
  from path have p: "op_relays path = relays" "op_destination path = dest" "relays \<noteq> []" and d: "target_ok dest"
    using dest by (auto simp: onion_path_new_Ok target_ok_def)
  have "target_ok t \<and> length (rh_token h) = 32" if "(h, t) \<in> set (hop_targets relays dest)" for h t
    using hop_targets_ok [OF that] hops d by (auto simp: hop_ok_def)
  then have "(\<forall>(h, t)\<in>set (hop_targets relays dest). link h = Ok ()
        \<and> relay_answer (config h) (connect h) (encode_open_request t (rh_token h)) = Some OPEN_OK) \<longleftrightarrow>
     (\<forall>(h, t)\<in>set (hop_targets relays dest). link h = Ok () \<and> rs_token (config h) = rh_token h
        \<and> t \<in> allowed_targets (config h) \<and> connect h t)"
    using relay_answer_open by (intro ball_cong) auto
  then show ?thesis using p by (simp add: connect_stream_inner_def open_hops_Ok)
qed

definition sample_addr :: "byte \<Rightarrow> socket_addr" where
  "sample_addr b = \<lparr>sa_ip = V4 [10, 0, 0, b], sa_port = 443\<rparr>"

definition sample_hop :: "byte \<Rightarrow> relay_hop" where
  "sample_hop b = \<lparr>rh_endpoint = sample_addr b, rh_server_name = ''relay'', rh_certificate = [1], rh_token = replicate 32 b\<rparr>"

theorem circuit_opens_iff_witness:
  "connect_stream_inner (\<lambda>_. Ok ())
     (\<lambda>h. relay_answer \<lparr>allowed_targets = {sample_addr 2, sample_addr 3}, rs_token = rh_token h, rs_limits = relay_limits_default\<rparr> (\<lambda>_. True))
     \<lparr>op_relays = [sample_hop 1, sample_hop 2], op_destination = sample_addr 3\<rparr> = Ok ()"
proof -
  have "[10, 0, 0, b] \<noteq> replicate 4 (0 :: byte)" for b
  proof
    assume "[10, 0, 0, b] = replicate 4 (0 :: byte)"
    then have "hd [10, 0, 0, b] = hd (replicate 4 (0 :: byte))" by (rule arg_cong)
    then show False by simp
  qed
  then have ok: "target_ok (sample_addr b)" for b by (simp add: target_ok_def addr_ok_def sample_addr_def)
  have new: "onion_path_new [sample_hop 1, sample_hop 2] (sample_addr 3) = Ok \<lparr>op_relays = [sample_hop 1, sample_hop 2], op_destination = sample_addr 3\<rparr>"
    unfolding onion_path_new_Ok using ok [of 3] by (simp add: sample_hop_def sample_addr_def target_ok_def)
  have hops: "\<forall>h\<in>set [sample_hop 1, sample_hop 2]. hop_ok h" using ok by (simp add: hop_ok_def sample_hop_def)
  have dest: "addr_ok (sample_addr 3)" using ok [of 3] by (simp add: target_ok_def)
  show ?thesis unfolding circuit_opens_iff [OF new hops dest] by (simp add: sample_hop_def)
qed

text \<open>C32. The byte quota of a circuit holds under every interleaving.  However the loads, compare-and-exchange
  attempts (spurious failures included), writes and input/output errors of the two copying tasks
  interleave, the bytes written in both directions together never exceed the limit, and a task gives up for
  want of quota only when the whole quota has been reserved.\<close>

theorem quota_never_exceeded:
  assumes "copy_reach limit s"
  shows "written s True + written s False \<le> copied s \<and> copied s \<le> limit
     \<and> (\<forall>d. pc s d = Exhausted \<longrightarrow> copied s = limit)"
  using copy_reach_inv [OF assms] by (auto simp: copy_inv_def)

theorem quota_never_exceeded_witness:
  "copy_reach 5 (relay_copy_init\<lparr>pc := (\<lambda>_. Reading)(True := HaveRead 3)\<rparr>)
     \<and> written (relay_copy_init\<lparr>pc := (\<lambda>_. Reading)(True := HaveRead 3)\<rparr>) True \<le> 5"
proof -
  have "copy_step 5 relay_copy_init (relay_copy_init\<lparr>pc := (pc relay_copy_init)(True := HaveRead 3)\<rparr>)"
    by (rule read_some) (simp_all add: relay_copy_init_def RELAY_COPY_BUFFER_BYTES_def)
  then have r: "copy_reach 5 (relay_copy_init\<lparr>pc := (\<lambda>_. Reading)(True := HaveRead 3)\<rparr>)"
    using copy_next [OF copy_start] by (simp add: relay_copy_init_def)
  from quota_never_exceeded [OF r] have "written (relay_copy_init\<lparr>pc := (\<lambda>_. Reading)(True := HaveRead 3)\<rparr>) True \<le> 5" by linarith
  with r show ?thesis by blast
qed

end
