(* ===== verification/Cover.thy ===== *)
theory Cover
  imports Framing
begin

text \<open>
  The cover-traffic budget, \<open>shph-transport/src/cover.rs\<close>.  Time is a duration from the start of the
  session, given by the caller.  The decisions are characterised over the history of calls and answers, independently of what the
  scheduler stores.
\<close>

section \<open>Definitions\<close>

record cover_policy =
  interval_ms :: u32
  idle_timeout_ms :: u32
  maximum_bytes :: u64
  overhead_percent :: u16

definition cover_validate :: "cover_policy \<Rightarrow> unit result" where
  "cover_validate p =
     (if \<not> (100 \<le> interval_ms p \<and> interval_ms p \<le> 60000) \<or> idle_timeout_ms p < interval_ms p
         \<or> 300000 < idle_timeout_ms p \<or> maximum_bytes p = 0 \<or> 64 * 1024 * 1024 < maximum_bytes p
         \<or> \<not> (1 \<le> overhead_percent p \<and> overhead_percent p \<le> 100)
        then Err (Config ''invalid cover traffic budget'')
      else Ok ())"

record cover_scheduler =
  cs_policy :: "cover_policy option"
  last_observed :: duration
  last_data :: "duration option"
  last_cover :: "duration option"
  cs_payload_bytes :: u64
  cover_bytes :: u64
  stopped :: bool

definition cover_new :: "cover_policy option \<Rightarrow> cover_scheduler result" where
  "cover_new policy =
     (case (case policy of None \<Rightarrow> Ok () | Some p \<Rightarrow> cover_validate p) of
        Err e \<Rightarrow> Err e
      | Ok _ \<Rightarrow> Ok \<lparr>cs_policy = policy, last_observed = 0, last_data = None, last_cover = None,
          cs_payload_bytes = 0, cover_bytes = 0, stopped = False\<rparr>)"

definition cover_observe :: "cover_scheduler \<Rightarrow> duration \<Rightarrow> unit result \<times> cover_scheduler" where
  "cover_observe s now =
     (if now < last_observed s then (Err (InvalidArgument ''cover clock moved backwards''), s)
      else (Ok (), s\<lparr>last_observed := now\<rparr>))"

definition record_payload :: "cover_scheduler \<Rightarrow> duration \<Rightarrow> usize \<Rightarrow> unit result \<times> cover_scheduler" where
  "record_payload s now n =
     (case cover_observe s now of
        (Err e, s1) \<Rightarrow> (Err e, s1)
      | (Ok _, s1) \<Rightarrow> (Ok (), s1\<lparr>last_data := Some now, cs_payload_bytes := sat_add u64_max (cs_payload_bytes s1) n\<rparr>))"

definition cover_allowance :: "cover_policy \<Rightarrow> u64 \<Rightarrow> u64" where
  "cover_allowance p payload = min (payload * overhead_percent p div 100) (maximum_bytes p)"

definition cover_reserve ::
    "cover_scheduler \<Rightarrow> duration \<Rightarrow> usize \<Rightarrow> bool \<Rightarrow> bool \<Rightarrow> bool \<Rightarrow> bool result \<times> cover_scheduler" where
  "cover_reserve s now n payload_pending congested cancelled =
     (case cover_observe s now of
        (Err e, s1) \<Rightarrow> (Err e, s1)
      | (Ok _, s1) \<Rightarrow>
          let s2 = s1\<lparr>stopped := stopped s1 \<or> cancelled\<rparr> in
          (case cs_policy s2 of None \<Rightarrow> (Ok False, s2) | Some p \<Rightarrow>
          (case last_data s2 of None \<Rightarrow> (Ok False, s2) | Some ld \<Rightarrow>
            if stopped s2 \<or> payload_pending \<or> congested \<or> n = 0 \<or> 4096 < n
               \<or> from_millis (idle_timeout_ms p) \<le> now - ld
               \<or> now - (case last_cover s2 of Some lc \<Rightarrow> lc | None \<Rightarrow> ld) < from_millis (interval_ms p)
              then (Ok False, s2)
            else if cover_allowance p (cs_payload_bytes s2) - cover_bytes s2 < n then (Ok False, s2)
            else (Ok True, s2\<lparr>cover_bytes := sat_add u64_max (cover_bytes s2) n, last_cover := Some now\<rparr>))))"

section \<open>Runs\<close>

datatype cover_op = Payload duration usize | Reserve duration usize bool bool bool

fun cover_step :: "cover_op \<Rightarrow> cover_scheduler \<Rightarrow> cover_scheduler" where
  "cover_step (Payload now n) s = snd (record_payload s now n)"
| "cover_step (Reserve now n pending congested cancelled) s = snd (cover_reserve s now n pending congested cancelled)"

inductive cover_reach :: "cover_policy option \<Rightarrow> cover_scheduler \<Rightarrow> bool" for policy where
  cover_start: "cover_new policy = Ok s \<Longrightarrow> cover_reach policy s"
| cover_next: "cover_reach policy s \<Longrightarrow> cover_reach policy (cover_step oper s)"

definition cover_inv :: "cover_policy option \<Rightarrow> cover_scheduler \<Rightarrow> bool" where
  "cover_inv policy s \<longleftrightarrow> cs_policy s = policy \<and> (\<forall>p\<in>set_option policy. cover_validate p = Ok ())
     \<and> cs_payload_bytes s \<le> u64_max
     \<and> (\<forall>t\<in>set_option (last_data s). t \<le> last_observed s)
     \<and> (\<forall>t\<in>set_option (last_cover s). t \<le> last_observed s)
     \<and> cover_bytes s \<le> (case policy of None \<Rightarrow> 0 | Some p \<Rightarrow> cover_allowance p (cs_payload_bytes s))"

lemma cover_allowance_mono: "a \<le> b \<Longrightarrow> cover_allowance p a \<le> cover_allowance p b"
  by (auto simp: cover_allowance_def intro!: div_le_mono min.coboundedI1)

lemma record_payload_inv: "cover_inv policy s \<Longrightarrow> cover_inv policy (snd (record_payload s now n))"
  using sat_add_mono [of "cs_payload_bytes s" u64_max n] sat_add_le [of u64_max "cs_payload_bytes s" n]
  by (auto simp: cover_inv_def record_payload_def cover_observe_def split: option.splits
      intro: le_trans [OF _ cover_allowance_mono])

lemma cover_reserve_cases:
  assumes inv: "cover_inv policy s" and r: "cover_reserve s now n pend cong canc = (r, s')"
  shows "cover_inv policy s'"
    and "r = Ok True \<Longrightarrow> (\<exists>p ld. policy = Some p \<and> last_data s = Some ld \<and> \<not> stopped s \<and> \<not> canc \<and> \<not> pend \<and> \<not> cong
       \<and> now < ld + from_millis (idle_timeout_ms p) \<and> (\<forall>lc\<in>set_option (last_cover s). lc + from_millis (interval_ms p) \<le> now)
       \<and> cover_bytes s' = cover_bytes s + n \<and> cover_bytes s' \<le> cover_allowance p (cs_payload_bytes s')
       \<and> last_cover s' = Some now \<and> cs_payload_bytes s' = cs_payload_bytes s)"
    and "r \<noteq> Ok True \<Longrightarrow> cover_bytes s' = cover_bytes s \<and> last_cover s' = last_cover s"
    and "r = Err e \<Longrightarrow> s' = s"
proof -
  have big: "cover_bytes s + n \<le> u64_max \<and> sat_add u64_max (cover_bytes s) n = cover_bytes s + n"
    if "\<not> cover_allowance p (cs_payload_bytes s) - cover_bytes s < n" "n \<noteq> 0" "policy = Some p" for p
  proof -
    have "cover_validate p = Ok ()" using inv that(3) by (simp add: cover_inv_def)
    then have "cover_allowance p (cs_payload_bytes s) \<le> u64_max"
      by (auto simp: cover_allowance_def cover_validate_def u64_max_def split: if_splits)
    moreover have "cover_bytes s + n \<le> cover_allowance p (cs_payload_bytes s)" using that by linarith
    ultimately show ?thesis by (simp add: sat_add_def)
  qed
  show "cover_inv policy s'"
    using inv r big by (auto simp: cover_inv_def cover_reserve_def cover_observe_def Let_def not_less
        split: if_splits option.splits intro: le_trans)
  show "r = Ok True \<Longrightarrow> (\<exists>p ld. policy = Some p \<and> last_data s = Some ld \<and> \<not> stopped s \<and> \<not> canc \<and> \<not> pend \<and> \<not> cong
       \<and> now < ld + from_millis (idle_timeout_ms p) \<and> (\<forall>lc\<in>set_option (last_cover s). lc + from_millis (interval_ms p) \<le> now)
       \<and> cover_bytes s' = cover_bytes s + n \<and> cover_bytes s' \<le> cover_allowance p (cs_payload_bytes s')
       \<and> last_cover s' = Some now \<and> cs_payload_bytes s' = cs_payload_bytes s)"
    using inv r big by (auto simp: cover_inv_def cover_reserve_def cover_observe_def Let_def not_less
        split: if_splits option.splits)
  show "r \<noteq> Ok True \<Longrightarrow> cover_bytes s' = cover_bytes s \<and> last_cover s' = last_cover s" and "r = Err e \<Longrightarrow> s' = s"
    using r by (auto simp: cover_reserve_def cover_observe_def Let_def split: if_splits option.splits)
qed


lemma cover_reach_inv: "cover_reach policy s \<Longrightarrow> cover_inv policy s"
proof (induction rule: cover_reach.induct)
  case (cover_start s)
  then show ?case by (auto simp: cover_inv_def cover_new_def split: option.splits result.splits)
next
  case (cover_next s oper)
  then show ?case
    by (cases oper) (auto simp: record_payload_inv intro: cover_reserve_cases(1) [OF _ prod.collapse [symmetric]])
qed

section \<open>Histories\<close>

text \<open>A session seen from outside: the calls with their answers, in order.  A recorded payload answers \<open>Ok False\<close>, since it grants nothing.\<close>

fun cover_call :: "cover_op \<Rightarrow> cover_scheduler \<Rightarrow> bool result \<times> cover_scheduler" where
  "cover_call (Payload now n) s = (case record_payload s now n of (Err e, s') \<Rightarrow> (Err e, s') | (Ok _, s') \<Rightarrow> (Ok False, s'))"
| "cover_call (Reserve now n pending congested cancelled) s = cover_reserve s now n pending congested cancelled"

fun cover_run :: "cover_scheduler \<Rightarrow> cover_op list \<Rightarrow> bool result list \<times> cover_scheduler" where
  "cover_run s [] = ([], s)"
| "cover_run s (oper # ops) = (case cover_call oper s of (a, s1) \<Rightarrow> (case cover_run s1 ops of (as, s') \<Rightarrow> (a # as, s')))"

type_synonym cover_history = "(cover_op \<times> bool result) list"

fun op_time :: "cover_op \<Rightarrow> duration" where
  "op_time (Payload now n) = now"
| "op_time (Reserve now n pending congested cancelled) = now"

definition heard :: "cover_history \<Rightarrow> cover_op list" where
  "heard h = map fst (filter (\<lambda>(oper, a). \<forall>e. a \<noteq> Err e) h)"

definition latest_call :: "cover_history \<Rightarrow> duration" where
  "latest_call h = (if heard h = [] then 0 else op_time (last (heard h)))"

fun payload_entry :: "cover_op \<Rightarrow> (duration \<times> nat) option" where
  "payload_entry (Payload now n) = Some (now, n)"
| "payload_entry (Reserve now n pending congested cancelled) = None"

fun reserve_entry :: "cover_op \<times> bool result \<Rightarrow> (duration \<times> nat) option" where
  "reserve_entry (Reserve now n pending congested cancelled, Ok True) = Some (now, n)"
| "reserve_entry _ = None"

fun cancels :: "cover_op \<Rightarrow> bool" where
  "cancels (Payload now n) = False"
| "cancels (Reserve now n pending congested cancelled) = cancelled"

definition payload_log :: "cover_history \<Rightarrow> (duration \<times> nat) list" where
  "payload_log h = List.map_filter payload_entry (heard h)"

definition grant_log :: "cover_history \<Rightarrow> (duration \<times> nat) list" where
  "grant_log h = List.map_filter reserve_entry h"

definition log_bytes :: "(duration \<times> nat) list \<Rightarrow> nat" where
  "log_bytes l = sum_list (map snd l)"

text \<open>When a reservation is granted, in terms of the calls before it alone.\<close>

definition cover_due :: "cover_policy option \<Rightarrow> cover_history \<Rightarrow> duration \<Rightarrow> usize \<Rightarrow> bool" where
  "cover_due policy h now n \<longleftrightarrow> (\<exists>p. policy = Some p \<and> payload_log h \<noteq> [] \<and> \<not> list_ex cancels (heard h) \<and> 1 \<le> n \<and> n \<le> 4096
     \<and> now - fst (last (payload_log h)) < from_millis (idle_timeout_ms p)
     \<and> from_millis (interval_ms p) \<le> now - fst (last (if grant_log h = [] then payload_log h else grant_log h))
     \<and> 100 * (log_bytes (grant_log h) + n) \<le> log_bytes (payload_log h) * overhead_percent p
     \<and> log_bytes (grant_log h) + n \<le> maximum_bytes p)"

definition cover_answer_ok :: "cover_policy option \<Rightarrow> cover_history \<Rightarrow> cover_op \<Rightarrow> bool result \<Rightarrow> bool" where
  "cover_answer_ok policy h oper a \<longleftrightarrow> ((\<exists>e. a = Err e) \<longleftrightarrow> op_time oper < latest_call h)
     \<and> (\<forall>now n pending congested cancelled. oper = Reserve now n pending congested cancelled \<and> latest_call h \<le> now \<longrightarrow>
          (a = Ok True \<longleftrightarrow> \<not> pending \<and> \<not> congested \<and> \<not> cancelled \<and> cover_due policy h now n))"

definition last_time :: "(duration \<times> nat) list \<Rightarrow> duration option" where
  "last_time l = (if l = [] then None else Some (fst (last l)))"

text \<open>The scheduler remembers exactly what the decisions need of its history.\<close>

definition cover_linked :: "cover_policy option \<Rightarrow> cover_history \<Rightarrow> cover_scheduler \<Rightarrow> bool" where
  "cover_linked policy h s \<longleftrightarrow> cover_inv policy s \<and> last_observed s = latest_call h \<and> last_data s = last_time (payload_log h)
     \<and> last_cover s = last_time (grant_log h) \<and> cs_payload_bytes s = min u64_max (log_bytes (payload_log h))
     \<and> cover_bytes s = log_bytes (grant_log h) \<and> stopped s = list_ex cancels (heard h)"

lemma history_snoc:
  "heard (h @ [(oper, Ok b)]) = heard h @ [oper]" "heard (h @ [(oper, Err e)]) = heard h"
  "latest_call (h @ [(oper, Ok b)]) = op_time oper" "latest_call (h @ [(oper, Err e)]) = latest_call h"
  "payload_log (h @ [(oper, Ok b)]) = payload_log h @ (case payload_entry oper of None \<Rightarrow> [] | Some x \<Rightarrow> [x])"
  "payload_log (h @ [(oper, Err e)]) = payload_log h"
  "grant_log (h @ [(oper, a)]) = grant_log h @ (case reserve_entry (oper, a) of None \<Rightarrow> [] | Some x \<Rightarrow> [x])"
  "log_bytes (l @ l') = log_bytes l + log_bytes l'" "last_time (l @ [x]) = Some (fst x)"
  by (auto simp: heard_def latest_call_def payload_log_def grant_log_def log_bytes_def last_time_def map_filter_def split: option.splits)

lemma log_bytes_simps [simp]: "log_bytes [] = 0" "log_bytes (x # l) = snd x + log_bytes l"
  by (simp_all add: log_bytes_def)

lemma allowance_exact:
  assumes "cover_validate p = Ok ()"
  shows "x \<le> cover_allowance p (min u64_max total_payload) \<longleftrightarrow> 100 * x \<le> total_payload * overhead_percent p \<and> x \<le> maximum_bytes p"
proof -
  have p: "1 \<le> overhead_percent p" "maximum_bytes p \<le> 64 * 1024 * 1024" using assms by (auto simp: cover_validate_def split: if_splits)
  have d: "x \<le> y div 100 \<longleftrightarrow> 100 * x \<le> y" for y :: nat by (simp add: less_eq_div_iff_mult_less_eq mult.commute)
  show ?thesis
  proof (cases "total_payload \<le> u64_max")
    case True
    then show ?thesis by (auto simp: cover_allowance_def d min_def)
  next
    case False
    have big: "100 * x \<le> y * overhead_percent p" if "x \<le> maximum_bytes p" "u64_max \<le> y" for y
    proof -
      have "100 * x \<le> y" using that p(2) by (simp add: u64_max_def)
      also have "\<dots> \<le> y * overhead_percent p" using p(1) by simp
      finally show ?thesis .
    qed
    then show ?thesis using False by (auto simp: cover_allowance_def d min_def)
  qed
qed

lemma linked_new: "cover_new policy = Ok s \<Longrightarrow> cover_linked policy [] s"
  using cover_reach_inv [OF cover_start, of policy s]
  by (auto simp: cover_linked_def heard_def latest_call_def payload_log_def grant_log_def last_time_def map_filter_simps cover_new_def split: result.splits)

lemma payload_linked:
  assumes l: "cover_linked policy h s" and c: "record_payload s now n = (r, s1)"
  shows "(\<exists>e. r = Err e \<and> s1 = s \<and> now < latest_call h)
    \<or> r = Ok () \<and> latest_call h \<le> now \<and> cover_linked policy (h @ [(Payload now n, Ok False)]) s1"
proof (cases "now < latest_call h")
  case True
  then show ?thesis using l c by (auto simp: cover_linked_def record_payload_def cover_observe_def)
next
  case False
  have "cover_inv policy s1" using record_payload_inv [of policy s now n] l c by (simp add: cover_linked_def)
  moreover have "sat_add u64_max (min u64_max a) n = min u64_max (a + n)" for a by (auto simp: sat_add_def min_def)
  ultimately show ?thesis using False l c
    by (auto simp: cover_linked_def record_payload_def cover_observe_def history_snoc)
qed

lemma reserve_linked:
  assumes l: "cover_linked policy h s" and c: "cover_reserve s now n pend cong canc = (a, s1)"
  shows "(\<exists>e. a = Err e \<and> s1 = s \<and> now < latest_call h)
    \<or> latest_call h \<le> now \<and> a = Ok (\<not> pend \<and> \<not> cong \<and> \<not> canc \<and> cover_due policy h now n)
      \<and> cover_linked policy (h @ [(Reserve now n pend cong canc, a)]) s1"
proof (cases "now < latest_call h")
  case True
  then show ?thesis using l c by (auto simp: cover_linked_def cover_reserve_def cover_observe_def)
next
  case False
  have inv: "cover_inv policy s" and pol: "cs_policy s = policy" using l by (auto simp: cover_linked_def cover_inv_def)
  note cases = cover_reserve_cases(1,2) [OF inv c]
  have room: "\<not> cover_allowance p (cs_payload_bytes s) - cover_bytes s < n \<longleftrightarrow>
      100 * (log_bytes (grant_log h) + n) \<le> log_bytes (payload_log h) * overhead_percent p \<and> log_bytes (grant_log h) + n \<le> maximum_bytes p"
    if p: "policy = Some p" for p
  proof -
    have "cover_validate p = Ok ()" "cover_bytes s \<le> cover_allowance p (cs_payload_bytes s)" using inv p by (auto simp: cover_inv_def)
    then have "\<not> cover_allowance p (cs_payload_bytes s) - cover_bytes s < n \<longleftrightarrow> cover_bytes s + n \<le> cover_allowance p (cs_payload_bytes s)" by linarith
    with allowance_exact [OF \<open>cover_validate p = Ok ()\<close>] l show ?thesis by (simp add: cover_linked_def)
  qed
  let ?g = "\<not> pend \<and> \<not> cong \<and> \<not> canc \<and> cover_due policy h now n"
  have a: "a = Ok ?g"
  proof (cases policy)
    case None
    then show ?thesis using False l c pol by (auto simp: cover_linked_def cover_reserve_def cover_observe_def Let_def cover_due_def)
  next
    case (Some p)
    then show ?thesis using False l c pol room [OF Some]
      by (auto simp: cover_linked_def cover_reserve_def cover_observe_def Let_def cover_due_def last_time_def split: if_splits)
  qed
  have "cover_linked policy (h @ [(Reserve now n pend cong canc, a)]) s1"
  proof (cases ?g)
    case True
    with a have "a = Ok True" by simp
    then show ?thesis using False l c cases
      by (auto simp: cover_linked_def cover_reserve_def cover_observe_def Let_def history_snoc split: if_splits option.splits)
  next
    case no: False
    with a have "a = Ok False" by simp
    then show ?thesis using False l c cases(1)
      by (auto simp: cover_linked_def cover_reserve_def cover_observe_def Let_def history_snoc split: if_splits option.splits)
  qed
  with a False show ?thesis by simp
qed

lemma linked_refused: "cover_linked policy h s \<Longrightarrow> cover_linked policy (h @ [(oper, Err e)]) s"
  by (cases oper) (simp_all add: cover_linked_def history_snoc)

lemma call_linked:
  assumes l: "cover_linked policy h s" and c: "cover_call oper s = (a, s1)"
  shows "cover_answer_ok policy h oper a \<and> cover_linked policy (h @ [(oper, a)]) s1"
proof (cases oper)
  case (Payload now n)
  obtain r s2 where r: "record_payload s now n = (r, s2)" by fastforce
  from payload_linked [OF l r] c r Payload linked_refused [OF l] show ?thesis
    by (auto simp: cover_answer_ok_def)
next
  case (Reserve now n pend cong canc)
  from reserve_linked [OF l, of now n pend cong canc] c Reserve linked_refused [OF l] show ?thesis
    by (fastforce simp: cover_answer_ok_def)
qed

lemma run_linked:
  "cover_linked policy h s \<Longrightarrow> cover_run s ops = (as, s') \<Longrightarrow> i < length ops \<Longrightarrow>
   cover_answer_ok policy (h @ zip (take i ops) (take i as)) (ops ! i) (as ! i)"
proof (induction ops arbitrary: h s as i)
  case (Cons oper ops)
  obtain a s1 where a: "cover_call oper s = (a, s1)" by fastforce
  obtain as' where r: "cover_run s1 ops = (as', s')" "as = a # as'" using Cons.prems(2) a by (auto split: prod.splits)
  note step = call_linked [OF Cons.prems(1) a]
  show ?case
  proof (cases i)
    case (Suc k)
    then show ?thesis using Cons.IH [OF conjunct2 [OF step] r(1), of k] Cons.prems(3) r(2) by simp
  qed (use step r(2) in simp)
qed simp

section \<open>Properties\<close>

text \<open>C33. Cover traffic is exact to its rules, seen from outside.  Take any sequence of payload records and reservations from the start of
  a session.  A call is answered with an error precisely when its clock is behind that of the last call that was not.  Any
  other reservation is granted precisely when the session has a policy, nothing is pending, congested or cancelled now, no
  earlier reservation was cancelled, a payload was recorded and less than the idle timeout has passed since the last one, at least the interval has
  passed since the last granted reservation (since the last payload before the first one), it asks for 1 to 4096 bytes, and
  all bytes granted so far with these are at most the configured percentage of all recorded payload bytes and at most the maximum.\<close>

theorem cover_budget:
  assumes "cover_new policy = Ok s" and "cover_run s ops = (answers, s')" and "i < length ops"
  shows "let h = zip (take i ops) (take i answers) in
     ((\<exists>e. answers ! i = Err e) \<longleftrightarrow> op_time (ops ! i) < latest_call h)
   \<and> (\<forall>now n pending congested cancelled. ops ! i = Reserve now n pending congested cancelled \<and> latest_call h \<le> now \<longrightarrow>
       (answers ! i = Ok True \<longleftrightarrow> (\<exists>p. policy = Some p \<and> \<not> pending \<and> \<not> congested \<and> \<not> cancelled \<and> \<not> list_ex cancels (heard h)
          \<and> payload_log h \<noteq> [] \<and> 1 \<le> n \<and> n \<le> 4096
          \<and> now - fst (last (payload_log h)) < from_millis (idle_timeout_ms p)
          \<and> from_millis (interval_ms p) \<le> now - fst (last (if grant_log h = [] then payload_log h else grant_log h))
          \<and> 100 * (log_bytes (grant_log h) + n) \<le> log_bytes (payload_log h) * overhead_percent p
          \<and> log_bytes (grant_log h) + n \<le> maximum_bytes p)))"
proof -
  have "cover_answer_ok policy (zip (take i ops) (take i answers)) (ops ! i) (answers ! i)"
    using run_linked [OF linked_new [OF assms(1)] assms(2,3)] by simp
  then show ?thesis unfolding cover_answer_ok_def cover_due_def Let_def by blast
qed

definition sample_cover :: cover_policy where
  "sample_cover = \<lparr>interval_ms = 100, idle_timeout_ms = 500, maximum_bytes = 500, overhead_percent = 10\<rparr>"

text \<open>A payload of 2560 bytes; 128 bytes of cover after 100 ms are granted, 64 more after another 50 ms are not.\<close>

theorem cover_budget_witness:
  "\<exists>s answers s'. cover_new (Some sample_cover) = Ok s
     \<and> cover_run s [Payload 0 2560, Reserve (from_millis 100) 128 False False False, Reserve (from_millis 150) 64 False False False] = (answers, s')
     \<and> answers ! 1 = Ok True \<and> answers ! 2 \<noteq> Ok True"
proof -
  let ?ops = "[Payload 0 2560, Reserve (from_millis 100) 128 False False False, Reserve (from_millis 150) 64 False False False]"
  obtain s where s: "cover_new (Some sample_cover) = Ok s" by (simp add: cover_new_def cover_validate_def sample_cover_def)
  obtain answers s' where r: "cover_run s ?ops = (answers, s')" by fastforce
  then obtain a b c where abc: "answers = [a, b, c]" by (auto split: prod.splits)
  note b = cover_budget [OF s r, unfolded abc Let_def]
  have a0: "\<forall>e. a \<noteq> Err e" using b [of 0] by (simp add: latest_call_def heard_def)
  have h1: "heard [(Payload 0 2560, a)] = [Payload 0 2560]" "grant_log [(Payload 0 2560, a)] = []"
    using a0 by (simp_all add: heard_def grant_log_def map_filter_simps)
  then have b1: "b = Ok True" using b [of 1]
    by (simp add: latest_call_def payload_log_def map_filter_simps sample_cover_def from_millis_def ex_bool_eq)
  have h2: "heard [(Payload 0 2560, a), (Reserve (from_millis 100) 128 False False False, b)] = [Payload 0 2560, Reserve (from_millis 100) 128 False False False]"
    "grant_log [(Payload 0 2560, a), (Reserve (from_millis 100) 128 False False False, b)] = [(from_millis 100, 128)]"
    using a0 b1 by (simp_all add: heard_def grant_log_def map_filter_simps)
  have "c \<noteq> Ok True" using b [of 2] h2
    by (simp add: latest_call_def payload_log_def map_filter_simps sample_cover_def from_millis_def numeral_2_eq_2 ex_bool_eq)
  with s r b1 abc show ?thesis by auto
qed

end
