(* ===== verification/Profile_Padding.thy ===== *)
theory Profile_Padding
  imports Framing
begin

text \<open>
  The profile envelopes of \<open>shph-obfuscation/src/lib.rs\<close>: the padding tiers and their wire
  identifiers, \<open>apply_profile_into_with_rng\<close>, its rejection sampler and
  \<open>remove_profile_in_place\<close>.  A buffer that the source wipes and clears on an error is the
  empty list.  The rejection sampler is a loop without a bound, so it is a partial function
  whose value \<open>None\<close> means that it does not return.
\<close>

section \<open>Tiers\<close>

definition PROFILE_MAGIC :: bytes where "PROFILE_MAGIC = [0x53, 0x50, 0x41, 0x44]"
definition PROFILE_HEADER_BYTES :: usize where "PROFILE_HEADER_BYTES = 7"
definition LOW_JITTER_BYTES :: usize where "LOW_JITTER_BYTES = 7"

datatype profile_tier = Low | Medium | High | TunedLow | TunedMedium | TunedHigh

fun as_str :: "profile_tier \<Rightarrow> string" where
  "as_str Low = ''low''"
| "as_str Medium = ''medium''"
| "as_str High = ''high''"
| "as_str TunedLow = ''tuned-low''"
| "as_str TunedMedium = ''tuned-medium''"
| "as_str TunedHigh = ''tuned-high''"

fun tier_id :: "profile_tier \<Rightarrow> byte" where
  "tier_id Low = 0"
| "tier_id Medium = 1"
| "tier_id High = 2"
| "tier_id TunedLow = 3"
| "tier_id TunedMedium = 4"
| "tier_id TunedHigh = 5"

definition from_id :: "byte \<Rightarrow> profile_tier option" where
  "from_id i = (if i = 0 then Some Low else if i = 1 then Some Medium else if i = 2 then Some High
     else if i = 3 then Some TunedLow else if i = 4 then Some TunedMedium
     else if i = 5 then Some TunedHigh else None)"

fun base_tiers :: "profile_tier \<Rightarrow> usize list" where
  "base_tiers Low = [128, 256]"
| "base_tiers Medium = [128, 256, 512, 1024, 1360]"
| "base_tiers High = [512, 1024, 1360]"
| "base_tiers TunedLow = [64, 96, 128, 192, 256, 512, 768]"
| "base_tiers TunedMedium = [128, 256, 512, 768, 1024, 1360]"
| "base_tiers TunedHigh = [512, 768, 1024, 1280, 1360]"

definition from_shroud_profile :: "shroud_profile \<Rightarrow> profile_tier" where
  "from_shroud_profile p =
     (if sp_name p = ''tuned-low'' then TunedLow
      else if sp_name p = ''tuned-medium'' then TunedMedium
      else if sp_name p = ''tuned-high'' then TunedHigh
      else if sp_name p = ''low-latency'' then Low
      else if sp_name p \<in> {''bulk'', ''extreme-lab''} then High
      else Medium)"

fun accepts_frame_len :: "profile_tier \<Rightarrow> usize \<Rightarrow> bool" where
  "accepts_frame_len Low n \<longleftrightarrow>
     128 \<le> n \<and> n \<le> 128 + LOW_JITTER_BYTES \<or> 256 \<le> n \<and> n \<le> 256 + LOW_JITTER_BYTES"
| "accepts_frame_len TunedLow n \<longleftrightarrow> list_ex (\<lambda>base. base \<le> n \<and> n \<le> base + 3) (base_tiers TunedLow)"
| "accepts_frame_len t n \<longleftrightarrow> n \<in> set (base_tiers t)"

fun tier_jitter :: "profile_tier \<Rightarrow> usize" where
  "tier_jitter Low = LOW_JITTER_BYTES"
| "tier_jitter TunedLow = 3"
| "tier_jitter _ = 0"

definition max_canonical_frame_len :: "profile_tier \<Rightarrow> usize" where
  "max_canonical_frame_len t = last (base_tiers t) + tier_jitter t"

definition max_payload_bytes :: "profile_tier \<Rightarrow> usize" where
  "max_payload_bytes t = last (base_tiers t) - PROFILE_HEADER_BYTES"

definition profile_tier_from_str :: "string \<Rightarrow> profile_tier result" where
  "profile_tier_from_str value =
     (let s = to_ascii_lowercase (str_trim value) in
      if s \<in> {''low'', ''low-latency''} then Ok Low
      else if s \<in> {''medium'', ''balanced''} then Ok Medium
      else if s \<in> {''high'', ''bulk'', ''extreme'', ''extreme-lab''} then Ok High
      else if s \<in> {''tuned'', ''optimized'', ''tuned-medium'', ''optimized-medium''} then Ok TunedMedium
      else if s \<in> {''tuned-low'', ''optimized-low''} then Ok TunedLow
      else if s \<in> {''tuned-high'', ''optimized-high''} then Ok TunedHigh
      else Err (Obfuscation (''unsupported padding profile: '' @ value)))"

section \<open>Applying an envelope\<close>

text \<open>\<open>WipeBufferOnError::prepare\<close>: wipe what a shrink retires, then clear.\<close>

definition wipe_prepare :: "bytes \<Rightarrow> usize \<Rightarrow> bytes" where
  "wipe_prepare buffer target_len =
     take 0 (if target_len < length buffer
       then take target_len buffer @ replicate (length buffer - target_len) 0 else buffer)"

partial_function (option) sample_loop :: "'g rng \<Rightarrow> u64 \<Rightarrow> u32 \<Rightarrow> 'g \<Rightarrow> (usize \<times> 'g) option" where
  "sample_loop R limit upper g =
     (if fst (next_u32 R g) < limit then Some (fst (next_u32 R g) mod upper, snd (next_u32 R g))
      else sample_loop R limit upper (snd (next_u32 R g)))"

definition sample_uniform_below :: "'g rng \<Rightarrow> u32 \<Rightarrow> 'g \<Rightarrow> (usize \<times> 'g) option" where
  "sample_uniform_below R upper g =
     (if upper \<le> 1 then Some (0, g)
      else let rnge = u32_max + 1; limit = rnge - rnge mod upper in sample_loop R limit upper g)"

definition draw_jitter :: "'g rng \<Rightarrow> profile_tier \<Rightarrow> 'g \<Rightarrow> (usize \<times> 'g) option" where
  "draw_jitter R profile g =
     (if profile \<in> {Low, TunedLow} then
        sample_uniform_below R ((if profile = TunedLow then 3 else LOW_JITTER_BYTES) + 1) g
      else Some (0, g))"

definition apply_profile_into_with_rng ::
    "'g rng \<Rightarrow> profile_tier \<Rightarrow> bytes \<Rightarrow> bytes \<Rightarrow> 'g \<Rightarrow> (unit result \<times> bytes \<times> 'g) option" where
  "apply_profile_into_with_rng R profile payload framed g =
     (case checked_add usize_max PROFILE_HEADER_BYTES (length payload) of
        None \<Rightarrow> Some (Err (Obfuscation ''profile payload length overflow''), [], g)
      | Some minimum \<Rightarrow>
     (case find (\<lambda>sz. minimum \<le> sz) (base_tiers profile) of
        None \<Rightarrow> Some (Err (Obfuscation (as_str profile @ '' profile cannot carry a ''
                  @ show_nat (length payload) @ ''-byte payload'')), [], g)
      | Some base \<Rightarrow>
     (if u16_max < length payload then Some (Err (Obfuscation ''profile payload exceeds u16''), [], g)
      else case draw_jitter R profile g of
        None \<Rightarrow> None
      | Some (jitter, g1) \<Rightarrow>
     (case checked_add usize_max base jitter of
        None \<Rightarrow> Some (Err (Obfuscation ''profile frame length overflow''), [], g1)
      | Some frame_len \<Rightarrow>
      if u16_max < frame_len then Some (Err (Obfuscation ''profile frame length exceeds u16''), [], g1)
      else
        let b0 = resize (wipe_prepare framed frame_len) frame_len;
            b1 = write_at b0 0 PROFILE_MAGIC;
            b2 = b1[length PROFILE_MAGIC := tier_id profile];
            b3 = write_at b2 5 (be_bytes 2 (length payload));
            b4 = write_at b3 PROFILE_HEADER_BYTES payload
        in if PROFILE_HEADER_BYTES + length payload < length b4 then
             (case fill_bytes R (length b4 - (PROFILE_HEADER_BYTES + length payload)) g1 of
                (None, g2) \<Rightarrow> Some (Err (Crypto ''OS randomness unavailable''), [], g2)
              | (Some tail, g2) \<Rightarrow>
                  Some (Ok (), write_at b4 (PROFILE_HEADER_BYTES + length payload) tail, g2))
           else Some (Ok (), b4, g1)))))"

definition apply_profile :: "'g rng \<Rightarrow> profile_tier \<Rightarrow> bytes \<Rightarrow> 'g \<Rightarrow> (bytes result \<times> 'g) option" where
  "apply_profile R profile payload g =
     map_option (\<lambda>(r, framed, g'). (map_ok (\<lambda>_. framed) r, g'))
       (apply_profile_into_with_rng R profile payload [] g)"

section \<open>Removing an envelope\<close>

definition remove_profile_in_place :: "profile_tier \<Rightarrow> bytes \<Rightarrow> unit result \<times> bytes" where
  "remove_profile_in_place profile framed =
     (if length framed < length PROFILE_MAGIC \<or> slice framed 0 (length PROFILE_MAGIC) \<noteq> PROFILE_MAGIC
        then (Ok (), framed)
      else if length framed < PROFILE_HEADER_BYTES
        then (Err (Obfuscation ''profile envelope is truncated''), [])
      else if framed ! length PROFILE_MAGIC \<noteq> tier_id profile
        then (Err (Obfuscation ''profile envelope tier mismatch''), [])
      else if \<not> accepts_frame_len profile (length framed)
        then (Err (Obfuscation ''profile envelope size is not a canonical tier''), [])
      else let payload_len = of_be [framed ! 5, framed ! 6] in
        if length framed - PROFILE_HEADER_BYTES < payload_len
          then (Err (Obfuscation ''profile envelope payload length exceeds frame''), [])
        else (Ok (), take payload_len (write_at framed 0
               (slice framed PROFILE_HEADER_BYTES (PROFILE_HEADER_BYTES + payload_len)))))"

definition remove_profile :: "profile_tier \<Rightarrow> bytes \<Rightarrow> bytes result" where
  "remove_profile profile framed =
     (case remove_profile_in_place profile framed of (r, reusable) \<Rightarrow> map_ok (\<lambda>_. reusable) r)"

section \<open>The envelope as a codec\<close>

definition profile_frame :: "profile_tier \<Rightarrow> bytes \<Rightarrow> bytes \<Rightarrow> bytes" where
  "profile_frame t payload tail = PROFILE_MAGIC @ [tier_id t] @ be_bytes 2 (length payload) @ payload @ tail"

definition profile_legal :: "profile_tier \<Rightarrow> bytes \<Rightarrow> bytes \<Rightarrow> bool" where
  "profile_legal t payload tail \<longleftrightarrow> accepts_frame_len t (PROFILE_HEADER_BYTES + length payload + length tail)"

lemma accepts_frame_len_iff:
  "accepts_frame_len t n \<longleftrightarrow> (\<exists>base\<in>set (base_tiers t). base \<le> n \<and> n \<le> base + tier_jitter t)"
  by (cases t) (auto simp: list_ex_iff LOW_JITTER_BYTES_def)

lemma base_tier_bounds: "base \<in> set (base_tiers t) \<Longrightarrow> 64 \<le> base \<and> base + tier_jitter t \<le> 1360"
  by (cases t) (auto simp: LOW_JITTER_BYTES_def)

lemma accepts_frame_len_bounds: "accepts_frame_len t n \<Longrightarrow> 64 \<le> n \<and> n \<le> 1360"
  using base_tier_bounds by (fastforce simp: accepts_frame_len_iff)

lemma sorted_base_tiers: "sorted (base_tiers t)"
  by (cases t) auto

lemma find_base_tier:
  "find (\<lambda>sz. m \<le> sz) (base_tiers t) = None \<longleftrightarrow> last (base_tiers t) < m"
  "find (\<lambda>sz. m \<le> sz) (base_tiers t) = Some b \<Longrightarrow> b \<in> set (base_tiers t) \<and> m \<le> b"
  by (cases t; auto simp: find_None_iff) (auto simp: find_Some_iff)

lemma sample_uniform_below_divides:
  assumes "rng_ok R" and "1 < upper" and "upper dvd u32_max + 1"
  shows "sample_uniform_below R upper g = Some (fst (next_u32 R g) mod upper, snd (next_u32 R g))"
proof -
  have "fst (next_u32 R g) < u32_max + 1" using assms(1) by (simp add: rng_ok_def le_imp_less_Suc)
  with assms(2,3) show ?thesis
    by (simp add: sample_uniform_below_def Let_def dvd_eq_mod_eq_0 [symmetric] sample_loop.simps)
qed

lemma draw_jitter_bounded:
  assumes "rng_ok R"
  shows "\<exists>j g'. draw_jitter R t g = Some (j, g') \<and> j \<le> tier_jitter t"
proof -
  have "4 dvd u32_max + 1" "8 dvd u32_max + 1" by (simp_all add: u32_max_def)
  then show ?thesis
    using sample_uniform_below_divides [OF assms, of 4 g] sample_uniform_below_divides [OF assms, of 8 g]
    by (cases t) (auto simp: draw_jitter_def LOW_JITTER_BYTES_def intro: less_Suc_eq_le [THEN iffD1])
qed

lemma envelope_layout:
  assumes "PROFILE_HEADER_BYTES + length payload \<le> n"
  shows "write_at (write_at ((write_at (resize [] n) 0 PROFILE_MAGIC)
      [length PROFILE_MAGIC := tier_id t]) 5 (be_bytes 2 (length payload))) PROFILE_HEADER_BYTES payload
    = profile_frame t payload (replicate (n - (PROFILE_HEADER_BYTES + length payload)) 0)"
proof -
  have m: "length PROFILE_MAGIC = 4" by (simp add: PROFILE_MAGIC_def)
  with assms have 1: "write_at (resize [] n) 0 PROFILE_MAGIC = PROFILE_MAGIC @ replicate (n - 4) 0"
    by (simp add: codec_simps PROFILE_HEADER_BYTES_def)
  have 2: "(PROFILE_MAGIC @ replicate (n - 4) 0)[4 := tier_id t]
      = (PROFILE_MAGIC @ [tier_id t]) @ replicate (n - 4 - 1) 0"
    using m assms by (intro update_front) (auto simp: PROFILE_HEADER_BYTES_def)
  have 3: "write_at ((PROFILE_MAGIC @ [tier_id t]) @ replicate (n - 4 - 1) 0) 5 (be_bytes 2 (length payload))
      = ((PROFILE_MAGIC @ [tier_id t]) @ be_bytes 2 (length payload)) @ replicate (n - 7) 0"
    using m assms by (subst write_at_front) (auto simp: PROFILE_HEADER_BYTES_def)
  have 4: "write_at (((PROFILE_MAGIC @ [tier_id t]) @ be_bytes 2 (length payload)) @ replicate (n - 7) 0) 7 payload
      = (((PROFILE_MAGIC @ [tier_id t]) @ be_bytes 2 (length payload)) @ payload) @ replicate (n - 7 - length payload) 0"
    using m assms by (intro write_at_front) (auto simp: PROFILE_HEADER_BYTES_def)
  show ?thesis
    unfolding 1 m 2 3 PROFILE_HEADER_BYTES_def 4 by (simp add: profile_frame_def)
qed

lemma envelope_tail:
  assumes "length tail = m"
  shows "write_at (profile_frame t payload (replicate m 0)) (PROFILE_HEADER_BYTES + length payload) tail
    = profile_frame t payload tail"
proof -
  have "length (PROFILE_MAGIC @ [tier_id t] @ be_bytes 2 (length payload) @ payload)
      = PROFILE_HEADER_BYTES + length payload"
    by (simp add: PROFILE_MAGIC_def PROFILE_HEADER_BYTES_def)
  from write_at_front [OF this, of tail m 0] assms show ?thesis by (simp add: profile_frame_def)
qed

lemma length_profile_frame:
  "length (profile_frame t payload tail) = PROFILE_HEADER_BYTES + length payload + length tail"
  by (simp add: profile_frame_def PROFILE_MAGIC_def PROFILE_HEADER_BYTES_def)

lemma apply_profile_step:
  assumes R: "rng_ok R" and len: "length payload \<le> max_payload_bytes t"
  shows "\<exists>tail r g'. profile_legal t payload tail
    \<and> apply_profile_into_with_rng R t payload framed g = Some (r, g')
    \<and> (r = Ok () \<and> fst g' = profile_frame t payload tail
       \<or> r = Err (Crypto ''OS randomness unavailable'') \<and> fst g' = [] \<and> (\<exists>n g. fst (fill_bytes R n g) = None))"
proof -
  have last: "64 \<le> last (base_tiers t)" "last (base_tiers t) \<le> 1360" by (cases t; simp)+
  with len have min: "PROFILE_HEADER_BYTES + length payload \<le> last (base_tiers t)"
    by (simp add: max_payload_bytes_def PROFILE_HEADER_BYTES_def)
  then obtain base where find: "find (\<lambda>sz. PROFILE_HEADER_BYTES + length payload \<le> sz) (base_tiers t) = Some base"
    using find_base_tier(1) [of "PROFILE_HEADER_BYTES + length payload" t] by (metis not_None_eq not_less)
  from find_base_tier(2) [OF this] have base: "base \<in> set (base_tiers t)"
    and ge: "PROFILE_HEADER_BYTES + length payload \<le> base" by auto
  from draw_jitter_bounded [OF R] obtain j g1 where j: "draw_jitter R t g = Some (j, g1)"
    and jb: "j \<le> tier_jitter t" by blast
  define n where "n = base + j"
  note bb = base_tier_bounds [OF base]
  have n: "PROFILE_HEADER_BYTES + length payload \<le> n" "n \<le> 1360" "accepts_frame_len t n"
    using ge jb bb base by (auto simp: n_def accepts_frame_len_iff intro!: bexI [of _ base])
  note layout = envelope_layout [OF n(1), of t]
  have eq: "apply_profile_into_with_rng R t payload framed g =
    (if PROFILE_HEADER_BYTES + length payload < n then
       (case fill_bytes R (n - (PROFILE_HEADER_BYTES + length payload)) g1 of
          (None, g2) \<Rightarrow> Some (Err (Crypto ''OS randomness unavailable''), [], g2)
        | (Some tail, g2) \<Rightarrow> Some (Ok (), write_at (profile_frame t payload
            (replicate (n - (PROFILE_HEADER_BYTES + length payload)) 0))
            (PROFILE_HEADER_BYTES + length payload) tail, g2))
     else Some (Ok (), profile_frame t payload
            (replicate (n - (PROFILE_HEADER_BYTES + length payload)) 0), g1))"
    using n min last find j
    by (simp add: apply_profile_into_with_rng_def checked_add_def usize_max_def u16_max_def n_def [symmetric]
        layout wipe_prepare_def length_profile_frame Let_def split: prod.split option.split)
  show ?thesis
  proof (cases "PROFILE_HEADER_BYTES + length payload < n")
    case False
    with n eq show ?thesis by (intro exI [of _ "[]"]) (auto simp: profile_legal_def)
  next
    case True
    obtain f g2 where f: "fill_bytes R (n - (PROFILE_HEADER_BYTES + length payload)) g1 = (f, g2)"
      by fastforce
    show ?thesis
    proof (cases f)
      case None
      with f have "\<exists>n g. fst (fill_bytes R n g) = None" by (metis fst_conv)
      with None True f eq n show ?thesis
        by (intro exI [of _ "replicate (n - (PROFILE_HEADER_BYTES + length payload)) 0"])
          (auto simp: profile_legal_def)
    next
      case (Some tail)
      with f rng_ok_fill [OF R] have "length tail = n - (PROFILE_HEADER_BYTES + length payload)" by blast
      with Some True f eq n envelope_tail [of tail] show ?thesis
        by (intro exI [of _ tail]) (auto simp: profile_legal_def)
    qed
  qed
qed

lemma remove_profile_frame:
  assumes "profile_legal t payload tail"
  shows "remove_profile_in_place t (profile_frame t payload tail) = (Ok (), payload)"
proof -
  let ?f = "profile_frame t payload tail"
  from assms accepts_frame_len_bounds have l: "length payload < 65536"
    and a: "accepts_frame_len t (length ?f)"
    by (fastforce simp: profile_legal_def, simp add: profile_legal_def length_profile_frame)
  define hdr where "hdr = PROFILE_MAGIC @ [tier_id t] @ be_bytes 2 (length payload)"
  have f: "?f = hdr @ payload @ tail" and h: "length hdr = 7"
    by (simp_all add: profile_frame_def hdr_def PROFILE_MAGIC_def)
  have "of_be [?f ! 5, ?f ! 6] = length payload"
    using of_be_be_bytes_id [of "length payload" 2] l
    by (simp add: profile_frame_def PROFILE_MAGIC_def numeral_2_eq_2)
  moreover have "slice ?f 0 4 = PROFILE_MAGIC" "?f ! 4 = tier_id t" "length PROFILE_MAGIC = 4"
    by (simp_all add: profile_frame_def PROFILE_MAGIC_def slice_def)
  moreover have "slice ?f 7 (7 + length payload) = payload"
    unfolding f using h by (intro slice_append_mid) auto
  ultimately show ?thesis using a
    by (simp add: remove_profile_in_place_def length_profile_frame PROFILE_HEADER_BYTES_def write_at_def)
qed

lemma remove_profile_only:
  assumes "remove_profile_in_place t b = (Ok (), m)" and "take 4 b = PROFILE_MAGIC"
  shows "\<exists>tail. profile_legal t m tail \<and> b = profile_frame t m tail"
proof -
  define k where "k = of_be [b ! 5, b ! 6]"
  have l4: "length PROFILE_MAGIC = 4" by (simp add: PROFILE_MAGIC_def)
  from assms(2) have "length (take 4 b) = length PROFILE_MAGIC" by simp
  with l4 have lb: "4 \<le> length b" by simp
  with assms have len: "7 \<le> length b" and id: "b ! 4 = tier_id t"
    and acc: "accepts_frame_len t (length b)" and k: "k \<le> length b - 7"
    and m: "m = take k (write_at b 0 (slice b 7 (7 + k)))"
    by (auto simp: remove_profile_in_place_def l4 PROFILE_HEADER_BYTES_def Let_def k_def slice_def
        split: if_splits)
  have m': "m = slice b 7 (7 + k)" using len k by (simp add: m write_at_def)
  have "be_bytes 2 k = [b ! 5, b ! 6]"
    using be_bytes_of_be [of "[b ! 5, b ! 6]"] by (simp add: k_def numeral_2_eq_2)
  moreover have "[b ! 5, b ! 6] = slice b 5 7"
    using len slice_one [of 5 b] slice_one [of 6 b] slice_join [of 5 6 7 b] by simp
  moreover have "[tier_id t] = slice b 4 5" using len slice_one [of 4 b] id by simp
  moreover have "b = slice b 0 4 @ slice b 4 5 @ slice b 5 7 @ slice b 7 (7 + k) @ drop (7 + k) b"
    using buffer_split [of b 4] drop_split [of 4 5 b] drop_split [of 5 7 b] drop_split [of 7 "7 + k" b]
    by simp
  moreover have "length m = k" using len k by (simp add: m')
  ultimately have "b = profile_frame t m (drop (7 + k) b)"
    using assms(2) by (simp add: profile_frame_def m' slice_def)
  moreover have "profile_legal t m (drop (7 + k) b)"
    using acc len k \<open>length m = k\<close> by (simp add: profile_legal_def PROFILE_HEADER_BYTES_def)
  ultimately show ?thesis by blast
qed

interpretation profile: padded_codec "profile_frame t" "remove_profile t" "profile_legal t" for t
  by unfold_locales (simp add: remove_profile_def remove_profile_frame)

section \<open>Properties\<close>

text \<open>A payload of at most \<open>max_payload_bytes\<close> always gets an envelope: the jitter sampler
  returns, the frame has one of the lengths of the tier, and removing the profile gives the
  payload back.  A larger payload is refused and the buffer is left empty.\<close>

lemma profile_roundtrip:
  assumes "rng_ok R" and "\<forall>n g. fst (fill_bytes R n g) \<noteq> None"
  shows "if length payload \<le> max_payload_bytes t
    then \<exists>frame g'. apply_profile_into_with_rng R t payload framed g = Some (Ok (), frame, g')
      \<and> accepts_frame_len t (length frame)
      \<and> remove_profile_in_place t frame = (Ok (), payload)
    else \<exists>e. apply_profile_into_with_rng R t payload framed g = Some (Err (Obfuscation e), [], g)"
proof (cases "length payload \<le> max_payload_bytes t")
  case True
  from apply_profile_step [OF assms(1) this, of framed g] assms(2) obtain tail g' where
    "profile_legal t payload tail" "apply_profile_into_with_rng R t payload framed g = Some (Ok (), g')"
    "fst g' = profile_frame t payload tail" by blast
  with True show ?thesis
    by (cases g') (auto simp: remove_profile_frame profile_legal_def length_profile_frame)
next
  case False
  moreover have "7 < last (base_tiers t)" by (cases t) simp_all
  ultimately have "find (\<lambda>sz. PROFILE_HEADER_BYTES + length payload \<le> sz) (base_tiers t) = None"
    by (subst find_base_tier) (auto simp: max_payload_bytes_def PROFILE_HEADER_BYTES_def)
  with False show ?thesis by (auto simp: apply_profile_into_with_rng_def checked_add_def)
qed

text \<open>What \<open>remove_profile\<close> accepts: a buffer without the marker is passed through unchanged,
  and a buffer with the marker is accepted exactly when it is an envelope of this tier with a
  canonical length, whose payload it returns.  Everything else fails closed.\<close>

lemma remove_profile_exact:
  "remove_profile t b = Ok m \<longleftrightarrow>
     (if take 4 b = PROFILE_MAGIC then \<exists>tail. profile_legal t m tail \<and> b = profile_frame t m tail
      else m = b)"
proof (cases "take 4 b = PROFILE_MAGIC")
  case True
  have "remove_profile t b = Ok m \<longleftrightarrow> remove_profile_in_place t b = (Ok (), m)"
    by (auto simp: remove_profile_def split: prod.splits)
  with True show ?thesis using remove_profile_only remove_profile_frame by auto
next
  case False
  then have "remove_profile_in_place t b = (Ok (), b)"
    by (auto simp: remove_profile_in_place_def PROFILE_MAGIC_def slice_def eval_nat_numeral)
  with False show ?thesis by (auto simp: remove_profile_def)
qed

text \<open>The wire identifiers of the tiers are distinct, decode to their tier, and no other byte
  decodes; the name of a tier parses back to it.\<close>

lemma tier_ids_roundtrip:
  "(from_id i = Some t \<longleftrightarrow> i = tier_id t) \<and> profile_tier_from_str (as_str t) = Ok t"
proof
  show "from_id i = Some t \<longleftrightarrow> i = tier_id t"
    by (cases t) (auto simp: from_id_def)
  show "profile_tier_from_str (as_str t) = Ok t"
    by (cases t) (simp_all add: profile_tier_from_str_def str_trim_graphic graphic_def
        to_ascii_lowercase_def ascii_lower_def)
qed

end
