(* ===== verification/Phantom_One.thy ===== *)
theory Phantom_One
  imports Profile_Padding Replay_Window
begin

text \<open>
  The Phantom One inner envelope of \<open>shph-transport/src/phantom_one.rs\<close>: configuration,
  target-size selection, the encoder with its sequence number, metrics and padding budget, and
  the decoder with its 64-entry replay bitmap.  The generator \<open>StdRng\<close> is the parameter \<open>R\<close> with
  its state kept in the encoder; a constructor takes the seeded state.  A buffer that the source
  wipes and clears on an error is the empty list.
\<close>

section \<open>Configuration\<close>

definition PHANTOM_ONE_MAGIC :: bytes where "PHANTOM_ONE_MAGIC = [0x50, 0x48, 0x31, 0]"
definition PHANTOM_ONE_VERSION :: byte where "PHANTOM_ONE_VERSION = 1"
definition PHANTOM_ONE_HEADER_BYTES :: usize where "PHANTOM_ONE_HEADER_BYTES = 24"
definition PHANTOM_ONE_MAX_ENVELOPE_BYTES :: usize where "PHANTOM_ONE_MAX_ENVELOPE_BYTES = u16_max"
definition PHANTOM_ONE_MAX_PAYLOAD_BYTES :: usize where
  "PHANTOM_ONE_MAX_PAYLOAD_BYTES = PHANTOM_ONE_MAX_ENVELOPE_BYTES - PHANTOM_ONE_HEADER_BYTES"
definition PHANTOM_ONE_MAX_PADDING_BYTES :: usize where "PHANTOM_ONE_MAX_PADDING_BYTES = 4096"
definition PHANTOM_ONE_DEFAULT_REPLAY_WINDOW :: usize where "PHANTOM_ONE_DEFAULT_REPLAY_WINDOW = 64"

datatype phantom_frame_type = Data | Control | Keepalive

fun frame_type_byte :: "phantom_frame_type \<Rightarrow> byte" where
  "frame_type_byte Data = 1"
| "frame_type_byte Control = 2"
| "frame_type_byte Keepalive = 3"

definition frame_type_try_from :: "byte \<Rightarrow> phantom_frame_type result" where
  "frame_type_try_from v =
     (if v = frame_type_byte Data then Ok Data
      else if v = frame_type_byte Control then Ok Control
      else if v = frame_type_byte Keepalive then Ok Keepalive
      else Err (Protocol ''unsupported Phantom One frame type''))"

datatype size_selection = FirstFit | Weighted "u16 list"

record phantom_config =
  pc_profile :: profile_tier
  pc_min_padding :: usize
  pc_max_padding :: usize
  pc_profile_bound :: bool
  pc_selection :: size_selection
  pc_padding_budget :: "u64 option"

record envelope_metrics =
  em_frames :: u64
  em_payload_bytes :: u64
  em_header_bytes :: u64
  em_padding_bytes :: u64

definition phantom_validate :: "phantom_config \<Rightarrow> unit result" where
  "phantom_validate c =
     (if (case pc_selection c of
            FirstFit \<Rightarrow> False
          | Weighted weights \<Rightarrow>
              let count = length (base_tiers (pc_profile c)) in
              \<not> pc_profile_bound c \<or> list_all (\<lambda>w. w = 0) (take count weights)
              \<or> list_ex (\<lambda>w. w \<noteq> 0) (drop count weights))
        then Err (Config ''invalid Phantom One class weights'')
      else if pc_max_padding c < pc_min_padding c
        then Err (Config ''Phantom One minimum padding must not exceed maximum padding'')
      else if PHANTOM_ONE_MAX_PADDING_BYTES < pc_max_padding c
        then Err (Config (''Phantom One maximum padding must not exceed ''
               @ show_nat PHANTOM_ONE_MAX_PADDING_BYTES @ '' bytes''))
      else Ok ())"

definition phantom_config_new :: "usize \<Rightarrow> usize \<Rightarrow> phantom_config result" where
  "phantom_config_new mn mx =
     (let config = \<lparr>pc_profile = Medium, pc_min_padding = mn, pc_max_padding = mx,
        pc_profile_bound = False, pc_selection = FirstFit, pc_padding_budget = None\<rparr>
      in map_ok (\<lambda>_. config) (phantom_validate config))"

definition phantom_config_for_profile :: "profile_tier \<Rightarrow> phantom_config" where
  "phantom_config_for_profile t = \<lparr>pc_profile = t, pc_min_padding = 0,
     pc_max_padding = PHANTOM_ONE_MAX_PADDING_BYTES, pc_profile_bound = True,
     pc_selection = FirstFit, pc_padding_budget = None\<rparr>"

definition phantom_config_with_profile :: "phantom_config \<Rightarrow> profile_tier \<Rightarrow> phantom_config" where
  "phantom_config_with_profile c t = c\<lparr>pc_profile := t, pc_profile_bound := True\<rparr>"

definition phantom_config_with_selection :: "phantom_config \<Rightarrow> size_selection \<Rightarrow> phantom_config result" where
  "phantom_config_with_selection c s =
     (let c' = c\<lparr>pc_selection := s\<rparr> in map_ok (\<lambda>_. c') (phantom_validate c'))"

definition phantom_config_with_padding_budget :: "phantom_config \<Rightarrow> u64 \<Rightarrow> phantom_config" where
  "phantom_config_with_padding_budget c n = c\<lparr>pc_padding_budget := Some n\<rparr>"

definition phantom_config_default :: phantom_config where
  "phantom_config_default = \<lparr>pc_profile = Medium, pc_min_padding = 0, pc_max_padding = 64,
     pc_profile_bound = False, pc_selection = FirstFit, pc_padding_budget = None\<rparr>"

definition validate_path_mtu :: "usize \<Rightarrow> unit result" where
  "validate_path_mtu mtu =
     (if PHANTOM_ONE_HEADER_BYTES \<le> mtu \<and> mtu \<le> PHANTOM_ONE_MAX_ENVELOPE_BYTES then Ok ()
      else Err (Config (''Phantom One path MTU must be between '' @ show_nat PHANTOM_ONE_HEADER_BYTES
             @ '' and '' @ show_nat PHANTOM_ONE_MAX_ENVELOPE_BYTES @ '' bytes'')))"

definition validate_payload_length :: "usize \<Rightarrow> unit result" where
  "validate_payload_length n =
     (if PHANTOM_ONE_MAX_PAYLOAD_BYTES < n \<or> u16_max < n
        then Err (Protocol ''Phantom One payload exceeds the Phantom One length bound'')
      else Ok ())"

section \<open>Encoder\<close>

record 'g phantom_encoder =
  pe_generation :: u32
  pe_next_sequence :: "u64 option"
  pe_config :: phantom_config
  pe_rng :: 'g
  pe_metrics :: envelope_metrics

definition envelope_metrics_default :: envelope_metrics where
  "envelope_metrics_default =
     \<lparr>em_frames = 0, em_payload_bytes = 0, em_header_bytes = 0, em_padding_bytes = 0\<rparr>"

definition phantom_encoder_from_validated_config :: "u32 \<Rightarrow> 'g \<Rightarrow> phantom_config \<Rightarrow> 'g phantom_encoder" where
  "phantom_encoder_from_validated_config generation g config =
     \<lparr>pe_generation = generation, pe_next_sequence = Some 0, pe_config = config, pe_rng = g,
      pe_metrics = envelope_metrics_default\<rparr>"

definition phantom_encoder_new :: "u32 \<Rightarrow> 'g \<Rightarrow> 'g phantom_encoder" where
  "phantom_encoder_new generation g =
     phantom_encoder_from_validated_config generation g phantom_config_default"

definition phantom_encoder_with_profile :: "u32 \<Rightarrow> 'g \<Rightarrow> profile_tier \<Rightarrow> 'g phantom_encoder" where
  "phantom_encoder_with_profile generation g t =
     phantom_encoder_from_validated_config generation g (phantom_config_for_profile t)"

definition phantom_encoder_with_config :: "u32 \<Rightarrow> 'g \<Rightarrow> phantom_config \<Rightarrow> 'g phantom_encoder result" where
  "phantom_encoder_with_config generation g config =
     map_ok (\<lambda>_. phantom_encoder_from_validated_config generation g config) (phantom_validate config)"

definition phantom_encoder_from_seed_at :: "u32 \<Rightarrow> u64 \<Rightarrow> 'g \<Rightarrow> 'g phantom_encoder" where
  "phantom_encoder_from_seed_at generation sequence g =
     (phantom_encoder_from_validated_config generation g phantom_config_default)
       \<lparr>pe_next_sequence := Some sequence\<rparr>"

definition remaining_padding :: "'g phantom_encoder \<Rightarrow> usize" where
  "remaining_padding e = (case pc_padding_budget (pe_config e) of
     None \<Rightarrow> usize_max
   | Some budget \<Rightarrow>
       let n = budget - em_padding_bytes (pe_metrics e) in if n \<le> usize_max then n else usize_max)"

text \<open>The loop over the profile's tiers without weights: the first tier in range, plus jitter.\<close>

fun first_fit :: "'g rng \<Rightarrow> profile_tier \<Rightarrow> nat \<Rightarrow> nat \<Rightarrow> usize list \<Rightarrow> 'g \<Rightarrow> (usize \<times> 'g) option" where
  "first_fit R t lo hi [] g = None"
| "first_fit R t lo hi (base # bs) g =
     (if base < lo \<or> hi < base then first_fit R t lo hi bs g
      else let available_jitter = min (tier_jitter t) (hi - base) in
        if available_jitter = 0 then Some (base, g)
        else case gen_range R 0 available_jitter g of (jitter, g') \<Rightarrow> Some (base + jitter, g'))"

definition select_target :: "'g rng \<Rightarrow> phantom_config \<Rightarrow> nat \<Rightarrow> nat \<Rightarrow> 'g \<Rightarrow> usize result \<times> 'g" where
  "select_target R c minimum_target maximum_target g =
     (case pc_selection c of
        Weighted weights \<Rightarrow>
          let eligible = filter (\<lambda>(tier, w). minimum_target \<le> tier \<and> tier \<le> maximum_target)
                (zip (base_tiers (pc_profile c)) weights);
              total = sum_list (map snd eligible)
          in if total = 0
               then (Err (Protocol ''no weighted Phantom One class fits the remaining budget''), g)
             else (case gen_range R 0 (total - 1) g of (sample, g') \<Rightarrow>
               (case weighted_scan eligible sample of
                  Some tier \<Rightarrow> (Ok tier, g')
                | None \<Rightarrow> (Err (Internal ''positive eligible weight must select a tier''), g')))
                  \<comment> \<open>the \<open>unreachable!\<close> after the loop\<close>
      | FirstFit \<Rightarrow>
          (case first_fit R (pc_profile c) minimum_target maximum_target (base_tiers (pc_profile c)) g of
             Some (target, g') \<Rightarrow> (Ok target, g')
           | None \<Rightarrow>
               if pc_profile_bound c then
                 (Err (Protocol ''Phantom One payload does not fit the selected profile's canonical size classes''), g)
               else case gen_range R minimum_target maximum_target g of (target, g') \<Rightarrow> (Ok target, g')))"

definition phantom_target_size :: "'g rng \<Rightarrow> 'g phantom_encoder \<Rightarrow> usize \<Rightarrow> usize \<Rightarrow> usize result \<times> 'g phantom_encoder" where
  "phantom_target_size R e payload_len path_mtu =
     (case phantom_validate (pe_config e) of Err x \<Rightarrow> (Err x, e) | Ok _ \<Rightarrow>
     (case validate_path_mtu path_mtu of Err x \<Rightarrow> (Err x, e) | Ok _ \<Rightarrow>
     (case validate_payload_length payload_len of Err x \<Rightarrow> (Err x, e) | Ok _ \<Rightarrow>
     (if pe_next_sequence e = None
        then (Err (ResourceExhausted ''Phantom One sequence space exhausted''), e)
      else case checked_add usize_max PHANTOM_ONE_HEADER_BYTES payload_len of
        None \<Rightarrow> (Err (Protocol ''Phantom One payload length overflow''), e)
      | Some minimum \<Rightarrow>
     (case checked_add usize_max minimum (pc_min_padding (pe_config e)) of
        None \<Rightarrow> (Err (Protocol ''Phantom One target length overflow''), e)
      | Some minimum_target \<Rightarrow>
      if path_mtu < minimum_target
        then (Err (Protocol ''Phantom One minimum target exceeds path MTU''), e)
      else (case checked_add usize_max minimum (min (pc_max_padding (pe_config e)) (remaining_padding e)) of
        None \<Rightarrow> (Err (Protocol ''Phantom One target length overflow''), e)
      | Some upper \<Rightarrow>
          let maximum_target = min upper path_mtu in
          if maximum_target < minimum_target
            then (Err (ResourceExhausted ''Phantom One padding budget exhausted''), e)
          else (case select_target R (pe_config e) minimum_target maximum_target (pe_rng e) of
                  (r, g') \<Rightarrow> (r, e\<lparr>pe_rng := g'\<rparr>))))))))"

definition phantom_record :: "envelope_metrics \<Rightarrow> nat \<Rightarrow> nat \<Rightarrow> envelope_metrics" where
  "phantom_record m payload_len padding_len =
     \<lparr>em_frames = sat_add u64_max (em_frames m) 1,
      em_payload_bytes = sat_add u64_max (em_payload_bytes m) payload_len,
      em_header_bytes = sat_add u64_max (em_header_bytes m) PHANTOM_ONE_HEADER_BYTES,
      em_padding_bytes = sat_add u64_max (em_padding_bytes m) padding_len\<rparr>"

definition phantom_encode_with_target_into ::
    "'g rng \<Rightarrow> 'g phantom_encoder \<Rightarrow> phantom_frame_type \<Rightarrow> bytes \<Rightarrow> usize \<Rightarrow> usize \<Rightarrow> bytes
      \<Rightarrow> unit result \<times> bytes \<times> 'g phantom_encoder" where
  "phantom_encode_with_target_into R e frame_type payload target_len path_mtu envelope =
     (let c = pe_config e in
      case phantom_validate c of Err x \<Rightarrow> (Err x, [], e) | Ok _ \<Rightarrow>
     (case validate_path_mtu path_mtu of Err x \<Rightarrow> (Err x, [], e) | Ok _ \<Rightarrow>
     (case validate_payload_length (length payload) of Err x \<Rightarrow> (Err x, [], e) | Ok _ \<Rightarrow>
     (case pe_next_sequence e of
        None \<Rightarrow> (Err (ResourceExhausted ''Phantom One sequence space exhausted''), [], e)
      | Some sequence \<Rightarrow>
     (case checked_add usize_max PHANTOM_ONE_HEADER_BYTES (length payload) of
        None \<Rightarrow> (Err (Protocol ''Phantom One payload length overflow''), [], e)
      | Some minimum \<Rightarrow>
     (case checked_sub target_len minimum of
        None \<Rightarrow> (Err (Protocol ''Phantom One target is smaller than the Phantom One header and payload''), [], e)
      | Some padding_len \<Rightarrow>
      if path_mtu < target_len \<or> PHANTOM_ONE_MAX_ENVELOPE_BYTES < target_len
         \<or> padding_len < pc_min_padding c \<or> pc_max_padding c < padding_len \<or> remaining_padding e < padding_len
        then (Err (Protocol ''Phantom One target is outside configured path-MTU bounds''), [], e)
      else if pc_profile_bound c \<and> \<not> accepts_frame_len (pc_profile c) target_len
        then (Err (Protocol ''Phantom One target is outside the selected profile's canonical size classes''), [], e)
      else if u16_max < target_len then (Err (Protocol ''Phantom One target length overflow''), [], e)
      else if u16_max < length payload then (Err (Protocol ''Phantom One payload length overflow''), [], e)
      else
        let b0 = resize (wipe_prepare envelope target_len) target_len;
            b1 = write_at b0 0 PHANTOM_ONE_MAGIC;
            b2 = b1[4 := PHANTOM_ONE_VERSION];
            b3 = b2[5 := tier_id (pc_profile c)];
            b4 = write_at b3 6 (be_bytes 4 (pe_generation e));
            b5 = b4[10 := frame_type_byte frame_type];
            b6 = write_at b5 11 (be_bytes 8 sequence);
            b7 = write_at b6 19 (be_bytes 2 (length payload));
            b8 = write_at b7 21 (be_bytes 2 target_len);
            b9 = write_at b8 23 (replicate (PHANTOM_ONE_HEADER_BYTES - 23) 0);
            b10 = write_at b9 PHANTOM_ONE_HEADER_BYTES payload
        in (case fill_bytes R (length b10 - minimum) (pe_rng e) of
              (None, g') \<Rightarrow> (Err (Crypto ''Phantom One padding randomness failed''), [], e\<lparr>pe_rng := g'\<rparr>)
            | (Some padding, g') \<Rightarrow>
                (Ok (), write_at b10 minimum padding,
                 e\<lparr>pe_rng := g', pe_next_sequence := checked_add u64_max sequence 1,
                   pe_metrics := phantom_record (pe_metrics e) (length payload) padding_len\<rparr>))))))))"

definition phantom_encode_into ::
    "'g rng \<Rightarrow> 'g phantom_encoder \<Rightarrow> phantom_frame_type \<Rightarrow> bytes \<Rightarrow> usize \<Rightarrow> bytes
      \<Rightarrow> unit result \<times> bytes \<times> 'g phantom_encoder" where
  "phantom_encode_into R e frame_type payload path_mtu envelope =
     (case phantom_target_size R e (length payload) path_mtu of
        (Err x, e') \<Rightarrow> (Err x, [], e')
      | (Ok target_len, e') \<Rightarrow>
          phantom_encode_with_target_into R e' frame_type payload target_len path_mtu envelope)"

definition phantom_encode ::
    "'g rng \<Rightarrow> 'g phantom_encoder \<Rightarrow> phantom_frame_type \<Rightarrow> bytes \<Rightarrow> usize \<Rightarrow> bytes result \<times> 'g phantom_encoder" where
  "phantom_encode R e frame_type payload path_mtu =
     (case phantom_encode_into R e frame_type payload path_mtu [] of
        (r, envelope, e') \<Rightarrow> (map_ok (\<lambda>_. envelope) r, e'))"

section \<open>Decoder\<close>

record phantom_parts =
  pp_profile :: profile_tier
  pp_generation :: u32
  pp_frame_type :: phantom_frame_type
  pp_sequence :: u64
  pp_payload_len :: usize
  pp_target_len :: usize
  pp_padding_len :: usize
  pp_payload_end :: usize

record phantom_frame =
  pf_profile :: profile_tier
  pf_generation :: u32
  pf_frame_type :: phantom_frame_type
  pf_sequence :: u64
  pf_payload :: bytes
  pf_target_len :: usize
  pf_padding_len :: usize

definition to_frame :: "phantom_parts \<Rightarrow> bytes \<Rightarrow> phantom_frame" where
  "to_frame p datagram = \<lparr>pf_profile = pp_profile p, pf_generation = pp_generation p,
     pf_frame_type = pp_frame_type p, pf_sequence = pp_sequence p,
     pf_payload = slice datagram PHANTOM_ONE_HEADER_BYTES (pp_payload_end p),
     pf_target_len = pp_target_len p, pf_padding_len = pp_padding_len p\<rparr>"

definition decode_parts :: "bytes \<Rightarrow> u32 \<Rightarrow> usize \<Rightarrow> phantom_config \<Rightarrow> phantom_parts result" where
  "decode_parts d expected_generation path_mtu c =
     (case phantom_validate c of Err x \<Rightarrow> Err x | Ok _ \<Rightarrow>
     (case validate_path_mtu path_mtu of Err x \<Rightarrow> Err x | Ok _ \<Rightarrow>
     (if length d < PHANTOM_ONE_HEADER_BYTES \<or> path_mtu < length d
        then Err (Protocol ''Phantom One datagram length is outside path-MTU bounds'')
      else if slice d 0 4 \<noteq> PHANTOM_ONE_MAGIC then Err (Protocol ''Phantom One magic mismatch'')
      else if d ! 4 \<noteq> PHANTOM_ONE_VERSION then Err (Protocol ''Phantom One version mismatch'')
      else case from_id (d ! 5) of
        None \<Rightarrow> Err (Protocol ''Phantom One profile identifier is unsupported'')
      | Some profile \<Rightarrow>
      if profile \<noteq> pc_profile c
        then Err (Protocol ''Phantom One profile does not match session policy'')
      else let generation = of_be (slice d 6 10) in
      if generation \<noteq> expected_generation then Err (Protocol ''Phantom One generation mismatch'')
      else (case frame_type_try_from (d ! 10) of Err x \<Rightarrow> Err x | Ok frame_type \<Rightarrow>
        let sequence = of_be (slice d 11 19);
            payload_len = of_be (slice d 19 21);
            target_len = of_be (slice d 21 23)
        in
        if list_ex (\<lambda>b. b \<noteq> 0) (slice d 23 PHANTOM_ONE_HEADER_BYTES)
          then Err (Protocol ''Phantom One reserved header bytes are non-canonical'')
        else if target_len \<noteq> length d
          then Err (Protocol ''Phantom One target length does not match datagram length'')
        else if path_mtu < target_len then Err (Protocol ''Phantom One target length exceeds path MTU'')
        else (case validate_payload_length payload_len of Err x \<Rightarrow> Err x | Ok _ \<Rightarrow>
        (case checked_add usize_max PHANTOM_ONE_HEADER_BYTES payload_len of
           None \<Rightarrow> Err (Protocol ''Phantom One payload length overflow'')
         | Some payload_end \<Rightarrow>
           if target_len < payload_end
             then Err (Protocol ''Phantom One payload is truncated by target length'')
           else let padding_len = target_len - payload_end in
           if padding_len < pc_min_padding c \<or> pc_max_padding c < padding_len
             then Err (Protocol ''Phantom One padding is outside the configured bounds'')
           else if pc_profile_bound c \<and> \<not> accepts_frame_len profile target_len
             then Err (Protocol ''Phantom One target is outside the selected profile's canonical size classes'')
           else Ok \<lparr>pp_profile = profile, pp_generation = generation, pp_frame_type = frame_type,
             pp_sequence = sequence, pp_payload_len = payload_len, pp_target_len = target_len,
             pp_padding_len = padding_len, pp_payload_end = payload_end\<rparr>))))))"

text \<open>\<open>decode\<close>: without replay tracking, under the profile that the datagram names.\<close>

definition phantom_decode_stateless :: "bytes \<Rightarrow> u32 \<Rightarrow> usize \<Rightarrow> phantom_frame result" where
  "phantom_decode_stateless d expected_generation path_mtu =
     (case (if 5 < length d then from_id (d ! 5) else None) of
        None \<Rightarrow> Err (Protocol ''Phantom One profile identifier is unsupported'')
      | Some profile \<Rightarrow>
          map_ok (\<lambda>parts. to_frame parts d)
            (decode_parts d expected_generation path_mtu
              \<lparr>pc_profile = profile, pc_min_padding = 0, pc_max_padding = PHANTOM_ONE_MAX_PADDING_BYTES,
               pc_profile_bound = False, pc_selection = FirstFit, pc_padding_budget = None\<rparr>))"

record phantom_decoder =
  pd_generation :: u32
  pd_window_size :: usize
  pd_config :: phantom_config
  pd_highest_sequence :: "u64 option"
  pd_seen_bitmap :: "64 word"
  pd_padding_bytes_used :: u64

definition phantom_decoder_with_config_and_window ::
    "u32 \<Rightarrow> phantom_config \<Rightarrow> usize \<Rightarrow> phantom_decoder result" where
  "phantom_decoder_with_config_and_window generation config window_size =
     (case phantom_validate config of Err x \<Rightarrow> Err x | Ok _ \<Rightarrow>
      if \<not> (1 \<le> window_size \<and> window_size \<le> PHANTOM_ONE_DEFAULT_REPLAY_WINDOW)
        then Err (Config (''Phantom One replay window must be between 1 and ''
               @ show_nat PHANTOM_ONE_DEFAULT_REPLAY_WINDOW))
      else Ok \<lparr>pd_generation = generation, pd_window_size = window_size, pd_config = config,
             pd_highest_sequence = None, pd_seen_bitmap = 0, pd_padding_bytes_used = 0\<rparr>)"

definition phantom_decoder_new :: "u32 \<Rightarrow> phantom_decoder" where
  "phantom_decoder_new generation = \<lparr>pd_generation = generation,
     pd_window_size = PHANTOM_ONE_DEFAULT_REPLAY_WINDOW, pd_config = phantom_config_default,
     pd_highest_sequence = None, pd_seen_bitmap = 0, pd_padding_bytes_used = 0\<rparr>"

definition phantom_reset :: "phantom_decoder \<Rightarrow> phantom_decoder" where
  "phantom_reset d = d\<lparr>pd_highest_sequence := None, pd_seen_bitmap := 0\<rparr>"

definition next_padding_bytes :: "phantom_decoder \<Rightarrow> usize \<Rightarrow> u64 result" where
  "next_padding_bytes d padding_len =
     (case checked_add u64_max (pd_padding_bytes_used d) padding_len of
        None \<Rightarrow> Err (Protocol ''Phantom One session padding counter overflow'')
      | Some nxt \<Rightarrow>
          if \<exists>budget\<in>set_option (pc_padding_budget (pd_config d)). budget < nxt
            then Err (Protocol ''Phantom One session padding budget exceeded'')
          else Ok nxt)"

definition window_mask :: "phantom_decoder \<Rightarrow> 64 word" where
  "window_mask d = (if pd_window_size d = 64 then - 1 else push_bit (pd_window_size d) 1 - 1)"

definition accept_sequence :: "phantom_decoder \<Rightarrow> u64 \<Rightarrow> unit result \<times> phantom_decoder" where
  "accept_sequence d sequence =
     (case pd_highest_sequence d of
        None \<Rightarrow> (Ok (), d\<lparr>pd_highest_sequence := Some sequence, pd_seen_bitmap := 1\<rparr>)
      | Some hi \<Rightarrow>
          if hi < sequence then
            let shift = sequence - hi;
                bitmap = (if pd_window_size d \<le> shift then 1
                  else (push_bit shift (pd_seen_bitmap d) OR 1) AND window_mask d)
            in (Ok (), d\<lparr>pd_highest_sequence := Some sequence, pd_seen_bitmap := bitmap\<rparr>)
          else
            let distance = hi - sequence in
            if pd_window_size d \<le> distance
              then (Err (Protocol ''Phantom One sequence is outside replay window''), d)
            else let b = push_bit distance 1 in
              if pd_seen_bitmap d AND b \<noteq> 0
                then (Err (Protocol ''Phantom One replay detected''), d)
              else (Ok (), d\<lparr>pd_seen_bitmap := pd_seen_bitmap d OR b\<rparr>))"

definition phantom_decode :: "phantom_decoder \<Rightarrow> bytes \<Rightarrow> usize \<Rightarrow> phantom_frame result \<times> phantom_decoder" where
  "phantom_decode d datagram path_mtu =
     (case decode_parts datagram (pd_generation d) path_mtu (pd_config d) of
        Err x \<Rightarrow> (Err x, d)
      | Ok parts \<Rightarrow>
     (case next_padding_bytes d (pp_padding_len parts) of
        Err x \<Rightarrow> (Err x, d)
      | Ok next_padding \<Rightarrow>
     (case accept_sequence d (pp_sequence parts) of
        (Err x, d') \<Rightarrow> (Err x, d')
      | (Ok _, d') \<Rightarrow> (Ok (to_frame parts datagram), d'\<lparr>pd_padding_bytes_used := next_padding\<rparr>))))"

definition phantom_decode_in_place :: "phantom_decoder \<Rightarrow> bytes \<Rightarrow> usize \<Rightarrow> unit result \<times> bytes \<times> phantom_decoder" where
  "phantom_decode_in_place d datagram path_mtu =
     (case decode_parts datagram (pd_generation d) path_mtu (pd_config d) of
        Err x \<Rightarrow> (Err x, datagram, d)
      | Ok parts \<Rightarrow>
     (case next_padding_bytes d (pp_padding_len parts) of
        Err x \<Rightarrow> (Err x, datagram, d)
      | Ok next_padding \<Rightarrow>
     (case accept_sequence d (pp_sequence parts) of
        (Err x, d') \<Rightarrow> (Err x, datagram, d')
      | (Ok _, d') \<Rightarrow>
          (Ok (), take (pp_payload_len parts)
             (write_at datagram 0 (slice datagram PHANTOM_ONE_HEADER_BYTES (pp_payload_end parts))),
           d'\<lparr>pd_padding_bytes_used := next_padding\<rparr>))))"

section \<open>The envelope as a codec\<close>

definition po_wire :: "profile_tier \<Rightarrow> u32 \<Rightarrow> phantom_frame_type \<times> u64 \<times> bytes \<Rightarrow> bytes \<Rightarrow> bytes" where
  "po_wire t gen m padding = (case m of (ft, sq, payload) \<Rightarrow>
     PHANTOM_ONE_MAGIC @ [PHANTOM_ONE_VERSION] @ [tier_id t] @ be_bytes 4 gen @ [frame_type_byte ft]
     @ be_bytes 8 sq @ be_bytes 2 (length payload)
     @ be_bytes 2 (PHANTOM_ONE_HEADER_BYTES + length payload + length padding) @ [0] @ payload @ padding)"

definition po_legal :: "phantom_config \<Rightarrow> u32 \<Rightarrow> usize \<Rightarrow> phantom_frame_type \<times> u64 \<times> bytes \<Rightarrow> bytes \<Rightarrow> bool" where
  "po_legal c gen mtu m padding \<longleftrightarrow> (case m of (ft, sq, payload) \<Rightarrow>
     phantom_validate c = Ok () \<and> validate_path_mtu mtu = Ok () \<and> gen \<le> u32_max \<and> sq \<le> u64_max
     \<and> PHANTOM_ONE_HEADER_BYTES + length payload + length padding \<le> mtu
     \<and> pc_min_padding c \<le> length padding \<and> length padding \<le> pc_max_padding c
     \<and> (pc_profile_bound c \<longrightarrow>
          accepts_frame_len (pc_profile c) (PHANTOM_ONE_HEADER_BYTES + length payload + length padding)))"

definition po_parts :: "phantom_config \<Rightarrow> u32 \<Rightarrow> phantom_frame_type \<times> u64 \<times> bytes \<Rightarrow> bytes \<Rightarrow> phantom_parts" where
  "po_parts c gen m padding = (case m of (ft, sq, payload) \<Rightarrow>
     \<lparr>pp_profile = pc_profile c, pp_generation = gen, pp_frame_type = ft, pp_sequence = sq,
      pp_payload_len = length payload,
      pp_target_len = PHANTOM_ONE_HEADER_BYTES + length payload + length padding,
      pp_padding_len = length padding, pp_payload_end = PHANTOM_ONE_HEADER_BYTES + length payload\<rparr>)"

lemma from_id_iff: "from_id i = Some t \<longleftrightarrow> i = tier_id t"
  by (cases t) (auto simp: from_id_def)

lemma frame_type_iff: "frame_type_try_from b = Ok ft \<longleftrightarrow> b = frame_type_byte ft"
  by (cases ft) (auto simp: frame_type_try_from_def)

lemma validate_path_mtu_iff: "validate_path_mtu mtu = Ok () \<longleftrightarrow> 24 \<le> mtu \<and> mtu \<le> u16_max"
  by (auto simp: validate_path_mtu_def PHANTOM_ONE_HEADER_BYTES_def PHANTOM_ONE_MAX_ENVELOPE_BYTES_def)

lemma validate_payload_length_iff: "validate_payload_length n = Ok () \<longleftrightarrow> n + 24 \<le> u16_max"
  by (auto simp: validate_payload_length_def PHANTOM_ONE_MAX_PAYLOAD_BYTES_def u16_max_def
      PHANTOM_ONE_HEADER_BYTES_def PHANTOM_ONE_MAX_ENVELOPE_BYTES_def)

lemma po_wire_fields:
  "length (po_wire t gen (ft, sq, pl) pad) = 24 + length pl + length pad"
  "slice (po_wire t gen (ft, sq, pl) pad) 0 4 = PHANTOM_ONE_MAGIC"
  "po_wire t gen (ft, sq, pl) pad ! 4 = PHANTOM_ONE_VERSION"
  "po_wire t gen (ft, sq, pl) pad ! 5 = tier_id t"
  "slice (po_wire t gen (ft, sq, pl) pad) 6 10 = be_bytes 4 gen"
  "po_wire t gen (ft, sq, pl) pad ! 10 = frame_type_byte ft"
  "slice (po_wire t gen (ft, sq, pl) pad) 11 19 = be_bytes 8 sq"
  "slice (po_wire t gen (ft, sq, pl) pad) 19 21 = be_bytes 2 (length pl)"
  "slice (po_wire t gen (ft, sq, pl) pad) 21 23 = be_bytes 2 (24 + length pl + length pad)"
  "slice (po_wire t gen (ft, sq, pl) pad) 23 24 = [0]"
  by (simp_all add: po_wire_def PHANTOM_ONE_MAGIC_def PHANTOM_ONE_HEADER_BYTES_def slice_def nth_append)

lemma po_wire_payload: "slice (po_wire t gen (ft, sq, pl) pad) 24 (24 + length pl) = pl"
proof -
  define hdr where "hdr = PHANTOM_ONE_MAGIC @ [PHANTOM_ONE_VERSION] @ [tier_id t] @ be_bytes 4 gen
    @ [frame_type_byte ft] @ be_bytes 8 sq @ be_bytes 2 (length pl)
    @ be_bytes 2 (PHANTOM_ONE_HEADER_BYTES + length pl + length pad) @ [0]"
  have "po_wire t gen (ft, sq, pl) pad = hdr @ pl @ pad" and "length hdr = 24"
    by (simp_all add: hdr_def po_wire_def PHANTOM_ONE_MAGIC_def)
  then show ?thesis by (simp add: slice_append_mid)
qed

lemma decode_parts_wire:
  assumes "po_legal c gen mtu (ft, sq, pl) pad"
  shows "decode_parts (po_wire (pc_profile c) gen (ft, sq, pl) pad) gen mtu c = Ok (po_parts c gen (ft, sq, pl) pad)"
proof -
  from assms have v: "phantom_validate c = Ok ()" "validate_path_mtu mtu = Ok ()" "gen \<le> u32_max" "sq \<le> u64_max"
    and len: "24 + length pl + length pad \<le> mtu" "mtu \<le> u16_max"
    and pad: "pc_min_padding c \<le> length pad" "length pad \<le> pc_max_padding c"
    "pc_profile_bound c \<longrightarrow> accepts_frame_len (pc_profile c) (24 + length pl + length pad)"
    by (auto simp: po_legal_def PHANTOM_ONE_HEADER_BYTES_def validate_path_mtu_iff)
  have f: "frame_type_try_from (frame_type_byte ft) = Ok ft" "from_id (tier_id (pc_profile c)) = Some (pc_profile c)"
    by (simp_all add: frame_type_iff from_id_iff)
  have n: "of_be (be_bytes 4 gen) = gen" "of_be (be_bytes 8 sq) = sq"
    "of_be (be_bytes 2 (length pl)) = length pl"
    "of_be (be_bytes 2 (24 + length pl + length pad)) = 24 + length pl + length pad"
    using v len by (simp_all add: of_be_be_bytes u32_max_def u64_max_def u16_max_def)
  have pl: "validate_payload_length (length pl) = Ok ()" "24 + length pl \<le> usize_max"
    using len by (simp_all add: validate_payload_length_iff u16_max_def usize_max_def)
  show ?thesis
    unfolding decode_parts_def v(1,2) po_wire_fields f n PHANTOM_ONE_HEADER_BYTES_def Let_def result.case pl(1)
      option.case
    using len pad pl by (simp add: checked_add_def po_parts_def PHANTOM_ONE_HEADER_BYTES_def)
qed

lemma decode_parts_only:
  assumes "decode_parts d gen mtu c = Ok p"
  shows "\<exists>ft sq pl pad. po_legal c gen mtu (ft, sq, pl) pad \<and> d = po_wire (pc_profile c) gen (ft, sq, pl) pad
    \<and> p = po_parts c gen (ft, sq, pl) pad"
proof -
  define k where "k = of_be (slice d 19 21)"
  define sq where "sq = of_be (slice d 11 19)"
  define ft where "ft = pp_frame_type p"
  define pl where "pl = slice d 24 (24 + k)"
  define pad where "pad = drop (24 + k) d"
  note ds = PHANTOM_ONE_HEADER_BYTES_def
  from assms have len: "24 \<le> length d" "length d \<le> mtu" and v: "phantom_validate c = Ok ()" "validate_path_mtu mtu = Ok ()"
    and h: "slice d 0 4 = PHANTOM_ONE_MAGIC" "d ! 4 = PHANTOM_ONE_VERSION" "from_id (d ! 5) = Some (pc_profile c)"
    and g: "of_be (slice d 6 10) = gen" and f: "frame_type_try_from (d ! 10) = Ok ft"
    and z: "\<forall>b\<in>set (slice d 23 24). b = 0" and t: "of_be (slice d 21 23) = length d"
    and k: "24 + k \<le> length d" and b: "pc_min_padding c \<le> length d - (24 + k)" "length d - (24 + k) \<le> pc_max_padding c"
      "pc_profile_bound c \<longrightarrow> accepts_frame_len (pc_profile c) (length d)"
    and p: "p = \<lparr>pp_profile = pc_profile c, pp_generation = gen, pp_frame_type = ft, pp_sequence = sq,
      pp_payload_len = k, pp_target_len = length d, pp_padding_len = length d - (24 + k),
      pp_payload_end = 24 + k\<rparr>"
    by (auto simp: decode_parts_def Let_def ds list_ex_iff k_def sq_def ft_def range_simps
        split: result.splits if_splits option.splits)
  have l: "length pl = k" "length pad = length d - (24 + k)" "24 + length pl + length pad = length d"
    using k len by (simp_all add: pl_def pad_def)
  have bounds: "gen \<le> u32_max" "sq \<le> u64_max"
    using of_be_slice_bound [of 6 4 10 d] of_be_slice_bound [of 11 8 19 d] len g
    by (simp_all add: u32_max_def u64_max_def sq_def)
  have "slice d 23 24 = [0]" using z len slice_one [of 23 d] by simp
  moreover have "slice d 4 5 = [PHANTOM_ONE_VERSION]" "slice d 5 6 = [tier_id (pc_profile c)]"
    "slice d 10 11 = [frame_type_byte ft]"
    using slice_one [of 4 d] slice_one [of 5 d] slice_one [of 10 d] len h f
    by (simp_all add: from_id_iff frame_type_iff)
  moreover have "slice d 6 10 = be_bytes 4 gen" "slice d 11 19 = be_bytes 8 sq" "slice d 19 21 = be_bytes 2 k"
    "slice d 21 23 = be_bytes 2 (length d)"
    using be_bytes_slice [of 6 4 10 d] be_bytes_slice [of 11 8 19 d] be_bytes_slice [of 19 2 21 d]
      be_bytes_slice [of 21 2 23 d] len g t by (simp_all add: sq_def k_def)
  moreover have "d = slice d 0 4 @ slice d 4 5 @ slice d 5 6 @ slice d 6 10 @ slice d 10 11 @ slice d 11 19
      @ slice d 19 21 @ slice d 21 23 @ slice d 23 24 @ pl @ pad"
    unfolding pl_def pad_def
    using buffer_split [of d 4] drop_split [of 4 5 d] drop_split [of 5 6 d] drop_split [of 6 10 d]
      drop_split [of 10 11 d] drop_split [of 11 19 d] drop_split [of 19 21 d] drop_split [of 21 23 d]
      drop_split [of 23 24 d] drop_split [of 24 "24 + k" d] by simp
  ultimately have "d = po_wire (pc_profile c) gen (ft, sq, pl) pad"
    using l h(1) by (simp add: po_wire_def ds)
  moreover have "po_legal c gen mtu (ft, sq, pl) pad"
    using v bounds l len b by (simp add: po_legal_def ds)
  moreover have "p = po_parts c gen (ft, sq, pl) pad" using l by (simp add: p po_parts_def ds)
  ultimately show ?thesis by blast
qed

text \<open>What a decoder hands on of a datagram.\<close>

definition po_message :: "phantom_frame \<Rightarrow> phantom_frame_type \<times> u64 \<times> bytes" where
  "po_message f = (pf_frame_type f, pf_sequence f, pf_payload f)"

definition po_decode :: "phantom_config \<Rightarrow> u32 \<Rightarrow> usize \<Rightarrow> bytes \<Rightarrow> (phantom_frame_type \<times> u64 \<times> bytes) result" where
  "po_decode c gen mtu d = map_ok (\<lambda>p. po_message (to_frame p d)) (decode_parts d gen mtu c)"

lemma po_message_wire:
  "po_message (to_frame (po_parts c gen (ft, sq, pl) pad) (po_wire t gen (ft, sq, pl) pad)) = (ft, sq, pl)"
  by (simp add: po_message_def to_frame_def po_parts_def po_wire_payload PHANTOM_ONE_HEADER_BYTES_def)

interpretation po: strict_codec "po_wire (pc_profile c) gen" "po_decode c gen mtu" "po_legal c gen mtu"
  for c gen mtu
proof unfold_locales
  fix m pad
  assume "po_legal c gen mtu m pad"
  then show "po_decode c gen mtu (po_wire (pc_profile c) gen m pad) = Ok m"
    by (cases m) (simp add: po_decode_def decode_parts_wire po_message_wire)
next
  fix b m
  assume "po_decode c gen mtu b = Ok m"
  then show "\<exists>pad. po_legal c gen mtu m pad \<and> b = po_wire (pc_profile c) gen m pad"
    by (fastforce simp: po_decode_def po_message_wire dest!: decode_parts_only)
qed

section \<open>Encoding\<close>

lemma header_layout:
  assumes "24 + length pl \<le> n"
  shows "write_at (write_at (write_at (write_at (write_at ((write_at
      ((write_at (resize [] n) 0 PHANTOM_ONE_MAGIC)[4 := v, 5 := t]) 6 (be_bytes 4 gen))[10 := f])
      11 (be_bytes 8 sq)) 19 (be_bytes 2 k)) 21 (be_bytes 2 m)) 23 (replicate (24 - 23) 0)) 24 pl
    = PHANTOM_ONE_MAGIC @ [v] @ [t] @ be_bytes 4 gen @ [f] @ be_bytes 8 sq @ be_bytes 2 k @ be_bytes 2 m
      @ [0] @ pl @ replicate (n - (24 + length pl)) 0"
proof -
  have "length PHANTOM_ONE_MAGIC = 4" by (simp add: PHANTOM_ONE_MAGIC_def)
  moreover obtain j where n: "n = 24 + (length pl + j)" using assms le_Suc_ex by (metis add.assoc)
  ultimately have "write_at (write_at (write_at (write_at (write_at ((write_at
      ((write_at (resize [] n) 0 PHANTOM_ONE_MAGIC)[4 := v, 5 := t]) 6 (be_bytes 4 gen))[10 := f])
      11 (be_bytes 8 sq)) 19 (be_bytes 2 k)) 21 (be_bytes 2 m)) 23 (replicate (24 - 23) 0)) 24 pl
    = ((((((((((PHANTOM_ONE_MAGIC @ [v]) @ [t]) @ be_bytes 4 gen) @ [f]) @ be_bytes 8 sq) @ be_bytes 2 k)
       @ be_bytes 2 m) @ replicate (24 - 23) 0) @ pl) @ replicate j 0)"
    by (simp del: append_assoc append_Cons append_Nil replicate_Suc replicate.simps add: codec_simps)
  then show ?thesis using n by simp
qed

lemma wire_padding:
  assumes "length pad = j"
  shows "write_at (PHANTOM_ONE_MAGIC @ [v] @ [t] @ be_bytes 4 gen @ [f] @ be_bytes 8 sq @ be_bytes 2 k
      @ be_bytes 2 m @ [0] @ pl @ replicate j 0) (24 + length pl) pad
    = PHANTOM_ONE_MAGIC @ [v] @ [t] @ be_bytes 4 gen @ [f] @ be_bytes 8 sq @ be_bytes 2 k
      @ be_bytes 2 m @ [0] @ pl @ pad"
proof -
  have "length (PHANTOM_ONE_MAGIC @ [v] @ [t] @ be_bytes 4 gen @ [f] @ be_bytes 8 sq @ be_bytes 2 k
      @ be_bytes 2 m @ [0] @ pl) = 24 + length pl" by (simp add: PHANTOM_ONE_MAGIC_def)
  from write_at_front [OF this, of pad j 0] assms show ?thesis by simp
qed

definition pe_inv :: "'g phantom_encoder \<Rightarrow> bool" where
  "pe_inv e \<longleftrightarrow> pe_generation e \<le> u32_max \<and> (\<forall>s\<in>set_option (pe_next_sequence e). s \<le> u64_max)
     \<and> (\<forall>b\<in>set_option (pc_padding_budget (pe_config e)). b \<le> u64_max)"

definition target_ok :: "'g phantom_encoder \<Rightarrow> nat \<Rightarrow> nat \<Rightarrow> nat \<Rightarrow> bool" where
  "target_ok e mtu plen n \<longleftrightarrow> phantom_validate (pe_config e) = Ok () \<and> validate_path_mtu mtu = Ok ()
     \<and> 24 + plen \<le> n \<and> n \<le> mtu
     \<and> pc_min_padding (pe_config e) \<le> n - (24 + plen)
     \<and> n - (24 + plen) \<le> pc_max_padding (pe_config e) \<and> n - (24 + plen) \<le> remaining_padding e
     \<and> (pc_profile_bound (pe_config e) \<longrightarrow> accepts_frame_len (pc_profile (pe_config e)) n)"

text \<open>Encoding at a target succeeds exactly on the targets that \<open>target_ok\<close> allows, as long as the
  sequence space and the generator last.\<close>

lemma encode_with_target_ok:
  assumes sq: "pe_next_sequence e = Some sq" and ok: "target_ok e mtu (length pl) n"
  shows "phantom_encode_with_target_into R e ft pl n mtu env =
    (case fill_bytes R (n - (24 + length pl)) (pe_rng e) of
       (None, g') \<Rightarrow> (Err (Crypto ''Phantom One padding randomness failed''), [], e\<lparr>pe_rng := g'\<rparr>)
     | (Some pad, g') \<Rightarrow>
         (Ok (), write_at (PHANTOM_ONE_MAGIC @ [PHANTOM_ONE_VERSION] @ [tier_id (pc_profile (pe_config e))]
            @ be_bytes 4 (pe_generation e) @ [frame_type_byte ft] @ be_bytes 8 sq
            @ be_bytes 2 (length pl) @ be_bytes 2 n @ [0] @ pl @ replicate (n - (24 + length pl)) 0)
            (24 + length pl) pad,
          e\<lparr>pe_rng := g', pe_next_sequence := checked_add u64_max sq 1,
            pe_metrics := phantom_record (pe_metrics e) (length pl) (n - (24 + length pl))\<rparr>))"
proof -
  note ds = PHANTOM_ONE_HEADER_BYTES_def PHANTOM_ONE_MAX_ENVELOPE_BYTES_def
  from ok have v: "phantom_validate (pe_config e) = Ok ()" "validate_path_mtu mtu = Ok ()"
    "24 + length pl \<le> n" "n \<le> mtu" "n \<le> u16_max" "length pl \<le> u16_max"
    by (auto simp: target_ok_def validate_path_mtu_iff)
  then have p: "validate_payload_length (length pl) = Ok ()" "24 + length pl \<le> usize_max"
    by (simp_all add: validate_payload_length_iff u16_max_def usize_max_def)
  have w: "wipe_prepare env n = []" by (simp add: wipe_prepare_def)
  have len: "length (PHANTOM_ONE_MAGIC @ [v] @ [t] @ be_bytes 4 gen @ [f] @ be_bytes 8 sq @ be_bytes 2 k
      @ be_bytes 2 m @ [0] @ pl @ replicate (n - (24 + length pl)) 0) = n" for v t gen f k m
    using v by (simp add: PHANTOM_ONE_MAGIC_def)
  have c: "checked_add usize_max 24 (length pl) = Some (24 + length pl)"
    "checked_sub n (24 + length pl) = Some (n - (24 + length pl))"
    using v p by (simp_all add: checked_add_def checked_sub_def)
  have g: "(mtu < n \<or> False \<or> n - (24 + length pl) < pc_min_padding (pe_config e)
      \<or> pc_max_padding (pe_config e) < n - (24 + length pl) \<or> remaining_padding e < n - (24 + length pl)) = False"
    "(pc_profile_bound (pe_config e) \<and> \<not> accepts_frame_len (pc_profile (pe_config e)) n) = False"
    "(u16_max < n) = False" "(u16_max < length pl) = False"
    using ok v by (auto simp: target_ok_def)
  show ?thesis
    unfolding phantom_encode_with_target_into_def Let_def v(1,2) p(1) sq ds result.case option.case c g
      if_False w header_layout [OF v(3)] len ..
qed

lemma encode_with_target_only:
  assumes "phantom_encode_with_target_into R e ft pl n mtu env = (Ok (), b, e')"
  shows "(\<exists>sq. pe_next_sequence e = Some sq) \<and> target_ok e mtu (length pl) n"
  using assms unfolding phantom_encode_with_target_into_def Let_def
  by (auto simp: target_ok_def PHANTOM_ONE_HEADER_BYTES_def range_simps split: result.splits option.splits if_splits)

lemma encode_with_target_Err:
  assumes "phantom_encode_with_target_into R e ft pl n mtu env = (Err x, b, e')"
  shows "b = [] \<and> (\<exists>g. e' = e\<lparr>pe_rng := g\<rparr>)"
  using assms unfolding phantom_encode_with_target_into_def Let_def
  by (auto split: result.splits option.splits if_splits prod.splits intro: exI [of _ "pe_rng e"])

lemma encode_with_target_wire:
  assumes R: "rng_ok R" and inv: "pe_inv e"
    and enc: "phantom_encode_with_target_into R e ft pl n mtu env = (Ok (), b, e')"
  obtains sq pad g where "pe_next_sequence e = Some sq" "n = 24 + length pl + length pad"
    "b = po_wire (pc_profile (pe_config e)) (pe_generation e) (ft, sq, pl) pad"
    "po_legal (pe_config e) (pe_generation e) mtu (ft, sq, pl) pad"
    "length pad \<le> remaining_padding e"
    "e' = e\<lparr>pe_rng := g, pe_next_sequence := checked_add u64_max sq 1,
       pe_metrics := phantom_record (pe_metrics e) (length pl) (length pad)\<rparr>"
proof -
  from encode_with_target_only [OF enc] obtain sq where sq: "pe_next_sequence e = Some sq"
    and ok: "target_ok e mtu (length pl) n" by auto
  from enc [unfolded encode_with_target_ok [OF sq ok]] obtain pad g where
    f: "fill_bytes R (n - (24 + length pl)) (pe_rng e) = (Some pad, g)"
    and b: "b = write_at (PHANTOM_ONE_MAGIC @ [PHANTOM_ONE_VERSION] @ [tier_id (pc_profile (pe_config e))]
       @ be_bytes 4 (pe_generation e) @ [frame_type_byte ft] @ be_bytes 8 sq
       @ be_bytes 2 (length pl) @ be_bytes 2 n @ [0] @ pl @ replicate (n - (24 + length pl)) 0)
       (24 + length pl) pad"
    and e': "e' = e\<lparr>pe_rng := g, pe_next_sequence := checked_add u64_max sq 1,
       pe_metrics := phantom_record (pe_metrics e) (length pl) (n - (24 + length pl))\<rparr>"
    by (auto split: prod.splits option.splits)
  from rng_ok_fill [OF R f] have pad: "length pad = n - (24 + length pl)" .
  with ok have n: "n = 24 + length pl + length pad" by (auto simp: target_ok_def)
  have "b = po_wire (pc_profile (pe_config e)) (pe_generation e) (ft, sq, pl) pad"
    unfolding b wire_padding [OF pad] by (simp add: po_wire_def n PHANTOM_ONE_HEADER_BYTES_def)
  moreover have "po_legal (pe_config e) (pe_generation e) mtu (ft, sq, pl) pad"
    using ok inv sq n by (simp add: po_legal_def target_ok_def PHANTOM_ONE_HEADER_BYTES_def pe_inv_def)
  ultimately show thesis
    using that [OF sq n] ok e' pad by (auto simp: target_ok_def)
qed

section \<open>Target sizes\<close>

lemma first_fit_range:
  assumes "rng_ok R" and "first_fit R t lo hi bs g = Some (n, g')" and "set bs \<subseteq> set (base_tiers t)"
  shows "lo \<le> n \<and> n \<le> hi \<and> accepts_frame_len t n"
  using assms(2,3)
proof (induction bs)
  case (Cons b bs)
  show ?case
  proof (cases "b < lo \<or> hi < b")
    case True
    with Cons show ?thesis by simp
  next
    case False
    obtain j g1 where j: "gen_range R 0 (min (tier_jitter t) (hi - b)) g = (j, g1)" by fastforce
    from rng_ok_range [OF assms(1) this] have "j \<le> min (tier_jitter t) (hi - b)" by simp
    moreover have "n = b \<or> n = b + j"
      using False Cons.prems j by (auto simp: Let_def split: if_splits)
    ultimately have "b \<le> n" "n \<le> b + tier_jitter t" "n \<le> hi" using False by auto
    with False Cons.prems show ?thesis by (auto simp: accepts_frame_len_iff)
  qed
qed simp

lemma select_target_range:
  assumes R: "rng_ok R" and "select_target R c lo hi g = (Ok n, g')" and "lo \<le> hi"
  shows "lo \<le> n \<and> n \<le> hi \<and> (pc_profile_bound c \<longrightarrow> accepts_frame_len (pc_profile c) n)"
proof (cases "pc_selection c")
  case FirstFit
  with assms rng_ok_range [OF R] first_fit_range [OF R, of "pc_profile c" lo hi "base_tiers (pc_profile c)" g]
  show ?thesis by (auto simp: select_target_def split: option.splits if_splits prod.splits)
next
  case (Weighted ws)
  define el where "el = filter (\<lambda>(tier, w). lo \<le> tier \<and> tier \<le> hi) (zip (base_tiers (pc_profile c)) ws)"
  from assms Weighted obtain sm where "weighted_scan el sm = Some n"
    by (auto simp: select_target_def Let_def el_def [symmetric] split: option.splits if_splits prod.splits)
  from weighted_scan_member [OF this] have "n \<in> set (base_tiers (pc_profile c))" "lo \<le> n" "n \<le> hi"
    by (auto simp: el_def dest: set_zip_leftD)
  then show ?thesis by (auto simp: accepts_frame_len_iff)
qed

text \<open>The sampling loop of the weighted selection always finds its tier.\<close>

lemma select_target_no_panic:
  assumes "rng_ok R"
  shows "fst (select_target R c lo hi g) \<noteq> Err (Internal x)"
proof (cases "pc_selection c")
  case FirstFit
  then show ?thesis by (auto simp: select_target_def split: option.splits prod.splits)
next
  case (Weighted ws)
  define el where "el = filter (\<lambda>(tier, w). lo \<le> tier \<and> tier \<le> hi) (zip (base_tiers (pc_profile c)) ws)"
  obtain sm g' where g: "gen_range R 0 (sum_list (map snd el) - 1) g = (sm, g')" by fastforce
  have "\<exists>t. weighted_scan el sm = Some t" if "sum_list (map snd el) \<noteq> 0"
  proof (rule weighted_scan_total)
    from rng_ok_range [OF assms g] have "sm \<le> sum_list (map snd el) - 1" by simp
    with that show "sm < sum_list (map snd el)" by linarith
  qed
  with Weighted g show ?thesis
    by (cases "sum_list (map snd el) = 0") (auto simp: select_target_def Let_def el_def [symmetric])
qed

lemma remaining_padding_rng [simp]: "remaining_padding (e\<lparr>pe_rng := g\<rparr>) = remaining_padding e"
  by (simp add: remaining_padding_def split: option.split)

lemma target_ok_rng [simp]: "target_ok (e\<lparr>pe_rng := g\<rparr>) = target_ok e"
  by (simp add: target_ok_def fun_eq_iff)

lemma phantom_target_size_ok:
  assumes R: "rng_ok R" and "phantom_target_size R e plen mtu = (Ok n, e')"
  shows "target_ok e mtu plen n \<and> pe_next_sequence e \<noteq> None \<and> (\<exists>g. e' = e\<lparr>pe_rng := g\<rparr>)"
proof -
  let ?c = "pe_config e"
  let ?lo = "24 + plen + pc_min_padding ?c"
  let ?hi = "min (24 + plen + min (pc_max_padding ?c) (remaining_padding e)) mtu"
  from assms(2) obtain g where v: "phantom_validate ?c = Ok ()" "validate_path_mtu mtu = Ok ()"
    and sq: "pe_next_sequence e \<noteq> None" and lh: "?lo \<le> ?hi"
    and sel: "select_target R ?c ?lo ?hi (pe_rng e) = (Ok n, g)" and e': "e' = e\<lparr>pe_rng := g\<rparr>"
    unfolding phantom_target_size_def Let_def PHANTOM_ONE_HEADER_BYTES_def
    by (fastforce simp: range_simps not_less split: result.splits option.splits if_splits prod.splits)
  from select_target_range [OF R sel lh] have "?lo \<le> n" "n \<le> ?hi"
    "pc_profile_bound ?c \<longrightarrow> accepts_frame_len (pc_profile ?c) n" by auto
  with v sq e' show ?thesis by (auto simp: target_ok_def)
qed

lemma phantom_target_size_Err:
  "phantom_target_size R e plen mtu = (Err x, e') \<Longrightarrow> \<exists>g. e' = e\<lparr>pe_rng := g\<rparr>"
  unfolding phantom_target_size_def Let_def
  by (auto split: result.splits option.splits if_splits prod.splits intro: exI [of _ "pe_rng e"])

lemma pe_inv_rng [simp]: "pe_inv (e\<lparr>pe_rng := g\<rparr>) = pe_inv e"
  by (simp add: pe_inv_def)

text \<open>One call of \<open>encode\<close>: the frame it produces and the encoder after it.\<close>

lemma phantom_encode_Ok:
  assumes R: "rng_ok R" and inv: "pe_inv e" and enc: "phantom_encode R e ft pl mtu = (Ok b, e')"
  obtains sq pad g where "pe_next_sequence e = Some sq"
    "b = po_wire (pc_profile (pe_config e)) (pe_generation e) (ft, sq, pl) pad"
    "po_legal (pe_config e) (pe_generation e) mtu (ft, sq, pl) pad"
    "length pad \<le> remaining_padding e"
    "e' = e\<lparr>pe_rng := g, pe_next_sequence := checked_add u64_max sq 1,
       pe_metrics := phantom_record (pe_metrics e) (length pl) (length pad)\<rparr>"
proof -
  from enc obtain n e1 where t: "phantom_target_size R e (length pl) mtu = (Ok n, e1)"
    and w: "phantom_encode_with_target_into R e1 ft pl n mtu [] = (Ok (), b, e')"
    by (auto simp: phantom_encode_def phantom_encode_into_def split: prod.splits result.splits)
  from phantom_target_size_ok [OF R t] obtain g1 where e1: "e1 = e\<lparr>pe_rng := g1\<rparr>" by auto
  with inv have "pe_inv e1" by simp
  from encode_with_target_wire [OF R this w] obtain sq pad g where "pe_next_sequence e1 = Some sq"
    "b = po_wire (pc_profile (pe_config e1)) (pe_generation e1) (ft, sq, pl) pad"
    "po_legal (pe_config e1) (pe_generation e1) mtu (ft, sq, pl) pad"
    "length pad \<le> remaining_padding e1"
    "e' = e1\<lparr>pe_rng := g, pe_next_sequence := checked_add u64_max sq 1,
       pe_metrics := phantom_record (pe_metrics e1) (length pl) (length pad)\<rparr>" .
  then show thesis by (intro that [of sq pad g]) (simp_all add: e1)
qed

lemma phantom_encode_Err:
  assumes "rng_ok R" and "phantom_encode R e ft pl mtu = (Err x, e')"
  shows "\<exists>g. e' = e\<lparr>pe_rng := g\<rparr>"
proof (cases "phantom_target_size R e (length pl) mtu")
  case (Pair r e1)
  show ?thesis
  proof (cases r)
    case (Ok n)
    with Pair phantom_target_size_ok [OF assms(1), of e "length pl" mtu n e1] obtain g where e1: "e1 = e\<lparr>pe_rng := g\<rparr>" by auto
    from assms(2) Pair Ok have "\<exists>b y. phantom_encode_with_target_into R e1 ft pl n mtu [] = (Err y, b, e')"
      by (auto simp: phantom_encode_def phantom_encode_into_def split: prod.splits)
    with e1 show ?thesis by (auto dest!: encode_with_target_Err)
  next
    case (Err y)
    with assms(2) Pair have "e' = e1" by (auto simp: phantom_encode_def phantom_encode_into_def)
    with Pair Err phantom_target_size_Err show ?thesis by blast
  qed
qed

section \<open>Replay window\<close>

definition phantom_accept :: "phantom_decoder \<Rightarrow> nat \<Rightarrow> phantom_decoder option" where
  "phantom_accept d n = (case accept_sequence d n of (Ok _, d') \<Rightarrow> Some d' | (Err _, _) \<Rightarrow> None)"

definition pd_inv :: "phantom_decoder \<Rightarrow> bool" where
  "pd_inv d \<longleftrightarrow> 1 \<le> pd_window_size d \<and> pd_window_size d \<le> 64"

text \<open>Bit \<open>k\<close> of the bitmap stands for the sequence number \<open>k\<close> below the highest.\<close>

lemma window_mask_bit: "pd_inv d \<Longrightarrow> bit (window_mask d) k \<longleftrightarrow> k < pd_window_size d"
  by (auto simp: window_mask_def pd_inv_def bit_simps push_bit_eq_mult mask_eq_exp_minus_1 [symmetric])

lemma phantom_accept_None:
  "phantom_accept d n = None \<longleftrightarrow> (\<exists>h. pd_highest_sequence d = Some h \<and> n \<le> h
     \<and> (pd_window_size d \<le> h - n \<or> bit (pd_seen_bitmap d) (h - n)))"
  by (auto simp: phantom_accept_def accept_sequence_def Let_def and_exp_eq_0_iff_not_bit split: option.splits if_splits)

lemma phantom_accept_Some:
  assumes "pd_inv d" and "phantom_accept d n = Some d'"
  shows "pd_inv d'" and "pd_window_size d' = pd_window_size d"
    and "pd_highest_sequence d' = Some (case pd_highest_sequence d of None \<Rightarrow> n | Some h \<Rightarrow> max h n)"
    and "k < pd_window_size d \<Longrightarrow> bit (pd_seen_bitmap d') k \<longleftrightarrow> (case pd_highest_sequence d of
      None \<Rightarrow> k = 0
    | Some h \<Rightarrow> if h < n then k = 0 \<or> n - h \<le> k \<and> bit (pd_seen_bitmap d) (k - (n - h))
              else k = h - n \<or> bit (pd_seen_bitmap d) k)"
  using assms
  by (auto simp: phantom_accept_def accept_sequence_def Let_def pd_inv_def bit_simps
      window_mask_bit [unfolded pd_inv_def] split: option.splits if_splits)

interpretation ps: ordered_filter phantom_accept pd_inv pd_highest_sequence
proof unfold_locales
  fix d n d'
  assume inv: "pd_inv d" and acc: "phantom_accept d n = Some d'"
  note s = phantom_accept_Some [OF inv acc]
  show "pd_inv d'" and "pd_highest_sequence d' = Some (case pd_highest_sequence d of None \<Rightarrow> n | Some h \<Rightarrow> max h n)"
    by (rule s)+
  have w: "0 < pd_window_size d" using inv by (simp add: pd_inv_def)
  show "phantom_accept d' n = None"
    unfolding phantom_accept_None s(2,3)
    using s(4) [of 0] s(4) [of "the (pd_highest_sequence d) - n"] w
    by (auto simp: max_def not_less split: option.splits if_splits intro: leI)
  fix m
  assume ref: "phantom_accept d m = None"
  then obtain h where h: "pd_highest_sequence d = Some h" "m \<le> h"
    "pd_window_size d \<le> h - m \<or> bit (pd_seen_bitmap d) (h - m)" by (auto simp: phantom_accept_None)
  show "phantom_accept d' m = None"
  proof (cases "max h n - m < pd_window_size d")
    case True
    then have "bit (pd_seen_bitmap d) (h - m)" using h(2,3) by linarith
    moreover have "n - m - (n - h) = h - m \<and> n - h \<le> n - m" if "h < n" using that h(2) by linarith
    ultimately have "bit (pd_seen_bitmap d') (max h n - m)"
      using s(4) [OF True] h(1) by (cases "h < n") simp_all
    with s(3) h show ?thesis by (auto simp: phantom_accept_None)
  qed (use s(2,3) h in \<open>auto simp: phantom_accept_None not_less\<close>)
next
  fix d n
  assume "pd_inv d" and "\<forall>h\<in>set_option (pd_highest_sequence d). h < n"
  then have "phantom_accept d n \<noteq> None" by (auto simp: phantom_accept_None)
  then show "\<exists>d'. phantom_accept d n = Some d'" by simp
qed

text \<open>The bitmap implements the specification of the session cipher's window, one narrower than its
  size because it counts the highest number itself.\<close>

definition pd_refines :: "phantom_decoder \<Rightarrow> nat option \<times> nat set \<Rightarrow> bool" where
  "pd_refines d s \<longleftrightarrow> pd_inv d \<and> pd_highest_sequence d = fst s
     \<and> (\<forall>m\<in>snd s. \<exists>h. fst s = Some h \<and> m \<le> h)
     \<and> (\<forall>h m. fst s = Some h \<longrightarrow> m \<le> h \<longrightarrow> h - m < pd_window_size d \<longrightarrow> (m \<in> snd s \<longleftrightarrow> bit (pd_seen_bitmap d) (h - m)))"

lemma pd_refines_verdict:
  assumes "pd_refines d s"
  shows "phantom_accept d n = None \<longleftrightarrow> spec_accept (pd_window_size d - 1) s n = None"
proof (cases "fst s")
  case None
  with assms show ?thesis by (auto simp: pd_refines_def phantom_accept_None spec_accept_def)
next
  case (Some h)
  with assms have "pd_highest_sequence d = Some h" "1 \<le> pd_window_size d" "\<forall>m\<in>snd s. m \<le> h"
    "\<forall>m. m \<le> h \<longrightarrow> h - m < pd_window_size d \<longrightarrow> (m \<in> snd s \<longleftrightarrow> bit (pd_seen_bitmap d) (h - m))"
    by (auto simp: pd_refines_def pd_inv_def)
  with Some show ?thesis
    by (cases "n \<le> h"; cases "h - n < pd_window_size d") (auto simp: phantom_accept_None spec_accept_def)
qed

lemma pd_refines_step:
  assumes R: "pd_refines d s" and d': "phantom_accept d n = Some d'"
    and s': "spec_accept (pd_window_size d - 1) s n = Some s'"
  shows "pd_refines d' s' \<and> pd_window_size d' = pd_window_size d"
proof -
  have inv: "pd_inv d" and top: "pd_highest_sequence d = fst s" using R by (simp_all add: pd_refines_def)
  note a = phantom_accept_Some [OF inv d']
  from s' have fs: "fst s' = Some (case fst s of None \<Rightarrow> n | Some h \<Rightarrow> max h n)" and ss: "snd s' = insert n (snd s)"
    by (auto simp: spec_accept_def split: if_splits)
  have "m \<in> snd s' \<longleftrightarrow> bit (pd_seen_bitmap d') (h' - m)"
    if h': "fst s' = Some h'" "m \<le> h'" "h' - m < pd_window_size d" for h' m
  proof (cases "fst s")
    case None
    with R have "snd s = {}" by (auto simp: pd_refines_def)
    with None h' a(4) [of "h' - m"] top fs ss show ?thesis by auto
  next
    case (Some h)
    have old: "m \<in> snd s \<longleftrightarrow> m \<le> h \<and> bit (pd_seen_bitmap d) (h - m)" if "h - m < pd_window_size d"
      using R Some that by (auto simp: pd_refines_def)
    have "h \<le> h'" using fs h' Some by auto
    then have "h - m < pd_window_size d" using h' by linarith
    note old = old [OF this]
    show ?thesis
    proof (cases "h < n")
      case True
      with fs Some h' have h'n: "h' = n" by simp
      show ?thesis
      proof (cases "m \<le> h")
        case le: True
        then have "n - m - (n - h) = h - m" and "n - h \<le> n - m" and "m \<noteq> n" using True by linarith+
        with a(4) [OF h'(3)] top Some True old ss le h'n h'(2) show ?thesis by simp
      next
        case False
        then have "\<not> n - h \<le> n - m" using h'(2) h'n True by linarith
        with a(4) [OF h'(3)] top Some True old ss False h'n h'(2) show ?thesis by auto
      qed
    next
      case False
      with fs Some h' have h'h: "h' = h" by simp
      with a(4) [OF h'(3)] top Some False
      have "bit (pd_seen_bitmap d') (h - m) \<longleftrightarrow> h - m = h - n \<or> bit (pd_seen_bitmap d) (h - m)" by simp
      moreover have "h - m = h - n \<longleftrightarrow> m = n" using False h'(2) h'h by linarith
      ultimately show ?thesis using old ss h'h h'(2) by auto
    qed
  qed
  moreover have "\<forall>m\<in>snd s'. \<exists>h. fst s' = Some h \<and> m \<le> h"
    using R fs ss unfolding pd_refines_def by (fastforce split: option.splits)
  ultimately show ?thesis using a top fs by (auto simp: pd_refines_def)
qed

interpretation ps_ref: filter_refinement phantom_accept "spec_accept width"
    "\<lambda>d s. pd_refines d s \<and> pd_window_size d = Suc width" for width
proof unfold_locales
  fix d s n
  assume R: "pd_refines d s \<and> pd_window_size d = Suc width"
  then show "phantom_accept d n = None \<longleftrightarrow> spec_accept width s n = None"
    using pd_refines_verdict [of d s n] by simp
  fix d' s'
  assume "phantom_accept d n = Some d'" and "spec_accept width s n = Some s'"
  with R show "pd_refines d' s' \<and> pd_window_size d' = Suc width"
    using pd_refines_step [of d s n d' s'] by simp
qed

section \<open>Sessions\<close>

text \<open>The frames an encoder produced for a sequence of messages, each with its message; a refused
  message produces none.  The frames a decoder delivered out of a sequence of arrivals.\<close>

fun phantom_sent :: "'g rng \<Rightarrow> usize \<Rightarrow> 'g phantom_encoder \<Rightarrow> (phantom_frame_type \<times> bytes) list
    \<Rightarrow> (bytes \<times> phantom_frame_type \<times> bytes) list" where
  "phantom_sent R mtu e [] = []"
| "phantom_sent R mtu e ((ft, pl) # ms) = (case phantom_encode R e ft pl mtu of
     (Ok b, e') \<Rightarrow> (b, ft, pl) # phantom_sent R mtu e' ms | (Err x, e') \<Rightarrow> phantom_sent R mtu e' ms)"

fun phantom_received :: "usize \<Rightarrow> phantom_decoder \<Rightarrow> bytes list \<Rightarrow> phantom_frame list \<times> phantom_decoder" where
  "phantom_received mtu d [] = ([], d)"
| "phantom_received mtu d (b # bs) = (case phantom_decode d b mtu of
     (Ok f, d') \<Rightarrow> (f # fst (phantom_received mtu d' bs), snd (phantom_received mtu d' bs))
   | (Err x, d') \<Rightarrow> phantom_received mtu d' bs)"

lemma accept_sequence_cases:
  "accept_sequence d n = (case phantom_accept d n of Some d' \<Rightarrow> (Ok (), d') | None \<Rightarrow> (fst (accept_sequence d n), d))"
  by (auto simp: phantom_accept_def accept_sequence_def Let_def split: option.splits)

lemma accept_sequence_Err: "accept_sequence d n = (Err x, d') \<Longrightarrow> d' = d"
  by (auto simp: accept_sequence_def Let_def split: option.splits if_splits)

lemma phantom_decode_Err: "phantom_decode d b mtu = (Err x, d') \<Longrightarrow> d' = d"
  by (auto simp: phantom_decode_def split: result.splits prod.splits dest: accept_sequence_Err)

lemma phantom_decode_Ok:
  assumes "phantom_decode d b mtu = (Ok f, d')"
  obtains p d1 where "decode_parts b (pd_generation d) mtu (pd_config d) = Ok p" "f = to_frame p b"
    "phantom_accept d (pf_sequence f) = Some d1"
    "next_padding_bytes d (pf_padding_len f) = Ok (pd_padding_bytes_used d + pf_padding_len f)"
    "d' = d1\<lparr>pd_padding_bytes_used := pd_padding_bytes_used d + pf_padding_len f\<rparr>"
proof -
  from assms obtain p np d1 where p: "decode_parts b (pd_generation d) mtu (pd_config d) = Ok p"
    and np: "next_padding_bytes d (pp_padding_len p) = Ok np"
    and acc: "accept_sequence d (pp_sequence p) = (Ok (), d1)"
    and f: "f = to_frame p b" and d': "d' = d1\<lparr>pd_padding_bytes_used := np\<rparr>"
    by (auto simp: phantom_decode_def split: result.splits prod.splits)
  from np have n: "np = pd_padding_bytes_used d + pp_padding_len p"
    by (auto simp: next_padding_bytes_def range_simps split: option.splits if_splits)
  have "pf_sequence f = pp_sequence p" "pf_padding_len f = pp_padding_len p"
    by (simp_all add: f to_frame_def)
  then show thesis
    using p f np acc d' n by (intro that [of p d1]) (simp_all add: phantom_accept_def)
qed

lemma phantom_accept_fields:
  assumes "phantom_accept d n = Some d'"
  shows "pd_generation d' = pd_generation d" "pd_config d' = pd_config d"
    "pd_padding_bytes_used d' = pd_padding_bytes_used d"
  using assms by (auto simp: phantom_accept_def accept_sequence_def Let_def split: option.splits if_splits)

lemma phantom_accept_padding [simp]:
  "phantom_accept (d\<lparr>pd_padding_bytes_used := k\<rparr>) n
    = map_option (\<lambda>d'. d'\<lparr>pd_padding_bytes_used := k\<rparr>) (phantom_accept d n)"
  by (auto simp: phantom_accept_def accept_sequence_def Let_def window_mask_def split: option.splits)

lemma pd_inv_padding [simp]: "pd_inv (d\<lparr>pd_padding_bytes_used := k\<rparr>) = pd_inv d"
  by (simp add: pd_inv_def)

lemma phantom_received_filter:
  "fst (run_filter phantom_accept d (map pf_sequence (fst (phantom_received mtu d bs))))
     = map pf_sequence (fst (phantom_received mtu d bs))"
proof (induction bs arbitrary: d)
  case (Cons b bs)
  have padding: "fst (run_filter phantom_accept (d\<lparr>pd_padding_bytes_used := k\<rparr>) ns)
      = fst (run_filter phantom_accept d ns)" for d k ns
    by (induction ns arbitrary: d) (auto split: option.splits)
  obtain r d' where dec: "phantom_decode d b mtu = (r, d')" by fastforce
  show ?case
  proof (cases r)
    case (Ok f)
    with dec obtain d1 where "phantom_accept d (pf_sequence f) = Some d1"
      "d' = d1\<lparr>pd_padding_bytes_used := pd_padding_bytes_used d + pf_padding_len f\<rparr>"
      by (auto elim: phantom_decode_Ok)
    with Ok dec Cons.IH [of d'] show ?thesis by (simp add: padding)
  next
    case (Err x)
    with dec Cons.IH [of d'] show ?thesis by (auto dest: phantom_decode_Err)
  qed
qed simp

lemma phantom_received_budget:
  "pd_padding_bytes_used (snd (phantom_received mtu d bs))
     = pd_padding_bytes_used d + sum_list (map pf_padding_len (fst (phantom_received mtu d bs)))
   \<and> pd_config (snd (phantom_received mtu d bs)) = pd_config d
   \<and> (\<forall>budget. pc_padding_budget (pd_config d) = Some budget \<longrightarrow> pd_padding_bytes_used d \<le> budget \<longrightarrow>
        pd_padding_bytes_used (snd (phantom_received mtu d bs)) \<le> budget)"
proof (induction bs arbitrary: d)
  case (Cons b bs)
  obtain r d' where dec: "phantom_decode d b mtu = (r, d')" by fastforce
  show ?case
  proof (cases r)
    case (Ok f)
    with dec obtain d1 where "phantom_accept d (pf_sequence f) = Some d1"
      "next_padding_bytes d (pf_padding_len f) = Ok (pd_padding_bytes_used d + pf_padding_len f)"
      "d' = d1\<lparr>pd_padding_bytes_used := pd_padding_bytes_used d + pf_padding_len f\<rparr>"
      by (auto elim: phantom_decode_Ok)
    with phantom_accept_fields [of d "pf_sequence f" d1]
    have "pd_config d' = pd_config d" "pd_padding_bytes_used d' = pd_padding_bytes_used d + pf_padding_len f"
      "\<forall>budget. pc_padding_budget (pd_config d) = Some budget \<longrightarrow> pd_padding_bytes_used d + pf_padding_len f \<le> budget"
      by (auto simp: next_padding_bytes_def split: option.splits if_splits)
    with Ok dec Cons.IH [of d'] show ?thesis by auto
  next
    case (Err x)
    with dec Cons.IH [of d'] show ?thesis by (auto dest: phantom_decode_Err)
  qed
qed simp

text \<open>A decoder that follows an encoder: same session parameters, the same padding counted, and
  nothing seen from the next sequence number on.\<close>

definition in_step :: "'g phantom_encoder \<Rightarrow> phantom_decoder \<Rightarrow> u64 \<Rightarrow> bool" where
  "in_step e d sq \<longleftrightarrow> pe_inv e \<and> pd_inv d \<and> pe_next_sequence e = Some sq
     \<and> pd_generation d = pe_generation e \<and> pd_config d = pe_config e
     \<and> pd_padding_bytes_used d = em_padding_bytes (pe_metrics e)
     \<and> (\<forall>b\<in>set_option (pc_padding_budget (pe_config e)). em_padding_bytes (pe_metrics e) \<le> b)
     \<and> (\<forall>h\<in>set_option (pd_highest_sequence d). h < sq)"

lemma validate_max_padding: "phantom_validate c = Ok () \<Longrightarrow> pc_max_padding c \<le> 4096"
  by (auto simp: phantom_validate_def PHANTOM_ONE_MAX_PADDING_BYTES_def split: if_splits)

lemma in_step_wire:
  assumes st: "in_step e d sq" and sq: "sq < u64_max"
    and pb: "em_padding_bytes (pe_metrics e) + 4096 \<le> u64_max"
    and b: "b = po_wire (pc_profile (pe_config e)) (pe_generation e) (ft, sq, pl) pad"
    and legal: "po_legal (pe_config e) (pe_generation e) mtu (ft, sq, pl) pad"
    and rem: "length pad \<le> remaining_padding e"
    and e': "e' = e\<lparr>pe_rng := g, pe_next_sequence := checked_add u64_max sq 1,
       pe_metrics := phantom_record (pe_metrics e) (length pl) (length pad)\<rparr>"
  obtains f d' where "phantom_decode d b mtu = (Ok f, d')" "po_message f = (ft, sq, pl)"
    "in_step e' d' (sq + 1)" "em_padding_bytes (pe_metrics e') \<le> em_padding_bytes (pe_metrics e) + 4096"
    "length b = 24 + length pl + pf_padding_len f"
proof -
  let ?c = "pe_config e"
  from st have inv: "pe_inv e" "pd_inv d" and q: "pe_next_sequence e = Some sq"
    and sess: "pd_generation d = pe_generation e" "pd_config d = ?c"
      "pd_padding_bytes_used d = em_padding_bytes (pe_metrics e)"
    and bud: "\<forall>b\<in>set_option (pc_padding_budget ?c). em_padding_bytes (pe_metrics e) \<le> b"
    and top: "\<forall>h\<in>set_option (pd_highest_sequence d). h < sq" by (auto simp: in_step_def)
  from legal have pad: "length pad \<le> 4096" using validate_max_padding by (fastforce simp: po_legal_def)
  then have add: "sat_add u64_max (em_padding_bytes (pe_metrics e)) (length pad)
      = em_padding_bytes (pe_metrics e) + length pad"
    "checked_add u64_max (em_padding_bytes (pe_metrics e)) (length pad) = Some (em_padding_bytes (pe_metrics e) + length pad)"
    using pb by (simp_all add: sat_add_def checked_add_def)
  have fits: "\<forall>b\<in>set_option (pc_padding_budget ?c). em_padding_bytes (pe_metrics e) + length pad \<le> b"
    using rem bud by (auto simp: remaining_padding_def Let_def split: if_splits)
  then have np: "next_padding_bytes d (length pad) = Ok (em_padding_bytes (pe_metrics e) + length pad)"
    using sess add by (force simp: next_padding_bytes_def)
  from ps.accept_above [OF inv(2) top] obtain d1 where d1: "phantom_accept d sq = Some d1" ..
  define d' where "d' = d1\<lparr>pd_padding_bytes_used := em_padding_bytes (pe_metrics e) + length pad\<rparr>"
  define f where "f = to_frame (po_parts ?c (pe_generation e) (ft, sq, pl) pad) b"
  have "accept_sequence d sq = (Ok (), d1)" using accept_sequence_cases [of d sq] d1 by simp
  with decode_parts_wire [OF legal] np sess have "phantom_decode d b mtu = (Ok f, d')"
    by (simp add: phantom_decode_def b f_def d'_def) (simp add: po_parts_def)
  moreover have "po_message f = (ft, sq, pl)" unfolding f_def b by (rule po_message_wire)
  moreover have "pd_highest_sequence d1 = Some sq"
    using ps.top_accept [OF inv(2) d1] top by (auto split: option.splits)
  then have "in_step e' d' (sq + 1)"
    using inv(1) ps.accept_inv [OF inv(2) d1] sq fits sess add phantom_accept_fields [OF d1]
    by (simp add: in_step_def e' d'_def pe_inv_def checked_add_def phantom_record_def)
  moreover have "em_padding_bytes (pe_metrics e') \<le> em_padding_bytes (pe_metrics e) + 4096"
    using pad add by (simp add: e' phantom_record_def)
  moreover have "length b = 24 + length pl + pf_padding_len f"
    by (simp add: b f_def po_wire_fields to_frame_def po_parts_def)
  ultimately show thesis by (rule that)
qed

lemma in_step_encode:
  assumes R: "rng_ok R" and st: "in_step e d sq" and sq: "sq < u64_max"
    and pb: "em_padding_bytes (pe_metrics e) + 4096 \<le> u64_max"
    and enc: "phantom_encode R e ft pl mtu = (Ok b, e')"
  obtains f d' where "phantom_decode d b mtu = (Ok f, d')" "po_message f = (ft, sq, pl)"
    "in_step e' d' (sq + 1)" "em_padding_bytes (pe_metrics e') \<le> em_padding_bytes (pe_metrics e) + 4096"
    "length b = 24 + length pl + pf_padding_len f"
proof -
  have "pe_inv e" "pe_next_sequence e = Some sq" using st by (simp_all add: in_step_def)
  with phantom_encode_Ok [OF R _ enc] obtain pad g where
    "b = po_wire (pc_profile (pe_config e)) (pe_generation e) (ft, sq, pl) pad"
    "po_legal (pe_config e) (pe_generation e) mtu (ft, sq, pl) pad" "length pad \<le> remaining_padding e"
    "e' = e\<lparr>pe_rng := g, pe_next_sequence := checked_add u64_max sq 1,
       pe_metrics := phantom_record (pe_metrics e) (length pl) (length pad)\<rparr>"
    by (metis option.inject)
  from in_step_wire [OF st sq pb this] show thesis using that .
qed

lemma in_step_rng [simp]: "in_step (e\<lparr>pe_rng := g\<rparr>) d sq = in_step e d sq"
  by (simp add: in_step_def)

lemma phantom_session:
  assumes R: "rng_ok R"
  shows "in_step e d sq \<Longrightarrow> sq + length ms \<le> u64_max \<Longrightarrow>
    em_padding_bytes (pe_metrics e) + 4096 * length ms \<le> u64_max \<Longrightarrow>
    map po_message (fst (phantom_received mtu d (map fst (phantom_sent R mtu e ms))))
      = map (\<lambda>(i, b, ft, pl). (ft, i, pl))
          (zip [sq..<sq + length (phantom_sent R mtu e ms)] (phantom_sent R mtu e ms))"
proof (induction ms arbitrary: e d sq)
  case (Cons m ms)
  obtain ft pl where m: "m = (ft, pl)" by fastforce
  obtain r e' where enc: "phantom_encode R e ft pl mtu = (r, e')" by fastforce
  show ?case
  proof (cases r)
    case (Ok b)
    with enc have enc': "phantom_encode R e ft pl mtu = (Ok b, e')" by simp
    have "sq < u64_max" "em_padding_bytes (pe_metrics e) + 4096 \<le> u64_max" using Cons.prems(2,3) by simp_all
    from in_step_encode [OF R Cons.prems(1) this enc'] obtain f d' where
      s: "phantom_decode d b mtu = (Ok f, d')" "po_message f = (ft, sq, pl)" "in_step e' d' (sq + 1)"
      "em_padding_bytes (pe_metrics e') \<le> em_padding_bytes (pe_metrics e) + 4096" .
    with Cons.IH [of e' d' "sq + 1"] Cons.prems(2,3) enc Ok m show ?thesis
      by (simp add: upt_conv_Cons del: upt_Suc)
  next
    case (Err x)
    with phantom_encode_Err [OF R] enc obtain g where "e' = e\<lparr>pe_rng := g\<rparr>" by blast
    with Err enc Cons.IH [of e' d sq] Cons.prems m show ?thesis by simp
  qed
qed simp

lemma phantom_sent_budget:
  assumes R: "rng_ok R"
  shows "pe_inv e \<Longrightarrow> pc_padding_budget (pe_config e) = Some budget \<Longrightarrow> em_padding_bytes (pe_metrics e) \<le> budget \<Longrightarrow>
    em_padding_bytes (pe_metrics e)
      + sum_list (map (\<lambda>(b, ft, pl). length b - (24 + length pl)) (phantom_sent R mtu e ms)) \<le> budget"
proof (induction ms arbitrary: e)
  case (Cons m ms)
  obtain ft pl where m: "m = (ft, pl)" by fastforce
  obtain r e' where enc: "phantom_encode R e ft pl mtu = (r, e')" by fastforce
  show ?case
  proof (cases r)
    case (Ok b)
    with enc have enc': "phantom_encode R e ft pl mtu = (Ok b, e')" by simp
    obtain sq pad g where b: "b = po_wire (pc_profile (pe_config e)) (pe_generation e) (ft, sq, pl) pad"
      and sq: "pe_next_sequence e = Some sq" and rem: "length pad \<le> remaining_padding e"
      and e': "e' = e\<lparr>pe_rng := g, pe_next_sequence := checked_add u64_max sq 1,
        pe_metrics := phantom_record (pe_metrics e) (length pl) (length pad)\<rparr>"
      by (rule phantom_encode_Ok [OF R Cons.prems(1) enc'])
    have fit: "em_padding_bytes (pe_metrics e) + length pad \<le> budget" "budget \<le> u64_max"
      using rem Cons.prems by (auto simp: remaining_padding_def Let_def pe_inv_def split: if_splits)
    then have em: "em_padding_bytes (pe_metrics e') = em_padding_bytes (pe_metrics e) + length pad"
      by (simp add: e' phantom_record_def sat_add_def)
    have "pe_inv e'" using Cons.prems(1) sq
      by (auto simp: e' pe_inv_def checked_add_def split: if_splits)
    with Cons.IH [of e'] Cons.prems(2) em fit show ?thesis
      by (simp add: m enc' b e' po_wire_fields)
  next
    case (Err x)
    with phantom_encode_Err [OF R] enc obtain g where "e' = e\<lparr>pe_rng := g\<rparr>" by blast
    with Err enc Cons.IH [of e'] Cons.prems m show ?thesis by simp
  qed
qed simp

section \<open>Properties\<close>

text \<open>A Phantom One session: an encoder and a decoder created for the same generation, the same
  configuration and any replay window.  The decoder accepts every frame the encoder produced,
  in order, and returns each message's frame type and payload under consecutive sequence numbers
  from 0; neither the replay window nor the decoder's padding budget ever refuses one.\<close>

lemma phantom_session_in_order:
  assumes "rng_ok R" and "gen \<le> u32_max" and "phantom_validate c = Ok ()"
    and "\<forall>b\<in>set_option (pc_padding_budget c). b \<le> u64_max"
    and "4096 * length ms \<le> u64_max"
    and "phantom_decoder_with_config_and_window gen c ws = Ok d"
    and "S = phantom_sent R mtu (phantom_encoder_from_validated_config gen g c) ms"
  shows "map po_message (fst (phantom_received mtu d (map fst S)))
      = map (\<lambda>(i, b, ft, pl). (ft, i, pl)) (zip [0..<length S] S)"
proof -
  have "in_step (phantom_encoder_from_validated_config gen g c) d 0"
    using assms(2-4,6) by (auto simp: in_step_def pe_inv_def pd_inv_def u64_max_def
        phantom_encoder_from_validated_config_def envelope_metrics_default_def
        phantom_decoder_with_config_and_window_def PHANTOM_ONE_DEFAULT_REPLAY_WINDOW_def
        split: result.splits if_splits)
  from phantom_session [OF assms(1) this, of ms mtu] assms(5,7) show ?thesis
    by (simp add: phantom_encoder_from_validated_config_def envelope_metrics_default_def)
qed

text \<open>The bytes a Phantom One decoder accepts are exactly the canonical envelopes of its
  session: right magic, version, profile, generation, a known frame type, zero reserved byte,
  the target length equal to the datagram length and within the MTU, and padding within the
  configured bounds and size classes.  The payload, type and sequence number are read back
  unchanged.\<close>

lemma phantom_decode_exact:
  "po_decode c gen mtu b = Ok m \<longleftrightarrow>
     (\<exists>pad. po_legal c gen mtu m pad \<and> b = po_wire (pc_profile c) gen m pad)"
  by (rule po.dec_accepts_iff)

text \<open>C26. Whatever datagrams arrive, a decoder never delivers one sequence number twice, and its
  64-bit bitmap gives every sequence number the verdict of the specification that remembers all
  accepted numbers, with a window one narrower than its configured size.\<close>

theorem phantom_replay_protection:
  assumes "phantom_decoder_with_config_and_window gen c ws = Ok d"
  shows "distinct (map pf_sequence (fst (phantom_received mtu d bs)))
    \<and> fst (run_filter phantom_accept d ns) = fst (run_filter (spec_accept (ws - 1)) (None, {}) ns)"
proof -
  from assms have inv: "pd_inv d" and ws: "pd_window_size d = Suc (ws - 1)" and new: "pd_highest_sequence d = None"
    by (auto simp: pd_inv_def phantom_decoder_with_config_and_window_def
        PHANTOM_ONE_DEFAULT_REPLAY_WINDOW_def split: result.splits if_splits)
  then have "pd_refines d (None, {})" by (simp add: pd_refines_def)
  with ws ps_ref.run_refines [where width = "ws - 1" and w = d and s = "(None, {})" and ns = ns]
    ps.run_distinct [OF inv, of "map pf_sequence (fst (phantom_received mtu d bs))"]
    phantom_received_filter [of d mtu bs] show ?thesis by simp
qed

theorem phantom_replay_protection_witness:
  "fst (run_filter phantom_accept (phantom_decoder_new 7) [5, 3, 5, 80, 16, 17, 3])
     = fst (run_filter (spec_accept 63) (None, {}) [5, 3, 5, 80, 16, 17, 3])"
proof -
  have "phantom_decoder_with_config_and_window 7 phantom_config_default 64 = Ok (phantom_decoder_new 7)"
    by (simp add: phantom_config_default_def phantom_validate_def
      PHANTOM_ONE_MAX_PADDING_BYTES_def phantom_decoder_with_config_and_window_def
      PHANTOM_ONE_DEFAULT_REPLAY_WINDOW_def phantom_decoder_new_def)
  from phantom_replay_protection [OF this] show ?thesis by (simp del: run_filter.simps)
qed

text \<open>The padding budget is a bound over the life of a session on both sides: the padding of
  all frames an encoder produces, and the padding of all frames a decoder accepts from anyone,
  stay within the configured budget.\<close>

lemma phantom_padding_budget:
  assumes "rng_ok R" and "gen \<le> u32_max" and "budget \<le> u64_max"
    and "pc_padding_budget c = Some budget"
    and "phantom_decoder_with_config_and_window gen c ws = Ok d"
  shows "sum_list (map (\<lambda>(b, ft, pl). length b - (24 + length pl))
       (phantom_sent R mtu (phantom_encoder_from_validated_config gen g c) ms)) \<le> budget
    \<and> sum_list (map pf_padding_len (fst (phantom_received mtu d bs))) \<le> budget"
proof
  let ?e = "phantom_encoder_from_validated_config gen g c"
  have "pe_inv ?e" "pc_padding_budget (pe_config ?e) = Some budget" "em_padding_bytes (pe_metrics ?e) = 0"
    using assms(2-4) by (auto simp: pe_inv_def phantom_encoder_from_validated_config_def
        envelope_metrics_default_def u64_max_def)
  with phantom_sent_budget [OF assms(1), of ?e budget mtu ms]
  show "sum_list (map (\<lambda>(b, ft, pl). length b - (24 + length pl)) (phantom_sent R mtu ?e ms)) \<le> budget" by simp
  have "pd_padding_bytes_used d = 0" "pd_config d = c"
    using assms(5) by (auto simp: phantom_decoder_with_config_and_window_def split: result.splits if_splits)
  with phantom_received_budget [of mtu d bs] assms(4)
  show "sum_list (map pf_padding_len (fst (phantom_received mtu d bs))) \<le> budget" by simp
qed

text \<open>Choosing a size never defeats sending: whenever \<open>phantom_target_size\<close> returns a target, encoding
  at that target succeeds with an envelope of exactly that length, within the path MTU and, for
  a profile-bound session, of one of the profile's canonical lengths; only the generator can
  still fail.  The weighted selection never reaches its \<open>unreachable!\<close>.\<close>

lemma phantom_target_is_encodable:
  assumes "rng_ok R" and "pe_inv e" and "phantom_target_size R e (length pl) mtu = (r, e1)"
  shows "(\<forall>x. r \<noteq> Err (Internal x))
    \<and> (\<forall>n. r = Ok n \<longrightarrow> n \<le> mtu
        \<and> (pc_profile_bound (pe_config e) \<longrightarrow> accepts_frame_len (pc_profile (pe_config e)) n)
        \<and> (fst (fill_bytes R (n - (24 + length pl)) (pe_rng e1)) \<noteq> None \<longrightarrow>
            (\<exists>b e'. phantom_encode_into R e ft pl mtu env = (Ok (), b, e') \<and> length b = n)))"
proof (intro conjI allI impI)
  fix x
  have a: "phantom_validate c \<noteq> Err (Internal x)" "validate_path_mtu k \<noteq> Err (Internal x)"
    "validate_payload_length k \<noteq> Err (Internal x)" for c k
    by (auto simp: phantom_validate_def validate_path_mtu_def validate_payload_length_def)
  show "r \<noteq> Err (Internal x)"
    using assms(3) select_target_no_panic [OF assms(1)]
    by (auto simp: phantom_target_size_def Let_def a split: result.splits option.splits if_splits prod.splits)
      (metis fst_conv)+
next
  fix n
  assume r: "r = Ok n"
  with phantom_target_size_ok [OF assms(1)] assms(3) have t: "target_ok e mtu (length pl) n" "pe_next_sequence e \<noteq> None"
    "\<exists>g. e1 = e\<lparr>pe_rng := g\<rparr>" by auto
  from t show "n \<le> mtu" by (simp add: target_ok_def)
  from t show "accepts_frame_len (pc_profile (pe_config e)) n" if "pc_profile_bound (pe_config e)"
    using that by (auto simp: target_ok_def)
  assume "fst (fill_bytes R (n - (24 + length pl)) (pe_rng e1)) \<noteq> None"
  with t obtain sq g where e1: "e1 = e\<lparr>pe_rng := g\<rparr>" and sq: "pe_next_sequence e1 = Some sq"
    and ok: "target_ok e1 mtu (length pl) n" and inv: "pe_inv e1" using assms(2) by auto
  obtain pad g' where "fill_bytes R (n - (24 + length pl)) (pe_rng e1) = (Some pad, g')"
    using \<open>fst (fill_bytes R _ (pe_rng e1)) \<noteq> None\<close> by (metis not_None_eq prod.collapse)
  with encode_with_target_ok [OF sq ok] obtain b e' where
    enc: "phantom_encode_with_target_into R e1 ft pl n mtu env = (Ok (), b, e')" by simp
  then have "length b = n"
    by (rule encode_with_target_wire [OF assms(1) inv]) (simp add: po_wire_fields)
  with enc r assms(3) show "\<exists>b e'. phantom_encode_into R e ft pl mtu env = (Ok (), b, e') \<and> length b = n"
    by (auto simp: phantom_encode_into_def)
qed

end
