(* ===== verification/Shroud3.thy ===== *)
theory Shroud3
  imports Interfaces
begin

text \<open>
  Shroud 3 of \<open>shph-transport/src/shroud3.rs\<close>: configuration and its validation, the workload
  classifier over a ring of sixteen samples, the transition planner, the joint size and delay
  sampler, the encoder as one step of the engine, its counters, and the decoder.  A \<open>Duration\<close> is a
  number of nanoseconds.  The floating-point summaries of the counters are left out.
\<close>

section \<open>Configuration\<close>

definition SHROUD3_MAGIC :: bytes where "SHROUD3_MAGIC = [0x53, 0x33]"
definition SHROUD3_VERSION :: byte where "SHROUD3_VERSION = 1"
definition SHROUD3_HEADER_BYTES :: usize where "SHROUD3_HEADER_BYTES = 7"
definition MAX_SHROUD3_DATAGRAM_BYTES :: usize where "MAX_SHROUD3_DATAGRAM_BYTES = u16_max"
definition MAX_SHROUD3_PADDING_BYTES :: usize where "MAX_SHROUD3_PADDING_BYTES = 4096"
definition MAX_SHROUD3_PROFILE_BINS :: usize where "MAX_SHROUD3_PROFILE_BINS = 64"
definition MAX_SHROUD3_DELAY :: duration where "MAX_SHROUD3_DELAY = 100 * 1000000"
definition WORKLOAD_WINDOW_CAPACITY :: usize where "WORKLOAD_WINDOW_CAPACITY = 16"
definition MAX_MINIMUM_DWELL :: duration where "MAX_MINIMUM_DWELL = 60 * 1000000000"
definition MAX_BURST_GAP :: duration where "MAX_BURST_GAP = 1000000000"
definition MAX_SUSTAINED_GAP :: duration where "MAX_SUSTAINED_GAP = 1000000000"
definition MAX_QUEUE_AGE :: duration where "MAX_QUEUE_AGE = 1000000000"
definition MAX_BURST_LENGTH :: u32 where "MAX_BURST_LENGTH = 1024"
definition MAX_TRANSITION_CONFIRMATIONS :: u8 where "MAX_TRANSITION_CONFIRMATIONS = 16"

datatype workload_mode = Interactive | Bursty | Sustained | QueuePressure

datatype transition_reason = WindowTrend | BurstDensity | QueuePressureReason

record s3_observation =
  observed_at :: duration
  queue_age :: duration

record joint_bin =
  extra_padding_quanta :: u16
  shaping_delay :: duration
  bin_weight :: u32

record joint_profile =
  size_quantum :: usize
  bins :: "joint_bin list"

record s3_profiles =
  p_interactive :: joint_profile
  p_bursty :: joint_profile
  p_sustained :: joint_profile
  p_queue_pressure :: joint_profile

record s3_config =
  minimum_dwell :: duration
  burst_gap :: duration
  sustained_activity_gap :: duration
  burst_length_threshold :: u32
  burst_density_threshold_percent :: u8
  queue_age_limit :: duration
  sustained_payload_threshold :: usize
  transition_confirmations :: u8
  max_padding_bytes :: usize
  max_shaping_delay :: duration
  s3_prof :: s3_profiles

definition is_power_of_two :: "nat \<Rightarrow> bool" where
  "is_power_of_two n \<longleftrightarrow> n \<in> (\<lambda>k. 2 ^ k) ` {..<64}"

text \<open>The loop over the bins; the accumulator is the total weight and whether a bin without
  padding and delay was seen.\<close>

fun validate_bins :: "duration \<Rightarrow> joint_bin list \<Rightarrow> u64 \<Rightarrow> bool \<Rightarrow> (u64 \<times> bool) result" where
  "validate_bins max_delay [] total_weight has_zero = Ok (total_weight, has_zero)"
| "validate_bins max_delay (b # bs) total_weight has_zero =
     (if bin_weight b = 0 then Err (Config ''Shroud 3 profile weights must be nonzero'')
      else if max_delay < shaping_delay b
        then Err (Config ''Shroud 3 profile delay exceeds its configured maximum'')
      else case checked_add u64_max total_weight (bin_weight b) of
        None \<Rightarrow> Err (Config ''Shroud 3 profile weight overflow'')
      | Some t \<Rightarrow> validate_bins max_delay bs t
          (has_zero \<or> (extra_padding_quanta b = 0 \<and> shaping_delay b = 0)))"

definition validate_joint_profile :: "joint_profile \<Rightarrow> duration \<Rightarrow> unit result" where
  "validate_joint_profile p max_delay =
     (if \<not> (1 \<le> size_quantum p \<and> size_quantum p \<le> 256) \<or> \<not> is_power_of_two (size_quantum p)
        then Err (Config ''Shroud 3 size quantum must be a power of two from 1 through 256'')
      else if bins p = [] \<or> MAX_SHROUD3_PROFILE_BINS < length (bins p)
        then Err (Config (''Shroud 3 profile must contain 1 through ''
               @ show_nat MAX_SHROUD3_PROFILE_BINS @ '' bins''))
      else case validate_bins max_delay (bins p) 0 False of
        Err e \<Rightarrow> Err e
      | Ok (total_weight, has_zero_fallback) \<Rightarrow>
          if total_weight = 0 \<or> \<not> has_zero_fallback
            then Err (Config ''each Shroud 3 profile needs a zero-padding, zero-delay choice'')
          else Ok ())"

definition mk_profile :: "usize \<Rightarrow> (u16 \<times> u64 \<times> u32) list \<Rightarrow> joint_profile" where
  "mk_profile q bs = \<lparr>size_quantum = q, bins = map (\<lambda>(k, micros, w).
     \<lparr>extra_padding_quanta = k, shaping_delay = micros * 1000, bin_weight = w\<rparr>) bs\<rparr>"

definition s3_profiles_default :: s3_profiles where
  "s3_profiles_default = \<lparr>
     p_interactive = mk_profile 16 [(0, 0, 50), (0, 250, 20), (1, 500, 20), (4, 1000, 10)],
     p_bursty = mk_profile 32 [(0, 0, 35), (1, 100, 20), (2, 250, 30), (4, 500, 15)],
     p_sustained = mk_profile 64 [(0, 0, 20), (1, 100, 20), (2, 250, 30), (4, 500, 30)],
     p_queue_pressure = mk_profile 16 [(0, 0, 90), (1, 0, 10)]\<rparr>"

definition s3_config_default :: s3_config where
  "s3_config_default = \<lparr>minimum_dwell = 100 * 1000000, burst_gap = 5 * 1000000,
     sustained_activity_gap = 250 * 1000000, burst_length_threshold = 4,
     burst_density_threshold_percent = 60, queue_age_limit = 10 * 1000000,
     sustained_payload_threshold = 1024, transition_confirmations = 2, max_padding_bytes = 1024,
     max_shaping_delay = 10 * 1000000, s3_prof = s3_profiles_default\<rparr>"

definition s3_validate :: "s3_config \<Rightarrow> unit result" where
  "s3_validate c =
     (if MAX_MINIMUM_DWELL < minimum_dwell c \<or> burst_gap c = 0 \<or> MAX_BURST_GAP < burst_gap c
         \<or> sustained_activity_gap c = 0 \<or> MAX_SUSTAINED_GAP < sustained_activity_gap c
         \<or> \<not> (2 \<le> burst_length_threshold c \<and> burst_length_threshold c \<le> MAX_BURST_LENGTH)
         \<or> \<not> (1 \<le> burst_density_threshold_percent c \<and> burst_density_threshold_percent c \<le> 100)
         \<or> queue_age_limit c = 0 \<or> MAX_QUEUE_AGE < queue_age_limit c
         \<or> sustained_payload_threshold c = 0 \<or> u16_max < sustained_payload_threshold c
         \<or> \<not> (1 \<le> transition_confirmations c \<and> transition_confirmations c \<le> MAX_TRANSITION_CONFIRMATIONS)
         \<or> MAX_SHROUD3_PADDING_BYTES < max_padding_bytes c \<or> MAX_SHROUD3_DELAY < max_shaping_delay c
        then Err (Config ''invalid Shroud 3 workload or resource bounds'')
      else case validate_joint_profile (p_interactive (s3_prof c)) (max_shaping_delay c) of Err e \<Rightarrow> Err e | Ok _ \<Rightarrow>
          (case validate_joint_profile (p_bursty (s3_prof c)) (max_shaping_delay c) of Err e \<Rightarrow> Err e | Ok _ \<Rightarrow>
          (case validate_joint_profile (p_sustained (s3_prof c)) (max_shaping_delay c) of Err e \<Rightarrow> Err e | Ok _ \<Rightarrow>
           validate_joint_profile (p_queue_pressure (s3_prof c)) (max_shaping_delay c))))"

fun mode_profile :: "s3_config \<Rightarrow> workload_mode \<Rightarrow> joint_profile" where
  "mode_profile c Interactive = p_interactive (s3_prof c)"
| "mode_profile c Bursty = p_bursty (s3_prof c)"
| "mode_profile c Sustained = p_sustained (s3_prof c)"
| "mode_profile c QueuePressure = p_queue_pressure (s3_prof c)"

section \<open>Engine state\<close>

record s3_metrics =
  m_observations :: u64
  m_switches :: u64
  m_burst_transitions :: u64
  m_window_trend_transitions :: u64
  m_queue_pressure_transitions :: u64
  m_transition_deferred :: u64
  m_profile_fallback_frames :: u64
  m_burst_length :: u32
  m_payload_bytes :: u64
  m_wire_bytes :: u64
  m_padding_bytes :: u64
  m_total_shaping_delay_nanos :: u128
  m_min_wire_bytes :: "usize option"
  m_max_wire_bytes :: "usize option"
  m_last_reason :: "transition_reason option"

record window_sample =
  payload_bytes :: usize
  inter_arrival :: "duration option"

record transition_plan =
  tp_mode :: workload_mode
  tp_pending_mode :: "workload_mode option"
  tp_pending_count :: u8
  tp_reason :: "transition_reason option"
  tp_deferred :: bool

record 'g adaptive_shroud3 =
  s3_config :: s3_config
  s3_rng :: 'g
  s3_mode :: workload_mode
  history :: "window_sample list"
  history_len :: usize
  history_next :: usize
  pending_mode :: "workload_mode option"
  pending_count :: u8
  last_observation :: "duration option"
  last_transition :: "duration option"
  s3_burst_length :: u32
  pending_delay :: duration
  s3_metrics :: s3_metrics

definition s3_metrics_default :: s3_metrics where
  "s3_metrics_default = \<lparr>m_observations = 0, m_switches = 0, m_burst_transitions = 0,
     m_window_trend_transitions = 0, m_queue_pressure_transitions = 0, m_transition_deferred = 0,
     m_profile_fallback_frames = 0, m_burst_length = 0, m_payload_bytes = 0, m_wire_bytes = 0,
     m_padding_bytes = 0, m_total_shaping_delay_nanos = 0, m_min_wire_bytes = None,
     m_max_wire_bytes = None, m_last_reason = None\<rparr>"

definition s3_with_rng :: "s3_config \<Rightarrow> 'g \<Rightarrow> 'g adaptive_shroud3 result" where
  "s3_with_rng c g = map_ok (\<lambda>_. \<lparr>s3_config = c, s3_rng = g, s3_mode = Interactive,
     history = replicate WORKLOAD_WINDOW_CAPACITY \<lparr>payload_bytes = 0, inter_arrival = None\<rparr>,
     history_len = 0, history_next = 0, pending_mode = None, pending_count = 0,
     last_observation = None, last_transition = None, s3_burst_length = 0, pending_delay = 0,
     s3_metrics = s3_metrics_default\<rparr>) (s3_validate c)"

section \<open>Classification and transitions\<close>

definition intervals :: "window_sample list \<Rightarrow> duration list" where
  "intervals hist = List.map_filter inter_arrival hist"

definition burst_density_percent :: "window_sample list \<Rightarrow> duration \<Rightarrow> u8" where
  "burst_density_percent hist gap =
     (let n = length (intervals hist); close = length (filter (\<lambda>i. i \<le> gap) (intervals hist)) in
      if n < 3 then 0 else (close * 100 div n) mod 256)"

definition median_payload_bytes :: "window_sample list \<Rightarrow> usize" where
  "median_payload_bytes hist =
     (if hist = [] then 0 else sort (map payload_bytes hist) ! (length hist div 2))"

definition median_inter_arrival :: "window_sample list \<Rightarrow> duration option" where
  "median_inter_arrival hist =
     (if intervals hist = [] then None
      else Some (sort (intervals hist) ! (length (intervals hist) div 2)))"

definition classify_workload ::
    "'g adaptive_shroud3 \<Rightarrow> window_sample list \<Rightarrow> u32 \<Rightarrow> duration \<Rightarrow> workload_mode" where
  "classify_workload s hist blen age =
     (let c = s3_config s in
      if queue_age_limit c \<le> age then QueuePressure
      else if burst_length_threshold c \<le> blen
          \<and> burst_density_threshold_percent c \<le> burst_density_percent hist (burst_gap c) then Bursty
      else if 4 \<le> length hist \<and> sustained_payload_threshold c \<le> median_payload_bytes hist
          \<and> (\<exists>gap\<in>set_option (median_inter_arrival hist). gap \<le> sustained_activity_gap c) then Sustained
      else Interactive)"

fun mode_transition_reason :: "workload_mode \<Rightarrow> transition_reason" where
  "mode_transition_reason Bursty = BurstDensity"
| "mode_transition_reason QueuePressure = QueuePressureReason"
| "mode_transition_reason Interactive = WindowTrend"
| "mode_transition_reason Sustained = WindowTrend"

definition plan_transition :: "'g adaptive_shroud3 \<Rightarrow> workload_mode \<Rightarrow> duration \<Rightarrow> transition_plan" where
  "plan_transition s observed_mode at =
     (if observed_mode = s3_mode s then
        \<lparr>tp_mode = s3_mode s, tp_pending_mode = None, tp_pending_count = 0, tp_reason = None, tp_deferred = False\<rparr>
      else if observed_mode = QueuePressure then
        \<lparr>tp_mode = observed_mode, tp_pending_mode = None, tp_pending_count = 0,
         tp_reason = Some QueuePressureReason, tp_deferred = False\<rparr>
      else
        let cnt = (if pending_mode s = Some observed_mode then sat_add u8_max (pending_count s) 1 else 1);
            dwell_elapsed = (\<forall>lst\<in>set_option (last_transition s). minimum_dwell (s3_config s) \<le> at - lst)
        in if transition_confirmations (s3_config s) \<le> cnt \<and> dwell_elapsed then
             \<lparr>tp_mode = observed_mode, tp_pending_mode = None, tp_pending_count = 0,
              tp_reason = Some (mode_transition_reason observed_mode), tp_deferred = False\<rparr>
           else
             \<lparr>tp_mode = s3_mode s, tp_pending_mode = Some observed_mode, tp_pending_count = cnt,
              tp_reason = None, tp_deferred = True\<rparr>)"

section \<open>Shape selection and encoding\<close>

definition align_up :: "usize \<Rightarrow> usize \<Rightarrow> usize" where
  "align_up v q = (let r = v mod q in if r = 0 then v else sat_add usize_max v (q - r))"

definition shape_target :: "usize \<Rightarrow> usize \<Rightarrow> joint_bin \<Rightarrow> usize option" where
  "shape_target base q b =
     (case checked_mul usize_max (extra_padding_quanta b) q of
        None \<Rightarrow> None | Some k \<Rightarrow> checked_add usize_max base k)"

definition eligible_shapes :: "joint_profile \<Rightarrow> usize \<Rightarrow> usize \<Rightarrow> usize \<Rightarrow> ((usize \<times> duration) \<times> nat) list" where
  "eligible_shapes p base minimum max_wire_size =
     List.map_filter (\<lambda>b. case shape_target base (size_quantum p) b of
        None \<Rightarrow> None
      | Some target \<Rightarrow> if minimum \<le> target \<and> target \<le> max_wire_size
          then Some ((target, shaping_delay b), bin_weight b) else None) (bins p)"

definition select_joint_shape ::
    "'g rng \<Rightarrow> s3_config \<Rightarrow> workload_mode \<Rightarrow> usize \<Rightarrow> usize \<Rightarrow> 'g \<Rightarrow> (usize \<times> duration \<times> bool) \<times> 'g" where
  "select_joint_shape R c mode minimum path_mtu g =
     (let p = mode_profile c mode;
          base = align_up minimum (size_quantum p);
          max_wire_size = min path_mtu (sat_add usize_max minimum (max_padding_bytes c));
          eligible = eligible_shapes p base minimum max_wire_size;
          total_weight = foldl (sat_add u64_max) 0 (map snd eligible)
      in if total_weight = 0 then ((minimum, 0, True), g)
         else case gen_range R 0 (total_weight - 1) g of (sample, g') \<Rightarrow>
           (case weighted_scan eligible sample of
              Some (target, delay) \<Rightarrow> ((target, delay, False), g')
            | None \<Rightarrow> ((minimum, 0, True), g')))"

definition validate_payload_for_path :: "usize \<Rightarrow> usize \<Rightarrow> usize result" where
  "validate_payload_for_path payload_len path_mtu =
     (if \<not> (SHROUD3_HEADER_BYTES \<le> path_mtu \<and> path_mtu \<le> MAX_SHROUD3_DATAGRAM_BYTES)
        then Err (Protocol ''Shroud 3 path MTU is outside its supported range'')
      else if payload_len = 0 then Err (Protocol ''Shroud 3 payload must not be empty'')
      else if u16_max < payload_len then Err (Protocol ''Shroud 3 payload exceeds its length field'')
      else case checked_add usize_max payload_len SHROUD3_HEADER_BYTES of
        None \<Rightarrow> Err (Protocol ''Shroud 3 payload length overflow'')
      | Some minimum \<Rightarrow>
          if path_mtu < minimum then Err (Protocol ''Shroud 3 payload exceeds the negotiated datagram limit'')
          else Ok minimum)"

definition s3_count_reason :: "transition_reason option \<Rightarrow> s3_metrics \<Rightarrow> s3_metrics" where
  "s3_count_reason r m = (case r of
     None \<Rightarrow> m
   | Some reason \<Rightarrow>
       let m' = m\<lparr>m_switches := sat_add u64_max (m_switches m) 1, m_last_reason := Some reason\<rparr> in
       (case reason of
          WindowTrend \<Rightarrow> m'\<lparr>m_window_trend_transitions := sat_add u64_max (m_window_trend_transitions m') 1\<rparr>
        | BurstDensity \<Rightarrow> m'\<lparr>m_burst_transitions := sat_add u64_max (m_burst_transitions m') 1\<rparr>
        | QueuePressureReason \<Rightarrow>
            m'\<lparr>m_queue_pressure_transitions := sat_add u64_max (m_queue_pressure_transitions m') 1\<rparr>))"

definition s3_record ::
    "s3_metrics \<Rightarrow> u32 \<Rightarrow> usize \<Rightarrow> usize \<Rightarrow> duration \<Rightarrow> transition_plan \<Rightarrow> bool \<Rightarrow> s3_metrics" where
  "s3_record m blen payload_len wire_len delay plan fallback =
     (let m1 = m\<lparr>m_observations := sat_add u64_max (m_observations m) 1,
        m_payload_bytes := sat_add u64_max (m_payload_bytes m) payload_len,
        m_wire_bytes := sat_add u64_max (m_wire_bytes m) wire_len,
        m_padding_bytes := sat_add u64_max (m_padding_bytes m) (wire_len - payload_len - SHROUD3_HEADER_BYTES),
        m_total_shaping_delay_nanos := sat_add u128_max (m_total_shaping_delay_nanos m) delay,
        m_min_wire_bytes := Some (case m_min_wire_bytes m of None \<Rightarrow> wire_len | Some k \<Rightarrow> min k wire_len),
        m_max_wire_bytes := Some (case m_max_wire_bytes m of None \<Rightarrow> wire_len | Some k \<Rightarrow> max k wire_len),
        m_burst_length := blen,
        m_transition_deferred := sat_add u64_max (m_transition_deferred m) (if tp_deferred plan then 1 else 0)\<rparr>;
        m2 = (if fallback then m1\<lparr>m_profile_fallback_frames := sat_add u64_max (m_profile_fallback_frames m1) 1\<rparr> else m1)
      in s3_count_reason (tp_reason plan) m2)"

definition next_burst_length :: "'g adaptive_shroud3 \<Rightarrow> duration \<Rightarrow> u32" where
  "next_burst_length s at =
     (if \<exists>lst\<in>set_option (last_observation s). at - lst \<le> burst_gap (s3_config s)
        then min (sat_add u32_max (s3_burst_length s) 1) MAX_BURST_LENGTH else 1)"

definition next_history :: "'g adaptive_shroud3 \<Rightarrow> usize \<Rightarrow> duration \<Rightarrow> window_sample list" where
  "next_history s payload_len at = (history s)[history_next s :=
     \<lparr>payload_bytes = payload_len, inter_arrival = map_option (\<lambda>lst. at - lst) (last_observation s)\<rparr>]"

definition s3_observed_mode :: "'g adaptive_shroud3 \<Rightarrow> usize \<Rightarrow> s3_observation \<Rightarrow> workload_mode" where
  "s3_observed_mode s payload_len obs =
     classify_workload s
       (take (min (history_len s + 1) WORKLOAD_WINDOW_CAPACITY) (next_history s payload_len (observed_at obs)))
       (next_burst_length s (observed_at obs)) (queue_age obs)"

text \<open>The assignments at the end of \<open>encode\<close>, after every fallible operation.\<close>

definition s3_commit ::
    "'g adaptive_shroud3 \<Rightarrow> usize \<Rightarrow> s3_observation \<Rightarrow> transition_plan \<Rightarrow> usize \<Rightarrow> duration \<Rightarrow> bool \<Rightarrow> 'g
      \<Rightarrow> 'g adaptive_shroud3" where
  "s3_commit s payload_len obs plan target delay fallback g =
     (let blen = next_burst_length s (observed_at obs) in
      s\<lparr>s3_rng := g, history := next_history s payload_len (observed_at obs),
        history_len := min (history_len s + 1) WORKLOAD_WINDOW_CAPACITY,
        history_next := (history_next s + 1) mod WORKLOAD_WINDOW_CAPACITY,
        s3_mode := tp_mode plan, pending_mode := tp_pending_mode plan,
        pending_count := tp_pending_count plan,
        last_observation := Some (observed_at obs),
        last_transition := (if tp_reason plan \<noteq> None then Some (observed_at obs) else last_transition s),
        s3_burst_length := blen, pending_delay := delay,
        s3_metrics := s3_record (s3_metrics s) blen payload_len target delay plan fallback\<rparr>)"

definition s3_encode ::
    "'g rng \<Rightarrow> 'g adaptive_shroud3 \<Rightarrow> bytes \<Rightarrow> usize \<Rightarrow> s3_observation \<Rightarrow> bytes result \<times> 'g adaptive_shroud3" where
  "s3_encode R s payload path_mtu obs =
     (case validate_payload_for_path (length payload) path_mtu of
        Err e \<Rightarrow> (Err e, s)
      | Ok minimum \<Rightarrow>
      if \<exists>lst\<in>set_option (last_observation s). observed_at obs < lst
        then (Err (InvalidArgument ''nonmonotonic Shroud 3 observation''), s)
      else
        let plan = plan_transition s (s3_observed_mode s (length payload) obs) (observed_at obs)
        in case select_joint_shape R (s3_config s) (tp_mode plan) minimum path_mtu (s3_rng s) of
          ((target, delay, fallback), g1) \<Rightarrow>
          if u16_max < length payload then (Err (Protocol ''Shroud 3 payload length overflow''), s)
          else if u16_max < target then (Err (Protocol ''Shroud 3 datagram length overflow''), s)
          else
            let b0 = replicate target 0;
                b1 = write_at b0 0 SHROUD3_MAGIC;
                b2 = b1[2 := SHROUD3_VERSION];
                b3 = write_at b2 3 (be_bytes 2 (length payload));
                b4 = write_at b3 5 (be_bytes 2 target);
                b5 = write_at b4 SHROUD3_HEADER_BYTES payload
            in case fill_bytes R (length b5 - minimum) g1 of
              (None, _) \<Rightarrow> (Err (Crypto ''Shroud 3 padding randomness failed''), s)
            | (Some padding, g2) \<Rightarrow>
                (Ok (write_at b5 minimum padding),
                 s3_commit s (length payload) obs plan target delay fallback g2))"

section \<open>Decoding\<close>

definition validate_datagram_bounds :: "usize \<Rightarrow> usize \<Rightarrow> unit result" where
  "validate_datagram_bounds datagram_len path_mtu =
     (if \<not> (SHROUD3_HEADER_BYTES \<le> path_mtu \<and> path_mtu \<le> MAX_SHROUD3_DATAGRAM_BYTES)
         \<or> datagram_len < SHROUD3_HEADER_BYTES \<or> path_mtu < datagram_len
        then Err (Protocol ''Shroud 3 datagram length is outside the negotiated limit'')
      else Ok ())"

definition s3_decode_inner :: "bytes \<Rightarrow> usize \<Rightarrow> unit result \<times> bytes" where
  "s3_decode_inner d path_mtu =
     (case validate_datagram_bounds (length d) path_mtu of Err e \<Rightarrow> (Err e, d) | Ok _ \<Rightarrow>
      if slice d 0 2 \<noteq> SHROUD3_MAGIC \<or> d ! 2 \<noteq> SHROUD3_VERSION
        then (Err (Protocol ''Shroud 3 envelope version mismatch''), d)
      else let payload_len = of_be [d ! 3, d ! 4]; declared_size = of_be [d ! 5, d ! 6] in
      if declared_size \<noteq> length d
        then (Err (Protocol ''Shroud 3 datagram size does not match its envelope''), d)
      else case checked_add usize_max SHROUD3_HEADER_BYTES payload_len of
        None \<Rightarrow> (Err (Protocol ''Shroud 3 payload length overflow''), d)
      | Some payload_end \<Rightarrow>
          if payload_len = 0 \<or> length d < payload_end \<or> MAX_SHROUD3_PADDING_BYTES < length d - payload_end
            then (Err (Protocol ''Shroud 3 payload or padding length is invalid''), d)
          else (Ok (), take payload_len (write_at d 0 (slice d SHROUD3_HEADER_BYTES payload_end))))"

definition s3_decode_in_place :: "bytes \<Rightarrow> usize \<Rightarrow> unit result \<times> bytes" where
  "s3_decode_in_place d path_mtu =
     (case s3_decode_inner d path_mtu of (Ok _, d') \<Rightarrow> (Ok (), d') | (Err e, _) \<Rightarrow> (Err e, []))"

definition s3_decode :: "bytes \<Rightarrow> usize \<Rightarrow> bytes result" where
  "s3_decode d path_mtu =
     (case validate_datagram_bounds (length d) path_mtu of Err e \<Rightarrow> Err e | Ok _ \<Rightarrow>
      (case s3_decode_in_place d path_mtu of (Ok _, decoded) \<Rightarrow> Ok decoded | (Err e, _) \<Rightarrow> Err e))"

section \<open>The envelope as a codec\<close>

definition s3_wire :: "bytes \<Rightarrow> bytes \<Rightarrow> bytes" where
  "s3_wire payload pad = SHROUD3_MAGIC @ [SHROUD3_VERSION] @ be_bytes 2 (length payload)
     @ be_bytes 2 (SHROUD3_HEADER_BYTES + length payload + length pad) @ payload @ pad"

definition s3_legal :: "usize \<Rightarrow> bytes \<Rightarrow> bytes \<Rightarrow> bool" where
  "s3_legal mtu payload pad \<longleftrightarrow> mtu \<le> u16_max \<and> payload \<noteq> []
     \<and> SHROUD3_HEADER_BYTES + length payload + length pad \<le> mtu \<and> length pad \<le> MAX_SHROUD3_PADDING_BYTES"

lemma s3_wire_fields:
  assumes "7 + length pl + length pad \<le> u16_max"
  shows "length (s3_wire pl pad) = 7 + length pl + length pad"
    and "slice (s3_wire pl pad) 0 2 = SHROUD3_MAGIC" and "s3_wire pl pad ! 2 = SHROUD3_VERSION"
    and "of_be [s3_wire pl pad ! 3, s3_wire pl pad ! 4] = length pl"
    and "of_be [s3_wire pl pad ! 5, s3_wire pl pad ! 6] = 7 + length pl + length pad"
    and "slice (s3_wire pl pad) 7 (7 + length pl) = pl"
proof -
  show "of_be [s3_wire pl pad ! 3, s3_wire pl pad ! 4] = length pl"
    and "of_be [s3_wire pl pad ! 5, s3_wire pl pad ! 6] = 7 + length pl + length pad"
    using assms of_be_be_bytes_id [of "length pl" 2] of_be_be_bytes_id [of "7 + length pl + length pad" 2]
    by (simp_all add: s3_wire_def SHROUD3_MAGIC_def SHROUD3_HEADER_BYTES_def u16_max_def numeral_2_eq_2)
  define hdr where "hdr = SHROUD3_MAGIC @ [SHROUD3_VERSION] @ be_bytes 2 (length pl)
    @ be_bytes 2 (SHROUD3_HEADER_BYTES + length pl + length pad)"
  have "s3_wire pl pad = hdr @ pl @ pad" "length hdr = 7"
    by (simp_all add: s3_wire_def hdr_def SHROUD3_MAGIC_def)
  then show "slice (s3_wire pl pad) 7 (7 + length pl) = pl" by (simp add: slice_append_mid)
qed (simp_all add: s3_wire_def SHROUD3_MAGIC_def slice_def)

lemma s3_decode_wire:
  assumes "s3_legal mtu pl pad"
  shows "s3_decode (s3_wire pl pad) mtu = Ok pl"
proof -
  from assms have l: "7 + length pl + length pad \<le> u16_max" "7 + length pl + length pad \<le> mtu" "mtu \<le> u16_max"
    "pl \<noteq> []" "length pad \<le> 4096"
    by (auto simp: s3_legal_def SHROUD3_HEADER_BYTES_def MAX_SHROUD3_PADDING_BYTES_def)
  note f = s3_wire_fields [OF l(1)]
  have "checked_add usize_max 7 (length pl) = Some (7 + length pl)"
    using l by (simp add: checked_add_def usize_max_def u16_max_def)
  then show ?thesis using l
    by (simp add: s3_decode_def s3_decode_in_place_def s3_decode_inner_def validate_datagram_bounds_def
        SHROUD3_HEADER_BYTES_def MAX_SHROUD3_DATAGRAM_BYTES_def MAX_SHROUD3_PADDING_BYTES_def f Let_def
        write_at_def)
qed

lemma s3_decode_only:
  assumes "s3_decode d mtu = Ok m"
  shows "\<exists>pad. s3_legal mtu m pad \<and> d = s3_wire m pad"
proof -
  define k where "k = of_be [d ! 3, d ! 4]"
  from assms have len: "7 \<le> length d" "length d \<le> mtu" "mtu \<le> u16_max"
    and h: "slice d 0 2 = SHROUD3_MAGIC" "d ! 2 = SHROUD3_VERSION" and t: "of_be [d ! 5, d ! 6] = length d"
    and k: "k \<noteq> 0" "7 + k \<le> length d" "length d - (7 + k) \<le> 4096"
    and m: "m = take k (write_at d 0 (slice d 7 (7 + k)))"
    by (auto simp: s3_decode_def s3_decode_in_place_def s3_decode_inner_def validate_datagram_bounds_def
        SHROUD3_HEADER_BYTES_def MAX_SHROUD3_DATAGRAM_BYTES_def MAX_SHROUD3_PADDING_BYTES_def Let_def
        k_def range_simps split: result.splits prod.splits option.splits if_splits)
  have m': "m = slice d 7 (7 + k)" using k by (simp add: m write_at_def)
  have lm: "length m = k" using k by (simp add: m')
  have "d = s3_wire m (drop (7 + k) d)"
    using header7_split [OF k(2)] h t lm k by (simp add: s3_wire_def m' SHROUD3_HEADER_BYTES_def k_def [symmetric])
  moreover have "s3_legal mtu m (drop (7 + k) d)"
    using len k lm by (auto simp: s3_legal_def SHROUD3_HEADER_BYTES_def MAX_SHROUD3_PADDING_BYTES_def)
  ultimately show ?thesis by blast
qed

interpretation s3: strict_codec s3_wire "\<lambda>d. s3_decode d mtu" "s3_legal mtu" for mtu
  by unfold_locales (rule s3_decode_wire, assumption, rule s3_decode_only)

section \<open>Encoding steps\<close>

lemma validate_bins_Ok:
  "validate_bins mx bs t z = Ok r \<Longrightarrow> \<forall>b\<in>set bs. bin_weight b \<noteq> 0 \<and> shaping_delay b \<le> mx"
  by (induction mx bs t z rule: validate_bins.induct) (auto split: if_splits option.splits)

lemma validate_joint_profile_Ok:
  "validate_joint_profile p mx = Ok () \<Longrightarrow> (\<forall>b\<in>set (bins p). bin_weight b \<noteq> 0 \<and> shaping_delay b \<le> mx)"
  by (auto simp: validate_joint_profile_def dest: validate_bins_Ok split: if_splits result.splits)

lemma s3_validate_profile:
  "s3_validate c = Ok () \<Longrightarrow> validate_joint_profile (mode_profile c m) (max_shaping_delay c) = Ok ()"
  by (cases m) (auto simp: s3_validate_def split: if_splits result.splits)

lemma s3_validate_bounds:
  "s3_validate c = Ok () \<Longrightarrow> max_padding_bytes c \<le> 4096 \<and> 1 \<le> transition_confirmations c
     \<and> transition_confirmations c \<le> 16"
  by (auto simp: s3_validate_def MAX_SHROUD3_PADDING_BYTES_def MAX_TRANSITION_CONFIRMATIONS_def split: if_splits)

lemma eligible_shapes_range:
  "((t, d), w) \<in> set (eligible_shapes p base lo hi) \<Longrightarrow> lo \<le> t \<and> t \<le> hi \<and> (\<exists>b\<in>set (bins p). d = shaping_delay b)"
  by (auto simp: eligible_shapes_def set_map_filter split: option.splits if_splits)

lemma select_joint_shape_range:
  assumes "s3_validate c = Ok ()" and "minimum \<le> mtu" and "minimum + max_padding_bytes c \<le> usize_max"
    and "select_joint_shape R c mode minimum mtu g = ((t, d, fb), g')"
  shows "minimum \<le> t \<and> t \<le> mtu \<and> t \<le> minimum + max_padding_bytes c \<and> d \<le> max_shaping_delay c"
proof -
  let ?p = "mode_profile c mode"
  let ?hi = "min mtu (sat_add usize_max minimum (max_padding_bytes c))"
  let ?el = "eligible_shapes ?p (align_up minimum (size_quantum ?p)) minimum ?hi"
  from assms(4) consider "t = minimum" "d = 0" | sm where "weighted_scan ?el sm = Some (t, d)"
    by (auto simp: select_joint_shape_def Let_def split: if_splits prod.splits option.splits)
  then show ?thesis
  proof cases
    case 1
    with assms(2) show ?thesis by simp
  next
    case 2
    from weighted_scan_member [OF this] obtain w where "((t, d), w) \<in> set ?el" by auto
    from eligible_shapes_range [OF this] validate_joint_profile_Ok [OF s3_validate_profile [OF assms(1)]] assms(3)
    show ?thesis by (auto simp: sat_add_def)
  qed
qed

lemma s3_magic_length: "length SHROUD3_MAGIC = 2"
  by (simp add: SHROUD3_MAGIC_def)

lemmas s3_layout = header7_layout [OF s3_magic_length, where v = SHROUD3_VERSION]
lemmas s3_layout_padding = header7_padding [OF s3_magic_length, where v = SHROUD3_VERSION]

lemma validate_payload_for_path_iff:
  "validate_payload_for_path n mtu = Ok k \<longleftrightarrow> mtu \<le> u16_max \<and> n \<noteq> 0 \<and> n + 7 \<le> mtu \<and> k = n + 7"
  by (auto simp: validate_payload_for_path_def SHROUD3_HEADER_BYTES_def MAX_SHROUD3_DATAGRAM_BYTES_def
      checked_add_def usize_max_def u16_max_def)

lemma s3_encode_Err: "s3_encode R s pl mtu obs = (Err e, s') \<Longrightarrow> s' = s"
  by (auto simp: s3_encode_def Let_def split: result.splits if_splits prod.splits option.splits)

text \<open>A successful call: the frame, and the fields of the state that the transition planner owns.\<close>

lemma s3_encode_shape:
  assumes c: "s3_validate (s3_config s) = Ok ()"
    and p: "mtu \<le> u16_max" "pl \<noteq> []" "length pl + 7 \<le> mtu"
    and mono: "\<forall>l\<in>set_option (last_observation s). l \<le> observed_at obs"
  obtains t d fb g1 where "length pl + 7 \<le> t" "t \<le> mtu" "t \<le> length pl + 7 + max_padding_bytes (s3_config s)"
    "d \<le> max_shaping_delay (s3_config s)"
    "s3_encode R s pl mtu obs = (case fill_bytes R (t - (length pl + 7)) g1 of
       (None, _) \<Rightarrow> (Err (Crypto ''Shroud 3 padding randomness failed''), s)
     | (Some padding, g2) \<Rightarrow>
         (Ok (write_at (SHROUD3_MAGIC @ [SHROUD3_VERSION] @ be_bytes 2 (length pl) @ be_bytes 2 t @ pl
              @ replicate (t - (length pl + 7)) 0) (length pl + 7) padding),
          s3_commit s (length pl) obs
            (plan_transition s (s3_observed_mode s (length pl) obs) (observed_at obs)) t d fb g2))"
proof -
  let ?plan = "plan_transition s (s3_observed_mode s (length pl) obs) (observed_at obs)"
  obtain t d fb g1 where sel: "select_joint_shape R (s3_config s) (tp_mode ?plan) (length pl + 7) mtu (s3_rng s)
      = ((t, d, fb), g1)" by (metis prod.collapse)
  have "length pl + 7 + max_padding_bytes (s3_config s) \<le> usize_max"
    using p s3_validate_bounds [OF c] by (simp add: u16_max_def usize_max_def)
  from select_joint_shape_range [OF c p(3) this sel] have r: "length pl + 7 \<le> t" "t \<le> mtu"
    "t \<le> length pl + 7 + max_padding_bytes (s3_config s)" "d \<le> max_shaping_delay (s3_config s)" by auto
  have v: "validate_payload_for_path (length pl) mtu = Ok (length pl + 7)"
    using p by (simp add: validate_payload_for_path_iff)
  have m: "(\<exists>l\<in>set_option (last_observation s). observed_at obs < l) = False" using mono by force
  have u: "(u16_max < length pl) = False" "(u16_max < t) = False" using p r by auto
  have len: "length (SHROUD3_MAGIC @ [SHROUD3_VERSION] @ be_bytes 2 a @ be_bytes 2 b @ pl
      @ replicate (t - (length pl + 7)) 0) = t" for a b using r by (simp add: SHROUD3_MAGIC_def)
  show thesis
    by (rule that [OF r], unfold s3_encode_def v result.case m if_False Let_def sel prod.case u
        SHROUD3_HEADER_BYTES_def s3_layout [OF r(1)] len) (rule refl)
qed

lemma s3_encode_Ok:
  assumes "s3_encode R s pl mtu obs = (Ok b, s')"
  shows "mtu \<le> u16_max" "pl \<noteq> []" "length pl + 7 \<le> mtu" "\<forall>l\<in>set_option (last_observation s). l \<le> observed_at obs"
    and "\<exists>t d fb g. s' = s3_commit s (length pl) obs
      (plan_transition s (s3_observed_mode s (length pl) obs) (observed_at obs)) t d fb g"
  using assms unfolding s3_encode_def Let_def
  by (auto simp: validate_payload_for_path_iff split: result.splits if_splits prod.splits option.splits)

section \<open>Reachable engines\<close>

text \<open>The engines that a sequence of calls can produce, with the workload modes observed by the
  successful calls, newest first.\<close>

inductive s3_reach :: "'g rng \<Rightarrow> s3_config \<Rightarrow> workload_mode list \<Rightarrow> 'g adaptive_shroud3 \<Rightarrow> bool" for R c where
  start: "s3_with_rng c g = Ok s \<Longrightarrow> s3_reach R c [] s"
| sent: "s3_reach R c ms s \<Longrightarrow> s3_encode R s pl mtu obs = (Ok b, s') \<Longrightarrow>
    s3_reach R c (s3_observed_mode s (length pl) obs # ms) s'"
| refused: "s3_reach R c ms s \<Longrightarrow> s3_encode R s pl mtu obs = (Err e, s') \<Longrightarrow> s3_reach R c ms s'"

inductive_cases s3_reach_NilE: "s3_reach R c [] s"

definition s3_inv :: "s3_config \<Rightarrow> workload_mode list \<Rightarrow> 'g adaptive_shroud3 \<Rightarrow> bool" where
  "s3_inv c ms s \<longleftrightarrow> s3_config s = c \<and> s3_validate c = Ok ()
     \<and> length (history s) = WORKLOAD_WINDOW_CAPACITY \<and> history_next s < WORKLOAD_WINDOW_CAPACITY
     \<and> history_len s \<le> WORKLOAD_WINDOW_CAPACITY \<and> s3_burst_length s \<le> MAX_BURST_LENGTH
     \<and> pending_delay s \<le> max_shaping_delay c
     \<and> (\<forall>m. pending_mode s = Some m \<longrightarrow>
          pending_count s \<le> length ms \<and> (\<forall>k<pending_count s. ms ! k = m))"

lemma plan_transition_pending:
  assumes "pending_mode s = Some m \<longrightarrow> pending_count s \<le> length ms \<and> (\<forall>k<pending_count s. ms ! k = m)"
    and "tp_pending_mode (plan_transition s om at) = Some m"
  shows "m = om \<and> tp_pending_count (plan_transition s om at) \<le> length (om # ms)
    \<and> (\<forall>k<tp_pending_count (plan_transition s om at). (om # ms) ! k = m)"
  using assms
  by (auto simp: plan_transition_def Let_def sat_add_def nth_Cons u8_max_def split: if_splits nat.splits)

lemma s3_reach_inv: "s3_reach R c ms s \<Longrightarrow> s3_inv c ms s"
proof (induction rule: s3_reach.induct)
  case (start g s)
  then show ?case by (auto simp: s3_inv_def s3_with_rng_def WORKLOAD_WINDOW_CAPACITY_def)
next
  case (refused ms s pl mtu obs e s')
  then show ?case by (auto dest: s3_encode_Err)
next
  case (sent ms s pl mtu obs b s')
  let ?om = "s3_observed_mode s (length pl) obs"
  let ?plan = "plan_transition s ?om (observed_at obs)"
  from sent.IH have inv: "s3_config s = c" "s3_validate (s3_config s) = Ok ()" "s3_inv c ms s"
    by (auto simp: s3_inv_def)
  note ok = s3_encode_Ok [OF sent.hyps(2)]
  obtain t d fb g1 where d: "d \<le> max_shaping_delay (s3_config s)"
    and enc: "s3_encode R s pl mtu obs = (case fill_bytes R (t - (length pl + 7)) g1 of
       (None, _) \<Rightarrow> (Err (Crypto ''Shroud 3 padding randomness failed''), s)
     | (Some padding, g2) \<Rightarrow>
         (Ok (write_at (SHROUD3_MAGIC @ [SHROUD3_VERSION] @ be_bytes 2 (length pl) @ be_bytes 2 t @ pl
              @ replicate (t - (length pl + 7)) 0) (length pl + 7) padding),
          s3_commit s (length pl) obs ?plan t d fb g2))"
    by (rule s3_encode_shape [OF inv(2) ok(1-4)])
  from enc sent.hyps(2) obtain g2 where s': "s' = s3_commit s (length pl) obs ?plan t d fb g2"
    by (auto split: prod.splits option.splits)
  have "tp_pending_count ?plan \<le> length (?om # ms) \<and> (\<forall>k<tp_pending_count ?plan. (?om # ms) ! k = m)"
    if "tp_pending_mode ?plan = Some m" for m
    using plan_transition_pending [of s m ms ?om] that inv(3) by (auto simp: s3_inv_def)
  moreover have "next_burst_length s (observed_at obs) \<le> MAX_BURST_LENGTH"
    by (simp add: next_burst_length_def MAX_BURST_LENGTH_def)
  ultimately show ?case using inv d
    by (simp add: s3_inv_def s' s3_commit_def Let_def next_history_def WORKLOAD_WINDOW_CAPACITY_def)
qed

text \<open>The default configuration is valid, so every constructor call with it yields an engine.\<close>

lemma s3_default_valid: "s3_validate s3_config_default = Ok ()"
proof -
  have "is_power_of_two 16" "is_power_of_two 32" "is_power_of_two 64"
    unfolding is_power_of_two_def
    by (rule image_eqI [where x = 4], simp, simp, rule image_eqI [where x = 5], simp, simp,
        rule image_eqI [where x = 6], simp, simp)
  then show ?thesis
    by (simp add: s3_validate_def s3_config_default_def s3_profiles_default_def mk_profile_def
        validate_joint_profile_def checked_add_def u64_max_def MAX_SHROUD3_PROFILE_BINS_def MAX_MINIMUM_DWELL_def
        MAX_BURST_GAP_def MAX_SUSTAINED_GAP_def MAX_BURST_LENGTH_def MAX_QUEUE_AGE_def u16_max_def
        MAX_TRANSITION_CONFIRMATIONS_def MAX_SHROUD3_PADDING_BYTES_def MAX_SHROUD3_DELAY_def)
qed

lemma s3_default_engine:
  obtains s where "s3_with_rng s3_config_default (0 :: nat) = Ok s" "last_observation s = None"
    "s3_reach counter_rng s3_config_default [] s"
  using s3_default_valid s3_reach.start [of s3_config_default 0 _ counter_rng]
  by (simp add: s3_with_rng_def)

section \<open>Properties\<close>

text \<open>C27. Sending with Shroud 3: for a non-empty payload that fits the path, a monotonic
  observation and a working generator, a reachable engine always produces a datagram.  It is no longer
  than the path MTU, carries at most the configured padding, is to be delayed by at most the
  configured maximum, and decodes back to the payload.\<close>

theorem s3_roundtrip:
  assumes R: "rng_ok R" and "\<forall>n g. fst (fill_bytes R n g) \<noteq> None" and reach: "s3_reach R c ms s"
    and p: "mtu \<le> u16_max" "pl \<noteq> []" "length pl + 7 \<le> mtu"
    and mono: "\<forall>l\<in>set_option (last_observation s). l \<le> observed_at obs"
  shows "\<exists>b s'. s3_encode R s pl mtu obs = (Ok b, s') \<and> s3_decode b mtu = Ok pl
    \<and> length b \<le> mtu \<and> length b \<le> 7 + length pl + max_padding_bytes c
    \<and> pending_delay s' \<le> max_shaping_delay c"
proof -
  from s3_reach_inv [OF reach] have c: "s3_config s = c" "s3_validate (s3_config s) = Ok ()"
    by (auto simp: s3_inv_def)
  obtain t d fb g1 where r: "length pl + 7 \<le> t" "t \<le> mtu" "t \<le> length pl + 7 + max_padding_bytes (s3_config s)"
    "d \<le> max_shaping_delay (s3_config s)"
    and enc: "s3_encode R s pl mtu obs = (case fill_bytes R (t - (length pl + 7)) g1 of
       (None, _) \<Rightarrow> (Err (Crypto ''Shroud 3 padding randomness failed''), s)
     | (Some padding, g2) \<Rightarrow>
         (Ok (write_at (SHROUD3_MAGIC @ [SHROUD3_VERSION] @ be_bytes 2 (length pl) @ be_bytes 2 t @ pl
              @ replicate (t - (length pl + 7)) 0) (length pl + 7) padding),
          s3_commit s (length pl) obs
            (plan_transition s (s3_observed_mode s (length pl) obs) (observed_at obs)) t d fb g2))"
    by (rule s3_encode_shape [OF c(2) p mono])
  obtain pad g2 where fill: "fill_bytes R (t - (length pl + 7)) g1 = (Some pad, g2)"
    using assms(2) by (metis not_None_eq prod.collapse)
  from rng_ok_fill [OF R this] have len: "length pad = t - (length pl + 7)" .
  with r have t: "t = 7 + length pl + length pad" by simp
  define b where "b = s3_wire pl pad"
  have eq: "s3_encode R s pl mtu obs = (Ok b, s3_commit s (length pl) obs
      (plan_transition s (s3_observed_mode s (length pl) obs) (observed_at obs)) t d fb g2)"
    unfolding enc fill prod.case option.case s3_layout_padding [OF len] by (simp add: b_def s3_wire_def t SHROUD3_HEADER_BYTES_def)
  have "s3_legal mtu pl pad"
    using r t p s3_validate_bounds [OF c(2)]
    by (simp add: s3_legal_def SHROUD3_HEADER_BYTES_def MAX_SHROUD3_PADDING_BYTES_def)
  then have "s3_decode b mtu = Ok pl" unfolding b_def by (rule s3.dec_frame)
  moreover have "length b = t" using t r p by (simp add: b_def s3_wire_fields)
  ultimately show ?thesis using eq r c(1) by (auto simp: s3_commit_def Let_def)
qed

theorem s3_roundtrip_witness:
  "\<exists>s b s'. s3_reach counter_rng s3_config_default [] s
     \<and> s3_encode counter_rng s [1, 2, 3] 1200 \<lparr>observed_at = 5, queue_age = 0\<rparr> = (Ok b, s')
     \<and> s3_decode b 1200 = Ok [1, 2, 3] \<and> length b \<le> 1200"
proof -
  obtain s where s: "last_observation s = None" "s3_reach counter_rng s3_config_default [] s"
    by (rule s3_default_engine)
  have "fst (fill_bytes counter_rng n g) \<noteq> None" for n g by (simp add: counter_rng_def)
  with s3_roundtrip [OF counter_rng_ok _ s(2), of 1200 "[1, 2, 3]" "\<lparr>observed_at = 5, queue_age = 0\<rparr>"] s
  obtain b s' where "s3_encode counter_rng s [1, 2, 3] 1200 \<lparr>observed_at = 5, queue_age = 0\<rparr> = (Ok b, s')"
    "s3_decode b 1200 = Ok [1, 2, 3]" "length b \<le> 1200" by (auto simp: u16_max_def)
  with s(2) show ?thesis by blast
qed

text \<open>The Shroud 3 decoder accepts exactly the envelopes of a non-empty payload with at most
  4096 bytes of padding within the path MTU, and returns their payload.\<close>

lemma s3_decode_exact:
  "s3_decode d mtu = Ok pl \<longleftrightarrow> (\<exists>pad. s3_legal mtu pl pad \<and> d = s3_wire pl pad)"
  by (rule s3.dec_accepts_iff)

text \<open>Mode changes are disciplined: in every reachable engine, a successful call changes the mode
  only to the mode it observed, and only if that is queue pressure or the last
  \<open>transition_confirmations\<close> observations all agree on it and at least the minimum dwell time has
  passed since the previous change.  The time of the last change is updated exactly at changes.\<close>

lemma s3_mode_changes:
  assumes "s3_reach R c ms s" and "s3_encode R s pl mtu obs = (Ok b, s')"
    and "om = s3_observed_mode s (length pl) obs"
  shows "(s3_mode s' \<noteq> s3_mode s \<longrightarrow> s3_mode s' = om \<and> (om = QueuePressure \<or>
      (transition_confirmations c \<le> Suc (length ms)
       \<and> (\<forall>k<transition_confirmations c. (om # ms) ! k = om)
       \<and> (\<forall>l\<in>set_option (last_transition s). minimum_dwell c \<le> observed_at obs - l))))
    \<and> last_transition s' = (if s3_mode s' \<noteq> s3_mode s then Some (observed_at obs) else last_transition s)"
proof -
  from s3_reach_inv [OF assms(1)] have c: "s3_config s = c" and v: "s3_validate c = Ok ()"
    and pend: "\<And>m. pending_mode s = Some m \<Longrightarrow> pending_count s \<le> length ms \<and> (\<forall>k<pending_count s. ms ! k = m)"
    by (auto simp: s3_inv_def)
  let ?plan = "plan_transition s om (observed_at obs)"
  from s3_encode_Ok(5) [OF assms(2)] have mode: "s3_mode s' = tp_mode ?plan"
    and last: "last_transition s' = (if tp_reason ?plan \<noteq> None then Some (observed_at obs) else last_transition s)"
    by (auto simp: s3_commit_def Let_def assms(3))
  have reason: "tp_reason ?plan \<noteq> None \<longleftrightarrow> tp_mode ?plan \<noteq> s3_mode s"
    by (auto simp: plan_transition_def Let_def)
  have "s3_mode s' = om \<and> (om = QueuePressure \<or> (transition_confirmations c \<le> Suc (length ms)
       \<and> (\<forall>k<transition_confirmations c. (om # ms) ! k = om)
       \<and> (\<forall>l\<in>set_option (last_transition s). minimum_dwell c \<le> observed_at obs - l)))"
    if ch: "s3_mode s' \<noteq> s3_mode s"
  proof (cases "om = QueuePressure")
    case True
    with ch mode show ?thesis by (auto simp: plan_transition_def Let_def split: if_splits)
  next
    case False
    define cnt where "cnt = (if pending_mode s = Some om then sat_add u8_max (pending_count s) 1 else 1)"
    from ch mode False c have om: "s3_mode s' = om" and n: "transition_confirmations c \<le> cnt"
      and dw: "\<forall>l\<in>set_option (last_transition s). minimum_dwell c \<le> observed_at obs - l"
      by (auto simp: plan_transition_def Let_def cnt_def split: if_splits)
    have "cnt \<le> Suc (length ms) \<and> (\<forall>k<cnt. (om # ms) ! k = om)"
      using pend [of om] by (auto simp: cnt_def sat_add_def nth_Cons u8_max_def split: nat.splits if_splits)
    with om n dw show ?thesis by auto
  qed
  with mode last reason show ?thesis by auto
qed

text \<open>A call that fails (bad MTU, empty or oversized payload, time running backwards, no
  randomness) leaves the engine exactly as it was, generator and counters included; and in every
  reachable engine the ring of samples is indexed within its sixteen entries.\<close>

lemma s3_failure_changes_nothing:
  "(s3_encode R s pl mtu obs = (Err e, s') \<longrightarrow> s' = s)
   \<and> (s3_reach R c ms s \<longrightarrow> length (history s) = 16 \<and> history_next s < 16 \<and> history_len s \<le> 16)"
  using s3_encode_Err s3_reach_inv
  by (fastforce simp: s3_inv_def WORKLOAD_WINDOW_CAPACITY_def)

end
