(* ===== verification/Gf257.thy ===== *)
theory Gf257
  imports Shph_Prelude "HOL-Library.Signed_Division"
begin

text \<open>
  The field arithmetic of the secret sharing in \<open>shph-core/src/roadmap.rs\<close>: \<open>gf_eval\<close>, \<open>gf_inv\<close> and
  \<open>gf_lagrange_origin\<close> on \<open>u64\<close>, and the field they compute in.  The type \<open>gf257\<close> is the field of the 257
  residues, with the extended Euclid loop of the program as its inverse; interpolation at the origin is
  proved once for every field, by divided differences, and carried to the program by \<^const>\<open>of_nat\<close>.
\<close>

section \<open>Definitions\<close>

definition SHAMIR_PRIME :: u64 where "SHAMIR_PRIME = 257"

text \<open>Horner's rule from the last coefficient; every intermediate value is below \<open>p * x + p\<close>, far from the
  bound of \<open>u64\<close>.\<close>

definition gf_eval :: "u64 list \<Rightarrow> u64 \<Rightarrow> u64 \<Rightarrow> u64" where
  "gf_eval coeffs x p = foldl (\<lambda>result coef. (result * x + coef) mod p) 0 (rev coeffs)"

text \<open>The loop of \<open>gf_inv\<close> on signed integers; the division of \<open>i64\<close> rounds towards zero.\<close>

lemma sdiv_remainder:
  fixes r n :: int
  assumes "n \<noteq> 0"
  shows "\<bar>r - (r sdiv n) * n\<bar> < \<bar>n\<bar>" and "0 \<le> r \<Longrightarrow> 0 < n \<Longrightarrow> r sdiv n = r div n"
proof -
  have "r - (r sdiv n) * n = sgn r * (\<bar>r\<bar> - \<bar>r\<bar> div \<bar>n\<bar> * \<bar>n\<bar>)"
    by (simp add: signed_divide_int_def algebra_simps sgn_mult_abs abs_sgn)
  also have "\<dots> = sgn r * (\<bar>r\<bar> mod \<bar>n\<bar>)" by (simp add: minus_div_mult_eq_mod)
  finally have "\<bar>r - (r sdiv n) * n\<bar> = \<bar>sgn r\<bar> * (\<bar>r\<bar> mod \<bar>n\<bar>)" using assms by (simp add: abs_mult abs_of_nonneg)
  also have "\<dots> \<le> \<bar>r\<bar> mod \<bar>n\<bar>" by (simp add: sgn_if)
  finally show "\<bar>r - (r sdiv n) * n\<bar> < \<bar>n\<bar>" using assms pos_mod_bound [of "\<bar>n\<bar>" "\<bar>r\<bar>"] by linarith
  show "0 \<le> r \<Longrightarrow> 0 < n \<Longrightarrow> r sdiv n = r div n" by (simp add: signed_divide_int_def sgn_if)
qed

function gf_inv_loop :: "int \<Rightarrow> int \<Rightarrow> int \<Rightarrow> int \<Rightarrow> int \<times> int" where
  "gf_inv_loop t new_t r new_r =
     (if new_r = 0 then (t, r)
      else gf_inv_loop new_t (t - (r sdiv new_r) * new_t) new_r (r - (r sdiv new_r) * new_r))"
  by pat_completeness auto
termination
  by (relation "measure (\<lambda>(t, new_t, r, new_r). nat \<bar>new_r\<bar>)") (simp_all add: sdiv_remainder)

declare gf_inv_loop.simps [simp del]

definition gf_inv :: "u64 \<Rightarrow> u64 \<Rightarrow> u64" where
  "gf_inv x p =
     (let (t, r) = gf_inv_loop 0 1 (int p) (int x)
      in if r \<noteq> 1 then 0
         else if t < 0 then nat ((t + int p) mod 2 ^ 64)
         else nat t)"

text \<open>The inner loop of \<open>gf_lagrange_origin\<close>.  The abscissas are share indices, at most 255, so that
  \<open>prime + xi - xj\<close> does not underflow.\<close>

definition lagrange_fraction :: "(u64 \<times> u64) list \<Rightarrow> u64 \<Rightarrow> nat \<Rightarrow> u64 \<Rightarrow> u64 \<times> u64" where
  "lagrange_fraction points prime i xi =
     foldl (\<lambda>(num, den) (j, xj, _). if i = j then (num, den)
              else ((num * (prime + (prime - xj mod prime)) mod prime) mod prime, (den * ((prime + xi - xj) mod prime)) mod prime))
       (1, 1) (enumerate 0 points)"

definition gf_lagrange_origin :: "(u64 \<times> u64) list \<Rightarrow> u64 \<Rightarrow> u64" where
  "gf_lagrange_origin points prime =
     foldl (\<lambda>out (i, xi, yi). let (num, den) = lagrange_fraction points prime i xi;
                                   lag = (num * gf_inv den prime) mod prime
                               in (out + yi * lag) mod prime)
       0 (enumerate 0 points) mod prime"

section \<open>The extended Euclid loop\<close>

definition euclid_inv :: "int \<Rightarrow> int \<Rightarrow> int \<Rightarrow> int \<Rightarrow> int \<Rightarrow> int \<Rightarrow> bool" where
  "euclid_inv p x t nt r nr \<longleftrightarrow> 0 < r \<and> 0 \<le> nr \<and> \<bar>nt\<bar> * r + \<bar>t\<bar> * nr = p \<and> t * nt \<le> 0 \<and> \<bar>t\<bar> \<le> p
     \<and> p dvd t * x - r \<and> p dvd nt * x - nr \<and> gcd r nr = gcd p x"

lemma euclid_inv_step:
  assumes inv: "euclid_inv p x t nt r nr" and nr: "nr \<noteq> 0"
  shows "euclid_inv p x nt (t - (r sdiv nr) * nt) nr (r - (r sdiv nr) * nr)"
proof -
  define q where "q = r div nr"
  have pos: "0 < r" "0 < nr" using inv nr by (auto simp: euclid_inv_def)
  have q: "r sdiv nr = q" "0 \<le> q" and rest: "r - q * nr = r mod nr"
    using pos by (simp_all add: sdiv_remainder(2) q_def pos_imp_zdiv_nonneg_iff minus_div_mult_eq_mod)
  have sgn: "t * nt \<le> 0" using inv by (simp add: euclid_inv_def)
  have opp: "\<bar>t - q * nt\<bar> = \<bar>t\<bar> + q * \<bar>nt\<bar>"
  proof -
    have "(0 \<le> t \<and> q * nt \<le> 0 \<and> nt \<le> 0) \<or> (t \<le> 0 \<and> 0 \<le> q * nt \<and> 0 \<le> nt)"
      using sgn q(2) by (auto simp: mult_le_0_iff zero_le_mult_iff)
    then show ?thesis by (auto simp: abs_of_nonneg abs_of_nonpos)
  qed
  have "\<bar>nt\<bar> * 1 \<le> \<bar>nt\<bar> * r" using pos by (intro mult_left_mono) auto
  moreover have "0 \<le> \<bar>t\<bar> * nr" using pos by simp
  moreover have "\<bar>nt\<bar> * r + \<bar>t\<bar> * nr = p" using inv by (simp add: euclid_inv_def)
  ultimately have "\<bar>nt\<bar> \<le> p" by linarith
  moreover have "\<bar>t - q * nt\<bar> * nr + \<bar>nt\<bar> * (r - q * nr) = p"
    using inv unfolding euclid_inv_def opp by (simp add: algebra_simps)
  moreover have "nt * (t - q * nt) \<le> 0"
  proof -
    have "nt * (t - q * nt) = t * nt - q * (nt * nt)" by (simp add: algebra_simps)
    moreover have "0 \<le> q * (nt * nt)" using q(2) by simp
    ultimately show ?thesis using sgn by linarith
  qed
  moreover have "p dvd (t - q * nt) * x - (r - q * nr)"
  proof -
    have "(t - q * nt) * x - (r - q * nr) = (t * x - r) - q * (nt * x - nr)" by (simp add: algebra_simps)
    moreover have "p dvd t * x - r" "p dvd nt * x - nr" using inv by (simp_all add: euclid_inv_def)
    ultimately show ?thesis by (metis dvd_diff dvd_mult)
  qed
  moreover have "gcd nr (r - q * nr) = gcd p x" using inv rest by (simp add: euclid_inv_def gcd.commute flip: gcd_red_int)
  moreover have "0 \<le> r - q * nr" using pos rest by simp
  ultimately show ?thesis using inv pos q(1) by (simp add: euclid_inv_def)
qed

lemma gf_inv_loop_result:
  "euclid_inv p x t nt r nr \<Longrightarrow> gf_inv_loop t nt r nr = (t', r') \<Longrightarrow>
     r' = gcd p x \<and> p dvd t' * x - r' \<and> \<bar>t'\<bar> \<le> p"
proof (induction t nt r nr rule: gf_inv_loop.induct)
  case (1 t nt r nr)
  show ?case
  proof (cases "nr = 0")
    case True
    then show ?thesis using 1 by (auto simp: gf_inv_loop.simps euclid_inv_def)
  next
    case False
    then have "gf_inv_loop nt (t - (r sdiv nr) * nt) nr (r - (r sdiv nr) * nr) = (t', r')"
      using 1(3) by (simp add: gf_inv_loop.simps [of t])
    then show ?thesis by (rule 1(1) [OF False euclid_inv_step [OF 1(2) False]])
  qed
qed

lemma gf_inv_inverse:
  assumes x: "coprime x p" and p: "1 < p" "p < 2 ^ 63"
  shows "(x * gf_inv x p) mod p = 1" and "gf_inv x p \<le> p"
proof -
  obtain t r where l: "gf_inv_loop 0 1 (int p) (int x) = (t, r)" by fastforce
  have "euclid_inv (int p) (int x) 0 1 (int p) (int x)" using p by (simp add: euclid_inv_def)
  from gf_inv_loop_result [OF this l] have r: "r = gcd (int p) (int x)" and d: "int p dvd t * int x - r" and b: "\<bar>t\<bar> \<le> int p"
    by auto
  have r1: "r = 1" using x r by (simp add: coprime_iff_gcd_eq_1 gcd.commute gcd_int_int_eq)
  have i: "int (gf_inv x p) = (if t < 0 then t + int p else t)"
    using b p by (auto simp: gf_inv_def l r1 mod_pos_pos_trivial)
  then have "int p dvd int (gf_inv x p) * int x - 1"
    using d r1 by (auto simp: algebra_simps)
  then have "int (gf_inv x p) * int x mod int p = 1 mod int p" by (simp add: mod_eq_dvd_iff)
  then have "int (x * gf_inv x p mod p) = int 1" using p by (simp add: zmod_int mult.commute)
  then show "(x * gf_inv x p) mod p = 1" by (simp only: of_nat_eq_iff)
  show "gf_inv x p \<le> p" using i b by (auto split: if_splits)
qed


section \<open>The field of 257 elements\<close>

lemma coprime_257:
  fixes x :: nat
  assumes "0 < x" and "x < 257"
  shows "coprime x 257"
proof -
  have "\<forall>y\<in>set [1..<257]. gcd y (257::nat) = 1" by code_simp
  then show ?thesis using assms by (simp add: coprime_iff_gcd_eq_1)
qed

typedef gf257 = "{..<257 :: nat}" by (rule exI [of _ 0]) simp

setup_lifting type_definition_gf257

instantiation gf257 :: field
begin
lift_definition zero_gf257 :: gf257 is 0 by simp
lift_definition one_gf257 :: gf257 is 1 by simp
lift_definition plus_gf257 :: "gf257 \<Rightarrow> gf257 \<Rightarrow> gf257" is "\<lambda>a b. (a + b) mod 257" by simp
lift_definition uminus_gf257 :: "gf257 \<Rightarrow> gf257" is "\<lambda>a. (257 - a) mod 257" by simp
lift_definition minus_gf257 :: "gf257 \<Rightarrow> gf257 \<Rightarrow> gf257" is "\<lambda>a b. (a + (257 - b)) mod 257" by simp
lift_definition times_gf257 :: "gf257 \<Rightarrow> gf257 \<Rightarrow> gf257" is "\<lambda>a b. (a * b) mod 257" by simp
lift_definition inverse_gf257 :: "gf257 \<Rightarrow> gf257" is "\<lambda>a. if a = 0 then 0 else gf_inv a 257 mod 257" by simp
definition divide_gf257 :: "gf257 \<Rightarrow> gf257 \<Rightarrow> gf257" where "divide_gf257 a b = a * inverse b"
instance
proof
  fix a b c :: gf257
  show "a * b * c = a * (b * c)" by transfer (simp add: mod_simps mult.assoc)
  show "a * b = b * a" by transfer (simp add: mult.commute)
  show "1 * a = a" by transfer simp
  show "a + b + c = a + (b + c)" by transfer (simp add: mod_simps add.assoc)
  show "a + b = b + a" by transfer (simp add: add.commute)
  show "0 + a = a" by transfer simp
  show "- a + a = 0" by transfer (simp add: mod_simps)
  show "a - b = a + - b" by transfer (simp add: mod_simps)
  show "(a + b) * c = a * c + b * c" by transfer (simp add: mod_simps algebra_simps)
  show "(0::gf257) \<noteq> 1" by transfer simp
  show "a div b = a * inverse b" by (rule divide_gf257_def)
  show "inverse (0::gf257) = 0" by transfer simp
  show "a \<noteq> 0 \<Longrightarrow> inverse a * a = 1"
    by transfer (simp add: mod_simps mult.commute gf_inv_inverse(1) [OF coprime_257])
qed
end

lemma Rep_of_nat: "Rep_gf257 (of_nat n) = n mod 257"
  by (induction n) (simp_all add: zero_gf257.rep_eq one_gf257.rep_eq plus_gf257.rep_eq mod_simps)

lemma of_nat_gf257_eq: "of_nat m = (of_nat n :: gf257) \<longleftrightarrow> m mod 257 = n mod 257"
  by (simp flip: Rep_gf257_inject add: Rep_of_nat)

lemma of_nat_gf257_mod [simp]: "of_nat (m mod 257) = (of_nat m :: gf257)"
  by (simp add: of_nat_gf257_eq)

lemma gf257_characteristic [simp]: "(257 :: gf257) = 0"
  using of_nat_gf257_eq [of 257 0] by simp

lemma of_nat_gf257_inv:
  assumes "of_nat x \<noteq> (0 :: gf257)" and "x < 257"
  shows "of_nat (gf_inv x 257) = (inverse (of_nat x) :: gf257)"
proof -
  have "x \<noteq> 0" using assms(1) by (intro notI) simp
  then have "(x * gf_inv x 257) mod 257 = 1" using gf_inv_inverse(1) [OF coprime_257] assms(2) by simp
  then have "of_nat (x * gf_inv x 257) = (of_nat 1 :: gf257)" unfolding of_nat_gf257_eq by simp
  then show ?thesis by (simp add: inverse_unique)
qed

section \<open>Interpolation at the origin\<close>

definition horner :: "'a :: field list \<Rightarrow> 'a \<Rightarrow> 'a" where
  "horner cs x = foldr (\<lambda>c acc. c + x * acc) cs 0"

lemma horner_simps [simp]: "horner [] x = 0" "horner (c # cs) x = c + x * horner cs x"
  by (simp_all add: horner_def)

definition divided_difference :: "'a :: field set \<Rightarrow> ('a \<Rightarrow> 'a) \<Rightarrow> 'a" where
  "divided_difference S f = (\<Sum>x\<in>S. f x / (\<Prod>y\<in>S - {x}. x - y))"

lemma divided_difference_add:
  "divided_difference S (\<lambda>x. f x + g x) = divided_difference S f + divided_difference S g"
  by (simp add: divided_difference_def add_divide_distrib sum.distrib)

lemma divided_difference_scale:
  "divided_difference S (\<lambda>x. c * f x) = c * divided_difference S f"
  by (simp add: divided_difference_def sum_distrib_left)

lemma divided_difference_factor:
  assumes "finite S" and "a \<notin> S"
  shows "divided_difference (insert a S) (\<lambda>x. (x - a) * f x) = divided_difference S f"
proof -
  have "(x - a) * f x / (\<Prod>y\<in>insert a S - {x}. x - y) = f x / (\<Prod>y\<in>S - {x}. x - y)" if "x \<in> S" for x
  proof -
    from that assms have "insert a S - {x} = insert a (S - {x})" and "x - a \<noteq> 0" by auto
    then show ?thesis using assms by simp
  qed
  then show ?thesis using assms by (simp add: divided_difference_def)
qed

lemma divided_difference_const:
  "finite S \<Longrightarrow> 2 \<le> card S \<Longrightarrow> divided_difference S (\<lambda>_. c) = 0"
proof (induction "card S" arbitrary: S rule: less_induct)
  case less
  then obtain a b T where S: "S = insert a (insert b T)" and ab: "a \<noteq> b" "a \<notin> T" "b \<notin> T" and T: "finite T"
    by (auto simp: card_le_Suc_iff numeral_2_eq_2)
  have "(a - b) * divided_difference S (\<lambda>_. c) = divided_difference S (\<lambda>x. (x - b) * c + (x - a) * (- c))"
    by (simp add: algebra_simps flip: divided_difference_scale)
  also have "\<dots> = divided_difference (insert a T) (\<lambda>_. c) + divided_difference (insert b T) (\<lambda>_. - c)"
    using divided_difference_factor [of "insert a T" b "\<lambda>_. c"] divided_difference_factor [of "insert b T" a "\<lambda>_. - c"] ab T
    unfolding divided_difference_add S by (simp add: insert_commute)
  also have "\<dots> = divided_difference (insert a T) (\<lambda>_. c) - divided_difference (insert b T) (\<lambda>_. c)"
    using divided_difference_scale [of "insert b T" "- 1" "\<lambda>_. c"] by simp
  also have "\<dots> = 0"
  proof (cases "T = {}")
    case True
    then show ?thesis by (simp add: divided_difference_def)
  next
    case False
    then have "2 \<le> card (insert a T)" "2 \<le> card (insert b T)" "card (insert a T) < card S" "card (insert b T) < card S"
      using ab T S by (simp_all add: Suc_le_eq card_gt_0_iff numeral_2_eq_2)
    then show ?thesis using less(1) [of "insert a T"] less(1) [of "insert b T"] T by simp
  qed
  finally show ?case using ab(1) by simp
qed

lemma divided_difference_horner:
  "finite S \<Longrightarrow> length cs < card S \<Longrightarrow> divided_difference S (horner cs) = 0"
proof (induction cs arbitrary: S)
  case Nil
  then show ?case by (simp add: divided_difference_def)
next
  case (Cons c cs)
  then obtain a T where S: "S = insert a T" "a \<notin> T" "finite T" by (metis card_le_Suc_iff less_eq_Suc_le finite_insert)
  have "divided_difference S (horner (c # cs))
      = divided_difference S (\<lambda>x. c + ((x - a) * horner cs x + a * horner cs x))"
    by (rule arg_cong [where f = "divided_difference S"]) (simp add: fun_eq_iff algebra_simps)
  also have "\<dots> = divided_difference T (horner cs) + a * divided_difference S (horner cs)"
    using Cons.prems S by (simp add: divided_difference_add divided_difference_scale divided_difference_const divided_difference_factor)
  also have "\<dots> = 0" using Cons S by simp
  finally show ?case .
qed

lemma interpolation_at_zero:
  assumes S: "finite S" "0 \<notin> S" and cs: "length cs \<le> card S"
  shows "(\<Sum>x\<in>S. horner cs x * ((\<Prod>y\<in>S - {x}. - y) * inverse (\<Prod>y\<in>S - {x}. x - y))) = horner cs 0"
proof -
  define P where "P = (\<Prod>y\<in>S. - y)"
  have P: "P \<noteq> 0" using S by (auto simp: P_def)
  have "horner cs x / (\<Prod>y\<in>insert 0 S - {x}. x - y) = - (horner cs x * ((\<Prod>y\<in>S - {x}. - y) * inverse (\<Prod>y\<in>S - {x}. x - y))) / P"
    if "x \<in> S" for x
  proof -
    from that S have "insert 0 S - {x} = insert 0 (S - {x})" and x: "x \<noteq> 0" by auto
    moreover have "P = - x * (\<Prod>y\<in>S - {x}. - y)" using S that by (simp add: P_def prod.remove)
    moreover have "(\<Prod>y\<in>S - {x}. - y) \<noteq> 0" using S by auto
    ultimately show ?thesis using S by (simp add: field_simps)
  qed
  then have "divided_difference (insert 0 S) (horner cs)
      = horner cs 0 / P - (\<Sum>x\<in>S. horner cs x * ((\<Prod>y\<in>S - {x}. - y) * inverse (\<Prod>y\<in>S - {x}. x - y))) / P"
    using S by (simp add: divided_difference_def P_def sum_negf sum_divide_distrib)
  moreover have "divided_difference (insert 0 S) (horner cs) = 0"
    using S cs by (intro divided_difference_horner) auto
  ultimately show ?thesis using P by (simp add: diff_eq_eq)
qed


section \<open>The program computes in the field\<close>

lemma gf_eval_less: "0 < p \<Longrightarrow> gf_eval cs x p < p"
  by (cases cs) (simp_all add: gf_eval_def)

lemma gf_eval_horner: "of_nat (gf_eval cs x 257) = (horner (map of_nat cs) (of_nat x) :: gf257)"
  by (induction cs) (simp_all add: gf_eval_def algebra_simps)

lemma foldl_sum:
  "foldl (\<lambda>out i. (out + f i) mod p) a xs mod p = (a + (\<Sum>i\<leftarrow>xs. f i)) mod (p :: nat)"
  by (induction xs arbitrary: a) (simp_all add: mod_simps add.assoc)

lemma foldl_fraction:
  assumes "\<forall>x\<in>set xs. of_nat (u x) = (f x :: gf257) \<and> of_nat (v x) = (g x :: gf257)"
  shows "foldl (\<lambda>(num, den) x. if P x then (num, den) else ((num * u x) mod 257, (den * v x) mod 257)) (a, b) xs = (num, den)
    \<Longrightarrow> of_nat num = (of_nat a * (\<Prod>x\<leftarrow>filter (\<lambda>x. \<not> P x) xs. f x) :: gf257) \<and> of_nat den = (of_nat b * (\<Prod>x\<leftarrow>filter (\<lambda>x. \<not> P x) xs. g x) :: gf257)"
  using assms by (induction xs arbitrary: a b) (auto simp: algebra_simps split: if_splits)


lemma foldl_enumerate:
  "(\<And>i x acc. (i, x) \<in> set (enumerate k xs) \<Longrightarrow> f acc (i, x) = g acc x) \<Longrightarrow> foldl f a (enumerate k xs) = foldl g a xs"
  by (induction xs arbitrary: a k) auto

lemma enumerate_index_iff:
  assumes "distinct (map fst points)" and "(i, x, y) \<in> set (enumerate 0 points)" and "(j, x', y') \<in> set (enumerate 0 points)"
  shows "i = j \<longleftrightarrow> x = x'"
proof -
  from assms(2,3) have "points ! i = (x, y)" "i < length points" "points ! j = (x', y')" "j < length points"
    by (auto simp: in_set_enumerate_eq)
  then show ?thesis using nth_eq_iff_index_eq [OF assms(1), of i j] by auto
qed

lemma lagrange_fraction_field:
  assumes d: "distinct (map fst points)" and b: "\<forall>q\<in>set points. fst q < 257" and xi: "(i, xi, yi) \<in> set (enumerate 0 points)"
    and l: "lagrange_fraction points 257 i xi = (num, den)"
  shows "of_nat num = (\<Prod>q\<leftarrow>filter (\<lambda>q. fst q \<noteq> xi) points. - of_nat (fst q) :: gf257)"
    and "of_nat den = (\<Prod>q\<leftarrow>filter (\<lambda>q. fst q \<noteq> xi) points. of_nat xi - of_nat (fst q) :: gf257)" and "den < 257"
proof -
  let ?u = "\<lambda>q :: u64 \<times> u64. 257 + (257 - fst q mod 257)" and ?v = "\<lambda>q :: u64 \<times> u64. (257 + xi - fst q) mod 257"
  have "lagrange_fraction points 257 i xi
      = foldl (\<lambda>(num, den) q. if fst q = xi then (num, den) else ((num * ?u q) mod 257, (den * ?v q) mod 257)) (1, 1) points"
    unfolding lagrange_fraction_def
    by (rule foldl_enumerate) (auto dest: enumerate_index_iff [OF d xi])
  with l have f: "foldl (\<lambda>(num, den) q. if fst q = xi then (num, den) else ((num * ?u q) mod 257, (den * ?v q) mod 257)) (1, 1) points = (num, den)"
    by simp
  have z: "(514 :: gf257) = 0" using of_nat_gf257_eq [of 514 0] by simp
  have "\<forall>q\<in>set points. of_nat (?u q) = (- of_nat (fst q) :: gf257) \<and> of_nat (?v q) = (of_nat xi - of_nat (fst q) :: gf257)"
    using b by (auto simp: of_nat_diff less_imp_le trans_le_add1 z)
  from foldl_fraction [OF this f]
  show "of_nat num = (\<Prod>q\<leftarrow>filter (\<lambda>q. fst q \<noteq> xi) points. - of_nat (fst q) :: gf257)"
    and "of_nat den = (\<Prod>q\<leftarrow>filter (\<lambda>q. fst q \<noteq> xi) points. of_nat xi - of_nat (fst q) :: gf257)" by simp_all
  have "snd (foldl (\<lambda>(num, den) q. if fst q = xi then (num, den) else ((num * ?u q) mod 257, (den * ?v q) mod 257)) (a, b) qs) < 257"
    if "b < 257" for a b qs using that by (induction qs arbitrary: a b) auto
  from this [of 1 1 points] f show "den < 257" by simp
qed

lemma prod_list_points:
  assumes "distinct (map fst points)" and "\<forall>q\<in>set points. fst q < 257" 
    and "S = (of_nat ` fst ` set points :: gf257 set)" and "xi < 257"
  shows "(\<Prod>q\<leftarrow>filter (\<lambda>q. fst q \<noteq> xi) points. h (of_nat (fst q))) = (\<Prod>z\<in>S - {of_nat xi}. h z :: gf257)"
proof -
  let ?L = "map (\<lambda>q. of_nat (fst q) :: gf257) (filter (\<lambda>q. fst q \<noteq> xi) points)"
  have "inj_on (\<lambda>q. of_nat (fst q) :: gf257) (set points)"
    using assms(1,2) by (auto simp: inj_on_def of_nat_gf257_eq distinct_map)
  then have "distinct ?L" using assms(1) by (auto simp: distinct_map inj_on_def)
  moreover have "set ?L = S - {of_nat xi}" using assms(2-4) by (auto simp: of_nat_gf257_eq)
  ultimately show ?thesis using prod.distinct_set_conv_list [of ?L h] by (simp add: comp_def)
qed

lemma gf_lagrange_origin_sum:
  assumes d: "distinct (map fst points)" and b: "\<forall>q\<in>set points. fst q < 257"
    and S: "S = of_nat ` fst ` set points"
  shows "of_nat (gf_lagrange_origin points 257)
    = (\<Sum>q\<leftarrow>points. of_nat (snd q) * ((\<Prod>z\<in>S - {of_nat (fst q)}. - z) * inverse (\<Prod>z\<in>S - {of_nat (fst q)}. of_nat (fst q) - z)) :: gf257)"
proof -
  define lag :: "u64 \<Rightarrow> gf257" where
    "lag x = (\<Prod>z\<in>S - {of_nat x}. - z) * inverse (\<Prod>z\<in>S - {of_nat x}. of_nat x - z)" for x
  let ?step = "\<lambda>out (i, xi, yi). let (num, den) = lagrange_fraction points 257 i xi;
                  lag = (num * gf_inv den 257) mod 257 in (out + yi * lag) mod 257"
  have step: "of_nat (?step out (i, x, y)) = of_nat out + of_nat y * lag x" if m: "(i, x, y) \<in> set (enumerate 0 points)" for out i x y
  proof -
    obtain num den where l: "lagrange_fraction points 257 i x = (num, den)" by fastforce
    have x: "x < 257" using m b by (force simp: in_set_enumerate_eq dest: nth_mem)
    note f = lagrange_fraction_field [OF d b m l] prod_list_points [OF d b S x]
    have "of_nat den \<noteq> (0 :: gf257)" using f(2) f(4) [of "\<lambda>z. of_nat x - z"] S by simp
    then have "of_nat (gf_inv den 257) = (inverse (of_nat den) :: gf257)" using f(3) by (rule of_nat_gf257_inv)
    then show ?thesis using f(1,2) f(4) [of "\<lambda>z. - z"] f(4) [of "\<lambda>z. of_nat x - z"] by (simp add: l lag_def)
  qed
  have run: "of_nat (foldl ?step a L) = of_nat a + (\<Sum>q\<leftarrow>map snd L. of_nat (snd q) * lag (fst q))"
    if "set L \<subseteq> set (enumerate 0 points)" for a L
    using that
  proof (induction L arbitrary: a)
    case (Cons e L)
    obtain i x y where e: "e = (i, x, y)" by (cases e)
    then show ?case using Cons step [of i x y] by (simp add: add.assoc del: Let_def split: prod.splits)
  qed simp
  show ?thesis using run [of "enumerate 0 points" 0] by (simp add: gf_lagrange_origin_def lag_def)
qed

lemma gf_lagrange_origin_eval:
  assumes xs: "distinct xs" "\<forall>x\<in>set xs. 0 < x \<and> x < 257" and cs: "length cs \<le> length xs"
  shows "gf_lagrange_origin (map (\<lambda>x. (x, gf_eval cs x 257)) xs) 257 = gf_eval cs 0 257"
proof -
  let ?points = "map (\<lambda>x. (x, gf_eval cs x 257)) xs"
  define S :: "gf257 set" where "S = of_nat ` set xs"
  have inj: "inj_on (of_nat :: nat \<Rightarrow> gf257) (set xs)" using xs(2) by (auto simp: inj_on_def of_nat_gf257_eq)
  have S: "finite S" "0 \<notin> S" and card: "card S = length xs"
    using xs inj of_nat_gf257_eq [of 0] by (auto simp: S_def card_image distinct_card)
  have "of_nat (gf_lagrange_origin ?points 257)
    = (\<Sum>x\<leftarrow>xs. horner (map of_nat cs) (of_nat x) * ((\<Prod>z\<in>S - {of_nat x}. - z) * inverse (\<Prod>z\<in>S - {of_nat x}. of_nat x - z)) :: gf257)"
    using xs gf_lagrange_origin_sum [of ?points S] by (simp add: S_def comp_def gf_eval_horner image_image)
  also have "\<dots> = (\<Sum>x\<in>S. horner (map of_nat cs) x * ((\<Prod>z\<in>S - {x}. - z) * inverse (\<Prod>z\<in>S - {x}. x - z)))"
    using xs(1) inj by (simp add: S_def sum.reindex sum.distinct_set_conv_list comp_def)
  also have "\<dots> = horner (map of_nat cs) 0" using S cs card by (intro interpolation_at_zero) simp_all
  finally have "of_nat (gf_lagrange_origin ?points 257) = (of_nat (gf_eval cs 0 257) :: gf257)"
    by (simp add: gf_eval_horner)
  then show ?thesis using gf_eval_less [of 257 cs 0] by (simp add: of_nat_gf257_eq gf_lagrange_origin_def)
qed

end
