(* ===== verification/Shamir.thy ===== *)
theory Shamir
  imports Gf257
begin

text \<open>
  Secret sharing, \<open>split_secret\<close> and \<open>recover_secret_from_shares\<close> of \<open>shph-core/src/roadmap.rs\<close>.  The \<open>base64\<close>
  crate is the record \<open>b64\<close> of its two operations with the documented contract \<open>b64_ok\<close>; the generator is an
  argument.  Rejection sampling may draw for ever, so that splitting is an option whose \<open>None\<close> is
  non-termination.
\<close>

section \<open>Definitions\<close>

definition MAX_SHAMIR_PAYLOAD_BYTES :: usize where "MAX_SHAMIR_PAYLOAD_BYTES = 256 * 1024"
definition MAX_SHAMIR_SECRET_BYTES :: usize where "MAX_SHAMIR_SECRET_BYTES = MAX_SHAMIR_PAYLOAD_BYTES div 2"
definition MAX_SHAMIR_RECOVERY_BYTES :: usize where "MAX_SHAMIR_RECOVERY_BYTES = 8 * 1024 * 1024"
definition MAX_SHAMIR_PAYLOAD_B64_BYTES :: usize where "MAX_SHAMIR_PAYLOAD_B64_BYTES = div_ceil MAX_SHAMIR_PAYLOAD_BYTES 3 * 4"

lemmas shamir_limits = MAX_SHAMIR_PAYLOAD_BYTES_def MAX_SHAMIR_SECRET_BYTES_def MAX_SHAMIR_RECOVERY_BYTES_def MAX_SHAMIR_PAYLOAD_B64_BYTES_def

record shamir_config =
  sc_enabled :: bool
  threshold :: usize
  shares :: usize

definition shamir_config_default :: shamir_config where
  "shamir_config_default = \<lparr>sc_enabled = False, threshold = 2, shares = 3\<rparr>"

datatype shamir_error = InvalidPolicy | TooFewShares | BadShareCount | DecodeFailed

fun shph_error_from_shamir :: "shamir_error \<Rightarrow> shph_error" where
  "shph_error_from_shamir InvalidPolicy = Config ''invalid Shamir policy''"
| "shph_error_from_shamir TooFewShares = Config ''insufficient Shamir shares''"
| "shph_error_from_shamir BadShareCount = Protocol ''invalid Shamir share count''"
| "shph_error_from_shamir DecodeFailed = Protocol ''failed to decode Shamir share''"

record shamir_share =
  share_index :: u8
  payload_b64 :: string

definition validate_shamir_config :: "shamir_config \<Rightarrow> unit result" where
  "validate_shamir_config cfg =
     (if sc_enabled cfg \<and> (threshold cfg = 0 \<or> shares cfg = 0 \<or> shares cfg < threshold cfg \<or> 255 < shares cfg)
        then Err (Config ''invalid Shamir policy'') else Ok ())"

record b64 =
  b64_encode :: "bytes \<Rightarrow> string"
  b64_decode :: "string \<Rightarrow> bytes option"

definition b64_ok :: "b64 \<Rightarrow> bool" where
  "b64_ok B \<longleftrightarrow> (\<forall>raw. b64_decode B (b64_encode B raw) = Some raw)
     \<and> (\<forall>raw. length (b64_encode B raw) \<le> div_ceil (length raw) 3 * 4)"

definition encode_u16_array :: "b64 \<Rightarrow> u16 list \<Rightarrow> string" where
  "encode_u16_array B values = b64_encode B (concat (map (le_bytes 2) values))"

fun u16_chunks :: "bytes \<Rightarrow> u16 list" where
  "u16_chunks (a # b # rest) = of_le [a, b] # u16_chunks rest"
| "u16_chunks _ = []"

definition decode_u16_array :: "b64 \<Rightarrow> string \<Rightarrow> u16 list result" where
  "decode_u16_array B raw_b64 =
     (if MAX_SHAMIR_PAYLOAD_B64_BYTES < length raw_b64
        then Err (ResourceExhausted ''Shamir share payload exceeds the safety limit'')
      else case b64_decode B raw_b64 of
        None \<Rightarrow> Err (Protocol ''invalid share payload'')
      | Some raw \<Rightarrow>
          if length raw mod 2 \<noteq> 0 then Err (Protocol ''invalid share payload length'')
          else if MAX_SHAMIR_PAYLOAD_BYTES < length raw
            then Err (ResourceExhausted ''Shamir share payload exceeds the safety limit'')
          else Ok (u16_chunks raw))"

definition field_cut :: "u64 \<Rightarrow> u128" where
  "field_cut prime = ((u64_max + 1) div prime) * prime"

partial_function (option) sample_field_element :: "'g rng \<Rightarrow> u64 \<Rightarrow> 'g \<Rightarrow> (u64 \<times> 'g) option" where
  "sample_field_element R prime g =
     (case next_u64 R g of
        (value, g') \<Rightarrow> if value < field_cut prime then Some (value mod prime, g')
                       else sample_field_element R prime g')"

fun sample_coeffs :: "'g rng \<Rightarrow> nat \<Rightarrow> 'g \<Rightarrow> (u64 list \<times> 'g) option" where
  "sample_coeffs R 0 g = Some ([], g)"
| "sample_coeffs R (Suc n) g =
     (case sample_field_element R SHAMIR_PRIME g of None \<Rightarrow> None | Some (c, g1) \<Rightarrow>
      (case sample_coeffs R n g1 of None \<Rightarrow> None | Some (cs, g2) \<Rightarrow> Some (c # cs, g2)))"

fun split_rows :: "'g rng \<Rightarrow> shamir_config \<Rightarrow> bytes \<Rightarrow> u16 list list \<Rightarrow> 'g \<Rightarrow> (u16 list list \<times> 'g) option" where
  "split_rows R cfg [] rows g = Some (rows, g)"
| "split_rows R cfg (byte # rest) rows g =
     (case sample_coeffs R (threshold cfg - 1) g of None \<Rightarrow> None | Some (cs, g') \<Rightarrow>
        split_rows R cfg rest
          (map (\<lambda>(x, row). row @ [gf_eval (unat byte # cs) x SHAMIR_PRIME mod 65536]) (zip [1..<shares cfg + 1] rows)) g')"

definition split_secret ::
    "b64 \<Rightarrow> 'g rng \<Rightarrow> bytes \<Rightarrow> shamir_config \<Rightarrow> 'g \<Rightarrow> (shamir_share list result \<times> 'g) option" where
  "split_secret B R secret cfg g =
     (if \<not> sc_enabled cfg then Some (Ok [], g)
      else if threshold cfg = 0 \<or> shares cfg = 0 \<or> shares cfg < threshold cfg \<or> 255 < shares cfg
        then Some (Err (shph_error_from_shamir InvalidPolicy), g)
      else if MAX_SHAMIR_SECRET_BYTES < length secret
        then Some (Err (ResourceExhausted ''Shamir secret exceeds the safety limit''), g)
      else case split_rows R cfg secret (replicate (shares cfg) []) g of None \<Rightarrow> None
        | Some (rows, g') \<Rightarrow>
            Some (Ok (map (\<lambda>(idx, row). \<lparr>share_index = (idx + 1) mod 256, payload_b64 = encode_u16_array B row\<rparr>) (enumerate 0 rows)), g'))"

text \<open>The state of the loop over the presented shares: the points kept for interpolation, the lengths and
  the indices seen, and the number of decoded bytes.\<close>

record recovery =
  rc_decoded :: "(u64 \<times> u16 list) list"
  rc_lens :: "nat set"
  rc_indices :: "nat set"
  rc_bytes :: usize

fun recover_loop :: "b64 \<Rightarrow> shamir_config \<Rightarrow> shamir_share list \<Rightarrow> recovery \<Rightarrow> recovery result" where
  "recover_loop B cfg [] st = Ok st"
| "recover_loop B cfg (share # rest) st =
     (case decode_u16_array B (payload_b64 share) of
        Err _ \<Rightarrow> Err (shph_error_from_shamir DecodeFailed)
      | Ok values \<Rightarrow>
     (case checked_add usize_max (rc_bytes st) (min usize_max (length values * 2)) of
        None \<Rightarrow> Err (ResourceExhausted ''Shamir recovery input is too large'')
      | Some decoded_bytes \<Rightarrow>
          if MAX_SHAMIR_RECOVERY_BYTES < decoded_bytes
            then Err (ResourceExhausted ''Shamir recovery input exceeds the safety limit'')
          else if share_index share = 0 \<or> shares cfg < share_index share
            then Err (shph_error_from_shamir BadShareCount)
          else if share_index share \<in> rc_indices st then Err (shph_error_from_shamir BadShareCount)
          else if \<exists>v\<in>set values. 256 < v then Err (shph_error_from_shamir DecodeFailed)
          else recover_loop B cfg rest
            \<lparr>rc_decoded = (if length (rc_decoded st) < threshold cfg then rc_decoded st @ [(share_index share, values)] else rc_decoded st),
             rc_lens = insert (length values) (rc_lens st),
             rc_indices = insert (share_index share) (rc_indices st), rc_bytes = decoded_bytes\<rparr>))"

definition recovered_byte :: "shamir_config \<Rightarrow> (u64 \<times> u16 list) list \<Rightarrow> nat \<Rightarrow> byte" where
  "recovered_byte cfg decoded byte_index =
     of_nat (gf_lagrange_origin (map (\<lambda>(x, values). (x, values ! byte_index)) (take (threshold cfg) decoded)) 257)"

definition recover_secret_from_shares :: "b64 \<Rightarrow> shamir_share list \<Rightarrow> shamir_config \<Rightarrow> bytes result" where
  "recover_secret_from_shares B presented cfg =
     (if \<not> sc_enabled cfg then Ok []
      else case validate_shamir_config cfg of Err e \<Rightarrow> Err e | Ok _ \<Rightarrow>
        if length presented < threshold cfg then Err (shph_error_from_shamir TooFewShares)
        else if shares cfg < length presented then Err (shph_error_from_shamir BadShareCount)
        else case recover_loop B cfg presented \<lparr>rc_decoded = [], rc_lens = {}, rc_indices = {}, rc_bytes = 0\<rparr> of
          Err e \<Rightarrow> Err e
        | Ok st \<Rightarrow>
            if card (rc_indices st) < threshold cfg then Err (shph_error_from_shamir TooFewShares)
            else if card (rc_lens st) \<noteq> 1 then Err (shph_error_from_shamir BadShareCount)
            else case rc_decoded st of
                [] \<Rightarrow> Err (shph_error_from_shamir DecodeFailed)
              | (_, values) # _ \<Rightarrow> Ok (map (recovered_byte cfg (rc_decoded st)) [0..<length values]))"

section \<open>The payload codec\<close>

lemma u16_chunks_le: "\<forall>v\<in>set vs. v < 65536 \<Longrightarrow> u16_chunks (concat (map (le_bytes 2) vs)) = vs"
proof (induction vs)
  case (Cons v vs)
  have "\<exists>a b. xs = [a, b]" if "length xs = 2" for xs :: bytes using that by (auto simp: numeral_2_eq_2 length_Suc_conv)
  from this [OF length_le_bytes [of 2 v]] obtain a b where ab: "le_bytes 2 v = [a, b]" by blast
  have "of_le [a, b] = v" using Cons.prems of_le_le_bytes_id [of v 2] by (simp add: ab)
  then show ?case using Cons by (simp add: ab)
qed simp

lemma decode_encode_u16:
  assumes B: "b64_ok B" and vs: "\<forall>v\<in>set vs. v < 65536" and n: "length vs \<le> MAX_SHAMIR_SECRET_BYTES"
  shows "decode_u16_array B (encode_u16_array B vs) = Ok vs"
proof -
  let ?raw = "concat (map (le_bytes 2) vs)"
  have len: "length ?raw = 2 * length vs" by (induction vs) simp_all
  have "length (b64_encode B ?raw) \<le> div_ceil (length ?raw) 3 * 4" and d: "b64_decode B (b64_encode B ?raw) = Some ?raw"
    using B by (simp_all add: b64_ok_def)
  moreover have "div_ceil (length ?raw) 3 \<le> div_ceil MAX_SHAMIR_PAYLOAD_BYTES 3"
    using n len unfolding div_ceil_def by (intro div_le_mono) (simp add: shamir_limits)
  ultimately have "length (b64_encode B ?raw) \<le> MAX_SHAMIR_PAYLOAD_B64_BYTES"
    unfolding MAX_SHAMIR_PAYLOAD_B64_BYTES_def by linarith
  then show ?thesis using d len n u16_chunks_le [OF vs]
    by (simp add: decode_u16_array_def encode_u16_array_def shamir_limits)
qed


section \<open>Sampling\<close>

text \<open>A generator is fair for the field when from every state some later draw is below the rejection bound.\<close>

primrec nth_draw :: "'g rng \<Rightarrow> nat \<Rightarrow> 'g \<Rightarrow> u64" where
  "nth_draw R 0 g = fst (next_u64 R g)"
| "nth_draw R (Suc n) g = nth_draw R n (snd (next_u64 R g))"

definition draws_fair :: "'g rng \<Rightarrow> bool" where
  "draws_fair R \<longleftrightarrow> (\<forall>g. \<exists>n. nth_draw R n g < field_cut SHAMIR_PRIME)"

lemma field_cut_prime: "field_cut SHAMIR_PRIME = u64_max"
  by (simp add: field_cut_def SHAMIR_PRIME_def u64_max_def)

lemma sample_returns:
  "nth_draw R n g < field_cut p \<Longrightarrow> 0 < p \<Longrightarrow> \<exists>c g'. sample_field_element R p g = Some (c, g') \<and> c < p"
proof (induction n arbitrary: g)
  case 0
  then show ?case by (subst sample_field_element.simps) (auto split: prod.splits)
next
  case (Suc n)
  then show ?case by (subst sample_field_element.simps) (auto split: prod.splits)
qed

lemma sample_coeffs_returns:
  assumes "draws_fair R"
  shows "\<exists>cs g'. sample_coeffs R n g = Some (cs, g') \<and> length cs = n \<and> (\<forall>c\<in>set cs. c < 257)"
proof (induction n arbitrary: g)
  case (Suc n)
  obtain k where "nth_draw R k g < field_cut SHAMIR_PRIME" using assms by (auto simp: draws_fair_def)
  then obtain c g1 where "sample_field_element R SHAMIR_PRIME g = Some (c, g1)" "c < 257"
    using sample_returns by (metis SHAMIR_PRIME_def zero_less_numeral)
  then show ?case using Suc [of g1] by auto
qed simp

section \<open>Shares of a secret\<close>

text \<open>The coefficients drawn for a secret, one polynomial per byte, and the share with a given index.\<close>

definition coeffs_of :: "nat \<Rightarrow> bytes \<Rightarrow> u64 list list \<Rightarrow> bool" where
  "coeffs_of t secret css \<longleftrightarrow> length css = length secret
     \<and> (\<forall>i<length secret. length (css ! i) = t \<and> hd (css ! i) = unat (secret ! i))"

definition share_values :: "u64 list list \<Rightarrow> u64 \<Rightarrow> u16 list" where
  "share_values css x = map (\<lambda>cs. gf_eval cs x 257) css"

definition share_of :: "b64 \<Rightarrow> u64 list list \<Rightarrow> u64 \<Rightarrow> shamir_share" where
  "share_of B css x = \<lparr>share_index = x, payload_b64 = encode_u16_array B (share_values css x)\<rparr>"

lemma split_rows_returns:
  assumes fair: "draws_fair R" and t: "0 < threshold cfg"
  shows "length rows = shares cfg \<Longrightarrow> \<exists>css g'. coeffs_of (threshold cfg) secret css
     \<and> split_rows R cfg secret rows g = Some (map (\<lambda>(x, row). row @ share_values css x) (zip [1..<shares cfg + 1] rows), g')"
proof (induction secret arbitrary: rows g)
  case Nil
  then have "map (\<lambda>(x, row). row @ share_values [] x) (zip [1..<shares cfg + 1] rows) = rows"
    by (simp add: share_values_def case_prod_unfold map_snd_zip)
  then show ?case by (intro exI [of _ "[]"]) (simp add: coeffs_of_def)
next
  case (Cons b secret)
  obtain cs g1 where cs: "sample_coeffs R (threshold cfg - 1) g = Some (cs, g1)" "length cs = threshold cfg - 1"
    using sample_coeffs_returns [OF fair] by blast
  let ?p = "unat b # cs"
  define rows' where "rows' = map (\<lambda>(x, row). row @ [gf_eval ?p x SHAMIR_PRIME mod 65536]) (zip [1..<shares cfg + 1] rows)"
  have "length rows' = shares cfg" using Cons.prems by (simp add: rows'_def)
  from Cons.IH [OF this, of g1] obtain css g' where css: "coeffs_of (threshold cfg) secret css"
    and r: "split_rows R cfg secret rows' g1 = Some (map (\<lambda>(x, row). row @ share_values css x) (zip [1..<shares cfg + 1] rows'), g')"
    by blast
  have small: "gf_eval ?p x 257 mod 65536 = gf_eval ?p x 257" for x
    using gf_eval_less [of 257 ?p x] by simp
  have "map (\<lambda>(x, row). row @ share_values css x) (zip [1..<shares cfg + 1] rows')
      = map (\<lambda>(x, row). row @ share_values (?p # css) x) (zip [1..<shares cfg + 1] rows)"
    by (rule nth_equalityI)
       (use Cons.prems in \<open>simp_all del: upt_Suc add: rows'_def share_values_def SHAMIR_PRIME_def small\<close>)
  moreover have "coeffs_of (threshold cfg) (b # secret) (?p # css)"
    using css cs(2) t by (auto simp: coeffs_of_def less_Suc_eq_0_disj)
  ultimately show ?case using r cs(1) by (intro exI [of _ "?p # css"] exI [of _ g']) (simp add: rows'_def)
qed

lemma split_secret_returns:
  assumes fair: "draws_fair R" and cfg: "sc_enabled cfg" "0 < threshold cfg" "threshold cfg \<le> shares cfg" "shares cfg \<le> 255"
    and n: "length secret \<le> MAX_SHAMIR_SECRET_BYTES"
  shows "\<exists>css g'. coeffs_of (threshold cfg) secret css
     \<and> split_secret B R secret cfg g = Some (Ok (map (share_of B css) [1..<shares cfg + 1]), g')"
proof -
  obtain css g' where css: "coeffs_of (threshold cfg) secret css"
    and r: "split_rows R cfg secret (replicate (shares cfg) []) g
      = Some (map (\<lambda>(x, row). row @ share_values css x) (zip [1..<shares cfg + 1] (replicate (shares cfg) [])), g')"
    using split_rows_returns [OF fair cfg(2), of "replicate (shares cfg) []" secret g] by auto
  have "map (\<lambda>(x, row). row @ share_values css x) (zip [1..<shares cfg + 1] (replicate (shares cfg) []))
      = map (share_values css) [1..<shares cfg + 1]"
    by (rule nth_equalityI) (simp_all del: upt_Suc)
  moreover have "map (\<lambda>(idx, row). \<lparr>share_index = (idx + 1) mod 256, payload_b64 = encode_u16_array B row\<rparr>)
        (enumerate 0 (map (share_values css) [1..<shares cfg + 1])) = map (share_of B css) [1..<shares cfg + 1]"
    by (rule nth_equalityI) (use cfg(4) in \<open>simp_all del: upt_Suc add: nth_enumerate_eq share_of_def\<close>)
  ultimately show ?thesis using css r cfg n by (auto simp: split_secret_def)
qed


section \<open>Recovery\<close>

lemma share_values_bounds: "length (share_values css x) = length css" "v \<in> set (share_values css x) \<Longrightarrow> v \<le> 256"
proof -
  show "length (share_values css x) = length css" by (simp add: share_values_def)
  have "gf_eval cs x 257 \<le> 256" for cs using gf_eval_less [of 257 cs x] by simp
  then show "v \<in> set (share_values css x) \<Longrightarrow> v \<le> 256" by (auto simp: share_values_def)
qed

lemma recover_loop_honest:
  assumes B: "b64_ok B" and n: "length css \<le> MAX_SHAMIR_SECRET_BYTES"
  shows "distinct xs \<Longrightarrow> set xs \<subseteq> {1..shares cfg} - rc_indices st \<Longrightarrow> rc_bytes st \<le> MAX_SHAMIR_RECOVERY_BYTES \<Longrightarrow>
    recover_loop B cfg (map (share_of B css) xs) st =
     (if rc_bytes st + length xs * (2 * length css) \<le> MAX_SHAMIR_RECOVERY_BYTES
        then Ok \<lparr>rc_decoded = rc_decoded st @ map (\<lambda>x. (x, share_values css x)) (take (threshold cfg - length (rc_decoded st)) xs),
                 rc_lens = (if xs = [] then rc_lens st else insert (length css) (rc_lens st)),
                 rc_indices = set xs \<union> rc_indices st, rc_bytes = rc_bytes st + length xs * (2 * length css)\<rparr>
      else Err (ResourceExhausted ''Shamir recovery input exceeds the safety limit''))"
proof (induction xs arbitrary: st)
  case Nil
  then show ?case by simp
next
  case (Cons x xs)
  have dec: "decode_u16_array B (payload_b64 (share_of B css x)) = Ok (share_values css x)"
    unfolding share_of_def shamir_share.select_convs
  proof (rule decode_encode_u16 [OF B])
    show "\<forall>v\<in>set (share_values css x). v < 65536" using share_values_bounds(2) [of _ css x] by (force intro: le_less_trans)
  qed (simp add: share_values_bounds(1) n)
  have add: "checked_add usize_max (rc_bytes st) (min usize_max (length (share_values css x) * 2)) = Some (rc_bytes st + 2 * length css)"
    using n Cons.prems(3) by (simp add: checked_add_def share_values_bounds shamir_limits usize_max_def)
  have small: "Bex (set (share_values css x)) ((<) 256) = False" using share_values_bounds(2) by (meson not_le)
  have x: "share_index (share_of B css x) = x" "x \<noteq> 0" "x \<le> shares cfg" "x \<notin> rc_indices st" using Cons.prems by (auto simp: share_of_def)
  show ?case
  proof (cases "rc_bytes st + 2 * length css \<le> MAX_SHAMIR_RECOVERY_BYTES")
    case False
    then show ?thesis using dec add by (simp add: algebra_simps)
  next
    case True
    let ?st = "\<lparr>rc_decoded = (if length (rc_decoded st) < threshold cfg then rc_decoded st @ [(x, share_values css x)] else rc_decoded st),
             rc_lens = insert (length css) (rc_lens st), rc_indices = insert x (rc_indices st), rc_bytes = rc_bytes st + 2 * length css\<rparr>"
    have step: "recover_loop B cfg (map (share_of B css) (x # xs)) st = recover_loop B cfg (map (share_of B css) xs) ?st"
      using dec add x leD [OF True] by (simp add: share_values_bounds(1) small)
    have pre: "distinct xs" "set xs \<subseteq> {1..shares cfg} - rc_indices ?st" "rc_bytes ?st \<le> MAX_SHAMIR_RECOVERY_BYTES"
      using Cons.prems True by auto
    have keep: "rc_decoded ?st @ map (\<lambda>x. (x, share_values css x)) (take (threshold cfg - length (rc_decoded ?st)) xs)
        = rc_decoded st @ map (\<lambda>x. (x, share_values css x)) (take (threshold cfg - length (rc_decoded st)) (x # xs))"
      by (cases "threshold cfg - length (rc_decoded st)") (auto simp: diff_Suc split: nat.split)
    show ?thesis unfolding step Cons.IH [OF pre] keep by (auto simp: algebra_simps)
  qed
qed

lemma recovered_byte_honest:
  assumes xs: "distinct xs" "set xs \<subseteq> {1..255}" and css: "coeffs_of t secret css" and t: "t = threshold cfg" "t \<le> length xs"
    and i: "i < length secret" and t0: "0 < t"
  shows "recovered_byte cfg (map (\<lambda>x. (x, share_values css x)) (take t xs)) i = secret ! i"
proof -
  let ?cs = "css ! i"
  have c: "length ?cs = t" "hd ?cs = unat (secret ! i)" "i < length css" using css i by (auto simp: coeffs_of_def)
  have "gf_lagrange_origin (map (\<lambda>x. (x, gf_eval ?cs x 257)) (take t xs)) 257 = gf_eval ?cs 0 257"
  proof (rule gf_lagrange_origin_eval)
    show "distinct (take t xs)" using xs(1) by simp
    show "\<forall>x\<in>set (take t xs). 0 < x \<and> x < 257" using xs(2) by (force dest: in_set_takeD)
    show "length ?cs \<le> length (take t xs)" using c(1) t(2) by simp
  qed
  also have "\<dots> = unat (secret ! i) mod 257" using c t0 by (cases ?cs) (simp_all add: gf_eval_def)
  finally show ?thesis using c(3) t(1) unat_byte_lt [of "secret ! i"]
    by (simp add: recovered_byte_def share_values_def comp_def take_map)
qed

lemma recover_honest:
  assumes B: "b64_ok B" and cfg: "sc_enabled cfg" "0 < threshold cfg" "threshold cfg \<le> shares cfg" "shares cfg \<le> 255"
    and n: "length secret \<le> MAX_SHAMIR_SECRET_BYTES" and css: "coeffs_of (threshold cfg) secret css"
    and xs: "distinct xs" "set xs \<subseteq> {1..shares cfg}" "threshold cfg \<le> length xs"
  shows "recover_secret_from_shares B (map (share_of B css) xs) cfg =
    (if length xs * (2 * length secret) \<le> MAX_SHAMIR_RECOVERY_BYTES then Ok secret
     else Err (ResourceExhausted ''Shamir recovery input exceeds the safety limit''))"
proof -
  have l: "length css = length secret" using css by (simp add: coeffs_of_def)
  have len: "length xs \<le> shares cfg" using card_mono [OF _ xs(2)] distinct_card [OF xs(1)] by simp
  obtain x xs' where cons: "xs = x # xs'" using xs(3) cfg(2) by (cases xs) auto
  note loop = recover_loop_honest [OF B, of css xs cfg "\<lparr>rc_decoded = [], rc_lens = {}, rc_indices = {}, rc_bytes = 0\<rparr>"]
  have card: "card (set xs) = length xs" using xs(1) by (rule distinct_card)
  have "map (recovered_byte cfg (map (\<lambda>x. (x, share_values css x)) (take (threshold cfg) xs))) [0..<length secret] = secret"
    using xs cfg css by (intro nth_equalityI) (auto intro!: recovered_byte_honest)
  moreover have "take (threshold cfg) xs = x # take (threshold cfg - 1) xs'" using cons cfg(2) by (cases "threshold cfg") auto
  ultimately show ?thesis
    using cfg xs n l len loop card cons
    by (auto simp: recover_secret_from_shares_def validate_shamir_config_def share_values_bounds)
qed

lemma presented_indices:
  assumes "distinct presented" and "set presented \<subseteq> share_of B css ` {1..m}"
  shows "\<exists>xs. presented = map (share_of B css) xs \<and> distinct xs \<and> set xs \<subseteq> {1..m}"
proof -
  have idx: "share_index (share_of B css x) = x" for x by (simp add: share_of_def)
  have "presented = map (share_of B css) (map share_index presented)"
    unfolding map_map by (rule map_idI [symmetric]) (use assms(2) idx in auto)
  moreover from this have "distinct (map share_index presented)" using assms(1) by (metis distinct_map)
  moreover have "set (map share_index presented) \<subseteq> {1..m}" using assms(2) by (auto simp: idx)
  ultimately show ?thesis by blast
qed

section \<open>Properties\<close>

text \<open>C34. Secret sharing works.  With a valid policy, a secret within the limit and a generator that does not
  draw the rejected value for ever, splitting terminates and gives one share per index; then any distinct
  shares, at least the threshold of them and in any order, recover exactly the secret, as long as they are
  within the recovery limit, which every policy with at most 32 shares is.\<close>

theorem shamir_roundtrip:
  assumes B: "b64_ok B" and fair: "draws_fair R" and cfg: "sc_enabled cfg" "validate_shamir_config cfg = Ok ()"
    and n: "length secret \<le> MAX_SHAMIR_SECRET_BYTES"
  shows "\<exists>shs g'. split_secret B R secret cfg g = Some (Ok shs, g') \<and> length shs = shares cfg
     \<and> (\<forall>presented. distinct presented \<and> set presented \<subseteq> set shs \<and> threshold cfg \<le> length presented
           \<and> (length presented \<le> 32 \<or> length presented * (2 * length secret) \<le> MAX_SHAMIR_RECOVERY_BYTES)
          \<longrightarrow> recover_secret_from_shares B presented cfg = Ok secret)"
proof -
  have p: "0 < threshold cfg" "threshold cfg \<le> shares cfg" "shares cfg \<le> 255"
    using cfg by (auto simp: validate_shamir_config_def split: if_splits)
  obtain css g' where css: "coeffs_of (threshold cfg) secret css"
    and split: "split_secret B R secret cfg g = Some (Ok (map (share_of B css) [1..<shares cfg + 1]), g')"
    using split_secret_returns [OF fair cfg(1) p n] by blast
  have "recover_secret_from_shares B presented cfg = Ok secret"
    if q: "distinct presented" "set presented \<subseteq> share_of B css ` {1..shares cfg}" "threshold cfg \<le> length presented"
      "length presented \<le> 32 \<or> length presented * (2 * length secret) \<le> MAX_SHAMIR_RECOVERY_BYTES" for presented
  proof -
    obtain xs where pres: "presented = map (share_of B css) xs" "distinct xs" "set xs \<subseteq> {1..shares cfg}"
      using presented_indices [OF q(1,2)] by blast
    have "length presented * (2 * length secret) \<le> MAX_SHAMIR_RECOVERY_BYTES"
      using q(4)
    proof
      assume "length presented \<le> 32"
      then have "length presented * (2 * length secret) \<le> 32 * (2 * MAX_SHAMIR_SECRET_BYTES)" using n by (intro mult_mono) auto
      then show ?thesis by (simp add: shamir_limits)
    qed
    then show ?thesis using recover_honest [OF B cfg(1) p n css pres(2,3)] q(3) pres(1) by simp
  qed
  then show ?thesis using split
    by (intro exI [of _ "map (share_of B css) [1..<shares cfg + 1]"] exI [of _ g'])
       (auto simp del: upt_Suc simp add: atLeastLessThanSuc_atLeastAtMost)
qed

definition plain_b64 :: b64 where
  "plain_b64 = \<lparr>b64_encode = map (\<lambda>b. char_of (unat b)), b64_decode = (\<lambda>s. Some (map (\<lambda>c. of_nat (of_char c)) s))\<rparr>"

lemma plain_b64_ok: "b64_ok plain_b64"
proof -
  have "k \<le> div_ceil k 3 * 4" for k unfolding div_ceil_def by presburger
  moreover have "map (\<lambda>c. of_nat (of_char c)) (map (\<lambda>b :: byte. char_of (unat b)) raw) = raw" for raw
    using unat_byte_lt by (induction raw) simp_all
  ultimately show ?thesis by (simp add: b64_ok_def plain_b64_def del: map_map)
qed

lemma counter_draws_fair: "draws_fair counter_rng"
  unfolding draws_fair_def field_cut_prime
proof
  fix g :: nat
  show "\<exists>n. nth_draw counter_rng n g < u64_max"
  proof (cases "g mod (u64_max + 1) < u64_max")
    case True
    then show ?thesis by (intro exI [of _ 0]) (simp add: counter_rng_def)
  next
    case False
    then have "Suc g mod (u64_max + 1) < u64_max" by (simp add: mod_Suc u64_max_def)
    then show ?thesis by (intro exI [of _ 1]) (simp add: counter_rng_def)
  qed
qed

theorem shamir_roundtrip_witness:
  "\<exists>shs g'. split_secret plain_b64 counter_rng [7, 200, 0] \<lparr>sc_enabled = True, threshold = 2, shares = 3\<rparr> 5 = Some (Ok shs, g')
     \<and> length shs = 3"
  using shamir_roundtrip [OF plain_b64_ok counter_draws_fair, of "\<lparr>sc_enabled = True, threshold = 2, shares = 3\<rparr>" "[7, 200, 0]" 5]
  by (auto simp: validate_shamir_config_def shamir_limits)


text \<open>C36. The limits of splitting and recovery do not fit together.  \<open>split_secret\<close> shares every secret of up to 128 KiB
  under every policy, but when the threshold times the length of a share exceeds 8 MiB no set of these
  shares recovers it: with fewer than the threshold the recovery refuses for want of shares, and with
  enough of them it refuses for their size.\<close>

theorem shamir_unrecoverable:
  assumes B: "b64_ok B" and fair: "draws_fair R" and cfg: "sc_enabled cfg" "validate_shamir_config cfg = Ok ()"
    and n: "length secret \<le> MAX_SHAMIR_SECRET_BYTES" and big: "MAX_SHAMIR_RECOVERY_BYTES < threshold cfg * (2 * length secret)"
  shows "\<exists>shs g'. split_secret B R secret cfg g = Some (Ok shs, g')
     \<and> (\<forall>presented. distinct presented \<and> set presented \<subseteq> set shs
          \<longrightarrow> (\<exists>e. recover_secret_from_shares B presented cfg = Err e))"
proof -
  have p: "0 < threshold cfg" "threshold cfg \<le> shares cfg" "shares cfg \<le> 255"
    using cfg by (auto simp: validate_shamir_config_def split: if_splits)
  obtain css g' where css: "coeffs_of (threshold cfg) secret css"
    and split: "split_secret B R secret cfg g = Some (Ok (map (share_of B css) [1..<shares cfg + 1]), g')"
    using split_secret_returns [OF fair cfg(1) p n] by blast
  have "\<exists>e. recover_secret_from_shares B presented cfg = Err e"
    if q: "distinct presented" "set presented \<subseteq> share_of B css ` {1..shares cfg}" for presented
  proof (cases "length presented < threshold cfg")
    case True
    then show ?thesis using cfg by (simp add: recover_secret_from_shares_def)
  next
    case False
    then have "threshold cfg * (2 * length secret) \<le> length presented * (2 * length secret)" by (intro mult_right_mono) auto
    moreover obtain xs where xs: "presented = map (share_of B css) xs" "distinct xs" "set xs \<subseteq> {1..shares cfg}"
      using presented_indices [OF q] by blast
    ultimately have "\<not> length xs * (2 * length secret) \<le> MAX_SHAMIR_RECOVERY_BYTES" using big by (metis length_map le_trans not_le)
    then show ?thesis using recover_honest [OF B cfg(1) p n css xs(2,3)] False xs(1) by simp
  qed
  then show ?thesis using split
    by (intro exI [of _ "map (share_of B css) [1..<shares cfg + 1]"] exI [of _ g'])
       (auto simp del: upt_Suc simp add: atLeastLessThanSuc_atLeastAtMost)
qed

theorem shamir_unrecoverable_witness:
  "\<exists>shs g'. split_secret plain_b64 counter_rng (replicate 131072 7) \<lparr>sc_enabled = True, threshold = 64, shares = 100\<rparr> 0 = Some (Ok shs, g')"
  using shamir_unrecoverable [OF plain_b64_ok counter_draws_fair, of "\<lparr>sc_enabled = True, threshold = 64, shares = 100\<rparr>" "replicate 131072 7" 0]
  by (auto simp: validate_shamir_config_def shamir_limits)

section \<open>Secrecy\<close>

text \<open>Multiplication of a coefficient list by a linear factor, and a polynomial of length at most \<open>Suc n\<close> that
  vanishes at \<open>n\<close> nonzero points and has a given value at the origin.\<close>

fun mul_linear :: "'a :: field \<Rightarrow> 'a list \<Rightarrow> 'a list" where
  "mul_linear u [] = []"
| "mul_linear u cs = map2 (+) (cs @ [0]) (0 # map ((*) u) cs)"

lemma horner_append: "horner (cs @ [c]) x = horner cs x + c * x ^ length cs"
  by (induction cs) (simp_all add: algebra_simps)

lemma horner_map2_add: "length cs = length ds \<Longrightarrow> horner (map2 (+) cs ds) x = horner cs x + horner ds x"
  by (induction cs ds rule: list_induct2) (simp_all add: algebra_simps)

lemma horner_scale: "horner (map ((*) u) cs) x = u * horner cs x"
  by (induction cs) (simp_all add: algebra_simps)

lemma horner_mul_linear: "horner (mul_linear u cs) x = (1 + u * x) * horner cs x"
  by (cases cs) (simp_all only: mul_linear.simps horner_map2_add horner_append horner_scale horner_simps length_append list.size length_map, simp_all add: algebra_simps)


lemma length_mul_linear: "cs \<noteq> [] \<Longrightarrow> length (mul_linear u cs) = Suc (length cs)"
  by (cases cs) simp_all

lemma hd_mul_linear: "hd (mul_linear u cs) = hd cs"
  by (cases cs) simp_all

lemma horner_pad: "horner (cs @ replicate k 0) x = horner cs x"
  by (induction cs) (simp_all, induction k, simp_all)

lemma vanishing_polynomial:
  fixes xs :: "'a :: field list"
  shows "0 \<notin> set xs \<Longrightarrow> \<exists>cs. length cs = Suc (length xs) \<and> hd cs = d \<and> (\<forall>x\<in>set xs. horner cs x = 0)"
proof (induction xs)
  case Nil
  show ?case by (intro exI [of _ "[d]"]) simp
next
  case (Cons x xs)
  then obtain cs where cs: "length cs = Suc (length xs)" "hd cs = d" "\<forall>x\<in>set xs. horner cs x = 0" by auto
  then have "length (mul_linear (- inverse x) cs) = Suc (length (x # xs))" by (subst length_mul_linear) auto
  moreover have "horner (mul_linear (- inverse x) cs) y = 0" if "y \<in> set (x # xs)" for y
    using that cs(3) Cons.prems by (auto simp: horner_mul_linear)
  ultimately show ?case using cs(2) by (metis hd_mul_linear)
qed

lemma vanishing_tail:
  fixes xs :: "'a :: field list"
  assumes "0 \<notin> set xs" and "length xs \<le> n"
  shows "\<exists>ds. length ds = n \<and> (\<forall>x\<in>set xs. horner (d # ds) x = 0)"
proof -
  obtain cs where cs: "length cs = Suc (length xs)" "hd cs = d" "\<forall>x\<in>set xs. horner cs x = 0"
    using vanishing_polynomial [OF assms(1)] by blast
  then obtain ds where ds: "cs = d # ds" by (cases cs) auto
  show ?thesis using cs ds assms(2) by (intro exI [of _ "ds @ replicate (n - length xs) 0"]) (auto simp: horner_pad)
qed

lemma of_nat_Rep [simp]: "of_nat (Rep_gf257 a) = a"
  using Rep_gf257 [of a] by (simp flip: Rep_gf257_inject add: Rep_of_nat)

text \<open>A generator that hands out the words of a finite tape; an empty tape gives zeros.\<close>

definition tape_rng :: "u64 list rng" where
  "tape_rng = \<lparr>gen_range = (\<lambda>lo hi g. (lo, g)), fill_bytes = (\<lambda>n g. (None, g)), next_u32 = (\<lambda>g. (0, g)),
     next_u64 = (\<lambda>g. case g of [] \<Rightarrow> (0, []) | v # rest \<Rightarrow> (v, rest))\<rparr>"

text \<open>The random tapes of \<open>M\<close> words, and those among them that suffice for a split, with a word to spare, and give the participants \<open>xs\<close> the shares \<open>seen\<close>.\<close>

definition tapes :: "nat \<Rightarrow> u64 list set" where
  "tapes M = {tape. length tape = M \<and> set tape \<subseteq> {..u64_max}}"

definition explaining_tapes :: "b64 \<Rightarrow> shamir_config \<Rightarrow> nat \<Rightarrow> bytes \<Rightarrow> nat list \<Rightarrow> shamir_share list \<Rightarrow> u64 list set" where
  "explaining_tapes B cfg M secret xs seen = {tape \<in> tapes M. \<exists>shs rest. split_secret B tape_rng secret cfg tape = Some (Ok shs, rest)
     \<and> rest \<noteq> [] \<and> map (\<lambda>x. shs ! (x - 1)) xs = seen}"

text \<open>Adding field elements to the accepted words of a tape, one after the other.\<close>

definition shift_draw :: "nat \<Rightarrow> nat \<Rightarrow> nat" where
  "shift_draw d v = v div 257 * 257 + (v mod 257 + d) mod 257"

fun shift_tape :: "nat list \<Rightarrow> nat list \<Rightarrow> nat list" where
  "shift_tape [] tape = tape"
| "shift_tape (d # ds) [] = []"
| "shift_tape (d # ds) (v # tape) = (if v < field_cut SHAMIR_PRIME then shift_draw d v # shift_tape ds tape else v # shift_tape (d # ds) tape)"

lemma shift_draw_mod: "shift_draw d v mod 257 = (v mod 257 + d) mod 257"
  by (simp add: shift_draw_def)

lemma shift_draw_div: "shift_draw d v div 257 = v div 257"
  by (simp add: shift_draw_def)

lemma shift_draw_cut [simp]: "shift_draw d v < u64_max \<longleftrightarrow> v < u64_max"
proof -
  have "(u64_max :: nat) = u64_max div 257 * 257" by (simp add: u64_max_def)
  then have "v < u64_max \<longleftrightarrow> v div 257 < u64_max div 257" for v :: nat by (metis div_less_iff_less_mult zero_less_numeral)
  then show ?thesis by (simp add: shift_draw_div)
qed

lemma add_mod_cancel: "(a + d) mod 257 = (b + d) mod 257 \<Longrightarrow> a < 257 \<Longrightarrow> b < 257 \<Longrightarrow> a = (b :: nat)"
proof -
  assume "(a + d) mod 257 = (b + d) mod 257" and ab: "a < 257" "b < 257"
  then have "(a + d + 256 * d) mod 257 = (b + d + 256 * d) mod 257" by (metis mod_add_left_eq)
  moreover have "x + d + 256 * d = x + 257 * d" for x by simp
  ultimately have "a mod 257 = b mod 257" by (metis mod_mult_self2)
  with ab show "a = b" by simp
qed

lemma shift_draw_inj: "shift_draw d v = shift_draw d w \<Longrightarrow> v = w"
proof -
  assume e: "shift_draw d v = shift_draw d w"
  then have "v div 257 = w div 257" by (metis shift_draw_div)
  moreover have "(v mod 257 + d) mod 257 = (w mod 257 + d) mod 257" using e by (metis shift_draw_mod)
  then have "v mod 257 = w mod 257" by (rule add_mod_cancel) simp_all
  ultimately show "v = w" by (metis div_mult_mod_eq)
qed

lemma length_shift_tape [simp]: "length (shift_tape ds tape) = length tape"
  by (induction ds tape rule: shift_tape.induct) simp_all

lemma shift_tape_inj: "shift_tape ds a = shift_tape ds b \<Longrightarrow> a = b"
proof (induction ds a arbitrary: b rule: shift_tape.induct)
  case (2 d ds)
  then show ?case by (cases b) (simp_all split: if_splits)
next
  case (3 d ds v tape)
  then obtain w u where b: "b = w # u" by (cases b) (auto split: if_splits)
  have "v < u64_max \<longleftrightarrow> w < u64_max"
    using "3.prems" shift_draw_cut [of d v] shift_draw_cut [of d w] unfolding b by (auto simp: field_cut_prime split: if_splits)
  then show ?case using 3 unfolding b by (auto simp: field_cut_prime split: if_splits dest: shift_draw_inj)
qed simp

lemma shift_tape_bound: "set tape \<subseteq> {..u64_max} \<Longrightarrow> set (shift_tape ds tape) \<subseteq> {..u64_max}"
proof (induction ds tape rule: shift_tape.induct)
  case (3 d ds v tape)
  then show ?case using shift_draw_cut [of d v] by (auto simp: field_cut_prime less_imp_le)
qed simp_all

text \<open>Sampling from the shifted tape gives the shifted coefficients and leaves the same rest.\<close>

lemma sample_tape_Cons:
  "sample_field_element tape_rng p (v # tape) = (if v < field_cut p then Some (v mod p, tape) else sample_field_element tape_rng p tape)"
  by (subst sample_field_element.simps) (simp add: tape_rng_def)

lemma sample_tape_Nil: "sample_field_element tape_rng SHAMIR_PRIME [] = Some (0, [])"
  by (subst sample_field_element.simps) (simp add: tape_rng_def field_cut_prime u64_max_def)

lemma sample_shift:
  "sample_field_element tape_rng SHAMIR_PRIME tape = Some (c, rest) \<Longrightarrow> rest \<noteq> [] \<Longrightarrow>
   sample_field_element tape_rng SHAMIR_PRIME (shift_tape (d # ds) tape) = Some ((c + d) mod 257, shift_tape ds rest)"
  by (induction tape)
     (auto simp: sample_tape_Cons sample_tape_Nil field_cut_prime shift_draw_mod SHAMIR_PRIME_def [symmetric] split: if_splits,
      auto simp: SHAMIR_PRIME_def shift_draw_mod)

lemma sample_rest: "sample_field_element tape_rng SHAMIR_PRIME [] = Some (c, rest) \<Longrightarrow> rest = []"
  by (simp add: sample_tape_Nil)

lemma sample_coeffs_Nil: "sample_coeffs tape_rng n [] = Some (cs, rest) \<Longrightarrow> rest = []"
  by (induction n arbitrary: cs) (auto simp: sample_tape_Nil split: option.splits)

lemma sample_coeffs_shift:
  "sample_coeffs tape_rng n tape = Some (cs, rest) \<Longrightarrow> rest \<noteq> [] \<Longrightarrow> length ds = n \<Longrightarrow>
   length cs = n \<and> sample_coeffs tape_rng n (shift_tape (ds @ es) tape) = Some (map2 (\<lambda>c d. (c + d) mod 257) cs ds, shift_tape es rest)"
proof (induction n arbitrary: tape cs ds)
  case (Suc n)
  then obtain c tape1 cs1 where c: "sample_field_element tape_rng SHAMIR_PRIME tape = Some (c, tape1)"
    "sample_coeffs tape_rng n tape1 = Some (cs1, rest)" "cs = c # cs1" by (auto split: option.splits)
  obtain d ds1 where d: "ds = d # ds1" "length ds1 = n" using Suc.prems(3) by (cases ds) auto
  have "tape1 \<noteq> []" using sample_coeffs_Nil c(2) Suc.prems(2) by blast
  from sample_shift [OF c(1) this] Suc.IH [OF c(2) Suc.prems(2) d(2)] c(3) d(1) show ?case by simp
qed simp

lemma shifted_eval:
  assumes ds: "length cs = length ds" and z: "horner ((of_nat s' - of_nat s) # map of_nat ds) (of_nat x :: gf257) = 0"
  shows "gf_eval (s' # map2 (\<lambda>c d. (c + d) mod 257) cs ds) x 257 = gf_eval (s # cs) x 257"
proof -
  have m: "(of_nat (k mod 257) :: gf257) = of_nat k" for k by (simp add: of_nat_gf257_eq)
  have "map of_nat (map2 (\<lambda>c d. (c + d) mod 257) cs ds) = map2 (+) (map of_nat cs) (map of_nat ds :: gf257 list)"
    using ds by (intro nth_equalityI) (simp_all add: m)
  then have "of_nat (gf_eval (s' # map2 (\<lambda>c d. (c + d) mod 257) cs ds) x 257)
      = horner (of_nat s # map of_nat cs) (of_nat x) + horner ((of_nat s' - of_nat s) # map of_nat ds) (of_nat x :: gf257)"
    using ds by (simp add: gf_eval_horner horner_map2_add algebra_simps)
  also have "\<dots> = of_nat (gf_eval (s # cs) x 257)" using z by (simp add: gf_eval_horner)
  finally show ?thesis using gf_eval_less [of 257 "s' # map2 (\<lambda>c d. (c + d) mod 257) cs ds" x] gf_eval_less [of 257 "s # cs" x]
    by (simp add: of_nat_gf257_eq)
qed

lemma shift_exists:
  assumes "\<forall>x\<in>set xs. 0 < x \<and> x < 257" and "length xs \<le> n"
  shows "\<exists>ds. length ds = n \<and> (\<forall>x\<in>set xs. horner ((of_nat s' - of_nat s) # map of_nat ds) (of_nat x :: gf257) = 0)"
proof -
  have "0 \<notin> set (map of_nat xs :: gf257 list)" using assms(1) of_nat_gf257_eq [of 0] by auto
  from vanishing_tail [OF this, of n "of_nat s' - of_nat s"] assms(2) obtain ds :: "gf257 list" where
    "length ds = n" "\<forall>x\<in>set (map of_nat xs). horner ((of_nat s' - of_nat s) # ds) x = 0" by auto
  then show ?thesis by (intro exI [of _ "map Rep_gf257 ds"]) (simp add: comp_def)
qed

lemma split_rows_Nil: "split_rows tape_rng cfg secret rows [] = Some (rows', rest) \<Longrightarrow> rest = []"
proof (induction secret arbitrary: rows)
  case (Cons b secret)
  then obtain cs t1 where cs: "sample_coeffs tape_rng (threshold cfg - 1) [] = Some (cs, t1)" by (auto split: option.splits)
  with sample_coeffs_Nil have "t1 = []" by blast
  with Cons cs show ?case by auto
qed simp

text \<open>One shift of the tape turns the split of one secret into that of another without changing the rows of the participants in \<open>xs\<close>.\<close>

lemma split_rows_shift:
  assumes xs: "\<forall>x\<in>set xs. 0 < x \<and> x \<le> shares cfg \<and> x < 257" and t: "length xs \<le> threshold cfg - 1"
  shows "length secret' = length secret \<Longrightarrow> \<exists>ds. \<forall>rows rows' tape out rest.
     split_rows tape_rng cfg secret rows tape = Some (out, rest) \<and> rest \<noteq> [] \<and> length rows = shares cfg \<and> length rows' = shares cfg
     \<and> (\<forall>x\<in>set xs. rows ! (x - 1) = rows' ! (x - 1)) \<longrightarrow>
       (\<exists>out'. split_rows tape_rng cfg secret' rows' (shift_tape ds tape) = Some (out', rest)
          \<and> length out = shares cfg \<and> length out' = shares cfg \<and> (\<forall>x\<in>set xs. out ! (x - 1) = out' ! (x - 1)))"
proof (induction secret arbitrary: secret')
  case Nil
  then show ?case by (intro exI [of _ "[]"]) auto
next
  case (Cons b secret)
  then obtain b' sec' where s': "secret' = b' # sec'" "length sec' = length secret" by (cases secret') auto
  from Cons.IH [OF s'(2)] obtain es where es: "\<forall>rows rows' tape out rest.
     split_rows tape_rng cfg secret rows tape = Some (out, rest) \<and> rest \<noteq> [] \<and> length rows = shares cfg \<and> length rows' = shares cfg
     \<and> (\<forall>x\<in>set xs. rows ! (x - 1) = rows' ! (x - 1)) \<longrightarrow>
       (\<exists>out'. split_rows tape_rng cfg sec' rows' (shift_tape es tape) = Some (out', rest)
          \<and> length out = shares cfg \<and> length out' = shares cfg \<and> (\<forall>x\<in>set xs. out ! (x - 1) = out' ! (x - 1)))" by blast
  obtain ds where ds: "length ds = threshold cfg - 1"
    "\<forall>x\<in>set xs. horner ((of_nat (unat b') - of_nat (unat b)) # map of_nat ds) (of_nat x :: gf257) = 0"
    using shift_exists [of xs "threshold cfg - 1" "unat b'" "unat b"] xs t by auto
  show ?case
  proof (intro exI [of _ "ds @ es"] allI impI)
    fix rows rows' tape out rest
    assume a: "split_rows tape_rng cfg (b # secret) rows tape = Some (out, rest) \<and> rest \<noteq> [] \<and> length rows = shares cfg
      \<and> length rows' = shares cfg \<and> (\<forall>x\<in>set xs. rows ! (x - 1) = rows' ! (x - 1))"
    let ?row = "\<lambda>p. map (\<lambda>(x, row). row @ [gf_eval p x SHAMIR_PRIME mod 65536]) \<circ> zip [1..<shares cfg + 1]"
    obtain cs t1 where cs: "sample_coeffs tape_rng (threshold cfg - 1) tape = Some (cs, t1)"
      and r: "split_rows tape_rng cfg secret (?row (unat b # cs) rows) t1 = Some (out, rest)" using a by (auto split: option.splits)
    have "t1 \<noteq> []" using r a split_rows_Nil by blast
    from sample_coeffs_shift [OF cs this ds(1), of es] have cs': "length cs = length ds"
      "sample_coeffs tape_rng (threshold cfg - 1) (shift_tape (ds @ es) tape) = Some (map2 (\<lambda>c d. (c + d) mod 257) cs ds, shift_tape es t1)"
      using ds(1) by simp_all
    have nth: "?row p zs ! (x - 1) = zs ! (x - 1) @ [gf_eval p x 257 mod 65536]" if "x \<in> set xs" "length zs = shares cfg" for p x zs
    proof -
      have "x - 1 < shares cfg" "0 < x" using xs that(1) by fastforce+
      then show ?thesis using that(2) by (simp add: SHAMIR_PRIME_def del: upt_Suc)
    qed
    have "\<forall>x\<in>set xs. ?row (unat b # cs) rows ! (x - 1) = ?row (unat b' # map2 (\<lambda>c d. (c + d) mod 257) cs ds) rows' ! (x - 1)"
    proof
      fix x assume x: "x \<in> set xs"
      have "gf_eval (unat b' # map2 (\<lambda>c d. (c + d) mod 257) cs ds) x 257 = gf_eval (unat b # cs) x 257"
        using ds(2) x by (intro shifted_eval [OF cs'(1)]) blast
      with a x nth [OF x, of rows] nth [OF x, of rows'] show "?row (unat b # cs) rows ! (x - 1) = ?row (unat b' # map2 (\<lambda>c d. (c + d) mod 257) cs ds) rows' ! (x - 1)"
        by simp
    qed
    moreover have "length (?row p zs) = shares cfg" if "length zs = shares cfg" for p zs using that by simp
    ultimately have "\<exists>out'. split_rows tape_rng cfg sec' (?row (unat b' # map2 (\<lambda>c d. (c + d) mod 257) cs ds) rows') (shift_tape es t1) = Some (out', rest)
        \<and> length out = shares cfg \<and> length out' = shares cfg \<and> (\<forall>x\<in>set xs. out ! (x - 1) = out' ! (x - 1))"
      using es [rule_format, of "?row (unat b # cs) rows" t1 out rest "?row (unat b' # map2 (\<lambda>c d. (c + d) mod 257) cs ds) rows'"] r a by blast
    then show "\<exists>out'. split_rows tape_rng cfg secret' rows' (shift_tape (ds @ es) tape) = Some (out', rest)
        \<and> length out = shares cfg \<and> length out' = shares cfg \<and> (\<forall>x\<in>set xs. out ! (x - 1) = out' ! (x - 1))"
      using cs'(2) by (simp add: s'(1))
  qed
qed

lemma explaining_tapes_shift:
  assumes cfg: "sc_enabled cfg" "threshold cfg \<le> shares cfg" "shares cfg \<le> 255"
    and xs: "set xs \<subseteq> {1..shares cfg}" "length xs < threshold cfg" and n: "length secret' = length secret" "length secret \<le> MAX_SHAMIR_SECRET_BYTES"
  shows "\<exists>ds. shift_tape ds ` explaining_tapes B cfg M secret xs seen \<subseteq> explaining_tapes B cfg M secret' xs seen"
proof -
  have x: "\<forall>x\<in>set xs. 0 < x \<and> x \<le> shares cfg \<and> x < 257" using xs(1) cfg(3) by force
  have t: "length xs \<le> threshold cfg - 1" using xs(2) by simp
  obtain ds where ds: "\<forall>rows rows' tape out rest.
     split_rows tape_rng cfg secret rows tape = Some (out, rest) \<and> rest \<noteq> [] \<and> length rows = shares cfg \<and> length rows' = shares cfg
     \<and> (\<forall>x\<in>set xs. rows ! (x - 1) = rows' ! (x - 1)) \<longrightarrow>
       (\<exists>out'. split_rows tape_rng cfg secret' rows' (shift_tape ds tape) = Some (out', rest)
          \<and> length out = shares cfg \<and> length out' = shares cfg \<and> (\<forall>x\<in>set xs. out ! (x - 1) = out' ! (x - 1)))"
    using split_rows_shift [OF x t n(1)] by (elim exE)
  let ?share = "\<lambda>rows. map (\<lambda>(idx, row). \<lparr>share_index = (idx + 1) mod 256, payload_b64 = encode_u16_array B row\<rparr>) (enumerate 0 rows)"
  have ok: "split_secret B tape_rng sec cfg tape = Some (Ok shs, rest) \<longleftrightarrow>
      (\<exists>rows. split_rows tape_rng cfg sec (replicate (shares cfg) []) tape = Some (rows, rest) \<and> shs = ?share rows)"
    if "length sec = length secret" for sec tape shs rest
    using that cfg xs(2) n(2) by (auto simp: split_secret_def split: option.splits)
  have "shift_tape ds tape \<in> explaining_tapes B cfg M secret' xs seen" if e: "tape \<in> explaining_tapes B cfg M secret xs seen" for tape
  proof -
    from e obtain rows rest where r: "split_rows tape_rng cfg secret (replicate (shares cfg) []) tape = Some (rows, rest)" "rest \<noteq> []"
      "map (\<lambda>x. ?share rows ! (x - 1)) xs = seen" by (auto simp: explaining_tapes_def ok)
    from ds [rule_format, of "replicate (shares cfg) []" tape rows rest "replicate (shares cfg) []"] r(1,2) obtain rows' where r': "split_rows tape_rng cfg secret' (replicate (shares cfg) []) (shift_tape ds tape) = Some (rows', rest)"
      "length rows = shares cfg" "length rows' = shares cfg" "\<forall>x\<in>set xs. rows ! (x - 1) = rows' ! (x - 1)" by auto
    have "?share rows ! (x - 1) = ?share rows' ! (x - 1)" if "x \<in> set xs" for x
    proof -
      have "x - 1 < shares cfg" using that xs(1) by fastforce
      then show ?thesis using r'(2-4) that by (simp add: nth_enumerate_eq)
    qed
    then have "map (\<lambda>x. ?share rows' ! (x - 1)) xs = seen" using r(3) by auto
    moreover have "shift_tape ds tape \<in> tapes M" using e shift_tape_bound by (auto simp: explaining_tapes_def tapes_def)
    ultimately show ?thesis using r'(1) r(2) n(1) by (auto simp: explaining_tapes_def ok)
  qed
  then show ?thesis by blast
qed

lemma explaining_tapes_le:
  assumes "sc_enabled cfg" "threshold cfg \<le> shares cfg" "shares cfg \<le> 255"
    and "set xs \<subseteq> {1..shares cfg}" "length xs < threshold cfg" and "length secret' = length secret" "length secret \<le> MAX_SHAMIR_SECRET_BYTES"
  shows "card (explaining_tapes B cfg M secret xs seen) \<le> card (explaining_tapes B cfg M secret' xs seen)"
proof -
  obtain ds where "shift_tape ds ` explaining_tapes B cfg M secret xs seen \<subseteq> explaining_tapes B cfg M secret' xs seen"
    using explaining_tapes_shift [OF assms] by blast
  moreover have "inj_on (shift_tape ds) A" for A by (auto simp: inj_on_def dest: shift_tape_inj)
  moreover have "finite (tapes M)"
    by (rule finite_subset [OF _ finite_lists_length_eq [of "{..u64_max}" M]]) (auto simp: tapes_def)
  then have "finite (explaining_tapes B cfg M secret' xs seen)" by (rule rev_finite_subset) (auto simp: explaining_tapes_def)
  ultimately show ?thesis by (meson card_inj_on_le)
qed

text \<open>C35. Fewer shares than the threshold say nothing about the secret.  Let \<open>split_secret\<close> draw its 64-bit words from a tape of any
  number of uniformly random words.  Whatever shares fewer than \<open>threshold\<close> participants hold, the number of tapes on
  which the split hands them exactly these shares is the same for every secret of the same length: rejected words, the
  reduction into the field and fresh coefficients for every byte included, all secrets are equally likely.\<close>

theorem shamir_secrecy:
  assumes "sc_enabled cfg" and "validate_shamir_config cfg = Ok ()"
    and "set xs \<subseteq> {1..shares cfg}" and "length xs < threshold cfg"
    and "length secret' = length secret" and "length secret \<le> MAX_SHAMIR_SECRET_BYTES"
  shows "card {tape. length tape = M \<and> set tape \<subseteq> {..u64_max} \<and> (\<exists>shs rest. split_secret B tape_rng secret cfg tape = Some (Ok shs, rest)
           \<and> rest \<noteq> [] \<and> map (\<lambda>x. shs ! (x - 1)) xs = seen)}
       = card {tape. length tape = M \<and> set tape \<subseteq> {..u64_max} \<and> (\<exists>shs rest. split_secret B tape_rng secret' cfg tape = Some (Ok shs, rest)
           \<and> rest \<noteq> [] \<and> map (\<lambda>x. shs ! (x - 1)) xs = seen)}"
proof -
  have p: "threshold cfg \<le> shares cfg" "shares cfg \<le> 255" using assms(1,2) by (auto simp: validate_shamir_config_def split: if_splits)
  have "card (explaining_tapes B cfg M secret xs seen) = card (explaining_tapes B cfg M secret' xs seen)"
    using assms p by (intro order_antisym explaining_tapes_le) simp_all
  then show ?thesis by (simp add: explaining_tapes_def tapes_def conj_assoc)
qed

text \<open>With threshold 2, the tape \<open>3, 4, 5\<close> gives participant 1 the values 10 and 204 of the secret \<open>7, 200\<close>; as many tapes give
  them for \<open>0, 1\<close>.\<close>

theorem shamir_secrecy_witness:
  "let cfg = \<lparr>sc_enabled = True, threshold = 2, shares = 2\<rparr>; seen = [\<lparr>share_index = 1, payload_b64 = encode_u16_array plain_b64 [10, 204]\<rparr>];
       explains = (\<lambda>secret. {tape. length tape = 3 \<and> set tape \<subseteq> {..u64_max} \<and> (\<exists>shs rest. split_secret plain_b64 tape_rng secret cfg tape = Some (Ok shs, rest)
           \<and> rest \<noteq> [] \<and> map (\<lambda>x. shs ! (x - 1)) [1] = seen)})
   in card (explains [7, 200]) = card (explains [0, 1]) \<and> [3, 4, 5] \<in> explains [7, 200]"
proof -
  have r2: "replicate 2 [] = [[], [] :: nat list]" by (simp add: numeral_2_eq_2)
  have "split_secret plain_b64 tape_rng [7, 200] \<lparr>sc_enabled = True, threshold = 2, shares = 2\<rparr> [3, 4, 5]
      = Some (Ok [\<lparr>share_index = 1, payload_b64 = encode_u16_array plain_b64 [10, 204]\<rparr>, \<lparr>share_index = 2, payload_b64 = encode_u16_array plain_b64 [13, 208]\<rparr>], [5])"
    unfolding split_secret_def
    by (simp add: shamir_limits sample_tape_Cons field_cut_def u64_max_def gf_eval_def SHAMIR_PRIME_def r2 upt_rec [of "Suc 0"] upt_rec [of "Suc (Suc 0)"] Let_def)
  then show ?thesis
    using shamir_secrecy [of "\<lparr>sc_enabled = True, threshold = 2, shares = 2\<rparr>" "[1]" "[0, 1]" "[7, 200]" 3 plain_b64
        "[\<lparr>share_index = 1, payload_b64 = encode_u16_array plain_b64 [10, 204]\<rparr>]"]
    by (simp add: Let_def validate_shamir_config_def shamir_limits u64_max_def)
qed

end
