(* ===== verification/Roadmap.thy ===== *)
theory Roadmap
  imports Identity Shamir
begin

text \<open>
  The adapter configuration and the spool paths of \<open>shph-core/src/roadmap.rs\<close>.  SHA-256 and hex come from the
  cryptographic suite; a path is its text with the joining rule of Unix paths.
\<close>

section \<open>Definitions\<close>

definition MAX_ADAPTER_POLL_INTERVAL_MS :: u64 where "MAX_ADAPTER_POLL_INTERVAL_MS = 60000"
definition MAX_DATA_MULE_TOTAL_BYTES :: u64 where "MAX_DATA_MULE_TOTAL_BYTES = 8 * 1024 * 1024"
definition MAX_DATA_MULE_AGE_MS :: u64 where "MAX_DATA_MULE_AGE_MS = 30 * 24 * 60 * 60 * 1000"

record offline_mesh_config =
  om_node_id :: string
  om_peer_id :: string
  om_spool_dir :: string
  om_poll_interval_ms :: u64
  om_max_idle_entries :: u32

record data_mule_config =
  dm_inbox_dir :: string
  dm_outbox_dir :: string
  dm_poll_interval_ms :: u64
  dm_max_file_bytes :: u64
  dm_max_total_bytes :: u64
  dm_max_age_ms :: u64

datatype transport_adapter_config = Tcp | OfflineMesh offline_mesh_config | DataMule data_mule_config

fun as_offline_mesh :: "transport_adapter_config \<Rightarrow> offline_mesh_config option" where
  "as_offline_mesh (OfflineMesh c) = Some c"
| "as_offline_mesh _ = None"

fun as_data_mule :: "transport_adapter_config \<Rightarrow> data_mule_config option" where
  "as_data_mule (DataMule c) = Some c"
| "as_data_mule _ = None"

definition poll_interval_ok :: "u64 \<Rightarrow> bool" where
  "poll_interval_ok ms \<longleftrightarrow> \<not> (ms = 0 \<or> MAX_ADAPTER_POLL_INTERVAL_MS < ms)"

fun transport_adapter_validate :: "transport_adapter_config \<Rightarrow> unit result" where
  "transport_adapter_validate Tcp = Ok ()"
| "transport_adapter_validate (OfflineMesh c) =
     (if str_trim (om_node_id c) = [] \<or> str_trim (om_peer_id c) = [] then Err (Config ''offline-mesh node_id/peer_id required'')
      else if om_node_id c = om_peer_id c then Err (Config ''offline-mesh node_id and peer_id must differ'')
      else if str_trim (om_spool_dir c) = [] then Err (Config ''offline-mesh spool_dir required'')
      else if \<not> poll_interval_ok (om_poll_interval_ms c) then Err (Config ''poll interval must be between 1ms and 60000ms'')
      else if om_max_idle_entries c = 0 \<or> 65536 < om_max_idle_entries c
        then Err (Config ''offline-mesh max_idle_entries must be between 1 and 65536'')
      else Ok ())"
| "transport_adapter_validate (DataMule c) =
     (if str_trim (dm_inbox_dir c) = [] \<or> str_trim (dm_outbox_dir c) = [] then Err (Config ''data-mule inbox and outbox required'')
      else if dm_inbox_dir c = dm_outbox_dir c then Err (Config ''data-mule inbox and outbox must differ'')
      else if \<not> poll_interval_ok (dm_poll_interval_ms c) then Err (Config ''poll interval must be between 1ms and 60000ms'')
      else if dm_max_file_bytes c = 0 then Err (Config ''data-mule max_file_bytes must be greater than zero'')
      else if 256 * 1024 < dm_max_file_bytes c then Err (Config ''data-mule max_file_bytes exceeds the 256 KiB safety cap'')
      else if dm_max_total_bytes c < dm_max_file_bytes c then Err (Config ''data-mule max_total_bytes must be at least max_file_bytes'')
      else if MAX_DATA_MULE_TOTAL_BYTES < dm_max_total_bytes c then Err (Config ''data-mule max_total_bytes exceeds the 8 MiB safety cap'')
      else if dm_max_age_ms c = 0 then Err (Config ''data-mule max_age_ms must be greater than zero'')
      else if MAX_DATA_MULE_AGE_MS < dm_max_age_ms c then Err (Config ''data-mule max_age_ms exceeds the 30 day safety cap'')
      else Ok ())"

datatype identity_provider_config =
    Software
  | HsmPkcs11 (module_path: string) (token_label: string) (hsm_slot: u64) (key_label: string)
  | YubikeyPiv (piv_slot: string) (piv_pin: "string option")
  | TpmBinding (aik_key_handle: string) (pcr_profile: "string option")

fun identity_provider_validate :: "identity_provider_config \<Rightarrow> unit result" where
  "identity_provider_validate Software = Ok ()"
| "identity_provider_validate (HsmPkcs11 mp tok slot key) =
     (if str_trim mp = [] \<or> str_trim tok = [] \<or> str_trim key = []
        then Err (Config ''HSM PKCS#11 config requires module_path, token_label, and key_label'')
      else Err (Unsupported ''HSM PKCS#11 backend unavailable; configure software identity until a hardware backend is installed''))"
| "identity_provider_validate (YubikeyPiv slot pin) =
     (if str_trim slot = [] then Err (Config ''YubikeyPiv slot required'')
      else Err (Unsupported ''YubiKey/PIV backend unavailable; configure software identity until hardware integration is installed''))"
| "identity_provider_validate (TpmBinding handle pcr) =
     (if str_trim handle = [] then Err (Config ''TPM aik_key_handle required'')
      else Err (Unsupported ''TPM binding backend unavailable; configure software identity until hardware integration is installed''))"

record ratchet_audit_config =
  rac_journal_path :: string
  rac_max_entries :: usize

record roadmap_config =
  rm_transport :: transport_adapter_config
  rm_identity :: identity_provider_config
  rm_shamir :: shamir_config
  rm_ratchet_audit :: ratchet_audit_config

definition validate_roadmap :: "roadmap_config \<Rightarrow> unit result" where
  "validate_roadmap config =
     (case transport_adapter_validate (rm_transport config) of Err e \<Rightarrow> Err e | Ok _ \<Rightarrow>
     (case identity_provider_validate (rm_identity config) of Err e \<Rightarrow> Err e | Ok _ \<Rightarrow>
     (case validate_shamir_config (rm_shamir config) of Err e \<Rightarrow> Err e | Ok _ \<Rightarrow>
        if str_trim (rac_journal_path (rm_ratchet_audit config)) = []
          then Err (Config ''ratchet audit journal_path must not be empty'')
        else if rac_max_entries (rm_ratchet_audit config) = 0
          then Err (Config ''ratchet audit max_entries must be greater than zero'')
        else Ok ())))"

text \<open>\<open>input.chars()\<close> has one item per byte that is not a UTF-8 continuation byte; only ASCII items are kept as
  they are.\<close>

definition path_char_ok :: "char \<Rightarrow> bool" where
  "path_char_ok ch \<longleftrightarrow> (let n = (of_char ch :: nat) in
     (48 \<le> n \<and> n \<le> 57) \<or> (65 \<le> n \<and> n \<le> 90) \<or> (97 \<le> n \<and> n \<le> 122)) \<or> ch = CHR ''-'' \<or> ch = CHR ''_''"

definition is_continuation :: "char \<Rightarrow> bool" where
  "is_continuation ch \<longleftrightarrow> 128 \<le> (of_char ch :: nat) \<and> (of_char ch :: nat) < 192"

definition readable_prefix :: "string \<Rightarrow> string" where
  "readable_prefix input =
     (let readable = take 24 (map (\<lambda>ch. if path_char_ok ch then ch else CHR ''_'') (filter (\<lambda>ch. \<not> is_continuation ch) input))
      in if readable = [] then ''_'' else readable)"

definition path_component_message :: "string \<Rightarrow> bytes" where
  "path_component_message input = as_bytes ''shph/path-component/v1'' @ [0] @ be_bytes 8 (length input) @ as_bytes input"

definition safe_path_component :: "suite \<Rightarrow> string \<Rightarrow> string" where
  "safe_path_component S input =
     readable_prefix input @ ''-'' @ hex_enc S (take 16 (sha256 S (path_component_message input)))"

definition path_join :: "string \<Rightarrow> string \<Rightarrow> string" where
  "path_join base part =
     (if part \<noteq> [] \<and> hd part = CHR ''/'' then part
      else if base = [] \<or> last base = CHR ''/'' then base @ part
      else base @ ''/'' @ part)"

definition offline_mesh_envelope_path :: "suite \<Rightarrow> string \<Rightarrow> string \<Rightarrow> string" where
  "offline_mesh_envelope_path S base_dir session_id =
     path_join base_dir (''shph-session-'' @ safe_path_component S session_id @ ''.json'')"

definition data_mule_inbox_path :: "suite \<Rightarrow> string \<Rightarrow> string \<Rightarrow> string \<Rightarrow> string" where
  "data_mule_inbox_path S inbox_dir peer envelope_id =
     path_join (path_join inbox_dir (safe_path_component S peer)) (safe_path_component S envelope_id @ ''.shph'')"

definition offline_session_id :: "suite \<Rightarrow> string \<Rightarrow> string \<Rightarrow> string" where
  "offline_session_id S node_a node_b =
     (let a = safe_path_component S node_a; b = safe_path_component S node_b in
      if lex_le (as_bytes a) (as_bytes b) then a @ ''--'' @ b else b @ ''--'' @ a)"


section \<open>Facts about components\<close>

text \<open>The documented behaviour of \<open>hex::encode\<close>: two lower-case hexadecimal digits per byte.\<close>

definition hex_digit :: "char \<Rightarrow> bool" where
  "hex_digit ch \<longleftrightarrow> ch \<in> set ''0123456789abcdef''"

definition hex_ok :: "suite \<Rightarrow> bool" where
  "hex_ok S \<longleftrightarrow> (\<forall>b. length (hex_enc S b) = 2 * length b \<and> (\<forall>ch\<in>set (hex_enc S b). hex_digit ch)) \<and> inj (hex_enc S)"

lemma hex_digit_path_char: "hex_digit ch \<Longrightarrow> path_char_ok ch"
  by (auto simp: hex_digit_def path_char_ok_def)

lemma readable_prefix_ok: "\<forall>ch\<in>set (readable_prefix input). path_char_ok ch" "readable_prefix input \<noteq> []" "length (readable_prefix input) \<le> 24"
  by (auto simp: readable_prefix_def Let_def path_char_ok_def dest: in_set_takeD)

lemma component_ok:
  assumes "suite_ok S" and "hex_ok S"
  shows "\<forall>ch\<in>set (safe_path_component S input). path_char_ok ch" and "length (safe_path_component S input) \<le> 57"
    and "safe_path_component S input \<noteq> []"
proof -
  let ?h = "hex_enc S (take 16 (sha256 S (path_component_message input)))"
  have h: "length ?h = 32" "\<forall>ch\<in>set ?h. hex_digit ch"
    using assms suite_okD(9) [OF assms(1)] by (simp_all add: hex_ok_def)
  then show "\<forall>ch\<in>set (safe_path_component S input). path_char_ok ch"
    using readable_prefix_ok(1) [of input] hex_digit_path_char by (auto simp: safe_path_component_def path_char_ok_def)
  show "length (safe_path_component S input) \<le> 57" "safe_path_component S input \<noteq> []"
    using readable_prefix_ok(3) [of input] h(1) by (simp_all add: safe_path_component_def)
qed

lemma path_component_message_inj:
  "length a \<le> u64_max \<Longrightarrow> length b \<le> u64_max \<Longrightarrow> path_component_message a = path_component_message b \<longleftrightarrow> a = b"
  by (auto simp: path_component_message_def as_bytes_inj)

lemma component_collision:
  assumes S: "suite_ok S" "hex_ok S" and eq: "safe_path_component S a = safe_path_component S b"
  shows "take 16 (sha256 S (path_component_message a)) = take 16 (sha256 S (path_component_message b))"
proof -
  have len: "length (hex_enc S (take 16 (sha256 S m))) = 32" for m
    using S suite_okD(9) [OF S(1)] by (simp add: hex_ok_def)
  have "hex_enc S (take 16 (sha256 S (path_component_message a))) = hex_enc S (take 16 (sha256 S (path_component_message b)))"
    using eq len by (simp add: safe_path_component_def append_eq_append_conv flip: append_assoc append_Cons)
  then show ?thesis using S(2) by (auto simp: hex_ok_def dest: injD)
qed

section \<open>Properties\<close>

text \<open>Spool paths are confined and do not alias.  Whatever the peer and envelope names are, the data-mule path is the
  inbox directory, one component and one file name below it, made of letters, digits, dashes and underscores only, so
  that no name escapes the inbox; two different names share a component only when SHA-256, cut to
  128 bits, collides on their encodings; and both ends of an offline session compute the same session identifier.\<close>

lemma spool_paths_confined:
  assumes S: "suite_ok S" "hex_ok S" and base: "inbox \<noteq> []" "last inbox \<noteq> CHR ''/''"
  shows "(\<exists>dir fl. data_mule_inbox_path S inbox peer env = inbox @ ''/'' @ dir @ ''/'' @ fl @ ''.shph''
        \<and> (\<forall>ch\<in>set (dir @ fl). path_char_ok ch) \<and> dir \<noteq> [] \<and> fl \<noteq> [] \<and> length dir \<le> 57 \<and> length fl \<le> 57)
     \<and> (length a \<le> u64_max \<and> length b \<le> u64_max \<and> a \<noteq> b \<and> safe_path_component S a = safe_path_component S b \<longrightarrow>
          (\<exists>m m'. m \<noteq> m' \<and> take 16 (sha256 S m) = take 16 (sha256 S m')))
     \<and> offline_session_id S a b = offline_session_id S b a"
proof (intro conjI impI)
  let ?d = "safe_path_component S peer" and ?f = "safe_path_component S env"
  have slash: "\<not> path_char_ok CHR ''/''" by (simp add: path_char_ok_def)
  have hd: "hd x \<noteq> CHR ''/''" if "\<forall>ch\<in>set x. path_char_ok ch" "x \<noteq> []" for x using that slash by (metis hd_in_set)
  have last: "last ?d \<noteq> CHR ''/''" using component_ok(1,3) [OF S] slash by (metis last_in_set)
  have "data_mule_inbox_path S inbox peer env = inbox @ ''/'' @ ?d @ ''/'' @ ?f @ ''.shph''"
    using base hd [OF component_ok(1,3) [OF S]] last component_ok(3) [OF S]
    by (simp add: data_mule_inbox_path_def path_join_def)
  then show "\<exists>dir fl. data_mule_inbox_path S inbox peer env = inbox @ ''/'' @ dir @ ''/'' @ fl @ ''.shph''
        \<and> (\<forall>ch\<in>set (dir @ fl). path_char_ok ch) \<and> dir \<noteq> [] \<and> fl \<noteq> [] \<and> length dir \<le> 57 \<and> length fl \<le> 57"
    using component_ok [OF S] by (intro exI [of _ ?d] exI [of _ ?f]) auto
next
  assume "length a \<le> u64_max \<and> length b \<le> u64_max \<and> a \<noteq> b \<and> safe_path_component S a = safe_path_component S b"
  then show "\<exists>m m'. m \<noteq> m' \<and> take 16 (sha256 S m) = take 16 (sha256 S m')"
    using component_collision [OF S] path_component_message_inj [of a b] by blast
next
  show "offline_session_id S a b = offline_session_id S b a"
    using lex_le_total [of "as_bytes (safe_path_component S a)" "as_bytes (safe_path_component S b)"]
      lex_le_antisym [of "as_bytes (safe_path_component S a)" "as_bytes (safe_path_component S b)"]
    by (auto simp: offline_session_id_def Let_def as_bytes_inj)
qed

definition hex_lower :: "bytes \<Rightarrow> string" where
  "hex_lower bs = concat (map (\<lambda>b. [''0123456789abcdef'' ! (unat b div 16), ''0123456789abcdef'' ! (unat b mod 16)]) bs)"


lemma hex_lower_inj: "hex_lower a = hex_lower b \<Longrightarrow> a = b"
proof (induction a arbitrary: b)
  case Nil
  then show ?case by (cases b) (simp_all add: hex_lower_def)
next
  case (Cons x a)
  then obtain y b' where b: "b = y # b'" by (cases b) (simp_all add: hex_lower_def)
  have dig: "i = j" if "''0123456789abcdef'' ! i = ''0123456789abcdef'' ! j" "i < 16" "j < 16" for i j
    using that nth_eq_iff_index_eq [of "''0123456789abcdef''" i j] by simp
  have "unat x < 256" "unat y < 256" using unat_byte_lt by auto
  moreover have "''0123456789abcdef'' ! (unat x div 16) = ''0123456789abcdef'' ! (unat y div 16)"
    "''0123456789abcdef'' ! (unat x mod 16) = ''0123456789abcdef'' ! (unat y mod 16)" "hex_lower a = hex_lower b'"
    using Cons.prems by (simp_all add: b hex_lower_def)
  ultimately have "unat x div 16 = unat y div 16" "unat x mod 16 = unat y mod 16" "a = b'"
    using dig Cons.IH by (auto simp: less_mult_imp_div_less)
  then show ?case using b by (metis div_mult_mod_eq word_unat_eq_iff)
qed

lemma hex_lower_ok: "hex_ok (plain_suite\<lparr>hex_enc := hex_lower\<rparr>)"
proof -
  have "''0123456789abcdef'' ! i \<in> set ''0123456789abcdef''" if "i < 16" for i using that by (intro nth_mem) simp
  then have "hex_digit (''0123456789abcdef'' ! (unat x div 16))" "hex_digit (''0123456789abcdef'' ! (unat x mod 16))" for x :: byte
    unfolding hex_digit_def using unat_byte_lt [of x] by (simp_all only: less_mult_imp_div_less [of "unat x" 16 16] mod_less_divisor)
  then have "length (hex_lower b) = 2 * length b" "\<forall>ch\<in>set (hex_lower b). hex_digit ch" for b
    by (induction b) (auto simp: hex_lower_def)
  then show ?thesis using hex_lower_inj by (simp add: hex_ok_def inj_def)
qed

end
