(* ===== verification/Metrics.thy ===== *)
theory Metrics
  imports Shph_Prelude "HOL-Library.Multiset"
begin

text \<open>
  The counters of \<open>shph-core/src/metrics.rs\<close>.  A collector is the record of its nine atomics, with the fields of
  \<open>MetricsSnapshot\<close>; each call of an \<open>inc_\<close> method is one atomic update per counter it names.
\<close>

section \<open>Definitions\<close>

record metrics =
  m_bytes_sent :: u64
  m_bytes_recv :: u64
  m_packets_sent :: u64
  m_packets_recv :: u64
  m_errors :: u64
  m_malformed_packets :: u64
  m_replay_drops :: u64
  m_timeouts :: u64
  m_oversized_packets :: u64

definition metrics_zero :: metrics where
  "metrics_zero = \<lparr>m_bytes_sent = 0, m_bytes_recv = 0, m_packets_sent = 0, m_packets_recv = 0, m_errors = 0,
     m_malformed_packets = 0, m_replay_drops = 0, m_timeouts = 0, m_oversized_packets = 0\<rparr>"

abbreviation saturating :: "u64 \<Rightarrow> u64 \<Rightarrow> u64" where "saturating \<equiv> sat_add u64_max"

definition inc_bytes_sent :: "usize \<Rightarrow> metrics \<Rightarrow> metrics" where
  "inc_bytes_sent n m = m\<lparr>m_bytes_sent := saturating (m_bytes_sent m) n, m_packets_sent := saturating (m_packets_sent m) 1\<rparr>"

definition inc_bytes_recv :: "usize \<Rightarrow> metrics \<Rightarrow> metrics" where
  "inc_bytes_recv n m = m\<lparr>m_bytes_recv := saturating (m_bytes_recv m) n, m_packets_recv := saturating (m_packets_recv m) 1\<rparr>"

definition inc_error :: "metrics \<Rightarrow> metrics" where
  "inc_error m = m\<lparr>m_errors := saturating (m_errors m) 1\<rparr>"

definition inc_malformed_packet :: "metrics \<Rightarrow> metrics" where
  "inc_malformed_packet m = m\<lparr>m_malformed_packets := saturating (m_malformed_packets m) 1\<rparr>"

definition inc_replay_drop :: "metrics \<Rightarrow> metrics" where
  "inc_replay_drop m = m\<lparr>m_replay_drops := saturating (m_replay_drops m) 1\<rparr>"

definition inc_timeout :: "metrics \<Rightarrow> metrics" where
  "inc_timeout m = m\<lparr>m_timeouts := saturating (m_timeouts m) 1\<rparr>"

definition inc_oversized_packet :: "metrics \<Rightarrow> metrics" where
  "inc_oversized_packet m = m\<lparr>m_oversized_packets := saturating (m_oversized_packets m) 1\<rparr>"

definition delta_since :: "metrics \<Rightarrow> metrics \<Rightarrow> metrics" where
  "delta_since now earlier =
     \<lparr>m_bytes_sent = m_bytes_sent now - m_bytes_sent earlier, m_bytes_recv = m_bytes_recv now - m_bytes_recv earlier,
      m_packets_sent = m_packets_sent now - m_packets_sent earlier, m_packets_recv = m_packets_recv now - m_packets_recv earlier,
      m_errors = m_errors now - m_errors earlier, m_malformed_packets = m_malformed_packets now - m_malformed_packets earlier,
      m_replay_drops = m_replay_drops now - m_replay_drops earlier, m_timeouts = m_timeouts now - m_timeouts earlier,
      m_oversized_packets = m_oversized_packets now - m_oversized_packets earlier\<rparr>"

definition total_bytes :: "metrics \<Rightarrow> u64" where
  "total_bytes m = saturating (m_bytes_sent m) (m_bytes_recv m)"

definition total_packets :: "metrics \<Rightarrow> u64" where
  "total_packets m = saturating (m_packets_sent m) (m_packets_recv m)"

definition error_count :: "metrics \<Rightarrow> u64" where
  "error_count m = saturating (saturating (saturating (saturating (m_errors m) (m_malformed_packets m)) (m_replay_drops m))
     (m_timeouts m)) (m_oversized_packets m)"

definition has_errors :: "metrics \<Rightarrow> bool" where
  "has_errors m \<longleftrightarrow> error_count m \<noteq> 0"

section \<open>Runs\<close>

datatype metric_event = Sent usize | Recv usize | Error | Malformed | ReplayDrop | TimedOut | Oversized

fun count_event :: "metric_event \<Rightarrow> metrics \<Rightarrow> metrics" where
  "count_event (Sent n) = inc_bytes_sent n"
| "count_event (Recv n) = inc_bytes_recv n"
| "count_event Error = inc_error"
| "count_event Malformed = inc_malformed_packet"
| "count_event ReplayDrop = inc_replay_drop"
| "count_event TimedOut = inc_timeout"
| "count_event Oversized = inc_oversized_packet"

lemmas count_defs = inc_bytes_sent_def inc_bytes_recv_def inc_error_def inc_malformed_packet_def inc_replay_drop_def
  inc_timeout_def inc_oversized_packet_def

fun sent_bytes :: "metric_event \<Rightarrow> nat" where
  "sent_bytes (Sent n) = n" | "sent_bytes _ = 0"

fun recv_bytes :: "metric_event \<Rightarrow> nat" where
  "recv_bytes (Recv n) = n" | "recv_bytes _ = 0"

fun is_sent :: "metric_event \<Rightarrow> bool" where
  "is_sent (Sent _) = True" | "is_sent _ = False"

fun is_failure :: "metric_event \<Rightarrow> bool" where
  "is_failure (Sent _) = False" | "is_failure (Recv _) = False" | "is_failure _ = True"

lemma sat_add_min: "a \<le> m \<Longrightarrow> sat_add m a b = min m (a + b)"
  by (simp add: sat_add_def)

lemma saturating_fold:
  assumes f: "\<And>e m. c (count_event e m) = saturating (c m) (w e)" and start: "c m0 \<le> u64_max"
  shows "c (fold count_event es m0) = min u64_max (c m0 + (\<Sum>e\<leftarrow>es. w e))"
  using start by (induction es arbitrary: m0) (auto simp: f sat_add_def min_def)

lemma saturating_zero [simp]: "a \<le> u64_max \<Longrightarrow> saturating a 0 = a"
  by (simp add: sat_add_def)

text \<open>Every counter of a reachable collector stays in range.\<close>

definition metrics_ok :: "metrics \<Rightarrow> bool" where
  "metrics_ok m \<longleftrightarrow> (\<forall>c\<in>{m_bytes_sent, m_bytes_recv, m_packets_sent, m_packets_recv, m_errors, m_malformed_packets,
      m_replay_drops, m_timeouts, m_oversized_packets}. c m \<le> u64_max)"

lemma count_event_ok: "metrics_ok m \<Longrightarrow> metrics_ok (count_event e m)"
  by (cases e) (simp_all add: metrics_ok_def count_defs sat_add_le)

lemma counters_run:
  assumes "metrics_ok m"
  shows "m_bytes_sent (fold count_event es m) = min u64_max (m_bytes_sent m + (\<Sum>e\<leftarrow>es. sent_bytes e))
    \<and> m_bytes_recv (fold count_event es m) = min u64_max (m_bytes_recv m + (\<Sum>e\<leftarrow>es. recv_bytes e))
    \<and> m_packets_sent (fold count_event es m) = min u64_max (m_packets_sent m + length (filter is_sent es))
    \<and> error_count (fold count_event es m) = min u64_max (error_count m + length (filter is_failure es))"
  using assms
proof (induction es arbitrary: m)
  case Nil
  then show ?case by (simp add: metrics_ok_def error_count_def sat_add_le min_absorb2)
next
  case (Cons e es)
  have "error_count (count_event e m) = min u64_max (error_count m + (if is_failure e then 1 else 0))"
    using Cons.prems by (cases e) (simp_all add: error_count_def count_defs sat_add_min metrics_ok_def min_def)
  then show ?case using Cons.IH [OF count_event_ok [OF Cons.prems, of e]] Cons.prems
    by (cases e) (simp_all add: count_defs sat_add_min metrics_ok_def min_def)
qed

section \<open>Properties\<close>

text \<open>The counters are exact up to saturation and independent of the order in which threads count.  After any sequence of
  events the byte and packet counters and the total error count are the true sums, capped at the largest
  64-bit value; two interleavings of the same events give the same values; and the delta between two
  snapshots of a run is what was counted in between as long as nothing saturated.\<close>

lemma metrics_exact:
  assumes perm: "mset es = mset es'"
  shows "total_bytes (fold count_event es metrics_zero) = min u64_max (\<Sum>e\<leftarrow>es'. sent_bytes e + recv_bytes e)
    \<and> error_count (fold count_event es metrics_zero) = min u64_max (length (filter is_failure es'))
    \<and> (has_errors (fold count_event es metrics_zero) \<longleftrightarrow> (\<exists>e\<in>set es'. is_failure e))
    \<and> m_packets_sent (fold count_event es metrics_zero) = min u64_max (length (filter is_sent es'))
    \<and> ((\<Sum>e\<leftarrow>es @ fs. sent_bytes e) \<le> u64_max \<longrightarrow>
         m_bytes_sent (delta_since (fold count_event (es @ fs) metrics_zero) (fold count_event es metrics_zero)) = (\<Sum>e\<leftarrow>fs. sent_bytes e))"
proof -
  have zero: "metrics_ok metrics_zero" by (simp add: metrics_ok_def metrics_zero_def)
  have sums: "(\<Sum>e\<leftarrow>es. w e) = (\<Sum>e\<leftarrow>es'. w e)" for w :: "metric_event \<Rightarrow> nat"
    using perm by (metis mset_map sum_mset_sum_list)
  have lens: "length (filter P es) = length (filter P es')" for P
    using perm by (metis mset_filter size_mset)
  have set: "set es = set es'" using perm by (rule mset_eq_setD)
  note run = counters_run [OF zero, of es]
  have err: "error_count (fold count_event es metrics_zero) = min u64_max (length (filter is_failure es'))"
    using run by (simp add: metrics_zero_def error_count_def sat_add_def lens)
  have "total_bytes (fold count_event es metrics_zero) = min u64_max (\<Sum>e\<leftarrow>es'. sent_bytes e + recv_bytes e)"
    using run sums [of sent_bytes] sums [of recv_bytes]
    by (simp add: total_bytes_def sat_add_min metrics_zero_def sum_list_addf min_def)
  moreover have "has_errors (fold count_event es metrics_zero) \<longleftrightarrow> (\<exists>e\<in>set es'. is_failure e)"
  proof -
    have "0 < u64_max" by (simp add: u64_max_def)
    then show ?thesis unfolding has_errors_def err by (simp add: filter_empty_conv)
  qed
  moreover have "m_packets_sent (fold count_event es metrics_zero) = min u64_max (length (filter is_sent es'))"
    using run by (simp add: metrics_zero_def lens)
  moreover have "(\<Sum>e\<leftarrow>es @ fs. sent_bytes e) \<le> u64_max \<longrightarrow>
         m_bytes_sent (delta_since (fold count_event (es @ fs) metrics_zero) (fold count_event es metrics_zero)) = (\<Sum>e\<leftarrow>fs. sent_bytes e)"
    using run counters_run [OF zero, of "es @ fs"] by (simp add: delta_since_def metrics_zero_def)
  ultimately show ?thesis using err by blast
qed

end
