(* ===== verification/Snap_Graph.thy ===== *)
theory Snap_Graph
  imports Shph_Prelude
begin

text \<open>
  The cycle check of \<open>SnapProfile::validate_fallback_graph\<close> in \<open>shph-snap/src/lib.rs\<close>: the nested function \<open>visit\<close>, a depth-first
  search that marks a node 1 while it is on the stack and 2 when it is finished, and the loop over all nodes.  An index
  out of range, where the code would panic, is \<open>None\<close>.
\<close>

section \<open>Definitions\<close>

type_synonym marks = "nat list"

definition unvisited :: "marks \<Rightarrow> nat" where
  "unvisited marks = length (filter (\<lambda>m. m \<noteq> 1 \<and> m \<noteq> 2) marks)"

function (sequential) visit :: "nat list list \<Rightarrow> nat \<Rightarrow> marks \<Rightarrow> (bool \<times> marks) option"
  and visit_each :: "nat list list \<Rightarrow> nat list \<Rightarrow> marks \<Rightarrow> (bool \<times> marks) option" where
  "visit edges index marks =
     (if length marks \<le> index \<or> length edges \<le> index then None
      else if marks ! index = 1 then Some (True, marks)
      else if marks ! index = 2 then Some (False, marks)
      else case visit_each edges (edges ! index) (marks[index := 1]) of
          None \<Rightarrow> None
        | Some (True, marks') \<Rightarrow> Some (True, marks')
        | Some (False, marks') \<Rightarrow> Some (False, marks'[index := 2]))"
| "visit_each edges [] marks = Some (False, marks)"
| "visit_each edges (next # rest) marks =
     (case visit edges next marks of
        None \<Rightarrow> None
      | Some (True, marks') \<Rightarrow> Some (True, marks')
      | Some (False, marks') \<Rightarrow> visit_each edges rest marks')"
  by pat_completeness auto

lemma unvisited_update:
  assumes "i < length marks"
  shows "v = 1 \<or> v = 2 \<Longrightarrow> unvisited (marks[i := v]) \<le> unvisited marks"
    and "marks ! i \<noteq> 1 \<and> marks ! i \<noteq> 2 \<Longrightarrow> v = 1 \<or> v = 2 \<Longrightarrow> unvisited (marks[i := v]) < unvisited marks"
proof -
  have m: "marks = take i marks @ marks ! i # drop (Suc i) marks" using assms by (rule id_take_nth_drop)
  have u: "marks[i := v] = take i marks @ v # drop (Suc i) marks" using assms by (rule upd_conv_take_nth_drop)
  show "v = 1 \<or> v = 2 \<Longrightarrow> unvisited (marks[i := v]) \<le> unvisited marks" unfolding unvisited_def u by (subst (3) m) auto
  show "marks ! i \<noteq> 1 \<and> marks ! i \<noteq> 2 \<Longrightarrow> v = 1 \<or> v = 2 \<Longrightarrow> unvisited (marks[i := v]) < unvisited marks"
    unfolding unvisited_def u by (subst (3) m) auto
qed

lemma visit_unvisited:
  "visit_visit_each_dom (Inl (edges, i, marks)) \<Longrightarrow> visit edges i marks = Some (b, marks') \<Longrightarrow>
     unvisited marks' \<le> unvisited marks \<and> length marks' = length marks"
  "visit_visit_each_dom (Inr (edges, js, marks)) \<Longrightarrow> visit_each edges js marks = Some (b, marks') \<Longrightarrow>
     unvisited marks' \<le> unvisited marks \<and> length marks' = length marks"
proof (induction arbitrary: b marks' and b marks' rule: visit_visit_each.pinduct)
  case (1 edges i marks)
  show ?case
  proof (cases "length marks \<le> i \<or> length edges \<le> i \<or> marks ! i = 1 \<or> marks ! i = 2")
    case True
    then show ?thesis using 1 by (auto simp: visit.psimps split: if_splits)
  next
    case False
    then obtain c m where m: "visit_each edges (edges ! i) (marks[i := 1]) = Some (c, m)"
      and r: "marks' = (if c then m else m[i := 2])"
      using 1 by (auto simp: visit.psimps split: option.splits bool.splits)
    have "unvisited m \<le> unvisited (marks[i := 1]) \<and> length m = length (marks[i := 1])" using 1(2) False m by blast
    then show ?thesis using r False unvisited_update(1) [of i marks 1] unvisited_update(1) [of i m 2] by auto
  qed
next
  case (2 edges marks)
  then show ?case by (simp add: visit_each.psimps)
next
  case (3 edges j js marks)
  then show ?case by (fastforce simp: visit_each.psimps split: option.splits bool.splits dest: le_trans)
qed

termination visit
proof (relation "measures [case_sum (\<lambda>(_, _, marks). unvisited marks) (\<lambda>(_, _, marks). unvisited marks),
    case_sum (\<lambda>_. 0) (\<lambda>(_, js, _). Suc (length js))]", goal_cases)
  case (2 edges i marks)
  then show ?case using unvisited_update(2) [of i marks 1] by simp
next
  case (4 edges j js marks x b marks')
  then show ?case using visit_unvisited(1) [of edges j marks False marks'] by (auto simp: le_less)
qed simp_all

declare visit.simps [simp del]

definition has_cycle :: "nat list list \<Rightarrow> bool option" where
  "has_cycle edges = map_option fst (visit_each edges [0..<length edges] (replicate (length edges) 0))"

section \<open>Correctness of the search\<close>

definition edge_rel :: "nat list list \<Rightarrow> (nat \<times> nat) set" where
  "edge_rel edges = {(i, j). i < length edges \<and> j \<in> set (edges ! i)}"

definition edges_ok :: "nat list list \<Rightarrow> bool" where
  "edges_ok edges \<longleftrightarrow> (\<forall>js\<in>set edges. \<forall>j\<in>set js. j < length edges)"

definition grey :: "marks \<Rightarrow> nat set" where "grey m = {i. i < length m \<and> m ! i = 1}"
definition black :: "marks \<Rightarrow> nat set" where "black m = {i. i < length m \<and> m ! i = 2}"

definition search_inv :: "nat list list \<Rightarrow> marks \<Rightarrow> bool" where
  "search_inv edges m \<longleftrightarrow> length m = length edges
     \<and> (\<forall>i\<in>black m. set (edges ! i) \<subseteq> black m \<and> (i, i) \<notin> (edge_rel edges)\<^sup>+)"

lemma black_closed: "(j, k) \<in> (edge_rel edges)\<^sup>* \<Longrightarrow> search_inv edges m \<Longrightarrow> j \<in> black m \<Longrightarrow> k \<in> black m"
  by (induction rule: rtrancl_induct) (auto simp: search_inv_def edge_rel_def)

lemma start_grey:
  assumes "i < length m" and "m ! i \<noteq> 1" and "m ! i \<noteq> 2"
  shows "grey (m[i := 1]) = insert i (grey m)" and "black (m[i := 1]) = black m"
  using assms by (auto simp: grey_def black_def nth_list_update)

lemma finish_black:
  assumes "i < length m" and "m ! i = 1"
  shows "grey (m[i := 2]) = grey m - {i}" and "black (m[i := 2]) = insert i (black m)"
  using assms by (auto simp: grey_def black_def nth_list_update)

lemma finish_inv:
  assumes inv: "search_inv edges m" and i: "i \<in> grey m" and succ: "set (edges ! i) \<subseteq> black m"
  shows "search_inv edges (m[i := 2])"
proof -
  have b: "black (m[i := 2]) = insert i (black m)" using i finish_black by (simp add: grey_def)
  have "(i, i) \<notin> (edge_rel edges)\<^sup>+"
  proof
    assume "(i, i) \<in> (edge_rel edges)\<^sup>+"
    then obtain j where "(i, j) \<in> edge_rel edges" "(j, i) \<in> (edge_rel edges)\<^sup>*" by (meson tranclD)
    then have "i \<in> black m" using black_closed [OF _ inv] succ by (auto simp: edge_rel_def)
    then show False using i by (simp add: grey_def black_def)
  qed
  then show ?thesis using inv succ b by (auto simp: search_inv_def)
qed

definition search_post :: "nat list list \<Rightarrow> nat set \<Rightarrow> marks \<Rightarrow> bool \<Rightarrow> marks \<Rightarrow> bool" where
  "search_post edges targets m b m' \<longleftrightarrow>
     (if b then \<exists>x. (x, x) \<in> (edge_rel edges)\<^sup>+
      else search_inv edges m' \<and> grey m' = grey m \<and> black m \<subseteq> black m' \<and> targets \<subseteq> black m')"

lemma visit_correct:
  "edges_ok edges \<Longrightarrow> search_inv edges m \<Longrightarrow> i < length edges \<Longrightarrow> \<forall>g\<in>grey m. (g, i) \<in> (edge_rel edges)\<^sup>+ \<Longrightarrow>
     \<exists>b m'. visit edges i m = Some (b, m') \<and> search_post edges {i} m b m'"
  "edges_ok edges \<Longrightarrow> search_inv edges m \<Longrightarrow> \<forall>j\<in>set js. j < length edges \<and> (\<forall>g\<in>grey m. (g, j) \<in> (edge_rel edges)\<^sup>+) \<Longrightarrow>
     \<exists>b m'. visit_each edges js m = Some (b, m') \<and> search_post edges (set js) m b m'"
proof (induction edges i m and edges js m rule: visit_visit_each.induct)
  case (1 edges i m)
  have len: "length m = length edges" using 1(3) by (simp add: search_inv_def)
  consider "m ! i = 1" | "m ! i = 2" | "m ! i \<noteq> 1" "m ! i \<noteq> 2" by blast
  then show ?case
  proof cases
    case 1
    then have "(i, i) \<in> (edge_rel edges)\<^sup>+" using \<open>\<forall>g\<in>grey m. _\<close> \<open>i < length edges\<close> len by (simp add: grey_def)
    then show ?thesis using 1 len \<open>i < length edges\<close> by (auto simp: visit.simps search_post_def)
  next
    case 2
    then show ?thesis using len 1(3,4) by (auto simp: visit.simps search_post_def black_def)
  next
    case 3
    let ?m1 = "m[i := 1]"
    have i: "i < length m" using len 1(4) by simp
    note g = start_grey [OF i 3]
    have succ: "(i, j) \<in> edge_rel edges" if "j \<in> set (edges ! i)" for j using that 1(4) by (simp add: edge_rel_def)
    have "search_inv edges ?m1" using 1(3) unfolding search_inv_def g(2) by simp
    moreover have "\<forall>j\<in>set (edges ! i). j < length edges \<and> (\<forall>h\<in>grey ?m1. (h, j) \<in> (edge_rel edges)\<^sup>+)"
      using 1(2,4,5) succ unfolding g(1) edges_ok_def by (auto intro: trancl.trancl_into_trancl)
    ultimately obtain b m' where r: "visit_each edges (edges ! i) ?m1 = Some (b, m')"
      and post: "search_post edges (set (edges ! i)) ?m1 b m'"
      using 1(1) [OF _ 3(1,2) 1(2)] i 1(4) by auto
    show ?thesis
    proof (cases b)
      case True
      then show ?thesis using r post 3 i 1(4) by (intro exI [of _ True] exI [of _ m']) (simp add: visit.simps search_post_def)
    next
      case False
      then have m': "search_inv edges m'" "grey m' = insert i (grey m)" "black m \<subseteq> black m'" "set (edges ! i) \<subseteq> black m'"
        using post unfolding search_post_def g by simp_all
      have gi: "i \<in> grey m'" "i \<notin> grey m" using m'(2) 3 by (auto simp: grey_def)
      then have "search_post edges {i} m False (m'[i := 2])"
        using m' finish_inv [OF m'(1) gi(1) m'(4)] finish_black [of i m'] by (auto simp: search_post_def grey_def)
      then show ?thesis using r False 3 i 1(4) by (intro exI [of _ False] exI [of _ "m'[i := 2]"]) (simp add: visit.simps)
    qed
  qed
next
  case (2 edges m)
  then show ?case by (intro exI [of _ False] exI [of _ m]) (simp add: search_post_def)
next
  case (3 edges j js m)
  from 3(1) [OF 3(3,4)] 3(5) obtain b m' where v: "visit edges j m = Some (b, m')" and post: "search_post edges {j} m b m'" by auto
  show ?case
  proof (cases b)
    case True
    then show ?thesis using v post by (intro exI [of _ True] exI [of _ m']) (simp add: search_post_def)
  next
    case False
    then have m': "search_inv edges m'" "grey m' = grey m" "black m \<subseteq> black m'" "j \<in> black m'" using post by (simp_all add: search_post_def)
    have "\<forall>k\<in>set js. k < length edges \<and> (\<forall>g\<in>grey m'. (g, k) \<in> (edge_rel edges)\<^sup>+)" using 3(5) m'(2) by simp
    then obtain c m'' where w: "visit_each edges js m' = Some (c, m'')" and post': "search_post edges (set js) m' c m''"
      using 3(2) [OF v refl _ 3(3) m'(1)] False by blast
    moreover have "search_post edges (set (j # js)) m c m''"
      using post' m' order_trans [OF m'(3), of "black m''"] by (auto simp: search_post_def)
    ultimately show ?thesis using v False by (intro exI [of _ c] exI [of _ m'']) simp
  qed
qed

lemma has_cycle_exact:
  assumes ok: "edges_ok edges"
  shows "has_cycle edges = Some (\<not> acyclic (edge_rel edges))"
proof -
  let ?m = "replicate (length edges) 0"
  have none: "grey ?m = {}" "black ?m = {}" by (auto simp: grey_def black_def)
  then have "search_inv edges ?m" by (simp add: search_inv_def)
  then obtain b m where r: "visit_each edges [0..<length edges] ?m = Some (b, m)" and post: "search_post edges {0..<length edges} ?m b m"
    using visit_correct(2) [OF ok, of ?m "[0..<length edges]"] none by auto
  have "b \<longleftrightarrow> \<not> acyclic (edge_rel edges)"
  proof (cases b)
    case True
    then show ?thesis using post by (simp add: search_post_def acyclic_def)
  next
    case False
    have "(x, x) \<notin> (edge_rel edges)\<^sup>+" for x
    proof
      assume c: "(x, x) \<in> (edge_rel edges)\<^sup>+"
      then obtain j where "(x, j) \<in> edge_rel edges" by (meson tranclD)
      then have "x < length edges" by (simp add: edge_rel_def)
      then show False using c post False by (auto simp: search_post_def search_inv_def)
    qed
    then show ?thesis using False by (simp add: acyclic_def)
  qed
  then show ?thesis using r by (simp add: has_cycle_def)
qed

end
