(* ===== verification/Audit_Journal.thy ===== *)
theory Audit_Journal
  imports Shph_Prelude
begin

text \<open>
  The ratchet audit journal of \<open>shph-core/src/roadmap.rs\<close>: appending an event, pruning, reading back.  The journal is
  the content of one file, or \<open>None\<close> when there is none.  The reader delivers the content through a buffer of
  some capacity, as \<open>BufReader\<close> does; JSON is the record \<open>json\<close> of the two \<open>serde_json\<close> operations; the clock
  readings are arguments.  Failures of the operating system (permissions, links, a full disk) are not modelled.
\<close>

section \<open>Definitions\<close>

definition MAX_AUDIT_FILE_BYTES :: u64 where "MAX_AUDIT_FILE_BYTES = 8 * 1024 * 1024"
definition MAX_AUDIT_LINE_BYTES :: usize where "MAX_AUDIT_LINE_BYTES = 64 * 1024"
definition MAX_AUDIT_ENTRIES :: usize where "MAX_AUDIT_ENTRIES = 100000"

record audit_record =
  ts_ms :: u64
  local_fingerprint :: string
  peer_fingerprint :: string
  ar_transcript_hash :: string
  ar_role :: string
  ar_transport :: string

record json =
  to_json :: "audit_record \<Rightarrow> string"
  from_json :: "string \<Rightarrow> string + audit_record"

abbreviation newline :: char where "newline \<equiv> CHR 0x0A"
abbreviation carriage_return :: char where "carriage_return \<equiv> CHR 0x0D"

text \<open>The buffered reader: what \<open>fill_buf\<close> would return, and the content not yet read.\<close>

record reader =
  rd_buf :: string
  rd_rest :: string

definition fill_buf :: "nat \<Rightarrow> reader \<Rightarrow> reader" where
  "fill_buf capacity rd = (if rd_buf rd = [] then \<lparr>rd_buf = take capacity (rd_rest rd), rd_rest = drop capacity (rd_rest rd)\<rparr> else rd)"

definition line_take :: "string \<Rightarrow> nat" where
  "line_take buffer = (let k = length (takeWhile (\<lambda>c. c \<noteq> newline) buffer) in if k < length buffer then k + 1 else length buffer)"

lemma line_take_pos: "buffer \<noteq> [] \<Longrightarrow> 0 < line_take buffer"
  by (simp add: line_take_def Let_def)

abbreviation unread :: "reader \<Rightarrow> string" where "unread rd \<equiv> rd_buf rd @ rd_rest rd"

lemma fill_buf_unread [simp]: "unread (fill_buf c rd) = unread rd"
  by (simp add: fill_buf_def)

lemma fill_buf_length: "length (rd_buf (fill_buf c rd)) + length (rd_rest (fill_buf c rd)) = length (rd_buf rd) + length (rd_rest rd)"
  by (auto simp: fill_buf_def min_def)

lemma line_take_drop: "buffer \<noteq> [] \<Longrightarrow> length buffer - line_take buffer < length buffer"
  using line_take_pos [of buffer] by simp

function read_bounded_line :: "nat \<Rightarrow> reader \<Rightarrow> string \<Rightarrow> (string \<times> reader) result" where
  "read_bounded_line capacity rd line =
     (let rd1 = fill_buf capacity rd; buffer = rd_buf rd1; n = line_take buffer in
      if buffer = [] then Ok (line, rd1)
      else if MAX_AUDIT_LINE_BYTES < sat_add usize_max (length line) n
        then Err (Io ''ratchet audit entry exceeds the 64 KiB line limit'')
      else let line' = line @ take n buffer; rd2 = rd1\<lparr>rd_buf := drop n buffer\<rparr> in
        if last line' = newline then Ok (line', rd2) else read_bounded_line capacity rd2 line')"
  by pat_completeness auto
termination
proof (relation "measure (\<lambda>(c, rd, line). length (unread rd))", goal_cases)
  case (2 capacity rd line rd1 buffer n line' rd2)
  then show ?case using line_take_drop [of buffer] fill_buf_length [of capacity rd] by simp
qed simp

declare read_bounded_line.simps [simp del]

text \<open>\<open>std::str::from_utf8\<close>: the well-formed byte sequences of the Unicode standard.\<close>

definition in_range :: "nat \<Rightarrow> nat \<Rightarrow> char \<Rightarrow> bool" where
  "in_range lo hi c \<longleftrightarrow> lo \<le> (of_char c :: nat) \<and> (of_char c :: nat) \<le> hi"

text \<open>The number of continuation bytes after a first byte, and the narrower range of the second byte that rules out
  overlong forms, surrogates and code points past the last plane.\<close>

definition utf8_extra :: "char \<Rightarrow> nat option" where
  "utf8_extra a = (if in_range 0 127 a then Some 0 else if in_range 194 223 a then Some 1
     else if in_range 224 239 a then Some 2 else if in_range 240 244 a then Some 3 else None)"

definition utf8_second :: "char \<Rightarrow> char \<Rightarrow> bool" where
  "utf8_second a b \<longleftrightarrow> (in_range 224 224 a \<longrightarrow> in_range 160 191 b) \<and> (in_range 237 237 a \<longrightarrow> in_range 128 159 b)
     \<and> (in_range 240 240 a \<longrightarrow> in_range 144 191 b) \<and> (in_range 244 244 a \<longrightarrow> in_range 128 143 b)"

fun utf8_valid :: "string \<Rightarrow> bool" where
  "utf8_valid [] = True"
| "utf8_valid (a # rest) =
     (case utf8_extra a of
        None \<Rightarrow> False
      | Some k \<Rightarrow> k \<le> length rest \<and> (\<forall>c\<in>set (take k rest). in_range 128 191 c)
          \<and> (0 < k \<longrightarrow> utf8_second a (hd rest)) \<and> utf8_valid (drop k rest))"

definition trim_line_end :: "string \<Rightarrow> string" where
  "trim_line_end s = rev (dropWhile (\<lambda>c. c = carriage_return \<or> c = newline) (rev s))"

text \<open>The treatment of one line: \<open>None\<close> for a blank line.\<close>

definition audit_line :: "string \<Rightarrow> string option result" where
  "audit_line line =
     (if \<not> utf8_valid line then Err (Protocol ''audit entry is not valid UTF-8'')
      else let l = trim_line_end line in if str_trim l = [] then Ok None else Ok (Some l))"

definition invalid_entry :: "string \<Rightarrow> shph_error" where
  "invalid_entry e = Protocol (''invalid audit entry: '' @ e)"

lemma read_bounded_line_shrinks:
  "read_bounded_line c rd line = Ok (line', rd') \<Longrightarrow> length line' + length (unread rd') = length line + length (unread rd)"
proof (induction c rd line rule: read_bounded_line.induct)
  case (1 c rd line)
  let ?rd1 = "fill_buf c rd" and ?b = "rd_buf (fill_buf c rd)" and ?n = "line_take (rd_buf (fill_buf c rd))"
  have n: "?n \<le> length ?b" by (simp add: line_take_def Let_def)
  from 1(2) show ?case using 1(1) [OF refl refl refl _ _ refl refl] n fill_buf_length [of c rd]
    by (simp add: read_bounded_line.simps [of c rd line] Let_def split: if_splits) auto
qed

lemma read_bounded_line_progress:
  assumes "read_bounded_line c rd [] = Ok (line, rd')" and "line \<noteq> []"
  shows "length (rd_buf rd') + length (rd_rest rd') < length (rd_buf rd) + length (rd_rest rd)"
proof -
  have "length line + length (unread rd') = length (unread rd)" using read_bounded_line_shrinks [OF assms(1)] by simp
  then show ?thesis using assms(2) by (cases line) simp_all
qed

function read_loop :: "json \<Rightarrow> nat \<Rightarrow> reader \<Rightarrow> audit_record list \<Rightarrow> audit_record list result" where
  "read_loop J capacity rd entries =
     (case read_bounded_line capacity rd [] of
        Err e \<Rightarrow> Err e
      | Ok (line, rd') \<Rightarrow>
          if line = [] then Ok entries
          else case audit_line line of
              Err e \<Rightarrow> Err e
            | Ok None \<Rightarrow> read_loop J capacity rd' entries
            | Ok (Some l) \<Rightarrow>
                if MAX_AUDIT_ENTRIES \<le> length entries
                  then Err (ResourceExhausted ''ratchet audit journal contains too many entries'')
                else case from_json J l of Inl e \<Rightarrow> Err (invalid_entry e) | Inr r \<Rightarrow> read_loop J capacity rd' (entries @ [r]))"
  by pat_completeness auto
termination by (relation "measure (\<lambda>(J, c, rd, es). length (unread rd))") (auto dest: read_bounded_line_progress)

declare read_loop.simps [simp del]

definition read_ratchet_audit_events :: "json \<Rightarrow> nat \<Rightarrow> string option \<Rightarrow> audit_record list result" where
  "read_ratchet_audit_events J capacity file =
     (case file of
        None \<Rightarrow> Ok []
      | Some content \<Rightarrow>
          if MAX_AUDIT_FILE_BYTES < length content
            then Err (ResourceExhausted ''ratchet audit journal exceeds the 8 MiB safety limit'')
          else read_loop J capacity \<lparr>rd_buf = [], rd_rest = content\<rparr> [])"

function prune_loop :: "json \<Rightarrow> nat \<Rightarrow> nat \<Rightarrow> reader \<Rightarrow> audit_record list \<Rightarrow> audit_record list result" where
  "prune_loop J capacity keep rd records =
     (case read_bounded_line capacity rd [] of
        Err e \<Rightarrow> Err e
      | Ok (line, rd') \<Rightarrow>
          if line = [] then Ok records
          else case audit_line line of
              Err e \<Rightarrow> Err e
            | Ok None \<Rightarrow> prune_loop J capacity keep rd' records
            | Ok (Some l) \<Rightarrow>
                (case from_json J l of Inl e \<Rightarrow> Err (invalid_entry e)
                 | Inr r \<Rightarrow> let records' = records @ [r] in
                     prune_loop J capacity keep rd' (if keep < length records' then tl records' else records')))"
  by pat_completeness auto
termination by (relation "measure (\<lambda>(J, c, k, rd, es). length (unread rd))") (auto dest: read_bounded_line_progress)

declare prune_loop.simps [simp del]

definition journal :: "json \<Rightarrow> audit_record list \<Rightarrow> string" where
  "journal J rs = concat (map (\<lambda>r. to_json J r @ [newline]) rs)"

definition prune_jsonl :: "json \<Rightarrow> nat \<Rightarrow> u64 option \<Rightarrow> usize \<Rightarrow> string option \<Rightarrow> unit result \<times> string option" where
  "prune_jsonl J capacity now max_entries file =
     (case file of
        None \<Rightarrow> (Ok (), file)
      | Some content \<Rightarrow>
          if MAX_AUDIT_FILE_BYTES < length content
            then (Err (ResourceExhausted ''ratchet audit journal exceeds the 8 MiB safety limit''), file)
          else let keep = min (max max_entries 1) MAX_AUDIT_ENTRIES in
            (case prune_loop J capacity keep \<lparr>rd_buf = [], rd_rest = content\<rparr> [] of
               Err e \<Rightarrow> (Err e, file)
             | Ok records \<Rightarrow>
                 if length records < keep then (Ok (), file)
                 else case now of
                     None \<Rightarrow> (Err (Internal ''system time before unix epoch''), file)
                   | Some _ \<Rightarrow> (Ok (), Some (journal J records))))"

definition append_ratchet_audit_event ::
    "json \<Rightarrow> nat \<Rightarrow> u64 option \<Rightarrow> u64 option \<Rightarrow> usize \<Rightarrow> (u64 \<Rightarrow> audit_record) \<Rightarrow> string option \<Rightarrow> unit result \<times> string option" where
  "append_ratchet_audit_event J capacity now later policy_max_entries event file =
     (case now of
        None \<Rightarrow> (Err (Internal ''system time before unix epoch''), file)
      | Some ts \<Rightarrow>
          let content = (case file of None \<Rightarrow> [] | Some c \<Rightarrow> c) @ to_json J (event ts) @ [newline]
          in prune_jsonl J capacity later (max policy_max_entries 1) (Some content))"


section \<open>Reading lines\<close>

text \<open>What a caller relies on in \<open>serde_json\<close> for one record: it parses back what it printed, and the text is one
  non-empty line of valid UTF-8 that begins and ends with a brace.\<close>

definition json_faithful :: "json \<Rightarrow> audit_record \<Rightarrow> bool" where
  "json_faithful J r \<longleftrightarrow> from_json J (to_json J r) = Inr r \<and> utf8_valid (to_json J r) \<and> newline \<notin> set (to_json J r)
     \<and> (\<exists>body. to_json J r = CHR ''{'' # body @ [CHR ''}''])"

lemma read_line_at_end: "unread rd = [] \<Longrightarrow> read_bounded_line c rd line = Ok (line, fill_buf c rd)"
  by (simp add: read_bounded_line.simps fill_buf_def)

lemma first_newline: "newline \<notin> set a \<Longrightarrow> newline \<notin> set b \<Longrightarrow> a @ newline # x = b @ newline # y \<Longrightarrow> a = b \<and> x = y"
proof (induction a arbitrary: b)
  case Nil
  then show ?case by (cases b) auto
next
  case (Cons c a)
  then show ?case by (cases b) auto
qed

lemma takeWhile_first: "newline \<notin> set a \<Longrightarrow> takeWhile (\<lambda>c. c \<noteq> newline) (a @ newline # b) = a"
  by (induction a) auto

lemma before_newline: "newline \<notin> set b \<Longrightarrow> b @ r = l @ newline # x \<Longrightarrow> \<exists>l2. l = b @ l2 \<and> r = l2 @ newline # x"
proof (induction b arbitrary: l)
  case (Cons c b)
  then show ?case by (cases l) auto
qed simp

lemma read_line:
  assumes "0 < c"
  shows "unread rd = l @ newline # rst \<Longrightarrow> newline \<notin> set l \<Longrightarrow> length line + length l + 1 \<le> MAX_AUDIT_LINE_BYTES \<Longrightarrow>
    \<exists>rd'. read_bounded_line c rd line = Ok (line @ l @ [newline], rd') \<and> unread rd' = rst"
proof (induction "length (unread rd)" arbitrary: rd l line rule: less_induct)
  case less
  let ?rd1 = "fill_buf c rd" and ?b = "rd_buf (fill_buf c rd)"
  have u: "unread ?rd1 = l @ newline # rst" using less(2) by simp
  have ne: "?b \<noteq> []" using less(2) assms by (auto simp: fill_buf_def)
  show ?case
  proof (cases "newline \<in> set ?b")
    case True
    then obtain b1 b2 where b: "?b = b1 @ newline # b2" "newline \<notin> set b1" by (meson split_list_first)
    then have "l = b1 \<and> rst = b2 @ rd_rest ?rd1" using u less(3) first_newline [of b1 l "b2 @ rd_rest ?rd1" rst] by simp
    moreover have "line_take ?b = length b1 + 1" using b by (simp add: line_take_def takeWhile_first)
    ultimately show ?thesis using ne b less(4)
      by (subst read_bounded_line.simps) (simp add: Let_def sat_add_def MAX_AUDIT_LINE_BYTES_def usize_max_def)
  next
    case False
    then obtain l2 where l2: "l = ?b @ l2" "rd_rest ?rd1 = l2 @ newline # rst"
      using before_newline [OF _ u] by blast
    have n: "line_take ?b = length ?b"
    proof -
      have "takeWhile (\<lambda>c. c \<noteq> newline) ?b = ?b" using False by (auto simp: takeWhile_eq_all_conv)
      then show ?thesis by (simp only: line_take_def Let_def) simp
    qed
    let ?rd2 = "?rd1\<lparr>rd_buf := []\<rparr>"
    have "last (line @ ?b) \<noteq> newline" using False ne by (simp add: last_append) (metis last_in_set)
    moreover have "\<not> MAX_AUDIT_LINE_BYTES < sat_add usize_max (length line) (length ?b)"
      using less(4) l2(1) by (simp add: sat_add_def)
    ultimately have step: "read_bounded_line c rd line = read_bounded_line c ?rd2 (line @ ?b)"
      using ne n by (subst read_bounded_line.simps) (simp add: Let_def)
    have "length (unread ?rd2) < length (unread rd)" using fill_buf_length [of c rd] ne by (cases ?b) simp_all
    moreover have "unread ?rd2 = l2 @ newline # rst" using l2(2) by simp
    ultimately show ?thesis using less(1) [of ?rd2 l2 "line @ ?b"] less(3,4) l2(1) step by auto
  qed
qed

lemma utf8_valid_newline: "utf8_valid s \<Longrightarrow> utf8_valid (s @ [newline])"
proof (induction s rule: utf8_valid.induct)
  case 1
  show ?case by (simp add: utf8_extra_def in_range_def)
next
  case (2 a rest)
  then show ?case by (auto simp: hd_append split: option.splits)
qed

lemma str_trim_ends:
  assumes "s \<noteq> []" and "graphic (hd s)" and "graphic (last s)"
  shows "str_trim s = s"
proof -
  have keep: "strip_all ws t = t" if "\<forall>w\<in>set ws. hd w \<noteq> hd t" for ws t
    using strip_one_None [of ws t] that by (simp add: strip_all.simps)
  have "strip_all whitespace_encodings s = s" by (rule keep) (use assms(2) whitespace_not_graphic in \<open>metis\<close>)
  moreover have "strip_all (map rev whitespace_encodings) (rev s) = rev s"
    by (rule keep) (use assms(3) whitespace_not_graphic in \<open>simp add: hd_rev, metis\<close>)
  ultimately show ?thesis by (simp add: str_trim_def)
qed

lemma audit_line_faithful: "json_faithful J r \<Longrightarrow> audit_line (to_json J r @ [newline]) = Ok (Some (to_json J r))"
proof -
  assume f: "json_faithful J r"
  then obtain body where body: "to_json J r = CHR ''{'' # body @ [CHR ''}'']" by (auto simp: json_faithful_def)
  have "trim_line_end (to_json J r @ [newline]) = to_json J r" by (simp add: trim_line_end_def body)
  moreover have "str_trim (to_json J r) = to_json J r" by (rule str_trim_ends) (simp_all add: body graphic_def)
  moreover have "utf8_valid (to_json J r @ [newline])" using f utf8_valid_newline by (simp add: json_faithful_def)
  moreover have "to_json J r \<noteq> []" by (simp add: body)
  ultimately show ?thesis by (simp add: audit_line_def)
qed


section \<open>The journal\<close>

definition last_entries :: "nat \<Rightarrow> 'a list \<Rightarrow> 'a list" where
  "last_entries k xs = drop (length xs - k) xs"

definition line_fits :: "json \<Rightarrow> nat \<Rightarrow> audit_record \<Rightarrow> bool" where
  "line_fits J b r \<longleftrightarrow> json_faithful J r \<and> length (to_json J r) + 1 \<le> b"

lemma journal_simps [simp]:
  "journal J [] = []" "journal J (r # rs) = to_json J r @ newline # journal J rs"
  "journal J (rs @ rs') = journal J rs @ journal J rs'"
  by (simp_all add: journal_def)

lemma last_entries_append: "last_entries k (last_entries k xs @ ys) = last_entries k (xs @ ys)"
proof -
  define d where "d = length xs - k"
  have "last_entries k xs @ ys = drop d (xs @ ys)" by (simp add: last_entries_def d_def)
  then have "last_entries k (last_entries k xs @ ys) = drop (length (xs @ ys) - d - k + d) (xs @ ys)"
    unfolding last_entries_def by (simp only: drop_drop length_drop)
  moreover have "length (xs @ ys) - d - k + d = length (xs @ ys) - k" by (auto simp: d_def)
  ultimately show ?thesis by (simp only: last_entries_def)
qed

lemma read_line_journal:
  assumes c: "0 < c" and r: "line_fits J MAX_AUDIT_LINE_BYTES r" and u: "unread rd = journal J (r # rs)"
  shows "\<exists>rd'. read_bounded_line c rd [] = Ok (to_json J r @ [newline], rd') \<and> unread rd' = journal J rs
     \<and> audit_line (to_json J r @ [newline]) = Ok (Some (to_json J r)) \<and> from_json J (to_json J r) = Inr r"
proof -
  have f: "json_faithful J r" "newline \<notin> set (to_json J r)" and n: "length [] + length (to_json J r) + 1 \<le> MAX_AUDIT_LINE_BYTES"
    using r by (auto simp: line_fits_def json_faithful_def)
  have "unread rd = to_json J r @ newline # journal J rs" using u by simp
  from read_line [OF c this f(2) n] show ?thesis using audit_line_faithful [OF f(1)] f(1) by (auto simp: json_faithful_def)
qed

lemma read_loop_journal:
  assumes c: "0 < c"
  shows "unread rd = journal J rs \<Longrightarrow> \<forall>r\<in>set rs. line_fits J MAX_AUDIT_LINE_BYTES r \<Longrightarrow> length entries + length rs \<le> MAX_AUDIT_ENTRIES
     \<Longrightarrow> read_loop J c rd entries = Ok (entries @ rs)"
proof (induction rs arbitrary: rd entries)
  case Nil
  then show ?case using read_line_at_end [of rd c "[]"] by (simp add: read_loop.simps)
next
  case (Cons r rs)
  obtain rd' where rd': "read_bounded_line c rd [] = Ok (to_json J r @ [newline], rd')" "unread rd' = journal J rs"
     "audit_line (to_json J r @ [newline]) = Ok (Some (to_json J r))" "from_json J (to_json J r) = Inr r"
    using read_line_journal [OF c _ Cons.prems(1)] Cons.prems(2) by auto
  have "read_loop J c rd' (entries @ [r]) = Ok ((entries @ [r]) @ rs)" by (rule Cons.IH) (use Cons.prems rd'(2) in auto)
  then show ?case using rd' Cons.prems(3) by (simp add: read_loop.simps [of J c rd])
qed

lemma prune_loop_journal:
  assumes c: "0 < c" and k: "0 < keep"
  shows "unread rd = journal J rs \<Longrightarrow> \<forall>r\<in>set rs. line_fits J MAX_AUDIT_LINE_BYTES r \<Longrightarrow> length records \<le> keep
     \<Longrightarrow> prune_loop J c keep rd records = Ok (last_entries keep (records @ rs))"
proof (induction rs arbitrary: rd records)
  case Nil
  then show ?case using read_line_at_end [of rd c "[]"] by (simp add: prune_loop.simps last_entries_def)
next
  case (Cons r rs)
  obtain rd' where rd': "read_bounded_line c rd [] = Ok (to_json J r @ [newline], rd')" "unread rd' = journal J rs"
     "audit_line (to_json J r @ [newline]) = Ok (Some (to_json J r))" "from_json J (to_json J r) = Inr r"
    using read_line_journal [OF c _ Cons.prems(1)] Cons.prems(2) by auto
  define records' where "records' = (if keep < length (records @ [r]) then tl (records @ [r]) else records @ [r])"
  have "prune_loop J c keep rd' records' = Ok (last_entries keep (records' @ rs))"
    by (rule Cons.IH) (use Cons.prems rd'(2) in \<open>auto simp: records'_def\<close>)
  moreover have "last_entries keep (records' @ rs) = last_entries keep (records @ r # rs)"
  proof (cases "keep < length (records @ [r])")
    case True
    then obtain x xs where x: "records @ [r] = x # xs" by (cases records) auto
    have "records @ r # rs = (records @ [r]) @ rs" by simp
    then have eq: "records @ r # rs = x # (xs @ rs)" unfolding x by simp
    have "length (xs @ rs) \<ge> keep" and "records' = xs" using True by (simp_all add: records'_def x)
    then show ?thesis unfolding eq last_entries_def by (simp add: Suc_diff_le del: drop_append)
  next
    case False
    then show ?thesis by (simp add: records'_def)
  qed
  ultimately show ?case using rd' by (simp add: prune_loop.simps [of J c keep rd] Let_def records'_def)
qed


definition policy_keep :: "usize \<Rightarrow> usize" where
  "policy_keep m = min (max m 1) MAX_AUDIT_ENTRIES"

lemma append_journal:
  assumes c: "0 < c" and fits: "\<forall>x\<in>set (rs @ [event ts]). line_fits J MAX_AUDIT_LINE_BYTES x"
    and len: "length (journal J (rs @ [event ts])) \<le> MAX_AUDIT_FILE_BYTES" and fl: "(case file of None \<Rightarrow> [] | Some x \<Rightarrow> x) = journal J rs"
  shows "append_ratchet_audit_event J c (Some ts) (Some later) m event file
     = (Ok (), Some (journal J (last_entries (policy_keep m) (rs @ [event ts]))))"
proof -
  have k: "0 < policy_keep m" by (simp add: policy_keep_def MAX_AUDIT_ENTRIES_def)
  have p: "prune_loop J c (policy_keep m) \<lparr>rd_buf = [], rd_rest = journal J (rs @ [event ts])\<rparr> []
      = Ok (last_entries (policy_keep m) (rs @ [event ts]))"
    using prune_loop_journal [OF c k, of "\<lparr>rd_buf = [], rd_rest = journal J (rs @ [event ts])\<rparr>" J "rs @ [event ts]" "[]"] fits by simp
  have "last_entries (policy_keep m) (rs @ [event ts]) = rs @ [event ts]"
    if "length (last_entries (policy_keep m) (rs @ [event ts])) < policy_keep m"
    using that by (simp add: last_entries_def split: if_splits)
  moreover have "min (max (max m 1) 1) MAX_AUDIT_ENTRIES = policy_keep m" by (simp add: policy_keep_def)
  ultimately show ?thesis using len p fl
    by (auto simp: append_ratchet_audit_event_def prune_jsonl_def Let_def)
qed

lemma journal_length: "\<forall>r\<in>set rs. line_fits J b r \<Longrightarrow> length (journal J rs) \<le> length rs * b"
  by (induction rs) (auto simp: line_fits_def)

section \<open>Properties\<close>

text \<open>A run appends events one after the other, each with its two clock readings; it stops at the first failure.\<close>

fun append_run :: "json \<Rightarrow> nat \<Rightarrow> usize \<Rightarrow> (u64 \<times> u64 \<times> (u64 \<Rightarrow> audit_record)) list \<Rightarrow> string option \<Rightarrow> unit result \<times> string option" where
  "append_run J c m [] file = (Ok (), file)"
| "append_run J c m ((ts, later, event) # es) file =
     (case append_ratchet_audit_event J c (Some ts) (Some later) m event file of
        (Err e, file') \<Rightarrow> (Err e, file') | (Ok _, file') \<Rightarrow> append_run J c m es file')"

definition events_of :: "(u64 \<times> u64 \<times> (u64 \<Rightarrow> audit_record)) list \<Rightarrow> audit_record list" where
  "events_of es = map (\<lambda>(ts, later, event). event ts) es"

lemma append_run_journal:
  assumes c: "0 < c" and b: "b \<le> MAX_AUDIT_LINE_BYTES" "(policy_keep m + 1) * b \<le> MAX_AUDIT_FILE_BYTES"
  shows "\<forall>x\<in>set (rs @ events_of es). line_fits J b x \<Longrightarrow> length rs \<le> policy_keep m \<Longrightarrow>
     (case fl of None \<Rightarrow> [] | Some x \<Rightarrow> x) = journal J rs \<Longrightarrow>
     \<exists>fl2. append_run J c m es fl = (Ok (), fl2)
        \<and> (case fl2 of None \<Rightarrow> [] | Some x \<Rightarrow> x) = journal J (last_entries (policy_keep m) (rs @ events_of es))"
proof (induction es arbitrary: rs fl)
  case Nil
  then show ?case by (simp add: events_of_def last_entries_def)
next
  case (Cons e es)
  obtain ts later event where e: "e = (ts, later, event)" by (cases e)
  let ?rs = "rs @ [event ts]" and ?rs' = "last_entries (policy_keep m) (rs @ [event ts])"
  have k: "0 < policy_keep m" by (simp add: policy_keep_def MAX_AUDIT_ENTRIES_def)
  have fits: "\<forall>x\<in>set ?rs. line_fits J b x" using Cons.prems(1) by (auto simp: e events_of_def)
  have "length (journal J ?rs) \<le> length ?rs * b" using fits by (rule journal_length)
  also have "\<dots> \<le> (policy_keep m + 1) * b" using Cons.prems(2) by (intro mult_right_mono) auto
  finally have "length (journal J ?rs) \<le> MAX_AUDIT_FILE_BYTES" using b(2) by linarith
  moreover have "\<forall>x\<in>set ?rs. line_fits J MAX_AUDIT_LINE_BYTES x" using fits b(1) by (auto simp: line_fits_def)
  ultimately have app: "append_ratchet_audit_event J c (Some ts) (Some later) m event fl = (Ok (), Some (journal J ?rs'))"
    using append_journal [OF c] Cons.prems(3) by blast
  have "\<exists>fl2. append_run J c m es (Some (journal J ?rs')) = (Ok (), fl2)
      \<and> (case fl2 of None \<Rightarrow> [] | Some x \<Rightarrow> x) = journal J (last_entries (policy_keep m) (?rs' @ events_of es))"
  proof (rule Cons.IH)
    show "\<forall>x\<in>set (?rs' @ events_of es). line_fits J b x"
      using Cons.prems(1) fits by (fastforce simp: e events_of_def last_entries_def dest: in_set_dropD)
  qed (simp_all add: last_entries_def)
  moreover have "last_entries (policy_keep m) (?rs' @ events_of es) = last_entries (policy_keep m) (?rs @ events_of es)"
    by (rule last_entries_append)
  ultimately show ?case using app by (simp add: e events_of_def)
qed

text \<open>C40. The audit journal is the bounded log of its events.  When every event fits a line and the configured number of
  entries and one more fit the size limit, appending any sequence of events to a fresh journal always succeeds, and
  reading it back, through a buffer of any capacity, gives exactly the most recent events up to the
  configured number, in the order they were appended.\<close>

theorem audit_keeps_latest:
  assumes c: "0 < c" "0 < c'" and b: "b \<le> MAX_AUDIT_LINE_BYTES" "(policy_keep m + 1) * b \<le> MAX_AUDIT_FILE_BYTES"
    and fits: "\<forall>x\<in>set (events_of es). line_fits J b x"
  shows "\<exists>fl. append_run J c m es None = (Ok (), fl)
     \<and> read_ratchet_audit_events J c' fl = Ok (last_entries (policy_keep m) (events_of es))"
proof -
  let ?out = "last_entries (policy_keep m) (events_of es)"
  obtain fl where run: "append_run J c m es None = (Ok (), fl)" and f: "(case fl of None \<Rightarrow> [] | Some x \<Rightarrow> x) = journal J ?out"
    using append_run_journal [OF c(1) b, of "[]" es J None] fits by auto
  have out: "\<forall>x\<in>set ?out. line_fits J b x" "length ?out \<le> policy_keep m"
    using fits by (auto simp: last_entries_def dest: in_set_dropD)
  have fits': "\<forall>x\<in>set ?out. line_fits J MAX_AUDIT_LINE_BYTES x" using out(1) b(1) by (auto simp: line_fits_def)
  have "length [] + length ?out \<le> MAX_AUDIT_ENTRIES" using out(2) by (simp add: policy_keep_def)
  from read_loop_journal [OF c(2) _ fits' this, of "\<lparr>rd_buf = [], rd_rest = journal J ?out\<rparr>"]
  have loop: "read_loop J c' \<lparr>rd_buf = [], rd_rest = journal J ?out\<rparr> [] = Ok ?out" by simp
  have "length (journal J ?out) \<le> length ?out * b" by (rule journal_length [OF out(1)])
  also have "\<dots> \<le> (policy_keep m + 1) * b" using out(2) by (intro mult_right_mono) auto
  finally have "length (journal J ?out) \<le> MAX_AUDIT_FILE_BYTES" using b(2) by linarith
  moreover have "?out = []" if "fl = None" using f that by (cases ?out) auto
  ultimately show ?thesis using run f loop by (cases fl) (auto simp: read_ratchet_audit_events_def)
qed

definition sample_event :: "string \<Rightarrow> u64 \<Rightarrow> audit_record" where
  "sample_event peer ts = \<lparr>ts_ms = ts, local_fingerprint = ''me'', peer_fingerprint = peer, ar_transcript_hash = ''ab'',
     ar_role = ''connect'', ar_transport = ''tcp''\<rparr>"

definition sample_json :: json where
  "sample_json = \<lparr>to_json = (\<lambda>r. ''{'' @ peer_fingerprint r @ ''}''),
     from_json = (\<lambda>s. Inr (sample_event (butlast (tl s)) 5))\<rparr>"

lemma sample_json_fits: "peer \<in> {''p1'', ''p2'', ''p3''} \<Longrightarrow> line_fits sample_json 64 (sample_event peer 5)"
  by (auto simp: line_fits_def json_faithful_def sample_json_def sample_event_def utf8_extra_def in_range_def)

theorem audit_keeps_latest_witness:
  "\<exists>fl. append_run sample_json 3 2 [(5, 5, sample_event ''p1''), (5, 6, sample_event ''p2''), (5, 7, sample_event ''p3'')] None = (Ok (), fl)
     \<and> read_ratchet_audit_events sample_json 8 fl = Ok [sample_event ''p2'' 5, sample_event ''p3'' 5]"
proof -
  have k: "policy_keep 2 = 2" by (simp add: policy_keep_def MAX_AUDIT_ENTRIES_def)
  have "last_entries 2 [x, y, z] = [y, z]" for x y z :: audit_record by (simp add: last_entries_def)
  then show ?thesis
    using audit_keeps_latest [of 3 8 64 2 "[(5, 5, sample_event ''p1''), (5, 6, sample_event ''p2''), (5, 7, sample_event ''p3'')]" sample_json]
      sample_json_fits by (simp add: k events_of_def MAX_AUDIT_LINE_BYTES_def MAX_AUDIT_FILE_BYTES_def)
qed

text \<open>A journal past the size limit never recovers.  The size is only checked after the event has been written:
  once the file is longer than 8 MiB every further append fails and still makes the file longer, so
  that neither pruning nor reading ever works again.\<close>

lemma audit_overflow_is_permanent:
  assumes big: "MAX_AUDIT_FILE_BYTES < length content"
  shows "\<exists>content'. append_ratchet_audit_event J c (Some ts) later m event (Some content)
       = (Err (ResourceExhausted ''ratchet audit journal exceeds the 8 MiB safety limit''), Some content')
     \<and> length content < length content'
     \<and> read_ratchet_audit_events J c (Some content') = Err (ResourceExhausted ''ratchet audit journal exceeds the 8 MiB safety limit'')"
  using big by (simp add: append_ratchet_audit_event_def prune_jsonl_def read_ratchet_audit_events_def)

end
