(* ===== verification/Ip_Text.thy ===== *)
theory Ip_Text
  imports Net
begin

text \<open>
  The text of IP and socket addresses as the standard library parses it (\<open>str::parse\<close> to \<open>IpAddr\<close> and \<open>SocketAddr\<close>): a recursive
  descent over the bytes, in which a reader that fails consumes nothing.  The SOCKS5 client of \<open>shph-transport/src/lib.rs\<close> and the
  configuration of \<open>shph-edge/src/config.rs\<close> use it.  The lemmas show that whatever parses has the right number of octets, and
  that the dotted form of every IPv4 address parses back.
\<close>

section \<open>Readers\<close>

type_synonym 'a reader = "string \<Rightarrow> ('a \<times> string) option"

definition to_digit :: "nat \<Rightarrow> char \<Rightarrow> nat option" where
  "to_digit radix c =
     (let n = (of_char c :: nat);
          d = (if 48 \<le> n \<and> n \<le> 57 then Some (n - 48)
               else if 97 \<le> n \<and> n \<le> 122 then Some (n - 87)
               else if 65 \<le> n \<and> n \<le> 90 then Some (n - 55) else None) in
      case d of None \<Rightarrow> None | Some v \<Rightarrow> if v < radix then Some v else None)"

definition digits_value :: "nat \<Rightarrow> string \<Rightarrow> nat" where
  "digits_value radix = foldl (\<lambda>v c. v * radix + the (to_digit radix c)) 0"

definition read_number :: "nat \<Rightarrow> nat \<Rightarrow> nat option \<Rightarrow> bool \<Rightarrow> nat reader" where
  "read_number mx radix max_digits allow_zero_prefix s =
     (let ds = takeWhile (\<lambda>c. to_digit radix c \<noteq> None) s in
      if ds = [] \<or> (case max_digits of None \<Rightarrow> False | Some k \<Rightarrow> k < length ds) then None
      else if \<not> allow_zero_prefix \<and> hd s = CHR ''0'' \<and> 1 < length ds then None
      else if mx < digits_value radix ds then None
      else Some (digits_value radix ds, drop (length ds) s))"

definition read_given_char :: "char \<Rightarrow> unit reader" where
  "read_given_char c s = (case s of [] \<Rightarrow> None | d # s' \<Rightarrow> if d = c then Some ((), s') else None)"

definition read_separator :: "char \<Rightarrow> nat \<Rightarrow> 'a reader \<Rightarrow> 'a reader" where
  "read_separator sep index inner s =
     (if 0 < index then Option.bind (read_given_char sep s) (\<lambda>(_, s'). inner s') else inner s)"

section \<open>Addresses\<close>

fun read_octets :: "nat \<Rightarrow> nat \<Rightarrow> bytes reader" where
  "read_octets i 0 s = Some ([], s)"
| "read_octets i (Suc k) s =
     Option.bind (read_separator (CHR ''.'') i (read_number u8_max 10 (Some 3) False) s) (\<lambda>(n, s').
     Option.bind (read_octets (Suc i) k s') (\<lambda>(octets, s''). Some (of_nat n # octets, s'')))"

definition read_ipv4_addr :: "bytes reader" where
  "read_ipv4_addr = read_octets 0 4"

text \<open>\<open>read_groups\<close>: the groups read, each as its two octets, whether they end in an embedded IPv4 address, and the rest.\<close>

fun read_groups :: "nat \<Rightarrow> nat \<Rightarrow> string \<Rightarrow> bytes list \<times> bool \<times> string" where
  "read_groups i 0 s = ([], False, s)"
| "read_groups i (Suc k) s =
     (case (if 0 < k then read_separator (CHR '':'') i read_ipv4_addr s else None) of
        Some (octets, s') \<Rightarrow> ([take 2 octets, drop 2 octets], True, s')
      | None \<Rightarrow>
          (case read_separator (CHR '':'') i (read_number u16_max 16 (Some 4) True) s of
             None \<Rightarrow> ([], False, s)
           | Some (g, s') \<Rightarrow> (case read_groups (Suc i) k s' of (gs, v4, s'') \<Rightarrow> (be_bytes 2 g # gs, v4, s''))))"

definition read_ipv6_addr :: "bytes reader" where
  "read_ipv6_addr s =
     (case read_groups 0 8 s of (front, front_ipv4, s1) \<Rightarrow>
      if length front = 8 then Some (concat front, s1)
      else if front_ipv4 then None
      else Option.bind (read_given_char (CHR '':'') s1) (\<lambda>(_, s2).
           Option.bind (read_given_char (CHR '':'') s2) (\<lambda>(_, s3).
           case read_groups 0 (8 - (length front + 1)) s3 of (rear, _, s4) \<Rightarrow>
             Some (concat front @ replicate (2 * (8 - length front - length rear)) 0 @ concat rear, s4))))"

definition read_ip_addr :: "ip_addr reader" where
  "read_ip_addr s =
     (case read_ipv4_addr s of
        Some (octets, s') \<Rightarrow> Some (V4 octets, s')
      | None \<Rightarrow> map_option (\<lambda>(octets, s'). (V6 octets, s')) (read_ipv6_addr s))"

definition parse_with :: "'a reader \<Rightarrow> string \<Rightarrow> 'a option" where
  "parse_with r s = Option.bind (r s) (\<lambda>(x, s'). if s' = [] then Some x else None)"

definition parse_ip_addr :: "string \<Rightarrow> ip_addr option" where
  "parse_ip_addr = parse_with read_ip_addr"

text \<open>Socket addresses; the scope of an IPv6 address is read and not kept.\<close>

definition read_port :: "nat reader" where
  "read_port s = Option.bind (read_given_char (CHR '':'') s) (\<lambda>(_, s'). read_number u16_max 10 None True s')"

definition skip_scope_id :: "string \<Rightarrow> string" where
  "skip_scope_id s =
     (case Option.bind (read_given_char (CHR ''%'') s) (\<lambda>(_, s'). read_number u32_max 10 None True s') of None \<Rightarrow> s | Some (_, s') \<Rightarrow> s')"

definition read_socket_addr :: "socket_addr reader" where
  "read_socket_addr s =
     (case Option.bind (read_ipv4_addr s) (\<lambda>(octets, s1).
           Option.bind (read_port s1) (\<lambda>(port, s2). Some (\<lparr>sa_ip = V4 octets, sa_port = port\<rparr>, s2))) of
        Some r \<Rightarrow> Some r
      | None \<Rightarrow>
          Option.bind (read_given_char (CHR ''['') s) (\<lambda>(_, s1).
          Option.bind (read_ipv6_addr s1) (\<lambda>(octets, s2).
          Option.bind (read_given_char (CHR '']'') (skip_scope_id s2)) (\<lambda>(_, s3).
          Option.bind (read_port s3) (\<lambda>(port, s4). Some (\<lparr>sa_ip = V6 octets, sa_port = port\<rparr>, s4))))))"

definition parse_socket_addr :: "string \<Rightarrow> socket_addr option" where
  "parse_socket_addr = parse_with read_socket_addr"

fun is_loopback :: "ip_addr \<Rightarrow> bool" where
  "is_loopback (V4 octets) = (take 1 octets = [127])"
| "is_loopback (V6 octets) = (octets = replicate 15 0 @ [1])"

section \<open>What parses is an address\<close>

lemma read_octets_length: "read_octets i k s = Some (octets, s') \<Longrightarrow> length octets = k"
  by (induction i k s arbitrary: octets s' rule: read_octets.induct) (auto simp: Option.bind_eq_Some_conv)

lemma read_separator_Some: "read_separator sep i inner s = Some r \<Longrightarrow> \<exists>s'. inner s' = Some r"
  by (auto simp: read_separator_def Option.bind_eq_Some_conv split: if_splits)

lemma read_groups_shape: "read_groups i k s = (gs, v4, s') \<Longrightarrow> length gs \<le> k \<and> (\<forall>g\<in>set gs. length g = 2)"
proof (induction k arbitrary: i s gs v4 s')
  case (Suc k)
  have four: "length octets = 4" if "read_separator c i read_ipv4_addr s = Some (octets, t)" for c octets t
    using read_separator_Some [OF that] read_octets_length by (auto simp: read_ipv4_addr_def)
  have "\<exists>n t hs. gs = be_bytes 2 n # hs \<and> read_groups (Suc i) k t = (hs, v4, s')"
    if "\<not> (k \<noteq> 0 \<and> read_separator (CHR '':'') i read_ipv4_addr s \<noteq> None)" "gs \<noteq> []"
    using Suc.prems that by (auto split: option.splits prod.splits if_splits)
  with Suc.prems Suc.IH show ?case
    by (cases "k \<noteq> 0 \<and> read_separator (CHR '':'') i read_ipv4_addr s \<noteq> None"; cases "gs = []") (force dest: four)+
qed simp

lemma length_concat_groups: "\<forall>g\<in>set gs. length g = 2 \<Longrightarrow> length (concat gs) = 2 * length gs"
  by (induction gs) auto

lemma read_ipv6_length:
  assumes "read_ipv6_addr s = Some (octets, s')"
  shows "length octets = 16"
proof -
  obtain front v4 s1 where f: "read_groups 0 8 s = (front, v4, s1)" by (metis prod_cases3)
  note sf = read_groups_shape [OF f] 
  show ?thesis
  proof (cases "length front = 8")
    case True
    with assms f have "octets = concat front" by (simp add: read_ipv6_addr_def)
    with True sf show ?thesis by (simp add: length_concat_groups)
  next
    case False
    with assms f obtain s3 where "(case read_groups 0 (8 - (length front + 1)) s3 of (rear, _, s4) \<Rightarrow>
        Some (concat front @ replicate (2 * (8 - length front - length rear)) 0 @ concat rear, s4)) = Some (octets, s')"
      by (auto simp: read_ipv6_addr_def Option.bind_eq_Some_conv split: if_splits)
    then obtain rear b s4 where r: "read_groups 0 (8 - (length front + 1)) s3 = (rear, b, s4)"
      and o: "octets = concat front @ replicate (2 * (8 - length front - length rear)) 0 @ concat rear"
      by (auto split: prod.splits)
    note sr = read_groups_shape [OF r]
    have "length front + length rear \<le> 8" using sf sr False by linarith
    with sf sr show ?thesis by (simp add: o length_concat_groups)
  qed
qed

lemma parse_ip_addr_ok: "parse_ip_addr s = Some a \<Longrightarrow> ip_ok a"
  by (auto simp: parse_ip_addr_def parse_with_def read_ip_addr_def read_ipv4_addr_def Option.bind_eq_Some_conv
      split: option.splits if_splits dest: read_octets_length read_ipv6_length)

section \<open>The dotted form parses back\<close>

text \<open>\<open>Display\<close> of \<open>Ipv4Addr\<close>.\<close>

fun show_octets :: "bytes \<Rightarrow> string" where
  "show_octets [] = []"
| "show_octets [b] = show_nat (unat b)"
| "show_octets (b # bs) = show_nat (unat b) @ ''.'' @ show_octets bs"

lemma to_digit_decimal: "k < 10 \<Longrightarrow> to_digit 10 (char_of (48 + k)) = Some k"
  by (simp add: to_digit_def)

lemma read_number_show:
  assumes "n \<le> 255" and "s = [] \<or> to_digit 10 (hd s) = None"
  shows "read_number u8_max 10 (Some 3) False (show_nat n @ s) = Some (n, s)"
proof -
  have stop: "takeWhile (\<lambda>c. to_digit 10 c \<noteq> None) s = []" using assms(2) by (cases s) auto
  have zero: "char_of (48 + k) = CHR ''0'' \<Longrightarrow> k = 0" if "k < 10" for k :: nat
  proof -
    assume "char_of (48 + k) = CHR ''0''"
    then have "(of_char (char_of (48 + k)) :: nat) = 48" by simp
    with that show "k = 0" by simp
  qed
  consider "n < 10" | "10 \<le> n" "n < 100" | "100 \<le> n" "n div 100 < 10" using assms(1) by linarith
  then show ?thesis
  proof cases
    case 1
    with assms(1) stop show ?thesis by (simp add: show_nat.simps [of n] read_number_def digits_value_def to_digit_decimal u8_max_def)
  next
    case 2
    then have s: "show_nat n = [char_of (48 + n div 10), char_of (48 + n mod 10)]" and d: "n div 10 < 10" "n div 10 \<noteq> 0"
      by (simp_all add: show_nat.simps [of n] show_nat.simps [of "n div 10"])
    have nz: "char_of (48 + n div 10) \<noteq> CHR ''0''" using zero [OF d(1)] d(2) by metis
    have dig: "to_digit 10 (char_of (48 + n div 10)) = Some (n div 10)" "to_digit 10 (char_of (48 + n mod 10)) = Some (n mod 10)"
      using d(1) by (simp_all add: to_digit_decimal)
    show ?thesis using assms(1) stop nz by (simp add: s dig read_number_def digits_value_def u8_max_def Let_def)
  next
    case 3
    then have s: "show_nat n = [char_of (48 + n div 100), char_of (48 + n div 10 mod 10), char_of (48 + n mod 10)]" and d: "n div 100 \<noteq> 0"
      by (simp_all add: show_nat.simps [of n] show_nat.simps [of "n div 10"] show_nat.simps [of "n div 100"] div_mult2_eq [symmetric])
    have nz: "char_of (48 + n div 100) \<noteq> CHR ''0''" using zero [OF 3(2)] d by metis
    have dig: "to_digit 10 (char_of (48 + n div 100)) = Some (n div 100)" "to_digit 10 (char_of (48 + n mod 10)) = Some (n mod 10)"
      "to_digit 10 (char_of (48 + n div 10 mod 10)) = Some (n div 10 mod 10)"
      using 3(2) by (simp_all add: to_digit_decimal)
    have "(n div 100 * 10 + n div 10 mod 10) * 10 + n mod 10 = n"
      using div_mult_mod_eq [of "n div 10" 10] div_mult_mod_eq [of n 10] by (simp only: div_mult2_eq [symmetric]) simp
    then show ?thesis using assms(1) stop nz by (simp add: s dig read_number_def digits_value_def u8_max_def Let_def)
  qed
qed

lemma read_octets_step:
  "read_separator (CHR ''.'') i (read_number u8_max 10 (Some 3) False) s = Some (n, s') \<Longrightarrow>
     read_octets (Suc i) k s' = Some (octets, s'') \<Longrightarrow> read_octets i (Suc k) s = Some (of_nat n # octets, s'')"
  by simp

lemma read_octets_show:
  "bs \<noteq> [] \<Longrightarrow> read_octets i (length bs) ((if i = 0 then [] else ''.'') @ show_octets bs) = Some (bs, [])"
proof (induction bs arbitrary: i rule: show_octets.induct)
  case (2 b)
  have "unat b \<le> 255" using unat_byte_lt [of b] by simp
  then show ?case using read_number_show [of "unat b" "[]"] by (simp add: read_separator_def read_given_char_def)
next
  case (3 b c bs)
  have "unat b \<le> 255" using unat_byte_lt [of b] by simp
  moreover have "to_digit 10 (CHR ''.'') = None" by (simp add: to_digit_def)
  ultimately have "read_number u8_max 10 (Some 3) False (show_nat (unat b) @ ''.'' @ show_octets (c # bs)) = Some (unat b, ''.'' @ show_octets (c # bs))"
    by (intro read_number_show) simp_all
  then have "read_separator (CHR ''.'') i (read_number u8_max 10 (Some 3) False)
      ((if i = 0 then [] else ''.'') @ show_octets (b # c # bs)) = Some (unat b, ''.'' @ show_octets (c # bs))"
    by (simp add: read_separator_def read_given_char_def)
  from read_octets_step [OF this] "3.IH" [of "Suc i"] show ?case by (simp del: read_octets.simps)
qed simp

lemma parse_ipv4_show: "length octets = 4 \<Longrightarrow> parse_ip_addr (show_octets octets) = Some (V4 octets)"
  using read_octets_show [of octets 0]
  by (cases octets) (simp_all add: parse_ip_addr_def parse_with_def read_ip_addr_def read_ipv4_addr_def)

end
