(* ===== verification/Snap.thy ===== *)
theory Snap
  imports Complex_Main Snap_Graph Audit_Journal Ip_Text "HOL-Library.Product_Lexorder" "HOL-Library.Multiset"
begin

text \<open>
  SNAP connection profiles and plans, \<open>shph-snap/src/lib.rs\<close>: the validation of a profile, the retry policy with Python's
  seeded shuffle, and the planner.  JSON and TOML decoding (\<open>serde_json\<close>, \<open>toml\<close>) and the normalization before it are
  not modelled: the model starts at the decoded \<open>SnapProfile\<close>.  A floating-point number is its exact rational value or
  not finite; the functions here only compare them.
\<close>

section \<open>Errors, numbers and text\<close>

datatype snap_error = Invalid string | UnsupportedFormat string | TooLarge

type_synonym 'a snap = "snap_error + 'a"

datatype f64 = Finite rat | NonFinite

definition PROFILE_VERSION :: u32 where "PROFILE_VERSION = 1"
definition MAX_DIRECT_ENDPOINTS :: usize where "MAX_DIRECT_ENDPOINTS = 16"
definition MAX_BRIDGES :: usize where "MAX_BRIDGES = 32"
definition MAX_RETRY_ROUNDS :: u32 where "MAX_RETRY_ROUNDS = 12"
definition MAX_RETRY_ATTEMPTS :: u32 where "MAX_RETRY_ATTEMPTS = 1024"

text \<open>The double nearest to 0.2.\<close>

definition f64_0_2 :: rat where "f64_0_2 = 3602879701896397 / 18014398509481984"

definition validate_range :: "string \<Rightarrow> f64 \<Rightarrow> rat \<times> string \<Rightarrow> rat \<times> string \<Rightarrow> unit snap" where
  "validate_range field value lo hi =
     (case value of
        Finite v \<Rightarrow> if fst lo \<le> v \<and> v \<le> fst hi then Inr ()
                    else Inl (Invalid (field @ '' must be between '' @ snd lo @ '' and '' @ snd hi))
      | NonFinite \<Rightarrow> Inl (Invalid (field @ '' must be between '' @ snd lo @ '' and '' @ snd hi)))"

definition validate_optional_timeout :: "string \<Rightarrow> f64 option \<Rightarrow> unit snap" where
  "validate_optional_timeout field value =
     (case value of None \<Rightarrow> Inr () | Some v \<Rightarrow> validate_range field v (f64_0_2, ''0.2'') (120, ''120''))"

definition validate_text :: "string \<Rightarrow> string \<Rightarrow> usize \<Rightarrow> unit snap" where
  "validate_text field value limit =
     (if str_trim value = [] \<or> limit < length value \<or> has_control value then Inl (Invalid (field @ '' is invalid'')) else Inr ())"

definition validate_host :: "string \<Rightarrow> string \<Rightarrow> unit snap" where
  "validate_host field value =
     (case validate_text field value 253 of Inl e \<Rightarrow> Inl e | Inr _ \<Rightarrow>
        if has_whitespace value \<or> CHR ''/'' \<in> set value then Inl (Invalid (field @ '' is invalid'')) else Inr ())"

definition validate_port :: "string \<Rightarrow> u16 \<Rightarrow> unit snap" where
  "validate_port field value = (if value = 0 then Inl (Invalid (field @ '' must be non-zero'')) else Inr ())"

definition validate_ws_path :: "string \<Rightarrow> unit snap" where
  "validate_ws_path value =
     (if take 1 value \<noteq> ''/'' \<or> 1024 < length value \<or> has_whitespace value \<or> has_control value
        then Inl (Invalid ''ws_path must be an absolute path without whitespace'') else Inr ())"

section \<open>Literal IP addresses\<close>

definition parses_as_ip :: "string \<Rightarrow> bool" where
  "parses_as_ip s \<longleftrightarrow> parse_ip_addr s \<noteq> None"

definition validate_ip :: "string \<Rightarrow> string \<Rightarrow> unit snap" where
  "validate_ip field value =
     (if parses_as_ip value then Inr () else Inl (Invalid (field @ '' must be a literal IP address'')))"

section \<open>Retry policy\<close>

datatype round_order = Stable | Rotate | Shuffle

record retry_policy =
  rounds :: u32
  backoff_base_sec :: f64
  backoff_max_sec :: f64
  jitter_ratio :: f64
  rp_round_order :: round_order
  shuffle_seed :: "u64 option"
  max_total_attempts :: u32
  max_elapsed_sec :: f64

fun f64_less :: "f64 \<Rightarrow> f64 \<Rightarrow> bool" where
  "f64_less (Finite a) (Finite b) = (a < b)"
| "f64_less _ _ = False"

definition retry_policy_validate :: "retry_policy \<Rightarrow> unit snap" where
  "retry_policy_validate p =
     (if \<not> (1 \<le> rounds p \<and> rounds p \<le> MAX_RETRY_ROUNDS) then Inl (Invalid ''retry_policy.rounds must be between 1 and 12'')
      else case validate_range ''retry_policy.backoff_base_sec'' (backoff_base_sec p) (0, ''0'') (120, ''120'') of Inl e \<Rightarrow> Inl e | Inr _ \<Rightarrow>
        (case validate_range ''retry_policy.backoff_max_sec'' (backoff_max_sec p) (0, ''0'') (120, ''120'') of Inl e \<Rightarrow> Inl e | Inr _ \<Rightarrow>
         if f64_less (backoff_max_sec p) (backoff_base_sec p)
           then Inl (Invalid ''retry_policy.backoff_max_sec must be >= backoff_base_sec'')
         else case validate_range ''retry_policy.jitter_ratio'' (jitter_ratio p) (0, ''0'') (1 / 2, ''0.5'') of Inl e \<Rightarrow> Inl e | Inr _ \<Rightarrow>
           if MAX_RETRY_ATTEMPTS < max_total_attempts p
             then Inl (Invalid ''retry_policy.max_total_attempts must not exceed 1024'')
           else case validate_range ''retry_policy.max_elapsed_sec'' (max_elapsed_sec p) (0, ''0'') (3600, ''3600'') of Inl e \<Rightarrow> Inl e | Inr _ \<Rightarrow>
             if (case shuffle_seed p of None \<Rightarrow> False | Some seed \<Rightarrow> 2147483647 < seed)
               then Inl (Invalid ''retry_policy.shuffle_seed must not exceed 2147483647'')
             else Inr ()))"

definition attempt_limit :: "retry_policy \<Rightarrow> usize \<Rightarrow> usize" where
  "attempt_limit p candidate_count =
     (let computed = min usize_max (candidate_count * rounds p) in
      if max_total_attempts p = 0 then computed else min computed (max_total_attempts p))"

text \<open>Python's Mersenne Twister on 32-bit words.\<close>

record mt19937 =
  mt_state :: "32 word list"
  mt_index :: nat

unbundle bit_operations_syntax

definition mt_mix :: "32 word \<Rightarrow> 32 word" where
  "mt_mix previous = previous XOR drop_bit 30 previous"

fun mt_fill :: "nat \<Rightarrow> nat \<Rightarrow> 32 word list \<Rightarrow> 32 word list" where
  "mt_fill 0 index state = state"
| "mt_fill (Suc n) index state =
     mt_fill n (Suc index) (state[index := 1812433253 * mt_mix (state ! (index - 1)) + of_nat index])"

fun mt_by_key :: "nat \<Rightarrow> 32 word list \<Rightarrow> nat \<Rightarrow> nat \<Rightarrow> 32 word list \<Rightarrow> 32 word list \<times> nat" where
  "mt_by_key 0 key si ki state = (state, si)"
| "mt_by_key (Suc n) key si ki state =
     (let state1 = state[si := (state ! si XOR (mt_mix (state ! (si - 1)) * 1664525)) + key ! ki + of_nat ki];
          si1 = Suc si; ki1 = Suc ki;
          (state2, si2) = (if 624 \<le> si1 then (state1[0 := state1 ! 623], 1) else (state1, si1));
          ki2 = (if length key \<le> ki1 then 0 else ki1)
      in mt_by_key n key si2 ki2 state2)"

fun mt_finish :: "nat \<Rightarrow> nat \<Rightarrow> 32 word list \<Rightarrow> 32 word list" where
  "mt_finish 0 si state = state"
| "mt_finish (Suc n) si state =
     (let state1 = state[si := (state ! si XOR (mt_mix (state ! (si - 1)) * 1566083941)) - of_nat si];
          si1 = Suc si;
          (state2, si2) = (if 624 \<le> si1 then (state1[0 := state1 ! 623], 1) else (state1, si1))
      in mt_finish n si2 state2)"

definition mt_new :: "u64 \<Rightarrow> mt19937" where
  "mt_new seed =
     (let state0 = mt_fill 623 1 ((replicate 624 0)[0 := 19650218]);
          key = [of_nat seed] @ (if seed div 2 ^ 32 \<noteq> 0 then [of_nat (seed div 2 ^ 32)] else []);
          (state1, si) = mt_by_key (max 624 (length key)) key 1 0 state0;
          state2 = mt_finish 623 si state1
      in \<lparr>mt_state = state2[0 := 0x80000000], mt_index = 624\<rparr>)"

definition mt_combine :: "32 word \<Rightarrow> 32 word \<Rightarrow> 32 word \<Rightarrow> 32 word" where
  "mt_combine base high low =
     (let value = (high AND 0x80000000) OR (low AND 0x7fffffff)
      in base XOR drop_bit 1 value XOR (if value AND 1 = 0 then 0 else 0x9908b0df))"

definition mt_twist :: "mt19937 \<Rightarrow> mt19937" where
  "mt_twist r =
     (let s1 = foldl (\<lambda>s i. s[i := mt_combine (s ! (i + 397)) (s ! i) (s ! (i + 1))]) (mt_state r) [0..<227];
          s2 = foldl (\<lambda>s i. s[i := mt_combine (s ! (i - 227)) (s ! i) (s ! (i + 1))]) s1 [227..<623]
      in \<lparr>mt_state = s2[623 := mt_combine (s2 ! 396) (s2 ! 623) (s2 ! 0)], mt_index = 0\<rparr>)"

definition mt_next_u32 :: "mt19937 \<Rightarrow> 32 word \<times> mt19937" where
  "mt_next_u32 r =
     (let r1 = (if 624 \<le> mt_index r then mt_twist r else r);
          v0 = mt_state r1 ! mt_index r1;
          v1 = v0 XOR drop_bit 11 v0;
          v2 = v1 XOR (push_bit 7 v1 AND 0x9d2c5680);
          v3 = v2 XOR (push_bit 15 v2 AND 0xefc60000)
      in (v3 XOR drop_bit 18 v3, r1\<lparr>mt_index := Suc (mt_index r1)\<rparr>))"

definition bit_length :: "nat \<Rightarrow> nat" where
  "bit_length n = length (takeWhile (\<lambda>k. 2 ^ k \<le> n) [0..<64])"

partial_function (option) randbelow :: "mt19937 \<Rightarrow> usize \<Rightarrow> (usize \<times> mt19937) option" where
  "randbelow r upper_bound =
     (case mt_next_u32 r of
        (word, r') \<Rightarrow> if unat (drop_bit (32 - bit_length upper_bound) word) < upper_bound
                      then Some (unat (drop_bit (32 - bit_length upper_bound) word), r')
                      else randbelow r' upper_bound)"

definition swap :: "nat \<Rightarrow> nat \<Rightarrow> 'a list \<Rightarrow> 'a list" where
  "swap i j xs = xs[i := xs ! j, j := xs ! i]"

fun shuffle_loop :: "nat \<Rightarrow> mt19937 \<Rightarrow> 'a list \<Rightarrow> 'a list option" where
  "shuffle_loop 0 random values = Some values"
| "shuffle_loop (Suc index) random values =
     (case randbelow random (Suc index + 1) of
        None \<Rightarrow> None
      | Some (selected, random') \<Rightarrow> shuffle_loop index random' (swap (Suc index) selected values))"

definition python_seeded_shuffle :: "'a list \<Rightarrow> u64 \<Rightarrow> 'a list option" where
  "python_seeded_shuffle values seed = shuffle_loop (length values - 1) (mt_new seed) values"

text \<open>\<open>drawn\<close> is the seed that the thread generator gives when the profile has none.\<close>

definition ordered_round :: "u64 \<Rightarrow> retry_policy \<Rightarrow> 'a list \<Rightarrow> u32 \<Rightarrow> 'a list option" where
  "ordered_round drawn p candidates round_index =
     (if length candidates \<le> 1 then Some candidates
      else case rp_round_order p of
          Stable \<Rightarrow> Some candidates
        | Rotate \<Rightarrow> let offset = (round_index - 1) mod length candidates in Some (drop offset candidates @ take offset candidates)
        | Shuffle \<Rightarrow> let seed = (case shuffle_seed p of Some s \<Rightarrow> s | None \<Rightarrow> drawn)
                     in python_seeded_shuffle candidates ((seed + round_index) mod (u64_max + 1)))"


section \<open>Profiles\<close>

text \<open>A sequence of checks with \<open>?\<close> stops at the first error.\<close>

fun first_error :: "unit snap list \<Rightarrow> unit snap" where
  "first_error [] = Inr ()"
| "first_error (Inl e # cs) = Inl e"
| "first_error (Inr _ # cs) = first_error cs"

definition reject_if :: "bool \<Rightarrow> string \<Rightarrow> unit snap" where
  "reject_if b message = (if b then Inl (Invalid message) else Inr ())"

definition KNOWN_ADAPTERS :: "string list" where
  "KNOWN_ADAPTERS = [''direct-tcp'', ''bridge-onion-tcp'', ''bridge-tls'', ''bridge-ws'', ''shroud-tcp'', ''mesh-dtn-local'', ''mule-usb'',
     ''edge-relay'', ''quic'', ''quic-standard'', ''offline-mesh'', ''data-mule'']"

datatype snap_mode = Auto | DirectOnly | BridgesOnly | OnionOnly

record direct_endpoint =
  de_ip :: string
  de_port :: u16
  de_transport :: string
  de_adapter :: string
  de_tls_enabled :: bool
  de_sni :: "string option"
  de_edge_label :: "string option"
  de_priority :: u16
  de_weight :: u16
  de_timeout_sec :: "f64 option"
  de_allowed_fallback :: "string list"

record operator_service_contract =
  oc_owner :: string
  oc_service_id :: string
  oc_authorization_ref :: string

record bridge =
  br_label :: string
  br_ip :: string
  br_port :: u16
  br_key_file :: "string option"
  br_route_file :: "string option"
  br_transport :: string
  br_adapter :: string
  br_tls_enabled :: bool
  br_sni :: "string option"
  br_edge_label :: "string option"
  br_priority :: u16
  br_weight :: u16
  br_timeout_sec :: "f64 option"
  br_allowed_fallback :: "string list"
  br_tls_ca_file :: "string option"
  br_tls_cert_sha256 :: "string option"
  br_ws_path :: "string option"
  br_shroud_profile :: "string option"
  br_contract :: "operator_service_contract option"

record edge_profile =
  ed_host :: string
  ed_port :: u16
  ed_tls_required :: bool
  ed_notes :: string

record snap_profile =
  sp_version :: u32
  sp_profile_name :: string
  sp_mode :: snap_mode
  sp_peer_alias :: string
  sp_connect_timeout_sec :: f64
  sp_direct_endpoints :: "direct_endpoint list"
  sp_bridges :: "bridge list"
  sp_retry_policy :: retry_policy
  sp_edge_profiles :: "(string \<times> edge_profile) list"
  sp_adapter_order :: "string list"

definition validate_adapter :: "string \<Rightarrow> unit snap" where
  "validate_adapter adapter = reject_if (adapter \<notin> set KNOWN_ADAPTERS) (''unsupported adapter name: '' @ adapter)"

definition validate_adapters :: "string list \<Rightarrow> unit snap" where
  "validate_adapters names = first_error (map validate_adapter names)"

definition validate_priority_weight :: "u16 \<Rightarrow> u16 \<Rightarrow> unit snap" where
  "validate_priority_weight priority weight = first_error
     [reject_if (1000 < priority) ''priority must not exceed 1000'',
      reject_if (\<not> (1 \<le> weight \<and> weight \<le> 1000)) ''weight must be between 1 and 1000'']"

definition contract_validate :: "operator_service_contract \<Rightarrow> unit snap" where
  "contract_validate c = first_error
     [validate_text ''operator_service_contract.owner'' (oc_owner c) 128,
      validate_text ''operator_service_contract.service_id'' (oc_service_id c) 128,
      validate_text ''operator_service_contract.authorization_ref'' (oc_authorization_ref c) 128]"

definition direct_transport :: "string \<Rightarrow> string option" where
  "direct_transport adapter =
     (if adapter = ''direct-tcp'' then Some ''tcp''
      else if adapter \<in> {''quic'', ''quic-standard'', ''offline-mesh'', ''data-mule''} then Some adapter
      else None)"

definition direct_endpoint_validate :: "direct_endpoint \<Rightarrow> unit snap" where
  "direct_endpoint_validate e = first_error
     [validate_ip ''direct endpoint ip'' (de_ip e),
      validate_port ''direct endpoint port'' (de_port e),
      validate_adapter (de_adapter e),
      (case direct_transport (de_adapter e) of
         None \<Rightarrow> Inl (Invalid (''direct_endpoints adapter '' @ [CHR 0x27] @ de_adapter e @ [CHR 0x27] @ '' is not a SHPH direct transport''))
       | Some expected \<Rightarrow> reject_if (de_transport e \<noteq> expected)
           (''direct_endpoints adapter '' @ [CHR 0x27] @ de_adapter e @ [CHR 0x27] @ '' requires transport '' @ [CHR 0x27] @ expected @ [CHR 0x27])),
      reject_if (de_tls_enabled e \<or> de_sni e \<noteq> None \<or> de_edge_label e \<noteq> None)
        ''direct endpoints cannot configure TLS, SNI, or edge_label'',
      validate_priority_weight (de_priority e) (de_weight e),
      validate_optional_timeout ''direct endpoint timeout_sec'' (de_timeout_sec e),
      validate_adapters (de_allowed_fallback e)]"

definition bridge_transport :: "string \<Rightarrow> string" where
  "bridge_transport adapter =
     (if adapter \<in> {''quic'', ''quic-standard'', ''offline-mesh'', ''data-mule''} then adapter else ''onion-tcp'')"

definition requires_tls :: "string \<Rightarrow> bool" where
  "requires_tls adapter \<longleftrightarrow> adapter \<in> {''bridge-tls'', ''bridge-ws'', ''shroud-tcp'', ''edge-relay''}"

definition requires_key_file :: "string \<Rightarrow> bool" where
  "requires_key_file adapter \<longleftrightarrow> adapter \<in> {''bridge-onion-tcp'', ''bridge-tls'', ''bridge-ws'', ''shroud-tcp'', ''edge-relay'',
     ''mesh-dtn-local'', ''mule-usb''}"

definition is_ascii_hexdigit :: "char \<Rightarrow> bool" where
  "is_ascii_hexdigit c \<longleftrightarrow> to_digit 16 c \<noteq> None"

definition optional_text :: "string \<Rightarrow> string option \<Rightarrow> unit snap" where
  "optional_text field value = (case value of None \<Rightarrow> Inr () | Some v \<Rightarrow> validate_text field v 4096)"

definition bridge_validate :: "(string \<times> edge_profile) list \<Rightarrow> string set \<Rightarrow> bridge \<Rightarrow> unit snap" where
  "bridge_validate edges labels b = first_error
     [validate_text ''bridge label'' (br_label b) 128,
      reject_if (br_label b \<in> labels) (''duplicate bridge label: '' @ br_label b),
      validate_ip ''bridge ip'' (br_ip b),
      validate_port ''bridge port'' (br_port b),
      reject_if (br_transport b \<noteq> bridge_transport (br_adapter b))
        (''bridge adapter '' @ [CHR 0x27] @ br_adapter b @ [CHR 0x27] @ '' requires transport '' @ [CHR 0x27] @ bridge_transport (br_adapter b) @ [CHR 0x27]),
      validate_adapter (br_adapter b),
      reject_if (br_adapter b = ''direct-tcp'') ''bridge adapter cannot be direct-tcp'',
      reject_if (requires_key_file (br_adapter b) \<and> br_key_file b = None)
        (br_adapter b @ '' requires key_file in a Python-compatible SNAP profile''),
      validate_priority_weight (br_priority b) (br_weight b),
      validate_optional_timeout ''bridge timeout_sec'' (br_timeout_sec b),
      validate_adapters (br_allowed_fallback b),
      reject_if (br_adapter b = ''bridge-onion-tcp'' \<and> (br_edge_label b \<noteq> None \<or> br_tls_enabled b \<or> br_sni b \<noteq> None))
        ''bridge-onion-tcp cannot configure TLS, SNI, or edge_label'',
      reject_if (br_adapter b = ''bridge-onion-tcp'' \<and> br_key_file b = None) ''bridge-onion-tcp requires key_file'',
      reject_if (requires_tls (br_adapter b) \<and> (\<not> br_tls_enabled b \<or> br_sni b = None \<or> br_sni b = Some []))
        (br_adapter b @ '' requires tls_enabled=true and a non-empty sni''),
      (case br_edge_label b of
         Some label \<Rightarrow> reject_if (map_of edges label = None) (''edge_label references an unknown edge profile: '' @ label)
       | None \<Rightarrow> reject_if (requires_tls (br_adapter b)) (br_adapter b @ '' requires edge_label'')),
      reject_if (br_adapter b = ''bridge-ws'' \<and> br_ws_path b = None) ''bridge-ws requires ws_path'',
      (case br_ws_path b of
         None \<Rightarrow> Inr ()
       | Some path \<Rightarrow> first_error [validate_ws_path path,
           reject_if (br_adapter b \<notin> {''bridge-ws'', ''shroud-tcp''}) ''ws_path is only valid for bridge-ws or shroud-tcp'']),
      (case br_shroud_profile b of
         None \<Rightarrow> Inr ()
       | Some profile \<Rightarrow> reject_if (br_adapter b \<noteq> ''shroud-tcp'' \<or> profile \<notin> {''low-latency'', ''balanced'', ''bulk'', ''interactive'',
             ''stealth-safe'', ''default'', ''bulk-transfer''}) ''invalid shroud_profile for this bridge''),
      (case br_contract b of
         None \<Rightarrow> Inr ()
       | Some contract \<Rightarrow> first_error
           [reject_if (br_adapter b \<in> {''mesh-dtn-local'', ''mule-usb''})
              ''operator_service_contract is only valid for network bridges and relays'',
            contract_validate contract]),
      (case br_tls_cert_sha256 b of
         None \<Rightarrow> Inr ()
       | Some pin \<Rightarrow> reject_if (length pin \<noteq> 64 \<or> \<not> list_all is_ascii_hexdigit pin)
           ''tls_cert_sha256 must be a 64-character SHA-256 hex value''),
      reject_if (br_tls_ca_file b \<noteq> None \<and> \<not> br_tls_enabled b) ''tls_ca_file requires tls_enabled=true'',
      optional_text ''key_file'' (br_key_file b),
      optional_text ''route_file'' (br_route_file b),
      optional_text ''tls_ca_file'' (br_tls_ca_file b)]"

fun bridges_validate :: "(string \<times> edge_profile) list \<Rightarrow> string set \<Rightarrow> bridge list \<Rightarrow> unit snap" where
  "bridges_validate edges labels [] = Inr ()"
| "bridges_validate edges labels (b # bs) =
     (case bridge_validate edges labels b of Inl e \<Rightarrow> Inl e | Inr _ \<Rightarrow> bridges_validate edges (insert (br_label b) labels) bs)"

definition edge_validate :: "string \<times> edge_profile \<Rightarrow> unit snap" where
  "edge_validate le = first_error
     [validate_text ''edge profile label'' (fst le) 128,
      validate_host ''edge profile host'' (ed_host (snd le)),
      validate_port ''edge profile port'' (ed_port (snd le)),
      reject_if (2048 < length (ed_notes (snd le)) \<or> has_control (ed_notes (snd le))) (''edge_profiles['' @ fst le @ ''].notes is invalid'')]"

text \<open>The fallback graph: the adapters and fallback lists of all candidates, direct endpoints first, and the edges from
  each candidate to every other one whose adapter it names.\<close>

definition fallback_candidates :: "snap_profile \<Rightarrow> (string \<times> string list) list" where
  "fallback_candidates p = map (\<lambda>e. (de_adapter e, de_allowed_fallback e)) (sp_direct_endpoints p)
     @ map (\<lambda>b. (br_adapter b, br_allowed_fallback b)) (sp_bridges p)"

definition fallback_matches :: "(string \<times> string list) list \<Rightarrow> nat \<Rightarrow> string list \<Rightarrow> nat list" where
  "fallback_matches cs current allowed = filter (\<lambda>i. i \<noteq> current \<and> fst (cs ! i) \<in> set allowed) [0..<length cs]"

definition fallback_edges_at :: "(string \<times> string list) list \<Rightarrow> nat \<Rightarrow> nat list snap" where
  "fallback_edges_at cs current =
     (let allowed = snd (cs ! current) in
      if allowed = [] then Inr []
      else case find (\<lambda>nm. nm \<notin> fst ` set cs) allowed of
          Some nm \<Rightarrow> Inl (Invalid (''allowed_fallback references adapter absent from profile: '' @ nm))
        | None \<Rightarrow> let ms = fallback_matches cs current allowed in
            if ms = [] then Inl (Invalid ''allowed_fallback does not resolve to another candidate'') else Inr ms)"

fun collect_edges :: "(nat \<Rightarrow> nat list snap) \<Rightarrow> nat list \<Rightarrow> nat list list snap" where
  "collect_edges f [] = Inr []"
| "collect_edges f (i # is) =
     (case f i of Inl e \<Rightarrow> Inl e | Inr js \<Rightarrow> (case collect_edges f is of Inl e \<Rightarrow> Inl e | Inr rest \<Rightarrow> Inr (js # rest)))"

text \<open>\<open>None\<close> would be an index out of range in the search.\<close>

definition validate_fallback_graph :: "snap_profile \<Rightarrow> unit snap option" where
  "validate_fallback_graph p =
     (let cs = fallback_candidates p in
      case collect_edges (fallback_edges_at cs) [0..<length cs] of
        Inl e \<Rightarrow> Some (Inl e)
      | Inr edges \<Rightarrow> map_option (\<lambda>b. reject_if b ''allowed_fallback graph must be acyclic'') (has_cycle edges))"

definition profile_checks :: "snap_profile \<Rightarrow> unit snap" where
  "profile_checks p = first_error
     [reject_if (sp_version p \<noteq> PROFILE_VERSION) (''unsupported profile version '' @ show_nat (sp_version p) @ ''; expected 1''),
      validate_text ''profile_name'' (sp_profile_name p) 128,
      validate_text ''peer_alias'' (sp_peer_alias p) 128,
      validate_range ''connect_timeout_sec'' (sp_connect_timeout_sec p) (f64_0_2, ''0.2'') (60, ''60''),
      retry_policy_validate (sp_retry_policy p),
      reject_if (sp_mode p = DirectOnly \<and> sp_direct_endpoints p = []) ''direct-only mode requires at least one direct_endpoints entry'',
      reject_if (sp_mode p \<in> {BridgesOnly, OnionOnly} \<and> sp_bridges p = [])
        ((if sp_mode p = BridgesOnly then ''bridges-only'' else ''onion-only'') @ '' mode requires at least one bridge entry''),
      reject_if (MAX_DIRECT_ENDPOINTS < length (sp_direct_endpoints p)) ''direct_endpoints supports at most 16 entries'',
      reject_if (MAX_BRIDGES < length (sp_bridges p)) ''bridges supports at most 32 entries'',
      validate_adapters (sp_adapter_order p),
      bridges_validate (sp_edge_profiles p) {} (sp_bridges p),
      first_error (map direct_endpoint_validate (sp_direct_endpoints p)),
      first_error (map edge_validate (sp_edge_profiles p))]"

definition profile_validate :: "snap_profile \<Rightarrow> unit snap option" where
  "profile_validate p = (case profile_checks p of Inl e \<Rightarrow> Some (Inl e) | Inr _ \<Rightarrow> validate_fallback_graph p)"

definition validate_operator_service_contracts :: "snap_profile \<Rightarrow> unit snap" where
  "validate_operator_service_contracts p = first_error (map (\<lambda>b.
     reject_if (br_adapter b \<notin> {''mesh-dtn-local'', ''mule-usb''} \<and> br_contract b = None)
       (''bridge '' @ [CHR 0x27] @ br_label b @ [CHR 0x27] @ '' requires operator_service_contract'')) (sp_bridges p))"


section \<open>Plans\<close>

datatype candidate_kind = Direct | Bridge

record snap_candidate =
  c_kind :: candidate_kind
  c_adapter :: string
  c_transport :: string
  c_target_host :: string
  c_target_port :: u16
  c_source :: string
  c_priority :: u16
  c_weight :: u16
  c_timeout_sec :: "f64 option"
  c_allowed_fallback :: "string list"
  c_edge_label :: "string option"
  c_route_file :: "string option"
  c_tls_enabled :: "bool option"
  c_sni :: "string option"
  c_tls_ca_file :: "string option"
  c_tls_cert_sha256 :: "string option"
  c_ws_path :: "string option"
  c_shroud_profile :: "string option"
  c_relay_ip :: "string option"
  c_relay_port :: "u16 option"
  c_key_file :: "string option"
  c_contract :: "operator_service_contract option"
  c_candidate_id :: string
  c_insertion_index :: usize

definition default_candidate :: "string \<Rightarrow> u16 \<Rightarrow> snap_candidate" where
  "default_candidate peer_host peer_port =
     \<lparr>c_kind = Direct, c_adapter = ''direct-tcp'', c_transport = ''tcp'', c_target_host = peer_host, c_target_port = peer_port,
      c_source = ''profile_direct_endpoint'', c_priority = 100, c_weight = 100, c_timeout_sec = None, c_allowed_fallback = [],
      c_edge_label = None, c_route_file = None, c_tls_enabled = None, c_sni = None, c_tls_ca_file = None, c_tls_cert_sha256 = None,
      c_ws_path = None, c_shroud_profile = None, c_relay_ip = None, c_relay_port = None, c_key_file = None, c_contract = None,
      c_candidate_id = [], c_insertion_index = 0\<rparr>"

definition direct_candidate :: "nat \<Rightarrow> direct_endpoint \<Rightarrow> snap_candidate" where
  "direct_candidate insertion e =
     \<lparr>c_kind = Direct, c_adapter = de_adapter e, c_transport = de_transport e, c_target_host = de_ip e, c_target_port = de_port e,
      c_source = ''profile_direct_endpoint'', c_priority = de_priority e, c_weight = de_weight e, c_timeout_sec = de_timeout_sec e,
      c_allowed_fallback = de_allowed_fallback e, c_edge_label = None, c_route_file = None,
      c_tls_enabled = (if de_tls_enabled e then Some True else None), c_sni = de_sni e, c_tls_ca_file = None, c_tls_cert_sha256 = None,
      c_ws_path = None, c_shroud_profile = None, c_relay_ip = None, c_relay_port = None, c_key_file = None, c_contract = None,
      c_candidate_id = [], c_insertion_index = insertion\<rparr>"

definition bridge_target :: "snap_profile \<Rightarrow> string \<Rightarrow> u16 \<Rightarrow> bridge \<Rightarrow> string \<times> u16" where
  "bridge_target p peer_host peer_port b =
     (if br_adapter b = ''bridge-onion-tcp'' then (peer_host, peer_port)
      else case Option.bind (br_edge_label b) (map_of (sp_edge_profiles p)) of
          Some edge \<Rightarrow> (ed_host edge, ed_port edge)
        | None \<Rightarrow> (peer_host, peer_port))"

definition bridge_candidate :: "snap_profile \<Rightarrow> string \<Rightarrow> u16 \<Rightarrow> nat \<Rightarrow> bridge \<Rightarrow> snap_candidate" where
  "bridge_candidate p peer_host peer_port insertion b =
     \<lparr>c_kind = Bridge, c_adapter = br_adapter b, c_transport = br_transport b,
      c_target_host = fst (bridge_target p peer_host peer_port b), c_target_port = snd (bridge_target p peer_host peer_port b),
      c_source = ''bridge:'' @ br_label b, c_priority = br_priority b, c_weight = br_weight b, c_timeout_sec = br_timeout_sec b,
      c_allowed_fallback = br_allowed_fallback b, c_edge_label = br_edge_label b, c_route_file = br_route_file b,
      c_tls_enabled = Some (br_tls_enabled b), c_sni = br_sni b, c_tls_ca_file = br_tls_ca_file b,
      c_tls_cert_sha256 = br_tls_cert_sha256 b, c_ws_path = br_ws_path b, c_shroud_profile = br_shroud_profile b,
      c_relay_ip = Some (br_ip b), c_relay_port = Some (br_port b), c_key_file = br_key_file b, c_contract = br_contract b,
      c_candidate_id = [], c_insertion_index = insertion\<rparr>"

definition include_direct :: "snap_mode \<Rightarrow> bool" where
  "include_direct m \<longleftrightarrow> m \<in> {Auto, DirectOnly}"

definition include_bridges :: "snap_mode \<Rightarrow> bool" where
  "include_bridges m \<longleftrightarrow> m \<in> {Auto, BridgesOnly, OnionOnly}"

definition plan_direct :: "snap_profile \<Rightarrow> string \<Rightarrow> u16 \<Rightarrow> snap_candidate list" where
  "plan_direct p peer_host peer_port =
     (if \<not> include_direct (sp_mode p) then []
      else if sp_direct_endpoints p = [] then [default_candidate peer_host peer_port]
      else map (\<lambda>(i, e). direct_candidate i e) (enumerate 1 (sp_direct_endpoints p)))"

definition plan_bridges :: "snap_profile \<Rightarrow> string \<Rightarrow> u16 \<Rightarrow> snap_candidate list" where
  "plan_bridges p peer_host peer_port =
     (let insertion = (if include_direct (sp_mode p) then length (sp_direct_endpoints p) else 0) in
      if include_bridges (sp_mode p)
        then map (\<lambda>(i, b). bridge_candidate p peer_host peer_port i b) (enumerate (insertion + 1) (sp_bridges p)) else [])"

text \<open>\<open>collect\<close> into a hash map keeps the last index of a repeated name; an unranked adapter comes last.\<close>

definition adapter_rank :: "string list \<Rightarrow> string \<Rightarrow> usize" where
  "adapter_rank order adapter =
     (case map_of (rev (zip order [0..<length order])) adapter of Some i \<Rightarrow> i | None \<Rightarrow> usize_max)"

definition candidate_key :: "string list \<Rightarrow> snap_candidate \<Rightarrow> nat \<times> nat \<times> int \<times> nat" where
  "candidate_key order c = (c_priority c, adapter_rank order (c_adapter c), - int (c_weight c), c_insertion_index c)"

text \<open>The text of a candidate that is hashed into its identifier, the JSON that \<open>serde_json\<close> prints with every
  non-ASCII character inside a string literal escaped the way Python does.\<close>

fun utf8_code :: "nat \<Rightarrow> string \<Rightarrow> nat" where
  "utf8_code lead [] = lead"
| "utf8_code lead (c # cs) = utf8_code (lead * 64 + (of_char c :: nat) mod 64) cs"

definition utf8_lead :: "char \<Rightarrow> nat" where
  "utf8_lead a = (let n = (of_char a :: nat) in if n < 128 then n else if n < 224 then n mod 32 else if n < 240 then n mod 16 else n mod 8)"

definition hex_char :: "nat \<Rightarrow> char" where
  "hex_char d = (if d < 10 then char_of (48 + d) else char_of (87 + d))"

definition u_escape :: "nat \<Rightarrow> string" where
  "u_escape n = [CHR 0x5C, CHR ''u'', hex_char (n div 4096 mod 16), hex_char (n div 256 mod 16), hex_char (n div 16 mod 16), hex_char (n mod 16)]"

definition escape_code_point :: "nat \<Rightarrow> string" where
  "escape_code_point n =
     (if n \<le> 65535 then u_escape n
      else u_escape (55296 + (n - 65536) div 1024) @ u_escape (56320 + (n - 65536) mod 1024))"

function escape_json :: "bool \<Rightarrow> bool \<Rightarrow> string \<Rightarrow> string" where
  "escape_json in_string escaped [] = []"
| "escape_json in_string escaped (c # s) =
     (let k = (case utf8_extra c of Some k \<Rightarrow> k | None \<Rightarrow> 0);
          tl = take k s; rest = drop k s
      in if \<not> in_string then c # tl @ escape_json (c = CHR 0x22) False rest
         else if escaped then c # tl @ escape_json True False rest
         else if c = CHR 0x5C then c # escape_json True True rest
         else if c = CHR 0x22 then c # escape_json False False rest
         else if 128 \<le> (of_char c :: nat) then escape_code_point (utf8_code (utf8_lead c) tl) @ escape_json True False rest
         else c # escape_json True False rest)"
  by pat_completeness auto
termination by (relation "measure (\<lambda>(_, _, s). length s)") (auto simp: less_Suc_eq_le)

record snap_encoders =
  candidate_json :: "snap_candidate \<Rightarrow> string option"
  profile_json :: "snap_profile \<Rightarrow> bytes option"
  snap_sha256_hex :: "bytes \<Rightarrow> string"

definition compute_id :: "snap_encoders \<Rightarrow> snap_candidate \<Rightarrow> string" where
  "compute_id X c =
     take 16 (snap_sha256_hex X (as_bytes (escape_json False False (case candidate_json X c of Some s \<Rightarrow> s | None \<Rightarrow> []))))"

definition profile_hash :: "snap_encoders \<Rightarrow> snap_profile \<Rightarrow> string" where
  "profile_hash X p = snap_sha256_hex X (case profile_json X p of Some bs \<Rightarrow> bs | None \<Rightarrow> [])"

record snap_plan =
  pl_profile_name :: string
  pl_profile_hash :: string
  pl_peer_alias :: string
  pl_connect_timeout_sec :: f64
  pl_retry_policy :: retry_policy
  pl_attempt_limit :: usize
  pl_candidates :: "snap_candidate list"

definition plan_checks :: "snap_profile \<Rightarrow> string \<Rightarrow> u16 \<Rightarrow> unit snap option" where
  "plan_checks p peer_host peer_port =
     (case profile_validate p of
        None \<Rightarrow> None
      | Some r \<Rightarrow> Some (first_error [r, validate_host ''peer endpoint host'' peer_host, validate_port ''peer endpoint port'' peer_port]))"

definition plan :: "snap_encoders \<Rightarrow> snap_profile \<Rightarrow> string \<Rightarrow> u16 \<Rightarrow> snap_plan snap option" where
  "plan X p peer_host peer_port =
     (case plan_checks p peer_host peer_port of
        None \<Rightarrow> None
      | Some (Inl e) \<Rightarrow> Some (Inl e)
      | Some (Inr _) \<Rightarrow>
          let candidates = sort_key (candidate_key (sp_adapter_order p)) (plan_direct p peer_host peer_port @ plan_bridges p peer_host peer_port);
              named = map (\<lambda>c. c\<lparr>c_candidate_id := compute_id X c\<rparr>) candidates
          in Some (Inr \<lparr>pl_profile_name = sp_profile_name p, pl_profile_hash = profile_hash X p, pl_peer_alias = sp_peer_alias p,
               pl_connect_timeout_sec = sp_connect_timeout_sec p, pl_retry_policy = sp_retry_policy p,
               pl_attempt_limit = attempt_limit (sp_retry_policy p) (length named), pl_candidates = named\<rparr>))"

definition candidate_allows_fallback :: "snap_candidate \<Rightarrow> snap_candidate \<Rightarrow> bool" where
  "candidate_allows_fallback from to \<longleftrightarrow> c_allowed_fallback from = [] \<or> c_adapter to \<in> set (c_allowed_fallback from)"


section \<open>Facts about validation\<close>

lemma first_error_ok: "first_error cs = Inr () \<longleftrightarrow> (\<forall>c\<in>set cs. c = Inr ())"
  by (induction cs rule: first_error.induct) auto

lemma reject_if_ok [simp]: "reject_if b m = Inr () \<longleftrightarrow> \<not> b"
  by (simp add: reject_if_def)

lemma bridges_validate_each:
  "bridges_validate edges labels bs = Inr () \<Longrightarrow> b \<in> set bs \<Longrightarrow> \<exists>ls. bridge_validate edges ls b = Inr ()"
  by (induction bs arbitrary: labels) (auto split: sum.splits)

definition fallback_rel :: "(string \<times> string list) list \<Rightarrow> (nat \<times> nat) set" where
  "fallback_rel cs = {(i, j). i < length cs \<and> j < length cs \<and> i \<noteq> j \<and> fst (cs ! j) \<in> set (snd (cs ! i))}"

definition fallback_resolves :: "(string \<times> string list) list \<Rightarrow> bool" where
  "fallback_resolves cs \<longleftrightarrow> (\<forall>i<length cs. snd (cs ! i) \<noteq> [] \<longrightarrow>
     set (snd (cs ! i)) \<subseteq> fst ` set cs \<and> (\<exists>j. (i, j) \<in> fallback_rel cs))"

lemma fallback_edges_at_cases:
  assumes i: "i < length cs"
  shows "(snd (cs ! i) = [] \<or> (set (snd (cs ! i)) \<subseteq> fst ` set cs \<and> (\<exists>j. (i, j) \<in> fallback_rel cs))) \<longleftrightarrow>
      fallback_edges_at cs i = Inr (fallback_matches cs i (snd (cs ! i)))"
    and "fallback_edges_at cs i = Inr js \<Longrightarrow> js = fallback_matches cs i (snd (cs ! i))"
proof -
  have m: "set (fallback_matches cs i (snd (cs ! i))) = {j. (i, j) \<in> fallback_rel cs}"
    using i by (auto simp: fallback_matches_def fallback_rel_def)
  have f: "find (\<lambda>nm. nm \<notin> fst ` set cs) (snd (cs ! i)) = None \<longleftrightarrow> set (snd (cs ! i)) \<subseteq> fst ` set cs"
    by (auto simp: find_None_iff)
  have ne: "fallback_matches cs i (snd (cs ! i)) = [] \<longleftrightarrow> \<not> (\<exists>j. (i, j) \<in> fallback_rel cs)"
    using m by (metis (mono_tags, lifting) empty_Collect_eq set_empty)
  have e: "fallback_matches cs i [] = []" by (simp add: fallback_matches_def)
  show "(snd (cs ! i) = [] \<or> (set (snd (cs ! i)) \<subseteq> fst ` set cs \<and> (\<exists>j. (i, j) \<in> fallback_rel cs))) \<longleftrightarrow>
      fallback_edges_at cs i = Inr (fallback_matches cs i (snd (cs ! i)))"
    using f e ne by (cases "snd (cs ! i) = []") (auto simp: fallback_edges_at_def Let_def split: option.splits)
  show "fallback_edges_at cs i = Inr js \<Longrightarrow> js = fallback_matches cs i (snd (cs ! i))"
    using e by (auto simp: fallback_edges_at_def Let_def split: option.splits if_splits)
qed

lemma collect_edges_all: "(\<And>i. i \<in> set is \<Longrightarrow> f i = Inr (g i)) \<Longrightarrow> collect_edges f is = Inr (map g is)"
  by (induction "is") auto

lemma collect_edges_Inr: "collect_edges f is = Inr es \<Longrightarrow> i \<in> set is \<Longrightarrow> \<exists>js. f i = Inr js"
  by (induction "is" arbitrary: es) (auto split: sum.splits)

lemma fallback_graph_result:
  "\<exists>r. validate_fallback_graph p = Some r
     \<and> (r = Inr () \<longleftrightarrow> fallback_resolves (fallback_candidates p) \<and> acyclic (fallback_rel (fallback_candidates p)))"
proof -
  define cs where "cs = fallback_candidates p"
  let ?es = "map (\<lambda>i. fallback_matches cs i (snd (cs ! i))) [0..<length cs]"
  show ?thesis
  proof (cases "fallback_resolves cs")
    case True
    then have "collect_edges (fallback_edges_at cs) [0..<length cs] = Inr ?es"
      using fallback_edges_at_cases(1) [of _ cs] unfolding fallback_resolves_def by (intro collect_edges_all) fastforce
    moreover have "edges_ok ?es" by (auto simp: edges_ok_def fallback_matches_def)
    moreover have "edge_rel ?es = fallback_rel cs" by (auto simp: edge_rel_def fallback_rel_def fallback_matches_def)
    ultimately show ?thesis using True has_cycle_exact [of ?es]
      by (auto simp: validate_fallback_graph_def cs_def [symmetric] Let_def reject_if_def)
  next
    case False
    then obtain i where "i < length cs" "fallback_edges_at cs i \<noteq> Inr (fallback_matches cs i (snd (cs ! i)))"
      using fallback_edges_at_cases(1) [of _ cs] unfolding fallback_resolves_def by blast
    then have "\<nexists>es. collect_edges (fallback_edges_at cs) [0..<length cs] = Inr es"
      using collect_edges_Inr [of "fallback_edges_at cs" "[0..<length cs]"] fallback_edges_at_cases(2) by fastforce
    then obtain e where "collect_edges (fallback_edges_at cs) [0..<length cs] = Inl e" by (meson sum.exhaust_sel)
    then show ?thesis using False by (auto simp: validate_fallback_graph_def cs_def [symmetric] Let_def)
  qed
qed

section \<open>Facts about rounds\<close>

lemma swap_mset: "i < length xs \<Longrightarrow> j < length xs \<Longrightarrow> mset (swap i j xs) = mset xs"
  by (simp add: swap_def mset_swap)

lemma randbelow_less: "randbelow r n = Some y \<Longrightarrow> fst y < n"
  by (rule randbelow.raw_induct [where P = "\<lambda>r n y. fst y < n"]) (auto split: prod.splits if_splits)

lemma shuffle_loop_mset: "n < length xs \<Longrightarrow> shuffle_loop n r xs = Some ys \<Longrightarrow> mset ys = mset xs"
proof (induction n arbitrary: r xs)
  case (Suc n)
  then obtain v r' where v: "randbelow r (Suc n + 1) = Some (v, r')" and s: "shuffle_loop n r' (swap (Suc n) v xs) = Some ys"
    by (auto split: option.splits)
  have "v < length xs" using randbelow_less [OF v] Suc.prems(1) by simp
  moreover have "length (swap (Suc n) v xs) = length xs" by (simp add: swap_def)
  ultimately show ?case using Suc.IH [OF _ s] Suc.prems(1) by (simp add: swap_mset)
qed simp


lemma ordered_round_mset: "ordered_round drawn p cs k = Some out \<Longrightarrow> mset out = mset cs"
proof -
  assume r: "ordered_round drawn p cs k = Some out"
  have "mset (drop n cs @ take n cs) = mset cs" for n
    by (metis append_take_drop_id mset_append union_commute)
  then show ?thesis using r shuffle_loop_mset [of "length cs - 1" cs]
    by (auto simp: ordered_round_def python_seeded_shuffle_def Let_def split: if_splits round_order.splits)
qed

lemma attempt_limit_bounds:
  "attempt_limit p n \<le> n * rounds p" "max_total_attempts p \<noteq> 0 \<Longrightarrow> attempt_limit p n \<le> max_total_attempts p"
  "0 < n \<Longrightarrow> 0 < rounds p \<Longrightarrow> 0 < attempt_limit p n"
  by (auto simp: attempt_limit_def Let_def usize_max_def)

section \<open>Facts about plans\<close>

lemma retry_policy_rounds: "retry_policy_validate p = Inr () \<Longrightarrow> 1 \<le> rounds p \<and> rounds p \<le> 12"
  by (auto simp: retry_policy_validate_def MAX_RETRY_ROUNDS_def split: if_splits)

lemma profile_checks_facts:
  assumes "profile_checks p = Inr ()"
  shows "1 \<le> rounds (sp_retry_policy p) \<and> rounds (sp_retry_policy p) \<le> 12"
    and "sp_mode p = DirectOnly \<Longrightarrow> sp_direct_endpoints p \<noteq> []"
    and "sp_mode p \<in> {BridgesOnly, OnionOnly} \<Longrightarrow> sp_bridges p \<noteq> []"
    and "b \<in> set (sp_bridges p) \<Longrightarrow> \<exists>ls. bridge_validate (sp_edge_profiles p) ls b = Inr ()"
    and "e \<in> set (sp_direct_endpoints p) \<Longrightarrow> direct_endpoint_validate e = Inr ()"
    and "(l, d) \<in> set (sp_edge_profiles p) \<Longrightarrow> ed_port d \<noteq> 0"
    and "length (sp_direct_endpoints p) \<le> 16" and "length (sp_bridges p) \<le> 32"
proof -
  note c = assms [unfolded profile_checks_def first_error_ok, simplified]
  show "1 \<le> rounds (sp_retry_policy p) \<and> rounds (sp_retry_policy p) \<le> 12" using c retry_policy_rounds by blast
  show "sp_mode p = DirectOnly \<Longrightarrow> sp_direct_endpoints p \<noteq> []" "sp_mode p \<in> {BridgesOnly, OnionOnly} \<Longrightarrow> sp_bridges p \<noteq> []"
    using c by auto
  show "b \<in> set (sp_bridges p) \<Longrightarrow> \<exists>ls. bridge_validate (sp_edge_profiles p) ls b = Inr ()" using c bridges_validate_each by blast
  show "e \<in> set (sp_direct_endpoints p) \<Longrightarrow> direct_endpoint_validate e = Inr ()" using c by (auto simp: first_error_ok)
  show "(l, d) \<in> set (sp_edge_profiles p) \<Longrightarrow> ed_port d \<noteq> 0"
    using c by (fastforce simp: first_error_ok edge_validate_def validate_port_def split: if_splits)
  show "length (sp_direct_endpoints p) \<le> 16" "length (sp_bridges p) \<le> 32"
    using c by (auto simp: MAX_DIRECT_ENDPOINTS_def MAX_BRIDGES_def)
qed

lemma direct_endpoint_facts:
  assumes "direct_endpoint_validate e = Inr ()"
  shows "de_port e \<noteq> 0" and "\<not> requires_tls (de_adapter e)" and "de_adapter e \<noteq> ''bridge-onion-tcp''"
  using assms
  by (auto simp: direct_endpoint_validate_def first_error_ok validate_port_def direct_transport_def requires_tls_def split: if_splits option.splits)

lemma bridge_facts:
  assumes "bridge_validate edges ls b = Inr ()"
  shows "requires_tls (br_adapter b) \<Longrightarrow> br_tls_enabled b \<and> (\<exists>s. br_sni b = Some s \<and> s \<noteq> []) \<and> (\<exists>l d. br_edge_label b = Some l \<and> map_of edges l = Some d)"
    and "requires_key_file (br_adapter b) \<Longrightarrow> br_key_file b \<noteq> None" and "br_port b \<noteq> 0"
proof -
  note c = assms [unfolded bridge_validate_def first_error_ok, simplified]
  show "requires_tls (br_adapter b) \<Longrightarrow> br_tls_enabled b \<and> (\<exists>s. br_sni b = Some s \<and> s \<noteq> []) \<and> (\<exists>l d. br_edge_label b = Some l \<and> map_of edges l = Some d)"
    using c by (cases "br_sni b"; cases "br_edge_label b") auto
  show "requires_key_file (br_adapter b) \<Longrightarrow> br_key_file b \<noteq> None" "br_port b \<noteq> 0"
    using c by (auto simp: validate_port_def split: if_splits)
qed


lemma enumerate_Nil: "enumerate n xs = [] \<longleftrightarrow> xs = []"
  by (metis length_0_conv length_enumerate)

lemma plan_Inr:
  assumes "plan X p host port = Some (Inr pl)"
  shows "profile_checks p = Inr ()" and "validate_fallback_graph p = Some (Inr ())" and "port \<noteq> 0"
    and "pl_candidates pl = map (\<lambda>c. c\<lparr>c_candidate_id := compute_id X c\<rparr>)
       (sort_key (candidate_key (sp_adapter_order p)) (plan_direct p host port @ plan_bridges p host port))"
    and "pl_attempt_limit pl = attempt_limit (sp_retry_policy p) (length (pl_candidates pl))"
proof -
  obtain r where r: "profile_validate p = Some r" and ok: "first_error [r, validate_host ''peer endpoint host'' host, validate_port ''peer endpoint port'' port] = Inr ()"
    using assms by (auto simp: plan_def plan_checks_def split: option.splits sum.splits)
  have v: "r = Inr ()" "validate_port ''peer endpoint port'' port = Inr ()" using ok by (auto simp: first_error_ok)
  then show "profile_checks p = Inr ()" "validate_fallback_graph p = Some (Inr ())" "port \<noteq> 0"
    using r by (auto simp: profile_validate_def validate_port_def split: sum.splits if_splits)
  show "pl_candidates pl = map (\<lambda>c. c\<lparr>c_candidate_id := compute_id X c\<rparr>)
       (sort_key (candidate_key (sp_adapter_order p)) (plan_direct p host port @ plan_bridges p host port))"
    "pl_attempt_limit pl = attempt_limit (sp_retry_policy p) (length (pl_candidates pl))"
    using assms by (auto simp: plan_def Let_def split: option.splits sum.splits)
qed

lemma planned_candidate_safe:
  assumes p: "profile_checks p = Inr ()" and port: "port \<noteq> 0" and c: "c \<in> set (plan_direct p host port @ plan_bridges p host port)"
  shows "c_target_port c \<noteq> 0"
    and "requires_tls (c_adapter c) \<Longrightarrow> c_tls_enabled c = Some True \<and> (\<exists>s. c_sni c = Some s \<and> s \<noteq> []) \<and> c_edge_label c \<noteq> None"
    and "c_adapter c = ''bridge-onion-tcp'' \<Longrightarrow> c_target_host c = host \<and> c_target_port c = port \<and> c_key_file c \<noteq> None"
proof -
  note f = profile_checks_facts [OF p]
  consider (default) "c = default_candidate host port"
    | (direct) i e where "e \<in> set (sp_direct_endpoints p)" "c = direct_candidate i e"
    | (bridge) i b where "b \<in> set (sp_bridges p)" "c = bridge_candidate p host port i b"
    using c by (auto simp: plan_direct_def plan_bridges_def Let_def enumerate_eq_zip split: if_splits dest: set_zip_rightD)
  then have "c_target_port c \<noteq> 0
     \<and> (requires_tls (c_adapter c) \<longrightarrow> c_tls_enabled c = Some True \<and> (\<exists>s. c_sni c = Some s \<and> s \<noteq> []) \<and> c_edge_label c \<noteq> None)
     \<and> (c_adapter c = ''bridge-onion-tcp'' \<longrightarrow> c_target_host c = host \<and> c_target_port c = port \<and> c_key_file c \<noteq> None)"
  proof cases
    case default
    then show ?thesis using port by (simp add: default_candidate_def requires_tls_def)
  next
    case direct
    then show ?thesis using direct_endpoint_facts [OF f(5) [OF direct(1)]] by (simp add: direct_candidate_def)
  next
    case bridge
    obtain ls where "bridge_validate (sp_edge_profiles p) ls b = Inr ()" using f(4) [OF bridge(1)] by blast
    note bf = bridge_facts [OF this]
    have "snd (bridge_target p host port b) \<noteq> 0"
      using port f(6) by (auto simp: bridge_target_def bind_eq_Some_conv split: option.splits dest: map_of_SomeD)
    then show ?thesis using bridge(2) bf by (auto simp: bridge_candidate_def bridge_target_def requires_key_file_def)
  qed
  then show "c_target_port c \<noteq> 0"
    and "requires_tls (c_adapter c) \<Longrightarrow> c_tls_enabled c = Some True \<and> (\<exists>s. c_sni c = Some s \<and> s \<noteq> []) \<and> c_edge_label c \<noteq> None"
    and "c_adapter c = ''bridge-onion-tcp'' \<Longrightarrow> c_target_host c = host \<and> c_target_port c = port \<and> c_key_file c \<noteq> None" by blast+
qed

section \<open>Properties\<close>

text \<open>C39. The fallback check terminates and is exact.  The recursive search of \<open>validate_fallback_graph\<close> always ends without an
  index error, and the profile passes precisely when every fallback list names only adapters of the profile, leads to
  another candidate, and no chain of fallbacks returns to where it started.\<close>

theorem fallback_graph_exact:
  "\<exists>r. validate_fallback_graph p = Some r
     \<and> (r = Inr () \<longleftrightarrow> (let cs = fallback_candidates p in
          (\<forall>i<length cs. snd (cs ! i) = [] \<or> (set (snd (cs ! i)) \<subseteq> fst ` set cs \<and> (\<exists>j<length cs. j \<noteq> i \<and> fst (cs ! j) \<in> set (snd (cs ! i)))))
          \<and> acyclic {(i, j). i < length cs \<and> j < length cs \<and> i \<noteq> j \<and> fst (cs ! j) \<in> set (snd (cs ! i))}))"
proof -
  have "fallback_resolves cs \<longleftrightarrow> (\<forall>i<length cs. snd (cs ! i) = [] \<or>
      (set (snd (cs ! i)) \<subseteq> fst ` set cs \<and> (\<exists>j<length cs. j \<noteq> i \<and> fst (cs ! j) \<in> set (snd (cs ! i)))))" for cs
    by (fastforce simp: fallback_resolves_def fallback_rel_def)
  then show ?thesis using fallback_graph_result [of p] by (simp add: Let_def fallback_rel_def)
qed

definition sample_retry :: retry_policy where
  "sample_retry = \<lparr>rounds = 2, backoff_base_sec = Finite (1 / 2), backoff_max_sec = Finite 8, jitter_ratio = Finite 0, rp_round_order = Rotate,
     shuffle_seed = None, max_total_attempts = 0, max_elapsed_sec = Finite 0\<rparr>"

definition sample_bridge :: bridge where
  "sample_bridge = \<lparr>br_label = ''b1'', br_ip = ''10.0.0.7'', br_port = 443, br_key_file = Some ''k'', br_route_file = None,
     br_transport = ''onion-tcp'', br_adapter = ''bridge-tls'', br_tls_enabled = True, br_sni = Some ''example.org'', br_edge_label = Some ''e'',
     br_priority = 50, br_weight = 10, br_timeout_sec = None, br_allowed_fallback = [], br_tls_ca_file = None, br_tls_cert_sha256 = None,
     br_ws_path = None, br_shroud_profile = None, br_contract = None\<rparr>"

definition sample_profile :: snap_profile where
  "sample_profile = \<lparr>sp_version = 1, sp_profile_name = ''p'', sp_mode = Auto, sp_peer_alias = ''peer'', sp_connect_timeout_sec = Finite 8,
     sp_direct_endpoints = [], sp_bridges = [sample_bridge], sp_retry_policy = sample_retry,
     sp_edge_profiles = [(''e'', \<lparr>ed_host = ''edge.example'', ed_port = 8443, ed_tls_required = True, ed_notes = []\<rparr>)],
     sp_adapter_order = [''direct-tcp'', ''bridge-tls'']\<rparr>"

definition sample_encoders :: snap_encoders where
  "sample_encoders = \<lparr>candidate_json = (\<lambda>c. Some (c_source c)), profile_json = (\<lambda>p. None), snap_sha256_hex = (\<lambda>b. ''00'')\<rparr>"

lemma validate_text_graphic: "\<forall>c\<in>set s. graphic c \<Longrightarrow> s \<noteq> [] \<Longrightarrow> length s \<le> n \<Longrightarrow> validate_text f s n = Inr ()"
  by (simp add: validate_text_def str_trim_graphic graphic_no_control)

lemma validate_host_graphic:
  "\<forall>c\<in>set s. graphic c \<and> c \<noteq> CHR ''/'' \<Longrightarrow> s \<noteq> [] \<Longrightarrow> length s \<le> 253 \<Longrightarrow> validate_host f s = Inr ()"
  by (auto simp: validate_host_def validate_text_graphic graphic_no_whitespace)

lemma sample_ip: "parses_as_ip ''10.0.0.7''"
  by (simp add: parses_as_ip_def parse_ip_addr_def parse_with_def read_ip_addr_def read_ipv4_addr_def read_separator_def read_given_char_def
      read_number_def to_digit_def digits_value_def range_defs numeral_eq_Suc Let_def)

lemma sample_bridge_ok: "bridge_validate (sp_edge_profiles sample_profile) {} sample_bridge = Inr ()"
  unfolding bridge_validate_def first_error_ok
  by (simp add: sample_bridge_def sample_profile_def validate_ip_def sample_ip validate_port_def bridge_transport_def validate_adapter_def
      KNOWN_ADAPTERS_def requires_tls_def requires_key_file_def validate_priority_weight_def validate_optional_timeout_def
      validate_adapters_def optional_text_def validate_text_graphic graphic_def first_error_ok)

lemma sample_plan_checks: "plan_checks sample_profile ''peer.example'' 51820 = Some (Inr ())"
proof -
  have "edge_validate (''e'', \<lparr>ed_host = ''edge.example'', ed_port = 8443, ed_tls_required = True, ed_notes = []\<rparr>) = Inr ()"
    unfolding edge_validate_def first_error_ok
    by (simp add: validate_text_graphic validate_host_graphic validate_port_def graphic_def)
  moreover have "retry_policy_validate sample_retry = Inr ()"
    by (simp add: retry_policy_validate_def sample_retry_def validate_range_def MAX_RETRY_ROUNDS_def MAX_RETRY_ATTEMPTS_def)
  moreover have "bridges_validate (sp_edge_profiles sample_profile) {} (sp_bridges sample_profile) = Inr ()"
    using sample_bridge_ok by (simp add: sample_profile_def)
  ultimately have "profile_checks sample_profile = Inr ()"
    unfolding profile_checks_def first_error_ok
    by (simp add: sample_profile_def PROFILE_VERSION_def validate_text_graphic graphic_def validate_range_def f64_0_2_def
        MAX_DIRECT_ENDPOINTS_def MAX_BRIDGES_def validate_adapters_def validate_adapter_def KNOWN_ADAPTERS_def first_error_ok)
  moreover have "fallback_resolves (fallback_candidates sample_profile)" "fallback_rel (fallback_candidates sample_profile) = {}"
    by (auto simp: fallback_resolves_def fallback_rel_def fallback_candidates_def sample_profile_def sample_bridge_def)
  then have "validate_fallback_graph sample_profile = Some (Inr ())"
    using fallback_graph_result [of sample_profile] by (auto simp: acyclic_def)
  ultimately show ?thesis
    by (simp add: plan_checks_def profile_validate_def validate_host_graphic validate_port_def graphic_def)
qed

definition cyclic_profile :: snap_profile where
  "cyclic_profile = sample_profile\<lparr>sp_bridges := [sample_bridge\<lparr>br_allowed_fallback := [''bridge-ws'']\<rparr>,
     sample_bridge\<lparr>br_adapter := ''bridge-ws'', br_allowed_fallback := [''bridge-tls'']\<rparr>]\<rparr>"

theorem fallback_graph_exact_witness: "\<exists>e. validate_fallback_graph cyclic_profile = Some (Inl e)"
proof -
  define cs where "cs = [(''bridge-tls'', [''bridge-ws'']), (''bridge-ws'', [''bridge-tls''])]"
  let ?r = "{(i, j). i < length cs \<and> j < length cs \<and> i \<noteq> j \<and> fst (cs ! j) \<in> set (snd (cs ! i))}"
  have c: "fallback_candidates cyclic_profile = cs"
    by (simp add: fallback_candidates_def cyclic_profile_def sample_profile_def sample_bridge_def cs_def)
  have "(0, 1) \<in> ?r" "(1, 0) \<in> ?r" by (simp_all add: cs_def)
  then have "(0, 0) \<in> ?r\<^sup>+" by (meson trancl.intros)
  then have "\<not> acyclic ?r" by (auto simp: acyclic_def)
  then have "\<exists>r. validate_fallback_graph cyclic_profile = Some r \<and> r \<noteq> Inr ()"
    using fallback_graph_exact [of cyclic_profile] unfolding c Let_def by blast
  then show ?thesis by (metis old.unit.exhaust sum.exhaust)
qed

text \<open>The preference of an adapter: the last position of its name in the configured order, unnamed adapters after all named ones.\<close>

definition preference :: "string list \<Rightarrow> string \<Rightarrow> usize" where
  "preference order adapter = (if adapter \<in> set order then Max {i. i < length order \<and> order ! i = adapter} else usize_max)"

lemma adapter_rank_preference: "adapter_rank order adapter = preference order adapter"
proof (induction order rule: rev_induct)
  case Nil
  then show ?case by (simp add: adapter_rank_def preference_def)
next
  case (snoc x order)
  let ?P = "\<lambda>xs. {i. i < length xs \<and> xs ! i = adapter}"
  have r: "adapter_rank (order @ [x]) adapter = (if x = adapter then length order else adapter_rank order adapter)"
    by (simp add: adapter_rank_def)
  show ?case
  proof (cases "x = adapter")
    case True
    have "Max (?P (order @ [x])) = length order" by (rule Max_eqI) (auto simp: True less_Suc_eq nth_append)
    then show ?thesis using r True by (simp add: preference_def)
  next
    case False
    then have "?P (order @ [x]) = ?P order" by (auto simp: less_Suc_eq nth_append)
    then show ?thesis using r False snoc by (simp add: preference_def)
  qed
qed

text \<open>What a candidate says about the entry it was made from, with the place of the entry in the profile.\<close>

definition direct_summary :: "snap_candidate \<Rightarrow> nat \<times> string \<times> string \<times> u16 \<times> u16 \<times> u16 \<times> string list" where
  "direct_summary c = (c_insertion_index c, c_adapter c, c_target_host c, c_target_port c, c_priority c, c_weight c, c_allowed_fallback c)"

definition bridge_summary :: "snap_candidate \<Rightarrow> nat \<times> string \<times> string option \<times> u16 option \<times> u16 \<times> u16 \<times> string list" where
  "bridge_summary c = (c_insertion_index c, c_adapter c, c_relay_ip c, c_relay_port c, c_priority c, c_weight c, c_allowed_fallback c)"

text \<open>The order of a plan, spelled out: a smaller priority first, then the preferred adapter, then the larger weight, then the place in the profile.\<close>

definition tried_before :: "string list \<Rightarrow> snap_candidate \<Rightarrow> snap_candidate \<Rightarrow> bool" where
  "tried_before order a b \<longleftrightarrow> c_priority a < c_priority b \<or> c_priority a = c_priority b
     \<and> (preference order (c_adapter a) < preference order (c_adapter b) \<or> preference order (c_adapter a) = preference order (c_adapter b)
     \<and> (c_weight b < c_weight a \<or> c_weight a = c_weight b \<and> c_insertion_index a < c_insertion_index b))"

lemma planned_parts:
  "[c\<leftarrow>plan_direct p host port @ plan_bridges p host port. c_kind c = Direct] = plan_direct p host port"
  "[c\<leftarrow>plan_direct p host port @ plan_bridges p host port. c_kind c = Bridge] = plan_bridges p host port"
proof -
  have "\<forall>c\<in>set (plan_direct p host port). c_kind c = Direct" "\<forall>c\<in>set (plan_bridges p host port). c_kind c = Bridge"
    by (auto simp: plan_direct_def plan_bridges_def default_candidate_def direct_candidate_def bridge_candidate_def Let_def)
  then show "[c\<leftarrow>plan_direct p host port @ plan_bridges p host port. c_kind c = Direct] = plan_direct p host port"
    "[c\<leftarrow>plan_direct p host port @ plan_bridges p host port. c_kind c = Bridge] = plan_bridges p host port"
    by (simp_all add: filter_empty_conv)
qed

lemma planned_distinct: "distinct (map c_insertion_index (plan_direct p host port @ plan_bridges p host port))"
proof -
  have "map c_insertion_index (map (\<lambda>(i, e). direct_candidate i e) (enumerate k es)) = [k..<k + length es]" for k es
    by (simp add: comp_def case_prod_unfold direct_candidate_def flip: map_fst_enumerate)
  moreover have "map c_insertion_index (map (\<lambda>(i, b). bridge_candidate p host port i b) (enumerate k bs)) = [k..<k + length bs]" for k bs
    by (simp add: comp_def case_prod_unfold bridge_candidate_def flip: map_fst_enumerate)
  ultimately have "map c_insertion_index (plan_direct p host port @ plan_bridges p host port) =
      (if include_direct (sp_mode p) then if sp_direct_endpoints p = [] then [0] else [1..<1 + length (sp_direct_endpoints p)] else [])
      @ (let k = (if include_direct (sp_mode p) then length (sp_direct_endpoints p) else 0) + 1 in
         if include_bridges (sp_mode p) then [k..<k + length (sp_bridges p)] else [])"
    by (simp add: plan_direct_def plan_bridges_def default_candidate_def Let_def del: map_map)
  then show ?thesis by (auto simp: Let_def)
qed

lemma planned_order:
  assumes "i < j" "j < length (sort_key (candidate_key order) cs)" "distinct (map c_insertion_index cs)"
  shows "tried_before order (sort_key (candidate_key order) cs ! i) (sort_key (candidate_key order) cs ! j)"
proof -
  let ?s = "sort_key (candidate_key order) cs"
  have "mset (map c_insertion_index ?s) = mset (map c_insertion_index cs)" by simp
  then have "distinct (map c_insertion_index ?s)" using assms(3) mset_eq_imp_distinct_iff by blast
  then have "c_insertion_index (?s ! i) \<noteq> c_insertion_index (?s ! j)" using assms(1,2) by (simp add: distinct_conv_nth)
  moreover have "candidate_key order (?s ! i) \<le> candidate_key order (?s ! j)"
    using sorted_nth_mono [of "map (candidate_key order) ?s" i j] assms(1,2) by simp
  ultimately show ?thesis
    by (auto simp: candidate_key_def tried_before_def less_eq_prod_def less_prod_def adapter_rank_preference)
qed

text \<open>C38. A plan is complete, ordered and safe.  Planning always returns.  When it succeeds, the direct candidates are the configured endpoints, or
  the peer itself when none is configured, in the modes auto and direct-only, and there are none in the other modes; the bridge candidates
  are the configured bridges, and there are none in direct-only mode; each carries the adapter, address, priority, weight and
  fallbacks of its entry.  Every candidate comes before the later ones by smaller priority, then preferred adapter, then larger weight, then
  place in the profile.  There is at least one candidate and one attempt, and no more attempts than candidates times rounds or the
  configured maximum; every candidate has a nonzero port, every TLS-type bridge has TLS switched on with a
  server name and an edge, and an onion bridge leads to the pinned peer only.\<close>

theorem snap_plan_sound:
  "\<exists>r. plan X p host port = Some r \<and> (\<forall>pl. r = Inr pl \<longrightarrow> (let cs = pl_candidates pl in
      mset (map direct_summary [c\<leftarrow>cs. c_kind c = Direct]) = mset
        (if sp_mode p \<notin> {Auto, DirectOnly} then []
         else if sp_direct_endpoints p = [] then [(0, ''direct-tcp'', host, port, 100, 100, [])]
         else map (\<lambda>(i, e). (i, de_adapter e, de_ip e, de_port e, de_priority e, de_weight e, de_allowed_fallback e))
                (enumerate 1 (sp_direct_endpoints p)))
    \<and> mset (map bridge_summary [c\<leftarrow>cs. c_kind c = Bridge]) = mset
        (if sp_mode p = DirectOnly then []
         else map (\<lambda>(i, b). (i, br_adapter b, Some (br_ip b), Some (br_port b), br_priority b, br_weight b, br_allowed_fallback b))
                (enumerate (Suc (if sp_mode p = Auto then length (sp_direct_endpoints p) else 0)) (sp_bridges p)))
    \<and> sorted_wrt (tried_before (sp_adapter_order p)) cs
    \<and> cs \<noteq> [] \<and> 0 < pl_attempt_limit pl \<and> pl_attempt_limit pl \<le> 12 * length cs
    \<and> (max_total_attempts (sp_retry_policy p) \<noteq> 0 \<longrightarrow> pl_attempt_limit pl \<le> max_total_attempts (sp_retry_policy p))
    \<and> (\<forall>c\<in>set cs. c_target_port c \<noteq> 0
         \<and> (requires_tls (c_adapter c) \<longrightarrow> c_tls_enabled c = Some True \<and> (\<exists>s. c_sni c = Some s \<and> s \<noteq> []) \<and> c_edge_label c \<noteq> None)
         \<and> (c_adapter c = ''bridge-onion-tcp'' \<longrightarrow> c_target_host c = host \<and> c_target_port c = port))))"
proof -
  obtain r where r: "plan X p host port = Some r"
    using fallback_graph_result [of p] by (fastforce simp: plan_def plan_checks_def profile_validate_def Let_def split: sum.splits)
  show ?thesis unfolding Let_def
  proof (intro exI conjI allI impI)
    fix pl assume rp: "r = Inr pl"
    note P = plan_Inr [OF r [unfolded rp]]
    let ?cs = "plan_direct p host port @ plan_bridges p host port" and ?order = "sp_adapter_order p"
    have part: "mset (map f [c\<leftarrow>pl_candidates pl. Q c]) = mset (map f [c\<leftarrow>?cs. Q c])"
      if "\<And>c i. f (c\<lparr>c_candidate_id := i\<rparr>) = f c" "\<And>c i. Q (c\<lparr>c_candidate_id := i\<rparr>) = Q c"
      for f :: "snap_candidate \<Rightarrow> 'b" and Q
      unfolding P(4) using that by (simp add: filter_map comp_def mset_filter)
    have "map direct_summary (plan_direct p host port) = (if sp_mode p \<notin> {Auto, DirectOnly} then []
        else if sp_direct_endpoints p = [] then [(0, ''direct-tcp'', host, port, 100, 100, [])]
        else map (\<lambda>(i, e). (i, de_adapter e, de_ip e, de_port e, de_priority e, de_weight e, de_allowed_fallback e)) (enumerate 1 (sp_direct_endpoints p)))"
      by (auto simp: plan_direct_def include_direct_def default_candidate_def direct_candidate_def direct_summary_def)
    then show "mset (map direct_summary [c\<leftarrow>pl_candidates pl. c_kind c = Direct]) = mset (if sp_mode p \<notin> {Auto, DirectOnly} then []
        else if sp_direct_endpoints p = [] then [(0, ''direct-tcp'', host, port, 100, 100, [])]
        else map (\<lambda>(i, e). (i, de_adapter e, de_ip e, de_port e, de_priority e, de_weight e, de_allowed_fallback e)) (enumerate 1 (sp_direct_endpoints p)))"
      by (subst part) (simp_all only: planned_parts, simp_all add: direct_summary_def)
    have "map bridge_summary (plan_bridges p host port) = (if sp_mode p = DirectOnly then []
        else map (\<lambda>(i, b). (i, br_adapter b, Some (br_ip b), Some (br_port b), br_priority b, br_weight b, br_allowed_fallback b))
          (enumerate (Suc (if sp_mode p = Auto then length (sp_direct_endpoints p) else 0)) (sp_bridges p)))"
      by (cases "sp_mode p") (auto simp: plan_bridges_def include_direct_def include_bridges_def bridge_candidate_def bridge_summary_def)
    then show "mset (map bridge_summary [c\<leftarrow>pl_candidates pl. c_kind c = Bridge]) = mset (if sp_mode p = DirectOnly then []
        else map (\<lambda>(i, b). (i, br_adapter b, Some (br_ip b), Some (br_port b), br_priority b, br_weight b, br_allowed_fallback b))
          (enumerate (Suc (if sp_mode p = Auto then length (sp_direct_endpoints p) else 0)) (sp_bridges p)))"
      by (subst part) (simp_all only: planned_parts, simp_all add: bridge_summary_def)
    show "sorted_wrt (tried_before ?order) (pl_candidates pl)"
      unfolding P(4) sorted_wrt_iff_nth_less using planned_order [OF _ _ planned_distinct, of _ _ ?order p host port]
      by (auto simp: tried_before_def)
    have ne: "?cs \<noteq> []" using profile_checks_facts(2,3) [OF P(1)]
      by (cases "sp_mode p") (auto simp: plan_direct_def plan_bridges_def include_direct_def include_bridges_def enumerate_Nil Let_def)
    have "length (pl_candidates pl) = length ?cs" unfolding P(4) by simp
    with ne show "pl_candidates pl \<noteq> []" by (simp only: length_0_conv [symmetric] not_False_eq_True)
    then show "0 < pl_attempt_limit pl" unfolding P(5)
      using attempt_limit_bounds(3) profile_checks_facts(1) [OF P(1)] by (simp add: Suc_le_eq)
    have "pl_attempt_limit pl \<le> length (pl_candidates pl) * rounds (sp_retry_policy p)" unfolding P(5) by (rule attempt_limit_bounds)
    also have "\<dots> \<le> length (pl_candidates pl) * 12" using profile_checks_facts(1) [OF P(1)] by (intro mult_left_mono) auto
    finally show "pl_attempt_limit pl \<le> 12 * length (pl_candidates pl)" by simp
    show "max_total_attempts (sp_retry_policy p) \<noteq> 0 \<Longrightarrow> pl_attempt_limit pl \<le> max_total_attempts (sp_retry_policy p)"
      unfolding P(5) by (rule attempt_limit_bounds)
    show "\<forall>c\<in>set (pl_candidates pl). c_target_port c \<noteq> 0
         \<and> (requires_tls (c_adapter c) \<longrightarrow> c_tls_enabled c = Some True \<and> (\<exists>s. c_sni c = Some s \<and> s \<noteq> []) \<and> c_edge_label c \<noteq> None)
         \<and> (c_adapter c = ''bridge-onion-tcp'' \<longrightarrow> c_target_host c = host \<and> c_target_port c = port)"
      unfolding P(4) using planned_candidate_safe [OF P(1,3)] by auto
  qed (rule r)
qed

theorem snap_plan_sound_witness:
  "\<exists>pl. plan sample_encoders sample_profile ''peer.example'' 51820 = Some (Inr pl)
     \<and> mset (map direct_summary [c\<leftarrow>pl_candidates pl. c_kind c = Direct]) = {#(0, ''direct-tcp'', ''peer.example'', 51820, 100, 100, [])#}
     \<and> mset (map bridge_summary [c\<leftarrow>pl_candidates pl. c_kind c = Bridge]) = {#(1, ''bridge-tls'', Some ''10.0.0.7'', Some 443, 50, 10, [])#}
     \<and> sorted_wrt (tried_before [''direct-tcp'', ''bridge-tls'']) (pl_candidates pl)"
proof -
  have "\<exists>pl. plan sample_encoders sample_profile ''peer.example'' 51820 = Some (Inr pl)"
    by (simp add: plan_def sample_plan_checks Let_def)
  then show ?thesis using snap_plan_sound [of sample_encoders sample_profile "''peer.example''" 51820]
    by (auto simp: sample_profile_def sample_bridge_def Let_def)
qed


text \<open>The rounds of a plan try every candidate once.  Whatever the order, a round that is produced is a rearrangement of the
  candidates; the stable and rotating orders always produce one, and the rotating order starts round \<open>r\<close>
  with candidate \<open>r - 1\<close> modulo their number, so that over as many rounds as candidates each comes first once.\<close>

lemma snap_rounds_cover:
  "(\<forall>out. ordered_round drawn p cs k = Some out \<longrightarrow> mset out = mset cs)
    \<and> (rp_round_order p \<noteq> Shuffle \<longrightarrow> (\<exists>out. ordered_round drawn p cs k = Some out))
    \<and> (rp_round_order p = Rotate \<and> 2 \<le> length cs \<longrightarrow>
         (\<exists>out. ordered_round drawn p cs k = Some out \<and> hd out = cs ! ((k - 1) mod length cs)))"
proof (intro conjI allI impI)
  show "mset out = mset cs" if "ordered_round drawn p cs k = Some out" for out using that by (rule ordered_round_mset)
  show "\<exists>out. ordered_round drawn p cs k = Some out" if "rp_round_order p \<noteq> Shuffle"
    using that by (cases "rp_round_order p") (simp_all add: ordered_round_def Let_def)
  show "\<exists>out. ordered_round drawn p cs k = Some out \<and> hd out = cs ! ((k - 1) mod length cs)"
    if "rp_round_order p = Rotate \<and> 2 \<le> length cs"
  proof -
    have "(k - 1) mod length cs < length cs" using that by (intro mod_less_divisor) auto
    then show ?thesis using that by (simp add: ordered_round_def Let_def hd_append hd_drop_conv_nth)
  qed
qed

end
