(* ===== verification/Snap_Runtime.thy ===== *)
theory Snap_Runtime
  imports Snap
begin

text \<open>
  Executing a SNAP plan, \<open>shph-cli/src/main.rs\<close>: \<open>connect_snap_session\<close>, which opens a session, and
  \<open>send_snap_payload_with_plan\<close>, which delivers one payload, with the error classification and the checks before them.
  The outside world is a state \<open>w\<close> passed through the operations of the record \<open>snap_env\<close>: the clock, the
  backoff delay and the timeout of an attempt (both computed in floating point), sleeping, the resolution of a
  candidate's address and the attempt itself, which reports its result and whether the payload may have been delivered.  What the loops do is recorded
  in a log: the audit events, the sleeps and the attempts.
\<close>

section \<open>Checks and classification\<close>

datatype transport_mode = ModeTcp | ModeQuic | ModeQuicStandard | ModeOfflineMesh | ModeDataMule

definition TCP_ADAPTERS :: "string set" where
  "TCP_ADAPTERS = {''direct-tcp'', ''bridge-onion-tcp'', ''bridge-tls'', ''bridge-ws'', ''shroud-tcp'', ''edge-relay'', ''mesh-dtn-local'', ''mule-usb''}"

definition no_runtime_flow :: "string \<Rightarrow> shph_error" where
  "no_runtime_flow adapter = Unsupported (''SNAP adapter '' @ [CHR 0x27] @ adapter @ [CHR 0x27] @ '' has no complete SHPH runtime flow yet'')"

definition snap_mode_for_adapter :: "string \<Rightarrow> transport_mode result" where
  "snap_mode_for_adapter adapter =
     (if adapter \<in> TCP_ADAPTERS then Ok ModeTcp
      else if adapter = ''quic'' then Ok ModeQuic
      else if adapter = ''quic-standard'' then Ok ModeQuicStandard
      else if adapter = ''offline-mesh'' then Ok ModeOfflineMesh
      else if adapter = ''data-mule'' then Ok ModeDataMule
      else Err (no_runtime_flow adapter))"

definition runtime_transport :: "string \<Rightarrow> string result" where
  "runtime_transport adapter =
     (if adapter = ''direct-tcp'' then Ok ''tcp''
      else if adapter \<in> TCP_ADAPTERS then Ok ''onion-tcp''
      else if adapter \<in> {''quic'', ''quic-standard'', ''offline-mesh'', ''data-mule''} then Ok adapter
      else Err (no_runtime_flow adapter))"

definition validate_snap_candidate :: "snap_candidate \<Rightarrow> unit result" where
  "validate_snap_candidate c =
     (if c_kind c = Bridge \<and> c_adapter c \<notin> {''mesh-dtn-local'', ''mule-usb''} \<and> c_contract c = None
        then Err (Config (''SNAP bridge candidate '' @ [CHR 0x27] @ c_candidate_id c @ [CHR 0x27] @ '' requires an explicit operator_service_contract''))
      else case runtime_transport (c_adapter c) of
          Err e \<Rightarrow> Err e
        | Ok expected \<Rightarrow>
            if c_transport c \<noteq> expected
              then Err (Unsupported (''SNAP adapter '' @ [CHR 0x27] @ c_adapter c @ [CHR 0x27] @ '' requires transport '' @ [CHR 0x27] @ expected
                @ [CHR 0x27] @ '', found '' @ [CHR 0x27] @ c_transport c @ [CHR 0x27]))
            else Ok ())"

fun validate_snap_candidates :: "snap_candidate list \<Rightarrow> unit result" where
  "validate_snap_candidates [] = Ok ()"
| "validate_snap_candidates (c # cs) = (case validate_snap_candidate c of Err e \<Rightarrow> Err e | Ok _ \<Rightarrow> validate_snap_candidates cs)"

definition validate_snap_runtime :: "snap_plan \<Rightarrow> unit result" where
  "validate_snap_runtime pl = validate_snap_candidates (pl_candidates pl)"

definition snap_primary_mode :: "snap_plan \<Rightarrow> transport_mode result" where
  "snap_primary_mode pl =
     (case pl_candidates pl of [] \<Rightarrow> Err (Config ''SNAP profile produced no candidates'') | c # _ \<Rightarrow> snap_mode_for_adapter (c_adapter c))"

fun snap_error_is_retryable :: "shph_error \<Rightarrow> bool" where
  "snap_error_is_retryable (Io _) = True"
| "snap_error_is_retryable Timeout = True"
| "snap_error_is_retryable (Transport _) = True"
| "snap_error_is_retryable ConnectionClosed = True"
| "snap_error_is_retryable _ = False"

definition snap_attempt_error_is_retryable :: "shph_error \<Rightarrow> bool \<Rightarrow> bool" where
  "snap_attempt_error_is_retryable error payload_may_have_been_delivered \<longleftrightarrow>
     \<not> payload_may_have_been_delivered \<and> snap_error_is_retryable error"

definition SNAP_MIN_CANDIDATE_BUDGET :: duration where "SNAP_MIN_CANDIDATE_BUDGET = 200 * 1000000"

definition snap_remaining_until :: "instant \<Rightarrow> instant \<Rightarrow> duration option" where
  "snap_remaining_until deadline now = (let remaining = deadline - now in if remaining = 0 then None else Some remaining)"

section \<open>The loops\<close>

datatype attempt_outcome = Connected | RetryableFailure | TerminalFailure | FallbackDenied | BudgetExceeded

datatype snap_event =
    Slept duration
  | Tried snap_candidate bool
  | Audited snap_candidate u32 u32 attempt_outcome

record ('w, 's) snap_env =
  env_elapsed :: "'w \<Rightarrow> duration \<times> 'w"
  env_backoff :: "u32 \<Rightarrow> 'w \<Rightarrow> duration \<times> 'w"
  env_sleep :: "duration \<Rightarrow> 'w \<Rightarrow> 'w"
  env_timeout :: "snap_candidate \<Rightarrow> duration option \<Rightarrow> duration option"
  env_peer_addr :: "snap_candidate \<Rightarrow> unit result"
  env_attempt :: "snap_candidate \<Rightarrow> duration \<Rightarrow> 'w \<Rightarrow> ('s result \<times> bool) \<times> 'w"
  env_drawn_seed :: "u32 \<Rightarrow> u64"

record snap_run =
  sr_attempt :: u32
  sr_last_error :: "shph_error option"
  sr_previous :: "snap_candidate option"
  sr_log :: "snap_event list"

definition logged :: "snap_event \<Rightarrow> snap_run \<Rightarrow> snap_run" where
  "logged ev st = st\<lparr>sr_log := sr_log st @ [ev]\<rparr>"

definition audit_previous :: "u32 \<Rightarrow> snap_run \<Rightarrow> snap_run" where
  "audit_previous r st =
     (case sr_previous st of None \<Rightarrow> st | Some c \<Rightarrow> logged (Audited c r (sr_attempt st) BudgetExceeded) st)"

definition remaining_budget :: "('w, 's) snap_env \<Rightarrow> duration option \<Rightarrow> 'w \<Rightarrow> duration option \<times> 'w" where
  "remaining_budget E max_elapsed w =
     (case max_elapsed of None \<Rightarrow> (None, w) | Some budget \<Rightarrow> (case env_elapsed E w of (e, w') \<Rightarrow> (Some (budget - e), w')))"

definition budget_spent :: "('w, 's) snap_env \<Rightarrow> duration option \<Rightarrow> 'w \<Rightarrow> bool \<times> 'w" where
  "budget_spent E max_elapsed w =
     (case max_elapsed of None \<Rightarrow> (False, w) | Some budget \<Rightarrow> (case env_elapsed E w of (e, w') \<Rightarrow> (budget \<le> e, w')))"

definition fallback_denied :: "snap_run \<Rightarrow> snap_candidate \<Rightarrow> bool" where
  "fallback_denied st c \<longleftrightarrow> (case sr_previous st of None \<Rightarrow> False | Some previous \<Rightarrow> \<not> candidate_allows_fallback previous c)"

definition too_short :: "duration option \<Rightarrow> bool" where
  "too_short d \<longleftrightarrow> (case d of None \<Rightarrow> False | Some d \<Rightarrow> d < SNAP_MIN_CANDIDATE_BUDGET)"

text \<open>One attempt and the match on its result: a final result, or the state to go on with.\<close>

definition run_attempt ::
    "('w, 's) snap_env \<Rightarrow> (shph_error \<Rightarrow> bool \<Rightarrow> bool) \<Rightarrow> u32 \<Rightarrow> snap_candidate \<Rightarrow> duration \<Rightarrow> snap_run \<Rightarrow> 'w
      \<Rightarrow> 's result option \<times> snap_run \<times> 'w" where
  "run_attempt E retryable r c timeout st w =
     (case env_attempt E c timeout w of ((res, delivered), w') \<Rightarrow>
      let st1 = logged (Tried c delivered) (st\<lparr>sr_attempt := sr_attempt st + 1\<rparr>) in
      case res of
        Ok s \<Rightarrow> (Some (Ok s), logged (Audited c r (sr_attempt st1) Connected) st1, w')
      | Err e \<Rightarrow>
          if retryable e delivered
            then (None, (logged (Audited c r (sr_attempt st1) RetryableFailure) st1)\<lparr>sr_previous := Some c, sr_last_error := Some e\<rparr>, w')
          else (Some (Err e), logged (Audited c r (sr_attempt st1) TerminalFailure) st1, w'))"

text \<open>The candidate loop of \<open>send_snap_payload_with_plan\<close>.\<close>

fun send_round ::
    "('w, 's) snap_env \<Rightarrow> usize \<Rightarrow> duration option \<Rightarrow> u32 \<Rightarrow> snap_candidate list \<Rightarrow> snap_run \<Rightarrow> 'w \<Rightarrow> 's result option \<times> snap_run \<times> 'w" where
  "send_round E limit max_elapsed r [] st w = (None, st, w)"
| "send_round E limit max_elapsed r (c # cs) st w =
     (if limit \<le> sr_attempt st then (None, st, w)
      else if fallback_denied st c
        then send_round E limit max_elapsed r cs (logged (Audited c r (sr_attempt st) FallbackDenied) st) w
      else case remaining_budget E max_elapsed w of (remaining, w1) \<Rightarrow>
        if too_short remaining then (None, audit_previous r st, w1)
        else case env_timeout E c remaining of
            None \<Rightarrow> (None, st, w1)
          | Some timeout \<Rightarrow>
              if timeout < SNAP_MIN_CANDIDATE_BUDGET then (None, st, w1)
              else case snap_mode_for_adapter (c_adapter c) of
                  Err e \<Rightarrow> (Some (Err e), st, w1)
                | Ok mode \<Rightarrow>
                    (case (if mode = ModeQuicStandard then env_peer_addr E c else Ok ()) of
                       Err e \<Rightarrow> (Some (Err e), st\<lparr>sr_attempt := sr_attempt st + 1\<rparr>, w1)
                     | Ok _ \<Rightarrow>
                    (case run_attempt E snap_attempt_error_is_retryable r c timeout st w1 of
                       (Some res, st1, w2) \<Rightarrow> (Some res, st1, w2)
                     | (None, st1, w2) \<Rightarrow>
                         if limit \<le> sr_attempt st1 then (None, st1, w2)
                         else case budget_spent E max_elapsed w2 of (spent, w3) \<Rightarrow>
                           if spent then (None, st1, w3) else send_round E limit max_elapsed r cs st1 w3)))"

text \<open>The candidate loop of \<open>connect_snap_session\<close>.\<close>

fun connect_round ::
    "('w, 's) snap_env \<Rightarrow> usize \<Rightarrow> duration option \<Rightarrow> u32 \<Rightarrow> snap_candidate list \<Rightarrow> snap_run \<Rightarrow> 'w \<Rightarrow> 's result option \<times> snap_run \<times> 'w" where
  "connect_round E limit max_elapsed r [] st w = (None, st, w)"
| "connect_round E limit max_elapsed r (c # cs) st w =
     (if limit \<le> sr_attempt st then (None, st, w)
      else case remaining_budget E max_elapsed w of (remaining, w1) \<Rightarrow>
        if too_short remaining then (None, audit_previous r st, w1)
        else if fallback_denied st c
          then connect_round E limit max_elapsed r cs (logged (Audited c r (sr_attempt st) FallbackDenied) st) w1
        else case remaining_budget E max_elapsed w1 of (remaining', w2) \<Rightarrow>
          (case env_timeout E c remaining' of
             None \<Rightarrow> (None, audit_previous r st, w2)
           | Some timeout \<Rightarrow>
               (case snap_mode_for_adapter (c_adapter c) of
                  Err e \<Rightarrow> (Some (Err e), st\<lparr>sr_attempt := sr_attempt st + 1\<rparr>, w2)
                | Ok _ \<Rightarrow>
                    (case run_attempt E (\<lambda>e _. snap_error_is_retryable e) r c timeout st w2 of
                       (Some res, st1, w3) \<Rightarrow> (Some res, st1, w3)
                     | (None, st1, w3) \<Rightarrow> connect_round E limit max_elapsed r cs st1 w3))))"

text \<open>The pause before a round after the first: \<open>None\<close> when the time budget does not allow it.\<close>

definition send_pause :: "('w, 's) snap_env \<Rightarrow> duration option \<Rightarrow> u32 \<Rightarrow> snap_run \<Rightarrow> 'w \<Rightarrow> snap_run option \<times> 'w" where
  "send_pause E max_elapsed r st w =
     (if r \<le> 1 then (Some st, w)
      else case env_backoff E (r - 1) w of (delay, w1) \<Rightarrow>
        (case max_elapsed of
           None \<Rightarrow> (Some (logged (Slept delay) st), env_sleep E delay w1)
         | Some budget \<Rightarrow> (case env_elapsed E w1 of (e, w2) \<Rightarrow>
             if budget \<le> e + delay then (None, w2) else (Some (logged (Slept delay) st), env_sleep E delay w2))))"

definition connect_pause :: "('w, 's) snap_env \<Rightarrow> duration option \<Rightarrow> u32 \<Rightarrow> snap_run \<Rightarrow> 'w \<Rightarrow> snap_run option \<times> 'w" where
  "connect_pause E max_elapsed r st w =
     (if r \<le> 1 then (Some st, w)
      else case env_backoff E (r - 1) w of (delay, w1) \<Rightarrow>
        (case remaining_budget E max_elapsed w1 of
           (None, w2) \<Rightarrow> (Some (logged (Slept delay) st), env_sleep E delay w2)
         | (Some remaining, w2) \<Rightarrow>
             if remaining < delay then (None, w2) else (Some (logged (Slept delay) st), env_sleep E delay w2)))"

definition give_up :: "snap_run \<Rightarrow> 's result" where
  "give_up st = Err (case sr_last_error st of Some e \<Rightarrow> e | None \<Rightarrow> Timeout)"

text \<open>The round loops; \<open>previous_failed\<close> is declared inside the round.  \<open>None\<close> is a shuffle that does not return.\<close>

fun send_rounds ::
    "('w, 's) snap_env \<Rightarrow> snap_plan \<Rightarrow> duration option \<Rightarrow> u32 list \<Rightarrow> snap_run \<Rightarrow> 'w \<Rightarrow> ('s result \<times> snap_run \<times> 'w) option" where
  "send_rounds E pl max_elapsed [] st w = Some (give_up st, st, w)"
| "send_rounds E pl max_elapsed (r # rs) st w =
     (case send_pause E max_elapsed r (st\<lparr>sr_previous := None\<rparr>) w of
        (None, w1) \<Rightarrow> Some (give_up st, st, w1)
      | (Some st1, w1) \<Rightarrow>
          (case ordered_round (env_drawn_seed E r) (pl_retry_policy pl) (pl_candidates pl) r of
             None \<Rightarrow> None
           | Some cs \<Rightarrow>
               (case send_round E (pl_attempt_limit pl) max_elapsed r cs st1 w1 of
                  (Some res, st2, w2) \<Rightarrow> Some (res, st2, w2)
                | (None, st2, w2) \<Rightarrow> send_rounds E pl max_elapsed rs st2 w2)))"

fun connect_rounds ::
    "('w, 's) snap_env \<Rightarrow> snap_plan \<Rightarrow> duration option \<Rightarrow> u32 list \<Rightarrow> snap_run \<Rightarrow> 'w \<Rightarrow> ('s result \<times> snap_run \<times> 'w) option" where
  "connect_rounds E pl max_elapsed [] st w = Some (give_up st, st, w)"
| "connect_rounds E pl max_elapsed (r # rs) st w =
     (case connect_pause E max_elapsed r (st\<lparr>sr_previous := None\<rparr>) w of
        (None, w1) \<Rightarrow> Some (give_up st, st, w1)
      | (Some st1, w1) \<Rightarrow>
          (case ordered_round (env_drawn_seed E r) (pl_retry_policy pl) (pl_candidates pl) r of
             None \<Rightarrow> None
           | Some cs \<Rightarrow>
               (case connect_round E (pl_attempt_limit pl) max_elapsed r cs st1 w1 of
                  (Some res, st2, w2) \<Rightarrow> Some (res, st2, w2)
                | (None, st2, w2) \<Rightarrow>
                    if pl_attempt_limit pl \<le> sr_attempt st2 then Some (give_up st2, st2, w2)
                    else case budget_spent E max_elapsed w2 of (spent, w3) \<Rightarrow>
                      if spent then Some (give_up st2, st2, w3) else connect_rounds E pl max_elapsed rs st2 w3)))"

definition run_start :: snap_run where
  "run_start = \<lparr>sr_attempt = 0, sr_last_error = None, sr_previous = None, sr_log = []\<rparr>"

text \<open>\<open>audit_context\<close> is the result of \<open>snap_audit_context\<close>, \<open>certificate\<close> the certificate file when a path is configured.\<close>

definition uses_quic_standard :: "snap_plan \<Rightarrow> bool" where
  "uses_quic_standard pl \<longleftrightarrow> (\<exists>c\<in>set (pl_candidates pl). c_adapter c = ''quic-standard'')"

definition send_snap_payload_with_plan ::
    "('w, 's) snap_env \<Rightarrow> unit result \<Rightarrow> snap_plan \<Rightarrow> duration option \<Rightarrow> 'w \<Rightarrow> ('s result \<times> snap_run \<times> 'w) option" where
  "send_snap_payload_with_plan E audit_context pl max_elapsed w =
     (case validate_snap_runtime pl of
        Err e \<Rightarrow> Some (Err e, run_start, w)
      | Ok _ \<Rightarrow>
     (case audit_context of
        Err e \<Rightarrow> Some (Err e, run_start, w)
      | Ok _ \<Rightarrow>
          if \<not> uses_quic_standard pl
            then Some (Err (Unsupported ''SNAP planned one-shot runtime requires a quic-standard candidate''), run_start, w)
          else send_rounds E pl max_elapsed [1..<rounds (pl_retry_policy pl) + 1] run_start w))"

definition connect_snap_session ::
    "('w, 's) snap_env \<Rightarrow> unit result \<Rightarrow> unit result option \<Rightarrow> snap_plan \<Rightarrow> duration option \<Rightarrow> 'w \<Rightarrow> ('s result \<times> snap_run \<times> 'w) option" where
  "connect_snap_session E audit_context certificate pl max_elapsed w =
     (case validate_snap_runtime pl of
        Err e \<Rightarrow> Some (Err e, run_start, w)
      | Ok _ \<Rightarrow>
     (case audit_context of
        Err e \<Rightarrow> Some (Err e, run_start, w)
      | Ok _ \<Rightarrow>
     (case (if uses_quic_standard pl
            then (case certificate of
                    None \<Rightarrow> Err (Config ''--quic-cert or session.quic_cert is required for SNAP quic-standard candidates'')
                  | Some r \<Rightarrow> r)
            else Ok ()) of
        Err e \<Rightarrow> Some (Err e, run_start, w)
      | Ok _ \<Rightarrow> connect_rounds E pl max_elapsed [1..<rounds (pl_retry_policy pl) + 1] run_start w)))"

section \<open>What a log may contain\<close>

fun is_tried :: "snap_event \<Rightarrow> bool" where
  "is_tried (Tried _ _) = True" | "is_tried _ = False"

fun is_slept :: "snap_event \<Rightarrow> bool" where
  "is_slept (Slept _) = True" | "is_slept _ = False"

fun may_have_delivered :: "snap_event \<Rightarrow> bool" where
  "may_have_delivered (Tried _ d) = d" | "may_have_delivered _ = False"

abbreviation tries :: "snap_event list \<Rightarrow> nat" where "tries evs \<equiv> length (filter is_tried evs)"

text \<open>The candidate tried last in the current round, and the rule that each further candidate of a round is a fallback
  that the previous one allows.\<close>

fun tried_in_round :: "snap_candidate option \<Rightarrow> snap_event list \<Rightarrow> snap_candidate option" where
  "tried_in_round prev [] = prev"
| "tried_in_round prev (Slept _ # evs) = tried_in_round None evs"
| "tried_in_round prev (Tried c _ # evs) = tried_in_round (Some c) evs"
| "tried_in_round prev (Audited _ _ _ _ # evs) = tried_in_round prev evs"

fun fallbacks_allowed :: "snap_candidate option \<Rightarrow> snap_event list \<Rightarrow> bool" where
  "fallbacks_allowed prev [] = True"
| "fallbacks_allowed prev (Slept _ # evs) = fallbacks_allowed None evs"
| "fallbacks_allowed prev (Tried c _ # evs) =
     ((case prev of None \<Rightarrow> True | Some b \<Rightarrow> candidate_allows_fallback b c) \<and> fallbacks_allowed (Some c) evs)"
| "fallbacks_allowed prev (Audited _ _ _ _ # evs) = fallbacks_allowed prev evs"

text \<open>Nothing is tried after an attempt that may have delivered.\<close>

fun delivers_last :: "snap_event list \<Rightarrow> bool" where
  "delivers_last [] = True"
| "delivers_last (ev # evs) = ((may_have_delivered ev \<longrightarrow> tries evs = 0) \<and> delivers_last evs)"

lemma tried_in_round_snoc: "tried_in_round p (evs @ [ev]) = tried_in_round (tried_in_round p evs) [ev]"
  by (induction p evs rule: tried_in_round.induct) simp_all

lemma fallbacks_allowed_snoc: "fallbacks_allowed p (evs @ [ev]) \<longleftrightarrow> fallbacks_allowed p evs \<and> fallbacks_allowed (tried_in_round p evs) [ev]"
  by (induction p evs rule: fallbacks_allowed.induct) auto

lemma delivers_last_none: "\<forall>ev\<in>set evs. \<not> may_have_delivered ev \<Longrightarrow> delivers_last evs"
  by (induction evs) auto

lemma delivers_last_append:
  "\<forall>ev\<in>set evs. \<not> may_have_delivered ev \<Longrightarrow> delivers_last (evs @ evs') \<longleftrightarrow> delivers_last evs'"
  by (induction evs) auto

section \<open>The invariant of the loops\<close>

text \<open>\<open>strict\<close> says whether a possible delivery rules out a retry.\<close>

definition run_common :: "usize \<Rightarrow> bool \<Rightarrow> snap_run \<Rightarrow> bool" where
  "run_common limit strict st \<longleftrightarrow> sr_attempt st = tries (sr_log st) \<and> sr_attempt st \<le> limit \<and> fallbacks_allowed None (sr_log st)
     \<and> (strict \<longrightarrow> (\<forall>ev\<in>set (sr_log st). \<not> may_have_delivered ev))"

definition run_inv :: "usize \<Rightarrow> bool \<Rightarrow> snap_run \<Rightarrow> bool" where
  "run_inv limit strict st \<longleftrightarrow> run_common limit strict st \<and> sr_previous st = tried_in_round None (sr_log st)"

definition run_done :: "usize \<Rightarrow> bool \<Rightarrow> snap_event list \<Rightarrow> bool" where
  "run_done limit strict evs \<longleftrightarrow> tries evs \<le> limit \<and> fallbacks_allowed None evs \<and> (strict \<longrightarrow> delivers_last evs)"

lemma run_common_done: "run_common limit strict st \<Longrightarrow> run_done limit strict (sr_log st)"
  by (auto simp: run_common_def run_done_def delivers_last_none)

lemma logged_audit:
  "run_inv limit strict st \<Longrightarrow> run_inv limit strict (logged (Audited c r n o') st)"
  by (simp add: run_inv_def run_common_def logged_def fallbacks_allowed_snoc tried_in_round_snoc)

lemma audit_previous_inv: "run_inv limit strict st \<Longrightarrow> run_inv limit strict (audit_previous r st)"
  by (simp add: audit_previous_def logged_audit split: option.splits)

lemma run_attempt_inv:
  assumes inv: "run_inv limit strict st" and lim: "sr_attempt st < limit" and fb: "\<not> fallback_denied st c"
    and retry: "strict \<Longrightarrow> \<forall>e. \<not> retryable e True" and r: "run_attempt E retryable k c t st w = (res, st', w')"
  shows "res = None \<Longrightarrow> run_inv limit strict st'" and "run_done limit strict (sr_log st')"
proof -
  obtain out d w1 where a: "env_attempt E c t w = ((out, d), w1)" by (metis prod.exhaust)
  let ?st1 = "logged (Tried c d) (st\<lparr>sr_attempt := sr_attempt st + 1\<rparr>)"
  have allowed: "case tried_in_round None (sr_log st) of None \<Rightarrow> True | Some b \<Rightarrow> candidate_allows_fallback b c"
    using fb inv by (auto simp: fallback_denied_def run_inv_def split: option.splits)
  have quiet: "strict \<Longrightarrow> \<forall>ev\<in>set (sr_log st). \<not> may_have_delivered ev" using inv by (simp add: run_inv_def run_common_def)
  have log: "\<exists>o'. sr_log st' = sr_log st @ [Tried c d, Audited c k (sr_attempt st + 1) o']"
    using r by (auto simp: run_attempt_def a logged_def Let_def split: result.splits if_splits)
  have t: "tries (sr_log st) + 1 \<le> limit" using inv lim by (simp add: run_inv_def run_common_def)
  have ok: "fallbacks_allowed None (sr_log st')"
  proof -
    have "fallbacks_allowed None ((sr_log st @ [Tried c d]) @ [Audited c k (sr_attempt st + 1) o'])" for o'
      unfolding fallbacks_allowed_snoc using allowed inv by (simp add: run_inv_def run_common_def)
    then show ?thesis using log by auto
  qed
  show "run_done limit strict (sr_log st')"
    using log t ok quiet by (auto simp: run_done_def delivers_last_append)
  assume "res = None"
  then have d: "strict \<longrightarrow> \<not> d" and st': "sr_previous st' = Some c" "sr_attempt st' = sr_attempt st + 1"
    using r retry by (auto simp: run_attempt_def a logged_def Let_def split: result.splits if_splits)
  have "tried_in_round None (sr_log st') = Some c"
  proof -
    have "tried_in_round None ((sr_log st @ [Tried c d]) @ [Audited c k (sr_attempt st + 1) o']) = Some c" for o'
      unfolding tried_in_round_snoc by simp
    then show ?thesis using log by auto
  qed
  then show "run_inv limit strict st'"
    using log t ok quiet d st' inv by (auto simp: run_inv_def run_common_def)
qed


lemma send_round_inv:
  assumes "run_inv limit True st" and "send_round E limit me k cs st w = (res, st', w')"
  shows "res = None \<Longrightarrow> run_inv limit True st'" and "run_done limit True (sr_log st')"
proof -
  have "(res = None \<longrightarrow> run_inv limit True st') \<and> run_done limit True (sr_log st')"
    using assms
  proof (induction E limit me k cs st w arbitrary: res st' w' rule: send_round.induct)
    case (1 E limit me k st w)
    then show ?case by (auto simp: run_inv_def dest: run_common_done)
  next
    case (2 E limit me k c cs st w)
    have stay: "run_inv limit True st \<and> run_done limit True (sr_log st)" using 2(3) by (auto simp: run_inv_def dest: run_common_done)
    have aud: "run_inv limit True (audit_previous k st) \<and> run_done limit True (sr_log (audit_previous k st))"
      using audit_previous_inv [OF 2(3)] by (auto simp: run_inv_def dest: run_common_done)
    have retry: "\<forall>e. \<not> snap_attempt_error_is_retryable e True" by (simp add: snap_attempt_error_is_retryable_def)
    show ?case
    proof (cases "limit \<le> sr_attempt st \<or> fallback_denied st c")
      case True
      then show ?thesis using 2 stay logged_audit [OF 2(3)] by (auto split: if_splits)
    next
      case False
      then have lim: "sr_attempt st < limit" and fb: "\<not> fallback_denied st c" by auto
      obtain rem w1 where rem: "remaining_budget E me w = (rem, w1)" by fastforce
      show ?thesis
      proof (cases "too_short rem")
        case True
        then show ?thesis using 2(4) False rem aud by auto
      next
        case short: False
        show ?thesis
        proof (cases "\<exists>t m. env_timeout E c rem = Some t \<and> \<not> t < SNAP_MIN_CANDIDATE_BUDGET \<and> snap_mode_for_adapter (c_adapter c) = Ok m
            \<and> (if m = ModeQuicStandard then env_peer_addr E c else Ok ()) = Ok ()")
          case no: False
          then show ?thesis using 2(4) False rem short stay by (auto split: option.splits if_splits result.splits)
        next
          case True
          then obtain t m where t: "env_timeout E c rem = Some t" "\<not> t < SNAP_MIN_CANDIDATE_BUDGET" "snap_mode_for_adapter (c_adapter c) = Ok m"
            and addr: "(if m = ModeQuicStandard then env_peer_addr E c else Ok ()) = Ok ()" by blast
          obtain r1 st1 w2 where r1: "run_attempt E snap_attempt_error_is_retryable k c t st w1 = (r1, st1, w2)" by (metis prod.exhaust)
          note att = run_attempt_inv [OF 2(3) lim fb _ r1, OF retry]
          obtain sp w3 where sp: "budget_spent E me w2 = (sp, w3)" by fastforce
          show ?thesis
            using 2(4) False rem short t addr r1 sp att 2(2) [OF _ _ rem [symmetric] _ t(1) _ t(3) addr r1 [symmetric] _ _ _ sp [symmetric]]
            by (auto split: option.splits if_splits)
        qed
      qed
    qed
  qed
  then show "res = None \<Longrightarrow> run_inv limit True st'" and "run_done limit True (sr_log st')" by auto
qed


lemma connect_round_inv:
  assumes "run_inv limit False st" and "connect_round E limit me k cs st w = (res, st', w')"
  shows "res = None \<Longrightarrow> run_inv limit False st'" and "run_done limit False (sr_log st')"
proof -
  have "(res = None \<longrightarrow> run_inv limit False st') \<and> run_done limit False (sr_log st')"
    using assms
  proof (induction E limit me k cs st w arbitrary: res st' w' rule: connect_round.induct)
    case (1 E limit me k st w)
    then show ?case by (auto simp: run_inv_def dest: run_common_done)
  next
    case (2 E limit me k c cs st w)
    have stay: "run_inv limit False st \<and> run_done limit False (sr_log st)" using 2(3) by (auto simp: run_inv_def dest: run_common_done)
    have aud: "run_inv limit False (audit_previous k st) \<and> run_done limit False (sr_log (audit_previous k st))"
      using audit_previous_inv [OF 2(3)] by (auto simp: run_inv_def dest: run_common_done)
    obtain rem w1 where rem: "remaining_budget E me w = (rem, w1)" by fastforce
    show ?case
    proof (cases "limit \<le> sr_attempt st \<or> too_short rem \<or> fallback_denied st c")
      case True
      then show ?thesis using 2(4) rem stay aud 2(1) [OF _ rem [symmetric] _ _ logged_audit [OF 2(3)]]
        by (auto split: if_splits)
    next
      case False
      then have lim: "sr_attempt st < limit" and fb: "\<not> fallback_denied st c" by auto
      obtain rem2 w2 where rem2: "remaining_budget E me w1 = (rem2, w2)" by fastforce
      show ?thesis
      proof (cases "\<exists>t m. env_timeout E c rem2 = Some t \<and> snap_mode_for_adapter (c_adapter c) = Ok m")
        case no: False
        then show ?thesis using 2(4) False rem rem2 stay aud by (auto split: option.splits if_splits result.splits)
      next
        case True
        then obtain t m where t: "env_timeout E c rem2 = Some t" "snap_mode_for_adapter (c_adapter c) = Ok m" by blast
        obtain r1 st1 w3 where r1: "run_attempt E (\<lambda>e _. snap_error_is_retryable e) k c t st w2 = (r1, st1, w3)" by (metis prod.exhaust)
        note att = run_attempt_inv [OF 2(3) lim fb _ r1, simplified]
        show ?thesis
          using 2(4) False rem rem2 t r1 att 2(2) [OF _ rem [symmetric] _ _ rem2 [symmetric] t(1) t(2) r1 [symmetric]]
          by (auto split: option.splits if_splits)
      qed
    qed
  qed
  then show "res = None \<Longrightarrow> run_inv limit False st'" and "run_done limit False (sr_log st')" by auto
qed

lemma pause_inv:
  assumes c: "run_common limit strict st" and first: "k \<le> 1 \<Longrightarrow> sr_log st = []"
  shows "send_pause E me k (st\<lparr>sr_previous := None\<rparr>) w = (Some st1, w1) \<Longrightarrow> run_inv limit strict st1"
    and "connect_pause E me k (st\<lparr>sr_previous := None\<rparr>) w = (Some st1, w1) \<Longrightarrow> run_inv limit strict st1"
proof -
  have slept: "run_inv limit strict (logged (Slept d) (st\<lparr>sr_previous := None\<rparr>))" for d
    using c by (simp add: run_inv_def run_common_def logged_def fallbacks_allowed_snoc tried_in_round_snoc)
  have start: "k \<le> 1 \<Longrightarrow> run_inv limit strict (st\<lparr>sr_previous := None\<rparr>)" using c first by (simp add: run_inv_def run_common_def)
  show "send_pause E me k (st\<lparr>sr_previous := None\<rparr>) w = (Some st1, w1) \<Longrightarrow> run_inv limit strict st1"
    using slept start by (auto simp: send_pause_def split: if_splits option.splits prod.splits)
  show "connect_pause E me k (st\<lparr>sr_previous := None\<rparr>) w = (Some st1, w1) \<Longrightarrow> run_inv limit strict st1"
    using slept start by (auto simp: connect_pause_def split: if_splits option.splits prod.splits)
qed

lemma send_rounds_done:
  "send_rounds E pl me rs st w = Some (res, st', w') \<Longrightarrow> run_common (pl_attempt_limit pl) True st \<Longrightarrow>
     \<forall>k\<in>set rs. k \<le> 1 \<longrightarrow> rs = k # tl rs \<and> sr_log st = [] \<Longrightarrow> distinct rs \<Longrightarrow> run_done (pl_attempt_limit pl) True (sr_log st')"
proof (induction E pl me rs st w arbitrary: res st' w' rule: send_rounds.induct)
  case (1 E pl me st w)
  then show ?case by (auto dest: run_common_done)
next
  case (2 E pl me k rs st w)
  obtain o1 w1 where p: "send_pause E me k (st\<lparr>sr_previous := None\<rparr>) w = (o1, w1)" by fastforce
  show ?case
  proof (cases o1)
    case None
    then show ?thesis using 2(2,3) p by (auto dest: run_common_done)
  next
    case (Some st1)
    have first: "k \<le> 1 \<Longrightarrow> sr_log st = []" using 2(4) by auto
    have i1: "run_inv (pl_attempt_limit pl) True st1" by (rule pause_inv(1) [OF 2(3) first p [unfolded Some]])
    obtain cs where cs: "ordered_round (env_drawn_seed E k) (pl_retry_policy pl) (pl_candidates pl) k = Some cs"
      using 2(2) p Some by (auto split: option.splits)
    obtain o2 st2 w2 where r: "send_round E (pl_attempt_limit pl) me k cs st1 w1 = (o2, st2, w2)" by (metis prod.exhaust)
    note sr = send_round_inv [OF i1 r]
    have rest: "\<forall>j\<in>set rs. j \<le> 1 \<longrightarrow> rs = j # tl rs \<and> sr_log st2 = []" using 2(4,5) by fastforce
    show ?thesis
    proof (cases o2)
      case None
      then show ?thesis using 2(1) [OF p [symmetric] Some cs r [symmetric] None] 2(2,5) p Some cs r sr(1) rest
        by (auto simp: run_inv_def)
    next
      case (Some x)
      then show ?thesis using 2(2) p \<open>o1 = Some st1\<close> cs r sr(2) by auto
    qed
  qed
qed

lemma connect_rounds_done:
  "connect_rounds E pl me rs st w = Some (res, st', w') \<Longrightarrow> run_common (pl_attempt_limit pl) False st \<Longrightarrow>
     \<forall>k\<in>set rs. k \<le> 1 \<longrightarrow> rs = k # tl rs \<and> sr_log st = [] \<Longrightarrow> distinct rs \<Longrightarrow> run_done (pl_attempt_limit pl) False (sr_log st')"
proof (induction E pl me rs st w arbitrary: res st' w' rule: connect_rounds.induct)
  case (1 E pl me st w)
  then show ?case by (auto dest: run_common_done)
next
  case (2 E pl me k rs st w)
  obtain o1 w1 where p: "connect_pause E me k (st\<lparr>sr_previous := None\<rparr>) w = (o1, w1)" by fastforce
  show ?case
  proof (cases o1)
    case None
    then show ?thesis using 2(2,3) p by (auto dest: run_common_done)
  next
    case (Some st1)
    have first: "k \<le> 1 \<Longrightarrow> sr_log st = []" using 2(4) by auto
    have i1: "run_inv (pl_attempt_limit pl) False st1" by (rule pause_inv(2) [OF 2(3) first p [unfolded Some]])
    obtain cs where cs: "ordered_round (env_drawn_seed E k) (pl_retry_policy pl) (pl_candidates pl) k = Some cs"
      using 2(2) p Some by (auto split: option.splits)
    obtain o2 st2 w2 where r: "connect_round E (pl_attempt_limit pl) me k cs st1 w1 = (o2, st2, w2)" by (metis prod.exhaust)
    note sr = connect_round_inv [OF i1 r]
    have rest: "\<forall>j\<in>set rs. j \<le> 1 \<longrightarrow> rs = j # tl rs \<and> sr_log st2 = []" using 2(4,5) by fastforce
    show ?thesis
    proof (cases o2)
      case None
      obtain sp w3 where sp: "budget_spent E me w2 = (sp, w3)" by fastforce
      have c2: "run_common (pl_attempt_limit pl) False st2" using sr(1) [OF None] by (simp add: run_inv_def)
      show ?thesis
      proof (cases "pl_attempt_limit pl \<le> sr_attempt st2 \<or> sp")
        case True
        then show ?thesis using 2(2) p \<open>o1 = Some st1\<close> cs r None sp run_common_done [OF c2] by (auto split: if_splits)
      next
        case False
        then have "connect_rounds E pl me rs st2 w3 = Some (res, st', w')" using 2(2) p \<open>o1 = Some st1\<close> cs r None sp by simp
        then show ?thesis
          using 2(1) [OF p [symmetric] Some cs r [symmetric] None refl _ sp [symmetric] _ _ c2 rest] False 2(5) by auto
      qed
    next
      case (Some x)
      then show ?thesis using 2(2) p \<open>o1 = Some st1\<close> cs r sr(2) by auto
    qed
  qed
qed

text \<open>The rounds are numbered from one, so the invariant holds at the start of the loops.\<close>

lemma run_start_common: "run_common limit strict run_start"
  by (simp add: run_common_def run_start_def)

lemma rounds_from_one: "\<forall>k\<in>set [1..<n + 1]. k \<le> 1 \<longrightarrow> [1..<n + 1] = k # tl [1..<n + 1] \<and> sr_log run_start = []"
  by (auto simp: run_start_def upt_conv_Cons simp del: upt_Suc)

lemma send_snap_payload_done:
  "send_snap_payload_with_plan E ac pl me w = Some (res, st, w') \<Longrightarrow> run_done (pl_attempt_limit pl) True (sr_log st)"
  using send_rounds_done [OF _ run_start_common rounds_from_one distinct_upt] run_common_done [OF run_start_common]
  by (auto simp: send_snap_payload_with_plan_def simp del: upt_Suc split: result.splits if_splits)

lemma connect_snap_session_done:
  "connect_snap_session E ac cert pl me w = Some (res, st, w') \<Longrightarrow> run_done (pl_attempt_limit pl) False (sr_log st)"
  using connect_rounds_done [OF _ run_start_common rounds_from_one distinct_upt] run_common_done [OF run_start_common]
  by (auto simp: connect_snap_session_def simp del: upt_Suc split: result.splits if_splits)

lemma send_rounds_return:
  "rp_round_order (pl_retry_policy pl) \<noteq> Shuffle \<Longrightarrow> \<exists>out. send_rounds E pl me rs st w = Some out"
proof (induction E pl me rs st w rule: send_rounds.induct)
  case (1 E pl me st w)
  then show ?case by simp
next
  case (2 E pl me k rs st w)
  have "\<exists>cs. ordered_round (env_drawn_seed E k) (pl_retry_policy pl) (pl_candidates pl) k = Some cs"
    using 2(2) by (cases "rp_round_order (pl_retry_policy pl)") (simp_all add: ordered_round_def Let_def)
  then obtain cs where cs: "ordered_round (env_drawn_seed E k) (pl_retry_policy pl) (pl_candidates pl) k = Some cs" by blast
  show ?case using 2 cs by (auto split: option.splits prod.splits)
qed

section \<open>Properties of the loops\<close>

definition sample_quic_plan :: snap_plan where
  "sample_quic_plan = \<lparr>pl_profile_name = ''p'', pl_profile_hash = ''h'', pl_peer_alias = ''peer'', pl_connect_timeout_sec = Finite 10,
     pl_retry_policy = sample_retry, pl_attempt_limit = 2,
     pl_candidates = [(default_candidate ''peer.example'' 51820)\<lparr>c_adapter := ''quic-standard'', c_transport := ''quic-standard''\<rparr>]\<rparr>"

text \<open>The world counts the attempts: the first one times out, the second one too, after the payload has been sent.\<close>

definition sample_env :: "(nat, unit) snap_env" where
  "sample_env = \<lparr>env_elapsed = (\<lambda>w. (0, w)), env_backoff = (\<lambda>k w. (500000000, w)), env_sleep = (\<lambda>d w. w),
     env_timeout = (\<lambda>c r. Some 10000000000), env_peer_addr = (\<lambda>c. Ok ()), env_attempt = (\<lambda>c t w. ((Err Timeout, w = 1), w + 1)),
     env_drawn_seed = (\<lambda>k. 0)\<rparr>"

text \<open>C37. A payload is handed over at most once.  Whatever the clock, the delays and the attempts do, sending under a plan makes at most
  as many attempts as the plan's limit, falls back inside a round only to an adapter that the failed candidate
  allows, and tries nothing more once an attempt may have delivered the payload; it returns in the orders that do not shuffle.\<close>

theorem snap_send_at_most_once:
  "(rp_round_order (pl_retry_policy pl) \<noteq> Shuffle \<longrightarrow> (\<exists>out. send_snap_payload_with_plan E ac pl me w = Some out))
    \<and> (\<forall>res st w'. send_snap_payload_with_plan E ac pl me w = Some (res, st, w') \<longrightarrow>
         tries (sr_log st) \<le> pl_attempt_limit pl \<and> fallbacks_allowed None (sr_log st) \<and> delivers_last (sr_log st))"
proof (intro conjI allI impI)
  show "\<exists>out. send_snap_payload_with_plan E ac pl me w = Some out" if "rp_round_order (pl_retry_policy pl) \<noteq> Shuffle"
    using send_rounds_return [OF that] by (auto simp: send_snap_payload_with_plan_def split: result.splits)
  fix res st w'
  assume "send_snap_payload_with_plan E ac pl me w = Some (res, st, w')"
  from send_snap_payload_done [OF this]
  show "tries (sr_log st) \<le> pl_attempt_limit pl" and "fallbacks_allowed None (sr_log st)" and "delivers_last (sr_log st)"
    by (simp_all add: run_done_def)
qed

lemma sample_send:
  "\<exists>res st w'. send_snap_payload_with_plan sample_env (Ok ()) sample_quic_plan None 0 = Some (res, st, w') \<and> tries (sr_log st) = 2"
  by (simp add: send_snap_payload_with_plan_def validate_snap_runtime_def validate_snap_candidate_def runtime_transport_def TCP_ADAPTERS_def
      sample_quic_plan_def sample_env_def sample_retry_def default_candidate_def uses_quic_standard_def snap_mode_for_adapter_def
      send_pause_def ordered_round_def fallback_denied_def remaining_budget_def too_short_def SNAP_MIN_CANDIDATE_BUDGET_def
      budget_spent_def run_attempt_def snap_attempt_error_is_retryable_def logged_def run_start_def upt_conv_Cons Let_def)

theorem snap_send_at_most_once_witness:
  "\<exists>res st w'. send_snap_payload_with_plan sample_env (Ok ()) sample_quic_plan None 0 = Some (res, st, w')
     \<and> tries (sr_log st) = 2 \<and> delivers_last (sr_log st)"
proof -
  obtain res st w' where s: "send_snap_payload_with_plan sample_env (Ok ()) sample_quic_plan None 0 = Some (res, st, w')" "tries (sr_log st) = 2"
    using sample_send by blast
  have "delivers_last (sr_log st)"
    using snap_send_at_most_once [where E = sample_env and ac = "Ok ()" and pl = sample_quic_plan and me = None and w = 0] s(1) by blast
  then show ?thesis using s by blast
qed

text \<open>The payload loop keeps sleeping after its last attempt.  The test of the attempt limit leaves only the candidate loop, so with no
  time budget every round that is left still sleeps its backoff, tries nothing, and the error known before
  is returned after them.  (\<open>connect_snap_session\<close> leaves the round loop at this point.)\<close>

lemma snap_send_sleeps_after_limit:
  assumes "pl_attempt_limit pl \<le> sr_attempt st"
    and "\<forall>k\<in>set rs. 2 \<le> k \<and> ordered_round (env_drawn_seed E k) (pl_retry_policy pl) (pl_candidates pl) k \<noteq> None"
  shows "\<exists>ds st' w'. send_rounds E pl None rs st w = Some (give_up st, st', w')
      \<and> sr_log st' = sr_log st @ map Slept ds \<and> length ds = length rs"
  using assms
proof (induction rs arbitrary: st w)
  case Nil
  then show ?case by simp
next
  case (Cons k rs)
  obtain d w1 where d: "env_backoff E (k - 1) w = (d, w1)" by fastforce
  obtain cs where cs: "ordered_round (env_drawn_seed E k) (pl_retry_policy pl) (pl_candidates pl) k = Some cs" using Cons(3) by auto
  define st1 where "st1 = logged (Slept d) (st\<lparr>sr_previous := None\<rparr>)"
  have round: "send_round E (pl_attempt_limit pl) None k cs st1 (env_sleep E d w1) = (None, st1, env_sleep E d w1)"
    using Cons(2) by (cases cs) (simp_all add: st1_def logged_def)
  obtain ds st' w' where rest: "send_rounds E pl None rs st1 (env_sleep E d w1) = Some (give_up st1, st', w')"
      "sr_log st' = sr_log st1 @ map Slept ds" "length ds = length rs"
    using Cons(1) [of st1 "env_sleep E d w1"] Cons(2,3) by (auto simp: st1_def logged_def)
  have "send_rounds E pl None (k # rs) st w = Some (give_up st, st', w')"
    using Cons(3) d cs round rest(1) by (auto simp: send_pause_def st1_def logged_def give_up_def)
  then show ?case using rest(2,3) by (intro exI [of _ "d # ds"] exI [of _ st'] exI [of _ w']) (simp add: st1_def logged_def)
qed

end
