(* ===== verification/Tcp_Session.thy ===== *)
theory Tcp_Session
  imports Session_Cipher Phantom_One
begin

text \<open>
  Encrypted frames over TCP, \<open>shph-transport/src/lib.rs\<close>: \<open>write_encrypted_tcp_frame\<close>, the incremental
  \<open>TcpFrameReader\<close>, \<open>read_encrypted_tcp_frame\<close> and the session halves built from them.  The incoming stream is the list
  of what its reads give: segments of bytes, cut off at the size of the read buffer, and failed reads; a read at the end
  returns no bytes.  A write hands over the bytes of the frame; a failing write ends the session and is
  not modelled.  The padding loop of the profile envelopes may not return, so sending is partial.
\<close>

section \<open>Streams\<close>

datatype io_error =
    TimedOut | WouldBlock | Interrupted | UnexpectedEof | BrokenPipe | ConnectionAborted | ConnectionReset
  | SocketNotConnected | OtherIo string

fun map_io_error :: "io_error \<Rightarrow> shph_error" where
  "map_io_error TimedOut = Timeout"
| "map_io_error WouldBlock = Timeout"
| "map_io_error UnexpectedEof = ConnectionClosed"
| "map_io_error BrokenPipe = ConnectionClosed"
| "map_io_error ConnectionAborted = ConnectionClosed"
| "map_io_error ConnectionReset = ConnectionClosed"
| "map_io_error SocketNotConnected = ConnectionClosed"
| "map_io_error Interrupted = Io ''interrupted''"
| "map_io_error (OtherIo m) = Io m"

datatype read_event = Segment bytes | Fails io_error

fun stream_read :: "usize \<Rightarrow> read_event list \<Rightarrow> read_event \<times> read_event list" where
  "stream_read n [] = (Segment [], [])"
| "stream_read n (Segment s # es) = (Segment (take n s), if length s \<le> n then es else Segment (drop n s) # es)"
| "stream_read n (Fails e # es) = (Fails e, es)"

fun event_size :: "read_event \<Rightarrow> nat" where
  "event_size (Segment s) = Suc (length s)"
| "event_size (Fails e) = 1"

abbreviation stream_size :: "read_event list \<Rightarrow> nat" where "stream_size es \<equiv> sum_list (map event_size es)"

lemma stream_read_fails: "stream_read n es = (Fails e, es') \<Longrightarrow> es = Fails e # es'"
  by (cases "(n, es)" rule: stream_read.cases) auto

lemma stream_read_segment:
  "stream_read n es = (Segment s, es') \<Longrightarrow> s \<noteq> [] \<Longrightarrow> stream_size es' < stream_size es"
  by (cases "(n, es)" rule: stream_read.cases) (auto split: if_splits)

section \<open>Receiving\<close>

definition MAX_FRAME_BYTES :: usize where "MAX_FRAME_BYTES = 64 * 1024"
definition SHROUD_AEAD_OVERHEAD :: usize where "SHROUD_AEAD_OVERHEAD = 12 + 16"
definition MAX_TCP_PAYLOAD_BYTES :: usize where "MAX_TCP_PAYLOAD_BYTES = MAX_FRAME_BYTES - SHROUD_AEAD_OVERHEAD"
definition PHANTOM_ONE_TCP_PATH_MTU :: usize where "PHANTOM_ONE_TCP_PATH_MTU = MAX_TCP_PAYLOAD_BYTES"

record tcp_frame_reader =
  tr_wire :: bytes
  tr_expected :: "usize option"

definition reader_default :: tcp_frame_reader where
  "reader_default = \<lparr>tr_wire = [], tr_expected = None\<rparr>"

text \<open>The length prefix, once it is there; \<open>None\<close> when it is invalid.\<close>

definition read_prefix :: "tcp_frame_reader \<Rightarrow> tcp_frame_reader option" where
  "read_prefix rd =
     (if tr_expected rd = None \<and> 4 \<le> length (tr_wire rd) then
        let len = of_be (take 4 (tr_wire rd)) in
        if len = 0 \<or> MAX_FRAME_BYTES < len then None else Some (rd\<lparr>tr_expected := Some (4 + len)\<rparr>)
      else Some rd)"

definition complete_frame :: "tcp_frame_reader \<Rightarrow> bytes option" where
  "complete_frame rd =
     (case tr_expected rd of
        None \<Rightarrow> None
      | Some n \<Rightarrow> if n \<le> length (tr_wire rd) then Some (slice (tr_wire rd) 4 n) else None)"

definition bytes_needed :: "tcp_frame_reader \<Rightarrow> usize" where
  "bytes_needed rd = (case tr_expected rd of Some n \<Rightarrow> n - length (tr_wire rd) | None \<Rightarrow> 4 - length (tr_wire rd))"

definition remove_padding :: "profile_tier option \<Rightarrow> bytes \<Rightarrow> bytes result" where
  "remove_padding profile framed =
     (case profile of
        None \<Rightarrow> Ok framed
      | Some t \<Rightarrow> (case remove_profile_in_place t framed of (Ok _, b) \<Rightarrow> Ok b | (Err e, _) \<Rightarrow> Err e))"

function reader_recv_frame ::
    "aead \<Rightarrow> profile_tier option \<Rightarrow> tcp_frame_reader \<Rightarrow> receive_cipher \<Rightarrow> read_event list
      \<Rightarrow> bytes result \<times> tcp_frame_reader \<times> receive_cipher \<times> read_event list" where
  "reader_recv_frame A profile rd c es =
     (case read_prefix rd of
        None \<Rightarrow> (Err (Protocol ''encrypted frame length invalid''), reader_default, c, es)
      | Some rd1 \<Rightarrow>
     (case complete_frame rd1 of
        Some body \<Rightarrow>
          (case decrypt A c body of
             (Err e, c') \<Rightarrow> (Err e, reader_default, c', es)
           | (Ok framed, c') \<Rightarrow> (remove_padding profile framed, reader_default, c', es))
      | None \<Rightarrow>
     (case stream_read (min (bytes_needed rd1) 8192) es of
        (Fails e, es') \<Rightarrow>
          if e = Interrupted then reader_recv_frame A profile rd1 c es'
          else (Err (map_io_error e), rd1, c, es')
      | (Segment s, es') \<Rightarrow>
          if s = [] then (Err ConnectionClosed, rd1, c, es')
          else reader_recv_frame A profile (rd1\<lparr>tr_wire := tr_wire rd1 @ s\<rparr>) c es')))"
  by pat_completeness auto
termination
  by (relation "measure (\<lambda>(A, profile, rd, c, es). stream_size es)") (auto dest: stream_read_fails [OF sym] stream_read_segment [OF sym])

declare reader_recv_frame.simps [simp del]

record tcp_receiver =
  tv_cipher :: receive_cipher
  tv_profile :: "profile_tier option"
  tv_decoder :: "phantom_decoder option"
  tv_reader :: tcp_frame_reader

definition read_encrypted_tcp_frame :: "aead \<Rightarrow> tcp_receiver \<Rightarrow> read_event list \<Rightarrow> bytes result \<times> tcp_receiver \<times> read_event list" where
  "read_encrypted_tcp_frame A v es =
     (if tv_decoder v \<noteq> None \<and> tv_profile v \<noteq> None
        then (Err (Protocol ''Phantom One cannot be combined with the legacy TCP padding profile''), v, es)
      else case reader_recv_frame A (tv_profile v) (tv_reader v) (tv_cipher v) es of
        (r, rd, c, es') \<Rightarrow>
          let v1 = v\<lparr>tv_reader := rd, tv_cipher := c\<rparr> in
          (case r of
             Err e \<Rightarrow> (Err e, v1, es')
           | Ok framed \<Rightarrow>
               (case tv_decoder v of
                  None \<Rightarrow> (Ok framed, v1, es')
                | Some d \<Rightarrow>
                    (case phantom_decode_in_place d framed PHANTOM_ONE_TCP_PATH_MTU of
                       (Err e, _, d') \<Rightarrow> (Err e, v1\<lparr>tv_decoder := Some d'\<rparr>, es')
                     | (Ok _, b, d') \<Rightarrow> (Ok b, v1\<lparr>tv_decoder := Some d'\<rparr>, es')))))"

section \<open>Sending\<close>

text \<open>\<open>ts_os\<close> is the state of the operating system's generator, used when a profile is set without a padder.\<close>

record 'g tcp_sender =
  ts_cipher :: send_cipher
  ts_profile :: "profile_tier option"
  ts_padder :: "(profile_tier \<times> 'g) option"
  ts_encoder :: "'g phantom_encoder option"
  ts_os :: 'g

definition validate_tcp_payload :: "bytes \<Rightarrow> unit result" where
  "validate_tcp_payload payload =
     (if MAX_TCP_PAYLOAD_BYTES < length payload
        then Err (Protocol (''TCP payload exceeds the '' @ show_nat MAX_TCP_PAYLOAD_BYTES @ ''-byte frame capacity''))
      else Ok ())"

text \<open>The match that frames the payload.  The working buffer is wiped and emptied after every call, so it is
  empty at the start of each.\<close>

definition frame_payload :: "'g rng \<Rightarrow> 'g tcp_sender \<Rightarrow> bytes \<Rightarrow> (bytes result \<times> 'g tcp_sender) option" where
  "frame_payload R s payload =
     (case ts_profile s of
        Some profile \<Rightarrow>
          (case ts_padder s of
             Some (t, g) \<Rightarrow>
               map_option (\<lambda>(r, b, g'). (map_ok (\<lambda>_. b) r, s\<lparr>ts_padder := Some (t, g')\<rparr>))
                 (apply_profile_into_with_rng R t payload [] g)
           | None \<Rightarrow>
               map_option (\<lambda>(r, b, g'). (map_ok (\<lambda>_. b) r, s\<lparr>ts_os := g'\<rparr>))
                 (apply_profile_into_with_rng R profile payload [] (ts_os s)))
      | None \<Rightarrow>
          (case ts_encoder s of
             Some e \<Rightarrow>
               (case phantom_encode_into R e Data payload PHANTOM_ONE_TCP_PATH_MTU [] of
                  (r, b, e') \<Rightarrow> Some (map_ok (\<lambda>_. b) r, s\<lparr>ts_encoder := Some e'\<rparr>))
           | None \<Rightarrow> Some (Ok payload, s)))"

definition write_encrypted_tcp_frame :: "aead \<Rightarrow> 'g rng \<Rightarrow> 'g tcp_sender \<Rightarrow> bytes \<Rightarrow> (bytes result \<times> 'g tcp_sender) option" where
  "write_encrypted_tcp_frame A R s payload =
     (case validate_tcp_payload payload of
        Err e \<Rightarrow> Some (Err e, s)
      | Ok _ \<Rightarrow>
      if ts_encoder s \<noteq> None \<and> (ts_profile s \<noteq> None \<or> ts_padder s \<noteq> None)
        then Some (Err (Protocol ''Phantom One cannot be combined with the legacy TCP padding profile''), s)
      else (case frame_payload R s payload of
        None \<Rightarrow> None
      | Some (Err e, s1) \<Rightarrow> Some (Err e, s1)
      | Some (Ok framed, s1) \<Rightarrow>
          (case encrypt A (ts_cipher s1) framed of
             (Err e, c) \<Rightarrow> Some (Err e, s1\<lparr>ts_cipher := c\<rparr>)
           | (Ok encrypted, c) \<Rightarrow>
               if u32_max < length encrypted
                 then Some (Err (Protocol ''encrypted frame length overflows u32''), s1\<lparr>ts_cipher := c\<rparr>)
               else Some (Ok (be_bytes 4 (length encrypted) @ encrypted), s1\<lparr>ts_cipher := c\<rparr>))))"

text \<open>\<open>SecureTcpSession\<close> as its two halves, which \<open>into_split\<close> hands out.\<close>

type_synonym 'g tcp_session = "'g tcp_sender \<times> tcp_receiver"

definition tcp_session_new :: "bytes \<Rightarrow> bytes \<Rightarrow> 'g \<Rightarrow> 'g tcp_session" where
  "tcp_session_new send_with recv_with os =
     (\<lparr>ts_cipher = send_cipher_new send_with, ts_profile = None, ts_padder = None, ts_encoder = None, ts_os = os\<rparr>,
      \<lparr>tv_cipher = receive_cipher_new recv_with, tv_profile = None, tv_decoder = None, tv_reader = reader_default\<rparr>)"

definition with_padding_profile :: "'g tcp_session \<Rightarrow> profile_tier \<Rightarrow> 'g \<Rightarrow> 'g tcp_session" where
  "with_padding_profile x t g =
     (case x of (s, v) \<Rightarrow> (s\<lparr>ts_profile := Some t, ts_padder := Some (t, g)\<rparr>, v\<lparr>tv_profile := Some t\<rparr>))"

definition with_phantom_one_generation_and_profile :: "'g tcp_session \<Rightarrow> u32 \<Rightarrow> profile_tier \<Rightarrow> 'g \<Rightarrow> 'g tcp_session result" where
  "with_phantom_one_generation_and_profile x generation t g =
     (case x of (s, v) \<Rightarrow>
       (case phantom_decoder_with_config_and_window generation (phantom_config_for_profile t) PHANTOM_ONE_DEFAULT_REPLAY_WINDOW of
          Err e \<Rightarrow> Err e
        | Ok d \<Rightarrow> Ok (s\<lparr>ts_profile := None, ts_padder := None, ts_encoder := Some (phantom_encoder_with_profile generation g t)\<rparr>,
            v\<lparr>tv_profile := None, tv_decoder := Some d\<rparr>)))"

section \<open>The reader over a segmented stream\<close>

text \<open>The bytes of a stream, the failures it reports, and the frames as they are on the wire.\<close>

fun stream_bytes :: "read_event list \<Rightarrow> bytes" where
  "stream_bytes [] = []"
| "stream_bytes (Segment s # es) = s @ stream_bytes es"
| "stream_bytes (Fails e # es) = stream_bytes es"

fun failures :: "read_event list \<Rightarrow> io_error list" where
  "failures [] = []"
| "failures (Segment s # es) = failures es"
| "failures (Fails e # es) = (if e = Interrupted then failures es else e # failures es)"

definition stream_ok :: "read_event list \<Rightarrow> bool" where
  "stream_ok es \<longleftrightarrow> Segment [] \<notin> set es"

definition wire_frame :: "bytes \<Rightarrow> bytes" where
  "wire_frame f = be_bytes 4 (length f) @ f"

definition frame_fits :: "bytes \<Rightarrow> bool" where
  "frame_fits f \<longleftrightarrow> 0 < length f \<and> length f \<le> MAX_FRAME_BYTES"

text \<open>The reader holds a part of the frame \<open>f\<close>.\<close>

definition partial_frame :: "tcp_frame_reader \<Rightarrow> bytes \<Rightarrow> bool" where
  "partial_frame rd f \<longleftrightarrow> (\<exists>rest. wire_frame f = tr_wire rd @ rest)
     \<and> (case tr_expected rd of None \<Rightarrow> length (tr_wire rd) \<le> 4 | Some n \<Rightarrow> n = 4 + length f \<and> 4 \<le> length (tr_wire rd))"

lemma length_wire_frame [simp]: "length (wire_frame f) = 4 + length f"
  by (simp add: wire_frame_def)

lemma stream_read_bytes:
  assumes "stream_read n es = (Segment s, es')" and "stream_ok es"
  shows "stream_bytes es = s @ stream_bytes es'" and "stream_ok es'" and "failures es' = failures es" and "length s \<le> n"
    and "0 < n \<Longrightarrow> s = [] \<Longrightarrow> es = []"
  using assms by (cases "(n, es)" rule: stream_read.cases; auto simp: stream_ok_def split: if_splits)+

lemma read_prefix_partial:
  assumes "partial_frame rd f" and "frame_fits f"
  obtains rd1 where "read_prefix rd = Some rd1" "partial_frame rd1 f" "tr_wire rd1 = tr_wire rd"
    "tr_expected rd1 = None \<longrightarrow> length (tr_wire rd) < 4"
proof -
  obtain rest where rest: "wire_frame f = tr_wire rd @ rest" using assms(1) by (auto simp: partial_frame_def)
  have n: "length f < 256 ^ 4" using assms(2) by (simp add: frame_fits_def MAX_FRAME_BYTES_def)
  show thesis
  proof (cases "tr_expected rd = None \<and> 4 \<le> length (tr_wire rd)")
    case True
    then have "length (tr_wire rd) = 4" using assms(1) by (simp add: partial_frame_def)
    then have w: "tr_wire rd = be_bytes 4 (length f)" using rest by (auto simp: wire_frame_def append_eq_append_conv)
    have "of_be (take 4 (tr_wire rd)) = length f" using n by (simp add: w of_be_be_bytes_id)
    then have "read_prefix rd = Some (rd\<lparr>tr_expected := Some (4 + length f)\<rparr>)"
      using True assms(2) by (simp add: read_prefix_def frame_fits_def Let_def)
    then show thesis using True rest by (intro that [of "rd\<lparr>tr_expected := Some (4 + length f)\<rparr>"]) (auto simp: partial_frame_def)
  next
    case False
    then have "read_prefix rd = Some rd" by (auto simp: read_prefix_def)
    then show thesis using False assms(1) by (intro that) auto
  qed
qed

lemma complete_frame_partial:
  assumes "partial_frame rd f"
  shows "complete_frame rd = (if tr_expected rd \<noteq> None \<and> tr_wire rd = wire_frame f then Some f else None)"
proof -
  obtain rest where rest: "wire_frame f = tr_wire rd @ rest" using assms by (auto simp: partial_frame_def)
  have "slice (wire_frame f) 4 (4 + length f) = f" by (simp add: wire_frame_def slice_def)
  moreover have "4 + length f \<le> length (tr_wire rd) \<longleftrightarrow> tr_wire rd = wire_frame f"
    using rest by (metis add_le_same_cancel1 append_Nil2 le_add_same_cancel1 length_append length_wire_frame list.size(3) length_0_conv le_zero_eq order_refl)
  ultimately show ?thesis using assms by (auto simp: complete_frame_def partial_frame_def split: option.splits)
qed

text \<open>One call: either a failed read, which loses nothing, or exactly the frame.\<close>

definition open_frame :: "aead \<Rightarrow> profile_tier option \<Rightarrow> receive_cipher \<Rightarrow> bytes \<Rightarrow> bytes result \<times> receive_cipher" where
  "open_frame A profile c f =
     (case decrypt A c f of (Err e, c') \<Rightarrow> (Err e, c') | (Ok framed, c') \<Rightarrow> (remove_padding profile framed, c'))"

lemma reader_recv_frame_call:
  assumes "frame_fits f" and "partial_frame rd f" and "tr_wire rd @ stream_bytes es = wire_frame f @ tail" and "stream_ok es"
    and "reader_recv_frame A profile rd c es = (r, rd', c', es')"
  shows "(\<exists>e. failures es = e # failures es' \<and> r = Err (map_io_error e) \<and> c' = c \<and> partial_frame rd' f
        \<and> tr_wire rd' @ stream_bytes es' = wire_frame f @ tail \<and> stream_ok es')
    \<or> (rd' = reader_default \<and> stream_bytes es' = tail \<and> failures es' = failures es \<and> stream_ok es' \<and> open_frame A profile c f = (r, c'))"
  using assms(2-5)
proof (induction A profile rd c es arbitrary: r rd' c' es' rule: reader_recv_frame.induct)
  case (1 A profile rd c es)
  obtain rd1 where rd1: "read_prefix rd = Some rd1" "partial_frame rd1 f" "tr_wire rd1 = tr_wire rd"
    and short: "tr_expected rd1 = None \<longrightarrow> length (tr_wire rd) < 4"
    using read_prefix_partial [OF 1(3) assms(1)] .
  show ?case
  proof (cases "complete_frame rd1")
    case (Some body)
    then have "body = f" "tr_wire rd = wire_frame f" using complete_frame_partial [OF rd1(2)] rd1(3) by (auto split: if_splits)
    then show ?thesis using 1(4-6) rd1(1) Some
      by (auto simp: reader_recv_frame.simps [of A profile rd] open_frame_def split: prod.splits result.splits)
  next
    case None
    obtain rest where rest: "wire_frame f = tr_wire rd1 @ rest" using rd1(2) by (auto simp: partial_frame_def)
    have whole: "4 + length f = length (tr_wire rd1) + length rest" using arg_cong [OF rest, of length] by simp
    have more_needed: "0 < bytes_needed rd1" "bytes_needed rd1 \<le> length rest"
      using None complete_frame_partial [OF rd1(2)] rd1(2,3) rest short whole
      by (auto simp: bytes_needed_def partial_frame_def split: option.splits if_splits)
    obtain ev es1 where ev: "stream_read (min (bytes_needed rd1) 8192) es = (ev, es1)" by fastforce
    show ?thesis
    proof (cases ev)
      case (Fails e)
      then have es: "es = Fails e # es1" using ev stream_read_fails by blast
      then have ok1: "stream_ok es1" using 1(5) by (simp add: stream_ok_def)
      show ?thesis
      proof (cases "e = Interrupted")
        case True
        with 1(2) [OF rd1(1) None ev [symmetric] Fails True rd1(2)] 1(4,6) ok1 rd1 es None ev Fails
        show ?thesis by (simp add: reader_recv_frame.simps [of A profile rd])
      next
        case False
        with 1(4,6) ok1 rd1 es None ev Fails show ?thesis by (auto simp: reader_recv_frame.simps [of A profile rd])
      qed
    next
      case (Segment s)
      note read = stream_read_bytes [OF ev [unfolded Segment] 1(5)]
      have "s \<noteq> []"
        using read(5) more_needed 1(4) rest rd1(3) by (auto simp: stream_bytes.simps)
      have len: "length s \<le> length rest" using read(4) more_needed by linarith
      have all: "s @ stream_bytes es1 = rest @ tail" using 1(4) read(1) rest rd1(3) by simp
      then obtain rest' where rest': "rest = s @ rest'" using len by (metis append_eq_append_conv_if append_take_drop_id)
      define rd2 where "rd2 = rd1\<lparr>tr_wire := tr_wire rd1 @ s\<rparr>"
      have "length s \<le> bytes_needed rd1" using read(4) by simp
      then have p2: "partial_frame rd2 f"
        using rd1(2,3) rest rest' short by (auto simp: partial_frame_def rd2_def bytes_needed_def split: option.splits)
      have w2: "tr_wire rd2 @ stream_bytes es1 = wire_frame f @ tail" using all rest by (simp add: rd2_def)
      have "reader_recv_frame A profile rd2 c es1 = (r, rd', c', es')"
        using 1(6) rd1 None ev Segment \<open>s \<noteq> []\<close> by (simp add: reader_recv_frame.simps [of A profile rd] rd2_def)
      with 1(1) [OF rd1(1) None ev [symmetric] Segment \<open>s \<noteq> []\<close>, folded rd2_def, OF p2 w2 read(2)] read(3)
      show ?thesis by simp
    qed
  qed
qed

section \<open>Calls on a session\<close>

text \<open>What is left to do after the decryption of a frame, and the whole of it without the reader.\<close>

definition unframe :: "profile_tier option \<Rightarrow> phantom_decoder option \<Rightarrow> bytes \<Rightarrow> bytes result \<times> phantom_decoder option" where
  "unframe profile decoder framed =
     (case remove_padding profile framed of
        Err e \<Rightarrow> (Err e, decoder)
      | Ok b \<Rightarrow>
          (case decoder of
             None \<Rightarrow> (Ok b, None)
           | Some d \<Rightarrow>
               (case phantom_decode_in_place d b PHANTOM_ONE_TCP_PATH_MTU of
                  (Err e, _, d') \<Rightarrow> (Err e, Some d') | (Ok _, b', d') \<Rightarrow> (Ok b', Some d'))))"

definition open_tcp :: "aead \<Rightarrow> tcp_receiver \<Rightarrow> bytes \<Rightarrow> bytes result \<times> tcp_receiver" where
  "open_tcp A v f =
     (case decrypt A (tv_cipher v) f of
        (Err e, c) \<Rightarrow> (Err e, v\<lparr>tv_cipher := c\<rparr>)
      | (Ok framed, c) \<Rightarrow> (case unframe (tv_profile v) (tv_decoder v) framed of (r, d) \<Rightarrow> (r, v\<lparr>tv_cipher := c, tv_decoder := d\<rparr>)))"

fun recv_calls :: "aead \<Rightarrow> tcp_receiver \<Rightarrow> read_event list \<Rightarrow> nat \<Rightarrow> bytes result list" where
  "recv_calls A v es 0 = []"
| "recv_calls A v es (Suc n) = (case read_encrypted_tcp_frame A v es of (r, v', es') \<Rightarrow> r # recv_calls A v' es' n)"

fun err_values :: "'a result list \<Rightarrow> shph_error list" where
  "err_values [] = []"
| "err_values (Ok x # rs) = err_values rs"
| "err_values (Err e # rs) = e # err_values rs"

text \<open>The frames that a receiver turns into the given messages, one after the other.\<close>

fun readable :: "aead \<Rightarrow> tcp_receiver \<Rightarrow> (bytes \<times> bytes) list \<Rightarrow> bool" where
  "readable A v [] = True"
| "readable A v ((f, m) # ps) = (frame_fits f \<and> (\<exists>v'. open_tcp A v f = (Ok m, v') \<and> readable A v' ps))"

definition modes_compatible :: "tcp_receiver \<Rightarrow> bool" where
  "modes_compatible v \<longleftrightarrow> tv_decoder v = None \<or> tv_profile v = None"

lemma open_tcp_reader: "open_tcp A (v\<lparr>tv_reader := rd\<rparr>) f = (case open_tcp A v f of (r, v') \<Rightarrow> (r, v'\<lparr>tv_reader := rd\<rparr>))"
  by (simp add: open_tcp_def split: prod.splits result.splits)

lemma readable_reader: "readable A (v\<lparr>tv_reader := rd\<rparr>) ps = readable A v ps"
proof (induction ps arbitrary: v)
  case (Cons p ps)
  obtain f m where p: "p = (f, m)" by fastforce
  obtain r v' where o: "open_tcp A v f = (r, v')" by fastforce
  show ?case using Cons [of v'] by (auto simp: p o open_tcp_reader)
qed simp

lemma open_tcp_compatible: "open_tcp A v f = (r, v') \<Longrightarrow> modes_compatible v \<Longrightarrow> modes_compatible v'"
  by (auto simp: open_tcp_def modes_compatible_def unframe_def split: prod.splits result.splits option.splits)

lemma read_encrypted_tcp_frame_call:
  assumes v: "modes_compatible v" "frame_fits f" "partial_frame (tv_reader v) f" "stream_ok es"
      "tr_wire (tv_reader v) @ stream_bytes es = wire_frame f @ tail"
    and o: "open_tcp A v f = (Ok m, v')"
  obtains (failed) e rd es' where "read_encrypted_tcp_frame A v es = (Err (map_io_error e), v\<lparr>tv_reader := rd\<rparr>, es')"
      "failures es = e # failures es'" "partial_frame rd f" "stream_ok es'" "tr_wire rd @ stream_bytes es' = wire_frame f @ tail"
  | (got) es' where "read_encrypted_tcp_frame A v es = (Ok m, v'\<lparr>tv_reader := reader_default\<rparr>, es')"
      "failures es' = failures es" "stream_ok es'" "stream_bytes es' = tail"
proof -
  obtain r rd c es' where call: "reader_recv_frame A (tv_profile v) (tv_reader v) (tv_cipher v) es = (r, rd, c, es')" by (metis prod.exhaust)
  have guard: "\<not> (tv_decoder v \<noteq> None \<and> tv_profile v \<noteq> None)" using v(1) by (auto simp: modes_compatible_def)
  from reader_recv_frame_call [OF v(2,3,5,4) call] show thesis
  proof (elim disjE exE conjE)
    fix e assume "failures es = e # failures es'" "r = Err (map_io_error e)" "c = tv_cipher v" "partial_frame rd f"
      "tr_wire rd @ stream_bytes es' = wire_frame f @ tail" "stream_ok es'"
    then show thesis using guard call by (intro failed) (auto simp: read_encrypted_tcp_frame_def Let_def)
  next
    assume a: "rd = reader_default" "stream_bytes es' = tail" "failures es' = failures es" "stream_ok es'"
      "open_frame A (tv_profile v) (tv_cipher v) f = (r, c)"
    have "read_encrypted_tcp_frame A v es = (Ok m, v'\<lparr>tv_reader := reader_default\<rparr>, es')"
      using o a(1,5) guard call
      by (auto simp: read_encrypted_tcp_frame_def open_tcp_def open_frame_def unframe_def Let_def split: prod.splits result.splits option.splits)
    then show thesis using a by (intro got) auto
  qed
qed

lemma reader_at_end:
  assumes "stream_bytes es = []" and "stream_ok es" and "failures es = e # fs"
  shows "\<exists>es'. reader_recv_frame A profile reader_default c es = (Err (map_io_error e), reader_default, c, es')
    \<and> stream_bytes es' = [] \<and> stream_ok es' \<and> failures es' = fs"
  using assms
proof (induction es)
  case (Cons ev es)
  have start: "read_prefix reader_default = Some reader_default" "complete_frame reader_default = None" "bytes_needed reader_default = 4"
    by (simp_all add: reader_default_def read_prefix_def complete_frame_def bytes_needed_def)
  obtain x where ev: "ev = Fails x" using Cons(2,3) by (cases ev) (auto simp: stream_ok_def)
  show ?case
  proof (cases "x = Interrupted")
    case True
    then have "reader_recv_frame A profile reader_default c (ev # es) = reader_recv_frame A profile reader_default c es"
      unfolding ev by (subst reader_recv_frame.simps) (simp add: start)
    then show ?thesis using Cons True ev by (auto simp: stream_ok_def)
  next
    case False
    then have "reader_recv_frame A profile reader_default c (ev # es) = (Err (map_io_error x), reader_default, c, es)"
      unfolding ev by (subst reader_recv_frame.simps) (simp add: start)
    then show ?thesis using Cons ev False by (auto simp: stream_ok_def)
  qed
qed simp

definition pending :: "tcp_receiver \<Rightarrow> (bytes \<times> bytes) list \<Rightarrow> read_event list \<Rightarrow> bool" where
  "pending v ps es \<longleftrightarrow> stream_ok es \<and> tr_wire (tv_reader v) @ stream_bytes es = concat (map (wire_frame \<circ> fst) ps)
     \<and> (case ps of [] \<Rightarrow> tv_reader v = reader_default | (f, m) # _ \<Rightarrow> partial_frame (tv_reader v) f)"

lemma recv_calls_deliver:
  "readable A v ps \<Longrightarrow> modes_compatible v \<Longrightarrow> pending v ps es \<Longrightarrow> n = length ps + length (failures es) \<Longrightarrow>
     ok_values (recv_calls A v es n) = map snd ps \<and> err_values (recv_calls A v es n) = map map_io_error (failures es)"
proof (induction n arbitrary: v ps es)
  case (Suc n)
  show ?case
  proof (cases ps)
    case Nil
    then obtain e fs where fs: "failures es = e # fs" using Suc.prems(4) by (cases "failures es") auto
    have v: "tv_reader v = reader_default" "stream_bytes es = []" "stream_ok es" using Nil Suc.prems(3) by (auto simp: pending_def)
    obtain es' where es': "reader_recv_frame A (tv_profile v) reader_default (tv_cipher v) es = (Err (map_io_error e), reader_default, tv_cipher v, es')"
      "stream_bytes es' = []" "stream_ok es'" "failures es' = fs" using reader_at_end [OF v(2,3) fs] by blast
    then have "read_encrypted_tcp_frame A v es = (Err (map_io_error e), v, es')"
      using Suc.prems(2) v(1) by (auto simp: read_encrypted_tcp_frame_def modes_compatible_def Let_def)
    moreover have "pending v [] es'" using es' v by (auto simp: pending_def reader_default_def)
    ultimately show ?thesis using Suc.IH [of v "[]" es'] Suc.prems Nil fs es' by simp
  next
    case (Cons p qs)
    obtain f m where p: "p = (f, m)" by fastforce
    from Suc.prems(1) obtain v' where o: "open_tcp A v f = (Ok m, v')" and f: "frame_fits f" and rest: "readable A v' qs"
      by (auto simp: Cons p)
    have pe: "partial_frame (tv_reader v) f" "stream_ok es"
        "tr_wire (tv_reader v) @ stream_bytes es = wire_frame f @ concat (map (wire_frame \<circ> fst) qs)"
      using Suc.prems(3) by (auto simp: pending_def Cons p)
    from Suc.prems(2) f pe(1,2,3) o show ?thesis
    proof (cases rule: read_encrypted_tcp_frame_call)
      case (failed e rd es')
      have "pending (v\<lparr>tv_reader := rd\<rparr>) ps es'" using failed by (simp add: pending_def Cons p)
      then show ?thesis using Suc.IH [of "v\<lparr>tv_reader := rd\<rparr>" ps es'] Suc.prems failed
        by (simp add: readable_reader modes_compatible_def)
    next
      case (got es')
      have "partial_frame reader_default g" for g by (simp add: partial_frame_def reader_default_def)
      then have "pending (v'\<lparr>tv_reader := reader_default\<rparr>) qs es'" using got
        by (auto simp: pending_def reader_default_def split: list.splits)
      then show ?thesis
        using Suc.IH [of "v'\<lparr>tv_reader := reader_default\<rparr>" qs es'] Suc.prems(4) got rest open_tcp_compatible [OF o Suc.prems(2)]
        by (simp add: Cons p readable_reader) (simp add: modes_compatible_def)
    qed
  qed
qed simp

section \<open>Framing modes\<close>

lemma frame_payload_cipher: "frame_payload R s m = Some (r, s') \<Longrightarrow> ts_cipher s' = ts_cipher s"
  by (auto simp: frame_payload_def split: option.splits prod.splits)

fun tcp_send_run :: "aead \<Rightarrow> 'g rng \<Rightarrow> 'g tcp_sender \<Rightarrow> bytes list \<Rightarrow> (bytes result list \<times> 'g tcp_sender) option" where
  "tcp_send_run A R s [] = Some ([], s)"
| "tcp_send_run A R s (m # ms) =
     (case write_encrypted_tcp_frame A R s m of
        None \<Rightarrow> None
      | Some (r, s1) \<Rightarrow> (case tcp_send_run A R s1 ms of None \<Rightarrow> None | Some (rs, s2) \<Rightarrow> Some (r # rs, s2)))"

fun accepted :: "'a list \<Rightarrow> 'b result list \<Rightarrow> 'a list" where
  "accepted (m # ms) (Ok _ # rs) = m # accepted ms rs"
| "accepted (m # ms) (Err _ # rs) = accepted ms rs"
| "accepted _ _ = []"

text \<open>The AEAD appends a 16-byte tag and accepts every plaintext of a frame.\<close>

definition aead_sized :: "aead \<Rightarrow> bool" where
  "aead_sized A \<longleftrightarrow> (\<forall>k n p. \<forall>c\<in>set_option (aead_encrypt A k n p). length c = length p + 16)"

definition aead_total :: "aead \<Rightarrow> bool" where
  "aead_total A \<longleftrightarrow> (\<forall>k n p. length k = 32 \<longrightarrow> aead_encrypt A k n p \<noteq> None)"

definition ciphers_synced :: "'g tcp_sender \<Rightarrow> tcp_receiver \<Rightarrow> bool" where
  "ciphers_synced s v \<longleftrightarrow> length (skey (ts_cipher s)) = 32 \<and> rkey (tv_cipher v) = skey (ts_cipher s) \<and> replay_inv (replay (tv_cipher v))
     \<and> (\<forall>h\<in>set_option (replay_top (replay (tv_cipher v))). h < snonce (ts_cipher s))"

lemma encrypt_total:
  assumes "aead_sized A" and "aead_total A" and "length (skey c) = 32" and "snonce c < AEAD_NONCE_LIMIT"
  obtains f c' where "encrypt A c x = (Ok f, c')" "length f = length x + 28"
proof -
  obtain b where "aead_encrypt A (skey c) (nonce_bytes (snonce c)) x = Some b"
    using assms(2,3) unfolding aead_total_def by (metis not_None_eq)
  moreover then have "length b = length x + 16" using assms(1) by (auto simp: aead_sized_def)
  ultimately show thesis using assms(3,4) by (intro that) (auto simp: encrypt_def)
qed

lemma ciphers_synced_step:
  assumes "aead_ok A" and "ciphers_synced s v" and "encrypt A (ts_cipher s) x = (Ok f, c)"
  shows "\<exists>c'. decrypt A (tv_cipher v) f = (Ok x, c') \<and> ciphers_synced (s1\<lparr>ts_cipher := c\<rparr>) (v\<lparr>tv_cipher := c', tv_decoder := d\<rparr>)"
proof -
  have st: "replay_inv (replay (tv_cipher v))" "rkey (tv_cipher v) = skey (ts_cipher s)"
      "\<forall>h\<in>set_option (replay_top (replay (tv_cipher v))). h < snonce (ts_cipher s)" "length (skey (ts_cipher s)) = 32"
    using assms(2) by (auto simp: ciphers_synced_def)
  from in_order_step [OF assms(1) st(1,2,3) assms(3)] obtain c' where "decrypt A (tv_cipher v) f = (Ok x, c')"
      "replay_inv (replay c')" "rkey c' = skey c" "\<forall>h\<in>set_option (replay_top (replay c')). h < snonce c" by blast
  moreover have "length (skey c) = 32" using st(4) encrypt_Ok(4) [OF assms(3)] by simp
  ultimately show ?thesis by (auto simp: ciphers_synced_def)
qed

text \<open>The contract between the framing of a payload before its encryption and the undoing of it after
  decryption: \<open>synced n\<close> says that the two sides agree and that at least \<open>n\<close> messages can follow.\<close>

locale framing_mode =
  fixes R :: "'g rng"
    and synced :: "nat \<Rightarrow> 'g tcp_sender \<Rightarrow> tcp_receiver \<Rightarrow> bool"
  assumes frame_returns: "synced n s v \<Longrightarrow> \<exists>r s'. frame_payload R s m = Some (r, s')"
    and frame_Ok: "synced (Suc n) s v \<Longrightarrow> length m \<le> MAX_TCP_PAYLOAD_BYTES \<Longrightarrow> frame_payload R s m = Some (Ok f, s')
      \<Longrightarrow> length f \<le> MAX_TCP_PAYLOAD_BYTES \<and> (\<exists>d. unframe (tv_profile v) (tv_decoder v) f = (Ok m, d) \<and> synced n s' (v\<lparr>tv_decoder := d\<rparr>))"
    and frame_Err: "synced (Suc n) s v \<Longrightarrow> frame_payload R s m = Some (Err e, s') \<Longrightarrow> synced n s' v"
    and synced_less: "synced (Suc n) s v \<Longrightarrow> synced n s v"
    and synced_cipher: "synced n s v \<Longrightarrow> synced n (s\<lparr>ts_cipher := c\<rparr>) (v\<lparr>tv_cipher := c'\<rparr>)"
    and synced_modes: "synced n s v \<Longrightarrow> modes_compatible v \<and> (ts_encoder s = None \<or> ts_profile s = None \<and> ts_padder s = None)"
begin

lemma session_readable:
  assumes A: "aead_ok A" "aead_sized A" "aead_total A"
  shows "synced (length ms) s v \<Longrightarrow> ciphers_synced s v \<Longrightarrow> snonce (ts_cipher s) + length ms \<le> AEAD_NONCE_LIMIT \<Longrightarrow>
    \<exists>rs s' ps. tcp_send_run A R s ms = Some (rs, s') \<and> map snd ps = accepted ms rs
      \<and> map (wire_frame \<circ> fst) ps = ok_values rs \<and> readable A v ps"
proof (induction ms arbitrary: s v)
  case Nil
  then show ?case by (intro exI [of _ "[]"]) auto
next
  case (Cons m ms)
  have comp: "\<not> (ts_encoder s \<noteq> None \<and> (ts_profile s \<noteq> None \<or> ts_padder s \<noteq> None))" using synced_modes [OF Cons.prems(1)] by auto
  obtain r s1 where w: "write_encrypted_tcp_frame A R s m = Some (r, s1)"
    and r: "case r of Err e \<Rightarrow> synced (length ms) s1 v \<and> ts_cipher s1 = ts_cipher s
      | Ok wire \<Rightarrow> \<exists>f v'. wire = wire_frame f \<and> frame_fits f \<and> open_tcp A v f = (Ok m, v')
           \<and> synced (length ms) s1 v' \<and> ciphers_synced s1 v' \<and> snonce (ts_cipher s1) = snonce (ts_cipher s) + 1"
  proof (cases "length m \<le> MAX_TCP_PAYLOAD_BYTES")
    case False
    then show thesis using synced_less [of "length ms" s v] Cons.prems(1)
      by (intro that [of "Err (Protocol (''TCP payload exceeds the '' @ show_nat MAX_TCP_PAYLOAD_BYTES @ ''-byte frame capacity''))" s])
        (auto simp: write_encrypted_tcp_frame_def validate_tcp_payload_def)
  next
    case True
    obtain r1 s1 where fr: "frame_payload R s m = Some (r1, s1)" using frame_returns [OF Cons.prems(1)] by blast
    note c1 = frame_payload_cipher [OF fr]
    show thesis
    proof (cases r1)
      case (Err e)
      then show thesis using fr comp True frame_Err [of "length ms" s v m e s1] Cons.prems(1) c1
        by (intro that [of "Err e" s1]) (auto simp: write_encrypted_tcp_frame_def validate_tcp_payload_def)
    next
      case (Ok x)
      obtain d where x: "length x \<le> MAX_TCP_PAYLOAD_BYTES" "unframe (tv_profile v) (tv_decoder v) x = (Ok m, d)"
          "synced (length ms) s1 (v\<lparr>tv_decoder := d\<rparr>)"
        using frame_Ok [of "length ms" s v m x s1] Cons.prems(1) True fr Ok by auto
      obtain f c where e: "encrypt A (ts_cipher s) x = (Ok f, c)" and len: "length f = length x + 28"
        using encrypt_total [OF A(2,3), of "ts_cipher s" x] Cons.prems(2,3) by (auto simp: ciphers_synced_def)
      have fits: "frame_fits f" using len x(1) by (simp add: frame_fits_def MAX_TCP_PAYLOAD_BYTES_def SHROUD_AEAD_OVERHEAD_def MAX_FRAME_BYTES_def)
      obtain c' where c': "decrypt A (tv_cipher v) f = (Ok x, c')" "ciphers_synced (s1\<lparr>ts_cipher := c\<rparr>) (v\<lparr>tv_cipher := c', tv_decoder := d\<rparr>)"
        using ciphers_synced_step [OF A(1) Cons.prems(2) e] by auto
      have "v\<lparr>tv_decoder := d, tv_cipher := c'\<rparr> = v\<lparr>tv_cipher := c', tv_decoder := d\<rparr>" by simp
      then have "synced (length ms) (s1\<lparr>ts_cipher := c\<rparr>) (v\<lparr>tv_cipher := c', tv_decoder := d\<rparr>)"
        using synced_cipher [OF x(3), of c c'] by metis
      moreover have "open_tcp A v f = (Ok m, v\<lparr>tv_cipher := c', tv_decoder := d\<rparr>)" using c' x by (simp add: open_tcp_def)
      moreover have "write_encrypted_tcp_frame A R s m = Some (Ok (wire_frame f), s1\<lparr>ts_cipher := c\<rparr>)"
        using fr Ok comp True e c1 fits
        by (auto simp: write_encrypted_tcp_frame_def validate_tcp_payload_def wire_frame_def frame_fits_def MAX_FRAME_BYTES_def u32_max_def)
      ultimately show thesis using c'(2) fits encrypt_Ok(4) [OF e] by (intro that [of "Ok (wire_frame f)" "s1\<lparr>ts_cipher := c\<rparr>"]) auto
    qed
  qed
  show ?case
  proof (cases r)
    case (Err e)
    have "ciphers_synced s1 v" using r Err Cons.prems(2) by (simp add: ciphers_synced_def)
    then show ?thesis using Cons.IH [of s1 v] r Err w Cons.prems(3) by auto
  next
    case (Ok wire)
    then obtain f v' where f: "wire = wire_frame f" "frame_fits f" "open_tcp A v f = (Ok m, v')"
      "synced (length ms) s1 v'" "ciphers_synced s1 v'" "snonce (ts_cipher s1) = snonce (ts_cipher s) + 1" using r by auto
    from f(6) Cons.prems(3) have "snonce (ts_cipher s1) + length ms \<le> AEAD_NONCE_LIMIT" by simp
    from Cons.IH [OF f(4,5) this] obtain rs s' ps where "tcp_send_run A R s1 ms = Some (rs, s')" "map snd ps = accepted ms rs"
      "map (wire_frame \<circ> fst) ps = ok_values rs" "readable A v' ps" by blast
    then show ?thesis using f w Ok by (intro exI [of _ "r # rs"] exI [of _ s'] exI [of _ "(f, m) # ps"]) (auto simp: comp_def)
  qed
qed

end

definition plain_synced :: "nat \<Rightarrow> 'g tcp_sender \<Rightarrow> tcp_receiver \<Rightarrow> bool" where
  "plain_synced n s v \<longleftrightarrow> ts_profile s = None \<and> ts_padder s = None \<and> ts_encoder s = None \<and> tv_profile v = None \<and> tv_decoder v = None"

definition padded_synced :: "profile_tier \<Rightarrow> nat \<Rightarrow> 'g tcp_sender \<Rightarrow> tcp_receiver \<Rightarrow> bool" where
  "padded_synced t n s v \<longleftrightarrow> ts_profile s = Some t \<and> (\<exists>g. ts_padder s = Some (t, g)) \<and> ts_encoder s = None
     \<and> tv_profile v = Some t \<and> tv_decoder v = None"

definition phantom_synced :: "nat \<Rightarrow> 'g tcp_sender \<Rightarrow> tcp_receiver \<Rightarrow> bool" where
  "phantom_synced n s v \<longleftrightarrow> ts_profile s = None \<and> ts_padder s = None \<and> tv_profile v = None
     \<and> (\<exists>e d sq. ts_encoder s = Some e \<and> tv_decoder v = Some d \<and> in_step e d sq \<and> sq + n \<le> u64_max
          \<and> em_padding_bytes (pe_metrics e) + 4096 * n \<le> u64_max)"

interpretation plain: framing_mode R "plain_synced :: nat \<Rightarrow> 'g tcp_sender \<Rightarrow> tcp_receiver \<Rightarrow> bool" for R :: "'g rng"
  by unfold_locales (auto simp: plain_synced_def frame_payload_def unframe_def remove_padding_def modes_compatible_def)

lemma apply_profile_cases:
  assumes R: "rng_ok R"
  obtains r b g' where "apply_profile_into_with_rng R t m [] g = Some (r, b, g')"
    "r = Ok () \<longrightarrow> remove_profile_in_place t b = (Ok (), m) \<and> length b \<le> 1360"
proof (cases "length m \<le> max_payload_bytes t")
  case True
  from apply_profile_step [OF R True, of "[]" g] obtain tl0 r x where x: "profile_legal t m tl0"
    "apply_profile_into_with_rng R t m [] g = Some (r, x)" "r = Ok () \<Longrightarrow> fst x = profile_frame t m tl0" by fastforce
  obtain b g' where "x = (b, g')" by fastforce
  with x show thesis using remove_profile_frame [OF x(1)] accepts_frame_len_bounds [of t "length (profile_frame t m tl0)"]
    by (intro that) (auto simp: profile_legal_def length_profile_frame)
next
  case False
  then have "last (base_tiers t) < PROFILE_HEADER_BYTES + length m" by (auto simp: max_payload_bytes_def)
  then have none: "find (\<lambda>sz. PROFILE_HEADER_BYTES + length m \<le> sz) (base_tiers t) = None" by (simp add: find_base_tier(1))
  show thesis
  proof (cases "checked_add usize_max PROFILE_HEADER_BYTES (length m)")
    case None
    then show thesis by (intro that) (auto simp: apply_profile_into_with_rng_def)
  next
    case (Some k)
    then have "k = PROFILE_HEADER_BYTES + length m" by (auto simp: checked_add_def split: if_splits)
    with Some none show thesis by (intro that) (auto simp: apply_profile_into_with_rng_def)
  qed
qed

lemma padded_framing: "rng_ok R \<Longrightarrow> framing_mode R (padded_synced t)"
proof
  fix n and s :: "'a tcp_sender" and v m f s' e
  assume R: "rng_ok R"
  show "\<exists>r s'. frame_payload R s m = Some (r, s')" if sy: "padded_synced t n s v"
  proof -
    obtain g where g: "ts_padder s = Some (t, g)" using sy by (auto simp: padded_synced_def)
    obtain r b g' where "apply_profile_into_with_rng R t m [] g = Some (r, b, g')" by (rule apply_profile_cases [OF R])
    then show ?thesis using g sy by (auto simp: padded_synced_def frame_payload_def)
  qed
  show "length f \<le> MAX_TCP_PAYLOAD_BYTES \<and> (\<exists>d. unframe (tv_profile v) (tv_decoder v) f = (Ok m, d) \<and> padded_synced t n s' (v\<lparr>tv_decoder := d\<rparr>))"
    if sy: "padded_synced t (Suc n) s v" and fr: "frame_payload R s m = Some (Ok f, s')"
  proof -
    obtain g where g: "ts_padder s = Some (t, g)" using sy by (auto simp: padded_synced_def)
    obtain r b g' where a: "apply_profile_into_with_rng R t m [] g = Some (r, b, g')"
      "r = Ok () \<longrightarrow> remove_profile_in_place t b = (Ok (), m) \<and> length b \<le> 1360" by (rule apply_profile_cases [OF R])
    then have "r = Ok ()" "f = b" "s' = s\<lparr>ts_padder := Some (t, g')\<rparr>"
      using sy fr g by (cases r; auto simp: padded_synced_def frame_payload_def)+
    then show ?thesis using a sy
      by (auto simp: padded_synced_def unframe_def remove_padding_def MAX_TCP_PAYLOAD_BYTES_def MAX_FRAME_BYTES_def SHROUD_AEAD_OVERHEAD_def)
  qed
  show "padded_synced t n s' v" if "padded_synced t (Suc n) s v" "frame_payload R s m = Some (Err e, s')"
    using that by (auto simp: padded_synced_def frame_payload_def)
qed (auto simp: padded_synced_def modes_compatible_def)

lemma decode_in_place_decode:
  "phantom_decode d b mtu = (Ok f, d') \<Longrightarrow> phantom_decode_in_place d b mtu = (Ok (), pf_payload f, d')"
proof -
  assume dec: "phantom_decode d b mtu = (Ok f, d')"
  obtain parts where parts: "decode_parts b (pd_generation d) mtu (pd_config d) = Ok parts"
    using dec by (auto simp: phantom_decode_def split: result.splits)
  obtain ft sq pl pad where w: "b = po_wire (pc_profile (pd_config d)) (pd_generation d) (ft, sq, pl) pad"
      "parts = po_parts (pd_config d) (pd_generation d) (ft, sq, pl) pad"
    using decode_parts_only [OF parts] by auto
  have "slice b 24 (pp_payload_end parts) = pl" "pp_payload_len parts = length pl"
    by (simp_all add: w po_parts_def po_wire_payload PHANTOM_ONE_HEADER_BYTES_def)
  then show ?thesis using dec parts
    by (auto simp: phantom_decode_def phantom_decode_in_place_def to_frame_def write_at_def PHANTOM_ONE_HEADER_BYTES_def
        split: result.splits prod.splits)
qed

lemma phantom_encode_as_into:
  "phantom_encode_into R e ft m mtu [] = (r, b, e') \<Longrightarrow> phantom_encode R e ft m mtu = (map_ok (\<lambda>_. b) r, e')"
  by (simp add: phantom_encode_def)

lemma phantom_encode_fits:
  assumes "rng_ok R" and "pe_inv e" and "phantom_encode R e ft m mtu = (Ok b, e')"
  shows "length b \<le> mtu"
proof -
  obtain sq pad where "b = po_wire (pc_profile (pe_config e)) (pe_generation e) (ft, sq, m) pad"
      "po_legal (pe_config e) (pe_generation e) mtu (ft, sq, m) pad"
    using phantom_encode_Ok [OF assms] by metis
  then show ?thesis by (simp add: po_legal_def po_wire_fields PHANTOM_ONE_HEADER_BYTES_def)
qed

lemma phantom_framing: "rng_ok R \<Longrightarrow> framing_mode R phantom_synced"
proof
  fix n and s :: "'a tcp_sender" and v m f s' e
  assume R: "rng_ok R"
  show "\<exists>r s'. frame_payload R s m = Some (r, s')" if "phantom_synced n s v"
    using that by (auto simp: phantom_synced_def frame_payload_def split: prod.splits)
  show "length f \<le> MAX_TCP_PAYLOAD_BYTES \<and> (\<exists>d. unframe (tv_profile v) (tv_decoder v) f = (Ok m, d) \<and> phantom_synced n s' (v\<lparr>tv_decoder := d\<rparr>))"
    if sy: "phantom_synced (Suc n) s v" and fr: "frame_payload R s m = Some (Ok f, s')"
  proof -
    obtain en d sq where st: "ts_encoder s = Some en" "tv_decoder v = Some d" "in_step en d sq" "sq + Suc n \<le> u64_max"
        "em_padding_bytes (pe_metrics en) + 4096 * Suc n \<le> u64_max" and pl: "ts_profile s = None" "ts_padder s = None" "tv_profile v = None"
      using sy by (auto simp: phantom_synced_def)
    obtain r b en' where enc: "phantom_encode_into R en Data m PHANTOM_ONE_TCP_PATH_MTU [] = (r, b, en')" by (metis prod.exhaust)
    then have f: "r = Ok ()" "f = b" "s' = s\<lparr>ts_encoder := Some en'\<rparr>" using fr st pl by (cases r; auto simp: frame_payload_def)+
    then have e': "phantom_encode R en Data m PHANTOM_ONE_TCP_PATH_MTU = (Ok f, en')" using phantom_encode_as_into [OF enc] by simp
    have fits: "length f \<le> PHANTOM_ONE_TCP_PATH_MTU" using phantom_encode_fits [OF R _ e'] st(3) by (simp add: in_step_def)
    have "sq < u64_max" "em_padding_bytes (pe_metrics en) + 4096 \<le> u64_max" using st(4,5) by simp_all
    from in_step_encode [OF R st(3) this e'] obtain fr d' where
      d': "phantom_decode d f PHANTOM_ONE_TCP_PATH_MTU = (Ok fr, d')" "po_message fr = (Data, sq, m)" "in_step en' d' (sq + 1)"
      "em_padding_bytes (pe_metrics en') \<le> em_padding_bytes (pe_metrics en) + 4096" by metis
    have "unframe (tv_profile v) (tv_decoder v) f = (Ok m, Some d')"
      using decode_in_place_decode [OF d'(1)] d'(2) st pl by (simp add: unframe_def remove_padding_def po_message_def)
    moreover have "phantom_synced n s' (v\<lparr>tv_decoder := Some d'\<rparr>)" using d' st pl f
      by (auto simp: phantom_synced_def intro!: exI [of _ "sq + 1"])
    ultimately show ?thesis using fits by (auto simp: PHANTOM_ONE_TCP_PATH_MTU_def)
  qed
  show "phantom_synced n s' v" if sy: "phantom_synced (Suc n) s v" and fr: "frame_payload R s m = Some (Err e, s')"
  proof -
    obtain en d sq where st: "ts_encoder s = Some en" "tv_decoder v = Some d" "in_step en d sq" "sq + Suc n \<le> u64_max"
        "em_padding_bytes (pe_metrics en) + 4096 * Suc n \<le> u64_max" and pl: "ts_profile s = None" "ts_padder s = None" "tv_profile v = None"
      using sy by (auto simp: phantom_synced_def)
    obtain r b en' where enc: "phantom_encode_into R en Data m PHANTOM_ONE_TCP_PATH_MTU [] = (r, b, en')" by (metis prod.exhaust)
    then have f: "r = Err e" "s' = s\<lparr>ts_encoder := Some en'\<rparr>" using fr st pl by (cases r; auto simp: frame_payload_def)+
    then have "phantom_encode R en Data m PHANTOM_ONE_TCP_PATH_MTU = (Err e, en')" using phantom_encode_as_into [OF enc] by simp
    then obtain g where "en' = en\<lparr>pe_rng := g\<rparr>" using phantom_encode_Err [OF R] by blast
    then show ?thesis using st pl f by (auto simp: phantom_synced_def)
  qed
  show "phantom_synced n s v" if "phantom_synced (Suc n) s v" for n and s :: "'a tcp_sender" and v
    using that by (fastforce simp: phantom_synced_def)
qed (auto simp: phantom_synced_def modes_compatible_def)

section \<open>Sessions\<close>

text \<open>The three ways a session is configured after its handshake.\<close>

datatype session_mode = Plain_Mode | Padded_Mode profile_tier | Phantom_Mode u32 profile_tier

definition session_in_mode :: "session_mode \<Rightarrow> 'g tcp_session \<Rightarrow> 'g \<Rightarrow> 'g tcp_session result" where
  "session_in_mode mode x g =
     (case mode of
        Plain_Mode \<Rightarrow> Ok x
      | Padded_Mode t \<Rightarrow> Ok (with_padding_profile x t g)
      | Phantom_Mode generation t \<Rightarrow> with_phantom_one_generation_and_profile x generation t g)"

definition mode_synced :: "session_mode \<Rightarrow> nat \<Rightarrow> 'g tcp_sender \<Rightarrow> tcp_receiver \<Rightarrow> bool" where
  "mode_synced mode = (case mode of Plain_Mode \<Rightarrow> plain_synced | Padded_Mode t \<Rightarrow> padded_synced t | Phantom_Mode _ _ \<Rightarrow> phantom_synced)"

definition mode_ok :: "session_mode \<Rightarrow> bool" where
  "mode_ok mode \<longleftrightarrow> (case mode of Phantom_Mode generation _ \<Rightarrow> generation \<le> u32_max | _ \<Rightarrow> True)"

lemma mode_framing: "rng_ok R \<Longrightarrow> framing_mode R (mode_synced mode)"
  using plain.framing_mode_axioms padded_framing phantom_framing by (cases mode) (auto simp: mode_synced_def)

lemma profile_config_valid: "phantom_validate (phantom_config_for_profile t) = Ok ()"
  by (simp add: phantom_validate_def phantom_config_for_profile_def PHANTOM_ONE_MAX_PADDING_BYTES_def)

lemma fresh_sessions_synced:
  assumes "session_in_mode mode (tcp_session_new k k1 os1) g1 = Ok (s, v1)" and "session_in_mode mode (tcp_session_new k2 k os2) g2 = Ok (s2, v)"
    and "mode_ok mode" and "length k = 32" and "4096 * n \<le> u64_max"
  shows "mode_synced mode n s v" and "ciphers_synced s v" and "snonce (ts_cipher s) = 0" and "tv_reader v = reader_default"
proof -
  show "snonce (ts_cipher s) = 0" "tv_reader v = reader_default" using assms(1,2)
    by (cases mode; auto simp: session_in_mode_def tcp_session_new_def send_cipher_new_def with_padding_profile_def
        with_phantom_one_generation_and_profile_def split: result.splits)+
  have "ts_cipher s = send_cipher_new k" "tv_cipher v = receive_cipher_new k" using assms(1,2)
    by (cases mode; auto simp: session_in_mode_def tcp_session_new_def with_padding_profile_def
        with_phantom_one_generation_and_profile_def split: result.splits)+
  then show "ciphers_synced s v" using fresh_receiver [of "receive_cipher_new k" k] assms(4)
    by (auto simp: ciphers_synced_def send_cipher_new_def)
  show "mode_synced mode n s v" using assms
    by (cases mode)
      (auto simp: session_in_mode_def mode_synced_def mode_ok_def tcp_session_new_def with_padding_profile_def plain_synced_def padded_synced_def
        phantom_synced_def with_phantom_one_generation_and_profile_def phantom_encoder_with_profile_def in_step_def pe_inv_def pd_inv_def
        phantom_encoder_from_validated_config_def envelope_metrics_default_def phantom_decoder_with_config_and_window_def
        PHANTOM_ONE_DEFAULT_REPLAY_WINDOW_def phantom_config_for_profile_def profile_config_valid [unfolded phantom_config_for_profile_def]
        split: result.splits if_splits)
qed

lemma plain_accepts:
  assumes "aead_sized A" and "aead_total A"
  shows "plain_synced 0 s v \<Longrightarrow> length (skey (ts_cipher s)) = 32 \<Longrightarrow> snonce (ts_cipher s) + length ms \<le> AEAD_NONCE_LIMIT \<Longrightarrow>
    tcp_send_run A R s ms = Some (rs, s') \<Longrightarrow> accepted ms rs = filter (\<lambda>m. length m \<le> MAX_TCP_PAYLOAD_BYTES) ms"
proof (induction ms arbitrary: s rs)
  case (Cons m ms)
  obtain r s1 rs1 where w: "write_encrypted_tcp_frame A R s m = Some (r, s1)" and run: "tcp_send_run A R s1 ms = Some (rs1, s')" and rs: "rs = r # rs1"
    using Cons.prems(4) by (auto split: option.splits prod.splits)
  show ?case
  proof (cases "length m \<le> MAX_TCP_PAYLOAD_BYTES")
    case False
    then have "s1 = s" "\<exists>e. r = Err e" using w by (auto simp: write_encrypted_tcp_frame_def validate_tcp_payload_def)
    then show ?thesis using Cons.IH [of s rs1] Cons.prems run rs False by auto
  next
    case True
    obtain f c where e: "encrypt A (ts_cipher s) m = (Ok f, c)" "length f = length m + 28"
      using encrypt_total [OF assms, of "ts_cipher s" m] Cons.prems(2,3) by auto
    then have "length f \<le> u32_max" using True by (simp add: MAX_TCP_PAYLOAD_BYTES_def SHROUD_AEAD_OVERHEAD_def MAX_FRAME_BYTES_def u32_max_def)
    then have "s1 = s\<lparr>ts_cipher := c\<rparr>" "\<exists>x. r = Ok x" using w True e Cons.prems(1)
      by (auto simp: write_encrypted_tcp_frame_def validate_tcp_payload_def frame_payload_def plain_synced_def)
    then show ?thesis using Cons.IH [of s1 rs1] Cons.prems run rs True encrypt_Ok(4) [OF e(1)] by (auto simp: plain_synced_def)
  qed
qed simp

section \<open>Properties\<close>

text \<open>C11. End to end over TCP, for a plain session, one with a padding profile and one with Phantom One: sending always
  returns, and however the network cuts the frames into segments and wherever its reads fail or time out in between, the
  receive calls deliver exactly the accepted messages in order, and each failure is reported once, without losing a byte
  of the frame it interrupted.  A plain session accepts exactly the messages that fit a frame.\<close>

theorem tcp_session_delivers:
  assumes "aead_ok A" and "aead_sized A" and "aead_total A" and "rng_ok R" and "length k = 32" and "mode_ok mode"
    and "session_in_mode mode (tcp_session_new k k1 os1) g1 = Ok (s, v1)" and "session_in_mode mode (tcp_session_new k2 k os2) g2 = Ok (s2, v)"
    and "length msgs \<le> AEAD_NONCE_LIMIT"
  shows "\<exists>rs s'. tcp_send_run A R s msgs = Some (rs, s')
    \<and> (mode = Plain_Mode \<longrightarrow> accepted msgs rs = filter (\<lambda>m. length m \<le> MAX_TCP_PAYLOAD_BYTES) msgs)
    \<and> (\<forall>es. stream_ok es \<and> stream_bytes es = concat (ok_values rs) \<longrightarrow>
         (let calls = recv_calls A v es (length (ok_values rs) + length (failures es)) in
          ok_values calls = accepted msgs rs \<and> err_values calls = map map_io_error (failures es)))"
proof -
  have "4096 * length msgs \<le> u64_max" using assms(9) by (simp add: AEAD_NONCE_LIMIT_def u64_max_def)
  note f = fresh_sessions_synced [OF assms(7,8,6,5) this]
  have "snonce (ts_cipher s) + length msgs \<le> AEAD_NONCE_LIMIT" using f(3) assms(9) by simp
  from framing_mode.session_readable [OF mode_framing [OF assms(4)] assms(1-3) f(1,2) this]
  obtain rs s' ps where r: "tcp_send_run A R s msgs = Some (rs, s')" "map snd ps = accepted msgs rs"
    "map (wire_frame \<circ> fst) ps = ok_values rs" "readable A v ps" by blast
  have "ok_values (recv_calls A v es n) = accepted msgs rs \<and> err_values (recv_calls A v es n) = map map_io_error (failures es)"
    if es: "stream_ok es" "stream_bytes es = concat (ok_values rs)" and n: "n = length (ok_values rs) + length (failures es)" for es n
  proof -
    have "pending v ps es" using es f(4) r(3) [symmetric]
      by (auto simp: pending_def reader_default_def partial_frame_def split: list.splits)
    moreover have "modes_compatible v" using framing_mode.synced_modes [OF mode_framing [OF assms(4)] f(1)] by blast
    moreover have "n = length ps + length (failures es)" using n r(3) by (metis length_map)
    ultimately show ?thesis using recv_calls_deliver [OF r(4)] r(2) by simp
  qed
  moreover have "accepted msgs rs = filter (\<lambda>m. length m \<le> MAX_TCP_PAYLOAD_BYTES) msgs" if "mode = Plain_Mode"
    using plain_accepts [OF assms(2,3) _ _ _ r(1), of v] f(1-3) assms(9) that by (simp add: mode_synced_def plain_synced_def ciphers_synced_def)
  ultimately show ?thesis using r(1) by (auto simp: Let_def)
qed

text \<open>A cipher with a 16-byte tag and no secrecy, the instance that the witness evaluates.\<close>

definition tag16_aead :: aead where
  "tag16_aead = \<lparr>aead_encrypt = (\<lambda>k n p. Some (replicate 16 1 @ p)), aead_decrypt = (\<lambda>k n c. Some (drop 16 c))\<rparr>"

theorem tcp_session_delivers_witness:
  "let v = snd (tcp_session_new (replicate 32 1) (replicate 32 0) (0 :: nat));
       es = [Segment [0, 0], Fails TimedOut, Segment ([0, 29] @ nonce_bytes 0), Fails Interrupted, Segment (replicate 16 1 @ [7])] in
   ok_values (recv_calls tag16_aead v es 2) = [[7]] \<and> err_values (recv_calls tag16_aead v es 2) = [Timeout]"
proof -
  let ?k = "replicate 32 0 :: bytes" and ?k1 = "replicate 32 1 :: bytes"
  let ?es = "[Segment [0, 0], Fails TimedOut, Segment ([0, 29] @ nonce_bytes 0), Fails Interrupted, Segment (replicate 16 1 @ [7])]"
  let ?s = "tcp_session_new ?k ?k1 (0 :: nat)" and ?v = "tcp_session_new ?k1 ?k (0 :: nat)"
  have A: "aead_ok tag16_aead" "aead_sized tag16_aead" "aead_total tag16_aead"
    by (simp_all add: aead_ok_def aead_sized_def aead_total_def tag16_aead_def)
  have head: "be_bytes 4 29 = [0, 0, 0, 29]" by code_simp
  have run: "tcp_send_run tag16_aead counter_rng (fst ?s) [[7]] = Some (rs, s') \<Longrightarrow> rs = [Ok (stream_bytes ?es)]" for rs s'
    using head by (auto simp: write_encrypted_tcp_frame_def validate_tcp_payload_def frame_payload_def tcp_session_new_def MAX_TCP_PAYLOAD_BYTES_def
        MAX_FRAME_BYTES_def SHROUD_AEAD_OVERHEAD_def encrypt_def send_cipher_new_def tag16_aead_def AEAD_NONCE_LIMIT_def u32_max_def)
  have "\<exists>rs s'. tcp_send_run tag16_aead counter_rng (fst ?s) [[7]] = Some (rs, s')
      \<and> (\<forall>es. stream_ok es \<and> stream_bytes es = concat (ok_values rs) \<longrightarrow>
         (let calls = recv_calls tag16_aead (snd ?v) es (length (ok_values rs) + length (failures es)) in
          ok_values calls = accepted [[7]] rs \<and> err_values calls = map map_io_error (failures es)))"
  proof -
    have "session_in_mode Plain_Mode ?s 0 = Ok (fst ?s, snd ?s)" "session_in_mode Plain_Mode ?v 0 = Ok (fst ?v, snd ?v)"
      by (simp_all add: session_in_mode_def)
    from tcp_session_delivers [OF A counter_rng_ok _ _ this, of "[[7]]"] show ?thesis
      by (auto simp: mode_ok_def AEAD_NONCE_LIMIT_def)
  qed
  then have "let calls = recv_calls tag16_aead (snd ?v) ?es 2 in ok_values calls = [[7]] \<and> err_values calls = [Timeout]"
    using run by (fastforce simp: stream_ok_def Let_def numeral_2_eq_2 dest!: spec [of _ ?es])
  then show ?thesis by (simp add: Let_def)
qed

end
