(* ===== verification/Envelope_Policy.thy ===== *)
theory Envelope_Policy
  imports Tcp_Session Cover
begin

text \<open>
  The policy agreement inside an authenticated session, \<open>shph-transport/src/envelope_policy.rs\<close>: the
  offers and their 127-byte encoding, the negotiation and the acknowledgement that both sides compare.
  SHA-256 is a parameter.  The lemmas show that the encoding is canonical and that the two sides of a
  negotiation reach mirrored policies with the same acknowledgement.
\<close>

section \<open>Offers\<close>

definition POLICY_MAGIC :: bytes where
  "POLICY_MAGIC = [0x53, 0x48, 0x50, 0x48, 0x2d, 0x50, 0x4f, 0x4c, 0x02]"
definition OFFER_BYTES :: usize where "OFFER_BYTES = 127"
definition MAX_EXCHANGE_BYTES :: usize where "MAX_EXCHANGE_BYTES = 512"
definition PROFILE_MASK :: byte where "PROFILE_MASK = 0x3f"
definition MAX_FRAME_BUDGET :: u64 where "MAX_FRAME_BUDGET = 2 ^ 48"
definition MAX_PAYLOAD_BUDGET :: u64 where "MAX_PAYLOAD_BUDGET = 2 ^ 60"

record frame_budget =
  max_frames :: u64
  max_payload :: u64

definition budget_validate :: "frame_budget \<Rightarrow> unit result" where
  "budget_validate b =
     (if max_frames b = 0 \<or> MAX_FRAME_BUDGET < max_frames b \<or> max_payload b = 0 \<or> MAX_PAYLOAD_BUDGET < max_payload b
        then Err (Protocol ''invalid directional frame budget'')
      else Ok ())"

definition budget_intersect :: "frame_budget \<Rightarrow> frame_budget \<Rightarrow> frame_budget" where
  "budget_intersect a b = \<lparr>max_frames = min (max_frames a) (max_frames b), max_payload = min (max_payload a) (max_payload b)\<rparr>"

definition budget_default :: frame_budget where
  "budget_default = \<lparr>max_frames = 2 ^ 32, max_payload = 2 ^ 40\<rparr>"

record negotiated_policy =
  np_config :: phantom_config
  np_outbound_limit :: usize
  np_inbound_limit :: usize
  np_outbound_budget :: frame_budget
  np_inbound_budget :: frame_budget

record envelope_offer =
  eo_binding :: bytes
  eo_supported :: byte
  eo_config :: phantom_config
  eo_outbound_limit :: u16
  eo_inbound_limit :: u16
  eo_outbound_budget :: frame_budget
  eo_inbound_budget :: frame_budget
  eo_cover :: "cover_policy option"

definition profile_bit :: "profile_tier \<Rightarrow> byte" where
  "profile_bit t = push_bit (unat (tier_id t)) 1"

text \<open>\<open>char::to_digit(16)\<close> and \<open>from_str_radix(_, 16)\<close> of an unsigned type: one leading plus sign is allowed.\<close>

definition hex_value :: "char \<Rightarrow> nat option" where
  "hex_value c =
     (let v = of_char c :: nat in
      if 48 \<le> v \<and> v \<le> 57 then Some (v - 48)
      else if 97 \<le> v \<and> v \<le> 102 then Some (v - 87)
      else if 65 \<le> v \<and> v \<le> 70 then Some (v - 55)
      else None)"

fun hex_digits :: "nat \<Rightarrow> nat \<Rightarrow> string \<Rightarrow> nat option" where
  "hex_digits mx acc [] = Some acc"
| "hex_digits mx acc (c # cs) =
     (case hex_value c of
        None \<Rightarrow> None
      | Some d \<Rightarrow> if acc * 16 + d \<le> mx then hex_digits mx (acc * 16 + d) cs else None)"

definition from_str_radix_16 :: "nat \<Rightarrow> string \<Rightarrow> nat option" where
  "from_str_radix_16 mx s =
     (case s of
        [] \<Rightarrow> None
      | [c] \<Rightarrow> hex_digits mx 0 [c]
      | c # cs \<Rightarrow> hex_digits mx 0 (if c = CHR ''+'' then cs else s))"

fun parse_pairs :: "string \<Rightarrow> bytes option" where
  "parse_pairs (a # b # cs) =
     (case from_str_radix_16 u8_max [a, b] of
        None \<Rightarrow> None
      | Some v \<Rightarrow> map_option ((#) (of_nat v)) (parse_pairs cs))"
| "parse_pairs _ = Some []"

definition parse_binding :: "string \<Rightarrow> bytes result" where
  "parse_binding transcript_hex =
     (if length transcript_hex \<noteq> 64 \<or> \<not> is_ascii transcript_hex
        then Err (Protocol ''policy requires a 32-byte transcript hash'')
      else ok_or (Protocol ''invalid transcript hash'') (parse_pairs transcript_hex))"

definition profile_config :: "phantom_config \<Rightarrow> profile_tier \<Rightarrow> phantom_config result" where
  "profile_config config profile =
     (if pc_profile_bound config then
        let candidate = phantom_config_with_profile config profile in map_ok (\<lambda>_. candidate) (phantom_validate candidate)
      else if pc_profile config = profile then map_ok (\<lambda>_. config) (phantom_validate config)
      else Err (Protocol ''unbound envelope policy supports only its configured profile''))"

definition same_policy_settings :: "phantom_config \<Rightarrow> phantom_config \<Rightarrow> bool" where
  "same_policy_settings l r \<longleftrightarrow> pc_min_padding l = pc_min_padding r \<and> pc_max_padding l = pc_max_padding r
     \<and> pc_selection l = pc_selection r \<and> pc_padding_budget l = pc_padding_budget r \<and> pc_profile_bound l = pc_profile_bound r"

definition offer_new :: "string \<Rightarrow> phantom_config \<Rightarrow> usize \<Rightarrow> envelope_offer result" where
  "offer_new transcript_hex config frame_limit =
     (if length transcript_hex \<noteq> 64 \<or> \<not> is_ascii transcript_hex
        then Err (Protocol ''policy requires a 32-byte transcript hash'')
      else (case parse_binding transcript_hex of Err e \<Rightarrow> Err e | Ok binding \<Rightarrow>
     (case validate_path_mtu frame_limit of Err e \<Rightarrow> Err e | Ok _ \<Rightarrow>
     (case phantom_validate config of Err e \<Rightarrow> Err e | Ok _ \<Rightarrow>
        Ok \<lparr>eo_binding = binding, eo_supported = profile_bit (pc_profile config), eo_config = config,
          eo_outbound_limit = frame_limit mod 65536, eo_inbound_limit = frame_limit mod 65536,
          eo_outbound_budget = budget_default, eo_inbound_budget = budget_default, eo_cover = None\<rparr>))))"

fun profiles_mask :: "phantom_config \<Rightarrow> byte \<Rightarrow> profile_tier list \<Rightarrow> byte result" where
  "profiles_mask config chosen [] = Ok chosen"
| "profiles_mask config chosen (t # ts) =
     (if chosen AND profile_bit t \<noteq> 0 then Err (Protocol ''duplicate supported policy profile'')
      else case profile_config config t of
        Err e \<Rightarrow> Err e
      | Ok _ \<Rightarrow> profiles_mask config (chosen OR profile_bit t) ts)"

definition with_supported_profiles :: "envelope_offer \<Rightarrow> profile_tier list \<Rightarrow> envelope_offer result" where
  "with_supported_profiles offer ts =
     (if ts = [] \<or> 6 < length ts then Err (Protocol ''policy must advertise 1..6 supported profiles'')
      else (case profiles_mask (eo_config offer) 0 ts of
        Err e \<Rightarrow> Err e
      | Ok chosen \<Rightarrow>
          let own = profile_bit (pc_profile (eo_config offer)) in
          if chosen AND own = 0 then Err (Protocol ''supported profiles omit the preferred profile'')
          else if \<not> pc_profile_bound (eo_config offer) \<and> chosen \<noteq> own
            then Err (Protocol ''multiple profiles require a profile-bound envelope configuration'')
          else Ok (offer\<lparr>eo_supported := chosen\<rparr>)))"

definition with_directional_limits :: "envelope_offer \<Rightarrow> usize \<Rightarrow> usize \<Rightarrow> envelope_offer result" where
  "with_directional_limits offer outbound inbound =
     (case validate_path_mtu outbound of Err e \<Rightarrow> Err e | Ok _ \<Rightarrow>
     (case validate_path_mtu inbound of Err e \<Rightarrow> Err e | Ok _ \<Rightarrow>
      if u16_max < outbound then Err (Protocol ''outbound frame limit is too large'')
      else if u16_max < inbound then Err (Protocol ''inbound frame limit is too large'')
      else Ok (offer\<lparr>eo_outbound_limit := outbound, eo_inbound_limit := inbound\<rparr>)))"

definition with_directional_budgets :: "envelope_offer \<Rightarrow> frame_budget \<Rightarrow> frame_budget \<Rightarrow> envelope_offer result" where
  "with_directional_budgets offer outbound inbound =
     (case budget_validate outbound of Err e \<Rightarrow> Err e | Ok _ \<Rightarrow>
     (case budget_validate inbound of Err e \<Rightarrow> Err e | Ok _ \<Rightarrow>
        Ok (offer\<lparr>eo_outbound_budget := outbound, eo_inbound_budget := inbound\<rparr>)))"

definition with_cover :: "envelope_offer \<Rightarrow> cover_policy option \<Rightarrow> envelope_offer result" where
  "with_cover offer cover =
     (case (case cover of None \<Rightarrow> Ok () | Some p \<Rightarrow> cover_validate p) of
        Err e \<Rightarrow> Err e
      | Ok _ \<Rightarrow> Ok (offer\<lparr>eo_cover := cover\<rparr>))"

definition flag_byte :: "bool \<Rightarrow> byte" where
  "flag_byte b = (if b then 1 else 0)"

fun selection_weights :: "size_selection \<Rightarrow> byte \<times> u16 list" where
  "selection_weights FirstFit = (0, replicate 7 0)"
| "selection_weights (Weighted weights) = (1, weights)"

definition encode_selection :: "size_selection \<Rightarrow> bytes" where
  "encode_selection s = (case selection_weights s of (tag, weights) \<Rightarrow> tag # concat (map (be_bytes 2) weights))"

definition encode_cover :: "cover_policy option \<Rightarrow> bytes" where
  "encode_cover c =
     (case c of
        Some p \<Rightarrow> [1] @ be_bytes 4 (interval_ms p) @ be_bytes 4 (idle_timeout_ms p) @ be_bytes 8 (maximum_bytes p)
          @ be_bytes 2 (overhead_percent p)
      | None \<Rightarrow> replicate 19 0)"

definition encode_budget :: "frame_budget \<Rightarrow> bytes" where
  "encode_budget b = be_bytes 8 (max_frames b) @ be_bytes 8 (max_payload b)"

definition offer_encode :: "envelope_offer \<Rightarrow> bytes" where
  "offer_encode offer =
     (let c = eo_config offer in
      POLICY_MAGIC @ eo_binding offer @ [tier_id (pc_profile c)] @ [eo_supported offer] @ [flag_byte (pc_profile_bound c)]
      @ be_bytes 2 (pc_min_padding c) @ be_bytes 2 (pc_max_padding c) @ encode_selection (pc_selection c)
      @ [flag_byte (pc_padding_budget c \<noteq> None)] @ be_bytes 8 (case pc_padding_budget c of Some b \<Rightarrow> b | None \<Rightarrow> 0)
      @ be_bytes 2 (eo_outbound_limit offer) @ be_bytes 2 (eo_inbound_limit offer)
      @ encode_budget (eo_outbound_budget offer) @ encode_budget (eo_inbound_budget offer) @ encode_cover (eo_cover offer))"

definition decode_binding_flag :: "profile_tier \<Rightarrow> byte \<Rightarrow> phantom_config \<Rightarrow> phantom_config result" where
  "decode_binding_flag profile flag config =
     (if flag = 0 \<and> profile = Medium then Ok config
      else if flag = 1 then Ok (phantom_config_with_profile config profile)
      else Err (Protocol ''noncanonical profile binding''))"

definition decode_selection :: "byte \<Rightarrow> u16 list \<Rightarrow> size_selection result" where
  "decode_selection tag weights =
     (if tag = 0 \<and> weights = replicate 7 0 then Ok FirstFit
      else if tag = 1 then Ok (Weighted weights)
      else Err (Protocol ''invalid policy selection''))"

definition decode_padding_budget :: "byte \<Rightarrow> u64 \<Rightarrow> phantom_config \<Rightarrow> phantom_config result" where
  "decode_padding_budget flag budget config =
     (if flag = 0 \<and> budget = 0 then Ok config
      else if flag = 1 then Ok (phantom_config_with_padding_budget config budget)
      else Err (Protocol ''invalid padding budget encoding''))"

fun check_supported :: "phantom_config \<Rightarrow> byte \<Rightarrow> nat list \<Rightarrow> unit result" where
  "check_supported config chosen [] = Ok ()"
| "check_supported config chosen (i # is) =
     (if chosen AND push_bit i 1 \<noteq> 0 then
        (case from_id (of_nat i) of
           None \<Rightarrow> Err (Protocol ''unknown policy profile'')
         | Some t \<Rightarrow> (case profile_config config t of Err e \<Rightarrow> Err e | Ok _ \<Rightarrow> check_supported config chosen is))
      else check_supported config chosen is)"

definition decode_cover :: "bytes \<Rightarrow> cover_policy option result" where
  "decode_cover bs =
     (if bs ! 108 = 0 \<and> list_all (\<lambda>b. b = 0) (drop 109 bs) then Ok None
      else if bs ! 108 = 1 then
        (let policy = \<lparr>interval_ms = of_be (slice bs 109 113), idle_timeout_ms = of_be (slice bs 113 117),
               maximum_bytes = of_be (slice bs 117 125), overhead_percent = of_be (slice bs 125 127)\<rparr>
         in map_ok (\<lambda>_. Some policy) (cover_validate policy))
      else Err (Protocol ''invalid cover policy encoding''))"

definition decode_config :: "profile_tier \<Rightarrow> bytes \<Rightarrow> phantom_config result" where
  "decode_config profile bs =
     (case phantom_config_new (of_be (slice bs 44 46)) (of_be (slice bs 46 48)) of Err e \<Rightarrow> Err e | Ok c0 \<Rightarrow>
     (case decode_binding_flag profile (bs ! 43) c0 of Err e \<Rightarrow> Err e | Ok c1 \<Rightarrow>
     (case decode_selection (bs ! 48) (map (\<lambda>i. of_be (slice bs (49 + i * 2) (51 + i * 2))) [0..<7]) of Err e \<Rightarrow> Err e | Ok sel \<Rightarrow>
     (case phantom_config_with_selection c1 sel of Err e \<Rightarrow> Err e | Ok c2 \<Rightarrow>
      decode_padding_budget (bs ! 63) (of_be (slice bs 64 72)) c2))))"

definition offer_decode :: "bytes \<Rightarrow> envelope_offer result" where
  "offer_decode bs =
     (if length bs \<noteq> OFFER_BYTES \<or> take 9 bs \<noteq> POLICY_MAGIC
        then Err (Protocol ''unsupported or malformed envelope policy'')
      else (case from_id (bs ! 41) of None \<Rightarrow> Err (Protocol ''unknown policy profile'') | Some profile \<Rightarrow>
      let supported = bs ! 42 in
      if supported = 0 \<or> supported AND NOT PROFILE_MASK \<noteq> 0 \<or> supported AND profile_bit profile = 0
        then Err (Protocol ''invalid supported-profile set'')
      else (case decode_config profile bs of Err e \<Rightarrow> Err e | Ok config \<Rightarrow>
      let outbound = of_be (slice bs 72 74); inbound = of_be (slice bs 74 76);
          ob = \<lparr>max_frames = of_be (slice bs 76 84), max_payload = of_be (slice bs 84 92)\<rparr>;
          ib = \<lparr>max_frames = of_be (slice bs 92 100), max_payload = of_be (slice bs 100 108)\<rparr> in
     (case validate_path_mtu outbound of Err e \<Rightarrow> Err e | Ok _ \<Rightarrow>
     (case validate_path_mtu inbound of Err e \<Rightarrow> Err e | Ok _ \<Rightarrow>
     (case budget_validate ob of Err e \<Rightarrow> Err e | Ok _ \<Rightarrow>
     (case budget_validate ib of Err e \<Rightarrow> Err e | Ok _ \<Rightarrow>
     (case check_supported config supported [0..<6] of Err e \<Rightarrow> Err e | Ok _ \<Rightarrow>
     (case decode_cover bs of Err e \<Rightarrow> Err e | Ok cover \<Rightarrow>
        Ok \<lparr>eo_binding = slice bs 9 41, eo_supported = supported, eo_config = config, eo_outbound_limit = outbound,
          eo_inbound_limit = inbound, eo_outbound_budget = ob, eo_inbound_budget = ib, eo_cover = cover\<rparr>)))))))))"

section \<open>Negotiation\<close>

text \<open>\<open>Iterator::min_by_key\<close> with a pair as the key: the first of the smallest elements.\<close>

definition key_less :: "nat \<times> nat \<Rightarrow> nat \<times> nat \<Rightarrow> bool" where
  "key_less a b \<longleftrightarrow> fst a < fst b \<or> fst a = fst b \<and> snd a < snd b"

fun min_by_key :: "('a \<Rightarrow> nat \<times> nat) \<Rightarrow> 'a list \<Rightarrow> 'a option" where
  "min_by_key f [] = None"
| "min_by_key f (x # xs) =
     (case min_by_key f xs of None \<Rightarrow> Some x | Some y \<Rightarrow> Some (if key_less (f y) (f x) then y else x))"

definition common_profiles :: "byte \<Rightarrow> profile_tier list" where
  "common_profiles common = List.map_filter (\<lambda>i. from_id (of_nat i)) (filter (\<lambda>i. common AND push_bit i 1 \<noteq> 0) [0..<6])"

definition profile_key :: "profile_tier \<Rightarrow> profile_tier \<Rightarrow> profile_tier \<Rightarrow> nat \<times> nat" where
  "profile_key own peer t = (of_bool (t \<noteq> own) + of_bool (t \<noteq> peer), unat (tier_id t))"

definition negotiate :: "envelope_offer \<Rightarrow> envelope_offer \<Rightarrow> negotiated_policy result" where
  "negotiate a b =
     (if eo_binding a \<noteq> eo_binding b \<or> \<not> same_policy_settings (eo_config a) (eo_config b) \<or> eo_cover a \<noteq> eo_cover b
        then Err (Protocol ''envelope policies or authenticated sessions do not match'')
      else (case min_by_key (profile_key (pc_profile (eo_config a)) (pc_profile (eo_config b)))
                  (common_profiles (eo_supported a AND eo_supported b)) of
        None \<Rightarrow> Err (Protocol ''peers have no common envelope profile'')
      | Some profile \<Rightarrow>
     (case profile_config (eo_config a) profile of Err e \<Rightarrow> Err e | Ok config \<Rightarrow>
     (case profile_config (eo_config b) profile of Err e \<Rightarrow> Err e | Ok _ \<Rightarrow>
        Ok \<lparr>np_config = config,
          np_outbound_limit = min (eo_outbound_limit a) (eo_inbound_limit b),
          np_inbound_limit = min (eo_inbound_limit a) (eo_outbound_limit b),
          np_outbound_budget = budget_intersect (eo_outbound_budget a) (eo_inbound_budget b),
          np_inbound_budget = budget_intersect (eo_inbound_budget a) (eo_outbound_budget b)\<rparr>))))"

definition agree :: "envelope_offer \<Rightarrow> envelope_offer \<Rightarrow> usize result" where
  "agree a b = map_ok (\<lambda>p. min (np_outbound_limit p) (np_inbound_limit p)) (negotiate a b)"

text \<open>The comparison of byte vectors, lexicographic and unsigned.\<close>

fun bytes_le :: "bytes \<Rightarrow> bytes \<Rightarrow> bool" where
  "bytes_le [] ys = True"
| "bytes_le (x # xs) [] = False"
| "bytes_le (x # xs) (y # ys) = (unat x < unat y \<or> x = y \<and> bytes_le xs ys)"

definition ACK_LABEL :: bytes where
  "ACK_LABEL = [0x53, 0x48, 0x50, 0x48, 0x2d, 0x70, 0x6f, 0x6c, 0x69, 0x63, 0x79, 0x2d, 0x61, 0x63, 0x6b, 0x2d, 0x76, 0x32, 0x00]"

text \<open>What the acknowledgement hashes; \<open>offers.sort()\<close> puts the two encodings in order.\<close>

definition ack_input :: "envelope_offer \<Rightarrow> envelope_offer \<Rightarrow> negotiated_policy \<Rightarrow> bytes" where
  "ack_input a b p =
     (let local = offer_encode a; remote = offer_encode b; local_first = bytes_le local remote;
          offers = (if bytes_le local remote then [local, remote] else [remote, local]);
          tail = (if local_first
            then be_bytes 2 (np_outbound_limit p) @ be_bytes 2 (np_inbound_limit p)
              @ encode_budget (np_outbound_budget p) @ encode_budget (np_inbound_budget p)
            else be_bytes 2 (np_inbound_limit p) @ be_bytes 2 (np_outbound_limit p)
              @ encode_budget (np_inbound_budget p) @ encode_budget (np_outbound_budget p))
      in ACK_LABEL @ concat offers @ [tier_id (pc_profile (np_config p))] @ tail)"

definition acknowledgement :: "(bytes \<Rightarrow> bytes) \<Rightarrow> envelope_offer \<Rightarrow> envelope_offer \<Rightarrow> bytes result" where
  "acknowledgement sha a b = map_ok (\<lambda>p. sha (ack_input a b p)) (negotiate a b)"

section \<open>Well-formed offers\<close>

text \<open>What the builders and the decoder establish: the ranges of the fields, a valid configuration, and a valid
  configuration for every profile the offer supports.\<close>

definition config_ok :: "phantom_config \<Rightarrow> bool" where
  "config_ok c \<longleftrightarrow> phantom_validate c = Ok () \<and> (pc_profile_bound c \<or> pc_profile c = Medium)
     \<and> (case pc_selection c of FirstFit \<Rightarrow> True | Weighted ws \<Rightarrow> length ws = 7 \<and> list_all (\<lambda>w. w \<le> u16_max) ws)
     \<and> (case pc_padding_budget c of None \<Rightarrow> True | Some b \<Rightarrow> b \<le> u64_max)"

definition offer_ok :: "envelope_offer \<Rightarrow> bool" where
  "offer_ok x \<longleftrightarrow> length (eo_binding x) = 32 \<and> config_ok (eo_config x)
     \<and> eo_supported x AND NOT PROFILE_MASK = 0 \<and> eo_supported x AND profile_bit (pc_profile (eo_config x)) \<noteq> 0
     \<and> check_supported (eo_config x) (eo_supported x) [0..<6] = Ok ()
     \<and> validate_path_mtu (eo_outbound_limit x) = Ok () \<and> validate_path_mtu (eo_inbound_limit x) = Ok ()
     \<and> budget_validate (eo_outbound_budget x) = Ok () \<and> budget_validate (eo_inbound_budget x) = Ok ()
     \<and> (case eo_cover x of None \<Rightarrow> True | Some p \<Rightarrow> cover_validate p = Ok ())"

lemma length_concat_pairs: "length (concat (map (be_bytes n) ws)) = n * length ws"
  by (induction ws) simp_all

lemma selection_weights_ok:
  "config_ok c \<Longrightarrow> selection_weights (pc_selection c) = (tag, ws) \<Longrightarrow> length ws = 7 \<and> (\<forall>w\<in>set ws. w < 256 ^ 2)"
  by (cases "pc_selection c") (auto simp: config_ok_def list_all_iff u16_max_def)

lemma length_encode_selection: "config_ok c \<Longrightarrow> length (encode_selection (pc_selection c)) = 15"
  by (cases "selection_weights (pc_selection c)") (auto simp: encode_selection_def length_concat_pairs dest: selection_weights_ok)

lemma length_encode_cover [simp]: "length (encode_cover c) = 19"
  by (simp add: encode_cover_def split: option.splits)

lemma length_encode_budget [simp]: "length (encode_budget b) = 16"
  by (simp add: encode_budget_def)

lemma length_POLICY_MAGIC [simp]: "length POLICY_MAGIC = 9"
  by (simp add: POLICY_MAGIC_def)

lemma offer_layout:
  fixes m bi :: bytes
  assumes "length m = 9" and "length bi = 32" and "length se = 15" and "length bu = 8" and "length mn = 2" and "length mx = 2"
    and "length ol = 2" and "length il = 2" and "length ob = 16" and "length ib = 16" and "length cv = 19"
    and b: "b = m @ bi @ [t] @ [su] @ [fl] @ mn @ mx @ se @ [bf] @ bu @ ol @ il @ ob @ ib @ cv"
  shows "length b = 127" "take 9 b = m" "slice b 9 41 = bi" "b ! 41 = t" "b ! 42 = su" "b ! 43 = fl" "slice b 44 46 = mn"
    "slice b 46 48 = mx" "slice b 48 63 = se" "b ! 63 = bf" "slice b 64 72 = bu" "slice b 72 74 = ol" "slice b 74 76 = il"
    "slice b 76 92 = ob" "slice b 92 108 = ib" "slice b 108 127 = cv"
  using assms(1-11) unfolding b by (simp_all add: slice_def nth_append)

lemma slice_slice: "n \<le> k - i \<Longrightarrow> slice (slice xs i k) m n = slice xs (i + m) (i + n)"
  by (simp add: slice_def drop_take add.commute)

lemma concat_pairs_slice:
  "i < length ws \<Longrightarrow> slice (concat (map (be_bytes 2) ws)) (2 * i) (2 * i + 2) = be_bytes 2 (ws ! i)"
proof (induction ws arbitrary: i)
  case (Cons w ws)
  show ?case
  proof (cases i)
    case (Suc j)
    have "slice (concat (map (be_bytes 2) (w # ws))) (2 * i) (2 * i + 2) = slice (concat (map (be_bytes 2) ws)) (2 * j) (2 * j + 2)"
      by (simp add: slice_def Suc)
    then show ?thesis using Cons Suc by simp
  qed (simp add: slice_def)
qed simp

lemma decoded_weights:
  assumes "length ws = 7" and "\<forall>w\<in>set ws. w < 256 ^ 2" and "slice b 48 63 = tag # concat (map (be_bytes 2) ws)"
  shows "map (\<lambda>i. of_be (slice b (49 + i * 2) (51 + i * 2))) [0..<7] = ws"
proof (rule nth_equalityI)
  fix i assume "i < length (map (\<lambda>i. of_be (slice b (49 + i * 2) (51 + i * 2))) [0..<7])"
  then have i: "i < 7" by simp
  have "slice b (49 + i * 2) (51 + i * 2) = slice (slice b 48 63) (1 + i * 2) (3 + i * 2)" using i by (simp add: slice_slice)
  also have "\<dots> = slice (concat (map (be_bytes 2) ws)) (2 * i) (2 * i + 2)" unfolding assms(3) by (simp add: slice_def mult.commute)
  also have "\<dots> = be_bytes 2 (ws ! i)" using concat_pairs_slice i assms(1) by simp
  finally show "map (\<lambda>i. of_be (slice b (49 + i * 2) (51 + i * 2))) [0..<7] ! i = ws ! i"
    using i assms(1,2) by (simp add: of_be_be_bytes_id)
qed (simp add: assms(1))

lemma encoded_weights:
  assumes "63 \<le> length b" and "ws = map (\<lambda>i. of_be (slice b (49 + i * 2) (51 + i * 2))) [0..<7]"
  shows "b ! 48 # concat (map (be_bytes 2) ws) = slice b 48 63"
proof -
  have w: "be_bytes 2 (of_be (slice b (49 + i * 2) (51 + i * 2))) = slice b (49 + i * 2) (51 + i * 2)" if "i < 7" for i
    using that assms(1) by (intro be_bytes_slice) auto
  have pre: "concat (map (be_bytes 2) (map (\<lambda>i. of_be (slice b (49 + i * 2) (51 + i * 2))) [0..<n])) = slice b 49 (49 + n * 2)" if "n \<le> 7" for n
    using that
  proof (induction n)
    case (Suc n)
    then show ?case using w [of n] slice_join [of 49 "49 + n * 2" "51 + n * 2" b] by simp
  qed (simp add: slice_def)
  have "slice b 48 63 = slice b 48 49 @ slice b 49 63" by (simp add: slice_join)
  moreover have "slice b 48 49 = [b ! 48]" using assms(1) by (simp add: slice_def take_Suc_conv_app_nth drop_Suc nth_via_drop take_Suc hd_drop_conv_nth)
  ultimately show ?thesis using pre [of 7] by (simp add: assms(2) del: upt_conv_Nil upt_rec)
qed

lemma phantom_config_new_iff: "phantom_config_new mn mx = Ok c \<longleftrightarrow> mn \<le> mx \<and> mx \<le> 4096 \<and>
    c = \<lparr>pc_profile = Medium, pc_min_padding = mn, pc_max_padding = mx, pc_profile_bound = False, pc_selection = FirstFit, pc_padding_budget = None\<rparr>"
  by (auto simp: phantom_config_new_def phantom_validate_def PHANTOM_ONE_MAX_PADDING_BYTES_def Let_def)

lemma validate_budget [simp]: "phantom_validate (c\<lparr>pc_padding_budget := x\<rparr>) = phantom_validate c"
  by (simp add: phantom_validate_def split: size_selection.split)

lemma validate_padding: "phantom_validate c = Ok () \<Longrightarrow> pc_min_padding c \<le> pc_max_padding c \<and> pc_max_padding c \<le> 4096"
  by (auto simp: phantom_validate_def PHANTOM_ONE_MAX_PADDING_BYTES_def split: if_splits)

text \<open>The configuration part of an offer.\<close>

lemma decode_config_encoded:
  assumes c: "config_ok c"
    and b: "slice b 44 46 = be_bytes 2 (pc_min_padding c)" "slice b 46 48 = be_bytes 2 (pc_max_padding c)"
      "b ! 43 = flag_byte (pc_profile_bound c)" "slice b 48 63 = encode_selection (pc_selection c)" "63 \<le> length b"
      "b ! 63 = flag_byte (pc_padding_budget c \<noteq> None)" "slice b 64 72 = be_bytes 8 (case pc_padding_budget c of Some x \<Rightarrow> x | None \<Rightarrow> 0)"
  shows "decode_config (pc_profile c) b = Ok c"
proof -
  have v: "phantom_validate c = Ok ()" using c by (simp add: config_ok_def)
  note p = validate_padding [OF v]
  obtain tag ws where ws: "selection_weights (pc_selection c) = (tag, ws)" by fastforce
  have sl: "slice b 48 63 = tag # concat (map (be_bytes 2) ws)" using b(4) ws by (simp add: encode_selection_def)
  have tag: "b ! 48 = tag" using sl b(5) nth_slice [of 48 0 63 b] by simp
  note w = decoded_weights [OF _ _ sl] selection_weights_ok [OF c ws]
  have sel: "decode_selection tag ws = Ok (pc_selection c)" using ws by (cases "pc_selection c") (auto simp: decode_selection_def)
  define c0 where "c0 = \<lparr>pc_profile = pc_profile c, pc_min_padding = pc_min_padding c, pc_max_padding = pc_max_padding c,
     pc_profile_bound = pc_profile_bound c, pc_selection = FirstFit, pc_padding_budget = None\<rparr>"
  have c0: "c0\<lparr>pc_selection := pc_selection c\<rparr> = c\<lparr>pc_padding_budget := None\<rparr>" by (simp add: c0_def)
  have "phantom_config_with_selection c0 (pc_selection c) = Ok (c\<lparr>pc_padding_budget := None\<rparr>)"
    using v by (simp add: phantom_config_with_selection_def c0)
  moreover have "decode_binding_flag (pc_profile c) (b ! 43) \<lparr>pc_profile = Medium, pc_min_padding = pc_min_padding c, pc_max_padding = pc_max_padding c,
     pc_profile_bound = False, pc_selection = FirstFit, pc_padding_budget = None\<rparr> = Ok c0"
    using c b(3) by (auto simp: decode_binding_flag_def config_ok_def flag_byte_def phantom_config_with_profile_def c0_def)
  moreover have "decode_padding_budget (b ! 63) (of_be (slice b 64 72)) (c\<lparr>pc_padding_budget := None\<rparr>) = Ok c"
    using c b(6,7) by (cases "pc_padding_budget c")
      (auto simp: decode_padding_budget_def flag_byte_def phantom_config_with_padding_budget_def config_ok_def of_be_be_bytes u64_max_def)
  moreover have "of_be (slice b 44 46) = pc_min_padding c" "of_be (slice b 46 48) = pc_max_padding c" using p b by (simp_all add: of_be_be_bytes)
  ultimately show ?thesis using w sel tag p
    by (simp add: decode_config_def phantom_config_new_iff [THEN iffD2] del: upt_conv_Nil upt_rec)
qed

lemma decode_config_only:
  assumes d: "decode_config t b = Ok c" and len: "length b = 127"
  shows "config_ok c" "pc_profile c = t" "slice b 44 46 = be_bytes 2 (pc_min_padding c)" "slice b 46 48 = be_bytes 2 (pc_max_padding c)"
    "b ! 43 = flag_byte (pc_profile_bound c)" "slice b 48 63 = encode_selection (pc_selection c)"
    "b ! 63 = flag_byte (pc_padding_budget c \<noteq> None)" "slice b 64 72 = be_bytes 8 (case pc_padding_budget c of Some x \<Rightarrow> x | None \<Rightarrow> 0)"
proof -
  define ws where "ws = map (\<lambda>i. of_be (slice b (49 + i * 2) (51 + i * 2))) [0..<7]"
  obtain c0 c1 sel c2 where steps: "phantom_config_new (of_be (slice b 44 46)) (of_be (slice b 46 48)) = Ok c0"
      "decode_binding_flag t (b ! 43) c0 = Ok c1" "decode_selection (b ! 48) ws = Ok sel" "phantom_config_with_selection c1 sel = Ok c2"
      "decode_padding_budget (b ! 63) (of_be (slice b 64 72)) c2 = Ok c"
    using d unfolding decode_config_def ws_def by (auto split: result.splits)
  note new = steps(1) [unfolded phantom_config_new_iff]
  have b43: "b ! 43 = flag_byte (pc_profile_bound c1) \<and> pc_profile c1 = t \<and> (pc_profile_bound c1 \<or> t = Medium)
      \<and> pc_min_padding c1 = pc_min_padding c0 \<and> pc_max_padding c1 = pc_max_padding c0 \<and> pc_padding_budget c1 = None"
    using steps(2) new by (auto simp: decode_binding_flag_def flag_byte_def phantom_config_with_profile_def split: if_splits)
  have c2: "c2 = c1\<lparr>pc_selection := sel\<rparr>" "phantom_validate c2 = Ok ()" using steps(4) by (auto simp: phantom_config_with_selection_def Let_def)
  have c: "b ! 63 = flag_byte (pc_padding_budget c \<noteq> None) \<and> (case pc_padding_budget c of Some x \<Rightarrow> x | None \<Rightarrow> 0) = of_be (slice b 64 72)
      \<and> c = c2\<lparr>pc_padding_budget := pc_padding_budget c\<rparr>"
    using steps(5) c2 b43 by (auto simp: decode_padding_budget_def flag_byte_def phantom_config_with_padding_budget_def split: if_splits)
  have lw: "length ws = 7" "\<forall>w\<in>set ws. w \<le> u16_max"
  proof -
    show "length ws = 7" by (simp add: ws_def)
    have "of_be (slice b (49 + i * 2) (51 + i * 2)) \<le> u16_max" if "i < 7" for i
      using of_be_slice_bound [of "49 + i * 2" 2 "51 + i * 2" b] that len by (simp add: u16_max_def)
    then show "\<forall>w\<in>set ws. w \<le> u16_max" by (auto simp: ws_def)
  qed
  have sel: "selection_weights sel = (b ! 48, ws) \<and> (case sel of FirstFit \<Rightarrow> True | Weighted vs \<Rightarrow> vs = ws)"
    using steps(3) by (auto simp: decode_selection_def split: if_splits)
  note cc = c [THEN conjunct2, THEN conjunct2]
  have f: "pc_profile c = t" "pc_profile_bound c = pc_profile_bound c1" "pc_selection c = sel" "phantom_validate c = Ok ()"
      "pc_min_padding c = of_be (slice b 44 46)" "pc_max_padding c = of_be (slice b 46 48)"
    using arg_cong [OF cc, of pc_profile] arg_cong [OF cc, of pc_profile_bound] arg_cong [OF cc, of pc_selection]
      arg_cong [OF cc, of phantom_validate] arg_cong [OF cc, of pc_min_padding] arg_cong [OF cc, of pc_max_padding] c2 b43 new by simp_all
  then show "pc_profile c = t" "b ! 43 = flag_byte (pc_profile_bound c)" "b ! 63 = flag_byte (pc_padding_budget c \<noteq> None)"
    using c b43 by simp_all
  show "config_ok c"
    using c f b43 sel lw of_be_slice_bound [of 64 8 72 b] len
    by (cases "pc_padding_budget c") (auto simp: config_ok_def list_all_iff u64_max_def split: size_selection.splits)
  show "slice b 64 72 = be_bytes 8 (case pc_padding_budget c of Some x \<Rightarrow> x | None \<Rightarrow> 0)" using c len by (simp add: be_bytes_slice)
  show "slice b 44 46 = be_bytes 2 (pc_min_padding c)" "slice b 46 48 = be_bytes 2 (pc_max_padding c)" using f len by (simp_all add: be_bytes_slice)
  show "slice b 48 63 = encode_selection (pc_selection c)"
    using encoded_weights [OF _ ws_def] len sel by (simp add: f(3) encode_selection_def)
qed

lemma cover_policy_range:
  assumes "cover_validate p = Ok ()"
  shows "of_be (be_bytes 4 (interval_ms p)) = interval_ms p" "of_be (be_bytes 4 (idle_timeout_ms p)) = idle_timeout_ms p"
    "of_be (be_bytes 8 (maximum_bytes p)) = maximum_bytes p" "of_be (be_bytes 2 (overhead_percent p)) = overhead_percent p"
  using assms by (auto simp: cover_validate_def of_be_be_bytes split: if_splits)

lemma frame_budget_eta [simp]: "\<lparr>max_frames = max_frames x, max_payload = max_payload x\<rparr> = x"
  by simp

lemma cover_policy_eta [simp]:
  "\<lparr>interval_ms = interval_ms p, idle_timeout_ms = idle_timeout_ms p, maximum_bytes = maximum_bytes p, overhead_percent = overhead_percent p\<rparr> = p"
  by simp

lemma decode_cover_encoded:
  assumes "slice b 108 127 = encode_cover cv" and "length b = 127" and "case cv of None \<Rightarrow> True | Some p \<Rightarrow> cover_validate p = Ok ()"
  shows "decode_cover b = Ok cv"
proof -
  have d: "drop 108 b = encode_cover cv" using assms(1,2) slice_to_end [of b 108] by simp
  then have b108: "b ! 108 = encode_cover cv ! 0" "drop 109 b = drop 1 (encode_cover cv)"
    using assms(2) nth_drop [of 108 b 0] drop_drop [of 1 108 b] by auto
  have sl: "slice b (108 + i) (108 + j) = slice (encode_cover cv) i j" for i j by (simp add: slice_def d [symmetric] add.commute)
  have "slice b 109 113 = slice (encode_cover cv) 1 5" "slice b 113 117 = slice (encode_cover cv) 5 9"
      "slice b 117 125 = slice (encode_cover cv) 9 17" "slice b 125 127 = slice (encode_cover cv) 17 19"
    using sl [of 1 5] sl [of 5 9] sl [of 9 17] sl [of 17 19] by simp_all
  then show ?thesis using assms(3) b108
    by (cases cv) (auto simp: decode_cover_def encode_cover_def slice_def cover_policy_range Let_def list_all_iff)
qed

lemma decode_cover_only:
  assumes d: "decode_cover b = Ok cv" and len: "length b = 127"
  shows "slice b 108 127 = encode_cover cv" "case cv of None \<Rightarrow> True | Some p \<Rightarrow> cover_validate p = Ok ()"
proof -
  have whole: "slice b 108 127 = b ! 108 # drop 109 b" using len slice_to_end [of b 108] by (simp add: Cons_nth_drop_Suc [symmetric])
  have parts: "drop 109 b = slice b 109 113 @ slice b 113 117 @ slice b 117 125 @ slice b 125 127"
    using len slice_to_end [of b 125] by (simp add: drop_split [of 109 113 b] drop_split [of 113 117 b] drop_split [of 117 125 b])
  show "slice b 108 127 = encode_cover cv"
  proof (cases cv)
    case None
    then have "b ! 108 = 0" "drop 109 b = replicate 18 0" using d len
      by (auto simp: decode_cover_def list_all_iff Let_def split: if_splits intro!: replicate_eqI)
    then show ?thesis using None whole by (simp add: encode_cover_def numeral_eq_Suc)
  next
    case (Some p)
    then show ?thesis using d len whole parts by (auto simp: decode_cover_def encode_cover_def Let_def be_bytes_slice split: if_splits)
  qed
  show "case cv of None \<Rightarrow> True | Some p \<Rightarrow> cover_validate p = Ok ()" using d by (auto simp: decode_cover_def Let_def split: if_splits)
qed

lemma encode_budget_fields:
  "budget_validate x = Ok () \<Longrightarrow> slice b i (i + 16) = encode_budget x \<Longrightarrow>
     of_be (slice b i (i + 8)) = max_frames x \<and> of_be (slice b (i + 8) (i + 16)) = max_payload x"
proof -
  assume v: "budget_validate x = Ok ()" and s: "slice b i (i + 16) = encode_budget x"
  have "slice b i (i + 8) = slice (slice b i (i + 16)) 0 8" "slice b (i + 8) (i + 16) = slice (slice b i (i + 16)) 8 16"
    by (simp_all add: slice_slice)
  moreover have "max_frames x < 256 ^ 8" "max_payload x < 256 ^ 8"
    using v by (auto simp: budget_validate_def MAX_FRAME_BUDGET_def MAX_PAYLOAD_BUDGET_def split: if_splits)
  moreover have "slice (encode_budget x) 0 8 = be_bytes 8 (max_frames x)" "slice (encode_budget x) 8 16 = be_bytes 8 (max_payload x)"
    by (simp_all add: encode_budget_def slice_def)
  ultimately show ?thesis by (simp add: s of_be_be_bytes_id)
qed

lemma encode_budget_slices:
  "i + 16 \<le> length b \<Longrightarrow>
     encode_budget \<lparr>max_frames = of_be (slice b i (i + 8)), max_payload = of_be (slice b (i + 8) (i + 16))\<rparr> = slice b i (i + 16)"
  by (simp add: encode_budget_def be_bytes_slice slice_join)

lemma path_mtu_range: "validate_path_mtu n = Ok () \<Longrightarrow> n < 256 ^ 2"
  by (simp add: validate_path_mtu_iff u16_max_def)

lemma offer_decode_encoded: "offer_ok x \<Longrightarrow> offer_decode (offer_encode x) = Ok x"
proof -
  assume ok: "offer_ok x"
  then have c: "config_ok (eo_config x)" "length (eo_binding x) = 32" by (simp_all add: offer_ok_def)
  define b where "b = offer_encode x"
  note b_parts = b_def [unfolded offer_encode_def Let_def]
  note l = offer_layout [OF length_POLICY_MAGIC c(2) length_encode_selection [OF c(1)] length_be_bytes length_be_bytes length_be_bytes
      length_be_bytes length_be_bytes length_encode_budget length_encode_budget length_encode_cover b_parts]
  have cfg: "decode_config (pc_profile (eo_config x)) b = Ok (eo_config x)"
    using c(1) l by (intro decode_config_encoded) simp_all
  have cov: "decode_cover b = Ok (eo_cover x)" using ok l by (intro decode_cover_encoded) (simp_all add: offer_ok_def)
  have bud: "of_be (slice b 76 84) = max_frames (eo_outbound_budget x)" "of_be (slice b 84 92) = max_payload (eo_outbound_budget x)"
      "of_be (slice b 92 100) = max_frames (eo_inbound_budget x)" "of_be (slice b 100 108) = max_payload (eo_inbound_budget x)"
    using encode_budget_fields [of "eo_outbound_budget x" b 76] encode_budget_fields [of "eo_inbound_budget x" b 92] ok l by (simp_all add: offer_ok_def)
  have lim: "of_be (slice b 72 74) = eo_outbound_limit x" "of_be (slice b 74 76) = eo_inbound_limit x"
    using ok l path_mtu_range by (simp_all add: offer_ok_def of_be_be_bytes_id)
  have "from_id (b ! 41) = Some (pc_profile (eo_config x))" using l by (simp add: from_id_iff)
  moreover have "eo_supported x \<noteq> 0" using ok by (auto simp: offer_ok_def)
  ultimately show ?thesis unfolding b_def [symmetric] using ok l cfg cov bud lim
    by (simp add: offer_decode_def offer_ok_def OFFER_BYTES_def Let_def)
qed

lemma offer_decode_only:
  assumes d: "offer_decode b = Ok x"
  shows "offer_ok x" and "offer_encode x = b"
proof -
  obtain t where len: "length b = 127" and magic: "take 9 b = POLICY_MAGIC" and t: "from_id (b ! 41) = Some t"
    and su: "b ! 42 \<noteq> 0" "b ! 42 AND NOT PROFILE_MASK = 0" "b ! 42 AND profile_bit t \<noteq> 0"
    using d by (auto simp: offer_decode_def OFFER_BYTES_def Let_def split: if_splits option.splits)
  then obtain c cv where c: "decode_config t b = Ok c" and cv: "decode_cover b = Ok cv"
    and v: "validate_path_mtu (of_be (slice b 72 74)) = Ok ()" "validate_path_mtu (of_be (slice b 74 76)) = Ok ()"
      "budget_validate \<lparr>max_frames = of_be (slice b 76 84), max_payload = of_be (slice b 84 92)\<rparr> = Ok ()"
      "budget_validate \<lparr>max_frames = of_be (slice b 92 100), max_payload = of_be (slice b 100 108)\<rparr> = Ok ()"
      "check_supported c (b ! 42) [0..<6] = Ok ()"
    and x: "x = \<lparr>eo_binding = slice b 9 41, eo_supported = b ! 42, eo_config = c, eo_outbound_limit = of_be (slice b 72 74),
        eo_inbound_limit = of_be (slice b 74 76),
        eo_outbound_budget = \<lparr>max_frames = of_be (slice b 76 84), max_payload = of_be (slice b 84 92)\<rparr>,
        eo_inbound_budget = \<lparr>max_frames = of_be (slice b 92 100), max_payload = of_be (slice b 100 108)\<rparr>, eo_cover = cv\<rparr>"
    using d by (auto simp: offer_decode_def OFFER_BYTES_def Let_def split: if_splits option.splits result.splits)
  note cc = decode_config_only [OF c len] and cvv = decode_cover_only [OF cv len]
  show "offer_ok x" using cc cvv v su len by (simp add: offer_ok_def x)
  have nth: "slice b i (Suc i) = [b ! i]" if "i < 127" for i
    using that len by (simp add: slice_def take_Suc hd_drop_conv_nth)
  have "b = slice b 0 9 @ slice b 9 41 @ slice b 41 42 @ slice b 42 43 @ slice b 43 44 @ slice b 44 46 @ slice b 46 48 @ slice b 48 63
      @ slice b 63 64 @ slice b 64 72 @ slice b 72 74 @ slice b 74 76 @ slice b 76 92 @ slice b 92 108 @ slice b 108 127"
    using slice_full [of b] len by (simp add: slice_join)
  moreover have "slice b 0 9 = POLICY_MAGIC" using magic by (simp add: slice_def)
  moreover have "slice b 41 42 = [tier_id t]" using nth [of 41] t by (simp add: from_id_iff)
  moreover have "slice b 42 43 = [b ! 42]" "slice b 43 44 = [b ! 43]" "slice b 63 64 = [b ! 63]" using nth [of 42] nth [of 43] nth [of 63] by simp_all
  ultimately show "offer_encode x = b"
    using cc cvv(1) encode_budget_slices [of 76 b] encode_budget_slices [of 92 b] len
    by (simp add: offer_encode_def x be_bytes_slice)
qed

interpretation po_offer: strict_codec "\<lambda>x (_ :: unit). offer_encode x" offer_decode "\<lambda>x _. offer_ok x"
  by unfold_locales (auto intro: offer_decode_encoded offer_decode_only offer_decode_only(2) [symmetric])

section \<open>Built offers\<close>

lemma AND_profile_bit: "(w AND profile_bit t \<noteq> 0) = bit w (unat (tier_id t))"
  by (simp add: profile_bit_def push_bit_eq_mult and_exp_eq_0_iff_not_bit)

lemma unat_tier_id: "unat (tier_id t) = (case t of Low \<Rightarrow> 0 | Medium \<Rightarrow> 1 | High \<Rightarrow> 2 | TunedLow \<Rightarrow> 3 | TunedMedium \<Rightarrow> 4 | TunedHigh \<Rightarrow> 5)"
  by (cases t) simp_all

lemma unat_tier_id_inj: "unat (tier_id t) = unat (tier_id u) \<Longrightarrow> t = u"
  by (cases t; cases u) simp_all

lemma bit_profile_bit: "bit (profile_bit t) (unat (tier_id u)) \<longleftrightarrow> t = u"
  by (cases t; cases u) (simp_all add: profile_bit_def bit_push_bit_iff bit_1_iff)

lemma profile_bit_masked: "profile_bit t AND NOT PROFILE_MASK = 0"
  by (cases t) (simp_all add: profile_bit_def PROFILE_MASK_def)

lemma from_id_of_nat: "i < 6 \<Longrightarrow> \<exists>t. from_id (of_nat i) = Some t \<and> unat (tier_id t) = i"
proof -
  assume "i < 6"
  then have "i = 0 \<or> i = 1 \<or> i = 2 \<or> i = 3 \<or> i = 4 \<or> i = 5" by auto
  then show ?thesis by (elim disjE) (simp_all add: from_id_def)
qed

lemma check_supported_list:
  "set is \<subseteq> {..<6} \<Longrightarrow> check_supported c w is = Ok () \<longleftrightarrow>
     (\<forall>t. unat (tier_id t) \<in> set is \<longrightarrow> bit w (unat (tier_id t)) \<longrightarrow> is_ok (profile_config c t))"
proof (induction "is")
  case (Cons i "is")
  then obtain t where t: "from_id (of_nat i) = Some t" "unat (tier_id t) = i" using from_id_of_nat [of i] by auto
  have bit: "(w AND push_bit i 1 \<noteq> 0) = bit w i" by (simp add: push_bit_eq_mult and_exp_eq_0_iff_not_bit)
  have other: "unat (tier_id u) = i \<longleftrightarrow> u = t" for u using t unat_tier_id_inj by auto
  have all: "(\<forall>u. unat (tier_id u) \<in> set (i # is) \<longrightarrow> bit w (unat (tier_id u)) \<longrightarrow> is_ok (profile_config c u))
      = ((bit w i \<longrightarrow> is_ok (profile_config c t)) \<and> (\<forall>u. unat (tier_id u) \<in> set is \<longrightarrow> bit w (unat (tier_id u)) \<longrightarrow> is_ok (profile_config c u)))"
    using other unfolding t(2) [symmetric] by auto
  have "check_supported c w (i # is) = Ok () \<longleftrightarrow> (bit w i \<longrightarrow> is_ok (profile_config c t)) \<and> check_supported c w is = Ok ()"
    using bit t(1) by (simp split: result.splits)
  then show ?case using Cons all by simp
qed simp

lemma check_supported_iff:
  "check_supported c w [0..<6] = Ok () \<longleftrightarrow> (\<forall>t. bit w (unat (tier_id t)) \<longrightarrow> is_ok (profile_config c t))"
proof -
  have "unat (tier_id t) \<in> set [0..<6]" for t by (cases t) simp_all
  moreover have "set [0..<6] \<subseteq> {..<6 :: nat}" by auto
  ultimately show ?thesis using check_supported_list [of "[0..<6]" c w] by blast
qed

lemma profiles_mask_ok:
  "profiles_mask c w ts = Ok w' \<Longrightarrow> w AND NOT PROFILE_MASK = 0 \<Longrightarrow> (\<forall>t. bit w (unat (tier_id t)) \<longrightarrow> is_ok (profile_config c t))
    \<Longrightarrow> w' AND NOT PROFILE_MASK = 0 \<and> (\<forall>t. bit w' (unat (tier_id t)) \<longrightarrow> is_ok (profile_config c t))"
proof (induction ts arbitrary: w)
  case (Cons t ts)
  have "(w OR profile_bit t) AND NOT PROFILE_MASK = 0"
    using Cons.prems(2) profile_bit_masked by (simp add: bit.conj_disj_distrib2)
  moreover have "\<forall>u. bit (w OR profile_bit t) (unat (tier_id u)) \<longrightarrow> is_ok (profile_config c u)"
    using Cons.prems by (auto simp: bit_or_iff bit_profile_bit split: if_splits result.splits)
  ultimately show ?case using Cons by (auto split: if_splits result.splits)
qed simp

text \<open>The configurations that the constructors of \<open>PhantomOneConfig\<close> can give: fixed-size weights, and only the default
  profile without a binding.\<close>

definition config_typed :: "phantom_config \<Rightarrow> bool" where
  "config_typed c \<longleftrightarrow> (pc_profile_bound c \<or> pc_profile c = Medium)
     \<and> (case pc_selection c of FirstFit \<Rightarrow> True | Weighted ws \<Rightarrow> length ws = 7 \<and> list_all (\<lambda>w. w \<le> u16_max) ws)
     \<and> (case pc_padding_budget c of None \<Rightarrow> True | Some b \<Rightarrow> b \<le> u64_max)"

inductive offer_built :: "string \<Rightarrow> envelope_offer \<Rightarrow> bool" for transcript where
  built_new: "offer_new transcript c n = Ok x \<Longrightarrow> config_typed c \<Longrightarrow> offer_built transcript x"
| built_supported: "offer_built transcript x \<Longrightarrow> with_supported_profiles x ts = Ok y \<Longrightarrow> offer_built transcript y"
| built_limits: "offer_built transcript x \<Longrightarrow> with_directional_limits x n m = Ok y \<Longrightarrow> offer_built transcript y"
| built_budgets: "offer_built transcript x \<Longrightarrow> with_directional_budgets x b d = Ok y \<Longrightarrow> offer_built transcript y"
| built_cover: "offer_built transcript x \<Longrightarrow> with_cover x cv = Ok y \<Longrightarrow> offer_built transcript y"

lemma length_parse_pairs: "parse_pairs s = Some b \<Longrightarrow> length b = length s div 2"
  by (induction s arbitrary: b rule: parse_pairs.induct) (auto split: option.splits)

lemma profile_config_own: "phantom_validate c = Ok () \<Longrightarrow> is_ok (profile_config c (pc_profile c))"
proof -
  assume "phantom_validate c = Ok ()"
  moreover have "pc_profile_bound c \<Longrightarrow> phantom_config_with_profile c (pc_profile c) = c" by (simp add: phantom_config_with_profile_def)
  ultimately show ?thesis by (simp add: profile_config_def Let_def is_ok_iff)
qed

lemma offer_new_ok:
  assumes n: "offer_new transcript c n = Ok x" and c: "config_typed c"
  shows "offer_ok x" "parse_binding transcript = Ok (eo_binding x)"
proof -
  obtain bi where bi: "parse_binding transcript = Ok bi" "length transcript = 64" and v: "validate_path_mtu n = Ok ()" "phantom_validate c = Ok ()"
    and x: "x = \<lparr>eo_binding = bi, eo_supported = profile_bit (pc_profile c), eo_config = c,
          eo_outbound_limit = n mod 65536, eo_inbound_limit = n mod 65536,
          eo_outbound_budget = budget_default, eo_inbound_budget = budget_default, eo_cover = None\<rparr>"
    using n by (auto simp: offer_new_def split: if_splits result.splits)
  have "length bi = 32" using bi length_parse_pairs by (force simp: parse_binding_def split: if_splits)
  moreover have "n mod 65536 = n" using v(1) path_mtu_range by simp
  moreover have "budget_validate budget_default = Ok ()"
    by (simp add: budget_validate_def budget_default_def MAX_FRAME_BUDGET_def MAX_PAYLOAD_BUDGET_def)
  moreover have "config_ok c" using c v(2) by (simp add: config_ok_def config_typed_def)
  moreover have "\<forall>t. bit (profile_bit (pc_profile c)) (unat (tier_id t)) \<longrightarrow> is_ok (profile_config c t)"
    using profile_config_own [OF v(2)] by (auto simp: bit_profile_bit)
  ultimately show "offer_ok x" using v(1)
    by (simp add: offer_ok_def x profile_bit_masked AND_profile_bit [THEN iffD2] bit_profile_bit check_supported_iff del: upt_rec and.idem upt_conv_Nil)
  show "parse_binding transcript = Ok (eo_binding x)" using bi by (simp add: x)
qed

lemma offer_built_ok: "offer_built transcript x \<Longrightarrow> offer_ok x \<and> parse_binding transcript = Ok (eo_binding x)"
proof (induction rule: offer_built.induct)
  case (built_new c n x)
  then show ?case using offer_new_ok by blast
next
  case (built_supported x ts y)
  then obtain w where w: "profiles_mask (eo_config x) 0 ts = Ok w" "w AND profile_bit (pc_profile (eo_config x)) \<noteq> 0" "y = x\<lparr>eo_supported := w\<rparr>"
    by (auto simp: with_supported_profiles_def Let_def split: if_splits result.splits)
  with built_supported profiles_mask_ok [OF w(1)] show ?case
    by (simp add: offer_ok_def check_supported_iff del: upt_rec upt_conv_Nil)
next
  case (built_limits x n m y)
  then show ?case by (auto simp: with_directional_limits_def offer_ok_def split: if_splits result.splits)
next
  case (built_budgets x b d y)
  then show ?case by (auto simp: with_directional_budgets_def offer_ok_def split: result.splits)
next
  case (built_cover x cv y)
  then show ?case by (auto simp: with_cover_def offer_ok_def split: result.splits option.splits)
qed

section \<open>Agreement\<close>

definition mirror :: "negotiated_policy \<Rightarrow> negotiated_policy" where
  "mirror p = \<lparr>np_config = np_config p, np_outbound_limit = np_inbound_limit p, np_inbound_limit = np_outbound_limit p,
     np_outbound_budget = np_inbound_budget p, np_inbound_budget = np_outbound_budget p\<rparr>"

lemma mirror_mirror [simp]: "mirror (mirror p) = p"
  by (simp add: mirror_def)

lemma same_settings_sym: "same_policy_settings c d = same_policy_settings d c"
  by (auto simp: same_policy_settings_def)

lemma profile_config_same:
  assumes "config_ok c" and "config_ok d" and "same_policy_settings c d"
  shows "profile_config c t = profile_config d t"
proof (cases "pc_profile_bound c")
  case True
  then have "phantom_config_with_profile c t = phantom_config_with_profile d t"
    using assms(3) by (simp add: phantom_config_with_profile_def same_policy_settings_def)
  then show ?thesis using True assms(3) by (simp add: profile_config_def same_policy_settings_def)
next
  case False
  then have "c = d" using assms by (simp add: config_ok_def same_policy_settings_def)
  then show ?thesis by simp
qed

lemma min_by_key_mem: "min_by_key f xs = Some x \<Longrightarrow> x \<in> set xs"
  by (induction xs arbitrary: x) (auto split: option.splits if_splits)

lemma min_by_key_None: "min_by_key f xs = None \<longleftrightarrow> xs = []"
  by (cases xs) (auto split: option.splits)

lemma key_less_trans: "\<not> key_less b a \<Longrightarrow> \<not> key_less c b \<Longrightarrow> \<not> key_less c a"
  unfolding key_less_def by linarith

lemma key_less_asym: "key_less a b \<Longrightarrow> \<not> key_less b a"
  unfolding key_less_def by linarith

lemma min_by_key_least: "min_by_key f xs = Some x \<Longrightarrow> y \<in> set xs \<Longrightarrow> \<not> key_less (f y) (f x)"
proof (induction xs arbitrary: x)
  case (Cons a xs)
  show ?case
  proof (cases "min_by_key f xs")
    case None
    then show ?thesis using Cons.prems by (auto simp: min_by_key_None key_less_def)
  next
    case (Some z)
    then have x: "x = (if key_less (f z) (f a) then z else a)" using Cons.prems(1) by simp
    have "\<not> key_less (f y) (f z)" if "y \<in> set xs" using Cons.IH [OF Some that] .
    then show ?thesis using Cons.prems(2) x key_less_asym key_less_trans by (metis set_ConsD)
  qed
qed simp

lemma set_common_profiles: "set (common_profiles w) = {t. bit w (unat (tier_id t))}"
proof -
  have bit: "(w AND 2 ^ i = 0) = (\<not> bit w i)" for i by (simp add: and_exp_eq_0_iff_not_bit)
  have "t \<in> set (common_profiles w) \<longleftrightarrow> (\<exists>i<6. bit w i \<and> from_id (of_nat i) = Some t)" for t
    unfolding common_profiles_def by (force simp: bit push_bit_eq_mult map_filter_def image_iff)
  moreover have "(\<exists>i<6. bit w i \<and> from_id (of_nat i) = Some t) \<longleftrightarrow> bit w (unat (tier_id t))" for t
  proof -
    have "unat (tier_id t) < 6" "from_id (of_nat (unat (tier_id t))) = Some t" by (cases t; simp add: from_id_def)+
    moreover have "i = unat (tier_id t)" if "i < 6" "from_id (of_nat i) = Some t" for i using from_id_of_nat [OF that(1)] that(2) by auto
    ultimately show ?thesis by blast
  qed
  ultimately show ?thesis by auto
qed

lemma profile_key_comm: "profile_key a b = profile_key b a"
  by (simp add: profile_key_def fun_eq_iff)

lemma negotiate_mirror:
  assumes "offer_ok a" and "offer_ok b"
  shows "negotiate b a = map_ok mirror (negotiate a b)"
proof (cases "eo_binding a = eo_binding b \<and> same_policy_settings (eo_config a) (eo_config b) \<and> eo_cover a = eo_cover b")
  case True
  have "profile_config (eo_config a) t = profile_config (eo_config b) t" for t
    using profile_config_same assms True by (simp add: offer_ok_def)
  then show ?thesis using True
    by (simp add: negotiate_def same_settings_sym [of "eo_config b"] profile_key_comm [of "pc_profile (eo_config b)"]
        and.commute [of "eo_supported b"] mirror_def budget_intersect_def min.commute split: option.split result.split)
next
  case False
  then show ?thesis using same_settings_sym [of "eo_config a" "eo_config b"] by (auto simp: negotiate_def)
qed

text \<open>When two offers agree: same session, same settings and a common profile; nothing else can fail.\<close>

lemma negotiate_iff:
  assumes "offer_ok a" and "offer_ok b"
  shows "is_ok (negotiate a b) \<longleftrightarrow> eo_binding a = eo_binding b \<and> same_policy_settings (eo_config a) (eo_config b)
    \<and> eo_cover a = eo_cover b \<and> (\<exists>t. bit (eo_supported a) (unat (tier_id t)) \<and> bit (eo_supported b) (unat (tier_id t)))"
proof -
  have sup: "is_ok (profile_config (eo_config x) t)" if "offer_ok x" "bit (eo_supported x) (unat (tier_id t))" for x t
    using that by (simp add: offer_ok_def check_supported_iff del: upt_rec upt_conv_Nil)
  define ts where "ts = common_profiles (eo_supported a AND eo_supported b)"
  define key where "key = profile_key (pc_profile (eo_config a)) (pc_profile (eo_config b))"
  have ts: "set ts = {t. bit (eo_supported a) (unat (tier_id t)) \<and> bit (eo_supported b) (unat (tier_id t))}"
    by (auto simp: ts_def set_common_profiles bit_and_iff)
  show ?thesis
  proof (cases "min_by_key key ts")
    case None
    then have "ts = []" by (simp add: min_by_key_None)
    then show ?thesis using None ts unfolding negotiate_def ts_def [symmetric] key_def [symmetric] by auto
  next
    case (Some t)
    then have t: "t \<in> set ts" by (rule min_by_key_mem)
    then obtain c d where "profile_config (eo_config a) t = Ok c" "profile_config (eo_config b) t = Ok d"
      using sup assms ts by (fastforce simp: is_ok_iff)
    then show ?thesis using Some t ts unfolding negotiate_def ts_def [symmetric] key_def [symmetric] by auto
  qed
qed

lemma negotiate_Ok:
  assumes "negotiate a b = Ok p"
  obtains t where "bit (eo_supported a) (unat (tier_id t))" "bit (eo_supported b) (unat (tier_id t))" "profile_config (eo_config a) t = Ok (np_config p)"
    "eo_binding a = eo_binding b" "eo_cover a = eo_cover b"
    "\<forall>u. bit (eo_supported a) (unat (tier_id u)) \<and> bit (eo_supported b) (unat (tier_id u)) \<longrightarrow>
        \<not> key_less (profile_key (pc_profile (eo_config a)) (pc_profile (eo_config b)) u) (profile_key (pc_profile (eo_config a)) (pc_profile (eo_config b)) t)"
    "np_outbound_limit p = min (eo_outbound_limit a) (eo_inbound_limit b)" "np_inbound_limit p = min (eo_inbound_limit a) (eo_outbound_limit b)"
    "np_outbound_budget p = budget_intersect (eo_outbound_budget a) (eo_inbound_budget b)"
    "np_inbound_budget p = budget_intersect (eo_inbound_budget a) (eo_outbound_budget b)"
proof -
  define ts where "ts = common_profiles (eo_supported a AND eo_supported b)"
  define key where "key = profile_key (pc_profile (eo_config a)) (pc_profile (eo_config b))"
  have ts: "set ts = {t. bit (eo_supported a) (unat (tier_id t)) \<and> bit (eo_supported b) (unat (tier_id t))}"
    by (auto simp: ts_def set_common_profiles bit_and_iff)
  obtain t where t: "min_by_key key ts = Some t"
    using assms unfolding negotiate_def ts_def [symmetric] key_def [symmetric] by (auto split: option.splits if_splits)
  show thesis
    using assms t ts min_by_key_mem [OF t] min_by_key_least [OF t]
    unfolding negotiate_def ts_def [symmetric] key_def [symmetric]
    by (intro that [of t]) (auto simp: key_def split: if_splits result.splits)
qed

lemma bytes_le_total: "bytes_le x y \<or> bytes_le y x"
proof (induction x y rule: bytes_le.induct)
  case (3 x xs y ys)
  then show ?case by (metis bytes_le.simps(3) linorder_neqE_nat word_unat_eq_iff)
qed auto

lemma bytes_le_antisym: "bytes_le x y \<Longrightarrow> bytes_le y x \<Longrightarrow> x = y"
proof (induction x y rule: bytes_le.induct)
  case (1 ys)
  then show ?case by (cases ys) auto
qed auto

lemma offer_encode_inj: "offer_ok a \<Longrightarrow> offer_ok b \<Longrightarrow> offer_encode a = offer_encode b \<Longrightarrow> a = b"
  using po_offer.frame_unambiguous by blast

lemma ack_input_mirror:
  assumes "offer_ok a" and "offer_ok b" and "negotiate a b = Ok p"
  shows "ack_input b a (mirror p) = ack_input a b p"
proof (cases "bytes_le (offer_encode a) (offer_encode b) \<and> bytes_le (offer_encode b) (offer_encode a)")
  case True
  then have "a = b" using bytes_le_antisym offer_encode_inj assms(1,2) by blast
  moreover from this have "mirror p = p" using negotiate_mirror [OF assms(1,2)] assms(3) by simp
  ultimately show ?thesis by simp
next
  case False
  then have "bytes_le (offer_encode b) (offer_encode a) = (\<not> bytes_le (offer_encode a) (offer_encode b))"
    using bytes_le_total by blast
  then show ?thesis by (simp add: ack_input_def mirror_def Let_def)
qed

lemma acknowledgement_mirror:
  assumes "offer_ok a" and "offer_ok b"
  shows "acknowledgement sha b a = acknowledgement sha a b"
  using negotiate_mirror [OF assms] ack_input_mirror [OF assms]
  by (cases "negotiate a b") (simp_all add: acknowledgement_def)

lemma length_offer_encode: "offer_ok x \<Longrightarrow> length (offer_encode x) = 127"
  using offer_decode_encoded [of x] by (auto simp: offer_decode_def OFFER_BYTES_def split: if_splits)

text \<open>The acknowledgement covers both offers: the same hash input comes from the same pair of offers.\<close>

lemma ack_input_parts:
  assumes "offer_ok a" and "offer_ok b"
  obtains x y r where "ack_input a b p = ACK_LABEL @ offer_encode x @ offer_encode y @ r" "{x, y} = {a, b}" "offer_ok x" "offer_ok y"
proof (cases "bytes_le (offer_encode a) (offer_encode b)")
  case True
  then show thesis using assms by (intro that [of a b]) (auto simp: ack_input_def Let_def)
next
  case False
  then show thesis using assms by (intro that [of b a]) (auto simp: ack_input_def Let_def)
qed

lemma ack_input_binds:
  assumes ok: "offer_ok a" "offer_ok b" "offer_ok a'" "offer_ok b'" and eq: "ack_input a b p = ack_input a' b' p'"
  shows "{a, b} = {a', b'}"
proof -
  obtain x y r where x: "ack_input a b p = ACK_LABEL @ offer_encode x @ offer_encode y @ r" "{x, y} = {a, b}" "offer_ok x" "offer_ok y"
    by (rule ack_input_parts [OF ok(1,2)])
  obtain x' y' r' where x': "ack_input a' b' p' = ACK_LABEL @ offer_encode x' @ offer_encode y' @ r'" "{x', y'} = {a', b'}" "offer_ok x'" "offer_ok y'"
    by (rule ack_input_parts [OF ok(3,4)])
  have "offer_encode x = offer_encode x'" "offer_encode y = offer_encode y'"
    using eq x x' length_offer_encode by (simp_all add: append_eq_append_conv)
  then have "x = x'" "y = y'" using offer_encode_inj x x' by blast+
  then show ?thesis using x(2) x'(2) by simp
qed

section \<open>Properties\<close>

text \<open>C13. Offers are well formed and their encoding is canonical: every offer that the constructor and the builder methods give has
  fields in range, a valid configuration for each profile it advertises and the session's binding, and encodes to 127 bytes that decode
  to the same offer; and whatever bytes the decoder accepts are the encoding of a well-formed offer, so that no offer has two encodings.\<close>

theorem offer_codec_canonical:
  assumes "offer_built transcript x" and "offer_decode b = Ok y"
  shows "offer_ok x \<and> parse_binding transcript = Ok (eo_binding x) \<and> length (offer_encode x) = OFFER_BYTES \<and> offer_decode (offer_encode x) = Ok x
    \<and> offer_ok y \<and> offer_encode y = b"
  using offer_built_ok [OF assms(1)] offer_decode_only [OF assms(2)] length_offer_encode offer_decode_encoded by (simp add: OFFER_BYTES_def)

text \<open>C12. The two sides of a negotiation are mirror images: whatever two well-formed offers meet, both sides succeed or both fail with the same
  error, they agree on the envelope configuration, each side's outbound limit and budget is the other's inbound one, and both compute
  the same acknowledgement.  They succeed exactly when session binding, settings and cover policy coincide and some profile is
  supported by both; the chosen profile is one of those, and no other is preferred by more sides.\<close>

theorem negotiation_mirrored:
  assumes "offer_ok a" and "offer_ok b"
    and "common = {t. bit (eo_supported a) (unat (tier_id t)) \<and> bit (eo_supported b) (unat (tier_id t))}"
    and "key = profile_key (pc_profile (eo_config a)) (pc_profile (eo_config b))"
  shows "negotiate b a = map_ok mirror (negotiate a b) \<and> acknowledgement sha b a = acknowledgement sha a b
    \<and> (is_ok (negotiate a b) \<longleftrightarrow> eo_binding a = eo_binding b \<and> same_policy_settings (eo_config a) (eo_config b)
         \<and> eo_cover a = eo_cover b \<and> common \<noteq> {})
    \<and> (\<forall>p. negotiate a b = Ok p \<longrightarrow> (\<exists>t\<in>common. profile_config (eo_config a) t = Ok (np_config p) \<and> (\<forall>u\<in>common. \<not> key_less (key u) (key t))))"
proof (intro conjI allI impI)
  show "negotiate b a = map_ok mirror (negotiate a b)" "acknowledgement sha b a = acknowledgement sha a b"
    using negotiate_mirror [OF assms(1,2)] acknowledgement_mirror [OF assms(1,2)] by blast+
  show "is_ok (negotiate a b) \<longleftrightarrow> eo_binding a = eo_binding b \<and> same_policy_settings (eo_config a) (eo_config b)
      \<and> eo_cover a = eo_cover b \<and> common \<noteq> {}" using negotiate_iff [OF assms(1,2)] assms(3) by auto
next
  fix p assume "negotiate a b = Ok p"
  then obtain t where "bit (eo_supported a) (unat (tier_id t))" "bit (eo_supported b) (unat (tier_id t))" "profile_config (eo_config a) t = Ok (np_config p)"
    "\<forall>u. bit (eo_supported a) (unat (tier_id u)) \<and> bit (eo_supported b) (unat (tier_id u)) \<longrightarrow> \<not> key_less (key u) (key t)"
    unfolding assms(4) by (rule negotiate_Ok)
  then show "\<exists>t\<in>common. profile_config (eo_config a) t = Ok (np_config p) \<and> (\<forall>u\<in>common. \<not> key_less (key u) (key t))"
    unfolding assms(3) by blast
qed

text \<open>The offers of the witnesses.\<close>

definition demo_offer :: "profile_tier \<Rightarrow> envelope_offer" where
  "demo_offer t = \<lparr>eo_binding = replicate 32 170, eo_supported = profile_bit t, eo_config = phantom_config_for_profile t, eo_outbound_limit = 1200,
     eo_inbound_limit = 1200, eo_outbound_budget = budget_default, eo_inbound_budget = budget_default, eo_cover = None\<rparr>"

lemma parse_pairs_demo: "parse_pairs (replicate (n + n) CHR ''a'') = Some (replicate n 170)"
proof (induction n)
  case (Suc n)
  have "from_str_radix_16 u8_max [CHR ''a'', CHR ''a''] = Some 170"
    by (simp add: from_str_radix_16_def hex_value_def u8_max_def)
  then show ?case using Suc by simp
qed simp

lemma demo_offer_new: "offer_new (replicate 64 CHR ''a'') (phantom_config_for_profile t) 1200 = Ok (demo_offer t)"
proof -
  have "parse_binding (replicate 64 CHR ''a'') = Ok (replicate 32 170)"
    using parse_pairs_demo [of 32] by (simp add: parse_binding_def is_ascii_def list_all_iff)
  moreover have "is_ascii (replicate 64 CHR ''a'')" by (simp add: is_ascii_def list_all_iff)
  ultimately show ?thesis using profile_config_valid [of t]
    by (simp add: offer_new_def demo_offer_def validate_path_mtu_def PHANTOM_ONE_HEADER_BYTES_def PHANTOM_ONE_MAX_ENVELOPE_BYTES_def u16_max_def
        phantom_config_for_profile_def)
qed

lemma demo_offer_built: "offer_built (replicate 64 CHR ''a'') (demo_offer t)"
  by (rule built_new [OF demo_offer_new]) (simp add: config_typed_def phantom_config_for_profile_def)

theorem offer_codec_canonical_witness:
  "offer_ok (demo_offer High) \<and> length (offer_encode (demo_offer High)) = 127 \<and> offer_decode (offer_encode (demo_offer High)) = Ok (demo_offer High)"
  using offer_codec_canonical [OF demo_offer_built [of High], of "offer_encode (demo_offer Low)" "demo_offer Low"]
    offer_decode_encoded offer_built_ok [OF demo_offer_built] by (simp add: OFFER_BYTES_def)

theorem negotiation_mirrored_witness:
  "is_ok (negotiate (demo_offer High) (demo_offer High)) \<and> \<not> is_ok (negotiate (demo_offer High) (demo_offer Low))"
proof -
  have ok: "offer_ok (demo_offer t)" for t using offer_built_ok [OF demo_offer_built] by blast
  have "same_policy_settings (phantom_config_for_profile t) (phantom_config_for_profile u)" for t u
    by (simp add: same_policy_settings_def phantom_config_for_profile_def)
  then show ?thesis
    using negotiation_mirrored [OF ok [of High] ok [of High] refl refl] negotiation_mirrored [OF ok [of High] ok [of Low] refl refl]
    by (auto simp: demo_offer_def bit_profile_bit)
qed

end
