(* ===== verification/Negotiated.thy ===== *)
theory Negotiated
  imports Envelope_Policy
begin

text \<open>
  Sessions under an agreed policy, the second half of \<open>shph-transport/src/envelope_policy.rs\<close>: the exchange of
  offers over an encrypted TCP session, \<open>NegotiatedTcp\<close> and \<open>NegotiatedQuic\<close> with their budgets and cover frames.
  Time is the elapsed time that each call reads from the clock.  The deadline of the exchange is a failed read of the
  stream; a failing write ends the session and is not modelled.
\<close>

section \<open>Usage\<close>

record frame_usage =
  fu_frames :: u64
  fu_payload :: u64

definition usage_default :: frame_usage where
  "usage_default = \<lparr>fu_frames = 0, fu_payload = 0\<rparr>"

definition usage_reserve :: "frame_usage \<Rightarrow> frame_budget \<Rightarrow> usize \<Rightarrow> unit result \<times> frame_usage" where
  "usage_reserve u budget n =
     (case checked_add u64_max (fu_frames u) 1 of
        None \<Rightarrow> (Err (ResourceExhausted ''frame budget exhausted''), u)
      | Some frames \<Rightarrow>
     (case checked_add u64_max (fu_payload u) n of
        None \<Rightarrow> (Err (ResourceExhausted ''payload budget exhausted''), u)
      | Some payload \<Rightarrow>
          if max_frames budget < frames \<or> max_payload budget < payload
            then (Err (ResourceExhausted ''negotiated directional frame budget exhausted''), u)
          else (Ok (), \<lparr>fu_frames = frames, fu_payload = payload\<rparr>)))"

definition cover_budget_allows :: "cover_policy \<Rightarrow> u64 \<Rightarrow> u64 \<Rightarrow> bool" where
  "cover_budget_allows p payload cover \<longleftrightarrow> cover \<le> min (payload * overhead_percent p div 100) (maximum_bytes p)"

definition received_cover_reserve :: "u64 \<Rightarrow> cover_policy \<Rightarrow> usize \<Rightarrow> unit result \<times> u64" where
  "received_cover_reserve used p n =
     (case checked_add u64_max used n of
        None \<Rightarrow> (Err (Protocol ''cover traffic byte counter overflow''), used)
      | Some next \<Rightarrow>
          if maximum_bytes p < next then (Err (Protocol ''cover traffic exceeds absolute policy budget''), used)
          else (Ok (), next))"

definition received_cover_validate :: "u64 \<Rightarrow> cover_policy \<Rightarrow> u64 \<Rightarrow> unit result" where
  "received_cover_validate used p payload =
     (if cover_budget_allows p payload used then Ok () else Err (Protocol ''cover traffic exceeds relative policy budget''))"

text \<open>The check at the start of \<open>send\<close>.\<close>

definition outbound_exhausted :: "frame_usage \<Rightarrow> frame_budget \<Rightarrow> usize \<Rightarrow> bool" where
  "outbound_exhausted u budget n \<longleftrightarrow> max_frames budget \<le> fu_frames u
     \<or> (case checked_add u64_max (fu_payload u) n of None \<Rightarrow> True | Some used \<Rightarrow> max_payload budget < used)"

section \<open>The exchange over TCP\<close>

text \<open>\<open>read_exact_or_closed_with_deadline\<close>, with the number of bytes still missing.\<close>

function read_exact :: "nat \<Rightarrow> read_event list \<Rightarrow> bytes result \<times> read_event list" where
  "read_exact n es =
     (if n = 0 then (Ok [], es)
      else (case stream_read n es of
        (Fails e, es') \<Rightarrow> (Err (map_io_error e), es')
      | (Segment s, es') \<Rightarrow>
          if s = [] then (Err ConnectionClosed, es')
          else (case read_exact (n - length s) es' of
                  (Ok rest, es'') \<Rightarrow> (Ok (s @ rest), es'')
                | (Err e, es'') \<Rightarrow> (Err e, es''))))"
  by pat_completeness auto
termination
  by (relation "measure fst") auto

declare read_exact.simps [simp del]

definition policy_send :: "aead \<Rightarrow> send_cipher \<Rightarrow> bytes \<Rightarrow> bytes result \<times> send_cipher" where
  "policy_send A c payload =
     (case encrypt A c payload of
        (Err e, c') \<Rightarrow> (Err e, c')
      | (Ok encrypted, c') \<Rightarrow> (Ok (be_bytes 4 (length encrypted) @ encrypted), c'))"

definition policy_recv :: "aead \<Rightarrow> receive_cipher \<Rightarrow> read_event list \<Rightarrow> bytes result \<times> receive_cipher \<times> read_event list" where
  "policy_recv A c es =
     (case read_exact 4 es of
        (Err e, es1) \<Rightarrow> (Err e, c, es1)
      | (Ok prefix, es1) \<Rightarrow>
          let n = of_be prefix in
          if \<not> (28 \<le> n \<and> n \<le> MAX_EXCHANGE_BYTES) then (Err (Protocol ''oversized policy exchange''), c, es1)
          else (case read_exact n es1 of
                  (Err e, es2) \<Rightarrow> (Err e, c, es2)
                | (Ok body, es2) \<Rightarrow> (case decrypt A c body of (r, c') \<Rightarrow> (r, c', es2))))"

text \<open>\<open>transcript_hash_hex.get(..8)\<close> needs a character boundary at byte 8.\<close>

definition phantom_one_generation_from_transcript :: "string \<Rightarrow> u32 result" where
  "phantom_one_generation_from_transcript transcript_hex =
     (if length transcript_hex < 8
         \<or> (8 < length transcript_hex \<and> (let v = of_char (transcript_hex ! 8) :: nat in 128 \<le> v \<and> v < 192))
        then Err (Protocol ''transcript hash is too short for Phantom One'')
      else ok_or (Protocol ''transcript hash is not valid hexadecimal'') (from_str_radix_16 u32_max (take 8 transcript_hex)))"

record 'g negotiated_tcp =
  nt_sender :: "'g tcp_sender"
  nt_receiver :: tcp_receiver
  nt_encoder :: "'g phantom_encoder"
  nt_decoder :: phantom_decoder
  nt_outbound_limit :: usize
  nt_inbound_limit :: usize
  nt_outbound_budget :: frame_budget
  nt_inbound_budget :: frame_budget
  nt_sent :: frame_usage
  nt_received :: frame_usage
  nt_cover :: cover_scheduler
  nt_cover_policy :: "cover_policy option"
  nt_received_cover :: u64

text \<open>The two messages of the exchange, before the session is set up: what is written, and the agreement.\<close>

definition policy_exchange ::
    "aead \<Rightarrow> (bytes \<Rightarrow> bytes) \<Rightarrow> envelope_offer \<Rightarrow> 'g tcp_session \<Rightarrow> read_event list
      \<Rightarrow> negotiated_policy result \<times> bytes list \<times> 'g tcp_session \<times> read_event list" where
  "policy_exchange A sha offer x es =
     (case x of (s, v) \<Rightarrow>
     (case policy_send A (ts_cipher s) (offer_encode offer) of
        (Err e, c1) \<Rightarrow> (Err e, [], (s\<lparr>ts_cipher := c1\<rparr>, v), es)
      | (Ok w1, c1) \<Rightarrow>
     (case policy_recv A (tv_cipher v) es of
        (Err e, d1, es1) \<Rightarrow> (Err e, [w1], (s\<lparr>ts_cipher := c1\<rparr>, v\<lparr>tv_cipher := d1\<rparr>), es1)
      | (Ok peer_bytes, d1, es1) \<Rightarrow>
     (case offer_decode peer_bytes of
        Err e \<Rightarrow> (Err e, [w1], (s\<lparr>ts_cipher := c1\<rparr>, v\<lparr>tv_cipher := d1\<rparr>), es1)
      | Ok peer \<Rightarrow>
     (case negotiate offer peer of
        Err e \<Rightarrow> (Err e, [w1], (s\<lparr>ts_cipher := c1\<rparr>, v\<lparr>tv_cipher := d1\<rparr>), es1)
      | Ok agreement \<Rightarrow>
     (case acknowledgement sha offer peer of
        Err e \<Rightarrow> (Err e, [w1], (s\<lparr>ts_cipher := c1\<rparr>, v\<lparr>tv_cipher := d1\<rparr>), es1)
      | Ok ack \<Rightarrow>
     (case policy_send A c1 ack of
        (Err e, c2) \<Rightarrow> (Err e, [w1], (s\<lparr>ts_cipher := c2\<rparr>, v\<lparr>tv_cipher := d1\<rparr>), es1)
      | (Ok w2, c2) \<Rightarrow>
     (case policy_recv A d1 es1 of
        (Err e, d2, es2) \<Rightarrow> (Err e, [w1, w2], (s\<lparr>ts_cipher := c2\<rparr>, v\<lparr>tv_cipher := d2\<rparr>), es2)
      | (Ok answer, d2, es2) \<Rightarrow>
          (if answer = ack then Ok agreement else Err (Protocol ''policy acknowledgement mismatch''),
           [w1, w2], (s\<lparr>ts_cipher := c2\<rparr>, v\<lparr>tv_cipher := d2\<rparr>), es2)))))))))"

text \<open>\<open>g\<close> seeds the encoder.  The result carries the bytes written and the rest of the stream.\<close>

definition establish_with_offer ::
    "aead \<Rightarrow> (bytes \<Rightarrow> bytes) \<Rightarrow> string \<Rightarrow> string \<Rightarrow> envelope_offer \<Rightarrow> duration \<Rightarrow> 'g \<Rightarrow> 'g tcp_session \<Rightarrow> read_event list
      \<Rightarrow> 'g negotiated_tcp result \<times> bytes list \<times> read_event list" where
  "establish_with_offer A sha session_hex transcript offer timeout g x es =
     (if timeout = 0 \<or> 60000000000 < timeout then (Err (Protocol ''policy timeout must be 1ns..60s''), [], es)
      else (case parse_binding session_hex of Err e \<Rightarrow> (Err e, [], es) | Ok authenticated \<Rightarrow>
      let mismatch = (Err (Protocol ''policy offer is not bound to this authenticated session''), [], es) in
      if eo_binding offer \<noteq> authenticated then mismatch
      else (case parse_binding transcript of Err e \<Rightarrow> (Err e, [], es) | Ok claimed \<Rightarrow>
      if eo_binding offer \<noteq> claimed then mismatch
      else (case policy_exchange A sha offer x es of
        (Err e, ws, x', es') \<Rightarrow> (Err e, ws, es')
      | (Ok agreement, ws, (s, v), es') \<Rightarrow>
     (case phantom_one_generation_from_transcript session_hex of Err e \<Rightarrow> (Err e, ws, es') | Ok generation \<Rightarrow>
     (case phantom_encoder_with_config generation g (np_config agreement) of Err e \<Rightarrow> (Err e, ws, es') | Ok encoder \<Rightarrow>
     (case phantom_decoder_with_config_and_window generation (np_config agreement) PHANTOM_ONE_DEFAULT_REPLAY_WINDOW of
        Err e \<Rightarrow> (Err e, ws, es')
      | Ok decoder \<Rightarrow>
     (case cover_new (eo_cover offer) of Err e \<Rightarrow> (Err e, ws, es') | Ok cover \<Rightarrow>
        (Ok \<lparr>nt_sender = s\<lparr>ts_profile := None, ts_padder := None, ts_encoder := None\<rparr>,
           nt_receiver = v\<lparr>tv_profile := None, tv_decoder := None\<rparr>,
           nt_encoder = encoder, nt_decoder = decoder,
           nt_outbound_limit = np_outbound_limit agreement, nt_inbound_limit = np_inbound_limit agreement,
           nt_outbound_budget = np_outbound_budget agreement, nt_inbound_budget = np_inbound_budget agreement,
           nt_sent = usage_default, nt_received = usage_default, nt_cover = cover, nt_cover_policy = eo_cover offer,
           nt_received_cover = 0\<rparr>, ws, es')))))))))"

definition establish_with_cover ::
    "aead \<Rightarrow> (bytes \<Rightarrow> bytes) \<Rightarrow> string \<Rightarrow> string \<Rightarrow> phantom_config \<Rightarrow> usize \<Rightarrow> duration \<Rightarrow> cover_policy option \<Rightarrow> 'g \<Rightarrow> 'g tcp_session
      \<Rightarrow> read_event list \<Rightarrow> 'g negotiated_tcp result \<times> bytes list \<times> read_event list" where
  "establish_with_cover A sha session_hex transcript config frame_limit timeout cover g x es =
     (case offer_new transcript config (min frame_limit MAX_TCP_PAYLOAD_BYTES) of Err e \<Rightarrow> (Err e, [], es) | Ok offer \<Rightarrow>
     (case with_cover offer cover of Err e \<Rightarrow> (Err e, [], es) | Ok offer' \<Rightarrow>
        establish_with_offer A sha session_hex transcript offer' timeout g x es))"

section \<open>Sending and receiving over TCP\<close>

definition phantom_encode_with_target ::
    "'g rng \<Rightarrow> 'g phantom_encoder \<Rightarrow> phantom_frame_type \<Rightarrow> bytes \<Rightarrow> usize \<Rightarrow> usize \<Rightarrow> bytes result \<times> 'g phantom_encoder" where
  "phantom_encode_with_target R e frame_type payload target mtu =
     (case phantom_encode_with_target_into R e frame_type payload target mtu [] of
        (r, envelope, e') \<Rightarrow> (map_ok (\<lambda>_. envelope) r, e'))"

text \<open>Every sending call returns its result, the bytes it wrote, and the session after it.\<close>

definition negotiated_send ::
    "aead \<Rightarrow> 'g rng \<Rightarrow> 'g negotiated_tcp \<Rightarrow> duration \<Rightarrow> bytes \<Rightarrow> (unit result \<times> bytes \<times> 'g negotiated_tcp) option" where
  "negotiated_send A R n now payload =
     (if outbound_exhausted (nt_sent n) (nt_outbound_budget n) (length payload)
        then Some (Err (ResourceExhausted ''negotiated outbound frame budget exhausted''), [], n)
      else (case phantom_encode R (nt_encoder n) Data payload (nt_outbound_limit n) of
        (Err e, en) \<Rightarrow> Some (Err e, [], n\<lparr>nt_encoder := en\<rparr>)
      | (Ok envelope, en) \<Rightarrow>
     (case usage_reserve (nt_sent n) (nt_outbound_budget n) (length payload) of
        (Err e, u) \<Rightarrow> Some (Err e, [], n\<lparr>nt_encoder := en, nt_sent := u\<rparr>)
      | (Ok _, u) \<Rightarrow>
     (case write_encrypted_tcp_frame A R (nt_sender n) envelope of
        None \<Rightarrow> None
      | Some (Err e, s) \<Rightarrow> Some (Err e, [], n\<lparr>nt_encoder := en, nt_sent := u, nt_sender := s\<rparr>)
      | Some (Ok wire, s) \<Rightarrow>
          (case record_payload (nt_cover n) now (length payload) of
             (r, cv) \<Rightarrow> Some (r, wire, n\<lparr>nt_encoder := en, nt_sent := u, nt_sender := s, nt_cover := cv\<rparr>))))))"

definition send_cover_if_due ::
    "aead \<Rightarrow> 'g rng \<Rightarrow> 'g negotiated_tcp \<Rightarrow> duration \<Rightarrow> bool \<Rightarrow> bool \<Rightarrow> bool \<Rightarrow> (bool result \<times> bytes \<times> 'g negotiated_tcp) option" where
  "send_cover_if_due A R n now payload_pending congested cancelled =
     (if max_frames (nt_outbound_budget n) \<le> fu_frames (nt_sent n)
        then Some (Err (ResourceExhausted ''negotiated outbound frame budget exhausted''), [], n)
      else (case phantom_target_size R (nt_encoder n) 1 (nt_outbound_limit n) of
        (Err e, en) \<Rightarrow> Some (Err e, [], n\<lparr>nt_encoder := en\<rparr>)
      | (Ok target, en) \<Rightarrow>
     (case cover_reserve (nt_cover n) now (target + 32) payload_pending congested cancelled of
        (Err e, cv) \<Rightarrow> Some (Err e, [], n\<lparr>nt_encoder := en, nt_cover := cv\<rparr>)
      | (Ok False, cv) \<Rightarrow> Some (Ok False, [], n\<lparr>nt_encoder := en, nt_cover := cv\<rparr>)
      | (Ok True, cv) \<Rightarrow>
     (case usage_reserve (nt_sent n) (nt_outbound_budget n) 0 of
        (Err e, u) \<Rightarrow> Some (Err e, [], n\<lparr>nt_encoder := en, nt_cover := cv, nt_sent := u\<rparr>)
      | (Ok _, u) \<Rightarrow>
     (case phantom_encode_with_target R en Keepalive [0] target (nt_outbound_limit n) of
        (Err e, en') \<Rightarrow> Some (Err e, [], n\<lparr>nt_encoder := en', nt_cover := cv, nt_sent := u\<rparr>)
      | (Ok envelope, en') \<Rightarrow>
     (case write_encrypted_tcp_frame A R (nt_sender n) envelope of
        None \<Rightarrow> None
      | Some (Err e, s) \<Rightarrow> Some (Err e, [], n\<lparr>nt_encoder := en', nt_cover := cv, nt_sent := u, nt_sender := s\<rparr>)
      | Some (Ok wire, s) \<Rightarrow> Some (Ok True, wire, n\<lparr>nt_encoder := en', nt_cover := cv, nt_sent := u, nt_sender := s\<rparr>)))))))"

text \<open>The body of the loop of \<open>recv\<close> after a frame came in: \<open>None\<close> continues with the next frame.\<close>

definition recv_body :: "'g negotiated_tcp \<Rightarrow> bytes \<Rightarrow> bytes result option \<times> 'g negotiated_tcp" where
  "recv_body n envelope =
     (case phantom_decode (nt_decoder n) envelope (nt_inbound_limit n) of
        (Err e, d) \<Rightarrow> (Some (Err e), n\<lparr>nt_decoder := d\<rparr>)
      | (Ok frame, d) \<Rightarrow>
          let n1 = n\<lparr>nt_decoder := d\<rparr> in
          if pf_frame_type frame = Keepalive then
            (case nt_cover_policy n of
               None \<Rightarrow> (Some (Err (Protocol ''cover traffic was not negotiated'')), n1)
             | Some policy \<Rightarrow>
            (case usage_reserve (nt_received n) (nt_inbound_budget n) 0 of
               (Err e, u) \<Rightarrow> (Some (Err e), n1\<lparr>nt_received := u\<rparr>)
             | (Ok _, u) \<Rightarrow>
                 let cover = sat_add u64_max (nt_received_cover n) (length envelope + 32);
                     n2 = n1\<lparr>nt_received := u, nt_received_cover := cover\<rparr> in
                 if pf_payload frame \<noteq> [0] \<or> \<not> cover_budget_allows policy (fu_payload u) cover
                   then (Some (Err (Protocol ''cover traffic exceeds policy'')), n2)
                 else (None, n2)))
          else if pf_frame_type frame \<noteq> Data then (Some (Err (Protocol ''unexpected policy frame type'')), n1)
          else (case usage_reserve (nt_received n) (nt_inbound_budget n) (length (pf_payload frame)) of
                  (Err e, u) \<Rightarrow> (Some (Err e), n1\<lparr>nt_received := u\<rparr>)
                | (Ok _, u) \<Rightarrow> (Some (Ok (pf_payload frame)), n1\<lparr>nt_received := u\<rparr>)))"

fun recv_loop :: "aead \<Rightarrow> nat \<Rightarrow> 'g negotiated_tcp \<Rightarrow> read_event list \<Rightarrow> bytes result \<times> 'g negotiated_tcp \<times> read_event list" where
  "recv_loop A 0 n es = (Err (ResourceExhausted ''too many consecutive cover frames''), n, es)"
| "recv_loop A (Suc k) n es =
     (case read_encrypted_tcp_frame A (nt_receiver n) es of
        (Err e, v, es') \<Rightarrow> (Err e, n\<lparr>nt_receiver := v\<rparr>, es')
      | (Ok envelope, v, es') \<Rightarrow>
          (case recv_body (n\<lparr>nt_receiver := v\<rparr>) envelope of
             (Some r, n') \<Rightarrow> (r, n', es')
           | (None, n') \<Rightarrow> recv_loop A k n' es'))"

definition negotiated_recv :: "aead \<Rightarrow> 'g negotiated_tcp \<Rightarrow> read_event list \<Rightarrow> bytes result \<times> 'g negotiated_tcp \<times> read_event list" where
  "negotiated_recv A n es = recv_loop A 32 n es"

section \<open>QUIC\<close>

text \<open>\<open>NegotiatedQuic\<close>.  The connection is outside: its datagram size, the results of its sends and the datagrams it hands over are
  arguments.\<close>

definition SHPH_AEAD_OVERHEAD_BYTES :: usize where "SHPH_AEAD_OVERHEAD_BYTES = 12 + 16"

record 'g negotiated_quic =
  nq_encoder :: "'g phantom_encoder"
  nq_decoder :: phantom_decoder
  nq_send_cipher :: send_cipher
  nq_recv_cipher :: receive_cipher
  nq_outbound_limit :: usize
  nq_inbound_limit :: usize
  nq_outbound_budget :: frame_budget
  nq_inbound_budget :: frame_budget
  nq_sent :: frame_usage
  nq_received :: frame_usage
  nq_cover :: cover_scheduler
  nq_cover_policy :: "cover_policy option"
  nq_received_cover :: u64

definition current_frame_limit :: "usize option \<Rightarrow> usize \<Rightarrow> usize result" where
  "current_frame_limit max_datagram negotiated =
     (case Option.bind max_datagram (\<lambda>d. checked_sub d SHPH_AEAD_OVERHEAD_BYTES) of
        Some current \<Rightarrow> Ok (min current negotiated)
      | None \<Rightarrow> Err (Protocol ''no usable QUIC datagram budget''))"

text \<open>The exchange inside the time-out: each step of the control stream gives its result, or nothing when the time runs out in it.\<close>

record control_steps =
  ct_send_offer :: "unit result option"
  ct_recv_offer :: "bytes result option"
  ct_send_ack :: "unit result option"
  ct_recv_ack :: "bytes result option"

definition quic_exchange :: "(bytes \<Rightarrow> bytes) \<Rightarrow> envelope_offer \<Rightarrow> control_steps \<Rightarrow> negotiated_policy result option" where
  "quic_exchange sha offer ct =
     (case ct_send_offer ct of None \<Rightarrow> None | Some (Err e) \<Rightarrow> Some (Err e) | Some (Ok _) \<Rightarrow>
     (case ct_recv_offer ct of None \<Rightarrow> None | Some (Err e) \<Rightarrow> Some (Err e) | Some (Ok peer_bytes) \<Rightarrow>
     (case offer_decode peer_bytes of Err e \<Rightarrow> Some (Err e) | Ok peer \<Rightarrow>
     (case negotiate offer peer of Err e \<Rightarrow> Some (Err e) | Ok agreement \<Rightarrow>
     (case acknowledgement sha offer peer of Err e \<Rightarrow> Some (Err e) | Ok ack \<Rightarrow>
     (case ct_send_ack ct of None \<Rightarrow> None | Some (Err e) \<Rightarrow> Some (Err e) | Some (Ok _) \<Rightarrow>
     (case ct_recv_ack ct of None \<Rightarrow> None | Some (Err e) \<Rightarrow> Some (Err e) | Some (Ok answer) \<Rightarrow>
        if answer = ack then Some (Ok agreement) else Some (Err (Protocol ''policy acknowledgement mismatch'')))))))))"

definition quic_establish ::
    "(bytes \<Rightarrow> bytes) \<Rightarrow> string \<Rightarrow> bytes \<Rightarrow> bytes \<Rightarrow> bool \<Rightarrow> usize option \<Rightarrow> envelope_offer \<Rightarrow> duration \<Rightarrow> control_steps \<Rightarrow> 'g
      \<Rightarrow> 'g negotiated_quic result" where
  "quic_establish sha transcript_hex send_with recv_with enabled max_datagram offer timeout ct g =
     (let rejected = Err (Protocol ''policy exchange must be session-bound, precede data-plane enablement, and use a bounded timeout'') in
      if enabled \<or> timeout = 0 \<or> 60000000000 < timeout then rejected
      else (case parse_binding transcript_hex of Err e \<Rightarrow> Err e | Ok binding \<Rightarrow>
      if eo_binding offer \<noteq> binding then rejected
      else (case Option.bind max_datagram (\<lambda>d. checked_sub d SHPH_AEAD_OVERHEAD_BYTES) of
        None \<Rightarrow> Err (Protocol ''no usable QUIC datagram budget'')
      | Some carrier \<Rightarrow>
     (case with_directional_limits offer (min (eo_outbound_limit offer) carrier) (min (eo_inbound_limit offer) carrier) of
        Err e \<Rightarrow> Err e
      | Ok offer' \<Rightarrow>
     (case quic_exchange sha offer' ct of
        None \<Rightarrow> Err Timeout
      | Some (Err e) \<Rightarrow> Err e
      | Some (Ok agreement) \<Rightarrow>
     (case phantom_one_generation_from_transcript transcript_hex of Err e \<Rightarrow> Err e | Ok generation \<Rightarrow>
     (case phantom_encoder_with_config generation g (np_config agreement) of Err e \<Rightarrow> Err e | Ok encoder \<Rightarrow>
     (case phantom_decoder_with_config_and_window generation (np_config agreement) PHANTOM_ONE_DEFAULT_REPLAY_WINDOW of
        Err e \<Rightarrow> Err e
      | Ok decoder \<Rightarrow>
     (case cover_new (eo_cover offer') of Err e \<Rightarrow> Err e | Ok cover \<Rightarrow>
        Ok \<lparr>nq_encoder = encoder, nq_decoder = decoder, nq_send_cipher = send_cipher_new send_with,
          nq_recv_cipher = receive_cipher_new_with_replay_window recv_with 64,
          nq_outbound_limit = np_outbound_limit agreement, nq_inbound_limit = np_inbound_limit agreement,
          nq_outbound_budget = np_outbound_budget agreement, nq_inbound_budget = np_inbound_budget agreement,
          nq_sent = usage_default, nq_received = usage_default, nq_cover = cover, nq_cover_policy = eo_cover offer',
          nq_received_cover = 0\<rparr>)))))))))"

text \<open>\<open>transmit\<close> is \<open>send_datagram_wait\<close> of the connection.\<close>

definition quic_send ::
    "aead \<Rightarrow> 'g rng \<Rightarrow> usize option \<Rightarrow> (bytes \<Rightarrow> unit result) \<Rightarrow> 'g negotiated_quic \<Rightarrow> duration \<Rightarrow> bytes \<Rightarrow> unit result \<times> 'g negotiated_quic" where
  "quic_send A R max_datagram transmit n now payload =
     (if outbound_exhausted (nq_sent n) (nq_outbound_budget n) (length payload)
        then (Err (ResourceExhausted ''negotiated outbound frame budget exhausted''), n)
      else (case current_frame_limit max_datagram (nq_outbound_limit n) of Err e \<Rightarrow> (Err e, n) | Ok limit \<Rightarrow>
     (case phantom_encode R (nq_encoder n) Data payload limit of
        (Err e, en) \<Rightarrow> (Err e, n\<lparr>nq_encoder := en\<rparr>)
      | (Ok envelope, en) \<Rightarrow>
     (case usage_reserve (nq_sent n) (nq_outbound_budget n) (length payload) of
        (Err e, u) \<Rightarrow> (Err e, n\<lparr>nq_encoder := en, nq_sent := u\<rparr>)
      | (Ok _, u) \<Rightarrow>
     (case encrypt A (nq_send_cipher n) envelope of
        (Err e, c) \<Rightarrow> (Err e, n\<lparr>nq_encoder := en, nq_sent := u, nq_send_cipher := c\<rparr>)
      | (Ok ciphertext, c) \<Rightarrow>
     (case transmit ciphertext of
        Err e \<Rightarrow> (Err e, n\<lparr>nq_encoder := en, nq_sent := u, nq_send_cipher := c\<rparr>)
      | Ok _ \<Rightarrow>
          (case record_payload (nq_cover n) now (length payload) of
             (r, cv) \<Rightarrow> (r, n\<lparr>nq_encoder := en, nq_sent := u, nq_send_cipher := c, nq_cover := cv\<rparr>))))))))"

definition quic_send_cover_if_due ::
    "aead \<Rightarrow> 'g rng \<Rightarrow> usize option \<Rightarrow> (bytes \<Rightarrow> unit result) \<Rightarrow> 'g negotiated_quic \<Rightarrow> duration \<Rightarrow> bool \<Rightarrow> bool \<Rightarrow> bool
      \<Rightarrow> bool result \<times> 'g negotiated_quic" where
  "quic_send_cover_if_due A R max_datagram transmit n now payload_pending congested cancelled =
     (if max_frames (nq_outbound_budget n) \<le> fu_frames (nq_sent n)
        then (Err (ResourceExhausted ''negotiated outbound frame budget exhausted''), n)
      else (case current_frame_limit max_datagram (nq_outbound_limit n) of Err e \<Rightarrow> (Err e, n) | Ok limit \<Rightarrow>
     (case phantom_target_size R (nq_encoder n) 1 limit of
        (Err e, en) \<Rightarrow> (Err e, n\<lparr>nq_encoder := en\<rparr>)
      | (Ok target, en) \<Rightarrow>
     (case cover_reserve (nq_cover n) now (target + SHPH_AEAD_OVERHEAD_BYTES) payload_pending congested cancelled of
        (Err e, cv) \<Rightarrow> (Err e, n\<lparr>nq_encoder := en, nq_cover := cv\<rparr>)
      | (Ok False, cv) \<Rightarrow> (Ok False, n\<lparr>nq_encoder := en, nq_cover := cv\<rparr>)
      | (Ok True, cv) \<Rightarrow>
     (case phantom_encode_with_target R en Keepalive [0] target limit of
        (Err e, en') \<Rightarrow> (Err e, n\<lparr>nq_encoder := en', nq_cover := cv\<rparr>)
      | (Ok envelope, en') \<Rightarrow>
     (case usage_reserve (nq_sent n) (nq_outbound_budget n) 0 of
        (Err e, u) \<Rightarrow> (Err e, n\<lparr>nq_encoder := en', nq_cover := cv, nq_sent := u\<rparr>)
      | (Ok _, u) \<Rightarrow>
     (case encrypt A (nq_send_cipher n) envelope of
        (Err e, c) \<Rightarrow> (Err e, n\<lparr>nq_encoder := en', nq_cover := cv, nq_sent := u, nq_send_cipher := c\<rparr>)
      | (Ok ciphertext, c) \<Rightarrow>
          (map_ok (\<lambda>_. True) (transmit ciphertext), n\<lparr>nq_encoder := en', nq_cover := cv, nq_sent := u, nq_send_cipher := c\<rparr>))))))))"

text \<open>What the connection gives \<open>recv\<close>: the result of \<open>recv_datagram\<close> and the datagram size after it.\<close>

type_synonym quic_event = "bytes result \<times> usize option"

definition quic_recv_body :: "aead \<Rightarrow> 'g negotiated_quic \<Rightarrow> quic_event \<Rightarrow> bytes result option \<times> 'g negotiated_quic" where
  "quic_recv_body A n ev =
     (case fst ev of Err e \<Rightarrow> (Some (Err e), n) | Ok ciphertext \<Rightarrow>
     (case current_frame_limit (snd ev) (nq_inbound_limit n) of Err e \<Rightarrow> (Some (Err e), n) | Ok limit \<Rightarrow>
      if limit + SHPH_AEAD_OVERHEAD_BYTES < length ciphertext
        then (Some (Err (Protocol ''received datagram exceeds agreed policy'')), n)
      else (case decrypt A (nq_recv_cipher n) ciphertext of
        (Err e, c) \<Rightarrow> (Some (Err e), n\<lparr>nq_recv_cipher := c\<rparr>)
      | (Ok envelope, c) \<Rightarrow>
     (case phantom_decode (nq_decoder n) envelope limit of
        (Err e, d) \<Rightarrow> (Some (Err e), n\<lparr>nq_recv_cipher := c, nq_decoder := d\<rparr>)
      | (Ok frame, d) \<Rightarrow>
          let n1 = n\<lparr>nq_recv_cipher := c, nq_decoder := d\<rparr> in
          if pf_frame_type frame = Keepalive then
            (case nq_cover_policy n of
               None \<Rightarrow> (Some (Err (Protocol ''cover traffic was not negotiated'')), n1)
             | Some policy \<Rightarrow>
               if pf_payload frame \<noteq> [0] then (Some (Err (Protocol ''cover traffic exceeds policy'')), n1)
               else (case received_cover_reserve (nq_received_cover n) policy (length ciphertext) of
                  (Err e, used) \<Rightarrow> (Some (Err e), n1\<lparr>nq_received_cover := used\<rparr>)
                | (Ok _, used) \<Rightarrow>
                    (case usage_reserve (nq_received n) (nq_inbound_budget n) 0 of
                       (Err e, u) \<Rightarrow> (Some (Err e), n1\<lparr>nq_received_cover := used, nq_received := u\<rparr>)
                     | (Ok _, u) \<Rightarrow> (None, n1\<lparr>nq_received_cover := used, nq_received := u\<rparr>))))
          else if pf_frame_type frame \<noteq> Data then (Some (Err (Protocol ''unexpected policy frame type'')), n1)
          else (case checked_add u64_max (fu_payload (nq_received n)) (length (pf_payload frame)) of
               None \<Rightarrow> (Some (Err (Protocol ''received payload byte counter overflow'')), n1)
             | Some next_payload \<Rightarrow>
            (case (case nq_cover_policy n of None \<Rightarrow> Ok () | Some policy \<Rightarrow> received_cover_validate (nq_received_cover n) policy next_payload) of
               Err e \<Rightarrow> (Some (Err e), n1)
             | Ok _ \<Rightarrow>
               (case usage_reserve (nq_received n) (nq_inbound_budget n) (length (pf_payload frame)) of
                  (Err e, u) \<Rightarrow> (Some (Err e), n1\<lparr>nq_received := u\<rparr>)
                | (Ok _, u) \<Rightarrow> (Some (Ok (pf_payload frame)), n1\<lparr>nq_received := u\<rparr>))))))))"

text \<open>\<open>None\<close>: the call is still waiting for a datagram.\<close>

fun quic_recv_loop :: "aead \<Rightarrow> nat \<Rightarrow> 'g negotiated_quic \<Rightarrow> quic_event list \<Rightarrow> (bytes result \<times> 'g negotiated_quic \<times> quic_event list) option" where
  "quic_recv_loop A 0 n evs = Some (Err (ResourceExhausted ''too many consecutive cover frames''), n, evs)"
| "quic_recv_loop A (Suc k) n [] = None"
| "quic_recv_loop A (Suc k) n (ev # evs) =
     (case quic_recv_body A n ev of
        (Some r, n') \<Rightarrow> Some (r, n', evs)
      | (None, n') \<Rightarrow> quic_recv_loop A k n' evs)"

definition quic_recv :: "aead \<Rightarrow> 'g negotiated_quic \<Rightarrow> quic_event list \<Rightarrow> (bytes result \<times> 'g negotiated_quic \<times> quic_event list) option" where
  "quic_recv A n evs = quic_recv_loop A 32 n evs"

fun quic_recv_calls :: "aead \<Rightarrow> nat \<Rightarrow> 'g negotiated_quic \<Rightarrow> quic_event list \<Rightarrow> bytes result list" where
  "quic_recv_calls A 0 n evs = []"
| "quic_recv_calls A (Suc k) n evs =
     (case quic_recv A n evs of None \<Rightarrow> [] | Some (r, n', evs') \<Rightarrow> r # quic_recv_calls A k n' evs')"

section \<open>Budgets\<close>

definition within_budget :: "frame_usage \<Rightarrow> frame_budget \<Rightarrow> bool" where
  "within_budget u b \<longleftrightarrow> fu_frames u \<le> max_frames b \<and> fu_payload u \<le> max_payload b"

lemma usage_reserve_cases:
  assumes "usage_reserve u b n = (r, u')"
  obtains (granted) "r = Ok ()" "u' = \<lparr>fu_frames = fu_frames u + 1, fu_payload = fu_payload u + n\<rparr>" "within_budget u' b"
  | (refused) e where "r = Err e" "u' = u"
  using assms by (auto simp: usage_reserve_def within_budget_def checked_add_def split: if_splits)

lemma usage_reserve_Ok:
  "fu_frames u + 1 \<le> max_frames b \<Longrightarrow> fu_payload u + n \<le> max_payload b \<Longrightarrow> max_frames b \<le> u64_max \<Longrightarrow> max_payload b \<le> u64_max \<Longrightarrow>
     usage_reserve u b n = (Ok (), \<lparr>fu_frames = fu_frames u + 1, fu_payload = fu_payload u + n\<rparr>)"
  by (simp add: usage_reserve_def checked_add_def)

lemma decoded_payload_fits:
  assumes "phantom_decode d b mtu = (Ok f, d')"
  shows "24 + length (pf_payload f) \<le> mtu" "24 + length (pf_payload f) \<le> length b"
proof -
  obtain parts where parts: "decode_parts b (pd_generation d) mtu (pd_config d) = Ok parts" and f: "f = to_frame parts b"
    using assms by (auto simp: phantom_decode_def split: result.splits prod.splits)
  obtain ft sq pl pad where w: "po_legal (pd_config d) (pd_generation d) mtu (ft, sq, pl) pad"
      "b = po_wire (pc_profile (pd_config d)) (pd_generation d) (ft, sq, pl) pad" "parts = po_parts (pd_config d) (pd_generation d) (ft, sq, pl) pad"
    using decode_parts_only [OF parts] by blast
  have "pf_payload f = pl" using po_message_wire [of "pd_config d" "pd_generation d" ft sq pl pad "pc_profile (pd_config d)"] w f
    by (simp add: po_message_def)
  then show "24 + length (pf_payload f) \<le> mtu" "24 + length (pf_payload f) \<le> length b"
    using w by (simp_all add: po_legal_def po_wire_fields PHANTOM_ONE_HEADER_BYTES_def)
qed

section \<open>Starvation over QUIC\<close>

text \<open>More cover traffic was accepted than any further frame can make room for.\<close>

definition starved :: "cover_policy \<Rightarrow> 'g negotiated_quic \<Rightarrow> bool" where
  "starved p n \<longleftrightarrow> nq_cover_policy n = Some p
     \<and> (fu_payload (nq_received n) + nq_inbound_limit n) * overhead_percent p div 100 < nq_received_cover n"

lemma received_cover_grows: "received_cover_reserve used p n = (r, used') \<Longrightarrow> used \<le> used'"
  by (auto simp: received_cover_reserve_def checked_add_def split: if_splits)

lemma starved_step:
  assumes st: "starved p n" and step: "quic_recv_body A n ev = (r, n')"
  shows "starved p n' \<and> (\<forall>x. r \<noteq> Some (Ok x))"
proof (cases "\<exists>ct limit env c frame d. fst ev = Ok ct \<and> current_frame_limit (snd ev) (nq_inbound_limit n) = Ok limit
    \<and> decrypt A (nq_recv_cipher n) ct = (Ok env, c) \<and> phantom_decode (nq_decoder n) env limit = (Ok frame, d)
    \<and> pf_frame_type frame = Data \<and> \<not> limit + SHPH_AEAD_OVERHEAD_BYTES < length ct")
  case True
  then obtain ct limit env c frame d where h: "fst ev = Ok ct" "current_frame_limit (snd ev) (nq_inbound_limit n) = Ok limit"
    "decrypt A (nq_recv_cipher n) ct = (Ok env, c)" "phantom_decode (nq_decoder n) env limit = (Ok frame, d)"
    "pf_frame_type frame = Data" "\<not> limit + SHPH_AEAD_OVERHEAD_BYTES < length ct" by blast
  have "length (pf_payload frame) \<le> nq_inbound_limit n"
    using decoded_payload_fits(1) [OF h(4)] h(2) by (auto simp: current_frame_limit_def split: option.splits)
  then have "(fu_payload (nq_received n) + length (pf_payload frame)) * overhead_percent p div 100
      \<le> (fu_payload (nq_received n) + nq_inbound_limit n) * overhead_percent p div 100" by (intro div_le_mono mult_le_mono1) simp
  then have "\<not> cover_budget_allows p (fu_payload (nq_received n) + length (pf_payload frame)) (nq_received_cover n)"
    using st by (auto simp: starved_def cover_budget_allows_def)
  then show ?thesis using st step h
    by (auto simp: quic_recv_body_def Let_def starved_def received_cover_validate_def checked_add_def split: if_splits)
next
  case False
  then show ?thesis using st step
    by (auto simp: quic_recv_body_def Let_def starved_def dest!: received_cover_grows elim!: usage_reserve_cases
        split: result.splits prod.splits option.splits if_splits)
qed

lemma starved_loop: "starved p n \<Longrightarrow> quic_recv_loop A k n evs = Some (r, n', evs') \<Longrightarrow> starved p n' \<and> (\<forall>x. r \<noteq> Ok x)"
proof (induction A k n evs rule: quic_recv_loop.induct)
  case (3 A k n ev evs)
  obtain q m where step: "quic_recv_body A n ev = (q, m)" by fastforce
  show ?case using starved_step [OF 3(2) step] 3 step by (cases q) auto
qed auto

lemma starved_calls: "starved p n \<Longrightarrow> ok_values (quic_recv_calls A k n evs) = []"
proof (induction k arbitrary: n evs)
  case (Suc k)
  show ?case
  proof (cases "quic_recv A n evs")
    case (Some x)
    then obtain r n' evs' where x: "quic_recv A n evs = Some (r, n', evs')" by (metis prod.exhaust)
    then have "starved p n'" "\<forall>y. r \<noteq> Ok y" using starved_loop [OF Suc.prems] by (auto simp: quic_recv_def)
    then show ?thesis using Suc.IH x by (cases r) auto
  qed simp
qed simp

section \<open>Two ends of a negotiated session\<close>

datatype tcp_op = Op_Send duration bytes | Op_Cover duration bool bool bool

datatype sent = Sent_Data bytes bytes | Sent_Cover bytes | Sent_Nothing

fun negotiated_op :: "aead \<Rightarrow> 'g rng \<Rightarrow> 'g negotiated_tcp \<Rightarrow> tcp_op \<Rightarrow> (sent \<times> 'g negotiated_tcp) option" where
  "negotiated_op A R n (Op_Send now payload) =
     map_option (\<lambda>(r, w, n'). (if w = [] then Sent_Nothing else Sent_Data payload w, n')) (negotiated_send A R n now payload)"
| "negotiated_op A R n (Op_Cover now pend cong canc) =
     map_option (\<lambda>(r, w, n'). (if w = [] then Sent_Nothing else Sent_Cover w, n')) (send_cover_if_due A R n now pend cong canc)"

fun negotiated_run :: "aead \<Rightarrow> 'g rng \<Rightarrow> 'g negotiated_tcp \<Rightarrow> tcp_op list \<Rightarrow> (sent list \<times> 'g negotiated_tcp) option" where
  "negotiated_run A R n [] = Some ([], n)"
| "negotiated_run A R n (x # xs) =
     (case negotiated_op A R n x of
        None \<Rightarrow> None
      | Some (out, n1) \<Rightarrow> (case negotiated_run A R n1 xs of None \<Rightarrow> None | Some (outs, n2) \<Rightarrow> Some (out # outs, n2)))"

text \<open>The receiver follows the sender: the same envelope and cipher state, the same payload counted, and no more cover
  traffic than the sender's scheduler reserved; \<open>k\<close> operations can follow before a counter runs out.\<close>

definition linked :: "nat \<Rightarrow> 'g negotiated_tcp \<Rightarrow> 'g negotiated_tcp \<Rightarrow> bool" where
  "linked k n m \<longleftrightarrow> plain_synced 0 (nt_sender n) (nt_receiver m) \<and> ciphers_synced (nt_sender n) (nt_receiver m)
     \<and> snonce (ts_cipher (nt_sender n)) + k \<le> AEAD_NONCE_LIMIT
     \<and> (\<exists>sq. in_step (nt_encoder n) (nt_decoder m) sq \<and> sq + k \<le> u64_max)
     \<and> em_padding_bytes (pe_metrics (nt_encoder n)) + 4096 * k \<le> u64_max
     \<and> nt_inbound_limit m = nt_outbound_limit n \<and> nt_outbound_limit n \<le> MAX_TCP_PAYLOAD_BYTES
     \<and> nt_inbound_budget m = nt_outbound_budget n \<and> budget_validate (nt_outbound_budget n) = Ok ()
     \<and> fu_payload (nt_received m) = fu_payload (nt_sent n) \<and> fu_frames (nt_received m) \<le> fu_frames (nt_sent n)
     \<and> cover_inv (nt_cover_policy m) (nt_cover n)
     \<and> nt_received_cover m \<le> cover_bytes (nt_cover n) \<and> cs_payload_bytes (nt_cover n) \<le> fu_payload (nt_received m)"

lemma plain_write:
  assumes A: "aead_ok A" "aead_sized A" "aead_total A" and sy: "plain_synced 0 s v" "ciphers_synced s v"
    and x: "length x \<le> MAX_TCP_PAYLOAD_BYTES" and nonce: "snonce (ts_cipher s) < AEAD_NONCE_LIMIT"
  obtains f s' v' where "write_encrypted_tcp_frame A R s x = Some (Ok (wire_frame f), s')" "frame_fits f"
    "open_tcp A v f = (Ok x, v')" "plain_synced 0 s' v'" "ciphers_synced s' v'" "snonce (ts_cipher s') = snonce (ts_cipher s) + 1"
proof -
  obtain f c where e: "encrypt A (ts_cipher s) x = (Ok f, c)" and len: "length f = length x + 28"
    using encrypt_total [OF A(2,3), of "ts_cipher s" x] sy(2) nonce by (auto simp: ciphers_synced_def)
  have fits: "frame_fits f" using len x by (simp add: frame_fits_def MAX_TCP_PAYLOAD_BYTES_def SHROUD_AEAD_OVERHEAD_def MAX_FRAME_BYTES_def)
  obtain c' where c': "decrypt A (tv_cipher v) f = (Ok x, c')" "ciphers_synced (s\<lparr>ts_cipher := c\<rparr>) (v\<lparr>tv_cipher := c', tv_decoder := None\<rparr>)"
    using ciphers_synced_step [OF A(1) sy(2) e] by blast
  have "write_encrypted_tcp_frame A R s x = Some (Ok (wire_frame f), s\<lparr>ts_cipher := c\<rparr>)"
    using x e fits sy(1) by (auto simp: write_encrypted_tcp_frame_def validate_tcp_payload_def frame_payload_def plain_synced_def
        wire_frame_def frame_fits_def MAX_FRAME_BYTES_def u32_max_def)
  moreover have "open_tcp A v f = (Ok x, v\<lparr>tv_cipher := c', tv_decoder := None\<rparr>)"
    using c' sy(1) by (simp add: open_tcp_def unframe_def remove_padding_def plain_synced_def)
  moreover have "plain_synced 0 (s\<lparr>ts_cipher := c\<rparr>) (v\<lparr>tv_cipher := c', tv_decoder := None\<rparr>)"
    using sy(1) by (simp add: plain_synced_def)
  ultimately show thesis using c'(2) fits encrypt_Ok(4) [OF e] by (intro that) auto
qed

lemma wire_frame_nonempty [simp]: "wire_frame f \<noteq> []"
  using length_wire_frame [of f] by (metis length_0_conv add_is_0 zero_neq_numeral)

lemma phantom_target_size_keeps: "rng_ok R \<Longrightarrow> phantom_target_size R e n mtu = (r, e') \<Longrightarrow> \<exists>g. e' = e\<lparr>pe_rng := g\<rparr>"
  using phantom_target_size_ok phantom_target_size_Err by (metis result.exhaust)

lemma linked_rng: "linked k n m \<Longrightarrow> linked k (n\<lparr>nt_encoder := nt_encoder n\<lparr>pe_rng := g\<rparr>\<rparr>) m"
  by (simp add: linked_def)

lemma linked_less: "linked (Suc k) n m \<Longrightarrow> linked k n m"
  unfolding linked_def by (fastforce intro: add_leD1)

text \<open>One frame on the wire takes the receiver through one round of the loop of \<open>recv\<close>.\<close>

definition takes :: "aead \<Rightarrow> 'g negotiated_tcp \<Rightarrow> bytes \<Rightarrow> bytes result option \<Rightarrow> 'g negotiated_tcp \<Rightarrow> bool" where
  "takes A m w r m' \<longleftrightarrow> (\<exists>f env v. w = wire_frame f \<and> frame_fits f \<and> open_tcp A (nt_receiver m) f = (Ok env, v)
     \<and> recv_body (m\<lparr>nt_receiver := v\<rparr>) env = (r, m'))"

definition advances :: "aead \<Rightarrow> nat \<Rightarrow> 'g negotiated_tcp \<Rightarrow> sent \<Rightarrow> 'g negotiated_tcp \<Rightarrow> bool" where
  "advances A k m out n \<longleftrightarrow>
     (case out of
        Sent_Nothing \<Rightarrow> linked k n m
      | Sent_Data payload w \<Rightarrow> \<exists>m'. takes A m w (Some (Ok payload)) m' \<and> linked k n m'
      | Sent_Cover w \<Rightarrow> \<exists>m'. takes A m w None m' \<and> linked k n m')"

lemma budget_range: "budget_validate b = Ok () \<Longrightarrow> max_frames b \<le> u64_max \<and> max_payload b \<le> u64_max"
  by (auto simp: budget_validate_def MAX_FRAME_BUDGET_def MAX_PAYLOAD_BUDGET_def u64_max_def split: if_splits)

lemma record_payload_bounds:
  "record_payload s now n = (r, s') \<Longrightarrow> cover_bytes s' = cover_bytes s \<and> cs_payload_bytes s' \<le> cs_payload_bytes s + n"
  by (auto simp: record_payload_def cover_observe_def sat_add_def split: if_splits)

lemma send_advances:
  assumes A: "aead_ok A" "aead_sized A" "aead_total A" and R: "rng_ok R" and l: "linked (Suc k) n m"
  shows "\<exists>out n'. negotiated_op A R n (Op_Send now pl) = Some (out, n') \<and> advances A k m out n'"
proof (cases "outbound_exhausted (nt_sent n) (nt_outbound_budget n) (length pl)")
  case True
  then show ?thesis using linked_less [OF l] by (simp add: negotiated_send_def advances_def)
next
  case False
  have st: "plain_synced 0 (nt_sender n) (nt_receiver m)" "ciphers_synced (nt_sender n) (nt_receiver m)"
      "snonce (ts_cipher (nt_sender n)) + Suc k \<le> AEAD_NONCE_LIMIT"
      "em_padding_bytes (pe_metrics (nt_encoder n)) + 4096 * Suc k \<le> u64_max"
      "nt_inbound_limit m = nt_outbound_limit n" "nt_outbound_limit n \<le> MAX_TCP_PAYLOAD_BYTES"
      "nt_inbound_budget m = nt_outbound_budget n" "budget_validate (nt_outbound_budget n) = Ok ()"
      "fu_payload (nt_received m) = fu_payload (nt_sent n)" "fu_frames (nt_received m) \<le> fu_frames (nt_sent n)"
      "cover_inv (nt_cover_policy m) (nt_cover n)" "nt_received_cover m \<le> cover_bytes (nt_cover n)"
      "cs_payload_bytes (nt_cover n) \<le> fu_payload (nt_received m)" using l by (simp_all add: linked_def)
  obtain sq where sq: "in_step (nt_encoder n) (nt_decoder m) sq" "sq + Suc k \<le> u64_max" using l by (auto simp: linked_def)
  obtain r en where enc: "phantom_encode R (nt_encoder n) Data pl (nt_outbound_limit n) = (r, en)" by fastforce
  show ?thesis
  proof (cases r)
    case (Err e)
    then obtain g where "en = nt_encoder n\<lparr>pe_rng := g\<rparr>" using phantom_encode_Err [OF R] enc by blast
    then show ?thesis using False enc Err linked_rng [OF linked_less [OF l], of g] by (simp add: negotiated_send_def advances_def)
  next
    case (Ok env)
    have sqs: "sq < u64_max" "em_padding_bytes (pe_metrics (nt_encoder n)) + 4096 \<le> u64_max" using sq st(4) by simp_all
    note enc' = enc [unfolded Ok]
    obtain fr d' where d': "phantom_decode (nt_decoder m) env (nt_outbound_limit n) = (Ok fr, d')" "po_message fr = (Data, sq, pl)"
      "in_step en d' (sq + 1)" "em_padding_bytes (pe_metrics en) \<le> em_padding_bytes (pe_metrics (nt_encoder n)) + 4096"
      by (rule in_step_encode [OF R sq(1) sqs enc']) blast
    have env: "length env \<le> MAX_TCP_PAYLOAD_BYTES"
      using phantom_encode_fits [OF R _ enc'] sq(1) st(6) by (auto simp: in_step_def)
    have nonce: "snonce (ts_cipher (nt_sender n)) < AEAD_NONCE_LIMIT" using st(3) by simp
    obtain f s' v' where w: "write_encrypted_tcp_frame A R (nt_sender n) env = Some (Ok (wire_frame f), s')" "frame_fits f"
      "open_tcp A (nt_receiver m) f = (Ok env, v')" "plain_synced 0 s' v'" "ciphers_synced s' v'"
      "snonce (ts_cipher s') = snonce (ts_cipher (nt_sender n)) + 1" by (rule plain_write [OF A st(1,2) env nonce])
    have room: "fu_frames (nt_sent n) + 1 \<le> max_frames (nt_outbound_budget n)" "fu_payload (nt_sent n) + length pl \<le> max_payload (nt_outbound_budget n)"
      using False by (auto simp: outbound_exhausted_def checked_add_def split: if_splits)
    note rng = budget_range [OF st(8)]
    have us: "usage_reserve (nt_sent n) (nt_outbound_budget n) (length pl) = (Ok (), \<lparr>fu_frames = fu_frames (nt_sent n) + 1, fu_payload = fu_payload (nt_sent n) + length pl\<rparr>)"
      using room rng by (intro usage_reserve_Ok) auto
    have ur: "usage_reserve (nt_received m) (nt_inbound_budget m) (length pl)
        = (Ok (), \<lparr>fu_frames = fu_frames (nt_received m) + 1, fu_payload = fu_payload (nt_received m) + length pl\<rparr>)"
      using room rng st(7,9,10) by (intro usage_reserve_Ok) auto
    obtain r' cv where cv: "record_payload (nt_cover n) now (length pl) = (r', cv)" by fastforce
    define m' where "m' = m\<lparr>nt_receiver := v', nt_decoder := d',
      nt_received := \<lparr>fu_frames = fu_frames (nt_received m) + 1, fu_payload = fu_payload (nt_received m) + length pl\<rparr>\<rparr>"
    define n' where "n' = n\<lparr>nt_encoder := en, nt_sent := \<lparr>fu_frames = fu_frames (nt_sent n) + 1, fu_payload = fu_payload (nt_sent n) + length pl\<rparr>,
      nt_sender := s', nt_cover := cv\<rparr>"
    have fr: "pf_frame_type fr = Data" "pf_payload fr = pl" using d'(2) by (auto simp: po_message_def)
    have "recv_body (m\<lparr>nt_receiver := v'\<rparr>) env = (Some (Ok pl), m')"
      using d'(1) fr ur st(5) by (simp add: recv_body_def m'_def)
    then have "takes A m (wire_frame f) (Some (Ok pl)) m'" using w by (auto simp: takes_def)
    moreover have "cover_inv (nt_cover_policy m) cv" using record_payload_inv [OF st(11), of now "length pl"] cv by simp
    then have "linked k n' m'"
      using w d' st sq(2) record_payload_bounds [OF cv] by (auto simp: linked_def n'_def m'_def intro!: exI [of _ "sq + 1"])
    ultimately show ?thesis using False enc Ok us w(1) cv by (auto simp: negotiated_send_def advances_def n'_def)
  qed
qed

lemma cover_reserve_payload: "cover_reserve s now n pend cong canc = (r, s') \<Longrightarrow> cs_payload_bytes s' = cs_payload_bytes s"
  by (auto simp: cover_reserve_def cover_observe_def Let_def split: if_splits option.splits)

lemma in_step_encode_with_target:
  assumes R: "rng_ok R" and st: "in_step e d sq" and sq: "sq < u64_max" and pb: "em_padding_bytes (pe_metrics e) + 4096 \<le> u64_max"
    and enc: "phantom_encode_with_target R e ft pl target mtu = (Ok b, e')"
  obtains f d' where "phantom_decode d b mtu = (Ok f, d')" "po_message f = (ft, sq, pl)" "in_step e' d' (sq + 1)"
    "em_padding_bytes (pe_metrics e') \<le> em_padding_bytes (pe_metrics e) + 4096" "length b = target" "length b \<le> mtu"
proof -
  have inv: "pe_inv e" and q: "pe_next_sequence e = Some sq" using st by (simp_all add: in_step_def)
  have "phantom_encode_with_target_into R e ft pl target mtu [] = (Ok (), b, e')"
    using enc by (auto simp: phantom_encode_with_target_def split: prod.splits)
  from encode_with_target_wire [OF R inv this] q obtain pad g where w: "target = 24 + length pl + length pad"
    "b = po_wire (pc_profile (pe_config e)) (pe_generation e) (ft, sq, pl) pad"
    "po_legal (pe_config e) (pe_generation e) mtu (ft, sq, pl) pad" "length pad \<le> remaining_padding e"
    "e' = e\<lparr>pe_rng := g, pe_next_sequence := checked_add u64_max sq 1,
       pe_metrics := phantom_record (pe_metrics e) (length pl) (length pad)\<rparr>" by (metis option.inject)
  have "length b = target" "length b \<le> mtu" using w by (simp_all add: po_wire_fields po_legal_def PHANTOM_ONE_HEADER_BYTES_def)
  with in_step_wire [OF st sq pb w(2-5)] show thesis using that by metis
qed

lemma encode_with_target_keeps: "phantom_encode_with_target R e ft pl n mtu = (Err x, e') \<Longrightarrow> \<exists>g. e' = e\<lparr>pe_rng := g\<rparr>"
  by (auto simp: phantom_encode_with_target_def dest: encode_with_target_Err split: prod.splits)

lemma linked_cover:
  assumes "linked k n m" and "cover_inv (nt_cover_policy m) cv" and "cover_bytes (nt_cover n) \<le> cover_bytes cv"
    and "cs_payload_bytes cv = cs_payload_bytes (nt_cover n)"
  shows "linked k (n\<lparr>nt_cover := cv\<rparr>) m"
  using assms by (auto simp: linked_def)

text \<open>A cover frame that the scheduler reserved is within the receiver's budget.\<close>

lemma cover_frame_taken:
  assumes A: "aead_ok A" "aead_sized A" "aead_total A" and R: "rng_ok R" and l: "linked (Suc k) n m"
    and p: "nt_cover_policy m = Some p" "nt_received_cover m + (target + 32) \<le> cover_bytes (nt_cover n)"
      "cover_bytes (nt_cover n) \<le> cover_allowance p (cs_payload_bytes (nt_cover n))"
    and b: "within_budget (nt_sent n) (nt_outbound_budget n)" "fu_frames (nt_received m) < fu_frames (nt_sent n)"
    and enc: "phantom_encode_with_target R (nt_encoder n) Keepalive [0] target (nt_outbound_limit n) = (Ok env, en)"
  obtains f s m' where "write_encrypted_tcp_frame A R (nt_sender n) env = Some (Ok (wire_frame f), s)" "takes A m (wire_frame f) None m'"
    "linked k (n\<lparr>nt_encoder := en, nt_sender := s\<rparr>) m'"
proof -
  have st: "plain_synced 0 (nt_sender n) (nt_receiver m)" "ciphers_synced (nt_sender n) (nt_receiver m)"
      "snonce (ts_cipher (nt_sender n)) + Suc k \<le> AEAD_NONCE_LIMIT"
      "em_padding_bytes (pe_metrics (nt_encoder n)) + 4096 * Suc k \<le> u64_max"
      "nt_inbound_limit m = nt_outbound_limit n" "nt_outbound_limit n \<le> MAX_TCP_PAYLOAD_BYTES"
      "nt_inbound_budget m = nt_outbound_budget n" "budget_validate (nt_outbound_budget n) = Ok ()"
      "fu_payload (nt_received m) = fu_payload (nt_sent n)" "cs_payload_bytes (nt_cover n) \<le> fu_payload (nt_received m)"
      "cover_inv (nt_cover_policy m) (nt_cover n)" using l by (simp_all add: linked_def)
  obtain sq where sq: "in_step (nt_encoder n) (nt_decoder m) sq" "sq + Suc k \<le> u64_max" using l by (auto simp: linked_def)
  have sqs: "sq < u64_max" "em_padding_bytes (pe_metrics (nt_encoder n)) + 4096 \<le> u64_max" using sq st(4) by simp_all
  obtain fr d where d: "phantom_decode (nt_decoder m) env (nt_outbound_limit n) = (Ok fr, d)" "po_message fr = (Keepalive, sq, [0])"
    "in_step en d (sq + 1)" "em_padding_bytes (pe_metrics en) \<le> em_padding_bytes (pe_metrics (nt_encoder n)) + 4096" "length env = target"
    "length env \<le> nt_outbound_limit n" by (rule in_step_encode_with_target [OF R sq(1) sqs enc]) blast
  have env: "length env \<le> MAX_TCP_PAYLOAD_BYTES" and nonce: "snonce (ts_cipher (nt_sender n)) < AEAD_NONCE_LIMIT" using d(6) st(3,6) by simp_all
  obtain f s v where w: "write_encrypted_tcp_frame A R (nt_sender n) env = Some (Ok (wire_frame f), s)" "frame_fits f"
    "open_tcp A (nt_receiver m) f = (Ok env, v)" "plain_synced 0 s v" "ciphers_synced s v"
    "snonce (ts_cipher s) = snonce (ts_cipher (nt_sender n)) + 1" by (rule plain_write [OF A st(1,2) env nonce])
  define u where "u = \<lparr>fu_frames = fu_frames (nt_received m) + 1, fu_payload = fu_payload (nt_received m)\<rparr>"
  have ur: "usage_reserve (nt_received m) (nt_inbound_budget m) 0 = (Ok (), u)"
    using b budget_range [OF st(8)] st(7,9) usage_reserve_Ok [of "nt_received m" "nt_inbound_budget m" 0] by (simp add: within_budget_def u_def)
  define c where "c = sat_add u64_max (nt_received_cover m) (length env + 32)"
  have c: "c \<le> cover_bytes (nt_cover n)" using p(2) d(5) by (auto simp: c_def sat_add_def)
  have allow: "cover_budget_allows p (fu_payload u) c"
    using c p(3) cover_allowance_mono [OF st(10), of p] by (auto simp: cover_budget_allows_def cover_allowance_def [symmetric] u_def)
  define m' where "m' = m\<lparr>nt_receiver := v, nt_decoder := d, nt_received := u, nt_received_cover := c\<rparr>"
  have fr: "pf_frame_type fr = Keepalive" "pf_payload fr = [0]" using d(2) by (auto simp: po_message_def)
  have "recv_body (m\<lparr>nt_receiver := v\<rparr>) env = (None, m')"
    using d(1) fr ur st(5) p(1) allow by (simp add: recv_body_def m'_def c_def [symmetric] Let_def)
  then have "takes A m (wire_frame f) None m'" using w by (auto simp: takes_def)
  moreover have "linked k (n\<lparr>nt_encoder := en, nt_sender := s\<rparr>) m'"
    using w d st sq(2) c b(2) by (auto simp: linked_def m'_def u_def intro!: exI [of _ "sq + 1"])
  ultimately show thesis using that w(1) by blast
qed

lemma cover_advances:
  assumes A: "aead_ok A" "aead_sized A" "aead_total A" and R: "rng_ok R" and l: "linked (Suc k) n m"
  shows "\<exists>out n'. negotiated_op A R n (Op_Cover now pend cong canc) = Some (out, n') \<and> advances A k m out n'"
proof (cases "max_frames (nt_outbound_budget n) \<le> fu_frames (nt_sent n)")
  case True
  then show ?thesis using linked_less [OF l] by (simp add: send_cover_if_due_def advances_def)
next
  case False
  obtain r en where t: "phantom_target_size R (nt_encoder n) 1 (nt_outbound_limit n) = (r, en)" by fastforce
  obtain g where en: "en = nt_encoder n\<lparr>pe_rng := g\<rparr>" using phantom_target_size_keeps [OF R t] by blast
  note l' = linked_rng [OF l, of g, folded en]
  show ?thesis
  proof (cases r)
    case (Err e)
    then show ?thesis using False t linked_less [OF l'] by (simp add: send_cover_if_due_def advances_def)
  next
    case (Ok target)
    obtain r2 cv where cv: "cover_reserve (nt_cover n) now (target + 32) pend cong canc = (r2, cv)" by fastforce
    have inv: "cover_inv (nt_cover_policy m) (nt_cover n)" using l by (simp add: linked_def)
    note cc = cover_reserve_cases [OF inv cv] and cp = cover_reserve_payload [OF cv]
    define n1 where "n1 = n\<lparr>nt_encoder := en, nt_cover := cv\<rparr>"
    have "cover_bytes (nt_cover n) \<le> cover_bytes cv" using cc(2,3) by (cases "r2 = Ok True") auto
    then have l1: "linked (Suc k) n1 m" using linked_cover [OF l', of cv] cc(1) cp by (simp add: n1_def)
    obtain ru u where us: "usage_reserve (nt_sent n) (nt_outbound_budget n) 0 = (ru, u)" by fastforce
    show ?thesis
    proof (cases "r2 = Ok True \<and> ru = Ok ()")
      case no: False
      moreover have "u = nt_sent n" if "ru \<noteq> Ok ()" using us that by (cases rule: usage_reserve_cases) auto
      ultimately show ?thesis using False t Ok cv us linked_less [OF l1]
        by (cases r2; cases ru) (auto simp: send_cover_if_due_def advances_def n1_def split: bool.splits)
    next
      case yes: True
      then obtain p where p: "nt_cover_policy m = Some p" "cover_bytes cv = cover_bytes (nt_cover n) + (target + 32)"
          "cover_bytes cv \<le> cover_allowance p (cs_payload_bytes cv)" using cc(2) by blast
      have u: "fu_frames u = fu_frames (nt_sent n) + 1" "fu_payload u = fu_payload (nt_sent n)" "within_budget u (nt_outbound_budget n)"
        using us yes by (cases rule: usage_reserve_cases; simp)+
      define n2 where "n2 = n\<lparr>nt_encoder := en, nt_cover := cv, nt_sent := u\<rparr>"
      have l2: "linked (Suc k) n2 m" using l1 u by (simp add: linked_def n1_def n2_def)
      obtain r3 en' where enc: "phantom_encode_with_target R en Keepalive [0] target (nt_outbound_limit n) = (r3, en')" by fastforce
      show ?thesis
      proof (cases r3)
        case (Err e)
        then obtain g' where "en' = en\<lparr>pe_rng := g'\<rparr>" using encode_with_target_keeps enc by blast
        moreover have eq: "n2\<lparr>nt_encoder := x\<rparr> = n\<lparr>nt_encoder := x, nt_cover := cv, nt_sent := u\<rparr>" "nt_encoder n2 = en" for x by (simp_all add: n2_def)
        ultimately have "linked k (n\<lparr>nt_encoder := en', nt_cover := cv, nt_sent := u\<rparr>) m"
          using linked_rng [OF linked_less [OF l2], of g'] unfolding eq by blast
        then show ?thesis using False t Ok cv yes us enc Err by (simp add: send_cover_if_due_def advances_def)
      next
        case okE: (Ok env)
        have pre: "nt_received_cover m + (target + 32) \<le> cover_bytes (nt_cover n2)" "cover_bytes (nt_cover n2) \<le> cover_allowance p (cs_payload_bytes (nt_cover n2))"
            "within_budget (nt_sent n2) (nt_outbound_budget n2)" "fu_frames (nt_received m) < fu_frames (nt_sent n2)"
            "phantom_encode_with_target R (nt_encoder n2) Keepalive [0] target (nt_outbound_limit n2) = (Ok env, en')"
          using l p u enc okE by (auto simp: linked_def n2_def)
        obtain f s m' where f: "write_encrypted_tcp_frame A R (nt_sender n2) env = Some (Ok (wire_frame f), s)" "takes A m (wire_frame f) None m'"
            "linked k (n2\<lparr>nt_encoder := en', nt_sender := s\<rparr>) m'" by (rule cover_frame_taken [OF A R l2 p(1) pre])
        have eq: "n2\<lparr>nt_encoder := en', nt_sender := s\<rparr> = n\<lparr>nt_encoder := en', nt_cover := cv, nt_sent := u, nt_sender := s\<rparr>" by (simp add: n2_def)
        have "write_encrypted_tcp_frame A R (nt_sender n) env = Some (Ok (wire_frame f), s)" using f(1) by (simp add: n2_def)
        then show ?thesis using False t Ok cv yes us enc okE f(2) f(3) [unfolded eq] by (auto simp: send_cover_if_due_def advances_def)
      qed
    qed
  qed
qed

section \<open>Receiving what was sent\<close>

fun follows :: "aead \<Rightarrow> 'g negotiated_tcp \<Rightarrow> sent list \<Rightarrow> bool" where
  "follows A m [] = True"
| "follows A m (Sent_Nothing # outs) = follows A m outs"
| "follows A m (Sent_Data payload w # outs) = (\<exists>m'. takes A m w (Some (Ok payload)) m' \<and> follows A m' outs)"
| "follows A m (Sent_Cover w # outs) = (\<exists>m'. takes A m w None m' \<and> follows A m' outs)"

fun payloads :: "sent list \<Rightarrow> bytes list" where
  "payloads [] = []"
| "payloads (Sent_Data payload w # outs) = payload # payloads outs"
| "payloads (_ # outs) = payloads outs"

fun wires :: "sent list \<Rightarrow> bytes" where
  "wires [] = []"
| "wires (Sent_Data payload w # outs) = w @ wires outs"
| "wires (Sent_Cover w # outs) = w @ wires outs"
| "wires (Sent_Nothing # outs) = wires outs"

text \<open>No more than 31 cover frames in a row; \<open>j\<close> is one more than what may still follow.\<close>

fun cover_gap :: "nat \<Rightarrow> sent list \<Rightarrow> bool" where
  "cover_gap j [] = True"
| "cover_gap j (Sent_Nothing # outs) = cover_gap j outs"
| "cover_gap j (Sent_Cover w # outs) = (1 < j \<and> cover_gap (j - 1) outs)"
| "cover_gap j (Sent_Data payload w # outs) = (0 < j \<and> cover_gap 32 outs)"

lemma run_follows:
  assumes A: "aead_ok A" "aead_sized A" "aead_total A" and R: "rng_ok R"
  shows "linked (length ops) n m \<Longrightarrow> \<exists>outs n'. negotiated_run A R n ops = Some (outs, n') \<and> follows A m outs"
proof (induction ops arbitrary: n m)
  case (Cons x xs)
  obtain out n1 where x: "negotiated_op A R n x = Some (out, n1)" and adv: "advances A (length xs) m out n1"
    using send_advances [OF A R] cover_advances [OF A R] Cons.prems by (cases x) (metis length_Cons)+
  have "\<exists>m'. linked (length xs) n1 m' \<and> (\<forall>outs. follows A m' outs \<longrightarrow> follows A m (out # outs))"
    using adv by (cases out) (auto simp: advances_def)
  then obtain m' where "linked (length xs) n1 m'" "\<forall>outs. follows A m' outs \<longrightarrow> follows A m (out # outs)" by blast
  then show ?case using Cons.IH [of n1 m'] x by fastforce
qed simp

definition ready :: "'g negotiated_tcp \<Rightarrow> bool" where
  "ready m \<longleftrightarrow> tv_reader (nt_receiver m) = reader_default \<and> modes_compatible (nt_receiver m)"

lemma open_tcp_keeps_reader: "open_tcp A v f = (r, v') \<Longrightarrow> tv_reader v' = tv_reader v"
  by (auto simp: open_tcp_def split: prod.splits result.splits)

lemma recv_body_receiver: "recv_body m env = (r, m') \<Longrightarrow> nt_receiver m' = nt_receiver m"
  by (auto simp: recv_body_def Let_def split: prod.splits result.splits option.splits if_splits)

lemma recv_loop_takes:
  assumes "takes A m w r m'" and "ready m" and "stream_ok es" and "failures es = []" and "stream_bytes es = w @ tail"
  obtains es' where "recv_loop A (Suc j) m es = (case r of Some x \<Rightarrow> (x, m', es') | None \<Rightarrow> recv_loop A j m' es')"
    "ready m'" "stream_ok es'" "failures es' = []" "stream_bytes es' = tail"
proof -
  obtain f env v where t: "w = wire_frame f" "frame_fits f" "open_tcp A (nt_receiver m) f = (Ok env, v)" "recv_body (m\<lparr>nt_receiver := v\<rparr>) env = (r, m')"
    using assms(1) by (auto simp: takes_def)
  have rd: "tv_reader (nt_receiver m) = reader_default" "modes_compatible (nt_receiver m)" using assms(2) by (simp_all add: ready_def)
  have pf: "partial_frame (tv_reader (nt_receiver m)) f" using rd by (simp add: partial_frame_def reader_default_def)
  have bs: "tr_wire (tv_reader (nt_receiver m)) @ stream_bytes es = wire_frame f @ tail" using rd assms(5) t(1) by (simp add: reader_default_def)
  have v: "v\<lparr>tv_reader := reader_default\<rparr> = v" "ready m'"
    using open_tcp_keeps_reader [OF t(3)] open_tcp_compatible [OF t(3) rd(2)] recv_body_receiver [OF t(4)] rd by (simp_all add: ready_def)
  from rd(2) t(2) pf assms(3) bs t(3) show thesis
  proof (cases rule: read_encrypted_tcp_frame_call)
    case (failed e rd es')
    then show thesis using assms(4) by simp
  next
    case (got es')
    then show thesis using t(4) v assms(4) by (intro that [of es']) (auto split: option.splits)
  qed
qed

lemma recv_loop_follows:
  "follows A m outs \<Longrightarrow> ready m \<Longrightarrow> stream_ok es \<Longrightarrow> failures es = [] \<Longrightarrow> stream_bytes es = wires outs \<Longrightarrow> cover_gap j outs
    \<Longrightarrow> payloads outs = p # ps \<Longrightarrow>
    \<exists>m' es' outs'. recv_loop A j m es = (Ok p, m', es') \<and> follows A m' outs' \<and> ready m' \<and> stream_ok es' \<and> failures es' = []
      \<and> stream_bytes es' = wires outs' \<and> cover_gap 32 outs' \<and> payloads outs' = ps"
proof (induction A m outs arbitrary: j es rule: follows.induct)
  case (3 A m payload w outs)
  then obtain m' where t: "takes A m w (Some (Ok payload)) m'" "follows A m' outs" by auto
  obtain i where j: "j = Suc i" using 3 by (cases j) auto
  from t(1) 3(3-5) show ?case by (rule recv_loop_takes [where j = i and tail = "wires outs"]) (use 3 t j in auto)
next
  case (4 A m w outs)
  then obtain m' where t: "takes A m w None m'" "follows A m' outs" by auto
  obtain i where j: "j = Suc (Suc i)" using 4 by (cases j rule: nat.exhaust; cases "j - 1") auto
  obtain es' where "recv_loop A j m es = recv_loop A (Suc i) m' es'" "ready m'" "stream_ok es'" "failures es' = []" "stream_bytes es' = wires outs"
    using recv_loop_takes [OF t(1) 4(3-5), of "wires outs" "Suc i"] 4(6) j by auto
  then show ?case using 4(1) [of m' es' "Suc i"] t(2) 4(7,8) j by auto
qed auto

fun recv_each :: "aead \<Rightarrow> 'g negotiated_tcp \<Rightarrow> read_event list \<Rightarrow> nat \<Rightarrow> bytes result list" where
  "recv_each A m es 0 = []"
| "recv_each A m es (Suc k) = (case negotiated_recv A m es of (r, m', es') \<Rightarrow> r # recv_each A m' es' k)"

lemma recv_each_follows:
  "follows A m outs \<Longrightarrow> ready m \<Longrightarrow> stream_ok es \<Longrightarrow> failures es = [] \<Longrightarrow> stream_bytes es = wires outs \<Longrightarrow> cover_gap 32 outs
    \<Longrightarrow> recv_each A m es (length (payloads outs)) = map Ok (payloads outs)"
proof (induction "payloads outs" arbitrary: outs m es)
  case (Cons p ps)
  then obtain m' es' outs' where "recv_loop A 32 m es = (Ok p, m', es')" "follows A m' outs'" "ready m'" "stream_ok es'" "failures es' = []"
    "stream_bytes es' = wires outs'" "cover_gap 32 outs'" "payloads outs' = ps" using recv_loop_follows [OF Cons.prems, of p ps] by metis
  then show ?case using Cons.hyps(1) [of outs' m' es'] Cons.hyps(2) [symmetric] by (simp add: negotiated_recv_def)
next
  case Nil
  then show ?case by (metis length_0_conv list.simps(8) recv_each.simps(1))
qed

section \<open>The exchange between two honest ends\<close>

definition quiet :: "read_event list \<Rightarrow> bytes \<Rightarrow> bool" where
  "quiet es bs \<longleftrightarrow> stream_ok es \<and> failures es = [] \<and> Fails Interrupted \<notin> set es \<and> stream_bytes es = bs"

lemma quiet_read:
  assumes q: "quiet es bs" and r: "stream_read n es = (ev, es')" and n: "0 < n"
  obtains s where "ev = Segment s" "bs = [] \<longrightarrow> s = []" "bs \<noteq> [] \<longrightarrow> s \<noteq> []" "length s \<le> n" "bs = s @ drop (length s) bs" "quiet es' (drop (length s) bs)"
proof (cases ev)
  case (Fails e)
  then have "es = Fails e # es'" using r stream_read_fails by blast
  then show thesis using q by (auto simp: quiet_def split: if_splits)
next
  case (Segment s)
  have ok: "stream_ok es" using q by (simp add: quiet_def)
  note b = stream_read_bytes [OF r [unfolded Segment] ok]
  have "Fails Interrupted \<notin> set es'" using q r by (cases "(n, es)" rule: stream_read.cases) (auto simp: quiet_def split: if_splits)
  moreover have bs: "bs = s @ stream_bytes es'" using b(1) q by (simp add: quiet_def)
  moreover have "s = [] \<longrightarrow> bs = []" using b(5) n q by (auto simp: quiet_def)
  ultimately show thesis using b(2,3,4) q Segment by (intro that [of s]) (auto simp: quiet_def)
qed

lemma read_exact_quiet: "quiet es bs \<Longrightarrow> n \<le> length bs \<Longrightarrow> \<exists>es'. read_exact n es = (Ok (take n bs), es') \<and> quiet es' (drop n bs)"
proof (induction n es arbitrary: bs rule: read_exact.induct)
  case (1 n es)
  show ?case
  proof (cases "n = 0")
    case True
    then show ?thesis using 1(2) by (simp add: read_exact.simps)
  next
    case False
    obtain ev es' where r: "stream_read n es = (ev, es')" by fastforce
    obtain s where s: "ev = Segment s" "bs \<noteq> [] \<longrightarrow> s \<noteq> []" "length s \<le> n" "bs = s @ drop (length s) bs" "quiet es' (drop (length s) bs)"
      by (rule quiet_read [OF 1(2) r]) (use False in auto)
    have ne: "s \<noteq> []" using s(2) False 1(3) by auto
    have "n - length s \<le> length (drop (length s) bs)" using 1(3) by simp
    from 1(1) [OF False r [symmetric] s(1) ne s(5) this] obtain es'' where
      es'': "read_exact (n - length s) es' = (Ok (take (n - length s) (drop (length s) bs)), es'')" "quiet es'' (drop (n - length s) (drop (length s) bs))" by blast
    have "take n bs = s @ take (n - length s) (drop (length s) bs)" using s(3,4) by (metis append_take_drop_id take_all_iff take_append)
    then show ?thesis using es'' False r s(1,3) ne by (subst read_exact.simps) simp
  qed
qed

lemma policy_recv_frame:
  assumes q: "quiet es (wire_frame f @ tail)" and len: "28 \<le> length f" "length f \<le> 512" and d: "decrypt A c f = (r, c')"
  obtains es' where "policy_recv A c es = (r, c', es')" "quiet es' tail"
proof -
  have t4: "take 4 (wire_frame f @ tail) = be_bytes 4 (length f)" "drop 4 (wire_frame f @ tail) = f @ tail" by (simp_all add: wire_frame_def)
  obtain es1 where e1: "read_exact 4 es = (Ok (be_bytes 4 (length f)), es1)" "quiet es1 (f @ tail)"
    using read_exact_quiet [OF q, of 4] t4 by auto
  obtain es2 where e2: "read_exact (length f) es1 = (Ok f, es2)" "quiet es2 tail" using read_exact_quiet [OF e1(2), of "length f"] by auto
  have "of_be (be_bytes 4 (length f)) = length f" using len by (simp add: of_be_be_bytes)
  then have "policy_recv A c es = (r, c', es2)" using e1 e2 len d by (simp add: policy_recv_def Let_def MAX_EXCHANGE_BYTES_def)
  then show thesis using e2(2) that by blast
qed

text \<open>One message of the exchange: what one side sends, the other side reads.\<close>

lemma policy_message:
  assumes A: "aead_ok A" "aead_sized A" "aead_total A" and sy: "ciphers_synced s v" and nonce: "snonce (ts_cipher s) < AEAD_NONCE_LIMIT"
    and x: "length x \<le> 484"
  obtains f c c' where "policy_send A (ts_cipher s) x = (Ok (wire_frame f), c)" "snonce c = snonce (ts_cipher s) + 1"
    "ciphers_synced (s\<lparr>ts_cipher := c\<rparr>) (v\<lparr>tv_cipher := c'\<rparr>)"
    "\<forall>es tail. quiet es (wire_frame f @ tail) \<longrightarrow> (\<exists>es'. policy_recv A (tv_cipher v) es = (Ok x, c', es') \<and> quiet es' tail)"
proof -
  obtain f c where e: "encrypt A (ts_cipher s) x = (Ok f, c)" and len: "length f = length x + 28"
    using encrypt_total [OF A(2,3), of "ts_cipher s" x] sy nonce by (auto simp: ciphers_synced_def)
  obtain c' where c': "decrypt A (tv_cipher v) f = (Ok x, c')" "ciphers_synced (s\<lparr>ts_cipher := c\<rparr>) (v\<lparr>tv_cipher := c', tv_decoder := tv_decoder v\<rparr>)"
    using ciphers_synced_step [OF A(1) sy e] by blast
  have "policy_send A (ts_cipher s) x = (Ok (wire_frame f), c)" using e by (simp add: policy_send_def wire_frame_def)
  moreover have "v\<lparr>tv_cipher := c', tv_decoder := tv_decoder v\<rparr> = v\<lparr>tv_cipher := c'\<rparr>" by simp
  moreover have "\<exists>es'. policy_recv A (tv_cipher v) es = (Ok x, c', es') \<and> quiet es' tail" if "quiet es (wire_frame f @ tail)" for es tail
    by (rule policy_recv_frame [OF that _ _ c'(1)]) (use len x in auto)
  ultimately show thesis using c'(2) encrypt_Ok(4) [OF e] by (intro that [of f c c']) auto
qed

text \<open>One side, given what its two messages are and that it can read the two of its peer.\<close>

lemma exchange_side:
  assumes send: "policy_send A (ts_cipher s) (offer_encode a) = (Ok w1, c1)" "policy_send A c1 ack = (Ok w2, c2)"
    and recv: "\<forall>es tail. quiet es (u1 @ tail) \<longrightarrow> (\<exists>es'. policy_recv A (tv_cipher v) es = (Ok (offer_encode b), d1, es') \<and> quiet es' tail)"
      "\<forall>es tail. quiet es (u2 @ tail) \<longrightarrow> (\<exists>es'. policy_recv A d1 es = (Ok ack, d2, es') \<and> quiet es' tail)"
    and b: "offer_ok b" "negotiate a b = Ok p" "acknowledgement sha a b = Ok ack"
    and es: "quiet es (concat [u1, u2] @ tail)"
  shows "\<exists>es'. policy_exchange A sha a (s, v) es = (Ok p, [w1, w2], (s\<lparr>ts_cipher := c2\<rparr>, v\<lparr>tv_cipher := d2\<rparr>), es') \<and> quiet es' tail"
proof -
  obtain es1 where r1: "policy_recv A (tv_cipher v) es = (Ok (offer_encode b), d1, es1)" "quiet es1 (u2 @ tail)"
    using recv(1) [rule_format, of es "u2 @ tail"] es by auto
  obtain es2 where r2: "policy_recv A d1 es1 = (Ok ack, d2, es2)" "quiet es2 tail" using recv(2) r1(2) by blast
  show ?thesis using send r1(1) r2 b offer_decode_encoded [OF b(1)] by (simp add: policy_exchange_def)
qed

text \<open>Both ends: each writes two messages, and reading those of the other it reaches the mirrored agreement.\<close>

lemma exchange_agrees:
  assumes A: "aead_ok A" "aead_sized A" "aead_total A" and sha: "\<forall>x. length (sha x) = 32"
    and sy: "ciphers_synced sa vb" "ciphers_synced sb va" "snonce (ts_cipher sa) = 0" "snonce (ts_cipher sb) = 0"
    and ok: "offer_ok a" "offer_ok b" and p: "negotiate a b = Ok p"
  obtains wa wb ca da cb db where
    "\<forall>es t. quiet es (concat wb @ t) \<longrightarrow>
      (\<exists>es'. policy_exchange A sha a (sa, va) es = (Ok p, wa, (sa\<lparr>ts_cipher := ca\<rparr>, va\<lparr>tv_cipher := da\<rparr>), es') \<and> quiet es' t)"
    "\<forall>es t. quiet es (concat wa @ t) \<longrightarrow>
      (\<exists>es'. policy_exchange A sha b (sb, vb) es = (Ok (mirror p), wb, (sb\<lparr>ts_cipher := cb\<rparr>, vb\<lparr>tv_cipher := db\<rparr>), es') \<and> quiet es' t)"
    "ciphers_synced (sa\<lparr>ts_cipher := ca\<rparr>) (vb\<lparr>tv_cipher := db\<rparr>)" "ciphers_synced (sb\<lparr>ts_cipher := cb\<rparr>) (va\<lparr>tv_cipher := da\<rparr>)" "snonce ca = 2" "snonce cb = 2"
proof -
  let ?ea = "offer_encode a" and ?eb = "offer_encode b"
  have len: "length ?ea \<le> 484" "length ?eb \<le> 484" using length_offer_encode ok by simp_all
  have n0: "snonce (ts_cipher sa) < AEAD_NONCE_LIMIT" "snonce (ts_cipher sb) < AEAD_NONCE_LIMIT" using sy by (simp_all add: AEAD_NONCE_LIMIT_def)
  obtain fa ca1 db1 where ma: "policy_send A (ts_cipher sa) ?ea = (Ok (wire_frame fa), ca1)" "snonce ca1 = snonce (ts_cipher sa) + 1"
    "ciphers_synced (sa\<lparr>ts_cipher := ca1\<rparr>) (vb\<lparr>tv_cipher := db1\<rparr>)"
    "\<forall>es tail. quiet es (wire_frame fa @ tail) \<longrightarrow> (\<exists>es'. policy_recv A (tv_cipher vb) es = (Ok ?ea, db1, es') \<and> quiet es' tail)"
    by (rule policy_message [OF A sy(1) n0(1) len(1)])
  obtain fb cb1 da1 where mb: "policy_send A (ts_cipher sb) ?eb = (Ok (wire_frame fb), cb1)" "snonce cb1 = snonce (ts_cipher sb) + 1"
    "ciphers_synced (sb\<lparr>ts_cipher := cb1\<rparr>) (va\<lparr>tv_cipher := da1\<rparr>)"
    "\<forall>es tail. quiet es (wire_frame fb @ tail) \<longrightarrow> (\<exists>es'. policy_recv A (tv_cipher va) es = (Ok ?eb, da1, es') \<and> quiet es' tail)"
    by (rule policy_message [OF A sy(2) n0(2) len(2)])
  have p': "negotiate b a = Ok (mirror p)" using negotiate_mirror [OF ok] p by simp
  obtain ack where ack: "acknowledgement sha a b = Ok ack" "acknowledgement sha b a = Ok ack" "length ack = 32"
    using acknowledgement_mirror [OF ok, of sha] p sha by (auto simp: acknowledgement_def)
  have l: "length ack \<le> 484" using ack by simp
  have n1: "snonce (ts_cipher (sa\<lparr>ts_cipher := ca1\<rparr>)) < AEAD_NONCE_LIMIT" "snonce (ts_cipher (sb\<lparr>ts_cipher := cb1\<rparr>)) < AEAD_NONCE_LIMIT"
    using ma(2) mb(2) sy by (simp_all add: AEAD_NONCE_LIMIT_def)
  obtain ga ca2 db2 where na: "policy_send A ca1 ack = (Ok (wire_frame ga), ca2)" "snonce ca2 = snonce ca1 + 1"
    "ciphers_synced (sa\<lparr>ts_cipher := ca2\<rparr>) (vb\<lparr>tv_cipher := db2\<rparr>)"
    "\<forall>es tail. quiet es (wire_frame ga @ tail) \<longrightarrow> (\<exists>es'. policy_recv A db1 es = (Ok ack, db2, es') \<and> quiet es' tail)"
    by (rule policy_message [OF A ma(3) n1(1) l]) auto
  obtain gb cb2 da2 where nb: "policy_send A cb1 ack = (Ok (wire_frame gb), cb2)" "snonce cb2 = snonce cb1 + 1"
    "ciphers_synced (sb\<lparr>ts_cipher := cb2\<rparr>) (va\<lparr>tv_cipher := da2\<rparr>)"
    "\<forall>es tail. quiet es (wire_frame gb @ tail) \<longrightarrow> (\<exists>es'. policy_recv A da1 es = (Ok ack, da2, es') \<and> quiet es' tail)"
    by (rule policy_message [OF A mb(3) n1(2) l]) auto
  have "snonce ca2 = 2" "snonce cb2 = 2" using na(2) nb(2) ma(2) mb(2) sy by simp_all
  then show thesis
    using exchange_side [OF ma(1) na(1) mb(4) nb(4) ok(2) p ack(1)] exchange_side [OF mb(1) nb(1) ma(4) na(4) ok(1) p' ack(2)] na(3) nb(3)
    by (intro that [of "[wire_frame fb, wire_frame gb]" "[wire_frame fa, wire_frame ga]"]) blast+
qed

lemma hex_digits_le: "acc \<le> mx \<Longrightarrow> hex_digits mx acc cs = Some v \<Longrightarrow> v \<le> mx"
  by (induction cs arbitrary: acc) (auto split: option.splits if_splits)

lemma from_str_radix_le: "from_str_radix_16 mx cs = Some v \<Longrightarrow> v \<le> mx"
  using hex_digits_le [of 0 mx] by (auto simp: from_str_radix_16_def simp del: hex_digits.simps split: list.splits if_splits)

lemma generation_range: "phantom_one_generation_from_transcript h = Ok gen \<Longrightarrow> gen \<le> u32_max"
  by (auto simp: phantom_one_generation_from_transcript_def dest: from_str_radix_le split: if_splits)

lemma negotiated_config_ok:
  assumes "offer_ok a" and "negotiate a b = Ok p"
  shows "phantom_validate (np_config p) = Ok ()" "\<forall>x\<in>set_option (pc_padding_budget (np_config p)). x \<le> u64_max"
proof -
  obtain t where t: "profile_config (eo_config a) t = Ok (np_config p)" using assms(2) by (rule negotiate_Ok)
  then show "phantom_validate (np_config p) = Ok ()" by (auto simp: profile_config_def Let_def split: if_splits)
  have "pc_padding_budget (np_config p) = pc_padding_budget (eo_config a)"
    using t by (auto simp: profile_config_def phantom_config_with_profile_def Let_def split: if_splits)
  then show "\<forall>x\<in>set_option (pc_padding_budget (np_config p)). x \<le> u64_max"
    using assms(1) by (auto simp: offer_ok_def config_ok_def split: option.splits)
qed

lemma negotiated_budget_ok: "offer_ok a \<Longrightarrow> offer_ok b \<Longrightarrow> negotiate a b = Ok p \<Longrightarrow> budget_validate (np_outbound_budget p) = Ok ()"
  by (erule negotiate_Ok) (auto simp: offer_ok_def budget_validate_def budget_intersect_def min_def split: if_splits)

text \<open>What \<open>establish_with_offer\<close> builds from the agreement.\<close>

definition fresh_negotiated :: "u32 \<Rightarrow> 'g \<Rightarrow> negotiated_policy \<Rightarrow> cover_policy option \<Rightarrow> cover_scheduler \<Rightarrow> 'g tcp_sender \<Rightarrow> tcp_receiver \<Rightarrow> phantom_decoder \<Rightarrow> 'g negotiated_tcp" where
  "fresh_negotiated gen g p cover cs s v d =
     \<lparr>nt_sender = s\<lparr>ts_profile := None, ts_padder := None, ts_encoder := None\<rparr>, nt_receiver = v\<lparr>tv_profile := None, tv_decoder := None\<rparr>,
      nt_encoder = phantom_encoder_from_validated_config gen g (np_config p), nt_decoder = d,
      nt_outbound_limit = np_outbound_limit p, nt_inbound_limit = np_inbound_limit p, nt_outbound_budget = np_outbound_budget p,
      nt_inbound_budget = np_inbound_budget p, nt_sent = usage_default, nt_received = usage_default, nt_cover = cs, nt_cover_policy = cover,
      nt_received_cover = 0\<rparr>"

lemma establish_agreed:
  assumes ok: "offer_ok a" "negotiate a b = Ok p"
    and b: "parse_binding h = Ok (eo_binding a)" and t: "0 < timeout" "timeout \<le> 60000000000"
    and gen: "phantom_one_generation_from_transcript h = Ok gen"
  obtains cs d where "\<forall>A sha s v es ws s' v' es'. policy_exchange A sha a (s, v) es = (Ok p, ws, (s', v'), es') \<longrightarrow>
      establish_with_offer A sha h h a timeout g (s, v) es = (Ok (fresh_negotiated gen g p (eo_cover a) cs s' v' d), ws, es')"
    "cover_new (eo_cover a) = Ok cs" "phantom_decoder_with_config_and_window gen (np_config p) PHANTOM_ONE_DEFAULT_REPLAY_WINDOW = Ok d"
proof -
  note c = negotiated_config_ok [OF ok]
  obtain cs where cs: "cover_new (eo_cover a) = Ok cs" using ok(1) by (cases "eo_cover a") (auto simp: cover_new_def offer_ok_def)
  obtain d where d: "phantom_decoder_with_config_and_window gen (np_config p) PHANTOM_ONE_DEFAULT_REPLAY_WINDOW = Ok d"
    using c(1) by (simp add: phantom_decoder_with_config_and_window_def PHANTOM_ONE_DEFAULT_REPLAY_WINDOW_def)
  have "establish_with_offer A sha h h a timeout g (s, v) es = (Ok (fresh_negotiated gen g p (eo_cover a) cs s' v' d), ws, es')"
    if "policy_exchange A sha a (s, v) es = (Ok p, ws, (s', v'), es')" for A sha s v es ws s' v' es'
    using that b t gen c(1) cs d by (simp add: establish_with_offer_def phantom_encoder_with_config_def fresh_negotiated_def)
  then show thesis using cs d that by blast
qed

lemma fresh_linked:
  assumes sy: "ciphers_synced s v" "snonce (ts_cipher s) + k \<le> AEAD_NONCE_LIMIT"
    and ok: "offer_ok a" "offer_ok b" "negotiate a b = Ok p" and lim: "np_outbound_limit p \<le> MAX_TCP_PAYLOAD_BYTES" and gen: "gen \<le> u32_max"
    and n: "cover_new cover = Ok cs" and m: "phantom_decoder_with_config_and_window gen (np_config (mirror p)) PHANTOM_ONE_DEFAULT_REPLAY_WINDOW = Ok d"
  shows "linked k (fresh_negotiated gen g p cover cs s v0 d0) (fresh_negotiated gen g' (mirror p) cover cs' s0 v d)"
proof -
  have "4096 * k \<le> u64_max" using sy(2) by (simp add: AEAD_NONCE_LIMIT_def u64_max_def)
  moreover from this have "k \<le> u64_max" by simp
  moreover have "in_step (phantom_encoder_from_validated_config gen g (np_config p)) d 0"
    using negotiated_config_ok [OF ok(1,3)] gen m by (auto simp: in_step_def pe_inv_def pd_inv_def u64_max_def mirror_def
        phantom_encoder_from_validated_config_def envelope_metrics_default_def phantom_decoder_with_config_and_window_def
        PHANTOM_ONE_DEFAULT_REPLAY_WINDOW_def split: result.splits if_splits)
  moreover have "cover_inv cover cs" using cover_reach_inv [OF cover_start [OF n]] .
  moreover have "cover_bytes cs = 0" "cs_payload_bytes cs = 0" using n by (auto simp: cover_new_def split: result.splits)
  moreover have "em_padding_bytes (pe_metrics (phantom_encoder_from_validated_config gen g (np_config p))) = 0"
    by (simp add: phantom_encoder_from_validated_config_def envelope_metrics_default_def)
  ultimately show ?thesis using sy lim negotiated_budget_ok [OF ok]
    by (auto simp: linked_def fresh_negotiated_def plain_synced_def ciphers_synced_def usage_default_def mirror_def intro!: exI [of _ 0])
qed

section \<open>Properties\<close>

text \<open>C10. From the exchange to the last message, over TCP: two ends of one authenticated session whose offers agree write two messages each;
  whatever the segmentation, each end that reads the other's messages establishes its session, and from then on, for every sequence of
  sends and cover frames of one end, every call returns, and the other end's \<open>recv\<close> calls return exactly the payloads that were
  sent, in order: the budgets, the replay window and the cover limits of the receiver refuse nothing that the sender's own
  limits let through, as long as no 32 cover frames come in a row.\<close>

theorem negotiated_session_delivers:
  fixes R :: "'g rng" and g g' :: 'g
  assumes "aead_ok A" and "aead_sized A" and "aead_total A" and "rng_ok R" and "\<forall>x. length (sha x) = 32"
    and "length k1 = 32" and "length k2 = 32" and "offer_built h a" and "offer_built h b" and "negotiate a b = Ok p"
    and "np_outbound_limit p \<le> MAX_TCP_PAYLOAD_BYTES" and "phantom_one_generation_from_transcript h = Ok gen"
    and "0 < timeout" and "timeout \<le> 60000000000"
  shows "\<exists>wa wb n m. (\<forall>es t. quiet es (concat wb @ t) \<longrightarrow>
        (\<exists>es'. establish_with_offer A sha h h a timeout g (tcp_session_new k1 k2 g) es = (Ok n, wa, es') \<and> quiet es' t))
    \<and> (\<forall>es t. quiet es (concat wa @ t) \<longrightarrow>
        (\<exists>es'. establish_with_offer A sha h h b timeout g' (tcp_session_new k2 k1 g') es = (Ok m, wb, es') \<and> quiet es' t))
    \<and> (\<forall>ops. length ops + 2 \<le> AEAD_NONCE_LIMIT \<longrightarrow>
        (\<exists>outs n'. negotiated_run A R n ops = Some (outs, n')
          \<and> (\<forall>es. stream_ok es \<and> failures es = [] \<and> stream_bytes es = wires outs \<and> cover_gap 32 outs \<longrightarrow>
               recv_each A m es (length (payloads outs)) = map Ok (payloads outs))))"
proof -
  let ?sa = "fst (tcp_session_new k1 k2 g)" and ?va = "snd (tcp_session_new k1 k2 g)"
    and ?sb = "fst (tcp_session_new k2 k1 g')" and ?vb = "snd (tcp_session_new k2 k1 g')"
  have ok: "offer_ok a" "offer_ok b" and bi: "parse_binding h = Ok (eo_binding a)" "parse_binding h = Ok (eo_binding b)"
    using offer_built_ok assms(8,9) by blast+
  have p': "negotiate b a = Ok (mirror p)" and cov: "eo_cover a = eo_cover b"
    using negotiate_mirror [OF ok] assms(10) by (auto elim: negotiate_Ok)
  have "session_in_mode Plain_Mode (tcp_session_new k1 k2 g) g = Ok (?sa, ?va)" "session_in_mode Plain_Mode (tcp_session_new k2 k1 g') g' = Ok (?sb, ?vb)"
    by (simp_all add: session_in_mode_def)
  note fr = fresh_sessions_synced [OF this _ assms(6), of 0] fresh_sessions_synced [OF this(2,1) _ assms(7), of 0]
  have sy: "ciphers_synced ?sa ?vb" "ciphers_synced ?sb ?va" "snonce (ts_cipher ?sa) = 0" "snonce (ts_cipher ?sb) = 0"
    using fr by (simp_all add: mode_ok_def)
  obtain wa wb ca da cb db where x:
    "\<forall>es t. quiet es (concat wb @ t) \<longrightarrow> (\<exists>es'. policy_exchange A sha a (?sa, ?va) es = (Ok p, wa, (?sa\<lparr>ts_cipher := ca\<rparr>, ?va\<lparr>tv_cipher := da\<rparr>), es') \<and> quiet es' t)"
    "\<forall>es t. quiet es (concat wa @ t) \<longrightarrow> (\<exists>es'. policy_exchange A sha b (?sb, ?vb) es = (Ok (mirror p), wb, (?sb\<lparr>ts_cipher := cb\<rparr>, ?vb\<lparr>tv_cipher := db\<rparr>), es') \<and> quiet es' t)"
    and sy': "ciphers_synced (?sa\<lparr>ts_cipher := ca\<rparr>) (?vb\<lparr>tv_cipher := db\<rparr>)" and ca: "snonce ca = 2"
    by (rule exchange_agrees [OF assms(1-3,5) sy ok assms(10)])
  obtain cs d0 where n: "\<forall>A sha s v es ws s' v' es'. policy_exchange A sha a (s, v) es = (Ok p, ws, (s', v'), es') \<longrightarrow>
      establish_with_offer A sha h h a timeout g (s, v) es = (Ok (fresh_negotiated gen g p (eo_cover a) cs s' v' d0), ws, es')"
    "cover_new (eo_cover a) = Ok cs" by (rule establish_agreed [OF ok(1) assms(10) bi(1) assms(13,14,12)])
  obtain cs' d where m: "\<forall>A sha s v es ws s' v' es'. policy_exchange A sha b (s, v) es = (Ok (mirror p), ws, (s', v'), es') \<longrightarrow>
      establish_with_offer A sha h h b timeout g' (s, v) es = (Ok (fresh_negotiated gen g' (mirror p) (eo_cover b) cs' s' v' d), ws, es')"
    "phantom_decoder_with_config_and_window gen (np_config (mirror p)) PHANTOM_ONE_DEFAULT_REPLAY_WINDOW = Ok d"
    by (rule establish_agreed [OF ok(2) p' bi(2) assms(13,14,12)])
  define na where "na = fresh_negotiated gen g p (eo_cover a) cs (?sa\<lparr>ts_cipher := ca\<rparr>) (?va\<lparr>tv_cipher := da\<rparr>) d0"
  define mb where "mb = fresh_negotiated gen g' (mirror p) (eo_cover b) cs' (?sb\<lparr>ts_cipher := cb\<rparr>) (?vb\<lparr>tv_cipher := db\<rparr>) d"
  have run: "\<exists>outs n'. negotiated_run A R na ops = Some (outs, n') \<and> (\<forall>es. stream_ok es \<and> failures es = [] \<and> stream_bytes es = wires outs
      \<and> cover_gap 32 outs \<longrightarrow> recv_each A mb es (length (payloads outs)) = map Ok (payloads outs))" if "length ops + 2 \<le> AEAD_NONCE_LIMIT" for ops
  proof -
    have "linked (length ops) na mb" unfolding na_def mb_def cov [symmetric]
      by (rule fresh_linked [OF sy' _ ok assms(10,11) generation_range [OF assms(12)] n(2) m(2)]) (use ca that in simp)
    moreover have "ready mb" by (simp add: ready_def mb_def fresh_negotiated_def tcp_session_new_def modes_compatible_def)
    ultimately show ?thesis using run_follows [OF assms(1-4), of ops na mb] recv_each_follows by blast
  qed
  have "\<exists>es'. establish_with_offer A sha h h a timeout g (tcp_session_new k1 k2 g) es = (Ok na, wa, es') \<and> quiet es' t" if "quiet es (concat wb @ t)" for es t
    using x(1) [rule_format, OF that] n(1) [rule_format, of A sha ?sa ?va] by (auto simp: na_def)
  moreover have "\<exists>es'. establish_with_offer A sha h h b timeout g' (tcp_session_new k2 k1 g') es = (Ok mb, wb, es') \<and> quiet es' t" if "quiet es (concat wa @ t)" for es t
    using x(2) [rule_format, OF that] m(1) [rule_format, of A sha ?sb ?vb] by (auto simp: mb_def)
  ultimately show ?thesis using run by blast
qed

text \<open>A data frame that passed every check before the cover budget.\<close>

definition admissible_data :: "aead \<Rightarrow> 'g negotiated_quic \<Rightarrow> quic_event \<Rightarrow> bytes \<Rightarrow> receive_cipher \<Rightarrow> phantom_decoder \<Rightarrow> frame_usage \<Rightarrow> bool" where
  "admissible_data A n ev payload c d u \<longleftrightarrow> (\<exists>ct limit env frame. fst ev = Ok ct \<and> current_frame_limit (snd ev) (nq_inbound_limit n) = Ok limit
     \<and> length ct \<le> limit + SHPH_AEAD_OVERHEAD_BYTES \<and> decrypt A (nq_recv_cipher n) ct = (Ok env, c) \<and> phantom_decode (nq_decoder n) env limit = (Ok frame, d)
     \<and> pf_frame_type frame = Data \<and> pf_payload frame = payload \<and> fu_payload (nq_received n) + length payload \<le> u64_max
     \<and> usage_reserve (nq_received n) (nq_inbound_budget n) (length payload) = (Ok (), u))"

lemma data_gate:
  assumes "nq_cover_policy n = Some p" and "admissible_data A n ev payload c d u"
  shows "if nq_received_cover n \<le> min ((fu_payload (nq_received n) + length payload) * overhead_percent p div 100) (maximum_bytes p)
     then quic_recv_body A n ev = (Some (Ok payload), n\<lparr>nq_recv_cipher := c, nq_decoder := d, nq_received := u\<rparr>)
     else \<exists>e. quic_recv_body A n ev = (Some (Err e), n\<lparr>nq_recv_cipher := c, nq_decoder := d\<rparr>)"
proof -
  obtain ct limit env frame where h: "fst ev = Ok ct" "current_frame_limit (snd ev) (nq_inbound_limit n) = Ok limit"
    "\<not> limit + SHPH_AEAD_OVERHEAD_BYTES < length ct" "decrypt A (nq_recv_cipher n) ct = (Ok env, c)"
    "phantom_decode (nq_decoder n) env limit = (Ok frame, d)" "pf_frame_type frame = Data" "pf_payload frame = payload"
    "fu_payload (nq_received n) + length payload \<le> u64_max" "usage_reserve (nq_received n) (nq_inbound_budget n) (length payload) = (Ok (), u)"
    using assms(2) by (auto simp: admissible_data_def not_less)
  then show ?thesis using assms(1)
    by (simp add: quic_recv_body_def Let_def checked_add_def received_cover_validate_def cover_budget_allows_def)
qed

text \<open>C18. The cover budget of a QUIC receiver decides which data frames are returned, and can starve the session.  A data frame that passes
  every other check is returned precisely when the cover bytes accepted so far are within the configured percentage of the payload received
  including this frame, and within the maximum; otherwise it is refused, its counters are spent and its payload is not counted.  Hence, once the cover
  bytes accepted exceed that percentage of the payload received plus one more frame of the agreed size limit, no call of \<open>recv\<close> ever
  returns a payload again, whatever arrives; a sender within its own limits gets there when the data datagrams before its cover
  datagrams are lost.\<close>

theorem quic_cover_starvation:
  assumes "nq_cover_policy n = Some p"
  shows "(\<forall>ev payload c d u. admissible_data A n ev payload c d u \<longrightarrow>
      (if nq_received_cover n \<le> min ((fu_payload (nq_received n) + length payload) * overhead_percent p div 100) (maximum_bytes p)
       then quic_recv_body A n ev = (Some (Ok payload), n\<lparr>nq_recv_cipher := c, nq_decoder := d, nq_received := u\<rparr>)
       else \<exists>e. quic_recv_body A n ev = (Some (Err e), n\<lparr>nq_recv_cipher := c, nq_decoder := d\<rparr>)))
   \<and> ((fu_payload (nq_received n) + nq_inbound_limit n) * overhead_percent p div 100 < nq_received_cover n \<longrightarrow>
       (\<forall>k evs. ok_values (quic_recv_calls A k n evs) = []))"
  using data_gate [OF assms] starved_calls [of p n A] assms by (simp add: starved_def)

text \<open>A session whose first cover datagrams arrived and whose data datagrams were lost, and data datagrams that a session without that cover returns.\<close>

definition demo_quic :: "nat negotiated_quic" where
  "demo_quic = \<lparr>nq_encoder = phantom_encoder_new 7 0, nq_decoder = phantom_decoder_new 7, nq_send_cipher = send_cipher_new (replicate 32 0),
     nq_recv_cipher = receive_cipher_new (replicate 32 0), nq_outbound_limit = 1200, nq_inbound_limit = 1200,
     nq_outbound_budget = budget_default, nq_inbound_budget = budget_default, nq_sent = usage_default,
     nq_received = \<lparr>fu_frames = 3, fu_payload = 0\<rparr>,
     nq_cover = \<lparr>cs_policy = None, last_observed = 0, last_data = None, last_cover = None, cs_payload_bytes = 0, cover_bytes = 0, stopped = False\<rparr>,
     nq_cover_policy = Some \<lparr>interval_ms = 100, idle_timeout_ms = 1000, maximum_bytes = 1000000, overhead_percent = 10\<rparr>,
     nq_received_cover = 340\<rparr>"

definition demo_datagram :: "u64 \<Rightarrow> bytes" where
  "demo_datagram i = nonce_bytes i @ replicate 16 1 @ po_wire Medium 7 (Data, i, [5]) []"

lemma demo_admissible: "\<exists>c d u. admissible_data tag16_aead (demo_quic\<lparr>nq_received_cover := 0\<rparr>) (Ok (demo_datagram 0), Some 1400) [5] c d u"
proof -
  let ?w = "po_wire Medium 7 (Data, 0, [5]) []" and ?n = "demo_quic\<lparr>nq_received_cover := 0\<rparr>"
  have legal: "po_legal phantom_config_default 7 1200 (Data, 0, [5]) []"
    by (simp add: po_legal_def phantom_config_default_def phantom_validate_def validate_path_mtu_def PHANTOM_ONE_HEADER_BYTES_def
        PHANTOM_ONE_MAX_ENVELOPE_BYTES_def PHANTOM_ONE_MAX_PADDING_BYTES_def u16_max_def u32_max_def u64_max_def)
  have "pc_profile phantom_config_default = Medium" by (simp add: phantom_config_default_def)
  with decode_parts_wire [OF legal] have dp: "decode_parts ?w 7 1200 phantom_config_default = Ok (po_parts phantom_config_default 7 (Data, 0, [5]) [])" by simp
  have lim: "current_frame_limit (Some 1400) 1200 = Ok 1200" by (simp add: current_frame_limit_def SHPH_AEAD_OVERHEAD_BYTES_def checked_sub_def)
  obtain c where dc: "decrypt tag16_aead (nq_recv_cipher ?n) (demo_datagram 0) = (Ok ?w, c)"
    using decrypt_sent [of tag16_aead "replicate 32 0" 0 ?w "replicate 16 1 @ ?w" "receive_cipher_new (replicate 32 0)"]
    by (simp add: demo_quic_def demo_datagram_def tag16_aead_def aead_ok_def receive_cipher_new_def replay_accept_Strict)
  obtain d where pd: "phantom_decode (phantom_decoder_new 7) ?w 1200 = (Ok (to_frame (po_parts phantom_config_default 7 (Data, 0, [5]) []) ?w), d)"
    using dp by (simp add: phantom_decode_def phantom_decoder_new_def next_padding_bytes_def accept_sequence_def po_parts_def checked_add_def u64_max_def phantom_config_default_def)
  have f: "pf_frame_type (to_frame (po_parts phantom_config_default 7 (Data, 0, [5]) []) ?w) = Data" "pf_payload (to_frame (po_parts phantom_config_default 7 (Data, 0, [5]) []) ?w) = [5]"
    using po_message_wire [of phantom_config_default 7 Data 0 "[5]" "[]" Medium] by (simp_all add: po_message_def)
  obtain u where u: "usage_reserve (nq_received ?n) (nq_inbound_budget ?n) (length [5 :: byte]) = (Ok (), u)"
    by (simp add: usage_reserve_def demo_quic_def budget_default_def checked_add_def u64_max_def)
  have "length (demo_datagram 0) \<le> 1200 + SHPH_AEAD_OVERHEAD_BYTES" by (simp add: demo_datagram_def po_wire_def PHANTOM_ONE_MAGIC_def)
  then show ?thesis unfolding admissible_data_def
    using lim dc pd f u by (intro exI [of _ c] exI [of _ d] exI [of _ u] exI [of _ "demo_datagram 0"] exI [of _ 1200] exI [of _ ?w])
      (simp add: demo_quic_def u64_max_def)
qed

theorem quic_cover_starvation_witness:
  "fst (quic_recv_body tag16_aead (demo_quic\<lparr>nq_received_cover := 0\<rparr>) (Ok (demo_datagram 0), Some 1400)) = Some (Ok [5])
   \<and> ok_values (quic_recv_calls tag16_aead 5 demo_quic (map (\<lambda>i. (Ok (demo_datagram i), Some 1400)) [0..<9])) = []"
proof
  let ?p = "\<lparr>interval_ms = 100, idle_timeout_ms = 1000, maximum_bytes = 1000000, overhead_percent = 10\<rparr>" and ?n = "demo_quic\<lparr>nq_received_cover := 0\<rparr>"
  have p: "nq_cover_policy ?n = Some ?p" "nq_cover_policy demo_quic = Some ?p" by (simp_all add: demo_quic_def)
  obtain c d u where "admissible_data tag16_aead ?n (Ok (demo_datagram 0), Some 1400) [5] c d u" using demo_admissible by blast
  with quic_cover_starvation [OF p(1), of tag16_aead] show "fst (quic_recv_body tag16_aead ?n (Ok (demo_datagram 0), Some 1400)) = Some (Ok [5])"
    by fastforce
  have "(fu_payload (nq_received demo_quic) + nq_inbound_limit demo_quic) * overhead_percent ?p div 100 < nq_received_cover demo_quic"
    by (simp add: demo_quic_def)
  with quic_cover_starvation [OF p(2), of tag16_aead]
  show "ok_values (quic_recv_calls tag16_aead 5 demo_quic (map (\<lambda>i. (Ok (demo_datagram i), Some 1400)) [0..<9])) = []" by blast
qed

lemma one_segment: "\<exists>es. quiet es bs"
  by (cases "bs = []") (auto simp: quiet_def stream_ok_def intro: exI [of _ "[]"] exI [of _ "[Segment bs]"])

theorem negotiated_session_delivers_witness:
  "\<exists>wa wb n (m :: nat negotiated_tcp) outs n' es1 es1' es2. quiet es1 (concat wb)
    \<and> establish_with_offer tag16_aead (\<lambda>_. replicate 32 0) (replicate 64 CHR ''a'') (replicate 64 CHR ''a'') (demo_offer High) 1000000000 (0 :: nat)
        (tcp_session_new (replicate 32 0) (replicate 32 1) 0) es1 = (Ok n, wa, es1')
    \<and> negotiated_run tag16_aead counter_rng n [Op_Send 5 [1, 2], Op_Send 6 []] = Some (outs, n') \<and> quiet es2 (wires outs)
    \<and> recv_each tag16_aead m es2 (length (payloads outs)) = map Ok (payloads outs)"
proof -
  let ?h = "replicate 64 CHR ''a''" and ?o = "demo_offer High"
  have A: "aead_ok tag16_aead" "aead_sized tag16_aead" "aead_total tag16_aead"
    by (simp_all add: aead_ok_def aead_sized_def aead_total_def tag16_aead_def)
  have ok: "offer_ok ?o" using offer_built_ok [OF demo_offer_built] by blast
  have "same_policy_settings (eo_config ?o) (eo_config ?o)" by (simp add: same_policy_settings_def)
  then have "is_ok (negotiate ?o ?o)" using negotiate_iff [OF ok ok] by (auto simp: demo_offer_def bit_profile_bit)
  then obtain p where p: "negotiate ?o ?o = Ok p" by (auto simp: is_ok_iff)
  then have "np_outbound_limit p = min (eo_outbound_limit ?o) (eo_inbound_limit ?o)" by (rule negotiate_Ok)
  then have lim: "np_outbound_limit p \<le> MAX_TCP_PAYLOAD_BYTES"
    by (simp add: demo_offer_def MAX_TCP_PAYLOAD_BYTES_def MAX_FRAME_BYTES_def SHROUD_AEAD_OVERHEAD_def)
  have "take 8 ?h = ''aaaaaaaa''" by (simp add: eval_nat_numeral)
  then have gen: "phantom_one_generation_from_transcript ?h = Ok 2863311530"
    by (simp add: phantom_one_generation_from_transcript_def from_str_radix_16_def hex_value_def u32_max_def)
  have gap: "cover_gap 32 outs" if "negotiated_run tag16_aead counter_rng n [Op_Send 5 [1, 2], Op_Send 6 []] = Some (outs, n')" for n outs n'
    using that by (auto split: option.splits prod.splits if_splits)
  have pre: "\<forall>x. length ((\<lambda>_. replicate 32 0) x :: bytes) = 32" "length (replicate 32 0 :: bytes) = 32" "length (replicate 32 1 :: bytes) = 32"
      "0 < (1000000000 :: nat)" "1000000000 \<le> (60000000000 :: nat)" by simp_all
  obtain wa wb n and m :: "nat negotiated_tcp" where nm: "\<forall>es t. quiet es (concat wb @ t) \<longrightarrow> (\<exists>es'. establish_with_offer tag16_aead (\<lambda>_. replicate 32 0) ?h ?h ?o 1000000000 (0 :: nat)
        (tcp_session_new (replicate 32 0) (replicate 32 1) 0) es = (Ok n, wa, es') \<and> quiet es' t)"
      "\<forall>ops. length ops + 2 \<le> AEAD_NONCE_LIMIT \<longrightarrow> (\<exists>outs n'. negotiated_run tag16_aead counter_rng n ops = Some (outs, n')
        \<and> (\<forall>es. stream_ok es \<and> failures es = [] \<and> stream_bytes es = wires outs \<and> cover_gap 32 outs \<longrightarrow>
               recv_each tag16_aead m es (length (payloads outs)) = map Ok (payloads outs)))"
    using negotiated_session_delivers [OF A counter_rng_ok pre(1-3) demo_offer_built demo_offer_built p lim gen pre(4,5), of 0 0] by blast
  obtain es1 where es1: "quiet es1 (concat wb @ [])" using one_segment by blast
  obtain es1' where "establish_with_offer tag16_aead (\<lambda>_. replicate 32 0) ?h ?h ?o 1000000000 (0 :: nat)
        (tcp_session_new (replicate 32 0) (replicate 32 1) 0) es1 = (Ok n, wa, es1')" using nm(1) es1 by blast
  moreover have "length [Op_Send 5 [1, 2], Op_Send 6 []] + 2 \<le> AEAD_NONCE_LIMIT" by (simp add: AEAD_NONCE_LIMIT_def)
  then obtain outs n' where "negotiated_run tag16_aead counter_rng n [Op_Send 5 [1, 2], Op_Send 6 []] = Some (outs, n')"
      "\<forall>es. quiet es (wires outs) \<longrightarrow> recv_each tag16_aead m es (length (payloads outs)) = map Ok (payloads outs)"
    using nm(2) gap unfolding quiet_def by meson
  moreover obtain es2 where "quiet es2 (wires outs)" using one_segment by blast
  ultimately show ?thesis using es1 by (metis append_Nil2)
qed

end
