(* ===== verification/Identity_Record.thy ===== *)
theory Identity_Record
  imports Handshake "HOL-Library.List_Lexorder" "HOL-Library.Product_Lexorder" "HOL-Library.Multiset"
begin

text \<open>
  Signed identity records and their discovery, \<open>shph-identity/src/lib.rs\<close>: the structure checks, the canonical payload that is
  signed and hashed, verification, peer pins, and the resolver that accepts the records of a subject one after the other.
  SHA-256 and Ed25519 are the parameters of the cryptographic suite; discovery providers are trusted plug-ins and an argument
  of \<open>resolve\<close>.  The lemmas show that the payload determines the record up to the order of its lists, what a verified record
  and a pin guarantee, and the chain of accepted records.
\<close>

section \<open>Records\<close>

definition IDENTITY_RECORD_VERSION :: u16 where "IDENTITY_RECORD_VERSION = 1"
definition DISCOVERY_PLUGIN_API_VERSION :: u16 where "DISCOVERY_PLUGIN_API_VERSION = 1"
definition MAX_KEYS :: usize where "MAX_KEYS = 32"
definition MAX_ENDPOINTS :: usize where "MAX_ENDPOINTS = 32"
definition MAX_CAPABILITIES :: usize where "MAX_CAPABILITIES = 64"
definition MAX_PROVIDER_RECORDS :: usize where "MAX_PROVIDER_RECORDS = 1024"
definition MAX_DISCOVERY_PROVIDERS :: usize where "MAX_DISCOVERY_PROVIDERS = 64"
definition MAX_TOTAL_CANDIDATES :: usize where "MAX_TOTAL_CANDIDATES = 4096"
definition MAX_PLUGIN_CAPABILITIES :: usize where "MAX_PLUGIN_CAPABILITIES = 16"
definition MAX_STRING_BYTES :: usize where "MAX_STRING_BYTES = 256"
definition MAX_ALGORITHM_BYTES :: usize where "MAX_ALGORITHM_BYTES = 96"
definition MAX_PUBLIC_KEY_BYTES :: usize where "MAX_PUBLIC_KEY_BYTES = 8 * 1024"
definition DEFAULT_CLOCK_SKEW_SECS :: u64 where "DEFAULT_CLOCK_SKEW_SECS = 300"
definition MAX_CLOCK_SKEW_SECS :: u64 where "MAX_CLOCK_SKEW_SECS = 24 * 60 * 60"
definition MAX_RECORD_LIFETIME_SECS :: u64 where "MAX_RECORD_LIFETIME_SECS = 90 * 24 * 60 * 60"
definition IDENTITY_ID_DOMAIN :: bytes where "IDENTITY_ID_DOMAIN = as_bytes ''shph/identity-id/v1''"
definition RECORD_DOMAIN :: bytes where "RECORD_DOMAIN = as_bytes ''shph/identity-record/v1''"
definition PROFILE_ED25519 :: string where "PROFILE_ED25519 = ''ed25519''"
definition ALGORITHM_ED25519 :: string where "ALGORITHM_ED25519 = ''ed25519''"
definition ALGORITHM_X25519 :: string where "ALGORITHM_X25519 = ''x25519''"

datatype identity_error =
    InvalidRecord string | InvalidSignature | UnsupportedAlgorithm string | NotYetValid | Expired | Replay | Conflict u64
  | NotFound | ProviderUnavailable string | RecordSerialization string | RecordIo string

type_synonym 'a checked = "identity_error + 'a"

datatype key_role = RootSigning | OperationalSigning | IdentityBinding | KeyEstablishment | RecoverySigning

fun role_code :: "key_role \<Rightarrow> nat" where
  "role_code RootSigning = 1"
| "role_code OperationalSigning = 2"
| "role_code IdentityBinding = 3"
| "role_code KeyEstablishment = 4"
| "role_code RecoverySigning = 5"

definition accepts_record_signature :: "key_role \<Rightarrow> bool" where
  "accepts_record_signature r \<longleftrightarrow> r = RootSigning \<or> r = RecoverySigning"

fun role_string :: "key_role \<Rightarrow> string" where
  "role_string RootSigning = ''root-signing''"
| "role_string OperationalSigning = ''operational-signing''"
| "role_string IdentityBinding = ''identity-binding''"
| "role_string KeyEstablishment = ''key-establishment''"
| "role_string RecoverySigning = ''recovery-signing''"

text \<open>A \<open>Hash32\<close> is a list of 32 bytes.\<close>

record identity_key =
  k_id :: bytes
  k_role :: key_role
  k_algorithm :: string
  k_public :: bytes
  k_not_before :: u64
  k_not_after :: u64
  k_previous :: "bytes option"

record identity_endpoint =
  ep_transport :: string
  ep_address :: string
  ep_priority :: u16

record record_signature =
  sg_key_id :: bytes
  sg_algorithm :: string
  sg_signature :: bytes

datatype record_status = Active | Revoked u64 string

record identity_record =
  r_version :: u16
  r_subject :: bytes
  r_profile :: string
  r_sequence :: u64
  r_issued_at :: u64
  r_expires_at :: u64
  r_previous :: "bytes option"
  r_status :: record_status
  r_keys :: "identity_key list"
  r_endpoints :: "identity_endpoint list"
  r_capabilities :: "string list"
  r_signatures :: "record_signature list"

section \<open>Checks\<close>

definition token_char :: "char \<Rightarrow> bool" where
  "token_char c \<longleftrightarrow> (let v = of_char c :: nat in
     48 \<le> v \<and> v \<le> 57 \<or> 65 \<le> v \<and> v \<le> 90 \<or> 97 \<le> v \<and> v \<le> 122) \<or> c \<in> set ''-_.+:''"

definition validate_token :: "string \<Rightarrow> string \<Rightarrow> usize \<Rightarrow> unit checked" where
  "validate_token label value mx =
     (if value = [] \<or> mx < length value then Inl (InvalidRecord (label @ '' is empty or exceeds '' @ show_nat mx @ '' bytes''))
      else if \<not> list_all token_char value then Inl (InvalidRecord (label @ '' contains unsupported characters''))
      else Inr ())"

definition validate_record_text :: "string \<Rightarrow> string \<Rightarrow> usize \<Rightarrow> unit checked" where
  "validate_record_text label value mx =
     (if value = [] \<or> mx < length value \<or> has_control value
        then Inl (InvalidRecord (label @ '' is empty, too long, or contains control characters''))
      else Inr ())"

definition append_bytes :: "bytes \<Rightarrow> bytes" where
  "append_bytes value = be_bytes 4 (length value) @ value"

definition append_string :: "string \<Rightarrow> bytes" where
  "append_string value = append_bytes (as_bytes value)"

definition derive_identity_id :: "suite \<Rightarrow> bytes \<Rightarrow> bytes" where
  "derive_identity_id S root_public = sha256 S (IDENTITY_ID_DOMAIN @ append_bytes root_public)"

definition derive_key_id :: "suite \<Rightarrow> key_role \<Rightarrow> string \<Rightarrow> bytes \<Rightarrow> bytes" where
  "derive_key_id S role algorithm public_key =
     sha256 S (as_bytes ''shph/key-id/v1'' @ [of_nat (role_code role)] @ append_string algorithm @ append_bytes public_key)"

definition validate_key_material :: "string \<Rightarrow> bytes \<Rightarrow> unit checked" where
  "validate_key_material algorithm public_key =
     (case validate_token ''algorithm'' algorithm MAX_ALGORITHM_BYTES of Inl e \<Rightarrow> Inl e | Inr _ \<Rightarrow>
      if public_key = [] \<or> MAX_PUBLIC_KEY_BYTES < length public_key then Inl (InvalidRecord ''public key has an invalid size'')
      else if algorithm \<in> {ALGORITHM_ED25519, ALGORITHM_X25519} \<and> length public_key \<noteq> 32
        then Inl (InvalidRecord (algorithm @ '' public key must be 32 bytes''))
      else Inr ())"

definition identity_key_new :: "suite \<Rightarrow> key_role \<Rightarrow> string \<Rightarrow> bytes \<Rightarrow> u64 \<Rightarrow> u64 \<Rightarrow> bytes option \<Rightarrow> identity_key checked" where
  "identity_key_new S role algorithm public_key not_before not_after previous =
     (case validate_key_material algorithm public_key of Inl e \<Rightarrow> Inl e | Inr _ \<Rightarrow>
      if not_after < not_before then Inl (InvalidRecord ''identity key expires before it becomes valid'')
      else let key_id = derive_key_id S role algorithm public_key in
        if previous = Some key_id then Inl (InvalidRecord ''identity key cannot supersede itself'')
        else Inr \<lparr>k_id = key_id, k_role = role, k_algorithm = algorithm, k_public = public_key, k_not_before = not_before,
               k_not_after = not_after, k_previous = previous\<rparr>)"

definition validate_identity_endpoint :: "identity_endpoint \<Rightarrow> unit checked" where
  "validate_identity_endpoint e =
     (case validate_token ''transport'' (ep_transport e) MAX_STRING_BYTES of Inl x \<Rightarrow> Inl x | Inr _ \<Rightarrow>
      validate_record_text ''endpoint address'' (ep_address e) MAX_STRING_BYTES)"

definition identity_endpoint_new :: "string \<Rightarrow> string \<Rightarrow> u16 \<Rightarrow> identity_endpoint checked" where
  "identity_endpoint_new transport address priority =
     (let e = \<lparr>ep_transport = transport, ep_address = address, ep_priority = priority\<rparr> in
      case validate_identity_endpoint e of Inl x \<Rightarrow> Inl x | Inr _ \<Rightarrow> Inr e)"

definition require :: "bool \<Rightarrow> string \<Rightarrow> unit checked" where
  "require ok message = (if ok then Inr () else Inl (InvalidRecord message))"

fun all_checks :: "unit checked list \<Rightarrow> unit checked" where
  "all_checks [] = Inr ()"
| "all_checks (Inl e # cs) = Inl e"
| "all_checks (Inr _ # cs) = all_checks cs"

text \<open>The loop over the keys, with the key ids seen so far.\<close>

definition check_key :: "suite \<Rightarrow> bytes set \<Rightarrow> identity_key \<Rightarrow> unit checked" where
  "check_key S seen k = all_checks
     [validate_key_material (k_algorithm k) (k_public k),
      require (k_id k = derive_key_id S (k_role k) (k_algorithm k) (k_public k)) (''key id does not match '' @ role_string (k_role k) @ '' key material''),
      require (k_not_before k \<le> k_not_after k) ''key expiration precedes key activation'',
      require (k_previous k \<noteq> Some (k_id k)) ''key cannot supersede itself'',
      require (k_id k \<notin> seen) ''record contains duplicate key ids'']"

fun check_keys :: "suite \<Rightarrow> bytes set \<Rightarrow> identity_key list \<Rightarrow> unit checked" where
  "check_keys S seen [] = Inr ()"
| "check_keys S seen (k # ks) = (case check_key S seen k of Inl e \<Rightarrow> Inl e | Inr _ \<Rightarrow> check_keys S (insert (k_id k) seen) ks)"

fun check_endpoints :: "identity_endpoint set \<Rightarrow> identity_endpoint list \<Rightarrow> unit checked" where
  "check_endpoints seen [] = Inr ()"
| "check_endpoints seen (e # es) =
     (case validate_identity_endpoint e of Inl x \<Rightarrow> Inl x | Inr _ \<Rightarrow>
      if e \<in> seen then Inl (InvalidRecord ''record contains duplicate endpoints'') else check_endpoints (insert e seen) es)"

fun check_capabilities :: "string set \<Rightarrow> string list \<Rightarrow> unit checked" where
  "check_capabilities seen [] = Inr ()"
| "check_capabilities seen (c # cs) =
     (case validate_token ''capability'' c MAX_STRING_BYTES of Inl x \<Rightarrow> Inl x | Inr _ \<Rightarrow>
      if c \<in> seen then Inl (InvalidRecord ''record contains duplicate capabilities'') else check_capabilities (insert c seen) cs)"

definition root_key :: "identity_record \<Rightarrow> identity_key option" where
  "root_key r = find (\<lambda>k. k_role k = RootSigning) (r_keys r)"

definition validate_subject_binding :: "suite \<Rightarrow> identity_record \<Rightarrow> unit checked" where
  "validate_subject_binding S r =
     (case root_key r of
        None \<Rightarrow> Inl (InvalidRecord ''record has no root signing key'')
      | Some k \<Rightarrow> require (r_subject r = derive_identity_id S (k_public k)) ''record subject is not bound to the root signing key'')"

definition check_status :: "identity_record \<Rightarrow> unit checked" where
  "check_status r =
     (case r_status r of
        Active \<Rightarrow> Inr ()
      | Revoked revoked_at reason \<Rightarrow>
          if revoked_at < r_issued_at r \<or> r_expires_at r < revoked_at
            then Inl (InvalidRecord ''revocation timestamp is outside the record lifetime'')
          else validate_record_text ''revocation reason'' reason MAX_STRING_BYTES)"

definition validate_structure_without_signatures :: "suite \<Rightarrow> identity_record \<Rightarrow> unit checked" where
  "validate_structure_without_signatures S r = all_checks
     [require (r_version r = IDENTITY_RECORD_VERSION) (''unsupported record version '' @ show_nat (r_version r)),
      require (r_sequence r \<noteq> 0) ''record sequence must start at one'',
      require (\<not> (r_sequence r = 1 \<and> r_previous r \<noteq> None)) ''initial record cannot reference a previous record'',
      require (\<not> (1 < r_sequence r \<and> r_previous r = None)) ''non-initial record must reference a previous record'',
      require (r_issued_at r < r_expires_at r) ''record expiration must be after issuance'',
      require (r_expires_at r - r_issued_at r \<le> MAX_RECORD_LIFETIME_SECS) ''record lifetime exceeds the safety limit'',
      validate_token ''signature profile'' (r_profile r) MAX_ALGORITHM_BYTES,
      require (r_keys r \<noteq> [] \<and> length (r_keys r) \<le> MAX_KEYS) (''record must contain between one and '' @ show_nat MAX_KEYS @ '' keys''),
      check_keys S {} (r_keys r),
      require (length (filter (\<lambda>k. k_role k = RootSigning) (r_keys r)) = 1) ''record must contain exactly one root signing key'',
      validate_subject_binding S r,
      require (length (r_endpoints r) \<le> MAX_ENDPOINTS) (''record contains more than '' @ show_nat MAX_ENDPOINTS @ '' endpoints''),
      check_endpoints {} (r_endpoints r),
      require (length (r_capabilities r) \<le> MAX_CAPABILITIES) (''record contains more than '' @ show_nat MAX_CAPABILITIES @ '' capabilities''),
      check_capabilities {} (r_capabilities r),
      check_status r]"

text \<open>The loop over the signatures: the pairs seen so far, and whether the root key has signed.\<close>

definition find_key :: "identity_record \<Rightarrow> bytes \<Rightarrow> identity_key option" where
  "find_key r i = find (\<lambda>k. k_id k = i) (r_keys r)"

fun check_signatures :: "identity_record \<Rightarrow> bytes \<Rightarrow> (bytes \<times> string) set \<Rightarrow> bool \<Rightarrow> record_signature list \<Rightarrow> unit checked" where
  "check_signatures r root seen has_root [] =
     require has_root ''record must include a signature by the root signing key''"
| "check_signatures r root seen has_root (s # ss) =
     (if sg_signature s = [] \<or> MAX_PUBLIC_KEY_BYTES < length (sg_signature s)
        then Inl (InvalidRecord ''record signature has an invalid size'')
      else (case validate_token ''signature algorithm'' (sg_algorithm s) MAX_ALGORITHM_BYTES of Inl e \<Rightarrow> Inl e | Inr _ \<Rightarrow>
      if (sg_key_id s, sg_algorithm s) \<in> seen then Inl (InvalidRecord ''record contains duplicate signatures'')
      else (case find_key r (sg_key_id s) of
        None \<Rightarrow> Inl (InvalidRecord ''record signature references an unknown key'')
      | Some k \<Rightarrow>
          if k_algorithm k \<noteq> sg_algorithm s \<or> \<not> accepts_record_signature (k_role k)
            then Inl (InvalidRecord ''record signature key is not authorized for record signing'')
          else check_signatures r root (insert (sg_key_id s, sg_algorithm s) seen) (has_root \<or> sg_key_id s = root) ss)))"

definition validate_structure :: "suite \<Rightarrow> identity_record \<Rightarrow> unit checked" where
  "validate_structure S r =
     (case validate_structure_without_signatures S r of Inl e \<Rightarrow> Inl e | Inr _ \<Rightarrow>
      if r_signatures r = [] then Inl (InvalidRecord ''record must contain at least one signature'')
      else (case root_key r of
        None \<Rightarrow> Inl (InvalidRecord ''record has no root signing key'')
      | Some k \<Rightarrow> check_signatures r (k_id k) {} False (r_signatures r)))"

section \<open>The canonical payload\<close>

definition encode_link :: "bytes option \<Rightarrow> bytes" where
  "encode_link link = (case link of None \<Rightarrow> [0] | Some h \<Rightarrow> [1] @ h)"

definition encode_status :: "record_status \<Rightarrow> bytes" where
  "encode_status st = (case st of Active \<Rightarrow> [0] | Revoked revoked_at reason \<Rightarrow> [1] @ be_bytes 8 revoked_at @ append_string reason)"

definition encode_identity_key :: "identity_key \<Rightarrow> bytes" where
  "encode_identity_key k = [of_nat (role_code (k_role k))] @ append_string (k_algorithm k) @ k_id k @ append_bytes (k_public k)
     @ be_bytes 8 (k_not_before k) @ be_bytes 8 (k_not_after k) @ encode_link (k_previous k)"

definition encode_identity_endpoint :: "identity_endpoint \<Rightarrow> bytes" where
  "encode_identity_endpoint e = append_string (ep_transport e) @ append_string (ep_address e) @ be_bytes 2 (ep_priority e)"

text \<open>The stable sorts, in the order of the bytes as \<open>str::cmp\<close> and the derived \<open>Ord\<close> have it.\<close>

definition sorted_keys :: "identity_key list \<Rightarrow> identity_key list" where
  "sorted_keys = sort_key (\<lambda>k. (k_id k, role_code (k_role k), as_bytes (k_algorithm k)))"

definition sorted_endpoints :: "identity_endpoint list \<Rightarrow> identity_endpoint list" where
  "sorted_endpoints = sort_key (\<lambda>e. (as_bytes (ep_transport e), as_bytes (ep_address e), ep_priority e))"

definition sorted_capabilities :: "string list \<Rightarrow> string list" where
  "sorted_capabilities = sort_key as_bytes"

definition payload_head :: "identity_record \<Rightarrow> bytes" where
  "payload_head r = RECORD_DOMAIN @ be_bytes 2 (r_version r) @ r_subject r @ append_string (r_profile r) @ be_bytes 8 (r_sequence r)
     @ be_bytes 8 (r_issued_at r) @ be_bytes 8 (r_expires_at r) @ encode_link (r_previous r) @ encode_status (r_status r)"

definition canonical_payload :: "suite \<Rightarrow> identity_record \<Rightarrow> bytes checked" where
  "canonical_payload S r =
     (case validate_structure_without_signatures S r of Inl e \<Rightarrow> Inl e | Inr _ \<Rightarrow>
      let keys = sorted_keys (r_keys r); endpoints = sorted_endpoints (r_endpoints r); capabilities = sorted_capabilities (r_capabilities r) in
      Inr (payload_head r
        @ be_bytes 4 (length keys) @ concat (map encode_identity_key keys)
        @ be_bytes 4 (length endpoints) @ concat (map encode_identity_endpoint endpoints)
        @ be_bytes 4 (length capabilities) @ concat (map append_string capabilities)))"

definition sorted_signatures :: "record_signature list \<Rightarrow> record_signature list" where
  "sorted_signatures = sort_key (\<lambda>s. (sg_key_id s, as_bytes (sg_algorithm s), sg_signature s))"

definition encode_signature :: "record_signature \<Rightarrow> bytes" where
  "encode_signature s = sg_key_id s @ append_string (sg_algorithm s) @ append_bytes (sg_signature s)"

definition record_hash :: "suite \<Rightarrow> identity_record \<Rightarrow> bytes checked" where
  "record_hash S r =
     (case validate_structure S r of Inl e \<Rightarrow> Inl e | Inr _ \<Rightarrow>
      (case canonical_payload S r of Inl e \<Rightarrow> Inl e | Inr payload \<Rightarrow>
       let signatures = sorted_signatures (r_signatures r) in
       Inr (sha256 S (RECORD_DOMAIN @ append_bytes payload @ be_bytes 4 (length signatures) @ concat (map encode_signature signatures)))))"

section \<open>Signing and verifying\<close>

definition sign_with_identity :: "suite \<Rightarrow> identity_key_pair \<Rightarrow> identity_record \<Rightarrow> identity_record checked" where
  "sign_with_identity S identity r =
     (if r_profile r \<noteq> PROFILE_ED25519 then Inl (UnsupportedAlgorithm (r_profile r))
      else if r_signatures r \<noteq> [] then Inl (InvalidRecord ''record is already signed'')
      else (case find (\<lambda>k. k_role k = RootSigning \<and> k_algorithm k = ALGORITHM_ED25519 \<and> k_public k = ik_signing_public identity) (r_keys r) of
        None \<Rightarrow> Inl (InvalidRecord (''identity signing key is not the record'' @ [CHR 0x27] @ ''s root signing key''))
      | Some k \<Rightarrow>
      (case canonical_payload S r of Inl e \<Rightarrow> Inl e | Inr payload \<Rightarrow>
       Inr (r\<lparr>r_signatures := [\<lparr>sg_key_id = k_id k, sg_algorithm = ALGORITHM_ED25519,
              sg_signature = ed_sign S (ik_sign_seed identity) payload\<rparr>]\<rparr>))))"

definition from_current_identity_with_previous ::
    "suite \<Rightarrow> identity_key_pair \<Rightarrow> u64 \<Rightarrow> u64 \<Rightarrow> u64 \<Rightarrow> bytes option \<Rightarrow> identity_endpoint list \<Rightarrow> string list \<Rightarrow> identity_record checked" where
  "from_current_identity_with_previous S identity sequence issued_at expires_at previous endpoints capabilities =
     (let root_public = ik_signing_public identity; subject = derive_identity_id S root_public in
      case identity_key_new S RootSigning ALGORITHM_ED25519 root_public issued_at expires_at None of Inl e \<Rightarrow> Inl e | Inr root \<Rightarrow>
      (case identity_key_new S IdentityBinding ALGORITHM_X25519 (ik_public identity) issued_at expires_at None of Inl e \<Rightarrow> Inl e | Inr binding \<Rightarrow>
       sign_with_identity S identity
         \<lparr>r_version = IDENTITY_RECORD_VERSION, r_subject = subject, r_profile = PROFILE_ED25519, r_sequence = sequence,
          r_issued_at = issued_at, r_expires_at = expires_at, r_previous = previous, r_status = Active, r_keys = [root, binding],
          r_endpoints = endpoints, r_capabilities = capabilities, r_signatures = []\<rparr>))"

definition from_current_identity ::
    "suite \<Rightarrow> identity_key_pair \<Rightarrow> u64 \<Rightarrow> u64 \<Rightarrow> u64 \<Rightarrow> identity_endpoint list \<Rightarrow> string list \<Rightarrow> identity_record checked" where
  "from_current_identity S identity sequence issued_at expires_at endpoints capabilities =
     from_current_identity_with_previous S identity sequence issued_at expires_at None endpoints capabilities"

record verification_policy =
  vp_now :: u64
  vp_skew :: u64
  vp_subject :: "bytes option"
  vp_require_pqc :: bool

definition verification_policy_at :: "u64 \<Rightarrow> verification_policy" where
  "verification_policy_at now = \<lparr>vp_now = now, vp_skew = DEFAULT_CLOCK_SKEW_SECS, vp_subject = None, vp_require_pqc = False\<rparr>"

record verification_result =
  vr_subject :: bytes
  vr_pqc :: bool

definition verify_signature :: "suite \<Rightarrow> verification_policy \<Rightarrow> identity_record \<Rightarrow> bytes \<Rightarrow> record_signature \<Rightarrow> unit checked" where
  "verify_signature S pol r payload s =
     (case find_key r (sg_key_id s) of
        None \<Rightarrow> Inl (InvalidRecord ''record signature references an unknown key'')
      | Some k \<Rightarrow>
      if r_issued_at r < k_not_before k \<or> k_not_after k < r_issued_at r
        then Inl (InvalidRecord ''record signature key was not valid when the record was issued'')
      else if sat_add u64_max (vp_now pol) (vp_skew pol) < k_not_before k then Inl NotYetValid
      else if sat_add u64_max (k_not_after k) (vp_skew pol) < vp_now pol then Inl Expired
      else if sg_algorithm s = ALGORITHM_ED25519 then
        (if length (k_public k) \<noteq> 32 \<or> length (sg_signature s) \<noteq> 64
           then Inl (InvalidRecord ''Ed25519 record signature has the wrong size'')
         else if \<not> ed_verify S (k_public k) payload (sg_signature s) then Inl InvalidSignature
         else Inr ())
      else Inl (UnsupportedAlgorithm (sg_algorithm s)))"

text \<open>The loop over the signatures; the flag is \<open>valid_ed25519\<close>.\<close>

fun verify_signatures :: "suite \<Rightarrow> verification_policy \<Rightarrow> identity_record \<Rightarrow> bytes \<Rightarrow> bool \<Rightarrow> record_signature list \<Rightarrow> bool checked" where
  "verify_signatures S pol r payload valid [] = Inr valid"
| "verify_signatures S pol r payload valid (s # ss) =
     (case verify_signature S pol r payload s of Inl e \<Rightarrow> Inl e | Inr _ \<Rightarrow> verify_signatures S pol r payload True ss)"

definition verify_record :: "suite \<Rightarrow> verification_policy \<Rightarrow> identity_record \<Rightarrow> verification_result checked" where
  "verify_record S pol r =
     (if MAX_CLOCK_SKEW_SECS < vp_skew pol then Inl (InvalidRecord ''verification clock skew exceeds the safety limit'')
      else (case validate_structure S r of Inl e \<Rightarrow> Inl e | Inr _ \<Rightarrow>
      (case validate_subject_binding S r of Inl e \<Rightarrow> Inl e | Inr _ \<Rightarrow>
      if vp_subject pol \<noteq> None \<and> vp_subject pol \<noteq> Some (r_subject r)
        then Inl (InvalidRecord ''record subject does not match the expected identity'')
      else if sat_add u64_max (vp_now pol) (vp_skew pol) < r_issued_at r then Inl NotYetValid
      else if sat_add u64_max (r_expires_at r) (vp_skew pol) < vp_now pol then Inl Expired
      else if r_profile r \<noteq> PROFILE_ED25519 then Inl (UnsupportedAlgorithm (r_profile r))
      else (case canonical_payload S r of Inl e \<Rightarrow> Inl e | Inr payload \<Rightarrow>
      (case verify_signatures S pol r payload False (r_signatures r) of Inl e \<Rightarrow> Inl e | Inr valid \<Rightarrow>
      if \<not> valid then Inl InvalidSignature
      else if vp_require_pqc pol then Inl (UnsupportedAlgorithm ''a post-quantum signature is required by policy'')
      else Inr \<lparr>vr_subject = r_subject r, vr_pqc = False\<rparr>)))))"

definition key_valid_for_record_and_policy :: "identity_key \<Rightarrow> u64 \<Rightarrow> verification_policy \<Rightarrow> bool" where
  "key_valid_for_record_and_policy k issued_at pol \<longleftrightarrow>
     k_not_before k \<le> issued_at \<and> issued_at \<le> k_not_after k \<and> k_not_before k \<le> vp_now pol \<and> vp_now pol \<le> k_not_after k"

definition current_keys :: "identity_record \<Rightarrow> verification_policy \<Rightarrow> key_role \<Rightarrow> string \<Rightarrow> identity_key list" where
  "current_keys r pol role algorithm =
     filter (\<lambda>k. k_role k = role \<and> k_algorithm k = algorithm \<and> key_valid_for_record_and_policy k (r_issued_at r) pol) (r_keys r)"

definition to_peer_pin :: "suite \<Rightarrow> verification_policy \<Rightarrow> identity_record \<Rightarrow> peer_pin checked" where
  "to_peer_pin S pol r =
     (case verify_record S pol r of Inl e \<Rightarrow> Inl e | Inr _ \<Rightarrow>
      if r_status r \<noteq> Active then Inl (InvalidRecord ''revoked identity cannot produce a peer pin'')
      else (case current_keys r pol IdentityBinding ALGORITHM_X25519 of
        [] \<Rightarrow> Inl (InvalidRecord ''record has no currently valid X25519 identity binding'')
      | _ # _ # _ \<Rightarrow> Inl (InvalidRecord ''record has ambiguous current X25519 identity bindings'')
      | [identity_key] \<Rightarrow>
      if current_keys r pol OperationalSigning ALGORITHM_ED25519 \<noteq> []
        then Inl (InvalidRecord ''record contains a current operational signing key that shph-core cannot emit in a handshake; pin generation requires the root signing key'')
      else (case current_keys r pol RootSigning ALGORITHM_ED25519 of
        [] \<Rightarrow> Inl (InvalidRecord ''record has no currently valid Ed25519 handshake signing key'')
      | signing_key # _ \<Rightarrow>
      if length (k_public identity_key) \<noteq> 32 then Inl (InvalidRecord ''X25519 binding must be 32 bytes'')
      else if length (k_public signing_key) \<noteq> 32 then Inl (InvalidRecord ''Ed25519 signing key must be 32 bytes'')
      else Inr \<lparr>identity_public = k_public identity_key, signing_public = k_public signing_key\<rparr>)))"

section \<open>Discovery\<close>

record plugin_descriptor =
  pd_api_version :: u16
  pd_plugin_id :: string
  pd_provider_kind :: string
  pd_capabilities :: "string list"

fun check_plugin_capabilities :: "string set \<Rightarrow> string list \<Rightarrow> unit checked" where
  "check_plugin_capabilities seen [] = Inr ()"
| "check_plugin_capabilities seen (c # cs) =
     (case validate_token ''plugin capability'' c MAX_STRING_BYTES of Inl x \<Rightarrow> Inl x | Inr _ \<Rightarrow>
      if c \<in> seen then Inl (InvalidRecord ''plugin descriptor contains duplicate capabilities'')
      else check_plugin_capabilities (insert c seen) cs)"

definition validate_descriptor :: "plugin_descriptor \<Rightarrow> unit checked" where
  "validate_descriptor d = all_checks
     [require (pd_api_version d = DISCOVERY_PLUGIN_API_VERSION) (''unsupported discovery plugin API version '' @ show_nat (pd_api_version d)),
      validate_token ''plugin id'' (pd_plugin_id d) MAX_STRING_BYTES,
      validate_token ''provider kind'' (pd_provider_kind d) MAX_STRING_BYTES,
      require (length (pd_capabilities d) \<le> MAX_PLUGIN_CAPABILITIES) (''plugin exposes more than '' @ show_nat MAX_PLUGIN_CAPABILITIES @ '' capabilities''),
      check_plugin_capabilities {} (pd_capabilities d)]"

definition descriptor_new :: "string \<Rightarrow> string \<Rightarrow> string list \<Rightarrow> plugin_descriptor checked" where
  "descriptor_new plugin_id provider_kind capabilities =
     (let d = \<lparr>pd_api_version = DISCOVERY_PLUGIN_API_VERSION, pd_plugin_id = plugin_id, pd_provider_kind = provider_kind,
               pd_capabilities = capabilities\<rparr> in
      case validate_descriptor d of Inl e \<Rightarrow> Inl e | Inr _ \<Rightarrow> Inr d)"

definition descriptor_minimal :: "string \<Rightarrow> plugin_descriptor" where
  "descriptor_minimal plugin_id =
     \<lparr>pd_api_version = DISCOVERY_PLUGIN_API_VERSION, pd_plugin_id = plugin_id, pd_provider_kind = ''unknown'', pd_capabilities = []\<rparr>"

text \<open>What a provider answers during one resolution; \<open>None\<close> is a panic caught by \<open>catch_unwind\<close>.\<close>

record discovery_provider =
  dp_describe :: "(string \<times> plugin_descriptor) option"
  dp_fetch :: "bytes \<Rightarrow> identity_record list checked option"

record accepted_record =
  ar_sequence :: u64
  ar_hash :: bytes

type_synonym discovery_resolver = "bytes \<rightharpoonup> accepted_record"

record resolution =
  rs_record :: identity_record
  rs_hash :: bytes
  rs_consulted :: usize
  rs_invalid :: usize

text \<open>One provider: the candidates so far and the number of failures.\<close>

definition consult :: "bytes \<Rightarrow> discovery_provider \<Rightarrow> identity_record list \<times> usize \<Rightarrow> identity_record list \<times> usize" where
  "consult subject p = (\<lambda>(candidates, failures).
     case dp_describe p of
       None \<Rightarrow> (candidates, failures + 1)
     | Some (provider_id, descriptor) \<Rightarrow>
     if (case validate_descriptor descriptor of Inl _ \<Rightarrow> True | Inr _ \<Rightarrow> False) \<or> pd_plugin_id descriptor \<noteq> provider_id
       then (candidates, failures + 1)
     else (case dp_fetch p subject of
       None \<Rightarrow> (candidates, failures + 1)
     | Some (Inl _) \<Rightarrow> (candidates, failures + 1)
     | Some (Inr records) \<Rightarrow>
         if MAX_PROVIDER_RECORDS < length records then (candidates, failures + 1)
         else if MAX_TOTAL_CANDIDATES < sat_add usize_max (length candidates) (length records) then (candidates, failures + 1)
         else (candidates @ records, failures)))"

text \<open>The loop over the candidates.  \<open>valid_by_sequence\<close> is the list of its entries; a second record with the same sequence
  and hash is not inserted.\<close>

definition or_insert :: "(u64 \<times> bytes \<times> identity_record) list \<Rightarrow> u64 \<Rightarrow> bytes \<Rightarrow> identity_record \<Rightarrow> (u64 \<times> bytes \<times> identity_record) list" where
  "or_insert valid q h r = (if list_ex (\<lambda>(q', h', _). q' = q \<and> h' = h) valid then valid else valid @ [(q, h, r)])"

fun sift :: "suite \<Rightarrow> verification_policy \<Rightarrow> bytes \<Rightarrow> (u64 \<times> bytes \<times> identity_record) list \<Rightarrow> usize \<Rightarrow> identity_record list
    \<Rightarrow> ((u64 \<times> bytes \<times> identity_record) list \<times> usize) checked" where
  "sift S pol subject valid invalid [] = Inr (valid, invalid)"
| "sift S pol subject valid invalid (r # rs) =
     (if r_subject r \<noteq> subject then sift S pol subject valid (invalid + 1) rs
      else (case verify_record S pol r of
        Inl _ \<Rightarrow> sift S pol subject valid (invalid + 1) rs
      | Inr _ \<Rightarrow>
      (case record_hash S r of
        Inl e \<Rightarrow> Inl e
      | Inr h \<Rightarrow>
          sift S pol subject (or_insert valid (r_sequence r) h r) invalid rs)))"

definition latest :: "(u64 \<times> bytes \<times> identity_record) list \<Rightarrow> (u64 \<times> bytes \<times> identity_record) list" where
  "latest valid = filter (\<lambda>(q, _). q = Max (set (map fst valid))) valid"

text \<open>The continuity check and the update of \<open>accepted\<close>.\<close>

definition accept_record :: "discovery_resolver \<Rightarrow> bytes \<Rightarrow> u64 \<Rightarrow> bytes \<Rightarrow> identity_record \<Rightarrow> resolution \<Rightarrow> resolution checked \<times> discovery_resolver" where
  "accept_record acc subject sequence h r res =
     (case acc subject of
        Some prev \<Rightarrow>
          if sequence < ar_sequence prev then (Inl Replay, acc)
          else if sequence = ar_sequence prev then (if h = ar_hash prev then (Inr res, acc) else (Inl (Conflict sequence), acc))
          else if sequence \<noteq> sat_add u64_max (ar_sequence prev) 1 \<or> r_previous r \<noteq> Some (ar_hash prev) then (Inl Replay, acc)
          else (Inr res, acc(subject \<mapsto> \<lparr>ar_sequence = sequence, ar_hash = h\<rparr>))
      | None \<Rightarrow>
          if sequence \<noteq> 1 then (Inl Replay, acc)
          else (Inr res, acc(subject \<mapsto> \<lparr>ar_sequence = sequence, ar_hash = h\<rparr>)))"

definition resolve :: "suite \<Rightarrow> discovery_resolver \<Rightarrow> bytes \<Rightarrow> discovery_provider list \<Rightarrow> verification_policy
    \<Rightarrow> resolution checked \<times> discovery_resolver" where
  "resolve S acc subject providers pol =
     (if MAX_DISCOVERY_PROVIDERS < length providers
        then (Inl (InvalidRecord (''resolution requested with more than '' @ show_nat MAX_DISCOVERY_PROVIDERS @ '' providers'')), acc)
      else if MAX_CLOCK_SKEW_SECS < vp_skew pol
        then (Inl (InvalidRecord ''verification clock skew exceeds the safety limit''), acc)
      else let (candidates, failures) = fold (consult subject) providers ([], 0) in
      if candidates = [] then
        (if providers \<noteq> [] \<and> failures = length providers
           then (Inl (ProviderUnavailable ''all configured discovery providers failed''), acc)
         else (Inl NotFound, acc))
      else (case sift S pol subject [] 0 candidates of
        Inl e \<Rightarrow> (Inl e, acc)
      | Inr (valid, invalid) \<Rightarrow>
      (case latest valid of
        [] \<Rightarrow> (Inl NotFound, acc)
      | (sequence, _) # _ # _ \<Rightarrow> (Inl (Conflict sequence), acc)
      | [(sequence, h, r)] \<Rightarrow>
          accept_record acc subject sequence h r
            \<lparr>rs_record = r, rs_hash = h, rs_consulted = length providers, rs_invalid = invalid\<rparr>)))"

section \<open>The payload determines the record\<close>

text \<open>The widths of the Rust types.\<close>

definition link_sized :: "bytes option \<Rightarrow> bool" where
  "link_sized l \<longleftrightarrow> (case l of None \<Rightarrow> True | Some h \<Rightarrow> length h = 32)"

definition key_sized :: "identity_key \<Rightarrow> bool" where
  "key_sized k \<longleftrightarrow> length (k_id k) = 32 \<and> k_not_before k \<le> u64_max \<and> k_not_after k \<le> u64_max \<and> link_sized (k_previous k)"

definition record_sized :: "identity_record \<Rightarrow> bool" where
  "record_sized r \<longleftrightarrow> length (r_subject r) = 32 \<and> r_version r \<le> u16_max \<and> r_sequence r \<le> u64_max \<and> r_issued_at r \<le> u64_max
     \<and> r_expires_at r \<le> u64_max \<and> link_sized (r_previous r) \<and> list_all key_sized (r_keys r)
     \<and> list_all (\<lambda>e. ep_priority e \<le> u16_max) (r_endpoints r)
     \<and> (case r_status r of Active \<Rightarrow> True | Revoked at _ \<Rightarrow> at \<le> u64_max)"

lemma be_cut: "be_bytes n v @ r = be_bytes n w @ s \<Longrightarrow> v < 256 ^ n \<Longrightarrow> w < 256 ^ n \<Longrightarrow> v = w \<and> r = s"
  using be_bytes_inj [of n v w] by simp

lemma role_code_inj: "(of_nat (role_code a) :: byte) = of_nat (role_code b) \<Longrightarrow> a = b"
  by (cases a; cases b) simp_all

interpretation bytes_code: prefix_code append_bytes "\<lambda>b. length b \<le> u32_max"
proof
  fix x y r s :: bytes
  assume *: "length x \<le> u32_max" "length y \<le> u32_max" "append_bytes x @ r = append_bytes y @ s"
  have "be_bytes 4 (length x) @ (x @ r) = be_bytes 4 (length y) @ (y @ s)"
    using *(3) unfolding append_bytes_def append_assoc .
  from be_cut [OF this] *(1,2) have "length x = length y" "x @ r = y @ s" by (simp_all add: u32_max_def)
  then show "x = y \<and> r = s" by simp
qed

interpretation string_code: prefix_code append_string "\<lambda>s. length s \<le> u32_max"
proof
  fix x y :: string and r s
  assume "length x \<le> u32_max" "length y \<le> u32_max" "append_string x @ r = append_string y @ s"
  then show "x = y \<and> r = s"
    using bytes_code.enc_cut [of "as_bytes x" "as_bytes y" r s] by (simp add: append_string_def as_bytes_inj)
qed

interpretation link_code: prefix_code encode_link link_sized
  by unfold_locales (auto simp: encode_link_def link_sized_def split: option.splits)

interpretation status_code: prefix_code encode_status
  "\<lambda>st. case st of Active \<Rightarrow> True | Revoked at reason \<Rightarrow> at \<le> u64_max \<and> length reason \<le> u32_max"
proof
  fix x y r s
  assume *: "case x of Active \<Rightarrow> True | Revoked at reason \<Rightarrow> at \<le> u64_max \<and> length reason \<le> u32_max"
    "case y of Active \<Rightarrow> True | Revoked at reason \<Rightarrow> at \<le> u64_max \<and> length reason \<le> u32_max"
    "encode_status x @ r = encode_status y @ s"
  show "x = y \<and> r = s"
  proof (cases x; cases y)
    fix a ra b rb
    assume xy: "x = Revoked a ra" "y = Revoked b rb"
    with * have "be_bytes 8 a @ (append_string ra @ r) = be_bytes 8 b @ (append_string rb @ s)" by (simp add: encode_status_def)
    from be_cut [OF this] * xy have "a = b" "append_string ra @ r = append_string rb @ s" by (simp_all add: u64_max_def)
    with string_code.enc_cut [of ra rb r s] * xy show ?thesis by simp
  qed (use * in \<open>simp_all add: encode_status_def\<close>)
qed

interpretation endpoint_code: prefix_code encode_identity_endpoint
  "\<lambda>e. length (ep_transport e) \<le> u32_max \<and> length (ep_address e) \<le> u32_max \<and> ep_priority e \<le> u16_max"
proof
  fix x y :: identity_endpoint and r s
  assume *: "length (ep_transport x) \<le> u32_max \<and> length (ep_address x) \<le> u32_max \<and> ep_priority x \<le> u16_max"
    "length (ep_transport y) \<le> u32_max \<and> length (ep_address y) \<le> u32_max \<and> ep_priority y \<le> u16_max"
    "encode_identity_endpoint x @ r = encode_identity_endpoint y @ s"
  then have "append_string (ep_transport x) @ (append_string (ep_address x) @ be_bytes 2 (ep_priority x) @ r)
     = append_string (ep_transport y) @ (append_string (ep_address y) @ be_bytes 2 (ep_priority y) @ s)"
    by (simp add: encode_identity_endpoint_def)
  from string_code.enc_cut [OF _ _ this] * have 1: "ep_transport x = ep_transport y"
    "append_string (ep_address x) @ (be_bytes 2 (ep_priority x) @ r) = append_string (ep_address y) @ (be_bytes 2 (ep_priority y) @ s)"
    by simp_all
  from string_code.enc_cut [OF _ _ 1(2)] * have 2: "ep_address x = ep_address y"
    "be_bytes 2 (ep_priority x) @ r = be_bytes 2 (ep_priority y) @ s" by simp_all
  from be_cut [OF 2(2)] * have "ep_priority x = ep_priority y" "r = s" by (simp_all add: u16_max_def)
  with 1(1) 2(1) show "x = y \<and> r = s" by simp
qed

interpretation key_code: prefix_code encode_identity_key
  "\<lambda>k. key_sized k \<and> length (k_algorithm k) \<le> u32_max \<and> length (k_public k) \<le> u32_max"
proof
  fix x y :: identity_key and r s
  assume *: "key_sized x \<and> length (k_algorithm x) \<le> u32_max \<and> length (k_public x) \<le> u32_max"
    "key_sized y \<and> length (k_algorithm y) \<le> u32_max \<and> length (k_public y) \<le> u32_max"
    "encode_identity_key x @ r = encode_identity_key y @ s"
  define tx where "tx = be_bytes 8 (k_not_before x) @ be_bytes 8 (k_not_after x) @ encode_link (k_previous x) @ r"
  define ty where "ty = be_bytes 8 (k_not_before y) @ be_bytes 8 (k_not_after y) @ encode_link (k_previous y) @ s"
  have "of_nat (role_code (k_role x)) # append_string (k_algorithm x) @ (k_id x @ append_bytes (k_public x) @ tx)
      = of_nat (role_code (k_role y)) # append_string (k_algorithm y) @ (k_id y @ append_bytes (k_public y) @ ty)"
    using *(3) by (simp only: encode_identity_key_def tx_def ty_def append_assoc append.simps)
  then have code: "(of_nat (role_code (k_role x)) :: byte) = of_nat (role_code (k_role y))"
    and cut: "append_string (k_algorithm x) @ (k_id x @ append_bytes (k_public x) @ tx)
      = append_string (k_algorithm y) @ (k_id y @ append_bytes (k_public y) @ ty)"
    by (simp_all only: list.inject)
  note role = role_code_inj [OF code]
  from string_code.enc_cut [OF _ _ cut] * have 1: "k_algorithm x = k_algorithm y" "k_id x = k_id y"
    "append_bytes (k_public x) @ tx = append_bytes (k_public y) @ ty" by (auto simp: key_sized_def)
  from bytes_code.enc_cut [OF _ _ 1(3)] * have 2: "k_public x = k_public y" "tx = ty" by auto
  from be_cut [OF 2(2) [unfolded tx_def ty_def]] * have 3: "k_not_before x = k_not_before y"
    "be_bytes 8 (k_not_after x) @ (encode_link (k_previous x) @ r) = be_bytes 8 (k_not_after y) @ (encode_link (k_previous y) @ s)"
    by (auto simp: key_sized_def u64_max_def)
  from be_cut [OF 3(2)] * have 4: "k_not_after x = k_not_after y" "encode_link (k_previous x) @ r = encode_link (k_previous y) @ s"
    by (auto simp: key_sized_def u64_max_def)
  from link_code.enc_cut [OF _ _ 4(2)] * have "k_previous x = k_previous y" "r = s" by (auto simp: key_sized_def)
  with role 1 2 3 4 show "x = y \<and> r = s" by simp
qed

text \<open>What the checks establish.\<close>

lemma unit_checked_cases: "(c = Inr ()) \<longleftrightarrow> (\<forall>e. c \<noteq> Inl e)" for c :: "unit checked"
  by (cases c) auto

lemma all_checks_iff [simp]: "all_checks cs = Inr () \<longleftrightarrow> (\<forall>c\<in>set cs. c = Inr ())"
  by (induction cs rule: all_checks.induct) auto

lemma require_iff [simp]: "require ok message = Inr () \<longleftrightarrow> ok"
  by (simp add: require_def)

lemma validate_token_iff [simp]:
  "validate_token label value mx = Inr () \<longleftrightarrow> value \<noteq> [] \<and> length value \<le> mx \<and> list_all token_char value"
  by (simp add: validate_token_def not_less)

lemma validate_record_text_iff [simp]:
  "validate_record_text label value mx = Inr () \<longleftrightarrow> value \<noteq> [] \<and> length value \<le> mx \<and> \<not> has_control value"
  by (auto simp: validate_record_text_def)

lemma checked_seq [simp]: "(case c of Inl e \<Rightarrow> Inl e | Inr _ \<Rightarrow> d) = Inr x \<longleftrightarrow> c = Inr () \<and> d = Inr x"
  for c :: "unit checked" and d :: "'a checked"
  by (cases c) auto

definition key_fine :: "suite \<Rightarrow> identity_key \<Rightarrow> bool" where
  "key_fine S k \<longleftrightarrow> validate_key_material (k_algorithm k) (k_public k) = Inr ()
     \<and> k_id k = derive_key_id S (k_role k) (k_algorithm k) (k_public k) \<and> k_not_before k \<le> k_not_after k \<and> k_previous k \<noteq> Some (k_id k)"

lemma check_keys_iff [simp]:
  "check_keys S seen ks = Inr () \<longleftrightarrow> (\<forall>k\<in>set ks. key_fine S k) \<and> distinct (map k_id ks) \<and> k_id ` set ks \<inter> seen = {}"
  by (induction ks arbitrary: seen) (auto simp: check_key_def key_fine_def)

lemma check_endpoints_iff [simp]:
  "check_endpoints seen es = Inr () \<longleftrightarrow>
     (\<forall>e\<in>set es. validate_identity_endpoint e = Inr ()) \<and> distinct es \<and> set es \<inter> seen = {}"
  by (induction es arbitrary: seen) auto

lemma check_capabilities_iff [simp]:
  "check_capabilities seen cs = Inr () \<longleftrightarrow>
     (\<forall>c\<in>set cs. validate_token ''capability'' c MAX_STRING_BYTES = Inr ()) \<and> distinct cs \<and> set cs \<inter> seen = {}"
  by (induction cs arbitrary: seen) auto

lemma structureD:
  assumes "validate_structure_without_signatures S r = Inr ()"
  shows "\<forall>k\<in>set (r_keys r). key_fine S k" and "distinct (map k_id (r_keys r))" and "length (r_keys r) \<le> MAX_KEYS"
    and "\<forall>e\<in>set (r_endpoints r). validate_identity_endpoint e = Inr ()" and "length (r_endpoints r) \<le> MAX_ENDPOINTS"
    and "\<forall>c\<in>set (r_capabilities r). length c \<le> MAX_STRING_BYTES" and "length (r_capabilities r) \<le> MAX_CAPABILITIES"
    and "length (r_profile r) \<le> MAX_ALGORITHM_BYTES" and "check_status r = Inr ()"
    and "validate_subject_binding S r = Inr ()" and "r_version r = IDENTITY_RECORD_VERSION" and "r_sequence r \<noteq> 0"
    and "r_issued_at r < r_expires_at r" and "r_expires_at r - r_issued_at r \<le> MAX_RECORD_LIFETIME_SECS"
    and "(r_sequence r = 1) = (r_previous r = None)"
    and "length (filter (\<lambda>k. k_role k = RootSigning) (r_keys r)) = 1"
  using assms by (auto simp: validate_structure_without_signatures_def)

lemma key_fine_sizes: "key_fine S k \<Longrightarrow> length (k_algorithm k) \<le> u32_max \<and> length (k_public k) \<le> u32_max"
  by (auto simp: key_fine_def validate_key_material_def MAX_ALGORITHM_BYTES_def MAX_PUBLIC_KEY_BYTES_def u32_max_def split: if_splits)

lemma endpoint_sizes: "validate_identity_endpoint e = Inr () \<Longrightarrow> length (ep_transport e) \<le> u32_max \<and> length (ep_address e) \<le> u32_max"
  by (auto simp: validate_identity_endpoint_def MAX_STRING_BYTES_def u32_max_def)

lemma status_sizes: "record_sized r \<Longrightarrow> check_status r = Inr () \<Longrightarrow>
   (case r_status r of Active \<Rightarrow> True | Revoked at reason \<Rightarrow> at \<le> u64_max \<and> length reason \<le> u32_max)"
  by (auto simp: record_sized_def check_status_def MAX_STRING_BYTES_def u32_max_def split: record_status.splits if_splits)

lemma sorted_sets [simp]: "set (sorted_keys ks) = set ks" "set (sorted_endpoints es) = set es" "set (sorted_capabilities cs) = set cs"
  by (simp_all add: sorted_keys_def sorted_endpoints_def sorted_capabilities_def)

lemma sorted_lengths [simp]: "length (sorted_keys ks) = length ks" "length (sorted_endpoints es) = length es"
  "length (sorted_capabilities cs) = length cs"
  by (simp_all add: sorted_keys_def sorted_endpoints_def sorted_capabilities_def)

lemma sorted_msets: "mset (sorted_keys ks) = mset ks" "mset (sorted_endpoints es) = mset es" "mset (sorted_capabilities cs) = mset cs"
  by (simp_all add: sorted_keys_def sorted_endpoints_def sorted_capabilities_def)

lemma payload_head_cut:
  assumes r: "record_sized r" "validate_structure_without_signatures S r = Inr ()"
    and r': "record_sized r'" "validate_structure_without_signatures S r' = Inr ()"
    and eq: "payload_head r @ t = payload_head r' @ t'"
  shows "r_version r = r_version r' \<and> r_subject r = r_subject r' \<and> r_profile r = r_profile r' \<and> r_sequence r = r_sequence r'
     \<and> r_issued_at r = r_issued_at r' \<and> r_expires_at r = r_expires_at r' \<and> r_previous r = r_previous r' \<and> r_status r = r_status r' \<and> t = t'"
proof -
  have sz: "length (r_profile r) \<le> u32_max" "length (r_profile r') \<le> u32_max"
    using structureD(8) [OF r(2)] structureD(8) [OF r'(2)] by (simp_all add: MAX_ALGORITHM_BYTES_def u32_max_def)
  have w: "r_version r < 256 ^ 2" "r_version r' < 256 ^ 2" "r_sequence r < 256 ^ 8" "r_sequence r' < 256 ^ 8"
    "r_issued_at r < 256 ^ 8" "r_issued_at r' < 256 ^ 8" "r_expires_at r < 256 ^ 8" "r_expires_at r' < 256 ^ 8"
    "length (r_subject r) = length (r_subject r')" "link_sized (r_previous r)" "link_sized (r_previous r')"
    using r(1) r'(1) by (auto simp: record_sized_def u16_max_def u64_max_def)
  define A where "A q u = be_bytes 8 (r_expires_at q) @ (encode_link (r_previous q) @ (encode_status (r_status q) @ u))" for q :: identity_record and u
  have 0: "be_bytes 2 (r_version r) @ (r_subject r @ append_string (r_profile r) @ be_bytes 8 (r_sequence r) @ be_bytes 8 (r_issued_at r) @ A r t)
     = be_bytes 2 (r_version r') @ (r_subject r' @ append_string (r_profile r') @ be_bytes 8 (r_sequence r') @ be_bytes 8 (r_issued_at r') @ A r' t')"
    using eq unfolding payload_head_def A_def append_assoc by (simp only: append_same_eq same_append_eq)
  from be_cut [OF 0 w(1,2)] w(9) have 1: "r_version r = r_version r'" "r_subject r = r_subject r'"
    "append_string (r_profile r) @ (be_bytes 8 (r_sequence r) @ be_bytes 8 (r_issued_at r) @ A r t)
      = append_string (r_profile r') @ (be_bytes 8 (r_sequence r') @ be_bytes 8 (r_issued_at r') @ A r' t')" by simp_all
  from string_code.enc_cut [OF sz 1(3)] have 2: "r_profile r = r_profile r'"
    "be_bytes 8 (r_sequence r) @ (be_bytes 8 (r_issued_at r) @ A r t) = be_bytes 8 (r_sequence r') @ (be_bytes 8 (r_issued_at r') @ A r' t')" by auto
  from be_cut [OF 2(2) w(3,4)] have 3: "r_sequence r = r_sequence r'"
    "be_bytes 8 (r_issued_at r) @ A r t = be_bytes 8 (r_issued_at r') @ A r' t'" by auto
  from be_cut [OF 3(2) w(5,6)] have 4: "r_issued_at r = r_issued_at r'" "A r t = A r' t'" by auto
  from be_cut [OF 4(2) [unfolded A_def] w(7,8)] have 5: "r_expires_at r = r_expires_at r'"
    "encode_link (r_previous r) @ (encode_status (r_status r) @ t) = encode_link (r_previous r') @ (encode_status (r_status r') @ t')" by auto
  from link_code.enc_cut [OF w(10,11) 5(2)] have 6: "r_previous r = r_previous r'"
    "encode_status (r_status r) @ t = encode_status (r_status r') @ t'" by auto
  from status_code.enc_cut [OF _ _ 6(2)] status_sizes [OF r(1) structureD(9) [OF r(2)]] status_sizes [OF r'(1) structureD(9) [OF r'(2)]]
  show ?thesis using 1 2 3 4 5 6 by blast
qed

text \<open>The items of a counted, sorted list.\<close>

lemma canonical_payloadD:
  assumes "canonical_payload S r = Inr p"
  shows "validate_structure_without_signatures S r = Inr ()"
    and "p = payload_head r @ be_bytes 4 (length (sorted_keys (r_keys r))) @ concat (map encode_identity_key (sorted_keys (r_keys r)))
        @ be_bytes 4 (length (sorted_endpoints (r_endpoints r))) @ concat (map encode_identity_endpoint (sorted_endpoints (r_endpoints r)))
        @ be_bytes 4 (length (sorted_capabilities (r_capabilities r))) @ concat (map append_string (sorted_capabilities (r_capabilities r))) @ []"
  using assms by (auto simp: canonical_payload_def Let_def)

lemma payload_lists_ok:
  assumes "record_sized r" and st: "validate_structure_without_signatures S r = Inr ()"
  shows "\<forall>k\<in>set (sorted_keys (r_keys r)). key_sized k \<and> length (k_algorithm k) \<le> u32_max \<and> length (k_public k) \<le> u32_max"
    and "\<forall>e\<in>set (sorted_endpoints (r_endpoints r)). length (ep_transport e) \<le> u32_max \<and> length (ep_address e) \<le> u32_max \<and> ep_priority e \<le> u16_max"
    and "\<forall>c\<in>set (sorted_capabilities (r_capabilities r)). length c \<le> u32_max"
    and "length (sorted_keys (r_keys r)) \<le> u32_max" and "length (sorted_endpoints (r_endpoints r)) \<le> u32_max"
    and "length (sorted_capabilities (r_capabilities r)) \<le> u32_max"
  using assms structureD [OF st] key_fine_sizes endpoint_sizes
  by (auto simp: record_sized_def list_all_iff MAX_KEYS_def MAX_ENDPOINTS_def MAX_CAPABILITIES_def MAX_STRING_BYTES_def u32_max_def)

text \<open>C17. The canonical payload of an identity record, the bytes that are signed, determines the record: two records with the
  same payload agree on every field, with the same keys, endpoints and capabilities up to their order.\<close>

theorem canonical_payload_determines:
  assumes p: "canonical_payload S r = Inr p" "canonical_payload S r' = Inr p"
    and sized: "record_sized r" "record_sized r'"
  shows "r_version r = r_version r' \<and> r_subject r = r_subject r' \<and> r_profile r = r_profile r' \<and> r_sequence r = r_sequence r'
     \<and> r_issued_at r = r_issued_at r' \<and> r_expires_at r = r_expires_at r' \<and> r_previous r = r_previous r' \<and> r_status r = r_status r'
     \<and> mset (r_keys r) = mset (r_keys r') \<and> mset (r_endpoints r) = mset (r_endpoints r')
     \<and> mset (r_capabilities r) = mset (r_capabilities r')"
proof -
  note st = canonical_payloadD(1) [OF p(1)] canonical_payloadD(1) [OF p(2)]
  note ok = payload_lists_ok [OF sized(1) st(1)] and ok' = payload_lists_ok [OF sized(2) st(2)]
  note h = payload_head_cut [OF sized(1) st(1) sized(2) st(2) trans [OF canonical_payloadD(2) [OF p(1), symmetric] canonical_payloadD(2) [OF p(2)]]]
  note k = key_code.counted_cut [OF ok(1) ok'(1) ok(4) ok'(4) h [THEN conjunct2, THEN conjunct2, THEN conjunct2, THEN conjunct2,
    THEN conjunct2, THEN conjunct2, THEN conjunct2, THEN conjunct2]]
  note e = endpoint_code.counted_cut [OF ok(2) ok'(2) ok(5) ok'(5) k [THEN conjunct2]]
  note c = string_code.counted_cut [OF ok(3) ok'(3) ok(6) ok'(6) e [THEN conjunct2]]
  from h k e c show ?thesis by (metis sorted_msets)
qed

section \<open>Verified records and pins\<close>

lemma find_key_distinct:
  "distinct (map k_id (r_keys r)) \<Longrightarrow> k \<in> set (r_keys r) \<Longrightarrow> find_key r (k_id k) = Some k"
proof -
  have "distinct (map k_id ks) \<Longrightarrow> k \<in> set ks \<Longrightarrow> find (\<lambda>x. k_id x = k_id k) ks = Some k" for ks by (induction ks) auto
  then show "distinct (map k_id (r_keys r)) \<Longrightarrow> k \<in> set (r_keys r) \<Longrightarrow> find_key r (k_id k) = Some k" by (simp add: find_key_def)
qed

lemma root_key_SomeD: "root_key r = Some k \<Longrightarrow> k \<in> set (r_keys r) \<and> k_role k = RootSigning"
  by (auto simp: root_key_def find_Some_iff)

lemma single_root:
  assumes "length (filter P xs) = 1" "a \<in> set xs" "P a" "b \<in> set xs" "P b"
  shows "a = b"
proof -
  have "a \<in> set (filter P xs)" "b \<in> set (filter P xs)" using assms by auto
  with assms(1) show ?thesis by (cases "filter P xs") auto
qed

lemma check_signatures_root:
  "check_signatures r root seen has_root ss = Inr () \<Longrightarrow> has_root \<or> (\<exists>s\<in>set ss. sg_key_id s = root)"
  by (induction r root seen has_root ss rule: check_signatures.induct)
    (auto simp del: not_None_eq split: if_splits option.splits)

lemma verify_signatures_all:
  "verify_signatures S pol r payload valid ss = Inr b \<longleftrightarrow> (\<forall>s\<in>set ss. verify_signature S pol r payload s = Inr ()) \<and> b = (valid \<or> ss \<noteq> [])"
  by (induction ss arbitrary: valid) auto

lemma verify_signature_iff:
  "verify_signature S pol r payload s = Inr () \<longleftrightarrow>
     (\<exists>k. find_key r (sg_key_id s) = Some k \<and> sg_algorithm s = ALGORITHM_ED25519
        \<and> k_not_before k \<le> r_issued_at r \<and> r_issued_at r \<le> k_not_after k
        \<and> k_not_before k \<le> sat_add u64_max (vp_now pol) (vp_skew pol) \<and> vp_now pol \<le> sat_add u64_max (k_not_after k) (vp_skew pol)
        \<and> length (k_public k) = 32 \<and> length (sg_signature s) = 64 \<and> ed_verify S (k_public k) payload (sg_signature s))"
  by (auto simp: verify_signature_def not_less split: option.splits)

lemma validate_structureD:
  assumes "validate_structure S r = Inr ()"
  obtains k where "validate_structure_without_signatures S r = Inr ()" "root_key r = Some k"
    "\<exists>s\<in>set (r_signatures r). sg_key_id s = k_id k" "r_subject r = derive_identity_id S (k_public k)"
proof -
  from assms obtain k where k: "validate_structure_without_signatures S r = Inr ()" "root_key r = Some k"
    "check_signatures r (k_id k) {} False (r_signatures r) = Inr ()"
    by (auto simp: validate_structure_def split: if_splits option.splits)
  from structureD(10) [OF k(1)] k(2) have "r_subject r = derive_identity_id S (k_public k)" by (simp add: validate_subject_binding_def)
  with k check_signatures_root [OF k(3)] show ?thesis using that by blast
qed

lemma verify_record_iff:
  "verify_record S pol r = Inr res \<longleftrightarrow>
     vp_skew pol \<le> MAX_CLOCK_SKEW_SECS \<and> validate_structure S r = Inr () \<and> (vp_subject pol = None \<or> vp_subject pol = Some (r_subject r))
   \<and> r_issued_at r \<le> sat_add u64_max (vp_now pol) (vp_skew pol) \<and> vp_now pol \<le> sat_add u64_max (r_expires_at r) (vp_skew pol)
   \<and> r_profile r = PROFILE_ED25519
   \<and> (\<exists>payload. canonical_payload S r = Inr payload \<and> (\<forall>s\<in>set (r_signatures r). verify_signature S pol r payload s = Inr ()))
   \<and> \<not> vp_require_pqc pol \<and> res = \<lparr>vr_subject = r_subject r, vr_pqc = False\<rparr>" (is "?l = ?r")
proof
  assume ?l
  then show ?r by (auto simp: verify_record_def verify_signatures_all not_less split: if_splits sum.splits)
next
  assume r: ?r
  then have "r_signatures r \<noteq> []" "validate_subject_binding S r = Inr ()"
    by (auto simp: validate_structure_def dest: structureD(10) split: if_splits)
  moreover from r obtain payload where "canonical_payload S r = Inr payload"
    "\<forall>s\<in>set (r_signatures r). verify_signature S pol r payload s = Inr ()" by blast
  ultimately have "canonical_payload S r = Inr payload" "verify_signatures S pol r payload False (r_signatures r) = Inr True"
    by (simp_all add: verify_signatures_all)
  with r \<open>validate_subject_binding S r = Inr ()\<close> show ?l by (auto simp: verify_record_def)
qed

lemma le_sat_addD: "x \<le> sat_add m a b \<Longrightarrow> x \<le> a + b"
  by (simp add: sat_add_def split: if_splits)

text \<open>C14. A record that verifies is signed by its subject: its only root signing key hashes to the subject, one of its signatures
  is a valid Ed25519 signature of the canonical payload under that key, every other signature verifies under a key of the record,
  and the policy's clock is inside the record's lifetime widened by the skew, which is at most a day.\<close>

theorem verified_record_is_signed:
  assumes v: "verify_record S pol r = Inr res"
  shows "\<exists>k payload s. canonical_payload S r = Inr payload
     \<and> k \<in> set (r_keys r) \<and> k_role k = RootSigning \<and> (\<forall>k'\<in>set (r_keys r). k_role k' = RootSigning \<longrightarrow> k' = k)
     \<and> r_subject r = derive_identity_id S (k_public k) \<and> vr_subject res = r_subject r
     \<and> s \<in> set (r_signatures r) \<and> sg_key_id s = k_id k \<and> ed_verify S (k_public k) payload (sg_signature s)
     \<and> (\<forall>t\<in>set (r_signatures r). \<exists>k'\<in>set (r_keys r). k_id k' = sg_key_id t \<and> ed_verify S (k_public k') payload (sg_signature t))
     \<and> r_issued_at r \<le> vp_now pol + vp_skew pol \<and> vp_now pol \<le> r_expires_at r + vp_skew pol \<and> vp_skew pol \<le> 86400
     \<and> r_expires_at r \<le> r_issued_at r + MAX_RECORD_LIFETIME_SECS"
proof -
  note V = v [unfolded verify_record_iff]
  from V obtain payload where p: "canonical_payload S r = Inr payload" "\<forall>s\<in>set (r_signatures r). verify_signature S pol r payload s = Inr ()"
    by blast
  from V have "validate_structure S r = Inr ()" by blast
  then obtain k where k: "validate_structure_without_signatures S r = Inr ()" "root_key r = Some k"
    "\<exists>s\<in>set (r_signatures r). sg_key_id s = k_id k" "r_subject r = derive_identity_id S (k_public k)"
    by (rule validate_structureD)
  note D = structureD [OF k(1)] and root = root_key_SomeD [OF k(2)]
  from k(3) obtain s where s: "s \<in> set (r_signatures r)" "sg_key_id s = k_id k" by blast
  have all: "\<exists>k'\<in>set (r_keys r). k_id k' = sg_key_id t \<and> find_key r (sg_key_id t) = Some k' \<and> ed_verify S (k_public k') payload (sg_signature t)"
    if "t \<in> set (r_signatures r)" for t
    using p(2) that by (force simp: verify_signature_iff find_key_def find_Some_iff)
  from all [OF s(1)] find_key_distinct [OF D(2), of k] root s have "ed_verify S (k_public k) payload (sg_signature s)" by auto
  moreover have "\<forall>k'\<in>set (r_keys r). k_role k' = RootSigning \<longrightarrow> k' = k" using single_root [OF D(16)] root by blast
  moreover have "r_issued_at r \<le> vp_now pol + vp_skew pol" "vp_now pol \<le> r_expires_at r + vp_skew pol" "vp_skew pol \<le> 86400"
    using V le_sat_addD [of _ u64_max] unfolding MAX_CLOCK_SKEW_SECS_def by auto
  moreover have "vr_subject res = r_subject r" using V by simp
  moreover have "r_expires_at r \<le> r_issued_at r + MAX_RECORD_LIFETIME_SECS" using D(14) by linarith
  ultimately show ?thesis using p(1) root k(4) s all by (intro exI [of _ k] exI [of _ payload] exI [of _ s]) blast
qed

text \<open>The signatures are not part of the payload.\<close>

lemma structure_without_signatures [simp]:
  "validate_structure_without_signatures S (r\<lparr>r_signatures := ss\<rparr>) = validate_structure_without_signatures S r"
proof -
  have "validate_subject_binding S (r\<lparr>r_signatures := ss\<rparr>) = validate_subject_binding S r"
    by (simp add: validate_subject_binding_def root_key_def split: option.split)
  moreover have "check_status (r\<lparr>r_signatures := ss\<rparr>) = check_status r" by (simp add: check_status_def split: record_status.split)
  ultimately show ?thesis by (simp add: validate_structure_without_signatures_def)
qed

lemma canonical_payload_signatures [simp]: "canonical_payload S (r\<lparr>r_signatures := ss\<rparr>) = canonical_payload S r"
  by (simp add: canonical_payload_def payload_head_def Let_def split: sum.split)

lemma signed_by_root:
  assumes "validate_structure_without_signatures S r = Inr ()" "root_key r = Some k" "k_algorithm k = ALGORITHM_ED25519" "length sg = 64"
  shows "validate_structure S (r\<lparr>r_signatures := [\<lparr>sg_key_id = k_id k, sg_algorithm = ALGORITHM_ED25519, sg_signature = sg\<rparr>]\<rparr>) = Inr ()"
proof -
  let ?r = "r\<lparr>r_signatures := [\<lparr>sg_key_id = k_id k, sg_algorithm = ALGORITHM_ED25519, sg_signature = sg\<rparr>]\<rparr>"
  have "find_key ?r (k_id k) = Some k" "k_role k = RootSigning" "root_key ?r = Some k"
    using find_key_distinct [OF structureD(2) [OF assms(1)], of k] root_key_SomeD [OF assms(2)] assms(2)
    by (simp_all add: find_key_def root_key_def)
  moreover have "list_all token_char ALGORITHM_ED25519" "ALGORITHM_ED25519 \<noteq> []" "length ALGORITHM_ED25519 \<le> MAX_ALGORITHM_BYTES"
    by (simp_all add: ALGORITHM_ED25519_def token_char_def MAX_ALGORITHM_BYTES_def)
  moreover have "sg \<noteq> []" "length sg \<le> MAX_PUBLIC_KEY_BYTES" using assms(4) by (auto simp: MAX_PUBLIC_KEY_BYTES_def)
  ultimately show ?thesis using assms(1,3) by (simp add: validate_structure_def accepts_record_signature_def)
qed

text \<open>The unsigned record of an identity.\<close>

definition identity_keys :: "suite \<Rightarrow> identity_key_pair \<Rightarrow> u64 \<Rightarrow> u64 \<Rightarrow> identity_key list" where
  "identity_keys S i issued_at expires_at =
     [\<lparr>k_id = derive_key_id S RootSigning ALGORITHM_ED25519 (ik_signing_public i), k_role = RootSigning, k_algorithm = ALGORITHM_ED25519,
       k_public = ik_signing_public i, k_not_before = issued_at, k_not_after = expires_at, k_previous = None\<rparr>,
      \<lparr>k_id = derive_key_id S IdentityBinding ALGORITHM_X25519 (ik_public i), k_role = IdentityBinding, k_algorithm = ALGORITHM_X25519,
       k_public = ik_public i, k_not_before = issued_at, k_not_after = expires_at, k_previous = None\<rparr>]"

definition draft_record :: "suite \<Rightarrow> identity_key_pair \<Rightarrow> u64 \<Rightarrow> u64 \<Rightarrow> u64 \<Rightarrow> bytes option \<Rightarrow> identity_endpoint list \<Rightarrow> string list \<Rightarrow> identity_record" where
  "draft_record S i sequence issued_at expires_at previous endpoints capabilities =
     \<lparr>r_version = IDENTITY_RECORD_VERSION, r_subject = derive_identity_id S (ik_signing_public i), r_profile = PROFILE_ED25519,
      r_sequence = sequence, r_issued_at = issued_at, r_expires_at = expires_at, r_previous = previous, r_status = Active,
      r_keys = identity_keys S i issued_at expires_at, r_endpoints = endpoints, r_capabilities = capabilities, r_signatures = []\<rparr>"

lemma draft_simps [simp]:
  "r_subject (draft_record S i q a b pr es cs) = derive_identity_id S (ik_signing_public i)"
  "r_profile (draft_record S i q a b pr es cs) = PROFILE_ED25519" "r_issued_at (draft_record S i q a b pr es cs) = a"
  "r_expires_at (draft_record S i q a b pr es cs) = b" "r_status (draft_record S i q a b pr es cs) = Active"
  "r_keys (draft_record S i q a b pr es cs) = identity_keys S i a b"
  by (simp_all add: draft_record_def)

text \<open>The arguments a caller may pass, and that SHA-256 tells the two keys of the identity apart.\<close>

definition publishable :: "suite \<Rightarrow> identity_key_pair \<Rightarrow> u64 \<Rightarrow> u64 \<Rightarrow> u64 \<Rightarrow> bytes option \<Rightarrow> identity_endpoint list \<Rightarrow> string list \<Rightarrow> bool" where
  "publishable S i sequence issued_at expires_at previous endpoints capabilities \<longleftrightarrow>
     sequence \<noteq> 0 \<and> (sequence = 1) = (previous = None) \<and> issued_at < expires_at \<and> expires_at - issued_at \<le> MAX_RECORD_LIFETIME_SECS
   \<and> length endpoints \<le> MAX_ENDPOINTS \<and> check_endpoints {} endpoints = Inr ()
   \<and> length capabilities \<le> MAX_CAPABILITIES \<and> check_capabilities {} capabilities = Inr ()
   \<and> derive_key_id S RootSigning ALGORITHM_ED25519 (ik_signing_public i) \<noteq> derive_key_id S IdentityBinding ALGORITHM_X25519 (ik_public i)"

lemma known_algorithms [simp]:
  "validate_key_material ALGORITHM_ED25519 b = Inr () \<longleftrightarrow> length b = 32" "validate_key_material ALGORITHM_X25519 b = Inr () \<longleftrightarrow> length b = 32"
  by (auto simp: validate_key_material_def ALGORITHM_ED25519_def ALGORITHM_X25519_def MAX_ALGORITHM_BYTES_def MAX_PUBLIC_KEY_BYTES_def
    token_char_def)

lemma draft_structure:
  assumes "suite_ok S" "identity_ok S i" "publishable S i sequence issued_at expires_at previous endpoints capabilities"
  shows "validate_structure_without_signatures S (draft_record S i sequence issued_at expires_at previous endpoints capabilities) = Inr ()"
proof -
  have "list_all token_char PROFILE_ED25519" "PROFILE_ED25519 \<noteq> []" "length PROFILE_ED25519 \<le> MAX_ALGORITHM_BYTES"
    by (simp_all add: PROFILE_ED25519_def token_char_def MAX_ALGORITHM_BYTES_def)
  with assms identity_ok_lengths [OF assms(1,2)] show ?thesis
    unfolding validate_structure_without_signatures_def all_checks_iff
    by (auto simp: draft_record_def identity_keys_def publishable_def MAX_KEYS_def key_fine_def validate_subject_binding_def
      root_key_def check_status_def check_key_def)
qed

lemma from_current_identity_draft:
  assumes "suite_ok S" "identity_ok S i" and p: "publishable S i sequence issued_at expires_at previous endpoints capabilities"
  shows "\<exists>payload. canonical_payload S (draft_record S i sequence issued_at expires_at previous endpoints capabilities) = Inr payload
     \<and> from_current_identity_with_previous S i sequence issued_at expires_at previous endpoints capabilities
       = Inr ((draft_record S i sequence issued_at expires_at previous endpoints capabilities)\<lparr>r_signatures :=
           [\<lparr>sg_key_id = derive_key_id S RootSigning ALGORITHM_ED25519 (ik_signing_public i), sg_algorithm = ALGORITHM_ED25519,
             sg_signature = ed_sign S (ik_sign_seed i) payload\<rparr>]\<rparr>)" (is "\<exists>payload. canonical_payload S ?d = _ \<and> _")
proof -
  from draft_structure [OF assms] obtain payload where pl: "canonical_payload S ?d = Inr payload" by (simp add: canonical_payload_def Let_def)
  have key: "identity_key_new S role alg pub issued_at expires_at None = Inr \<lparr>k_id = derive_key_id S role alg pub, k_role = role,
      k_algorithm = alg, k_public = pub, k_not_before = issued_at, k_not_after = expires_at, k_previous = None\<rparr>"
    if "validate_key_material alg pub = Inr ()" for role alg pub
    using that p by (simp add: identity_key_new_def publishable_def Let_def)
  have "from_current_identity_with_previous S i sequence issued_at expires_at previous endpoints capabilities = sign_with_identity S i ?d"
    using identity_ok_lengths [OF assms(1,2)]
    by (simp add: from_current_identity_with_previous_def key draft_record_def identity_keys_def Let_def)
  also have "\<dots> = Inr (?d\<lparr>r_signatures := [\<lparr>sg_key_id = derive_key_id S RootSigning ALGORITHM_ED25519 (ik_signing_public i),
      sg_algorithm = ALGORITHM_ED25519, sg_signature = ed_sign S (ik_sign_seed i) payload\<rparr>]\<rparr>)"
    using pl by (simp add: sign_with_identity_def draft_record_def identity_keys_def)
  finally show ?thesis using pl by blast
qed

lemma published_verifies:
  assumes S: "suite_ok S" "\<forall>s m. length (ed_sign S s m) = 64" and i: "identity_ok S i"
    and p: "publishable S i sequence issued_at expires_at previous endpoints capabilities"
    and pol: "issued_at \<le> vp_now pol" "vp_now pol \<le> expires_at" "expires_at \<le> u64_max" "vp_skew pol \<le> MAX_CLOCK_SKEW_SECS"
      "vp_subject pol \<in> {None, Some (derive_identity_id S (ik_signing_public i))}" "\<not> vp_require_pqc pol"
  shows "\<exists>ss. from_current_identity_with_previous S i sequence issued_at expires_at previous endpoints capabilities
         = Inr ((draft_record S i sequence issued_at expires_at previous endpoints capabilities)\<lparr>r_signatures := ss\<rparr>)
     \<and> verify_record S pol ((draft_record S i sequence issued_at expires_at previous endpoints capabilities)\<lparr>r_signatures := ss\<rparr>)
         = Inr \<lparr>vr_subject = derive_identity_id S (ik_signing_public i), vr_pqc = False\<rparr>"
proof -
  let ?d = "draft_record S i sequence issued_at expires_at previous endpoints capabilities"
  from from_current_identity_draft [OF S(1) i p] obtain payload where pl: "canonical_payload S ?d = Inr payload"
    and r: "from_current_identity_with_previous S i sequence issued_at expires_at previous endpoints capabilities
       = Inr (?d\<lparr>r_signatures := [\<lparr>sg_key_id = derive_key_id S RootSigning ALGORITHM_ED25519 (ik_signing_public i),
          sg_algorithm = ALGORITHM_ED25519, sg_signature = ed_sign S (ik_sign_seed i) payload\<rparr>]\<rparr>)" (is "_ = Inr ?r") by blast
  note l = identity_ok_lengths [OF S(1) i]
  have str: "validate_structure S ?r = Inr ()"
    using signed_by_root [OF draft_structure [OF S(1) i p], of "hd (r_keys ?d)"] S(2)
    by (simp add: root_key_def identity_keys_def)
  have "ed_verify S (ik_signing_public i) payload (ed_sign S (ik_sign_seed i) payload)" using i suite_okD(6) [OF S(1)] by (simp add: identity_ok_def)
  then have "verify_signature S pol ?r payload (hd (r_signatures ?r)) = Inr ()"
    using l S(2) pol(1-3) p by (simp add: verify_signature_iff find_key_def identity_keys_def sat_add_def publishable_def)
  with str pol pl p have "verify_record S pol ?r = Inr \<lparr>vr_subject = derive_identity_id S (ik_signing_public i), vr_pqc = False\<rparr>"
    unfolding verify_record_iff by (auto simp: sat_add_def publishable_def)
  then show ?thesis using r by blast
qed

text \<open>C16. The record that an identity publishes verifies under every policy whose clock lies in the record's lifetime, and the pin
  it yields is the pair of keys that the handshake of that identity presents, so the peer policy made from a discovered record
  admits exactly that identity.\<close>

theorem published_record_pins_identity:
  assumes S: "suite_ok S" "\<forall>s m. length (ed_sign S s m) = 64" and i: "identity_ok S i"
    and p: "publishable S i sequence issued_at expires_at previous endpoints capabilities"
    and pol: "issued_at \<le> vp_now pol" "vp_now pol \<le> expires_at" "expires_at \<le> u64_max" "vp_skew pol \<le> MAX_CLOCK_SKEW_SECS"
      "vp_subject pol \<in> {None, Some (derive_identity_id S (ik_signing_public i))}" "\<not> vp_require_pqc pol"
  shows "\<exists>r. from_current_identity_with_previous S i sequence issued_at expires_at previous endpoints capabilities = Inr r
     \<and> verify_record S pol r = Inr \<lparr>vr_subject = derive_identity_id S (ik_signing_public i), vr_pqc = False\<rparr>
     \<and> to_peer_pin S pol r = Inr (pin_for_identity i)
     \<and> (\<forall>a b. allows (peer_policy_single (pin_for_identity i)) a b = (a = ik_public i \<and> b = ik_signing_public i))"
proof -
  let ?d = "draft_record S i sequence issued_at expires_at previous endpoints capabilities"
  from published_verifies [OF assms] obtain ss where
    r: "from_current_identity_with_previous S i sequence issued_at expires_at previous endpoints capabilities = Inr (?d\<lparr>r_signatures := ss\<rparr>)"
    and v: "verify_record S pol (?d\<lparr>r_signatures := ss\<rparr>) = Inr \<lparr>vr_subject = derive_identity_id S (ik_signing_public i), vr_pqc = False\<rparr>"
    by blast
  have "to_peer_pin S pol (?d\<lparr>r_signatures := ss\<rparr>) = Inr (pin_for_identity i)"
    using identity_ok_lengths [OF S(1) i] pol(1,2) p
    by (simp add: to_peer_pin_def v current_keys_def identity_keys_def key_valid_for_record_and_policy_def pin_for_identity_def publishable_def)
  moreover have "allows (peer_policy_single (pin_for_identity i)) a b = (a = ik_public i \<and> b = ik_signing_public i)" for a b
    by (auto simp: allows_def peer_policy_single_def pin_for_identity_def)
  ultimately show ?thesis using r v by blast
qed

section \<open>The chain of accepted records\<close>

lemma sift_valid:
  "sift S pol subject valid invalid rs = Inr (valid', n) \<Longrightarrow> (q, h, r) \<in> set valid' \<Longrightarrow>
     (q, h, r) \<in> set valid \<or> r \<in> set rs \<and> r_subject r = subject \<and> q = r_sequence r \<and> record_hash S r = Inr h \<and> (\<exists>v. verify_record S pol r = Inr v)"
proof (induction rs arbitrary: valid invalid)
  case (Cons x xs)
  have ins: "(q, h, r) \<in> set (or_insert valid (r_sequence x) g x) \<Longrightarrow> (q, h, r) \<in> set valid \<or> q = r_sequence x \<and> h = g \<and> r = x" for g
    by (auto simp: or_insert_def split: if_splits)
  from Cons.prems Cons.IH show ?case by (auto split: if_splits sum.splits dest!: ins)
qed simp

lemma latest_subset: "set (latest valid) \<subseteq> set valid"
  by (auto simp: latest_def)

lemma latest_max: "x \<in> set (latest valid) \<Longrightarrow> y \<in> set valid \<Longrightarrow> fst y \<le> fst x"
  by (force simp: latest_def intro: Max_ge)

text \<open>The link from what was accepted before to a new resolution.\<close>

definition follows :: "accepted_record option \<Rightarrow> resolution \<Rightarrow> bool" where
  "follows prev res \<longleftrightarrow>
     (case prev of
        None \<Rightarrow> r_sequence (rs_record res) = 1
      | Some p \<Rightarrow>
          r_sequence (rs_record res) = ar_sequence p \<and> rs_hash res = ar_hash p
        \<or> r_sequence (rs_record res) = ar_sequence p + 1 \<and> r_previous (rs_record res) = Some (ar_hash p))"

lemma accept_record_cases:
  assumes "accept_record acc subject sequence h r res = (out, acc')" "r = rs_record res" "h = rs_hash res" "sequence = r_sequence r"
  shows "case out of Inl _ \<Rightarrow> acc' = acc
     | Inr res' \<Rightarrow> res' = res \<and> follows (acc subject) res \<and> acc' = acc(subject \<mapsto> \<lparr>ar_sequence = sequence, ar_hash = h\<rparr>)"
  using assms by (auto simp: accept_record_def follows_def sat_add_def intro!: map_upd_triv [symmetric] split: option.splits if_splits)

lemma resolve_cases:
  assumes "resolve S acc subject providers pol = (out, acc')"
  shows "case out of Inl _ \<Rightarrow> acc' = acc
     | Inr res \<Rightarrow> r_subject (rs_record res) = subject \<and> (\<exists>v. verify_record S pol (rs_record res) = Inr v)
        \<and> record_hash S (rs_record res) = Inr (rs_hash res) \<and> follows (acc subject) res
        \<and> acc' = acc(subject \<mapsto> \<lparr>ar_sequence = r_sequence (rs_record res), ar_hash = rs_hash res\<rparr>)"
proof (cases "\<exists>candidates valid n q h r. sift S pol subject [] 0 candidates = Inr (valid, n) \<and> latest valid = [(q, h, r)]
    \<and> accept_record acc subject q h r \<lparr>rs_record = r, rs_hash = h, rs_consulted = length providers, rs_invalid = n\<rparr> = (out, acc')")
  case True
  then obtain candidates valid n q h r where *: "sift S pol subject [] 0 candidates = Inr (valid, n)" "latest valid = [(q, h, r)]"
    "accept_record acc subject q h r \<lparr>rs_record = r, rs_hash = h, rs_consulted = length providers, rs_invalid = n\<rparr> = (out, acc')" by blast
  have "(q, h, r) \<in> set valid" using latest_subset [of valid] *(2) by auto
  from sift_valid [OF *(1) this] have "r_subject r = subject" "q = r_sequence r" "record_hash S r = Inr h" "\<exists>v. verify_record S pol r = Inr v" by auto
  with accept_record_cases [OF *(3)] show ?thesis by (auto split: sum.splits)
next
  case False
  then show ?thesis using assms
    by (auto simp: resolve_def Let_def split: if_splits prod.splits sum.splits list.splits)
qed

inductive resolver_run :: "suite \<Rightarrow> discovery_resolver \<Rightarrow> resolution list \<Rightarrow> bool" for S where
  resolver_start: "resolver_run S Map.empty []"
| resolver_accepts: "resolver_run S acc h \<Longrightarrow> resolve S acc subject providers pol = (Inr res, acc') \<Longrightarrow> resolver_run S acc' (h @ [res])"
| resolver_refuses: "resolver_run S acc h \<Longrightarrow> resolve S acc subject providers pol = (Inl e, acc') \<Longrightarrow> resolver_run S acc' h"

text \<open>The last resolution of a subject.\<close>

definition last_accepted :: "resolution list \<Rightarrow> bytes \<Rightarrow> accepted_record option" where
  "last_accepted h subject =
     (case filter (\<lambda>res. r_subject (rs_record res) = subject) (rev h) of
        [] \<Rightarrow> None | res # _ \<Rightarrow> Some \<lparr>ar_sequence = r_sequence (rs_record res), ar_hash = rs_hash res\<rparr>)"

lemma last_accepted_snoc [simp]:
  "last_accepted (h @ [res]) s = (if r_subject (rs_record res) = s then Some \<lparr>ar_sequence = r_sequence (rs_record res), ar_hash = rs_hash res\<rparr>
     else last_accepted h s)"
  by (simp add: last_accepted_def)

lemma resolver_run_accepted: "resolver_run S acc h \<Longrightarrow> acc = last_accepted h"
proof (induction rule: resolver_run.induct)
  case resolver_start
  then show ?case by (simp add: last_accepted_def fun_eq_iff)
next
  case (resolver_accepts acc h subject providers pol res acc')
  from resolve_cases [OF resolver_accepts(2)] resolver_accepts.IH show ?case by (auto simp: fun_eq_iff)
next
  case (resolver_refuses acc h subject providers pol e acc')
  from resolve_cases [OF resolver_refuses(2)] resolver_refuses.IH show ?case by simp
qed

definition resolution_sound :: "suite \<Rightarrow> resolution \<Rightarrow> bool" where
  "resolution_sound S res \<longleftrightarrow> (\<exists>pol v. verify_record S pol (rs_record res) = Inr v) \<and> record_hash S (rs_record res) = Inr (rs_hash res)"

definition chain_step :: "suite \<Rightarrow> resolution list \<Rightarrow> resolution \<Rightarrow> bool" where
  "chain_step S h res \<longleftrightarrow> resolution_sound S res \<and> follows (last_accepted h (r_subject (rs_record res))) res"

lemma resolver_run_chain: "resolver_run S acc h \<Longrightarrow> i < length h \<Longrightarrow> chain_step S (take i h) (h ! i)"
proof (induction arbitrary: i rule: resolver_run.induct)
  case (resolver_accepts acc h subject providers pol res acc')
  from resolve_cases [OF resolver_accepts(2)] resolver_run_accepted [OF resolver_accepts(1)] have "chain_step S h res"
    by (auto simp: chain_step_def resolution_sound_def)
  with resolver_accepts.IH resolver_accepts.prems show ?case by (cases "i = length h") (simp_all add: nth_append)
qed simp_all

text \<open>Sequence numbers of one subject never go down, and one number never names two records.\<close>

lemma last_accepted_mono:
  assumes "\<forall>i < length h. chain_step S (take i h) (h ! i)" "p \<in> set h" "last_accepted h (r_subject (rs_record p)) = Some a"
  shows "r_sequence (rs_record p) \<le> ar_sequence a \<and> (r_sequence (rs_record p) = ar_sequence a \<longrightarrow> rs_hash p = ar_hash a)"
  using assms
proof (induction h arbitrary: a rule: rev_induct)
  case (snoc res h)
  have IH: "r_sequence (rs_record p) \<le> ar_sequence b \<and> (r_sequence (rs_record p) = ar_sequence b \<longrightarrow> rs_hash p = ar_hash b)"
    if "p \<in> set h" "last_accepted h (r_subject (rs_record p)) = Some b" for b
  proof (rule snoc.IH [OF _ that])
    show "\<forall>i < length h. chain_step S (take i h) (h ! i)"
    proof (intro allI impI)
      fix i
      assume "i < length h"
      with snoc.prems(1) [rule_format, of i] show "chain_step S (take i h) (h ! i)" by (simp add: nth_append)
    qed
  qed
  have step: "chain_step S h res" using snoc.prems(1) [rule_format, of "length h"] by simp
  show ?case
  proof (cases "p \<in> set h \<and> r_subject (rs_record res) = r_subject (rs_record p)")
    case True
    then obtain b where b: "last_accepted h (r_subject (rs_record p)) = Some b"
      by (cases "filter (\<lambda>r. r_subject (rs_record r) = r_subject (rs_record p)) (rev h)") (auto simp: last_accepted_def filter_empty_conv)
    with True step IH [OF _ b] snoc.prems(3) show ?thesis by (auto simp: chain_step_def follows_def)
  next
    case False
    with snoc.prems IH show ?thesis by (auto split: if_splits)
  qed
qed simp

lemma last_accepted_exists: "p \<in> set h \<Longrightarrow> \<exists>a. last_accepted h (r_subject (rs_record p)) = Some a"
  by (cases "filter (\<lambda>r. r_subject (rs_record r) = r_subject (rs_record p)) (rev h)") (auto simp: last_accepted_def filter_empty_conv)

text \<open>C15. Whatever the providers return, every resolution of a run is a verified record with its own hash, the first one of a subject
  has sequence number one, and each later one is the record accepted before or its direct successor, linked to it by hash.  So the
  sequence numbers of a subject never go down and no number is ever resolved to two different hashes.\<close>

theorem resolver_follows_chain:
  assumes run: "resolver_run S acc h" and j: "j < length h"
  shows "resolution_sound S (h ! j) \<and> follows (last_accepted (take j h) (r_subject (rs_record (h ! j)))) (h ! j)
     \<and> (\<forall>i<j. r_subject (rs_record (h ! i)) = r_subject (rs_record (h ! j)) \<longrightarrow>
          r_sequence (rs_record (h ! i)) \<le> r_sequence (rs_record (h ! j))
        \<and> (r_sequence (rs_record (h ! i)) = r_sequence (rs_record (h ! j)) \<longrightarrow> rs_hash (h ! i) = rs_hash (h ! j)))"
proof -
  note step = resolver_run_chain [OF run j]
  have "r_sequence (rs_record (h ! i)) \<le> r_sequence (rs_record (h ! j))
      \<and> (r_sequence (rs_record (h ! i)) = r_sequence (rs_record (h ! j)) \<longrightarrow> rs_hash (h ! i) = rs_hash (h ! j))"
    if i: "i < j" "r_subject (rs_record (h ! i)) = r_subject (rs_record (h ! j))" for i
  proof -
    have mem: "h ! i \<in> set (take j h)" using i(1) j by (auto simp: in_set_conv_nth)
    from last_accepted_exists [OF mem] obtain a where a: "last_accepted (take j h) (r_subject (rs_record (h ! i))) = Some a" by blast
    have "\<forall>k < length (take j h). chain_step S (take k (take j h)) (take j h ! k)"
      using resolver_run_chain [OF run] j by (simp add: min_def)
    from last_accepted_mono [OF this mem a] step a i(2) show ?thesis by (auto simp: chain_step_def follows_def)
  qed
  with step show ?thesis unfolding chain_step_def by blast
qed

text \<open>An honest provider that serves one record.\<close>

definition one_record_provider :: "identity_record \<Rightarrow> discovery_provider" where
  "one_record_provider r = \<lparr>dp_describe = Some (''local'', descriptor_minimal ''local''), dp_fetch = (\<lambda>_. Some (Inr [r]))\<rparr>"

lemma resolve_single:
  assumes "vp_skew pol \<le> MAX_CLOCK_SKEW_SECS" "verify_record S pol r = Inr v" "record_hash S r = Inr h" "r_subject r = subject"
  shows "resolve S acc subject [one_record_provider r] pol
     = accept_record acc subject (r_sequence r) h r \<lparr>rs_record = r, rs_hash = h, rs_consulted = 1, rs_invalid = 0\<rparr>"
proof -
  have "validate_descriptor (descriptor_minimal ''local'') = Inr ()"
    by (simp add: validate_descriptor_def descriptor_minimal_def token_char_def MAX_STRING_BYTES_def)
  then have "fold (consult subject) [one_record_provider r] ([], 0) = ([r], 0)"
    by (simp add: consult_def one_record_provider_def descriptor_minimal_def MAX_PROVIDER_RECORDS_def sat_add_def usize_max_def u64_max_def MAX_TOTAL_CANDIDATES_def)
  with assms show ?thesis by (simp add: resolve_def MAX_DISCOVERY_PROVIDERS_def or_insert_def latest_def)
qed

section \<open>Concrete records\<close>

definition sample_signer :: identity_key_pair where
  "sample_signer = identity_from_seeds record_suite [1] [2]"

lemma sample_signer_ok: "identity_ok record_suite sample_signer"
  by (simp add: sample_signer_def)

lemma sample_key_ids:
  "derive_key_id record_suite RootSigning ALGORITHM_ED25519 (ik_signing_public sample_signer)
     \<noteq> derive_key_id record_suite IdentityBinding ALGORITHM_X25519 (ik_public sample_signer)"
  by code_simp

definition sample_endpoint :: "string \<Rightarrow> identity_endpoint" where
  "sample_endpoint transport = \<lparr>ep_transport = transport, ep_address = ''example:443'', ep_priority = 1\<rparr>"

lemma sample_publishable:
  assumes "sequence \<noteq> 0" "(sequence = 1) = (previous = None)" "set endpoints \<subseteq> {sample_endpoint ''tcp'', sample_endpoint ''udp''}" "distinct endpoints"
  shows "publishable record_suite sample_signer sequence 1000 2000 previous endpoints []"
proof -
  have "validate_identity_endpoint (sample_endpoint ''tcp'') = Inr ()" "validate_identity_endpoint (sample_endpoint ''udp'') = Inr ()" by code_simp+
  moreover have "length endpoints \<le> card {sample_endpoint ''tcp'', sample_endpoint ''udp''}"
    using assms(3,4) by (metis card_mono distinct_card finite.emptyI finite.insertI)
  then have "length endpoints \<le> MAX_ENDPOINTS" by (simp add: MAX_ENDPOINTS_def card_insert_if split: if_splits)
  ultimately show ?thesis using assms sample_key_ids
    by (auto simp: publishable_def MAX_RECORD_LIFETIME_SECS_def MAX_CAPABILITIES_def)
qed

lemma sample_verifies:
  assumes "sequence \<noteq> 0" "(sequence = 1) = (previous = None)"
  shows "\<exists>ss. verify_record record_suite (verification_policy_at 1500) ((draft_record record_suite sample_signer sequence 1000 2000 previous [] [])\<lparr>r_signatures := ss\<rparr>)
     = Inr \<lparr>vr_subject = derive_identity_id record_suite (ik_signing_public sample_signer), vr_pqc = False\<rparr>"
  using published_verifies [OF record_suite_ok record_suite_signature sample_signer_ok sample_publishable [OF assms], of "[]" "verification_policy_at 1500"]
  by (auto simp: verification_policy_at_def u64_max_def MAX_CLOCK_SKEW_SECS_def DEFAULT_CLOCK_SKEW_SECS_def)

theorem canonical_payload_determines_witness:
  "\<exists>r r' p. canonical_payload record_suite r = Inr p \<and> canonical_payload record_suite r' = Inr p
     \<and> r_endpoints r \<noteq> r_endpoints r' \<and> mset (r_endpoints r) = mset (r_endpoints r') \<and> mset (r_keys r) = mset (r_keys r')"
proof -
  let ?a = "sample_endpoint ''tcp''" and ?b = "sample_endpoint ''udp''"
  let ?r = "\<lambda>es. draft_record record_suite sample_signer 1 1000 2000 None es []"
  have ne: "?a \<noteq> ?b" by (simp add: sample_endpoint_def)
  have "sorted_endpoints [?a, ?b] = sorted_endpoints [?b, ?a]" by code_simp
  moreover have "validate_structure_without_signatures record_suite (?r [?a, ?b]) = Inr ()" "validate_structure_without_signatures record_suite (?r [?b, ?a]) = Inr ()"
    using ne by (auto intro!: draft_structure record_suite_ok sample_signer_ok sample_publishable)
  ultimately have "\<exists>p. canonical_payload record_suite (?r [?a, ?b]) = Inr p \<and> canonical_payload record_suite (?r [?b, ?a]) = Inr p"
    by (simp add: canonical_payload_def Let_def payload_head_def draft_record_def)
  then obtain p where p: "canonical_payload record_suite (?r [?a, ?b]) = Inr p" "canonical_payload record_suite (?r [?b, ?a]) = Inr p" by blast
  have sized: "record_sized (?r es)" if "set es \<subseteq> {?a, ?b}" for es
    using that suite_okD(9) [OF record_suite_ok]
    by (auto simp: record_sized_def draft_record_def identity_keys_def key_sized_def link_sized_def derive_identity_id_def derive_key_id_def
      IDENTITY_RECORD_VERSION_def u16_max_def u64_max_def sample_endpoint_def list_all_iff)
  from canonical_payload_determines [OF p sized sized] p ne show ?thesis
    by (intro exI [of _ "?r [?a, ?b]"] exI [of _ "?r [?b, ?a]"] exI [of _ p]) (simp add: draft_record_def)
qed

theorem verified_record_is_signed_witness:
  "\<exists>r k payload s. canonical_payload record_suite r = Inr payload \<and> k \<in> set (r_keys r) \<and> k_role k = RootSigning
     \<and> s \<in> set (r_signatures r) \<and> sg_key_id s = k_id k \<and> ed_verify record_suite (k_public k) payload (sg_signature s)"
  using sample_verifies [of 1 None] verified_record_is_signed [of record_suite "verification_policy_at 1500"] by fastforce

theorem published_record_pins_identity_witness:
  "\<exists>r. from_current_identity_with_previous record_suite sample_signer 1 1000 2000 None [sample_endpoint ''tcp''] [] = Inr r
     \<and> to_peer_pin record_suite (verification_policy_at 1500) r = Inr (pin_for_identity sample_signer)"
  using published_record_pins_identity [OF record_suite_ok record_suite_signature sample_signer_ok
      sample_publishable [of 1 None "[sample_endpoint ''tcp'']"], of "verification_policy_at 1500"]
  by (auto simp: verification_policy_at_def u64_max_def MAX_CLOCK_SKEW_SECS_def DEFAULT_CLOCK_SKEW_SECS_def)

lemma verified_has_hash: "verify_record S pol r = Inr v \<Longrightarrow> \<exists>h. record_hash S r = Inr h"
  by (auto simp: verify_record_iff record_hash_def Let_def)

theorem resolver_follows_chain_witness:
  "\<exists>acc first second. resolver_run record_suite acc [first, second]
     \<and> r_sequence (rs_record first) = 1 \<and> r_sequence (rs_record second) = 2
     \<and> r_previous (rs_record second) = Some (rs_hash first) \<and> resolution_sound record_suite second"
proof -
  let ?S = record_suite and ?pol = "verification_policy_at 1500"
  let ?subject = "derive_identity_id ?S (ik_signing_public sample_signer)"
  have skew: "vp_skew ?pol \<le> MAX_CLOCK_SKEW_SECS" by (simp add: verification_policy_at_def MAX_CLOCK_SKEW_SECS_def DEFAULT_CLOCK_SKEW_SECS_def)
  obtain s1 where v1: "verify_record ?S ?pol ((draft_record ?S sample_signer 1 1000 2000 None [] [])\<lparr>r_signatures := s1\<rparr>)
      = Inr \<lparr>vr_subject = ?subject, vr_pqc = False\<rparr>" (is "verify_record _ _ ?r1 = _") using sample_verifies [of 1 None] by auto
  obtain h1 where h1: "record_hash ?S ?r1 = Inr h1" using verified_has_hash [OF v1] by blast
  obtain s2 where v2: "verify_record ?S ?pol ((draft_record ?S sample_signer 2 1000 2000 (Some h1) [] [])\<lparr>r_signatures := s2\<rparr>)
      = Inr \<lparr>vr_subject = ?subject, vr_pqc = False\<rparr>" (is "verify_record _ _ ?r2 = _") using sample_verifies [of 2 "Some h1"] by auto
  obtain h2 where h2: "record_hash ?S ?r2 = Inr h2" using verified_has_hash [OF v2] by blast
  let ?first = "\<lparr>rs_record = ?r1, rs_hash = h1, rs_consulted = 1, rs_invalid = 0\<rparr>"
    and ?second = "\<lparr>rs_record = ?r2, rs_hash = h2, rs_consulted = 1, rs_invalid = 0\<rparr>"
  have seq: "r_sequence ?r1 = 1" "r_sequence ?r2 = 2" "r_previous ?r2 = Some h1" by (simp_all add: draft_record_def)
  have "resolver_run ?S [?subject \<mapsto> \<lparr>ar_sequence = 1, ar_hash = h1\<rparr>] ([] @ [?first])"
    by (rule resolver_accepts [OF resolver_start, of _ ?subject "[one_record_provider ?r1]" ?pol])
      (subst resolve_single [OF skew v1 h1], simp_all only: seq accept_record_def, simp_all)
  moreover have "resolve ?S [?subject \<mapsto> \<lparr>ar_sequence = 1, ar_hash = h1\<rparr>] ?subject [one_record_provider ?r2] ?pol
      = (Inr ?second, [?subject \<mapsto> \<lparr>ar_sequence = 2, ar_hash = h2\<rparr>])"
    by (subst resolve_single [OF skew v2 h2]) (simp_all add: accept_record_def seq sat_add_def u64_max_def)
  ultimately have run: "resolver_run ?S [?subject \<mapsto> \<lparr>ar_sequence = 2, ar_hash = h2\<rparr>] [?first, ?second]"
    using resolver_accepts by fastforce
  from resolver_follows_chain [OF run, of 1] run seq show ?thesis by (intro exI [of _ ?first] exI [of _ ?second] exI conjI) auto
qed

end
