(* ===== verification/Edge_Capability.thy ===== *)
theory Edge_Capability
  imports Identity Audit_Journal "HOL-Library.List_Lexorder" "HOL-Library.Product_Lexorder" "HOL-Library.Multiset"
begin

text \<open>
  Capabilities of the edge relay: \<open>shph-edge/src/capability.rs\<close> (claims, issuer, verifier and the cache of used nonces) and
  \<open>shph-edge/src/frontdoor.rs\<close> (the lock-free rate limiter and the decision on a request).  Ed25519 comes from the cryptographic
  suite, URL-safe base64 is the parameter \<open>U\<close>, and the clock readings are arguments.  The lemmas show the round trip of issued
  tokens, that the cache implements a set of live nonces, that a token is accepted at most once, the bound of the rate limiter
  under every interleaving of its callers, and that the required capacity of the cache is enough.
\<close>

unbundle bit_operations_syntax

section \<open>Claims\<close>

record url64 =
  url_enc :: "bytes \<Rightarrow> string"
  url_dec :: "string \<Rightarrow> bytes option"

definition CAPABILITY_VERSION :: string where "CAPABILITY_VERSION = ''phantom-one.1''"
definition SIGNING_DOMAIN :: bytes where "SIGNING_DOMAIN = as_bytes ''SHPH-EDGE-CAPABILITY/PHANTOM-ONE/1'' @ [0]"
definition NONCE_LEN :: usize where "NONCE_LEN = 16"
definition MAX_TOKEN_LEN :: usize where "MAX_TOKEN_LEN = 4096"
definition MAX_AUDIENCE_LEN :: usize where "MAX_AUDIENCE_LEN = 64"

datatype capability_error =
    CapMalformed | CapInvalidSignature | CapInvalidAudience | CapInvalidLifetime | CapLifetimeTooLong | CapNotYetValid | CapExpired
  | CapAudienceMismatch | CapReplay | CapInvalidSigningKey

record capability_claims =
  cl_audience :: string
  cl_issued_at :: u64
  cl_expires_at :: u64
  cl_nonce :: bytes

definition as_secs :: "duration \<Rightarrow> u64" where
  "as_secs d = d div 1000000000"

definition audience_char :: "char \<Rightarrow> bool" where
  "audience_char c \<longleftrightarrow> \<not> ((of_char c :: nat) \<le> 32 \<or> c = CHR ''/'' \<or> c = CHR 0x5C)"

definition validate_shape :: "capability_claims \<Rightarrow> u64 \<Rightarrow> duration \<Rightarrow> capability_error + unit" where
  "validate_shape c now max_lifetime =
     (if cl_audience c = [] \<or> MAX_AUDIENCE_LEN < length (cl_audience c) then Inl CapInvalidAudience
      else if \<not> is_ascii (cl_audience c) \<or> \<not> list_all audience_char (cl_audience c) then Inl CapInvalidAudience
      else if cl_expires_at c \<le> cl_issued_at c then Inl CapInvalidLifetime
      else if as_secs max_lifetime < cl_expires_at c - cl_issued_at c then Inl CapLifetimeTooLong
      else if now < cl_issued_at c then Inl CapNotYetValid
      else if cl_expires_at c \<le> now then Inl CapExpired
      else Inr ())"

definition encode_claims :: "capability_claims \<Rightarrow> capability_error + bytes" where
  "encode_claims c =
     (if u8_max < length (cl_audience c) then Inl CapInvalidAudience
      else Inr ([of_nat (length (cl_audience c))] @ as_bytes (cl_audience c) @ be_bytes 8 (cl_issued_at c) @ be_bytes 8 (cl_expires_at c)
        @ cl_nonce c))"

definition bytes_string :: "bytes \<Rightarrow> string" where
  "bytes_string bs = map (\<lambda>b. char_of (unat b)) bs"

definition decode_claims :: "bytes \<Rightarrow> capability_error + capability_claims" where
  "decode_claims payload =
     (if length payload < 1 + 8 + 8 + NONCE_LEN then Inl CapMalformed
      else let audience_len = unat (payload ! 0); expected = 1 + audience_len + 8 + 8 + NONCE_LEN in
      if audience_len = 0 \<or> MAX_AUDIENCE_LEN < audience_len \<or> expected \<noteq> length payload then Inl CapMalformed
      else let audience = bytes_string (slice payload 1 (1 + audience_len)) in
      if \<not> utf8_valid audience then Inl CapMalformed
      else let cursor = 1 + audience_len in
        Inr \<lparr>cl_audience = audience, cl_issued_at = of_be (slice payload cursor (cursor + 8)),
             cl_expires_at = of_be (slice payload (cursor + 8) (cursor + 16)), cl_nonce = drop (cursor + 16) payload\<rparr>)"

section \<open>Issuing and verifying\<close>

record capability_issuer =
  ci_seed :: bytes
  ci_max_lifetime :: duration

record capability_verifier =
  cv_public_key :: bytes
  cv_audience :: string
  cv_max_lifetime :: duration
  cv_clock_skew :: duration

record verified_capability =
  vc_claims :: capability_claims
  vc_valid_from :: u64
  vc_replay_expires_at :: u64

text \<open>The PKCS 8 parser of the signature library is an argument.\<close>

definition issuer_from_pkcs8 :: "(bytes \<Rightarrow> bytes option) \<Rightarrow> bytes \<Rightarrow> duration \<Rightarrow> capability_error + capability_issuer" where
  "issuer_from_pkcs8 parse pkcs8 max_lifetime =
     (case parse pkcs8 of None \<Rightarrow> Inl CapInvalidSigningKey | Some seed \<Rightarrow> Inr \<lparr>ci_seed = seed, ci_max_lifetime = max_lifetime\<rparr>)"

definition issuer_public_key :: "suite \<Rightarrow> capability_issuer \<Rightarrow> bytes" where
  "issuer_public_key S i = ed_public S (ci_seed i)"

definition signing_input :: "bytes \<Rightarrow> bytes" where
  "signing_input payload = SIGNING_DOMAIN @ payload"

definition capability_issue :: "suite \<Rightarrow> url64 \<Rightarrow> capability_issuer \<Rightarrow> capability_claims \<Rightarrow> capability_error + string" where
  "capability_issue S U i c =
     (case validate_shape c (cl_issued_at c) (ci_max_lifetime i) of Inl e \<Rightarrow> Inl e | Inr _ \<Rightarrow>
      (case encode_claims c of Inl e \<Rightarrow> Inl e | Inr payload \<Rightarrow>
       Inr (CAPABILITY_VERSION @ ''.'' @ url_enc U payload @ ''.'' @ url_enc U (ed_sign S (ci_seed i) (signing_input payload)))))"

definition verifier_new :: "bytes \<Rightarrow> string \<Rightarrow> duration \<Rightarrow> duration \<Rightarrow> capability_error + capability_verifier" where
  "verifier_new public_key audience max_lifetime clock_skew =
     (case validate_shape \<lparr>cl_audience = audience, cl_issued_at = 1, cl_expires_at = 2, cl_nonce = replicate 16 0\<rparr> 1 max_lifetime of
        Inl _ \<Rightarrow> Inl CapInvalidAudience
      | Inr _ \<Rightarrow> Inr \<lparr>cv_public_key = public_key, cv_audience = audience, cv_max_lifetime = max_lifetime, cv_clock_skew = clock_skew\<rparr>)"

definition sat_mul :: "nat \<Rightarrow> nat \<Rightarrow> nat \<Rightarrow> nat" where
  "sat_mul mx a b = min mx (a * b)"

definition replay_retention_secs :: "capability_verifier \<Rightarrow> u64" where
  "replay_retention_secs v =
     sat_add u64_max (sat_add u64_max (as_secs (cv_max_lifetime v)) (sat_mul u64_max (as_secs (cv_clock_skew v)) 2)) 1"

definition strip_prefix :: "string \<Rightarrow> string \<Rightarrow> string option" where
  "strip_prefix p s = (if take (length p) s = p then Some (drop (length p) s) else None)"

definition split_once :: "char \<Rightarrow> string \<Rightarrow> (string \<times> string) option" where
  "split_once c s = (if c \<in> set s then Some (takeWhile (\<lambda>x. x \<noteq> c) s, drop 1 (dropWhile (\<lambda>x. x \<noteq> c) s)) else None)"

text \<open>The checks on the claims after the signature.\<close>

definition check_claims :: "capability_verifier \<Rightarrow> u64 \<Rightarrow> capability_claims \<Rightarrow> capability_error + verified_capability" where
  "check_claims v now c =
     (let skew = as_secs (cv_clock_skew v) in
      if cl_audience c \<noteq> cv_audience v then Inl CapAudienceMismatch
      else if sat_add u64_max now skew < cl_issued_at c then Inl CapNotYetValid
      else if cl_expires_at c \<le> now - skew then Inl CapExpired
      else (case checked_sub (cl_expires_at c) (cl_issued_at c) of
        None \<Rightarrow> Inl CapInvalidLifetime
      | Some lifetime \<Rightarrow>
          if lifetime = 0 then Inl CapInvalidLifetime
          else if as_secs (cv_max_lifetime v) < lifetime then Inl CapLifetimeTooLong
          else Inr \<lparr>vc_claims = c, vc_valid_from = cl_issued_at c - skew, vc_replay_expires_at = sat_add u64_max (cl_expires_at c) skew\<rparr>))"

definition verify_for_replay :: "suite \<Rightarrow> url64 \<Rightarrow> capability_verifier \<Rightarrow> string \<Rightarrow> u64 \<Rightarrow> capability_error + verified_capability" where
  "verify_for_replay S U v token now =
     (if MAX_TOKEN_LEN < length token then Inl CapMalformed
      else (case strip_prefix (CAPABILITY_VERSION @ ''.'') token of None \<Rightarrow> Inl CapMalformed | Some encoded \<Rightarrow>
      (case split_once (CHR ''.'') encoded of None \<Rightarrow> Inl CapMalformed | Some (payload_b64, signature_b64) \<Rightarrow>
      (case url_dec U payload_b64 of None \<Rightarrow> Inl CapMalformed | Some payload \<Rightarrow>
      (case url_dec U signature_b64 of None \<Rightarrow> Inl CapMalformed | Some sg \<Rightarrow>
      if length sg \<noteq> 64 then Inl CapMalformed
      else if \<not> ed_verify S (cv_public_key v) (signing_input payload) sg then Inl CapInvalidSignature
      else (case decode_claims payload of Inl e \<Rightarrow> Inl e | Inr c \<Rightarrow> check_claims v now c))))))"

section \<open>The cache of used nonces\<close>

text \<open>\<open>entries\<close> is the hash map as a list of pairs with distinct keys; \<open>expirations\<close>, a binary heap of reversed pairs, is the list of its
  pairs in the order in which they are popped.\<close>

record replay_cache =
  rc_capacity :: usize
  rc_entries :: "(bytes \<times> u64) list"
  rc_expirations :: "(u64 \<times> bytes) list"

definition replay_cache_new :: "usize \<Rightarrow> capability_error + replay_cache" where
  "replay_cache_new capacity =
     (if capacity = 0 \<or> 1000000 < capacity then Inl CapMalformed
      else Inr \<lparr>rc_capacity = capacity, rc_entries = [], rc_expirations = []\<rparr>)"

fun prune_heap :: "u64 \<Rightarrow> (u64 \<times> bytes) list \<Rightarrow> (bytes \<times> u64) list \<Rightarrow> (u64 \<times> bytes) list \<times> (bytes \<times> u64) list" where
  "prune_heap now [] entries = ([], entries)"
| "prune_heap now ((e, n) # heap) entries =
     (if now < e then ((e, n) # heap, entries)
      else prune_heap now heap (if map_of entries n = Some e then filter (\<lambda>p. fst p \<noteq> n) entries else entries))"

definition cache_prune :: "u64 \<Rightarrow> replay_cache \<Rightarrow> replay_cache" where
  "cache_prune now c = (let (heap, entries) = prune_heap now (rc_expirations c) (rc_entries c) in
     c\<lparr>rc_entries := entries, rc_expirations := heap\<rparr>)"

definition cache_insert :: "bytes \<Rightarrow> u64 \<Rightarrow> u64 \<Rightarrow> replay_cache \<Rightarrow> bool \<times> replay_cache" where
  "cache_insert nonce expires_at now c =
     (if (case map_of (rc_entries c) nonce of Some e \<Rightarrow> now < e | None \<Rightarrow> False) then (False, c)
      else let c' = cache_prune now c in
      if expires_at \<le> now \<or> map_of (rc_entries c') nonce \<noteq> None then (False, c')
      else if rc_capacity c' \<le> length (rc_entries c') then (False, c')
      else (True, c'\<lparr>rc_entries := (nonce, expires_at) # rc_entries c', rc_expirations := insort (expires_at, nonce) (rc_expirations c')\<rparr>))"

definition cache_consume :: "verified_capability \<Rightarrow> u64 \<Rightarrow> replay_cache \<Rightarrow> (capability_error + capability_claims) \<times> replay_cache" where
  "cache_consume v now c =
     (if now < vc_valid_from v then (Inl CapNotYetValid, c)
      else if vc_replay_expires_at v \<le> now then (Inl CapExpired, c)
      else (case cache_insert (cl_nonce (vc_claims v)) (vc_replay_expires_at v) now c of
        (False, c') \<Rightarrow> (Inl CapReplay, c')
      | (True, c') \<Rightarrow> (Inr (vc_claims v), c')))"

definition verify_capability ::
    "suite \<Rightarrow> url64 \<Rightarrow> capability_verifier \<Rightarrow> string \<Rightarrow> u64 \<Rightarrow> replay_cache \<Rightarrow> (capability_error + capability_claims) \<times> replay_cache" where
  "verify_capability S U v token now c =
     (case verify_for_replay S U v token now of Inl e \<Rightarrow> (Inl e, c) | Inr vc \<Rightarrow> cache_consume vc now c)"

section \<open>The rate limiter\<close>

definition MAX_VERIFICATION_RATE :: u64 where "MAX_VERIFICATION_RATE = 100000"
definition RATE_COUNT_BITS :: nat where "RATE_COUNT_BITS = 20"
definition RATE_COUNT_MASK :: "64 word" where "RATE_COUNT_MASK = push_bit RATE_COUNT_BITS 1 - 1"

definition rate_limit_new :: "u64 \<Rightarrow> u64 option" where
  "rate_limit_new limit = (if 1 \<le> limit \<and> limit \<le> MAX_VERIFICATION_RATE then Some limit else None)"

text \<open>The value that one turn of the loop tries to store, \<open>None\<close> when the turn returns \<open>false\<close>.\<close>

definition rate_next :: "u64 \<Rightarrow> 64 word \<Rightarrow> 64 word \<Rightarrow> 64 word option" where
  "rate_next limit window observed =
     (let previous_window = drop_bit RATE_COUNT_BITS observed; previous_count = observed AND RATE_COUNT_MASK in
      if previous_window < window then Some (push_bit RATE_COUNT_BITS window OR 1)
      else if window < previous_window \<or> limit \<le> unat previous_count then None
      else Some (observed + 1))"

text \<open>The loop with no other thread: the exchange succeeds, or fails spuriously and the same turn is taken again.\<close>

definition try_acquire_in_window :: "u64 \<Rightarrow> 64 word \<Rightarrow> 64 word \<Rightarrow> bool \<times> 64 word" where
  "try_acquire_in_window limit window s = (case rate_next limit window s of None \<Rightarrow> (False, s) | Some s' \<Rightarrow> (True, s'))"

text \<open>The loop among other threads.  A worker calls with a window and is about to load the state, has observed a value, or has
  returned.  \<open>compare_exchange_weak\<close> stores when the state is the observed value, and may fail even then; a failure reloads.\<close>

datatype worker_pc = Loading | Observed "64 word" | Returned bool

type_synonym rate_system = "64 word \<times> u64 list \<times> (u64 \<times> worker_pc) list"

inductive rate_step :: "u64 \<Rightarrow> rate_system \<Rightarrow> rate_system \<Rightarrow> bool" for limit where
  rate_load: "i < length ts \<Longrightarrow> ts ! i = (w, Loading) \<Longrightarrow> rate_step limit (s, h, ts) (s, h, ts[i := (w, Observed s)])"
| rate_refuse: "i < length ts \<Longrightarrow> ts ! i = (w, Observed obs) \<Longrightarrow> rate_next limit (of_nat w) obs = None \<Longrightarrow>
     rate_step limit (s, h, ts) (s, h, ts[i := (w, Returned False)])"
| rate_exchange: "i < length ts \<Longrightarrow> ts ! i = (w, Observed obs) \<Longrightarrow> rate_next limit (of_nat w) obs = Some s' \<Longrightarrow> s = obs \<Longrightarrow>
     rate_step limit (s, h, ts) (s', w # h, ts[i := (w, Returned True)])"
| rate_retry: "i < length ts \<Longrightarrow> ts ! i = (w, Observed obs) \<Longrightarrow> rate_next limit (of_nat w) obs = Some s' \<Longrightarrow>
     rate_step limit (s, h, ts) (s, h, ts[i := (w, Observed s)])"

inductive rate_reachable :: "u64 \<Rightarrow> u64 list \<Rightarrow> rate_system \<Rightarrow> bool" for limit windows where
  rate_start: "rate_reachable limit windows (0, [], map (\<lambda>w. (w, Loading)) windows)"
| rate_more: "rate_reachable limit windows c \<Longrightarrow> rate_step limit c c' \<Longrightarrow> rate_reachable limit windows c'"

section \<open>The cache implements the set of live nonces\<close>

definition swap_pair :: "'a \<times> 'b \<Rightarrow> 'b \<times> 'a" where
  "swap_pair p = (snd p, fst p)"

lemma swap_pair_simp [simp]: "swap_pair (a, b) = (b, a)"
  by (simp add: swap_pair_def)

text \<open>The heap indexes exactly the entries, and the map never outgrows the capacity.\<close>

definition index_ok :: "(u64 \<times> bytes) list \<Rightarrow> (bytes \<times> u64) list \<Rightarrow> bool" where
  "index_ok heap entries \<longleftrightarrow> sorted heap \<and> distinct (map fst entries) \<and> mset heap = mset (map swap_pair entries)"

definition cache_ok :: "replay_cache \<Rightarrow> bool" where
  "cache_ok c \<longleftrightarrow> index_ok (rc_expirations c) (rc_entries c) \<and> length (rc_entries c) \<le> rc_capacity c"

definition live :: "u64 \<Rightarrow> (bytes \<times> u64) list \<Rightarrow> (bytes \<times> u64) list" where
  "live now entries = filter (\<lambda>p. now < snd p) entries"

lemma index_mem: "index_ok heap entries \<Longrightarrow> (e, n) \<in> set heap \<longleftrightarrow> (n, e) \<in> set entries"
proof -
  assume "index_ok heap entries"
  then have "set heap = set (map swap_pair entries)" unfolding index_ok_def by (metis set_mset_mset)
  then show ?thesis by (force simp: swap_pair_def)
qed

lemma filter_key_remove1:
  "distinct (map fst xs) \<Longrightarrow> (k, v) \<in> set xs \<Longrightarrow> filter (\<lambda>p. fst p \<noteq> k) xs = remove1 (k, v) xs"
proof (induction xs)
  case (Cons x xs)
  then show ?case
  proof (cases "x = (k, v)")
    case True
    with Cons.prems(1) have "\<forall>p\<in>set xs. fst p \<noteq> k" by force
    with True show ?thesis by (simp add: filter_id_conv)
  next
    case False
    with Cons.prems(2) have mem: "(k, v) \<in> set xs" by simp
    then have "k \<in> fst ` set xs" by (metis fst_conv image_eqI)
    with Cons.prems(1) have "fst x \<noteq> k" by auto
    with Cons mem False show ?thesis by simp
  qed
qed simp

lemma index_pop:
  assumes "index_ok ((e, n) # heap) entries"
  shows "map_of entries n = Some e" and "index_ok heap (filter (\<lambda>p. fst p \<noteq> n) entries)"
proof -
  have d: "distinct (map fst entries)" and mem: "(n, e) \<in> set entries" using assms index_mem [OF assms, of e n] by (auto simp: index_ok_def)
  then show "map_of entries n = Some e" by simp
  have "mset heap = mset (map swap_pair (remove1 (n, e) entries))"
  proof -
    have "mset entries = add_mset (n, e) (mset (remove1 (n, e) entries))" using mem by simp
    then have "mset (map swap_pair entries) = add_mset (e, n) (mset (map swap_pair (remove1 (n, e) entries)))"
      by (metis image_mset_add_mset mset_map swap_pair_simp)
    with assms show ?thesis by (simp add: index_ok_def)
  qed
  with assms d show "index_ok heap (filter (\<lambda>p. fst p \<noteq> n) entries)"
    by (simp add: index_ok_def filter_key_remove1 [OF d mem] distinct_map_filter flip: filter_key_remove1 [OF d mem])
qed

text \<open>Pruning keeps exactly the entries that are still live.\<close>

lemma prune_heap_live:
  "index_ok heap entries \<Longrightarrow> prune_heap now heap entries = (filter (\<lambda>p. now < fst p) heap, live now entries)"
proof (induction now heap entries rule: prune_heap.induct)
  case (1 now entries)
  then show ?case by (simp add: index_ok_def live_def)
next
  case (2 now e n heap entries)
  show ?case
  proof (cases "now < e")
    case True
    have all: "\<forall>p\<in>set ((e, n) # heap). now < fst p"
    proof
      fix p assume "p \<in> set ((e, n) # heap)"
      then have "(e, n) \<le> p" using "2.prems" by (auto simp: index_ok_def)
      then show "now < fst p" using True by (cases p) (auto simp: less_eq_prod_def)
    qed
    moreover have "\<forall>p\<in>set entries. now < snd p" using all index_mem [OF "2.prems"] by force
    ultimately show ?thesis using True by (simp add: live_def)
  next
    case False
    note pop = index_pop [OF "2.prems"]
    have "live now (filter (\<lambda>p. fst p \<noteq> n) entries) = live now entries"
      unfolding live_def filter_filter
    proof (rule filter_cong [OF refl])
      fix p assume "p \<in> set entries"
      moreover have "distinct (map fst entries)" using "2.prems" by (simp add: index_ok_def)
      ultimately have "fst p = n \<longrightarrow> snd p = e" using pop(1) by (metis map_of_eq_Some_iff option.inject prod.collapse)
      then show "(fst p \<noteq> n \<and> now < snd p) = (now < snd p)" using False by auto
    qed
    with "2.IH" [OF False] pop False show ?thesis by simp
  qed
qed

lemma index_live: "index_ok heap entries \<Longrightarrow> index_ok (filter (\<lambda>p. now < fst p) heap) (live now entries)"
proof -
  assume a: "index_ok heap entries"
  have "filter_mset (\<lambda>p. now < fst p) (mset (map swap_pair entries)) = mset (map swap_pair (live now entries))"
    by (simp add: live_def filter_mset_image_mset swap_pair_def)
  with a show ?thesis by (simp add: index_ok_def sorted_wrt_filter live_def distinct_map_filter)
qed

lemma cache_prune_live: "cache_ok c \<Longrightarrow> rc_entries (cache_prune now c) = live now (rc_entries c) \<and> cache_ok (cache_prune now c)
   \<and> rc_capacity (cache_prune now c) = rc_capacity c"
  using prune_heap_live [of "rc_expirations c" "rc_entries c" now] index_live [of "rc_expirations c" "rc_entries c" now]
  by (auto simp: cache_prune_def cache_ok_def live_def intro: le_trans [OF length_filter_le])

lemma live_key: "distinct (map fst entries) \<Longrightarrow> (k \<in> fst ` set (live now entries)) = (\<exists>e. map_of entries k = Some e \<and> now < e)"
  by (force simp: live_def)

lemma live_live: "t \<le> t' \<Longrightarrow> live t' (live t entries) = live t' entries"
  by (auto simp: live_def intro: filter_cong)

text \<open>The specification of an insertion, on the live entries alone.\<close>

lemma cache_insert_spec:
  assumes c: "cache_ok c" and r: "cache_insert n e now c = (ok, c')"
  shows "cache_ok c' \<and> rc_capacity c' = rc_capacity c
     \<and> ok = (n \<notin> fst ` set (live now (rc_entries c)) \<and> now < e \<and> length (live now (rc_entries c)) < rc_capacity c)
     \<and> live now (rc_entries c') = (if ok then (n, e) # live now (rc_entries c) else live now (rc_entries c))
     \<and> (\<forall>p. p \<in> set (rc_entries c') \<longrightarrow> p \<in> set (rc_entries c) \<or> ok \<and> p = (n, e))"
proof -
  have d: "distinct (map fst (rc_entries c))" using c by (simp add: cache_ok_def index_ok_def)
  define p where "p = cache_prune now c"
  have p: "rc_entries p = live now (rc_entries c)" "cache_ok p" "rc_capacity p = rc_capacity c"
    using cache_prune_live [OF c] by (simp_all add: p_def)
  have none: "map_of (live now (rc_entries c)) n = None \<longleftrightarrow> n \<notin> fst ` set (live now (rc_entries c))" by (simp add: map_of_eq_None_iff)
  have push: "index_ok (insort (e, n) (rc_expirations p)) ((n, e) # rc_entries p)" if "n \<notin> fst ` set (rc_entries p)"
    using p(2) that by (simp add: cache_ok_def index_ok_def sorted_insort)
  show ?thesis
  proof (cases "\<exists>x. map_of (rc_entries c) n = Some x \<and> now < x")
    case True
    with r have "ok = False" "c' = c" by (auto simp: cache_insert_def)
    with c True show ?thesis using live_key [OF d, of n now] by auto
  next
    case False
    then have nl: "n \<notin> fst ` set (live now (rc_entries c))" using live_key [OF d, of n now] by blast
    then have nl': "map_of (rc_entries p) n = None" using none p(1) by simp
    from False r have r': "(if e \<le> now then (False, p) else if rc_capacity p \<le> length (rc_entries p) then (False, p)
        else (True, p\<lparr>rc_entries := (n, e) # rc_entries p, rc_expirations := insort (e, n) (rc_expirations p)\<rparr>)) = (ok, c')"
      using nl' by (auto simp: cache_insert_def Let_def p_def [symmetric] split: option.splits if_splits)
    have ll: "live now (live now (rc_entries c)) = live now (rc_entries c)" by (rule live_live) simp
    show ?thesis
    proof (cases "now < e \<and> length (live now (rc_entries c)) < rc_capacity c")
      case True
      with r' p have c': "ok = True" "c' = p\<lparr>rc_entries := (n, e) # rc_entries p, rc_expirations := insort (e, n) (rc_expirations p)\<rparr>"
        by (auto split: if_splits)
      with True p push nl ll show ?thesis by (auto simp: cache_ok_def live_def)
    next
      case False
      with r' p have "ok = False" "c' = p" by (auto split: if_splits)
      with False p ll show ?thesis by (auto simp: live_def)
    qed
  qed
qed

section \<open>At most one use\<close>

definition commits :: "verified_capability \<Rightarrow> u64 \<Rightarrow> replay_cache \<Rightarrow> bool" where
  "commits v now c \<longleftrightarrow> vc_valid_from v \<le> now \<and> now < vc_replay_expires_at v \<and> cl_nonce (vc_claims v) \<notin> fst ` set (live now (rc_entries c))
     \<and> length (live now (rc_entries c)) < rc_capacity c"

lemma cache_consume_spec:
  assumes c: "cache_ok c" and r: "cache_consume v now c = (res, c')"
  shows "cache_ok c' \<and> rc_capacity c' = rc_capacity c
     \<and> (if commits v now c
        then res = Inr (vc_claims v) \<and> live now (rc_entries c') = (cl_nonce (vc_claims v), vc_replay_expires_at v) # live now (rc_entries c)
        else (\<exists>e. res = Inl e) \<and> live now (rc_entries c') = live now (rc_entries c))"
proof (cases "vc_valid_from v \<le> now \<and> now < vc_replay_expires_at v")
  case True
  obtain ok x where i: "cache_insert (cl_nonce (vc_claims v)) (vc_replay_expires_at v) now c = (ok, x)" by fastforce
  from cache_insert_spec [OF c i] True r i show ?thesis
    by (cases ok) (auto simp: cache_consume_def commits_def)
next
  case False
  then have "c' = c \<and> (\<exists>e. res = Inl e) \<and> \<not> commits v now c" using r by (auto simp: cache_consume_def commits_def split: if_splits)
  with c show ?thesis by simp
qed

text \<open>The commits under the lock, one after the other, each with its clock reading.\<close>

fun consume_run :: "replay_cache \<Rightarrow> (verified_capability \<times> u64) list \<Rightarrow> bool list \<times> replay_cache" where
  "consume_run c [] = ([], c)"
| "consume_run c ((v, now) # evs) =
     (let (res, c1) = cache_consume v now c; (oks, c2) = consume_run c1 evs in ((\<not> isl res) # oks, c2))"

lemma length_consume_run [simp]: "length (fst (consume_run c evs)) = length evs"
  by (induction c evs rule: consume_run.induct) (auto simp: Let_def split: prod.splits)

lemma consume_run_ok: "cache_ok c \<Longrightarrow> cache_ok (snd (consume_run c evs))"
proof (induction c evs rule: consume_run.induct)
  case (2 c v now evs)
  obtain res c1 where r: "cache_consume v now c = (res, c1)" by fastforce
  from cache_consume_spec [OF "2.prems" r] have "cache_ok c1" by simp
  from "2.IH" [OF r [symmetric] refl this] r show ?case by (auto simp: Let_def split: prod.splits)
qed simp

text \<open>A nonce that is live stays refused while the clock has not passed its expiry.\<close>

lemma live_mono: "t \<le> t' \<Longrightarrow> (n, e) \<in> set (live t xs) \<Longrightarrow> t' < e \<Longrightarrow> (n, e) \<in> set (live t' xs)"
  by (simp add: live_def)

lemma live_nonce_refused:
  assumes "cache_ok c" "(n, e) \<in> set (live t (rc_entries c))" "sorted (t # map snd evs)"
    and "j < length evs" "cl_nonce (vc_claims (fst (evs ! j))) = n" "fst (consume_run c evs) ! j"
  shows "e \<le> snd (evs ! j)"
  using assms
proof (induction c evs arbitrary: t j rule: consume_run.induct)
  case (2 c v now evs)
  obtain res c1 where r: "cache_consume v now c = (res, c1)" by fastforce
  note spec = cache_consume_spec [OF "2.prems"(1) r]
  show ?case
  proof (cases "e \<le> now")
    case True
    with "2.prems"(3,4) show ?thesis by (cases j) (auto simp: order.trans dest!: nth_mem)
  next
    case False
    then have l: "(n, e) \<in> set (live now (rc_entries c))" using live_mono [OF _ "2.prems"(2), of now] "2.prems"(3) by simp
    have l1: "(n, e) \<in> set (live now (rc_entries c1))" using spec l by (auto split: if_splits)
    show ?thesis
    proof (cases j)
      case 0
      with "2.prems"(5,6) r l spec show ?thesis by (force simp: Let_def commits_def split: prod.splits if_splits)
    next
      case (Suc i)
      have "e \<le> snd (evs ! i)"
      proof (rule "2.IH" [OF r [symmetric] refl _ l1])
        show "cache_ok c1" using spec by simp
        show "sorted (now # map snd evs)" using "2.prems"(3) by simp
        show "i < length evs" "cl_nonce (vc_claims (fst (evs ! i))) = n" using "2.prems"(4,5) Suc by simp_all
        show "fst (consume_run c1 evs) ! i" using "2.prems"(6) Suc r by (simp add: Let_def split: prod.splits)
      qed
      with Suc show ?thesis by simp
    qed
  qed
qed simp

lemma nonce_once:
  assumes "cache_ok c" "sorted (map snd evs)" "i < j" "j < length evs"
    and "cl_nonce (vc_claims (fst (evs ! i))) = cl_nonce (vc_claims (fst (evs ! j)))"
    and "fst (consume_run c evs) ! i" "fst (consume_run c evs) ! j"
  shows "vc_replay_expires_at (fst (evs ! i)) \<le> snd (evs ! j)"
  using assms
proof (induction c evs arbitrary: i j rule: consume_run.induct)
  case (2 c v now evs)
  obtain res c1 where r: "cache_consume v now c = (res, c1)" by fastforce
  note spec = cache_consume_spec [OF "2.prems"(1) r]
  obtain j' where j: "j = Suc j'" using "2.prems"(3) by (cases j) auto
  have okj: "fst (consume_run c1 evs) ! j'" using "2.prems"(7) j r by (simp add: Let_def split: prod.splits)
  show ?case
  proof (cases i)
    case 0
    then have "\<not> isl res" using "2.prems"(6) r by (simp add: Let_def split: prod.splits)
    then have "(cl_nonce (vc_claims v), vc_replay_expires_at v) \<in> set (live now (rc_entries c1))" using spec by (auto split: if_splits)
    from live_nonce_refused [OF _ this, of evs j'] spec "2.prems"(2,4,5) 0 j okj show ?thesis by simp
  next
    case (Suc i')
    have "vc_replay_expires_at (fst (evs ! i')) \<le> snd (evs ! j')"
    proof (rule "2.IH" [OF r [symmetric] refl])
      show "fst (consume_run c1 evs) ! i'" using "2.prems"(6) Suc r by (simp add: Let_def split: prod.splits)
    qed (use spec "2.prems" Suc j okj in simp_all)
    with Suc j show ?thesis by simp
  qed
qed simp

lemma consume_run_window:
  "cache_ok c \<Longrightarrow> j < length evs \<Longrightarrow> fst (consume_run c evs) ! j \<Longrightarrow>
     vc_valid_from (fst (evs ! j)) \<le> snd (evs ! j) \<and> snd (evs ! j) < vc_replay_expires_at (fst (evs ! j))"
proof (induction c evs arbitrary: j rule: consume_run.induct)
  case (2 c v now evs)
  obtain res c1 where r: "cache_consume v now c = (res, c1)" by fastforce
  note spec = cache_consume_spec [OF "2.prems"(1) r]
  show ?case
  proof (cases j)
    case 0
    with "2.prems"(3) r spec show ?thesis by (auto simp: Let_def commits_def split: prod.splits if_splits)
  next
    case (Suc i)
    have "fst (consume_run c1 evs) ! i" using "2.prems"(3) Suc r by (simp add: Let_def split: prod.splits)
    with "2.IH" [OF r [symmetric] refl, of i] spec "2.prems"(2) Suc show ?thesis by simp
  qed
qed simp

section \<open>Tokens\<close>

lemma check_claims_iff:
  "check_claims v now c = Inr vc \<longleftrightarrow>
     cl_audience c = cv_audience v \<and> cl_issued_at c \<le> sat_add u64_max now (as_secs (cv_clock_skew v))
   \<and> now - as_secs (cv_clock_skew v) < cl_expires_at c \<and> cl_issued_at c < cl_expires_at c
   \<and> cl_expires_at c - cl_issued_at c \<le> as_secs (cv_max_lifetime v)
   \<and> vc = \<lparr>vc_claims = c, vc_valid_from = cl_issued_at c - as_secs (cv_clock_skew v),
           vc_replay_expires_at = sat_add u64_max (cl_expires_at c) (as_secs (cv_clock_skew v))\<rparr>"
  by (auto simp: check_claims_def checked_sub_def Let_def split: if_splits option.splits)

lemma as_bytes_bytes_string [simp]: "as_bytes (bytes_string bs) = bs"
  by (simp add: bytes_string_def as_bytes_char_of)

lemma bytes_string_as_bytes [simp]: "bytes_string (as_bytes s) = s"
  by (metis as_bytes_inj as_bytes_bytes_string)

lemma length_bytes_string [simp]: "length (bytes_string bs) = length bs"
  by (simp add: bytes_string_def)

lemma ascii_utf8: "is_ascii s \<Longrightarrow> utf8_valid s"
  by (induction s rule: utf8_valid.induct) (auto simp: is_ascii_def utf8_extra_def in_range_def)

definition claims_sized :: "capability_claims \<Rightarrow> bool" where
  "claims_sized c \<longleftrightarrow> cl_issued_at c \<le> u64_max \<and> cl_expires_at c \<le> u64_max \<and> length (cl_nonce c) = NONCE_LEN"

lemma claims_roundtrip:
  assumes "encode_claims c = Inr p" "claims_sized c" "cl_audience c \<noteq> []" "length (cl_audience c) \<le> MAX_AUDIENCE_LEN" "utf8_valid (cl_audience c)"
  shows "decode_claims p = Inr c"
proof -
  let ?a = "as_bytes (cl_audience c)" and ?k = "length (cl_audience c)"
  have k: "?k < 256" "unat (of_nat ?k :: byte) = ?k" using assms(4) by (simp_all add: MAX_AUDIENCE_LEN_def unat_of_nat_byte)
  have p: "p = of_nat ?k # ?a @ be_bytes 8 (cl_issued_at c) @ be_bytes 8 (cl_expires_at c) @ cl_nonce c"
    using assms(1) by (simp add: encode_claims_def split: if_splits)
  have len: "length p = 1 + ?k + 8 + 8 + NONCE_LEN" using p assms(2) by (simp add: claims_sized_def)
  have sl: "slice p 1 (1 + ?k) = ?a" "slice p (1 + ?k) (1 + ?k + 8) = be_bytes 8 (cl_issued_at c)"
    "slice p (1 + ?k + 8) (1 + ?k + 16) = be_bytes 8 (cl_expires_at c)" "drop (1 + ?k + 16) p = cl_nonce c"
    using slice_append_mid [of "[of_nat ?k]" 1 ?a "1 + ?k" "be_bytes 8 (cl_issued_at c) @ be_bytes 8 (cl_expires_at c) @ cl_nonce c"]
      slice_append_mid [of "of_nat ?k # ?a" "1 + ?k" "be_bytes 8 (cl_issued_at c)" "1 + ?k + 8" "be_bytes 8 (cl_expires_at c) @ cl_nonce c"]
      slice_append_mid [of "of_nat ?k # ?a @ be_bytes 8 (cl_issued_at c)" "1 + ?k + 8" "be_bytes 8 (cl_expires_at c)" "1 + ?k + 16" "cl_nonce c"]
      append_eq_conv_conj [of "of_nat ?k # ?a @ be_bytes 8 (cl_issued_at c) @ be_bytes 8 (cl_expires_at c)" "cl_nonce c" p]
    by (simp_all add: p)
  have be: "of_be (be_bytes 8 (cl_issued_at c)) = cl_issued_at c" "of_be (be_bytes 8 (cl_expires_at c)) = cl_expires_at c"
    using assms(2) by (simp_all add: claims_sized_def u64_max_def of_be_be_bytes)
  have p0: "unat (p ! 0) = ?k" using p k by simp
  show ?thesis using assms(3-5) len
    by (simp add: decode_claims_def Let_def p0 sl [simplified] be bytes_string_as_bytes sl)
qed

lemma decode_claims_exact:
  assumes "decode_claims p = Inr c"
  shows "encode_claims c = Inr p \<and> claims_sized c"
proof -
  define k where "k = unat (p ! 0)"
  have d: "length p = 1 + k + 8 + 8 + NONCE_LEN" "k \<le> 64" "k \<noteq> 0"
    and c: "c = \<lparr>cl_audience = bytes_string (slice p 1 (1 + k)), cl_issued_at = of_be (slice p (1 + k) (1 + k + 8)),
             cl_expires_at = of_be (slice p (1 + k + 8) (1 + k + 16)), cl_nonce = drop (1 + k + 16) p\<rparr>"
    using assms by (auto simp: decode_claims_def Let_def k_def MAX_AUDIENCE_LEN_def split: if_splits)
  have l: "length (slice p 1 (1 + k)) = k" using d(1) by (simp add: slice_def)
  have "p = [p ! 0] @ slice p 1 (1 + k) @ slice p (1 + k) (1 + k + 8) @ slice p (1 + k + 8) (1 + k + 16) @ drop (1 + k + 16) p"
  proof -
    have "p = slice p 0 1 @ drop 1 p" by (rule buffer_split)
    also have "slice p 0 1 = [p ! 0]" using slice_one [of 0 p] d(1) by simp
    also have "drop 1 p = slice p 1 (1 + k) @ drop (1 + k) p" by (rule drop_split) simp
    also have "drop (1 + k) p = slice p (1 + k) (1 + k + 8) @ drop (1 + k + 8) p" by (rule drop_split) simp
    also have "drop (1 + k + 8) p = slice p (1 + k + 8) (1 + k + 16) @ drop (1 + k + 16) p" by (rule drop_split) simp
    finally show ?thesis .
  qed
  moreover have "be_bytes 8 (of_be (slice p (1 + k) (1 + k + 8))) = slice p (1 + k) (1 + k + 8)"
    "be_bytes 8 (of_be (slice p (1 + k + 8) (1 + k + 16))) = slice p (1 + k + 8) (1 + k + 16)"
    using d(1) by (auto intro!: be_bytes_slice)
  moreover have "(of_nat k :: byte) = p ! 0" by (simp add: k_def)
  moreover have "of_be (slice p (1 + k) (1 + k + 8)) \<le> u64_max" "of_be (slice p (1 + k + 8) (1 + k + 16)) \<le> u64_max"
    using of_be_slice_bound [of "1 + k" 8 "1 + k + 8" p] of_be_slice_bound [of "1 + k + 8" 8 "1 + k + 16" p] d(1) by (simp_all add: u64_max_def)
  ultimately show ?thesis using d(1,2) l by (simp add: c encode_claims_def u8_max_def claims_sized_def NONCE_LEN_def)
qed

text \<open>A token determines its claims, whatever the clock of the verifier.\<close>

lemma verified_token_fixed:
  assumes "verify_for_replay S U v token t = Inr a" "verify_for_replay S U v token t' = Inr b"
  shows "a = b"
  using assms by (auto simp: verify_for_replay_def check_claims_iff split: if_splits option.splits sum.splits prod.splits)

definition fresh_cache :: "usize \<Rightarrow> replay_cache" where
  "fresh_cache capacity = \<lparr>rc_capacity = capacity, rc_entries = [], rc_expirations = []\<rparr>"

lemma cache_new_iff: "replay_cache_new capacity = Inr c \<longleftrightarrow> 0 < capacity \<and> capacity \<le> 1000000 \<and> c = fresh_cache capacity"
  by (auto simp: replay_cache_new_def fresh_cache_def)

lemma fresh_cache_ok [simp]: "cache_ok (fresh_cache capacity)"
  by (simp add: cache_ok_def index_ok_def fresh_cache_def)

text \<open>What URL-safe base64 without padding documents: decoding inverts encoding, the alphabet has no dot, and a text is at most twice
  as long as its bytes.\<close>

definition url64_ok :: "url64 \<Rightarrow> bool" where
  "url64_ok U \<longleftrightarrow> (\<forall>b. url_dec U (url_enc U b) = Some b \<and> CHR ''.'' \<notin> set (url_enc U b) \<and> length (url_enc U b) \<le> 2 * length b)"

lemma validate_shape_iff:
  "validate_shape c now life = Inr () \<longleftrightarrow>
     cl_audience c \<noteq> [] \<and> length (cl_audience c) \<le> MAX_AUDIENCE_LEN \<and> is_ascii (cl_audience c) \<and> list_all audience_char (cl_audience c)
   \<and> cl_issued_at c < cl_expires_at c \<and> cl_expires_at c - cl_issued_at c \<le> as_secs life \<and> cl_issued_at c \<le> now \<and> now < cl_expires_at c"
  by (auto simp: validate_shape_def)

lemma split_token: "c \<notin> set a \<Longrightarrow> split_once c (a @ c # b) = Some (a, b)"
  by (induction a) (auto simp: split_once_def)

lemma split_once_Some: "split_once c s = Some (a, b) \<longleftrightarrow> s = a @ c # b \<and> c \<notin> set a"
proof
  assume "split_once c s = Some (a, b)"
  then have m: "c \<in> set s" and a: "a = takeWhile (\<lambda>x. x \<noteq> c) s" and b: "b = drop 1 (dropWhile (\<lambda>x. x \<noteq> c) s)"
    by (auto simp: split_once_def split: if_splits)
  then obtain d where "dropWhile (\<lambda>x. x \<noteq> c) s = c # d"
    by (cases "dropWhile (\<lambda>x. x \<noteq> c) s") (auto simp: dropWhile_eq_Nil_conv dropWhile_eq_Cons_conv)
  then show "s = a @ c # b \<and> c \<notin> set a" using a b takeWhile_dropWhile_id [of "\<lambda>x. x \<noteq> c" s] by (auto dest: set_takeWhileD)
qed (auto simp: split_token)

lemma strip_prefix_Some: "strip_prefix p s = Some rest \<longleftrightarrow> s = p @ rest"
  by (auto simp: strip_prefix_def) (metis append_take_drop_id)

lemma verified_token_signed:
  assumes "verify_for_replay S U v token now = Inr vc"
  shows "\<exists>p64 s64 payload sg. token = CAPABILITY_VERSION @ ''.'' @ p64 @ ''.'' @ s64 \<and> CHR ''.'' \<notin> set p64
     \<and> url_dec U p64 = Some payload \<and> url_dec U s64 = Some sg \<and> length sg = 64
     \<and> ed_verify S (cv_public_key v) (SIGNING_DOMAIN @ payload) sg
     \<and> encode_claims (vc_claims vc) = Inr payload \<and> cl_audience (vc_claims vc) = cv_audience v
     \<and> cl_issued_at (vc_claims vc) \<le> now + as_secs (cv_clock_skew v) \<and> now < cl_expires_at (vc_claims vc) + as_secs (cv_clock_skew v)"
proof -
  from assms obtain p64 s64 payload sg where *: "length sg = 64" "ed_verify S (cv_public_key v) (signing_input payload) sg"
    "decode_claims payload = Inr (vc_claims vc)" "check_claims v now (vc_claims vc) = Inr vc"
    "strip_prefix (CAPABILITY_VERSION @ ''.'') token = Some (p64 @ CHR ''.'' # s64)" "CHR ''.'' \<notin> set p64"
    "url_dec U p64 = Some payload" "url_dec U s64 = Some sg"
    by (auto simp: verify_for_replay_def check_claims_iff split_once_Some split: if_splits option.splits prod.splits sum.splits)
  have "cl_issued_at (vc_claims vc) \<le> now + as_secs (cv_clock_skew v)" "now < cl_expires_at (vc_claims vc) + as_secs (cv_clock_skew v)"
    "cl_audience (vc_claims vc) = cv_audience v"
    using *(4) by (auto simp: check_claims_iff sat_add_def split: if_splits)
  with * decode_claims_exact [of payload "vc_claims vc"] show ?thesis
    by (intro exI [of _ p64] exI [of _ s64] exI [of _ payload] exI [of _ sg]) (simp add: signing_input_def strip_prefix_Some)
qed

lemma issued_token_verifies:
  assumes S: "suite_ok S" "\<forall>s m. length (ed_sign S s m) = 64" and U: "url64_ok U"
    and issued: "capability_issue S U i c = Inr token" "claims_sized c"
    and v: "cv_public_key v = issuer_public_key S i" "cv_audience v = cl_audience c" "as_secs (ci_max_lifetime i) \<le> as_secs (cv_max_lifetime v)"
    and skew: "skew = as_secs (cv_clock_skew v)" "now + skew \<le> u64_max" "cl_expires_at c + skew \<le> u64_max"
    and window: "cl_issued_at c \<le> now + skew" "now < cl_expires_at c + skew"
  shows "verify_for_replay S U v token now
       = Inr \<lparr>vc_claims = c, vc_valid_from = cl_issued_at c - skew, vc_replay_expires_at = cl_expires_at c + skew\<rparr>"
proof -
  from issued(1) obtain payload where shape: "validate_shape c (cl_issued_at c) (ci_max_lifetime i) = Inr ()" and p: "encode_claims c = Inr payload"
    and t: "token = CAPABILITY_VERSION @ ''.'' @ url_enc U payload @ ''.'' @ url_enc U (ed_sign S (ci_seed i) (signing_input payload))"
    by (auto simp: capability_issue_def split: sum.splits)
  note sh = shape [unfolded validate_shape_iff]
  let ?sg = "ed_sign S (ci_seed i) (signing_input payload)"
  have enc_len: "length (url_enc U b) \<le> 2 * length b" for b using U by (simp add: url64_ok_def)
  have "length payload = 33 + length (cl_audience c)" using p issued(2) by (auto simp: encode_claims_def claims_sized_def NONCE_LEN_def split: if_splits)
  then have lp: "length (url_enc U payload) \<le> 194" "length (url_enc U ?sg) \<le> 128"
    using enc_len [of payload] enc_len [of ?sg] S(2) sh by (simp_all add: MAX_AUDIENCE_LEN_def)
  then have "length token \<le> MAX_TOKEN_LEN" by (simp add: t CAPABILITY_VERSION_def MAX_TOKEN_LEN_def)
  moreover have "strip_prefix (CAPABILITY_VERSION @ ''.'') token = Some (url_enc U payload @ CHR ''.'' # url_enc U ?sg)"
    by (simp add: t strip_prefix_def)
  moreover have "split_once (CHR ''.'') (url_enc U payload @ CHR ''.'' # url_enc U ?sg) = Some (url_enc U payload, url_enc U ?sg)"
    using U by (intro split_token) (simp add: url64_ok_def)
  moreover have "ed_verify S (cv_public_key v) (signing_input payload) ?sg" using suite_okD(6) [OF S(1)] by (simp add: v(1) issuer_public_key_def)
  moreover have "decode_claims payload = Inr c" using claims_roundtrip [OF p issued(2)] sh ascii_utf8 by blast
  ultimately show ?thesis
    using U S(2) v(2,3) sh skew window by (simp add: verify_for_replay_def url64_ok_def check_claims_iff sat_add_def) linarith
qed

text \<open>C24. Issued tokens are accepted and only signed tokens are: a token that the issuer hands out for claims verifies under the matching
  verifier at every clock reading inside the claims' lifetime widened by the skew, and yields those claims; and any token that verifies
  is the version, a payload and a signature joined by dots, where the signature the token itself carries is valid under the verifier's
  key for the payload it carries, and that payload is the encoding of the claims it yields, for the verifier's audience and within that window.\<close>

theorem capability_token_exact:
  assumes S: "suite_ok S" "\<forall>s m. length (ed_sign S s m) = 64" and U: "url64_ok U"
    and issued: "capability_issue S U i c = Inr token" "claims_sized c"
    and v: "cv_public_key v = issuer_public_key S i" "cv_audience v = cl_audience c" "as_secs (ci_max_lifetime i) \<le> as_secs (cv_max_lifetime v)"
    and skew: "skew = as_secs (cv_clock_skew v)" "now + skew \<le> u64_max" "cl_expires_at c + skew \<le> u64_max"
    and window: "cl_issued_at c \<le> now + skew" "now < cl_expires_at c + skew"
  shows "verify_for_replay S U v token now
       = Inr \<lparr>vc_claims = c, vc_valid_from = cl_issued_at c - skew, vc_replay_expires_at = cl_expires_at c + skew\<rparr>
     \<and> (\<forall>other vc. verify_for_replay S U v other now = Inr vc \<longrightarrow>
          (\<exists>p64 s64 payload sg. other = CAPABILITY_VERSION @ ''.'' @ p64 @ ''.'' @ s64 \<and> CHR ''.'' \<notin> set p64
          \<and> url_dec U p64 = Some payload \<and> url_dec U s64 = Some sg \<and> length sg = 64
          \<and> ed_verify S (cv_public_key v) (SIGNING_DOMAIN @ payload) sg
          \<and> encode_claims (vc_claims vc) = Inr payload \<and> cl_audience (vc_claims vc) = cv_audience v
          \<and> cl_issued_at (vc_claims vc) \<le> now + skew \<and> now < cl_expires_at (vc_claims vc) + skew))"
  using issued_token_verifies [OF assms] verified_token_signed [of S U v _ now] by (simp add: skew(1))

text \<open>C19. A capability is used at most once.  Requests verify their tokens at any time and commit one after the other under the
  lock, with clock readings that do not go back: of the commits of one token at most one is accepted, through pruning, capacity
  pressure and any other requests in between; and the heap of expirations never outgrows the bounded map.\<close>

theorem capability_used_once:
  assumes "replay_cache_new capacity = Inr c" and "sorted (map snd evs)" and "i < j" and "j < length evs"
    and "verify_for_replay S U v token t = Inr (fst (evs ! i))" and "verify_for_replay S U v token t' = Inr (fst (evs ! j))"
    and "consume_run c evs = (oks, c')"
  shows "\<not> (oks ! i \<and> oks ! j) \<and> length (rc_entries c') \<le> capacity \<and> length (rc_expirations c') = length (rc_entries c')"
proof -
  have c: "cache_ok c" "rc_capacity c = capacity" using assms(1) by (auto simp: cache_new_iff fresh_cache_def [symmetric]) (simp add: fresh_cache_def)
  have same: "fst (evs ! i) = fst (evs ! j)" by (rule verified_token_fixed [OF assms(5,6)])
  have "\<not> (oks ! i \<and> oks ! j)"
  proof
    assume "oks ! i \<and> oks ! j"
    then have "fst (consume_run c evs) ! i" "fst (consume_run c evs) ! j" using assms(7) by simp_all
    from nonce_once [OF c(1) assms(2-4) _ this] consume_run_window [OF c(1) assms(4) this(2)] same show False by simp
  qed
  moreover have "cache_ok c'" using consume_run_ok [OF c(1), of evs] assms(7) by simp
  moreover have "rc_capacity (snd (consume_run c evs)) = rc_capacity c" using c(1)
  proof (induction c evs rule: consume_run.induct)
    case (2 c v now evs)
    obtain res c1 where r: "cache_consume v now c = (res, c1)" by fastforce
    from "2.IH" [OF r [symmetric] refl] cache_consume_spec [OF "2.prems" r] r show ?case by (auto simp: Let_def split: prod.splits)
  qed simp
  ultimately show ?thesis using c(2) assms(7) mset_eq_length [of "rc_expirations c'"]
    by (metis cache_ok_def index_ok_def length_map snd_conv)
qed

section \<open>The rate limiter under every interleaving\<close>

definition rate_window :: "64 word \<Rightarrow> u64" where
  "rate_window s = unat s div 2 ^ 20"

definition rate_count :: "64 word \<Rightarrow> nat" where
  "rate_count s = unat s mod 2 ^ 20"

lemma rate_fields: "unat (drop_bit RATE_COUNT_BITS s) = rate_window s" "unat (s AND RATE_COUNT_MASK) = rate_count s"
proof -
  have "RATE_COUNT_MASK = mask 20" by (simp add: RATE_COUNT_MASK_def RATE_COUNT_BITS_def mask_eq_exp_minus_1)
  then have "s AND RATE_COUNT_MASK = take_bit 20 s" by (simp only: take_bit_eq_mask)
  then show "unat (s AND RATE_COUNT_MASK) = rate_count s" by (simp add: rate_count_def take_bit_eq_mod unat_mod)
  show "unat (drop_bit RATE_COUNT_BITS s) = rate_window s" by (simp add: rate_window_def RATE_COUNT_BITS_def drop_bit_eq_div unat_div)
qed

lemma unat_window: "w < 2 ^ 44 \<Longrightarrow> unat (of_nat w :: 64 word) = w"
  by (simp add: unat_of_nat take_bit_eq_mod)

lemma rate_open:
  assumes "w < 2 ^ 44"
  shows "unat (push_bit RATE_COUNT_BITS (of_nat w) OR 1 :: 64 word) = w * 2 ^ 20 + 1"
proof -
  have e: "push_bit 20 (of_nat w :: 64 word) OR 1 = push_bit 20 (of_nat w) + 1"
    by (simp add: or_one_eq)
  have "unat (push_bit 20 (of_nat w :: 64 word)) = w * 2 ^ 20"
    using assms by (simp add: push_bit_eq_mult unat_word_ariths unat_window)
  moreover have "w * 2 ^ 20 + 1 < 2 ^ 64" using assms by simp
  ultimately show ?thesis unfolding RATE_COUNT_BITS_def e by (subst unat_add_lem [THEN iffD1]) simp_all
qed

lemma rate_next_cases:
  assumes "w < 2 ^ 44" "limit < 2 ^ 20"
  shows "rate_next limit (of_nat w) s =
    (if rate_window s < w then Some (push_bit RATE_COUNT_BITS (of_nat w) OR 1)
     else if w < rate_window s \<or> limit \<le> rate_count s then None else Some (s + 1))"
  using assms by (simp add: rate_next_def word_less_nat_alt rate_fields unat_window Let_def)

lemma rate_next_fields:
  assumes "w < 2 ^ 44" "limit < 2 ^ 20" "rate_next limit (of_nat w) s = Some s'"
  shows "rate_window s' = w \<and> rate_count s' = (if rate_window s < w then 1 else rate_count s + 1) \<and> rate_window s \<le> w
     \<and> (rate_window s = w \<longrightarrow> rate_count s < limit) \<and> unat s < unat s'"
proof (cases "rate_window s < w")
  case True
  with assms have "s' = push_bit RATE_COUNT_BITS (of_nat w) OR 1" by (simp add: rate_next_cases)
  with rate_open [OF assms(1)] have u: "unat s' = w * 2 ^ 20 + 1" by simp
  have "unat s < w * 2 ^ 20" using True by (simp add: rate_window_def div_less_iff_less_mult)
  moreover have "(w * 2 ^ 20 + 1) div 2 ^ 20 = w" "(w * 2 ^ 20 + 1) mod 2 ^ 20 = (1 :: nat)"
    by (simp_all add: mod_Suc)
  ultimately show ?thesis using u True by (simp only: rate_window_def rate_count_def) simp
next
  case False
  with assms have s': "s' = s + 1" and w: "rate_window s = w" "rate_count s < limit" by (auto simp: rate_next_cases split: if_splits)
  have "unat s = w * 2 ^ 20 + rate_count s" unfolding w(1) [symmetric] rate_window_def rate_count_def by (rule div_mult_mod_eq [symmetric])
  moreover have "rate_count s + 1 < 2 ^ 20" using w(2) assms(2) by linarith
  moreover from this calculation have "unat s + 1 < 2 ^ 64" using assms(1) by simp
  then have "unat s' = unat s + 1" unfolding s' by (subst unat_add_lem [THEN iffD1]) simp_all
  moreover have "Suc (unat s) mod 2 ^ 20 = Suc (unat s mod 2 ^ 20)"
    using \<open>rate_count s + 1 < 2 ^ 20\<close> by (simp add: rate_count_def mod_Suc)
  moreover from this have "Suc (unat s) div 2 ^ 20 = unat s div 2 ^ 20" by (simp add: div_Suc)
  ultimately show ?thesis using False w by (simp add: rate_window_def rate_count_def)
qed

text \<open>The invariant of the system: \<open>h\<close> is the history of the admissions.\<close>

definition worker_ok :: "u64 \<Rightarrow> 64 word \<Rightarrow> u64 list \<Rightarrow> u64 \<times> worker_pc \<Rightarrow> bool" where
  "worker_ok limit s h t \<longleftrightarrow>
     (case snd t of
        Loading \<Rightarrow> True
      | Observed obs \<Rightarrow> unat obs \<le> unat s
      | Returned admitted \<Rightarrow> admitted \<or> (\<exists>w'\<in>set h. fst t < w') \<or> limit \<le> count_list h (fst t))"

definition rate_ok :: "u64 \<Rightarrow> 64 word \<Rightarrow> u64 list \<Rightarrow> bool" where
  "rate_ok limit s h \<longleftrightarrow> (\<forall>w\<in>set h. w \<le> rate_window s) \<and> rate_count s = count_list h (rate_window s)
     \<and> (\<forall>w. count_list h w \<le> limit) \<and> (s = 0 \<or> rate_window s \<in> set h)"

definition rate_invariant :: "u64 \<Rightarrow> u64 list \<Rightarrow> rate_system \<Rightarrow> bool" where
  "rate_invariant limit windows c \<longleftrightarrow>
     (case c of (s, h, ts) \<Rightarrow> rate_ok limit s h \<and> (\<forall>t\<in>set ts. worker_ok limit s h t) \<and> map fst ts = windows
        \<and> (\<forall>w. count_list h w = length (filter (\<lambda>t. t = (w, Returned True)) ts)))"

lemma count_list_zero: "(\<forall>x\<in>set h. x \<noteq> w) \<Longrightarrow> count_list h w = 0"
  by (induction h) auto

lemma rate_admit:
  assumes ok: "rate_ok limit s h" and w: "w < 2 ^ 44" "limit < 2 ^ 20" "1 \<le> limit" and n: "rate_next limit (of_nat w) s = Some s'"
  shows "rate_ok limit s' (w # h)"
proof -
  note f = rate_next_fields [OF w(1,2) n]
  have c0: "count_list h w = 0" if "rate_window s < w" using ok that by (intro count_list_zero) (auto simp: rate_ok_def)
  show ?thesis
  proof (cases "rate_window s < w")
    case True
    with f ok c0 w(3) show ?thesis by (auto simp: rate_ok_def)
  next
    case False
    with f ok show ?thesis by (auto simp: rate_ok_def)
  qed
qed

lemma worker_ok_mono:
  assumes "worker_ok limit s h t" "unat s \<le> unat s'" "h' = h \<or> h' = w # h"
  shows "worker_ok limit s' h' t"
  using assms by (auto simp: worker_ok_def split: worker_pc.splits if_splits)

lemma count_filter_update:
  assumes "i < length ts"
  shows "length (filter P (ts[i := t])) + (if P (ts ! i) then 1 else 0) = length (filter P ts) + (if P t then 1 else 0)"
  using assms
proof (induction ts arbitrary: i)
  case (Cons x xs)
  show ?case
  proof (cases i)
    case (Suc j)
    with Cons.IH [of j] Cons.prems show ?thesis by simp
  qed simp
qed simp

lemma invariant_update:
  assumes inv: "rate_invariant limit windows (s, h, ts)" and i: "i < length ts" "ts ! i = (w, pc)" "pc \<noteq> Returned True"
    and new: "rate_ok limit s' h'" "unat s \<le> unat s'" "worker_ok limit s' h' (w, pc')" "h' = (if pc' = Returned True then w # h else h)"
  shows "rate_invariant limit windows (s', h', ts[i := (w, pc')])"
proof -
  have "\<forall>t\<in>set (ts[i := (w, pc')]). worker_ok limit s' h' t"
  proof
    fix t assume "t \<in> set (ts[i := (w, pc')])"
    then consider "t = (w, pc')" | "t \<in> set ts" using set_update_subset_insert [of ts i "(w, pc')"] by blast
    then show "worker_ok limit s' h' t"
    proof cases
      case 2
      then have "worker_ok limit s h t" using inv by (simp add: rate_invariant_def)
      then show ?thesis by (rule worker_ok_mono) (use new in auto)
    qed (use new in simp)
  qed
  moreover have "map fst (ts[i := (w, pc')]) = windows"
  proof -
    have "(map fst ts)[i := w] = map fst ts" using list_update_id [of "map fst ts" i] i(1,2) by simp
    with inv show ?thesis by (simp add: rate_invariant_def map_update)
  qed
  moreover have "count_list h' v = length (filter (\<lambda>t. t = (v, Returned True)) (ts[i := (w, pc')]))" for v
    using inv i new(4) count_filter_update [OF i(1), of "\<lambda>t. t = (v, Returned True)" "(w, pc')"] by (auto simp: rate_invariant_def)
  ultimately show ?thesis using new(1) by (simp add: rate_invariant_def)
qed

lemma refusal_justified:
  assumes "rate_ok limit s h" "unat obs \<le> unat s" "w < 2 ^ 44" "limit < 2 ^ 20" "1 \<le> limit" "rate_next limit (of_nat w) obs = None"
  shows "(\<exists>w'\<in>set h. w < w') \<or> limit \<le> count_list h w"
proof -
  have obs: "w < rate_window obs \<or> w = rate_window obs \<and> limit \<le> rate_count obs"
    using assms(3,4,6) by (auto simp: rate_next_cases split: if_splits)
  have "rate_window obs \<le> rate_window s" unfolding rate_window_def by (rule div_le_mono [OF assms(2)])
  moreover have "limit \<le> rate_count s" if "rate_window s = rate_window obs" "limit \<le> rate_count obs"
  proof -
    have "unat obs = rate_window obs * 2 ^ 20 + rate_count obs" "unat s = rate_window s * 2 ^ 20 + rate_count s"
      unfolding rate_window_def rate_count_def by (rule div_mult_mod_eq [symmetric])+
    with that assms(2) show ?thesis by simp
  qed
  moreover have "s \<noteq> 0" using obs assms(2,5) by (auto simp: rate_window_def rate_count_def)
  then have "rate_window s \<in> set h" using assms(1) by (simp add: rate_ok_def)
  ultimately show ?thesis using obs assms(1) by (cases "w < rate_window s") (auto simp: rate_ok_def)
qed

lemma rate_step_invariant:
  assumes step: "rate_step limit c c'" and inv: "rate_invariant limit windows c"
    and w: "\<forall>w\<in>set windows. w < 2 ^ 44" "limit < 2 ^ 20" "1 \<le> limit"
  shows "rate_invariant limit windows c'"
proof -
  have wi: "v < 2 ^ 44" if "i < length ts" "ts ! i = (v, pc)" "c = (s, h, ts)" for i ts v pc s h
    using inv w(1) that nth_mem [of i ts] by (force simp: rate_invariant_def)
  have ob: "unat obs \<le> unat s" if "i < length ts" "ts ! i = (v, Observed obs)" "c = (s, h, ts)" for i ts v obs s h
    using inv that nth_mem [of i ts] by (force simp: rate_invariant_def worker_ok_def)
  have ok: "rate_ok limit s h" if "c = (s, h, ts)" for s h ts using inv that by (simp add: rate_invariant_def)
  show ?thesis using step
  proof cases
    case (rate_load i ts v s h)
    with inv ok show ?thesis by (auto intro!: invariant_update simp: worker_ok_def)
  next
    case (rate_refuse i ts v obs s h)
    with refusal_justified [OF ok ob wi w(2,3)] have "worker_ok limit s h (v, Returned False)" by (auto simp: worker_ok_def)
    with rate_refuse inv ok show ?thesis by (auto intro!: invariant_update)
  next
    case (rate_exchange i ts v obs s' s h)
    have "rate_ok limit s' (v # h)" using rate_admit [OF ok wi w(2,3)] rate_exchange by blast
    moreover have "unat s \<le> unat s'" using rate_next_fields [OF wi w(2)] rate_exchange by fastforce
    ultimately show ?thesis using rate_exchange inv by (auto intro!: invariant_update simp: worker_ok_def)
  next
    case (rate_retry i ts v obs s' s h)
    with inv ok show ?thesis by (auto intro!: invariant_update simp: worker_ok_def)
  qed
qed

lemma rate_reachable_invariant:
  assumes "rate_reachable limit windows c" and "\<forall>w\<in>set windows. w < 2 ^ 44" "limit < 2 ^ 20" "1 \<le> limit"
  shows "rate_invariant limit windows c"
  using assms(1)
proof induction
  case rate_start
  show ?case by (auto simp: rate_invariant_def rate_ok_def worker_ok_def rate_window_def rate_count_def comp_def filter_empty_conv)
next
  case (rate_more c c')
  from rate_step_invariant [OF rate_more(2) rate_more.IH assms(2-4)] show ?case .
qed

text \<open>C20. The rate limiter is exact under every interleaving.  Any number of threads run the compare-and-exchange loop, with failed and
  spurious exchanges: in no window are more requests admitted than the limit, and a request is refused only when its window has used up
  the limit or a later window has been opened.\<close>

theorem rate_limit_exact:
  assumes "rate_reachable limit windows (s, h, ts)" and "\<forall>w\<in>set windows. w < 2 ^ 44" and "rate_limit_new l = Some limit"
  shows "length (filter (\<lambda>t. t = (w, Returned True)) ts) \<le> limit
     \<and> ((w, Returned False) \<in> set ts \<longrightarrow>
          length (filter (\<lambda>t. t = (w, Returned True)) ts) = limit \<or> (\<exists>w'>w. (w', Returned True) \<in> set ts))"
proof -
  have l: "limit < 2 ^ 20" "1 \<le> limit" using assms(3) by (auto simp: rate_limit_new_def MAX_VERIFICATION_RATE_def split: if_splits)
  have inv: "rate_invariant limit windows (s, h, ts)" by (rule rate_reachable_invariant [OF assms(1,2) l])
  then have cnt: "count_list h v = length (filter (\<lambda>t. t = (v, Returned True)) ts)" "count_list h v \<le> limit" for v
    by (auto simp: rate_invariant_def rate_ok_def)
  have "\<exists>w'>w. (w', Returned True) \<in> set ts" if "v \<in> set h" "w < v" for v
  proof -
    have "count_list h v \<noteq> 0" using that(1) by (simp add: count_list_0_iff)
    then have "filter (\<lambda>t. t = (v, Returned True)) ts \<noteq> []" using cnt(1) [of v] by auto
    with that(2) show ?thesis by (auto simp: filter_empty_conv)
  qed
  moreover have "(\<exists>w'\<in>set h. w < w') \<or> limit \<le> count_list h w" if "(w, Returned False) \<in> set ts"
    using inv that by (force simp: rate_invariant_def worker_ok_def)
  ultimately show ?thesis using cnt(1) [of w] cnt(2) [of w] by fastforce
qed

section \<open>Concrete capabilities\<close>

text \<open>A text encoding with two letters for each byte.\<close>

fun letters_dec :: "string \<Rightarrow> bytes option" where
  "letters_dec [] = Some []"
| "letters_dec [_] = None"
| "letters_dec (a # b # s) = map_option ((#) (of_nat (16 * (of_char a - 97) + (of_char b - 97)))) (letters_dec s)"

definition letters_enc :: "bytes \<Rightarrow> string" where
  "letters_enc bs = concat (map (\<lambda>b. [char_of (97 + unat b div 16), char_of (97 + unat b mod 16)]) bs)"

definition letters64 :: url64 where
  "letters64 = \<lparr>url_enc = letters_enc, url_dec = letters_dec\<rparr>"

lemma letters_roundtrip: "letters_dec (letters_enc bs) = Some bs"
proof (induction bs)
  case (Cons b bs)
  have "unat b div 16 < 16" using unat_byte_lt [of b] by simp
  then have "(of_char (char_of (97 + unat b div 16) :: char) :: nat) = 97 + unat b div 16"
    "(of_char (char_of (97 + unat b mod 16) :: char) :: nat) = 97 + unat b mod 16" by simp_all
  with Cons show ?case by (simp add: letters_enc_def)
qed (simp add: letters_enc_def)

lemma letters64_ok: "url64_ok letters64"
proof -
  have "CHR ''.'' \<noteq> char_of (97 + n)" if "n < 16" for n :: nat
  proof
    assume "CHR ''.'' = char_of (97 + n)"
    then have "(of_char (CHR ''.'') :: nat) = of_char (char_of (97 + n) :: char)" by simp
    then show False using that by simp
  qed
  then have "CHR ''.'' \<notin> set (letters_enc b)" for b :: bytes
    using unat_byte_lt by (auto simp: letters_enc_def less_mult_imp_div_less)
  moreover have "length (letters_enc b) = 2 * length b" for b by (induction b) (simp_all add: letters_enc_def)
  ultimately show ?thesis by (simp add: url64_ok_def letters64_def letters_roundtrip)
qed

definition sample_issuer :: capability_issuer where
  "sample_issuer = \<lparr>ci_seed = [1], ci_max_lifetime = 60 * 1000000000\<rparr>"

definition sample_claims :: capability_claims where
  "sample_claims = \<lparr>cl_audience = ''edge-a'', cl_issued_at = 100, cl_expires_at = 120, cl_nonce = replicate 16 7\<rparr>"

definition sample_verifier :: capability_verifier where
  "sample_verifier = \<lparr>cv_public_key = issuer_public_key record_suite sample_issuer, cv_audience = ''edge-a'', cv_max_lifetime = 60 * 1000000000,
     cv_clock_skew = 5 * 1000000000\<rparr>"

definition sample_verified :: verified_capability where
  "sample_verified = \<lparr>vc_claims = sample_claims, vc_valid_from = 95, vc_replay_expires_at = 125\<rparr>"

lemma sample_issued: "\<exists>token. capability_issue record_suite letters64 sample_issuer sample_claims = Inr token"
proof -
  have "validate_shape sample_claims (cl_issued_at sample_claims) (ci_max_lifetime sample_issuer) = Inr ()"
    by (simp add: validate_shape_iff sample_claims_def sample_issuer_def as_secs_def is_ascii_def audience_char_def MAX_AUDIENCE_LEN_def)
  then show ?thesis by (simp add: capability_issue_def encode_claims_def sample_claims_def u8_max_def)
qed

lemma sample_sized: "claims_sized sample_claims"
  by (simp add: claims_sized_def sample_claims_def u64_max_def NONCE_LEN_def)

lemma sample_hyps:
  "cv_public_key sample_verifier = issuer_public_key record_suite sample_issuer" "cv_audience sample_verifier = cl_audience sample_claims"
  "as_secs (ci_max_lifetime sample_issuer) \<le> as_secs (cv_max_lifetime sample_verifier)" "5 = as_secs (cv_clock_skew sample_verifier)"
  "110 + 5 \<le> u64_max" "cl_expires_at sample_claims + 5 \<le> u64_max" "cl_issued_at sample_claims \<le> 110 + 5" "110 < cl_expires_at sample_claims + 5"
  by (simp_all add: sample_verifier_def sample_claims_def sample_issuer_def as_secs_def u64_max_def)

lemma sample_token_verifies:
  assumes "capability_issue record_suite letters64 sample_issuer sample_claims = Inr token"
  shows "verify_for_replay record_suite letters64 sample_verifier token 110 = Inr sample_verified"
  using issued_token_verifies [OF record_suite_ok record_suite_signature letters64_ok assms sample_sized sample_hyps]
  by (simp add: sample_verified_def sample_claims_def)

theorem capability_token_exact_witness:
  "\<exists>token. capability_issue record_suite letters64 sample_issuer sample_claims = Inr token
     \<and> verify_for_replay record_suite letters64 sample_verifier token 110
       = Inr \<lparr>vc_claims = sample_claims, vc_valid_from = 95, vc_replay_expires_at = 125\<rparr>"
proof -
  from sample_issued obtain token where t: "capability_issue record_suite letters64 sample_issuer sample_claims = Inr token" by blast
  from capability_token_exact [OF record_suite_ok record_suite_signature letters64_ok t sample_sized sample_hyps] t show ?thesis
    by (auto simp: sample_claims_def)
qed

theorem capability_used_once_witness:
  "\<exists>token oks c. capability_issue record_suite letters64 sample_issuer sample_claims = Inr token
     \<and> verify_for_replay record_suite letters64 sample_verifier token 110 = Inr sample_verified
     \<and> consume_run (fresh_cache 4) [(sample_verified, 110), (sample_verified, 111)] = (oks, c) \<and> oks ! 0 \<and> \<not> oks ! 1 \<and> length (rc_entries c) \<le> 4"
proof -
  from sample_issued obtain token where t: "capability_issue record_suite letters64 sample_issuer sample_claims = Inr token" by blast
  note v = sample_token_verifies [OF t]
  have n: "replay_cache_new 4 = Inr (fresh_cache 4)" by (simp add: cache_new_iff)
  obtain oks c where r: "consume_run (fresh_cache 4) [(sample_verified, 110), (sample_verified, 111)] = (oks, c)" by fastforce
  have "fst (consume_run (fresh_cache 4) [(sample_verified, 110), (sample_verified, 111)]) ! 0" by code_simp
  with capability_used_once [OF n, of "[(sample_verified, 110), (sample_verified, 111)]" 0 1 record_suite letters64 sample_verifier token 110 110 oks c] v r t
  show ?thesis by (intro exI [of _ token] exI [of _ oks] exI [of _ c]) simp
qed

theorem rate_limit_exact_witness:
  "\<exists>s h. rate_reachable 1 [0, 0] (s, h, [(0, Returned True), (0, Returned False)])
     \<and> length (filter (\<lambda>t. t = (0, Returned True)) [(0, Returned True), (0, Returned False)]) = 1"
proof -
  have n: "rate_next 1 (of_nat 0) 0 = Some 1" "rate_next 1 (of_nat 0) 1 = None" by code_simp+
  have "rate_reachable 1 [0, 0] (0, [], [(0, Loading), (0, Loading)])" using rate_start [of 1 "[0, 0]"] by simp
  from rate_more [OF this rate_load [of 0]] have "rate_reachable 1 [0, 0] (0, [], [(0, Observed 0), (0, Loading)])" by simp
  from rate_more [OF this rate_load [of 1]] have "rate_reachable 1 [0, 0] (0, [], [(0, Observed 0), (0, Observed 0)])" by simp
  from rate_more [OF this rate_exchange [of 0 _ 0 0 1 1]] n have "rate_reachable 1 [0, 0] (1, [0], [(0, Returned True), (0, Observed 0)])" by simp
  from rate_more [OF this rate_retry [of 1 _ 0 0 1 1]] n have "rate_reachable 1 [0, 0] (1, [0], [(0, Returned True), (0, Observed 1)])" by simp
  from rate_more [OF this rate_refuse [of 1 _ 0 1]] n have r: "rate_reachable 1 [0, 0] (1, [0], [(0, Returned True), (0, Returned False)])" by simp
  from rate_limit_exact [OF r, of 1 0] r show ?thesis
    by (intro exI [of _ 1] exI [of _ "[0]"]) (simp add: rate_limit_new_def MAX_VERIFICATION_RATE_def)
qed

end
