(* ===== verification/Edge_Frontdoor.thy ===== *)
theory Edge_Frontdoor
  imports Edge_Capability Net
begin

text \<open>
  The front door of the edge relay: \<open>shph-edge/src/frontdoor.rs\<close> (configuration of the front door and the decision on a request), the
  limits of \<open>shph-edge/src/config.rs\<close> and the checks on a request in \<open>shph-edge/src/carrier.rs\<close> up to the connection to the backend.
  A request is what the HTTP library hands over: path, query, method and header values, \<open>None\<close> for a value that is not visible ASCII.
  The URI parser of that library is the parameter \<open>parse_uri\<close>.  The lemmas show what a relayed request has passed, that a
  refused request changes nothing but the rate counter, and, for requests that prepare concurrently and commit
  under the lock, that the required capacity of the replay cache is enough as long as the clocks agree.
\<close>

section \<open>Limits\<close>

definition DEFAULT_RELAY_PATH :: string where "DEFAULT_RELAY_PATH = ''/phantom-one/v1''"
definition MAX_RELAY_PATH_BYTES :: usize where "MAX_RELAY_PATH_BYTES = 128"
definition DEFAULT_REPLAY_CAPACITY :: usize where "DEFAULT_REPLAY_CAPACITY = 128 * 1024"
definition DEFAULT_HTTP2_IDLE_TIMEOUT_MS :: u64 where "DEFAULT_HTTP2_IDLE_TIMEOUT_MS = 30000"
definition DEFAULT_MAX_VERIFICATIONS_PER_SECOND :: u64 where "DEFAULT_MAX_VERIFICATIONS_PER_SECOND = 256"

datatype edge_config_error =
    EdgeTooLarge | EdgeMalformed | EdgeInvalidBackend | EdgeInvalidAudience | EdgeIncompleteTls | EdgeInvalidServerName
  | EdgeInvalidRelayPath | EdgeInvalidLimits

record edge_limits =
  el_max_token_bytes :: usize
  el_max_stream_bytes :: u64
  el_max_connections :: usize
  el_replay_capacity :: usize
  el_max_verifications :: u64
  el_max_lifetime_secs :: u64
  el_clock_skew_secs :: u64
  el_connect_timeout_ms :: u64
  el_idle_timeout_ms :: u64
  el_tls_handshake_timeout_ms :: u64
  el_http2_idle_timeout_ms :: u64
  el_max_streams :: u32
  el_max_http2_connections :: usize

definition edge_limits_default :: edge_limits where
  "edge_limits_default = \<lparr>el_max_token_bytes = 4096, el_max_stream_bytes = 64 * 1024 * 1024, el_max_connections = 1024,
     el_replay_capacity = DEFAULT_REPLAY_CAPACITY, el_max_verifications = 256, el_max_lifetime_secs = 300, el_clock_skew_secs = 5,
     el_connect_timeout_ms = 5000, el_idle_timeout_ms = 30000, el_tls_handshake_timeout_ms = 5000,
     el_http2_idle_timeout_ms = DEFAULT_HTTP2_IDLE_TIMEOUT_MS, el_max_streams = 128, el_max_http2_connections = 4\<rparr>"

definition limits_validate :: "edge_limits \<Rightarrow> edge_config_error + unit" where
  "limits_validate l =
     (let replay_retention_secs = sat_add u64_max (sat_add u64_max (el_max_lifetime_secs l) (sat_mul u64_max (el_clock_skew_secs l) 2)) 1;
          minimum_replay_capacity = sat_mul u64_max (el_max_verifications l) replay_retention_secs in
      if el_max_token_bytes l \<notin> {64..4096} \<or> el_max_stream_bytes l = 0 \<or> 1024 * 1024 * 1024 < el_max_stream_bytes l
       \<or> el_max_connections l \<notin> {1..100000} \<or> el_replay_capacity l \<notin> {1..1000000} \<or> el_max_verifications l \<notin> {1..100000}
       \<or> el_max_lifetime_secs l \<notin> {1..3600} \<or> 300 < el_clock_skew_secs l \<or> el_replay_capacity l < minimum_replay_capacity
       \<or> el_connect_timeout_ms l \<notin> {100..60000} \<or> el_idle_timeout_ms l \<notin> {100..600000} \<or> el_tls_handshake_timeout_ms l \<notin> {100..60000}
       \<or> el_http2_idle_timeout_ms l \<notin> {100..600000} \<or> el_max_streams l \<notin> {1..1024} \<or> el_max_http2_connections l \<notin> {1..64}
      then Inl EdgeInvalidLimits else Inr ())"

definition path_char :: "char \<Rightarrow> bool" where
  "path_char c \<longleftrightarrow> \<not> ((of_char c :: nat) \<le> 32 \<or> (of_char c :: nat) = 127 \<or> c = CHR ''?'' \<or> c = CHR ''#'' \<or> c = CHR 0x5C)"

definition validate_relay_path :: "(string \<Rightarrow> (string \<times> string option) option) \<Rightarrow> string \<Rightarrow> edge_config_error + unit" where
  "validate_relay_path parse_uri path =
     (if path = [] \<or> MAX_RELAY_PATH_BYTES < length path \<or> \<not> is_ascii path \<or> hd path \<noteq> CHR ''/'' \<or> \<not> list_all path_char path
        then Inl EdgeInvalidRelayPath
      else (case parse_uri path of
        None \<Rightarrow> Inl EdgeInvalidRelayPath
      | Some (p, query) \<Rightarrow> if p \<noteq> path \<or> query \<noteq> None then Inl EdgeInvalidRelayPath else Inr ()))"

section \<open>The front door\<close>

definition CAPABILITY_HEADER :: string where "CAPABILITY_HEADER = ''x-phantom-one-capability''"

record edge_response =
  er_status :: u16
  er_content_type :: string
  er_body :: string

definition plain_response :: "u16 \<Rightarrow> string \<Rightarrow> edge_response" where
  "plain_response status text = \<lparr>er_status = status, er_content_type = ''text/plain; charset=utf-8'', er_body = text @ [CHR 0x0A]\<rparr>"

definition not_found :: edge_response where "not_found = plain_response 404 ''not found''"
definition method_not_allowed :: edge_response where "method_not_allowed = plain_response 405 ''method not allowed''"
definition unauthorized :: edge_response where "unauthorized = plain_response 401 ''unauthorized''"
definition service_unavailable :: edge_response where "service_unavailable = plain_response 503 ''temporarily unavailable''"
definition too_many_requests :: edge_response where "too_many_requests = plain_response 429 ''too many requests''"

datatype front_door_decision = Relay | Fallback edge_response

datatype front_door_preparation = Verified verified_capability | Prepared_Fallback front_door_decision

record front_door =
  fd_verifier :: capability_verifier
  fd_max_token_bytes :: usize
  fd_relay_path :: string
  fd_uniform_fallback :: bool
  fd_rate_limit :: u64
  fd_replay_capacity :: usize

text \<open>The mutable parts: the word of the rate limiter and the replay cache behind its lock.\<close>

record edge_state =
  es_rate :: "64 word"
  es_cache :: replay_cache

definition front_door_with_path ::
    "(string \<Rightarrow> (string \<times> string option) option) \<Rightarrow> capability_verifier \<Rightarrow> usize \<Rightarrow> string \<Rightarrow> edge_config_error + front_door \<times> edge_state" where
  "front_door_with_path parse_uri v max_token_bytes relay_path =
     (case validate_relay_path parse_uri relay_path of Inl e \<Rightarrow> Inl e | Inr _ \<Rightarrow>
      (case replay_cache_new DEFAULT_REPLAY_CAPACITY of Inl _ \<Rightarrow> Inl EdgeInvalidLimits | Inr c \<Rightarrow>
       Inr (\<lparr>fd_verifier = v, fd_max_token_bytes = max_token_bytes, fd_relay_path = relay_path, fd_uniform_fallback = False,
             fd_rate_limit = DEFAULT_MAX_VERIFICATIONS_PER_SECOND, fd_replay_capacity = DEFAULT_REPLAY_CAPACITY\<rparr>,
            \<lparr>es_rate = 0, es_cache = c\<rparr>)))"

definition with_replay_capacity :: "front_door \<times> edge_state \<Rightarrow> usize \<Rightarrow> edge_config_error + front_door \<times> edge_state" where
  "with_replay_capacity d capacity =
     (if capacity < sat_mul u64_max (fd_rate_limit (fst d)) (replay_retention_secs (fd_verifier (fst d))) then Inl EdgeInvalidLimits
      else (case replay_cache_new capacity of
        Inl _ \<Rightarrow> Inl EdgeInvalidLimits
      | Inr c \<Rightarrow> Inr ((fst d)\<lparr>fd_replay_capacity := capacity\<rparr>, (snd d)\<lparr>es_cache := c\<rparr>)))"

definition with_max_verifications_per_second :: "front_door \<times> edge_state \<Rightarrow> u64 \<Rightarrow> edge_config_error + front_door \<times> edge_state" where
  "with_max_verifications_per_second d rate =
     (if fd_replay_capacity (fst d) < sat_mul u64_max rate (replay_retention_secs (fd_verifier (fst d))) then Inl EdgeInvalidLimits
      else (case rate_limit_new rate of
        None \<Rightarrow> Inl EdgeInvalidLimits
      | Some limit \<Rightarrow> Inr ((fst d)\<lparr>fd_rate_limit := limit\<rparr>, (snd d)\<lparr>es_rate := 0\<rparr>)))"

definition with_uniform_fallback :: "front_door \<times> edge_state \<Rightarrow> bool \<Rightarrow> front_door \<times> edge_state" where
  "with_uniform_fallback d enabled = ((fst d)\<lparr>fd_uniform_fallback := enabled\<rparr>, snd d)"

record edge_request =
  rq_method :: string
  rq_path :: string
  rq_query :: "string option"
  rq_capabilities :: "string option list"
  rq_content_types :: "string option list"
  rq_content_lengths :: "string option list"

definition normalize_decision :: "front_door \<Rightarrow> front_door_decision \<Rightarrow> front_door_decision" where
  "normalize_decision fd d = (case d of Fallback _ \<Rightarrow> if fd_uniform_fallback fd then Fallback not_found else d | Relay \<Rightarrow> d)"

definition prepared_fallback :: "front_door \<Rightarrow> edge_response \<Rightarrow> front_door_preparation" where
  "prepared_fallback fd r = Prepared_Fallback (normalize_decision fd (Fallback r))"

text \<open>\<open>window\<close> is the number of whole seconds since the rate limiter was made, \<open>now\<close> the wall clock, zero before the epoch.\<close>

definition prepare :: "suite \<Rightarrow> url64 \<Rightarrow> front_door \<Rightarrow> u64 \<Rightarrow> u64 option \<Rightarrow> edge_request \<Rightarrow> 64 word \<Rightarrow> front_door_preparation \<times> 64 word" where
  "prepare S U fd window now rq rate =
     (if rq_path rq \<noteq> fd_relay_path fd \<or> rq_query rq \<noteq> None then (prepared_fallback fd not_found, rate)
      else if rq_method rq \<noteq> ''POST'' then (prepared_fallback fd method_not_allowed, rate)
      else (case rq_capabilities rq of
        [] \<Rightarrow> (prepared_fallback fd unauthorized, rate)
      | _ # _ # _ \<Rightarrow> (prepared_fallback fd unauthorized, rate)
      | [None] \<Rightarrow> (prepared_fallback fd unauthorized, rate)
      | [Some raw] \<Rightarrow>
      if fd_max_token_bytes fd < length raw then (prepared_fallback fd unauthorized, rate)
      else (case try_acquire_in_window (fd_rate_limit fd) (of_nat window) rate of
        (False, rate') \<Rightarrow> (prepared_fallback fd too_many_requests, rate')
      | (True, rate') \<Rightarrow>
          (case verify_for_replay S U (fd_verifier fd) raw (case now of None \<Rightarrow> 0 | Some t \<Rightarrow> t) of
             Inr v \<Rightarrow> (Verified v, rate')
           | Inl _ \<Rightarrow> (prepared_fallback fd unauthorized, rate')))))"

definition commit_verified :: "front_door \<Rightarrow> verified_capability \<Rightarrow> u64 option \<Rightarrow> replay_cache \<Rightarrow> front_door_decision \<times> replay_cache" where
  "commit_verified fd v now c =
     (case now of
        None \<Rightarrow> (normalize_decision fd (Fallback unauthorized), c)
      | Some t \<Rightarrow>
          (case cache_consume v t c of
             (Inr _, c') \<Rightarrow> (normalize_decision fd Relay, c')
           | (Inl _, c') \<Rightarrow> (normalize_decision fd (Fallback unauthorized), c')))"

definition decide :: "suite \<Rightarrow> url64 \<Rightarrow> front_door \<Rightarrow> u64 \<Rightarrow> u64 option \<Rightarrow> u64 option \<Rightarrow> edge_request \<Rightarrow> edge_state \<Rightarrow> front_door_decision \<times> edge_state" where
  "decide S U fd window now now' rq st =
     (case prepare S U fd window now rq (es_rate st) of
        (Verified v, rate) \<Rightarrow> (case commit_verified fd v now' (es_cache st) of (d, c) \<Rightarrow> (d, \<lparr>es_rate = rate, es_cache = c\<rparr>))
      | (Prepared_Fallback d, rate) \<Rightarrow> (d, st\<lparr>es_rate := rate\<rparr>))"

text \<open>\<open>decide_with_replay\<close>: the shutdown signal before the check and while waiting for the lock.\<close>

definition decide_with_replay ::
    "suite \<Rightarrow> url64 \<Rightarrow> front_door \<Rightarrow> bool \<Rightarrow> bool \<Rightarrow> u64 \<Rightarrow> u64 option \<Rightarrow> u64 option \<Rightarrow> edge_request \<Rightarrow> edge_state \<Rightarrow> front_door_decision \<times> edge_state" where
  "decide_with_replay S U fd shut shut' window now now' rq st =
     (if shut then (Fallback service_unavailable, st)
      else (case prepare S U fd window now rq (es_rate st) of
        (Prepared_Fallback d, rate) \<Rightarrow> (d, st\<lparr>es_rate := rate\<rparr>)
      | (Verified v, rate) \<Rightarrow>
          if shut' then (Fallback service_unavailable, st\<lparr>es_rate := rate\<rparr>)
          else (case commit_verified fd v now' (es_cache st) of (d, c) \<Rightarrow> (d, \<lparr>es_rate = rate, es_cache = c\<rparr>))))"

section \<open>The checks before the backend\<close>

definition is_octet_stream :: "edge_request \<Rightarrow> bool" where
  "is_octet_stream rq =
     (case rq_content_types rq of
        [Some value] \<Rightarrow> to_ascii_lowercase (str_trim (takeWhile (\<lambda>c. c \<noteq> CHR '';'') value)) = ''application/octet-stream''
      | _ \<Rightarrow> False)"

fun content_length_loop :: "u64 \<Rightarrow> u64 option \<Rightarrow> string option list \<Rightarrow> u16 + unit" where
  "content_length_loop max_bytes declared [] = Inr ()"
| "content_length_loop max_bytes declared (value # vals) =
     (case Option.bind value (\<lambda>s. case parse_unsigned u64_max s of Inl _ \<Rightarrow> None | Inr n \<Rightarrow> Some n) of
        None \<Rightarrow> Inl 400
      | Some parsed \<Rightarrow>
          if max_bytes < parsed then Inl 413
          else if declared \<noteq> None \<and> declared \<noteq> Some parsed then Inl 400
          else content_length_loop max_bytes (Some parsed) vals)"

definition validate_content_length :: "edge_request \<Rightarrow> u64 \<Rightarrow> u16 + unit" where
  "validate_content_length rq max_bytes = content_length_loop max_bytes None (rq_content_lengths rq)"

text \<open>The part of \<open>handle_http2_request\<close> before the backend is connected: \<open>None\<close> when the request goes on to the backend.\<close>

definition admit_http2_request ::
    "suite \<Rightarrow> url64 \<Rightarrow> front_door \<Rightarrow> u64 \<Rightarrow> bool \<Rightarrow> bool \<Rightarrow> u64 \<Rightarrow> u64 option \<Rightarrow> u64 option \<Rightarrow> edge_request \<Rightarrow> edge_state \<Rightarrow> edge_response option \<times> edge_state" where
  "admit_http2_request S U fd max_bytes shut shut' window now now' rq st =
     (if shut then (Some service_unavailable, st)
      else (case decide_with_replay S U fd shut shut' window now now' rq st of
        (Fallback r, st') \<Rightarrow> (Some r, st')
      | (Relay, st') \<Rightarrow>
          if \<not> is_octet_stream rq then (Some unauthorized, st')
          else (case validate_content_length rq max_bytes of
            Inl status \<Rightarrow> (Some (plain_response status (if status = 413 then ''payload too large'' else ''bad request'')), st')
          | Inr _ \<Rightarrow> (None, st'))))"

definition add_bounded_stream_bytes :: "u64 \<Rightarrow> usize \<Rightarrow> u64 \<Rightarrow> u64 option" where
  "add_bounded_stream_bytes so_far bytes limit =
     (case checked_add u64_max so_far bytes of None \<Rightarrow> None | Some updated \<Rightarrow> if limit < updated then None else Some updated)"

section \<open>What a relayed request has passed\<close>

lemma prepare_verified_iff:
  "prepare S U fd window now rq rate = (Verified v, rate') \<longleftrightarrow>
     rq_path rq = fd_relay_path fd \<and> rq_query rq = None \<and> rq_method rq = ''POST''
   \<and> (\<exists>token. rq_capabilities rq = [Some token] \<and> length token \<le> fd_max_token_bytes fd
        \<and> rate_next (fd_rate_limit fd) (of_nat window) rate = Some rate'
        \<and> verify_for_replay S U (fd_verifier fd) token (case now of None \<Rightarrow> 0 | Some t \<Rightarrow> t) = Inr v)"
  by (auto simp: prepare_def prepared_fallback_def try_acquire_in_window_def split: if_splits list.splits option.splits prod.splits sum.splits)

text \<open>A request that reaches the backend has been relayed by the front door, is an octet stream, and declares no length above the limit.\<close>

lemma content_length_bounded:
  "content_length_loop max_bytes declared vals = Inr () \<Longrightarrow> s \<in> set vals \<Longrightarrow>
     \<exists>str n. s = Some str \<and> parse_unsigned u64_max str = Inr n \<and> n \<le> max_bytes \<and> (\<forall>m. declared = Some m \<longrightarrow> m = n)"
proof (induction max_bytes declared vals rule: content_length_loop.induct)
  case (2 max_bytes declared x vals)
  from "2.prems"(1) obtain str n where n: "x = Some str" "parse_unsigned u64_max str = Inr n" "n \<le> max_bytes"
    "declared = None \<or> declared = Some n" "content_length_loop max_bytes (Some n) vals = Inr ()"
    by (cases x; cases "parse_unsigned u64_max (the x)") (auto split: if_splits)
  show ?case
  proof (cases "s = x")
    case True
    with n show ?thesis by auto
  next
    case False
    with "2.prems"(2) n "2.IH" [of n] obtain str2 m where "s = Some str2" "parse_unsigned u64_max str2 = Inr m" "m \<le> max_bytes" "n = m" by auto
    with n(4) show ?thesis by auto
  qed
qed simp

lemma prepare_never_relays: "prepare S U fd window now rq rate = (Prepared_Fallback d, rate') \<Longrightarrow> d \<noteq> Relay"
  by (auto simp: prepare_def prepared_fallback_def normalize_decision_def split: if_splits list.splits option.splits prod.splits sum.splits bool.splits)

lemma admitted_request_passed:
  assumes "admit_http2_request S U fd max_bytes shut shut' window now now' rq st = (None, st')"
  shows "(\<exists>v t rate c claims. prepare S U fd window now rq (es_rate st) = (Verified v, rate) \<and> now' = Some t
       \<and> cache_consume v t (es_cache st) = (Inr claims, c) \<and> st' = \<lparr>es_rate = rate, es_cache = c\<rparr>)
     \<and> is_octet_stream rq \<and> \<not> shut \<and> \<not> shut'
     \<and> (\<forall>s\<in>set (rq_content_lengths rq). \<exists>str n. s = Some str \<and> parse_unsigned u64_max str = Inr n \<and> n \<le> max_bytes)"
proof -
  have "content_length_loop max_bytes None (rq_content_lengths rq) = Inr ()"
    using assms by (auto simp: admit_http2_request_def validate_content_length_def split: if_splits prod.splits front_door_decision.splits sum.splits)
  then have "\<forall>s\<in>set (rq_content_lengths rq). \<exists>str n. s = Some str \<and> parse_unsigned u64_max str = Inr n \<and> n \<le> max_bytes"
    using content_length_bounded by blast
  moreover have "\<not> shut \<and> is_octet_stream rq \<and> decide_with_replay S U fd shut shut' window now now' rq st = (Relay, st')"
    using assms by (auto simp: admit_http2_request_def split: if_splits prod.splits front_door_decision.splits sum.splits)
  moreover from this have "\<not> shut' \<and> (\<exists>v t rate c claims. prepare S U fd window now rq (es_rate st) = (Verified v, rate) \<and> now' = Some t
       \<and> cache_consume v t (es_cache st) = (Inr claims, c) \<and> st' = \<lparr>es_rate = rate, es_cache = c\<rparr>)"
    using prepare_never_relays by (auto simp: decide_with_replay_def commit_verified_def normalize_decision_def
      split: if_splits prod.splits front_door_preparation.splits option.splits sum.splits)
  ultimately show ?thesis by blast
qed

section \<open>The capacity of the replay cache is enough\<close>

lemma cache_insert_entries:
  assumes "cache_ok c" "cache_insert n e now c = (ok, c')"
  shows "mset (rc_entries c') \<subseteq># (if ok then add_mset (n, e) (mset (rc_entries c)) else mset (rc_entries c))"
proof -
  have "mset (live now (rc_entries c)) \<subseteq># mset (rc_entries c)" by (simp add: live_def multiset_filter_subset)
  with cache_prune_live [OF assms(1), of now] assms(2) show ?thesis
    by (auto simp: cache_insert_def Let_def split: if_splits option.splits)
qed

lemma cache_consume_entries:
  assumes c: "cache_ok c" and r: "cache_consume v now c = (res, c')"
  shows "mset (rc_entries c') \<subseteq># (case res of Inl _ \<Rightarrow> mset (rc_entries c)
     | Inr _ \<Rightarrow> add_mset (cl_nonce (vc_claims v), vc_replay_expires_at v) (mset (rc_entries c)))"
  using r cache_insert_entries [OF c, of "cl_nonce (vc_claims v)" "vc_replay_expires_at v" now]
  by (auto simp: cache_consume_def split: if_splits prod.splits bool.splits)

text \<open>Requests in flight.  Each connection runs \<open>prepare\<close> on its own, outside the lock; a request that verified waits for the lock and commits under
  it, in any order and after any delay, or never, when it is cancelled or shut down.  An event is one such step with the clock readings it
  took and its outcome; a commit names the preparation it completes by its place in the history.\<close>

datatype edge_event =
    Prepared u64 "u64 option" edge_request front_door_preparation
  | Committed nat "u64 option" front_door_decision

fun ev_verified :: "edge_event \<Rightarrow> verified_capability option" where
  "ev_verified (Prepared w t rq (Verified v)) = Some v"
| "ev_verified _ = None"

definition in_flight :: "edge_event list \<Rightarrow> nat \<Rightarrow> verified_capability \<Rightarrow> bool" where
  "in_flight evs k v \<longleftrightarrow> k < length evs \<and> ev_verified (evs ! k) = Some v \<and> (\<forall>c d. Committed k c d \<notin> set evs)"

inductive edge_reachable :: "suite \<Rightarrow> url64 \<Rightarrow> front_door \<Rightarrow> edge_event list \<Rightarrow> edge_state \<Rightarrow> bool" for S U fd where
  edge_start: "edge_reachable S U fd [] \<lparr>es_rate = 0, es_cache = fresh_cache (fd_replay_capacity fd)\<rparr>"
| edge_prepare: "edge_reachable S U fd evs st \<Longrightarrow> prepare S U fd w t rq (es_rate st) = (p, rate') \<Longrightarrow>
     edge_reachable S U fd (evs @ [Prepared w t rq p]) (st\<lparr>es_rate := rate'\<rparr>)"
| edge_commit: "edge_reachable S U fd evs st \<Longrightarrow> in_flight evs k v \<Longrightarrow> commit_verified fd v c (es_cache st) = (d, cache') \<Longrightarrow>
     edge_reachable S U fd (evs @ [Committed k c d]) (st\<lparr>es_cache := cache'\<rparr>)"

fun ev_window :: "edge_event \<Rightarrow> u64" where
  "ev_window (Prepared w t rq p) = w"
| "ev_window (Committed k c d) = 0"

fun ev_clock :: "edge_event \<Rightarrow> u64" where
  "ev_clock (Prepared w t rq p) = (case t of None \<Rightarrow> 0 | Some s \<Rightarrow> s)"
| "ev_clock (Committed k c d) = 0"

fun ev_commit :: "edge_event \<Rightarrow> (nat \<times> u64) option" where
  "ev_commit (Committed k (Some c) d) = Some (k, c)"
| "ev_commit _ = None"

definition commit_log :: "edge_event list \<Rightarrow> (nat \<times> u64) list" where
  "commit_log evs = List.map_filter ev_commit evs"

text \<open>What is asked of the clocks.  The limiter reads the monotonic clock in seconds from its start, below $2^{44}$; for a request that verified, the wall clock read
  next is that reading plus the fixed wall time \<open>boot\<close> of the start, or one second more; and the wall clock read by a commit is not
  behind that of its preparation nor behind an earlier commit.  A wall clock that is set, or that runs slower or faster than the monotonic one, can violate this.\<close>

definition clocks_agree :: "u64 \<Rightarrow> edge_event list \<Rightarrow> bool" where
  "clocks_agree boot evs \<longleftrightarrow> (\<forall>e\<in>set evs. ev_window e < 2 ^ 44)
     \<and> (\<forall>e\<in>set evs. ev_verified e \<noteq> None \<longrightarrow> boot + ev_window e \<le> ev_clock e \<and> ev_clock e \<le> boot + ev_window e + 1)
     \<and> (\<forall>(k, c)\<in>set (commit_log evs). ev_clock (evs ! k) \<le> c) \<and> sorted (map snd (commit_log evs))"

definition replay_span :: "front_door \<Rightarrow> u64" where
  "replay_span fd = as_secs (cv_max_lifetime (fd_verifier fd)) + 2 * as_secs (cv_clock_skew (fd_verifier fd))"

definition entry_of :: "verified_capability \<Rightarrow> bytes \<times> u64" where
  "entry_of v = (cl_nonce (vc_claims v), vc_replay_expires_at v)"

definition verified_at :: "edge_event list \<Rightarrow> nat list" where
  "verified_at evs = filter (\<lambda>k. ev_verified (evs ! k) \<noteq> None) [0..<length evs]"

definition slot_windows :: "edge_event list \<Rightarrow> u64 list" where
  "slot_windows evs = map (\<lambda>k. ev_window (evs ! k)) (verified_at evs)"

definition commit_entries :: "edge_event list \<Rightarrow> (bytes \<times> u64) list" where
  "commit_entries evs = map (\<lambda>(k, c). entry_of (the (ev_verified (evs ! k)))) (commit_log evs)"

text \<open>Every verified request holds a slot of its window; every entry of the cache belongs to a commit of its own.\<close>

definition edge_invariant :: "front_door \<Rightarrow> edge_event list \<Rightarrow> edge_state \<Rightarrow> u64 list \<Rightarrow> bool" where
  "edge_invariant fd evs st h \<longleftrightarrow>
     rate_ok (fd_rate_limit fd) (es_rate st) h \<and> cache_ok (es_cache st) \<and> rc_capacity (es_cache st) = fd_replay_capacity fd
   \<and> mset (slot_windows evs) \<subseteq># mset h \<and> mset (rc_entries (es_cache st)) \<subseteq># mset (commit_entries evs)
   \<and> distinct (map fst (commit_log evs)) \<and> (\<forall>(k, c)\<in>set (commit_log evs). k \<in> set (verified_at evs))
   \<and> (\<forall>e\<in>set evs. \<forall>v\<in>set_option (ev_verified e). vc_valid_from v \<le> ev_clock e \<and> vc_replay_expires_at v \<le> ev_clock e + replay_span fd)"

lemma verified_expiry:
  assumes "verify_for_replay S U v token now = Inr vc"
  shows "vc_replay_expires_at vc \<le> now + (as_secs (cv_max_lifetime v) + 2 * as_secs (cv_clock_skew v))" and "vc_valid_from vc \<le> now"
  using assms by (auto simp: verify_for_replay_def check_claims_iff sat_add_def split: if_splits option.splits sum.splits prod.splits)

text \<open>A preparation takes a slot of the window, or leaves the counter as it is.\<close>

lemma prepare_cases:
  assumes "prepare S U fd window now rq rate = (p, rate')"
  shows "(\<exists>d. p = Prepared_Fallback d) \<and> rate' = rate
     \<or> rate_next (fd_rate_limit fd) (of_nat window) rate = Some rate'
       \<and> (\<forall>v. p = Verified v \<longrightarrow> (\<exists>token. rq_capabilities rq = [Some token]
            \<and> verify_for_replay S U (fd_verifier fd) token (case now of None \<Rightarrow> 0 | Some t \<Rightarrow> t) = Inr v))"
  using assms
  by (auto simp: prepare_def prepared_fallback_def try_acquire_in_window_def split: if_splits list.splits option.splits prod.splits sum.splits)

lemma length_filter_map_filter:
  "\<forall>x\<in>set xs. \<forall>y. f x = Some y \<and> Q y \<longrightarrow> P x \<Longrightarrow> length (filter Q (List.map_filter f xs)) \<le> length (filter P xs)"
  by (induction xs) (auto simp: map_filter_simps split: option.splits)

lemma count_windows:
  assumes "\<forall>w. count_list h w \<le> limit"
  shows "length (filter (\<lambda>w. lo \<le> w \<and> w \<le> hi) h) \<le> (hi + 1 - lo) * limit"
proof -
  let ?h = "filter (\<lambda>w. lo \<le> w \<and> w \<le> hi) h"
  have "length ?h = sum (count_list ?h) {lo..hi}" by (rule sum_count_set [symmetric]) auto
  also have "\<dots> \<le> sum (\<lambda>_. limit) {lo..hi}"
  proof (rule sum_mono)
    fix w
    have "count_list ?h w \<le> count_list h w" by (induction h) auto
    then show "count_list ?h w \<le> limit" using assms le_trans by blast
  qed
  finally show ?thesis by simp
qed

lemma commit_log_snoc: "commit_log (evs @ [e]) = commit_log evs @ (case ev_commit e of None \<Rightarrow> [] | Some x \<Rightarrow> [x])"
  by (simp add: commit_log_def map_filter_def split: option.splits)

lemma verified_at_snoc: "verified_at (evs @ [e]) = verified_at evs @ (if ev_verified e \<noteq> None then [length evs] else [])"
  by (auto simp: verified_at_def nth_append intro!: filter_cong)

lemma verified_at_iff: "k \<in> set (verified_at evs) \<longleftrightarrow> k < length evs \<and> ev_verified (evs ! k) \<noteq> None"
  by (auto simp: verified_at_def)

lemma slot_windows_snoc: "slot_windows (evs @ [e]) = slot_windows evs @ (if ev_verified e \<noteq> None then [ev_window e] else [])"
  by (auto simp: slot_windows_def verified_at_snoc verified_at_iff nth_append)

lemma commit_entries_snoc:
  assumes "\<forall>(k, c)\<in>set (commit_log evs). k \<in> set (verified_at evs)"
  shows "commit_entries (evs @ [e]) = commit_entries evs
    @ (case ev_commit e of None \<Rightarrow> [] | Some (k, c) \<Rightarrow> [entry_of (the (ev_verified ((evs @ [e]) ! k)))])"
  using assms by (fastforce simp: commit_entries_def commit_log_snoc verified_at_iff nth_append split: option.splits)

lemma in_flight_uncommitted: "in_flight evs k v \<Longrightarrow> k \<notin> fst ` set (commit_log evs)"
proof
  assume f: "in_flight evs k v" and "k \<in> fst ` set (commit_log evs)"
  then obtain e c where "e \<in> set evs" "ev_commit e = Some (k, c)" by (fastforce simp: commit_log_def map_filter_def)
  then show False using f by (cases e rule: ev_commit.cases) (auto simp: in_flight_def)
qed

text \<open>The entries that are still live when a request commits, and that request itself, verified in at most \<open>replay_span fd + 1\<close> windows.\<close>

lemma live_bound:
  assumes inv: "edge_invariant fd evs st h" and clk: "clocks_agree boot (evs @ [Committed k (Some now) d])"
    and f: "in_flight evs k v" and now: "now < vc_replay_expires_at v"
  shows "length (live now (rc_entries (es_cache st))) < (replay_span fd + 1) * fd_rate_limit fd"
proof -
  let ?L = "replay_span fd" and ?v = "\<lambda>k. the (ev_verified (evs ! k))"
  let ?in = "\<lambda>w. now - (?L + boot) \<le> w \<and> w \<le> now - boot"
  let ?near = "\<lambda>k. ?in (ev_window (evs ! k))"
  let ?ks = "filter (\<lambda>k. now < vc_replay_expires_at (?v k)) (map fst (commit_log evs))"
  have kv: "k < length evs" "ev_verified (evs ! k) = Some v" and new: "k \<notin> fst ` set (commit_log evs)"
    using f in_flight_uncommitted by (auto simp: in_flight_def)
  have upto: "ev_clock (evs ! i) \<le> now" if "i = k \<or> i \<in> fst ` set (commit_log evs)" "i < length evs" for i
    using that(1)
  proof
    assume "i = k"
    then show ?thesis using clk kv(1) by (auto simp: clocks_agree_def commit_log_snoc nth_append)
  next
    assume "i \<in> fst ` set (commit_log evs)"
    then obtain c where c: "(i, c) \<in> set (commit_log evs)" by auto
    then have "ev_clock (evs ! i) \<le> c" "c \<le> now" using clk that(2)
      by (auto simp: clocks_agree_def commit_log_snoc nth_append sorted_append split: prod.splits)
    then show ?thesis by simp
  qed
  have near: "?near i" if i: "i = k \<or> i \<in> fst ` set (commit_log evs)" "now < vc_replay_expires_at (?v i)" "i \<in> set (verified_at evs)" for i
  proof -
    have l: "i < length evs" "ev_verified (evs ! i) \<noteq> None" "evs ! i \<in> set evs" using i(3) by (auto simp: verified_at_iff)
    have "vc_replay_expires_at (?v i) \<le> ev_clock (evs ! i) + ?L" using inv l by (auto simp: edge_invariant_def)
    moreover have "boot + ev_window (evs ! i) \<le> ev_clock (evs ! i)" "ev_clock (evs ! i) \<le> boot + ev_window (evs ! i) + 1"
      using clk l by (auto simp: clocks_agree_def)
    ultimately show ?thesis using upto [OF i(1) l(1)] i(2) by linarith
  qed
  have ver: "i \<in> set (verified_at evs)" if "i \<in> fst ` set (commit_log evs)" for i using inv that by (fastforce simp: edge_invariant_def)
  have "length (live now (rc_entries (es_cache st))) = size (filter_mset (\<lambda>p. now < snd p) (mset (rc_entries (es_cache st))))"
    by (simp add: live_def flip: mset_filter)
  also have "\<dots> \<le> size (filter_mset (\<lambda>p. now < snd p) (mset (commit_entries evs)))"
    using inv by (intro size_mset_mono multiset_filter_mono) (simp add: edge_invariant_def)
  also have "\<dots> = length (filter (\<lambda>p. now < snd p) (commit_entries evs))" by (simp flip: mset_filter)
  also have "\<dots> = length ?ks" by (simp add: commit_entries_def filter_map comp_def case_prod_unfold entry_of_def)
  also have "\<dots> = card (set ?ks)" using inv by (intro distinct_card [symmetric] distinct_filter) (simp add: edge_invariant_def)
  also have "\<dots> < card (insert k (set ?ks))" using new by (subst card_insert_disjoint) auto
  also have "\<dots> \<le> card (set (filter ?near (verified_at evs)))"
  proof (intro card_mono subsetI)
    fix i assume "i \<in> insert k (set ?ks)"
    then have "i = k \<or> i \<in> fst ` set (commit_log evs)" "now < vc_replay_expires_at (?v i)" using kv now by auto
    moreover have "i \<in> set (verified_at evs)" using calculation(1) ver kv by (auto simp: verified_at_iff)
    ultimately show "i \<in> set (filter ?near (verified_at evs))" using near by simp
  qed simp
  also have "\<dots> \<le> length (filter ?near (verified_at evs))" by (rule card_length)
  also have "\<dots> = length (filter ?in (slot_windows evs))" by (simp add: slot_windows_def filter_map comp_def)
  also have "\<dots> = size (filter_mset ?in (mset (slot_windows evs)))" by (simp flip: mset_filter)
  also have "\<dots> \<le> size (filter_mset ?in (mset h))" using inv by (intro size_mset_mono multiset_filter_mono) (simp add: edge_invariant_def)
  also have "\<dots> = length (filter ?in h)" by (simp flip: mset_filter)
  also have "\<dots> \<le> (now - boot + 1 - (now - (?L + boot))) * fd_rate_limit fd"
    by (rule count_windows) (use inv in \<open>simp add: edge_invariant_def rate_ok_def\<close>)
  also have "\<dots> \<le> (?L + 1) * fd_rate_limit fd" by (intro mult_le_mono1) linarith
  finally show ?thesis .
qed

lemma prepare_invariant:
  assumes inv: "edge_invariant fd evs st h" and w: "w < 2 ^ 44" and l: "fd_rate_limit fd < 2 ^ 20" "1 \<le> fd_rate_limit fd"
    and p: "prepare S U fd w t rq (es_rate st) = (p, rate')"
  shows "\<exists>h'. edge_invariant fd (evs @ [Prepared w t rq p]) (st\<lparr>es_rate := rate'\<rparr>) h'"
proof -
  let ?e = "Prepared w t rq p"
  have in_log: "\<forall>(k, c)\<in>set (commit_log evs). k \<in> set (verified_at evs)" and sub: "mset (slot_windows evs) \<subseteq># mset h"
    using inv by (simp_all add: edge_invariant_def)
  have keep: "edge_invariant fd (evs @ [?e]) (st\<lparr>es_rate := rate'\<rparr>) h'"
    if "rate_ok (fd_rate_limit fd) rate' h'" "mset (slot_windows (evs @ [?e])) \<subseteq># mset h'"
      "\<forall>v\<in>set_option (ev_verified ?e). vc_valid_from v \<le> ev_clock ?e \<and> vc_replay_expires_at v \<le> ev_clock ?e + replay_span fd" for h'
  proof -
    have "\<forall>(k, c)\<in>set (commit_log evs). k \<in> set (verified_at (evs @ [?e]))" using in_log by (auto simp: verified_at_snoc)
    then show ?thesis using inv that commit_entries_snoc [OF in_log, of ?e] by (simp add: edge_invariant_def commit_log_snoc)
  qed
  consider (free) d where "p = Prepared_Fallback d" "rate' = es_rate st"
    | (took) "rate_next (fd_rate_limit fd) (of_nat w) (es_rate st) = Some rate'" using prepare_cases [OF p] by blast
  then show ?thesis
  proof cases
    case free
    then have "edge_invariant fd (evs @ [?e]) (st\<lparr>es_rate := rate'\<rparr>) h"
      using inv by (intro keep) (simp_all add: edge_invariant_def slot_windows_snoc)
    then show ?thesis by blast
  next
    case took
    have "rate_ok (fd_rate_limit fd) rate' (w # h)" using inv w l took by (intro rate_admit) (auto simp: edge_invariant_def)
    moreover have "mset (slot_windows (evs @ [?e])) \<subseteq># mset (w # h)"
      using sub by (auto simp: slot_windows_snoc intro: subset_mset.order_trans)
    moreover have "\<forall>v\<in>set_option (ev_verified ?e). vc_valid_from v \<le> ev_clock ?e \<and> vc_replay_expires_at v \<le> ev_clock ?e + replay_span fd"
    proof
      fix v assume "v \<in> set_option (ev_verified ?e)"
      then have "p = Verified v" by (cases p) auto
      then obtain token where "verify_for_replay S U (fd_verifier fd) token (ev_clock ?e) = Inr v" using prepare_cases [OF p] by auto
      from verified_expiry [OF this] show "vc_valid_from v \<le> ev_clock ?e \<and> vc_replay_expires_at v \<le> ev_clock ?e + replay_span fd"
        by (simp add: replay_span_def)
    qed
    ultimately have "edge_invariant fd (evs @ [?e]) (st\<lparr>es_rate := rate'\<rparr>) (w # h)" by (rule keep)
    then show ?thesis by blast
  qed
qed

lemma commit_invariant:
  assumes inv: "edge_invariant fd evs st h" and f: "in_flight evs k v" and c: "commit_verified fd v t (es_cache st) = (d, cache')"
  shows "edge_invariant fd (evs @ [Committed k t d]) (st\<lparr>es_cache := cache'\<rparr>) h"
proof -
  let ?e = "Committed k t d"
  have kv: "k < length evs" "ev_verified (evs ! k) = Some v" "k \<notin> fst ` set (commit_log evs)" "k \<in> set (verified_at evs)"
    using f in_flight_uncommitted by (auto simp: in_flight_def verified_at_iff)
  have ok: "cache_ok (es_cache st)" and sub: "mset (rc_entries (es_cache st)) \<subseteq># mset (commit_entries evs)"
    and in_log: "\<forall>(k, c)\<in>set (commit_log evs). k \<in> set (verified_at evs)"
    using inv by (simp_all add: edge_invariant_def)
  note snoc = slot_windows_snoc commit_entries_snoc [OF in_log] verified_at_snoc commit_log_snoc
  show ?thesis
  proof (cases t)
    case None
    then have "cache' = es_cache st" using c by (simp add: commit_verified_def)
    then show ?thesis using inv None by (simp add: edge_invariant_def snoc)
  next
    case (Some now)
    obtain res where r: "cache_consume v now (es_cache st) = (res, cache')" using c Some by (auto simp: commit_verified_def split: prod.splits sum.splits)
    have "mset (rc_entries cache') \<subseteq># add_mset (entry_of v) (mset (commit_entries evs))"
      using cache_consume_entries [OF ok r] sub
      by (auto simp: entry_of_def split: sum.splits intro: subset_mset.order_trans)
    then show ?thesis using inv kv cache_consume_spec [OF ok r] Some
      by (simp add: edge_invariant_def snoc nth_append)
  qed
qed

lemma edge_reachable_invariant:
  assumes "edge_reachable S U fd evs st" and "\<forall>e\<in>set evs. ev_window e < 2 ^ 44" and l: "fd_rate_limit fd < 2 ^ 20" "1 \<le> fd_rate_limit fd"
  shows "\<exists>h. edge_invariant fd evs st h"
  using assms(1,2)
proof induction
  case edge_start
  have "edge_invariant fd [] \<lparr>es_rate = 0, es_cache = fresh_cache (fd_replay_capacity fd)\<rparr> []"
    by (simp add: edge_invariant_def rate_ok_def rate_window_def rate_count_def verified_at_def commit_log_def slot_windows_def commit_entries_def map_filter_simps)
      (simp add: fresh_cache_def)
  then show ?case by blast
next
  case (edge_prepare evs st w t rq p rate')
  then obtain h where "edge_invariant fd evs st h" by auto
  then show ?case using prepare_invariant [OF _ _ l] edge_prepare by fastforce
next
  case (edge_commit evs st k v c d cache')
  then obtain h where "edge_invariant fd evs st h" by auto
  then show ?case using commit_invariant edge_commit by blast
qed

text \<open>What the builders of the front door establish.\<close>

definition front_door_sized :: "front_door \<Rightarrow> bool" where
  "front_door_sized fd \<longleftrightarrow> 1 \<le> fd_rate_limit fd \<and> fd_rate_limit fd \<le> MAX_VERIFICATION_RATE \<and> fd_replay_capacity fd \<le> 1000000
     \<and> sat_mul u64_max (fd_rate_limit fd) (replay_retention_secs (fd_verifier fd)) \<le> fd_replay_capacity fd"

lemma with_replay_capacity_sized:
  assumes "with_replay_capacity d capacity = Inr d'" "1 \<le> fd_rate_limit (fst d)" "fd_rate_limit (fst d) \<le> MAX_VERIFICATION_RATE"
  shows "front_door_sized (fst d') \<and> es_cache (snd d') = fresh_cache (fd_replay_capacity (fst d'))"
  using assms by (auto simp: with_replay_capacity_def front_door_sized_def cache_new_iff replay_cache_new_def fresh_cache_def split: if_splits sum.splits)

lemma sized_capacity:
  assumes "front_door_sized fd"
  shows "(replay_span fd + 1) * fd_rate_limit fd \<le> fd_replay_capacity fd"
proof -
  have lt: "sat_mul u64_max (fd_rate_limit fd) (replay_retention_secs (fd_verifier fd)) \<le> 1000000" "1 \<le> fd_rate_limit fd"
    using assms by (simp_all add: front_door_sized_def)
  then have prod: "sat_mul u64_max (fd_rate_limit fd) (replay_retention_secs (fd_verifier fd)) = fd_rate_limit fd * replay_retention_secs (fd_verifier fd)"
    "fd_rate_limit fd * replay_retention_secs (fd_verifier fd) \<le> 1000000"
    by (auto simp: sat_mul_def min_def u64_max_def split: if_splits)
  have "replay_retention_secs (fd_verifier fd) \<le> fd_rate_limit fd * replay_retention_secs (fd_verifier fd)" using lt(2) by simp
  with prod(2) have "replay_retention_secs (fd_verifier fd) \<le> 1000000" by linarith
  then have "replay_retention_secs (fd_verifier fd) = replay_span fd + 1"
    by (auto simp: replay_retention_secs_def sat_add_def sat_mul_def replay_span_def u64_max_def min_def split: if_splits)
  with assms prod(1) show ?thesis by (simp add: front_door_sized_def mult.commute)
qed

text \<open>C22. The capacity that the front door demands of its replay cache is enough, under a condition on the clocks.  Any number of requests prepare concurrently and
  commit in any order.  Assume that the wall clock keeps a fixed distance, up to one second, from the monotonic clock of the rate limiter at the
  preparations that verified, and that commits never read a wall clock behind their preparation or an earlier commit.  Then a request that
  verified and commits before its capability expires is relayed precisely when its nonce is not in the cache or no longer live there: the cache
  never refuses a fresh capability for lack of room.\<close>

theorem replay_capacity_suffices:
  assumes "edge_reachable S U fd evs st" and "front_door_sized fd" and "in_flight evs k v"
    and "commit_verified fd v (Some now) (es_cache st) = (d, cache')" and "now < vc_replay_expires_at v"
    and "clocks_agree boot (evs @ [Committed k (Some now) d])"
  shows "d = Relay \<longleftrightarrow> (\<forall>e. map_of (rc_entries (es_cache st)) (cl_nonce (vc_claims v)) = Some e \<longrightarrow> e \<le> now)"
proof -
  have l: "fd_rate_limit fd < 2 ^ 20" "1 \<le> fd_rate_limit fd" using assms(2) by (auto simp: front_door_sized_def MAX_VERIFICATION_RATE_def)
  have "\<forall>e\<in>set evs. ev_window e < 2 ^ 44" using assms(6) by (simp add: clocks_agree_def)
  from edge_reachable_invariant [OF assms(1) this l] obtain h where inv: "edge_invariant fd evs st h" by blast
  have room: "length (live now (rc_entries (es_cache st))) < rc_capacity (es_cache st)"
    using live_bound [OF inv assms(6,3,5)] sized_capacity [OF assms(2)] inv by (simp add: edge_invariant_def)
  have kv: "k < length evs" "ev_verified (evs ! k) = Some v" using assms(3) by (auto simp: in_flight_def)
  then have "vc_valid_from v \<le> ev_clock (evs ! k)" using inv nth_mem [OF kv(1)] by (fastforce simp: edge_invariant_def)
  also have "\<dots> \<le> now" using assms(6) kv(1) by (auto simp: clocks_agree_def commit_log_snoc nth_append)
  finally have vf: "vc_valid_from v \<le> now" .
  have c: "cache_ok (es_cache st)" using inv by (simp add: edge_invariant_def)
  then have "distinct (map fst (rc_entries (es_cache st)))" by (simp add: cache_ok_def index_ok_def)
  note key = live_key [OF this, of "cl_nonce (vc_claims v)" now]
  obtain res where r: "cache_consume v now (es_cache st) = (res, cache')" using assms(4) by (auto simp: commit_verified_def split: prod.splits sum.splits)
  have "d = Relay \<longleftrightarrow> (\<exists>x. res = Inr x)"
    using assms(4) r by (auto simp: commit_verified_def normalize_decision_def split: sum.splits if_splits)
  also have "\<dots> \<longleftrightarrow> commits v now (es_cache st)" using cache_consume_spec [OF c r] by (auto split: if_splits)
  also have "\<dots> \<longleftrightarrow> (\<forall>e. map_of (rc_entries (es_cache st)) (cl_nonce (vc_claims v)) = Some e \<longrightarrow> e \<le> now)"
    using room assms(5) vf key by (auto simp: commits_def not_less)
  finally show ?thesis .
qed

section \<open>A concrete front door\<close>

definition sample_door :: front_door where
  "sample_door = \<lparr>fd_verifier = sample_verifier, fd_max_token_bytes = 4096, fd_relay_path = DEFAULT_RELAY_PATH, fd_uniform_fallback = True,
     fd_rate_limit = 2, fd_replay_capacity = 142\<rparr>"

definition sample_request :: "string \<Rightarrow> edge_request" where
  "sample_request token = \<lparr>rq_method = ''POST'', rq_path = DEFAULT_RELAY_PATH, rq_query = None, rq_capabilities = [Some token], rq_content_types = [],
       rq_content_lengths = []\<rparr>"

lemma sample_door_sized: "front_door_sized sample_door"
  by (simp add: front_door_sized_def sample_door_def sample_verifier_def MAX_VERIFICATION_RATE_def replay_retention_secs_def as_secs_def
    sat_add_def sat_mul_def u64_max_def)

text \<open>One token presented twice at once: both requests verify before either commits; the second to prepare commits first and is relayed, the other is not.\<close>

theorem replay_capacity_suffices_witness:
  "\<exists>token c1 c2 d. let rq = sample_request token; evs = [Prepared 0 (Some 110) rq (Verified sample_verified), Prepared 0 (Some 110) rq (Verified sample_verified)] in
     edge_reachable record_suite letters64 sample_door evs \<lparr>es_rate = 2, es_cache = fresh_cache 142\<rparr>
   \<and> commit_verified sample_door sample_verified (Some 111) (fresh_cache 142) = (Relay, c1)
   \<and> commit_verified sample_door sample_verified (Some 112) c1 = (d, c2) \<and> d \<noteq> Relay"
proof -
  from sample_issued obtain token where t: "capability_issue record_suite letters64 sample_issuer sample_claims = Inr token" by blast
  note v = sample_token_verifies [OF t]
  have len: "length token \<le> 4096" using v by (simp add: verify_for_replay_def MAX_TOKEN_LEN_def split: if_splits)
  have rate: "rate_next 2 (of_nat 0) 0 = Some 1" "rate_next 2 (of_nat 0) 1 = Some 2" by code_simp+
  let ?rq = "sample_request token" and ?c0 = "fresh_cache 142"
  let ?e = "Prepared 0 (Some 110) ?rq (Verified sample_verified)"
  have p: "prepare record_suite letters64 sample_door 0 (Some 110) ?rq r = (Verified sample_verified, r')" if "rate_next 2 (of_nat 0) r = Some r'" for r r'
    using v len that unfolding prepare_verified_iff by (simp add: sample_door_def sample_request_def)
  have "edge_reachable record_suite letters64 sample_door [] \<lparr>es_rate = 0, es_cache = ?c0\<rparr>"
    using edge_start [of record_suite letters64 sample_door] by (simp add: sample_door_def)
  from edge_prepare [OF this, of 0 "Some 110" ?rq] p [OF rate(1)] have "edge_reachable record_suite letters64 sample_door [?e] \<lparr>es_rate = 1, es_cache = ?c0\<rparr>" by fastforce
  from edge_prepare [OF this, of 0 "Some 110" ?rq] p [OF rate(2)] have r2: "edge_reachable record_suite letters64 sample_door [?e, ?e] \<lparr>es_rate = 2, es_cache = ?c0\<rparr>" by fastforce
  obtain d1 c1 where m1: "commit_verified sample_door sample_verified (Some 111) ?c0 = (d1, c1)" by fastforce
  obtain d2 c2 where m2: "commit_verified sample_door sample_verified (Some 112) c1 = (d2, c2)" by fastforce
  have f1: "in_flight [?e, ?e] 1 sample_verified" by (simp add: in_flight_def)
  have f2: "in_flight [?e, ?e, Committed 1 (Some 111) d1] 0 sample_verified" by (simp add: in_flight_def)
  have k1: "clocks_agree 110 ([?e, ?e] @ [Committed 1 (Some 111) d1])" and k2: "clocks_agree 110 ([?e, ?e, Committed 1 (Some 111) d1] @ [Committed 0 (Some 112) d2])"
    by (simp_all add: clocks_agree_def commit_log_def map_filter_simps)
  have live: "112 < vc_replay_expires_at sample_verified" "111 < vc_replay_expires_at sample_verified" by (simp_all add: sample_verified_def)
  have "d1 = Relay"
    using replay_capacity_suffices [OF r2 sample_door_sized f1 _ live(2) k1] m1 by (simp add: fresh_cache_def)
  moreover have "edge_reachable record_suite letters64 sample_door [?e, ?e, Committed 1 (Some 111) d1] \<lparr>es_rate = 2, es_cache = c1\<rparr>"
    using edge_commit [OF r2 f1, of "Some 111" d1 c1] m1 by simp
  from replay_capacity_suffices [OF this sample_door_sized f2 _ live(1) k2] m2
  have "d2 = Relay \<longleftrightarrow> (\<forall>e. map_of (rc_entries c1) (cl_nonce (vc_claims sample_verified)) = Some e \<longrightarrow> e \<le> 112)" by simp
  moreover have "map_of (rc_entries c1) (cl_nonce (vc_claims sample_verified)) = Some 125"
    using m1 by (auto simp: commit_verified_def cache_consume_def cache_insert_def cache_prune_def fresh_cache_def sample_verified_def sample_door_def Let_def)
  ultimately have "d1 = Relay" "d2 \<noteq> Relay" by simp_all
  with r2 m1 m2 show ?thesis by (intro exI [of _ token] exI [of _ c1] exI [of _ c2] exI [of _ d2]) (simp add: Let_def)
qed

end
