(* ===== verification/Edge_Relay.thy ===== *)
theory Edge_Relay
  imports Edge_Frontdoor Ip_Text "HOL-Library.Sublist"
begin

text \<open>
  The byte paths of the edge: forwarding between the two sides of a relayed stream (\<open>shph-edge/src/relay.rs\<close>), and from
  \<open>shph-edge/src/carrier.rs\<close> the SOCKS5 server handshake, the bundle of capability tokens, the edge URI check and the
  choice of HTTP/3 addresses; with the SOCKS5 client of \<open>shph-transport/src/lib.rs\<close>, the program's other end of that handshake.
  A stream is the bytes that arrive before it ends, fails or times out.  The header check of the HTTP library is a
  parameter.
\<close>

section \<open>Forwarding\<close>

definition COPY_BUFFER_BYTES :: usize where "COPY_BUFFER_BYTES = 16 * 1024"

datatype relay_error = BackendTimeout | Backend string | IdleTimeout | Cancelled | LimitExceeded | RelayIo string | InvalidTimeout

text \<open>How a read and the write or shutdown that follows it end: with the bytes of the read, by cancellation, after the idle timeout,
  or with an error.\<close>

datatype 'a io_outcome = Done 'a | Was_Cancelled | Timed_Out | Io_Failed string

fun io_result :: "'a io_outcome \<Rightarrow> relay_error + 'a" where
  "io_result (Done x) = Inr x"
| "io_result Was_Cancelled = Inl Cancelled"
| "io_result Timed_Out = Inl IdleTimeout"
| "io_result (Io_Failed e) = Inl (RelayIo e)"

text \<open>The loop of \<open>forward_with_cancel\<close>: the result and the bytes of the completed writes, \<open>None\<close> while the next read is pending.\<close>

fun forward_loop :: "u64 \<Rightarrow> u64 \<Rightarrow> (bytes io_outcome \<times> unit io_outcome) list \<Rightarrow> ((relay_error + u64) \<times> bytes) option" where
  "forward_loop max_bytes so_far [] = None"
| "forward_loop max_bytes so_far ((r, w) # evs) =
     (case io_result r of
        Inl e \<Rightarrow> Some (Inl e, [])
      | Inr data \<Rightarrow>
          if data = [] then (case io_result w of Inl e \<Rightarrow> Some (Inl e, []) | Inr _ \<Rightarrow> Some (Inr so_far, []))
          else (case checked_add u64_max so_far (length data) of
            None \<Rightarrow> Some (Inl LimitExceeded, [])
          | Some updated \<Rightarrow>
              if max_bytes < updated then Some (Inl LimitExceeded, [])
              else (case io_result w of
                Inl e \<Rightarrow> Some (Inl e, [])
              | Inr _ \<Rightarrow> map_option (\<lambda>(res, out). (res, data @ out)) (forward_loop max_bytes updated evs))))"

definition forward_with_cancel :: "u64 \<Rightarrow> duration \<Rightarrow> (bytes io_outcome \<times> unit io_outcome) list \<Rightarrow> ((relay_error + u64) \<times> bytes) option" where
  "forward_with_cancel max_bytes idle_timeout evs =
     (if idle_timeout = 0 then Some (Inl InvalidTimeout, []) else forward_loop max_bytes 0 evs)"

text \<open>\<open>second\<close> is how the other direction ends: by itself after a success, after its cancellation otherwise.\<close>

definition finish_first_direction :: "relay_error + u64 \<Rightarrow> relay_error + u64 \<Rightarrow> bool \<Rightarrow> relay_error + u64 \<times> u64" where
  "finish_first_direction first_res second_res first_is_left_to_right =
     (case first_res of
        Inl e \<Rightarrow> Inl e
      | Inr a \<Rightarrow> (case second_res of Inl e \<Rightarrow> Inl e | Inr b \<Rightarrow> Inr (if first_is_left_to_right then (a, b) else (b, a))))"

definition pipe_opaque_with_cancel :: "duration \<Rightarrow> bool \<Rightarrow> relay_error + u64 \<Rightarrow> relay_error + u64 \<Rightarrow> relay_error + u64 \<times> u64" where
  "pipe_opaque_with_cancel idle_timeout left_first left_to_right right_to_left =
     (if idle_timeout = 0 then Inl InvalidTimeout
      else if left_first then finish_first_direction left_to_right right_to_left True
      else finish_first_direction right_to_left left_to_right False)"

fun chunks_read :: "(bytes io_outcome \<times> unit io_outcome) list \<Rightarrow> bytes" where
  "chunks_read [] = []"
| "chunks_read ((Done d, w) # evs) = (if d = [] then [] else d @ chunks_read evs)"
| "chunks_read _ = []"

text \<open>Whatever happens, what was written is a prefix of what was read and within the limit; a success has written all of it.\<close>

lemma forward_loop_step:
  "forward_loop mx so_far ((Done d, w) # evs) =
     (if d = [] then (case io_result w of Inl e \<Rightarrow> Some (Inl e, []) | Inr _ \<Rightarrow> Some (Inr so_far, []))
      else if so_far + length d \<le> u64_max \<and> so_far + length d \<le> mx
        then (case io_result w of Inl e \<Rightarrow> Some (Inl e, [])
              | Inr _ \<Rightarrow> map_option (\<lambda>(res, out). (res, d @ out)) (forward_loop mx (so_far + length d) evs))
        else Some (Inl LimitExceeded, []))"
  by (simp add: checked_add_def)

lemma forward_loop_prefix:
  "forward_loop mx so_far evs = Some (res, out) \<Longrightarrow> so_far \<le> mx \<Longrightarrow>
     prefix out (chunks_read evs) \<and> so_far + length out \<le> mx \<and> (\<forall>n. res = Inr n \<longrightarrow> out = chunks_read evs \<and> n = so_far + length out)"
proof (induction evs arbitrary: so_far out)
  case (Cons ev evs)
  obtain r w where ev: "ev = (r, w)" by force
  show ?case
  proof (cases r)
    case (Done d)
    note step = Cons.prems(1) [unfolded ev Done forward_loop_step]
    show ?thesis
    proof (cases "d \<noteq> [] \<and> so_far + length d \<le> u64_max \<and> so_far + length d \<le> mx \<and> w = io_outcome.Done ()")
      case True
      with step obtain o' where o: "forward_loop mx (so_far + length d) evs = Some (res, o')" "out = d @ o'" by auto
      from Cons.IH [OF o(1)] True show ?thesis by (auto simp: ev Done o(2) add.assoc)
    next
      case False
      with step Cons.prems(2) show ?thesis by (cases w) (auto simp: ev Done split: if_splits)
    qed
  qed (use Cons.prems ev in auto)
qed simp

lemma forward_loop_complete:
  "\<forall>d\<in>set ds. d \<noteq> [] \<Longrightarrow> so_far + length (concat ds) \<le> u64_max \<Longrightarrow>
     \<exists>out. forward_loop mx so_far (map (\<lambda>d. (Done d, Done ())) ds @ [(Done [], Done ())])
       = Some (if ds = [] \<or> so_far + length (concat ds) \<le> mx then Inr (so_far + length (concat ds)) else Inl LimitExceeded, out)"
proof (induction ds arbitrary: so_far)
  case (Cons d ds)
  then have "d \<noteq> []" "\<forall>d\<in>set ds. d \<noteq> []" "so_far + length d + length (concat ds) \<le> u64_max" by auto
  with Cons.IH [of "so_far + length d"] show ?case
    by (auto simp del: forward_loop.simps simp add: forward_loop_step add.assoc)
qed simp

text \<open>Forwarding is transparent and bounded.  However the reads, writes, timeouts and cancellations of one direction of a relayed
  stream fall, the bytes written are a prefix of the bytes read and never more than the limit, and a success has written every byte
  read and reports their number.  When every read and write succeeds, forwarding ends at the end of the input, successfully exactly
  when all of it fits the limit.\<close>

lemma forward_transparent:
  "(\<forall>evs res out. forward_with_cancel max_bytes idle_timeout evs = Some (res, out) \<longrightarrow>
      prefix out (chunks_read evs) \<and> length out \<le> max_bytes
      \<and> (\<forall>n. res = Inr n \<longrightarrow> out = chunks_read evs \<and> n = length out))
   \<and> (\<forall>ds. 0 < idle_timeout \<longrightarrow> [] \<notin> set ds \<longrightarrow> length (concat ds) \<le> u64_max \<longrightarrow>
        (\<exists>out. forward_with_cancel max_bytes idle_timeout (map (\<lambda>d. (Done d, Done ())) ds @ [(Done [], Done ())])
          = Some (if length (concat ds) \<le> max_bytes then Inr (length (concat ds)) else Inl LimitExceeded, out)))"
proof (intro conjI allI impI)
  fix ds :: "bytes list"
  assume a: "0 < idle_timeout" "[] \<notin> set ds" "length (concat ds) \<le> u64_max"
  then have "\<forall>d\<in>set ds. d \<noteq> []" "0 + length (concat ds) \<le> u64_max" by auto
  from forward_loop_complete [OF this, of max_bytes] a(1)
  show "\<exists>out. forward_with_cancel max_bytes idle_timeout (map (\<lambda>d. (Done d, Done ())) ds @ [(Done [], Done ())])
          = Some (if length (concat ds) \<le> max_bytes then Inr (length (concat ds)) else Inl LimitExceeded, out)"
    by (cases ds) (auto simp: forward_with_cancel_def)
qed (use forward_loop_prefix [of max_bytes 0] in \<open>fastforce simp: forward_with_cancel_def split: if_splits\<close>)+

section \<open>The SOCKS5 server of the edge\<close>

definition take_exact :: "usize \<Rightarrow> bytes \<Rightarrow> (bytes \<times> bytes) option" where
  "take_exact n s = (if n \<le> length s then Some (take n s, drop n s) else None)"

datatype carrier_error = Unsupported string | CarrierTls string | CarrierIo | CarrierHttp string | CarrierTimeout string | CarrierRelay relay_error
  | InvalidUri | InvalidScheme | SocksError

text \<open>\<open>socks5_handshake\<close>: the result, the bytes written, and the rest of the input.\<close>

definition socks5_handshake :: "bytes \<Rightarrow> (carrier_error + unit) \<times> bytes \<times> bytes" where
  "socks5_handshake input =
     (case take_exact 2 input of None \<Rightarrow> (Inl CarrierIo, [], []) | Some (header, s1) \<Rightarrow>
      if header ! 0 \<noteq> 5 \<or> 16 < header ! 1 then (Inl SocksError, [], s1)
      else (case take_exact (unat (header ! 1)) s1 of None \<Rightarrow> (Inl CarrierIo, [], []) | Some (methods, s2) \<Rightarrow>
      if 0 \<notin> set methods then (Inl SocksError, [5, 0xff], s2)
      else (case take_exact 4 s2 of None \<Rightarrow> (Inl CarrierIo, [5, 0], []) | Some (request, s3) \<Rightarrow>
      if request ! 0 \<noteq> 5 \<or> request ! 1 \<noteq> 1 \<or> request ! 2 \<noteq> 0 \<or> request ! 3 \<notin> {1, 3, 4} then (Inl SocksError, [5, 0], s3)
      else (case (if request ! 3 = 1 then Inr (4, s3)
                  else if request ! 3 = 4 then Inr (16, s3)
                  else (case take_exact 1 s3 of
                    None \<Rightarrow> Inl (Inl CarrierIo, [5, 0], [])
                  | Some (len, s4) \<Rightarrow> if len ! 0 = 0 then Inl (Inl SocksError, [5, 0], s4) else Inr (unat (len ! 0), s4))) of
        Inl stop \<Rightarrow> stop
      | Inr (target_len, s4) \<Rightarrow>
      (case take_exact (target_len + 2) s4 of None \<Rightarrow> (Inl CarrierIo, [5, 0], []) | Some (target, s5) \<Rightarrow>
       if request ! 3 = 3 \<and> list_ex (\<lambda>b. b \<le> 0x20 \<or> b = 0x7f) (take target_len target) then (Inl SocksError, [5, 0], s5)
       else (Inr (), [5, 0], s5))))))"

definition write_socks5_reply :: "byte \<Rightarrow> bytes" where
  "write_socks5_reply reply = [5, reply, 0, 1, 0, 0, 0, 0, 0, 0]"

section \<open>The SOCKS5 client of the transport\<close>

text \<open>The request for a destination.\<close>

definition socks5_request :: "endpoint \<Rightarrow> bytes result" where
  "socks5_request ep =
     (if has_control (ep_host ep) \<or> has_whitespace (ep_host ep)
        then Err (InvalidArgument ''SHPH peer host contains whitespace or control characters'')
      else (case (case parse_ip_addr (ep_host ep) of
          Some (V4 octets) \<Rightarrow> Ok ([1] @ octets)
        | Some (V6 octets) \<Rightarrow> Ok ([4] @ octets)
        | None \<Rightarrow>
            if ep_host ep = [] \<or> u8_max < length (ep_host ep) then Err (InvalidArgument ''SOCKS5 destination hostname must be 1-255 bytes'')
            else Ok ([3, of_nat (length (ep_host ep))] @ as_bytes (ep_host ep))) of
        Err e \<Rightarrow> Err e
      | Ok address \<Rightarrow> Ok ([5, 1, 0] @ address @ be_bytes 2 (ep_port ep))))"

text \<open>The rest of the reply after its four-byte header.\<close>

definition socks5_reply_rest :: "shph_error \<Rightarrow> byte \<Rightarrow> bytes \<Rightarrow> unit result \<times> bytes" where
  "socks5_reply_rest short kind s =
     (case (if kind = 1 then Some (take_exact 4 s)
            else if kind = 3 then Some (Option.bind (take_exact 1 s) (\<lambda>(len, s'). take_exact (unat (len ! 0)) s'))
            else if kind = 4 then Some (take_exact 16 s)
            else None) of
        None \<Rightarrow> (Err (Protocol (''SOCKS5 proxy returned an invalid address type '' @ show_nat (unat kind))), s)
      | Some None \<Rightarrow> (Err short, [])
      | Some (Some (_, s')) \<Rightarrow> (case take_exact 2 s' of None \<Rightarrow> (Err short, []) | Some (_, s'') \<Rightarrow> (Ok (), s'')))"

text \<open>\<open>socks5_connect_authenticated\<close>; \<open>short\<close> is the error of a read that the stream cannot satisfy.  The result, the messages written and
  the rest of the input.\<close>

definition socks5_finish :: "shph_error \<Rightarrow> string \<Rightarrow> bytes \<Rightarrow> bytes \<Rightarrow> unit result \<times> bytes \<times> bytes" where
  "socks5_finish short peer wrote s =
     (case endpoint_parse peer of
        Inl e \<Rightarrow> (Err (InvalidArgument (''invalid SHPH peer: '' @ e)), wrote, s)
      | Inr ep \<Rightarrow>
      (case socks5_request ep of Err e \<Rightarrow> (Err e, wrote, s) | Ok request \<Rightarrow>
       let wrote' = wrote @ request in
       (case take_exact 4 s of None \<Rightarrow> (Err short, wrote', []) | Some (header, s1) \<Rightarrow>
        if header ! 0 \<noteq> 5 then (Err (Protocol ''SOCKS5 proxy returned an invalid version''), wrote', s1)
        else if header ! 2 \<noteq> 0 then (Err (Protocol ''SOCKS5 proxy returned an invalid reserved field''), wrote', s1)
        else if header ! 1 \<noteq> 0
          then (Err (Transport (''SOCKS5 CONNECT failed with reply code '' @ show_nat (unat (header ! 1)))), wrote', s1)
        else (case socks5_reply_rest short (header ! 3) s1 of (res, s2) \<Rightarrow> (res, wrote', s2)))))"

definition socks5_connect_authenticated ::
    "shph_error \<Rightarrow> string \<Rightarrow> (bytes \<times> bytes) option \<Rightarrow> bytes \<Rightarrow> unit result \<times> bytes \<times> bytes" where
  "socks5_connect_authenticated short peer authentication input =
     (let chosen = (if authentication \<noteq> None then 2 else 0) in
      if (case authentication of None \<Rightarrow> False
          | Some (user, password) \<Rightarrow> user = [] \<or> password = [] \<or> 255 < length user \<or> 255 < length password)
        then (Err (Config ''SOCKS authentication values must be 1..255 bytes''), [], input)
      else let hello = [5, 1, chosen] in
      (case take_exact 2 input of None \<Rightarrow> (Err short, hello, []) | Some (reply, s1) \<Rightarrow>
       if reply \<noteq> [5, chosen] then (Err (Transport ''SOCKS5 proxy rejected the required authentication method''), hello, s1)
       else (case authentication of
         None \<Rightarrow> socks5_finish short peer hello s1
       | Some (user, password) \<Rightarrow>
           let wrote = hello @ [1, of_nat (length user)] @ user @ [of_nat (length password)] @ password in
           (case take_exact 2 s1 of None \<Rightarrow> (Err short, wrote, []) | Some (response, s2) \<Rightarrow>
            if response \<noteq> [1, 0] then (Err (Auth ''SOCKS authentication failed''), wrote, s2)
            else socks5_finish short peer wrote s2))))"

subsection \<open>The two ends together\<close>

lemma take_exact_append: "length xs = n \<Longrightarrow> take_exact n (xs @ ys) = Some (xs, ys)"
  by (simp add: take_exact_def)

lemma of_char_less_256: "(of_char c :: nat) < 256"
  using range_nat_of_char by auto

lemma char_of_32: "char_of (32 :: nat) = CHR '' ''"
  by code_simp

lemma no_control_bytes: "\<not> has_control s \<Longrightarrow> c \<in> set s \<Longrightarrow> 32 \<le> (of_char c :: nat) \<and> (of_char c :: nat) \<noteq> 127"
  by (induction s rule: has_control.induct) auto

lemma strip_one_member: "w \<in> set ws \<Longrightarrow> w \<noteq> [] \<Longrightarrow> strip_one ws (w @ s) \<noteq> None"
  by (induction ws) auto

lemma no_whitespace_space:
  assumes "\<not> has_whitespace s"
  shows "CHR '' '' \<notin> set s"
proof
  assume "CHR '' '' \<in> set s"
  then obtain i where i: "i < length s" "s ! i = CHR '' ''" by (auto simp: in_set_conv_nth)
  have "'' '' \<in> set whitespace_encodings" by (simp add: whitespace_encodings_def utf8_def char_of_32)
  then have "strip_one whitespace_encodings ('' '' @ drop (Suc i) s) \<noteq> None" by (rule strip_one_member) simp
  moreover have "drop i s = '' '' @ drop (Suc i) s" using i by (simp add: Cons_nth_drop_Suc [symmetric])
  ultimately have "strip_one whitespace_encodings (drop i s) \<noteq> None" by simp
  with i(1) assms show False by (auto simp: has_whitespace_def list_ex_iff)
qed

text \<open>A host the client sends passes the test of the server.\<close>

lemma host_bytes_accepted:
  assumes "\<not> has_control s" and "\<not> has_whitespace s"
  shows "\<not> list_ex (\<lambda>b. b \<le> 0x20 \<or> b = 0x7f) (as_bytes s)"
proof -
  have "0x20 < (of_nat (of_char c) :: byte) \<and> (of_nat (of_char c) :: byte) \<noteq> 0x7f" if c: "c \<in> set s" for c
  proof -
    have u: "unat (of_nat (of_char c) :: byte) = of_char c" using of_char_less_256 [of c] by (simp add: unat_of_nat)
    have "(of_char c :: nat) \<noteq> 32"
    proof
      assume "(of_char c :: nat) = 32"
      then have "c = char_of (32 :: nat)" by (metis char_of_char)
      with c no_whitespace_space [OF assms(2)] show False by (simp add: char_of_32)
    qed
    with no_control_bytes [OF assms(1) c] have "32 < (of_char c :: nat)" "(of_char c :: nat) \<noteq> 127" by auto
    with u show ?thesis by (auto simp: word_less_nat_alt)
  qed
  then show ?thesis by (force simp: as_bytes_def list_ex_iff)
qed

lemma short_length_byte: "length xs \<le> u8_max \<Longrightarrow> unat (of_nat (length xs) :: byte) = length xs"
  by (simp add: unat_of_nat u8_max_def)

text \<open>The server reads a whole request, whichever form its address has.\<close>

lemma socks5_handshake_request:
  assumes k: "k \<in> {1, 4} \<and> length target = (if k = 1 then 4 else 16) \<and> pre = []
      \<or> k = 3 \<and> target \<noteq> [] \<and> length target \<le> u8_max \<and> pre = [of_nat (length target)] \<and> \<not> list_ex (\<lambda>b. b \<le> 0x20 \<or> b = 0x7f) target"
    and port: "length port = 2"
  shows "socks5_handshake ([5, 1, 0] @ [5, 1, 0, k] @ pre @ target @ port @ rest) = (Inr (), [5, 0], rest)"
proof -
  from k show ?thesis
  proof (elim disjE conjE)
    assume k3: "k = 3" "target \<noteq> []" "length target \<le> u8_max" "pre = [of_nat (length target)]"
      "\<not> list_ex (\<lambda>b. b \<le> 0x20 \<or> b = 0x7f) target"
    note len = short_length_byte [OF k3(3)]
    have "(of_nat (length target) :: byte) \<noteq> 0" using len k3(2) by (metis length_0_conv unat_0)
    then show ?thesis using port len k3 by (simp add: socks5_handshake_def take_exact_def)
  next
    assume "k \<in> {1, 4}" "length target = (if k = 1 then 4 else 16)" "pre = []"
    with port show ?thesis by (auto simp: socks5_handshake_def take_exact_def)
  qed
qed

lemma socks5_request_accepted:
  assumes r: "socks5_request ep = Ok request"
  shows "socks5_handshake ([5, 1, 0] @ request @ rest) = (Inr (), [5, 0], rest)"
proof -
  from r have h: "\<not> has_control (ep_host ep)" "\<not> has_whitespace (ep_host ep)" by (auto simp: socks5_request_def split: if_splits)
  let ?port = "be_bytes 2 (ep_port ep)"
  have port: "length ?port = 2" by simp
  show ?thesis
  proof (cases "parse_ip_addr (ep_host ep)")
    case None
    with r h have "ep_host ep \<noteq> []" "length (ep_host ep) \<le> u8_max"
      "request = [5, 1, 0, 3] @ [of_nat (length (as_bytes (ep_host ep)))] @ as_bytes (ep_host ep) @ ?port"
      by (auto simp: socks5_request_def split: if_splits)
    with socks5_handshake_request [OF disjI2 port, of 3 "as_bytes (ep_host ep)" "[of_nat (length (as_bytes (ep_host ep)))]" rest]
      host_bytes_accepted [OF h] show ?thesis by (simp add: as_bytes_def)
  next
    case (Some a)
    then have a: "ip_ok a" by (rule parse_ip_addr_ok)
    show ?thesis
    proof (cases a)
      case (V4 octets)
      with Some r h have "request = [5, 1, 0, 1] @ [] @ octets @ ?port" by (simp add: socks5_request_def)
      with socks5_handshake_request [OF disjI1 port, of 1 octets "[]" rest] a V4 show ?thesis by simp
    next
      case (V6 octets)
      with Some r h have "request = [5, 1, 0, 4] @ [] @ octets @ ?port" by (simp add: socks5_request_def)
      with socks5_handshake_request [OF disjI1 port, of 4 octets "[]" rest] a V6 show ?thesis by simp
    qed
  qed
qed

text \<open>C25. The SOCKS5 client of the transport and the SOCKS5 server of the edge understand each other.  For every peer whose host has
  no control or white-space character and is an address or a name of at most 255 bytes, the client's greeting alone gets the
  server's choice of method, that choice alone gets the client's request, and with both the server accepts, having read exactly
  the client's bytes.  The client then succeeds exactly on the reply with code zero, having read exactly the server's bytes,
  and reports any other code.\<close>

theorem socks5_interoperates:
  assumes ep: "endpoint_parse peer = Inr ep"
    and host: "\<not> has_control (ep_host ep)" "\<not> has_whitespace (ep_host ep)"
    and short_host: "parse_ip_addr (ep_host ep) = None \<Longrightarrow> length (ep_host ep) \<le> 255"
  shows "\<exists>request. socks5_handshake [5, 1, 0] = (Inl CarrierIo, [5, 0], [])
     \<and> socks5_connect_authenticated eof peer None [5, 0] = (Err eof, [5, 1, 0] @ request, [])
     \<and> (\<forall>rest. socks5_handshake ([5, 1, 0] @ request @ rest) = (Inr (), [5, 0], rest))
     \<and> (\<forall>rest. socks5_connect_authenticated eof peer None ([5, 0] @ write_socks5_reply 0 @ rest)
          = (Ok (), [5, 1, 0] @ request, rest))
     \<and> (\<forall>reply rest. reply \<noteq> 0 \<longrightarrow> fst (socks5_connect_authenticated eof peer None ([5, 0] @ write_socks5_reply reply @ rest))
          = Err (Transport (''SOCKS5 CONNECT failed with reply code '' @ show_nat (unat reply))))"
proof -
  have ne: "ep_host ep \<noteq> []"
  proof
    assume "ep_host ep = []"
    moreover have "str_trim (ep_host ep) \<noteq> []"
      using ep by (auto simp: endpoint_parse_def Let_def split: option.splits if_splits sum.splits)
    ultimately show False using str_trim_graphic [of "[]"] by simp
  qed
  obtain request where r: "socks5_request ep = Ok request"
    using ne host short_host
    by (cases "parse_ip_addr (ep_host ep)"; cases "the (parse_ip_addr (ep_host ep))") (auto simp: socks5_request_def u8_max_def)
  have "socks5_handshake [5, 1, 0] = (Inl CarrierIo, [5, 0], [])"
    by (simp add: socks5_handshake_def take_exact_def)
  moreover have "socks5_connect_authenticated eof peer None [5, 0] = (Err eof, [5, 1, 0] @ request, [])"
    by (simp add: socks5_connect_authenticated_def socks5_finish_def take_exact_def ep r Let_def)
  moreover have "socks5_connect_authenticated eof peer None ([5, 0] @ write_socks5_reply 0 @ rest) = (Ok (), [5, 1, 0] @ request, rest)"
    for rest
    by (simp add: socks5_connect_authenticated_def socks5_finish_def socks5_reply_rest_def write_socks5_reply_def take_exact_def ep r Let_def)
  moreover have "fst (socks5_connect_authenticated eof peer None ([5, 0] @ write_socks5_reply reply @ rest))
      = Err (Transport (''SOCKS5 CONNECT failed with reply code '' @ show_nat (unat reply)))" if "reply \<noteq> 0" for reply rest
    using that by (simp add: socks5_connect_authenticated_def socks5_finish_def write_socks5_reply_def take_exact_def ep r Let_def)
  ultimately show ?thesis using socks5_request_accepted [OF r] by blast
qed

theorem socks5_interoperates_witness:
  "\<exists>request. socks5_connect_authenticated (Transport ''end of stream'') ''edge:443'' None [5, 0]
        = (Err (Transport ''end of stream''), [5, 1, 0] @ request, [])
     \<and> socks5_handshake ([5, 1, 0] @ request @ [9]) = (Inr (), [5, 0], [9])
     \<and> socks5_connect_authenticated (Transport ''end of stream'') ''edge:443'' None ([5, 0] @ write_socks5_reply 0 @ [7])
        = (Ok (), [5, 1, 0] @ request, [7])"
proof -
  have g: "\<forall>c\<in>set ''edge''. graphic c" by (simp add: graphic_def)
  then have t: "str_trim ''edge'' = ''edge''" by (rule str_trim_graphic)
  have ep: "endpoint_parse ''edge:443'' = Inr \<lparr>ep_host = ''edge'', ep_port = 443\<rparr>"
    by (simp add: endpoint_parse_def rsplit_once_def parse_unsigned_def u16_max_def checked_add_def checked_mul_def digit_of_def t)
  from socks5_interoperates [OF ep, of "Transport ''end of stream''"] graphic_no_control [OF g] graphic_no_whitespace [OF g]
  show ?thesis by simp blast
qed

section \<open>Tokens, URIs and addresses\<close>

definition MAX_CAPABILITY_TOKEN_FILE_BYTES :: usize where "MAX_CAPABILITY_TOKEN_FILE_BYTES = 64 * 1024"
definition MAX_CAPABILITY_TOKENS :: usize where "MAX_CAPABILITY_TOKENS = 1024"
definition MAX_HTTP3_REMOTE_ADDRESSES :: usize where "MAX_HTTP3_REMOTE_ADDRESSES = 16"

lemma str_rest_shorter: "s \<noteq> [] \<Longrightarrow> length (dropWhile P s) - Suc 0 < length s"
proof -
  assume "s \<noteq> []"
  then have "0 < length s" by simp
  with length_dropWhile_le [of P s] show ?thesis by linarith
qed

text \<open>\<open>str::lines\<close>: the pieces before each line feed, a trailing carriage return removed; a last empty piece is no line.\<close>

function str_lines :: "string \<Rightarrow> string list" where
  "str_lines s =
     (if s = [] then []
      else let line = takeWhile (\<lambda>c. c \<noteq> CHR 0x0A) s; rest = dropWhile (\<lambda>c. c \<noteq> CHR 0x0A) s in
        (if line \<noteq> [] \<and> rest \<noteq> [] \<and> last line = CHR 0x0D then butlast line else line) # str_lines (drop 1 rest))"
  by pat_completeness auto
termination
  by (relation "measure length") (use str_rest_shorter in auto)

declare str_lines.simps [simp del]

fun token_lines :: "(string \<Rightarrow> bool) \<Rightarrow> usize \<Rightarrow> string list \<Rightarrow> string list \<Rightarrow> carrier_error + string list" where
  "token_lines header_ok max_token_bytes tokens [] = Inr tokens"
| "token_lines header_ok max_token_bytes tokens (line # lines) =
     (let token = str_trim line in
      if token = [] then token_lines header_ok max_token_bytes tokens lines
      else if max_token_bytes < length token \<or> list_ex (\<lambda>c. (of_char c :: nat) \<le> 0x20 \<or> (of_char c :: nat) = 0x7f) token then Inl InvalidUri
      else if MAX_CAPABILITY_TOKENS \<le> length tokens then Inl InvalidUri
      else if \<not> header_ok token then Inl InvalidUri
      else token_lines header_ok max_token_bytes (tokens @ [token]) lines)"

definition parse_capability_tokens :: "(string \<Rightarrow> bool) \<Rightarrow> string \<Rightarrow> usize \<Rightarrow> carrier_error + string list" where
  "parse_capability_tokens header_ok raw max_token_bytes =
     (if MAX_CAPABILITY_TOKEN_FILE_BYTES < length raw then Inl InvalidUri
      else (case token_lines header_ok max_token_bytes [] (str_lines raw) of
        Inl e \<Rightarrow> Inl e
      | Inr tokens \<Rightarrow> if tokens = [] then Inl InvalidUri else Inr tokens))"

record edge_uri =
  uri_scheme :: "string option"
  uri_authority :: "(string \<times> string) option"
  uri_path :: string
  uri_query :: "string option"

text \<open>The authority is its whole text and its host.\<close>

definition validate_h2_uri_with_path :: "(string \<Rightarrow> (string \<times> string option) option) \<Rightarrow> edge_uri \<Rightarrow> string \<Rightarrow> carrier_error + unit" where
  "validate_h2_uri_with_path parse_uri uri relay_path =
     (case validate_relay_path parse_uri relay_path of Inl _ \<Rightarrow> Inl InvalidUri | Inr _ \<Rightarrow>
      if uri_scheme uri \<noteq> Some ''https'' then Inl InvalidScheme
      else (case uri_authority uri of
        None \<Rightarrow> Inl InvalidUri
      | Some (whole, host) \<Rightarrow>
          if host = [] \<or> CHR ''@'' \<in> set whole \<or> uri_path uri \<noteq> relay_path \<or> uri_query uri \<noteq> None then Inl InvalidUri
          else Inr ()))"

datatype carrier_kind = Http2 | Http3

definition carrier_kind_parse :: "bool \<Rightarrow> string \<Rightarrow> carrier_error + carrier_kind" where
  "carrier_kind_parse http3_compiled s =
     (if s \<in> {''h2'', ''http2''} then Inr Http2
      else if s \<in> {''h3'', ''http3''} then (if http3_compiled then Inr Http3 else Inl (Unsupported ''http/3 support was not compiled''))
      else Inl (Unsupported ''carrier must be h2 or h3''))"

fun is_ipv4 :: "ip_addr \<Rightarrow> bool" where
  "is_ipv4 (V4 _) = True"
| "is_ipv4 (V6 _) = False"

text \<open>One pass of the outer loop; nothing is added once the limit is reached, which is where the function returns.\<close>

fun prioritize_pass :: "bool \<Rightarrow> socket_addr list \<Rightarrow> socket_addr list \<Rightarrow> socket_addr list" where
  "prioritize_pass prefer_ipv4 acc [] = acc"
| "prioritize_pass prefer_ipv4 acc (a # as) =
     (if length acc = MAX_HTTP3_REMOTE_ADDRESSES then acc
      else if is_ipv4 (sa_ip a) = prefer_ipv4 \<and> a \<notin> set acc then prioritize_pass prefer_ipv4 (acc @ [a]) as
      else prioritize_pass prefer_ipv4 acc as)"

definition prioritize_http3_remote_addresses :: "socket_addr list \<Rightarrow> socket_addr list" where
  "prioritize_http3_remote_addresses addresses = prioritize_pass False (prioritize_pass True [] addresses) addresses"

definition http3_client_bind_address :: "socket_addr \<Rightarrow> socket_addr" where
  "http3_client_bind_address remote =
     \<lparr>sa_ip = (if is_ipv4 (sa_ip remote) then V4 (replicate 4 0) else V6 (replicate 16 0)), sa_port = 0\<rparr>"

text \<open>What a parsed bundle holds: at least one and at most 1024 tokens, each within the size limit and usable as a header.\<close>

lemma token_lines_sound:
  "token_lines header_ok mx acc ls = Inr tokens \<Longrightarrow> length acc \<le> MAX_CAPABILITY_TOKENS \<Longrightarrow>
     \<forall>t\<in>set acc. t \<noteq> [] \<and> length t \<le> mx \<and> header_ok t \<Longrightarrow>
     length tokens \<le> MAX_CAPABILITY_TOKENS \<and> (\<forall>t\<in>set tokens. t \<noteq> [] \<and> length t \<le> mx \<and> header_ok t)"
  by (induction header_ok mx acc ls rule: token_lines.induct) (auto simp: Let_def split: if_splits)

lemma parse_capability_tokens_sound:
  "parse_capability_tokens header_ok raw mx = Inr tokens \<Longrightarrow>
     tokens \<noteq> [] \<and> length tokens \<le> MAX_CAPABILITY_TOKENS \<and> (\<forall>t\<in>set tokens. t \<noteq> [] \<and> length t \<le> mx \<and> header_ok t)"
  using token_lines_sound [of header_ok mx "[]" "str_lines raw" tokens]
  by (auto simp: parse_capability_tokens_def split: sum.splits if_splits)

text \<open>The addresses tried over HTTP/3 are the first sixteen of the distinct addresses, the IPv4 ones first, otherwise in their order.\<close>

fun first_occurrences :: "'a list \<Rightarrow> 'a list \<Rightarrow> 'a list" where
  "first_occurrences seen [] = []"
| "first_occurrences seen (x # xs) = (if x \<in> set seen then first_occurrences seen xs else x # first_occurrences (seen @ [x]) xs)"

lemma first_occurrences_seen: "set seen = set seen' \<Longrightarrow> first_occurrences seen xs = first_occurrences seen' xs"
proof (induction xs arbitrary: seen seen')
  case (Cons x xs)
  from Cons.IH [OF Cons.prems] Cons.IH [of "seen @ [x]" "seen' @ [x]"] Cons.prems show ?case by simp
qed simp

lemma first_occurrences_append: "first_occurrences seen (xs @ ys) = first_occurrences seen xs @ first_occurrences (seen @ xs) ys"
proof (induction xs arbitrary: seen)
  case (Cons x xs)
  have "first_occurrences (seen @ xs) ys = first_occurrences (seen @ x # xs) ys" if "x \<in> set seen"
    using that by (intro first_occurrences_seen) auto
  with Cons show ?case by simp
qed simp

lemma prioritize_pass_take:
  "length acc \<le> MAX_HTTP3_REMOTE_ADDRESSES \<Longrightarrow>
     prioritize_pass b acc as
     = take MAX_HTTP3_REMOTE_ADDRESSES (acc @ first_occurrences acc (filter (\<lambda>a. is_ipv4 (sa_ip a) = b) as))"
  by (induction b acc as rule: prioritize_pass.induct) auto

lemma first_occurrences_disjoint: "set seen \<inter> set xs = {} \<Longrightarrow> first_occurrences (us @ seen) xs = first_occurrences us xs"
proof (induction xs arbitrary: us)
  case (Cons x xs)
  have "first_occurrences (us @ seen @ [x]) xs = first_occurrences ((us @ [x]) @ seen) xs"
    by (rule first_occurrences_seen) auto
  with Cons.IH [of us] Cons.IH [of "us @ [x]"] Cons.prems show ?case by auto
qed simp

lemma prioritize_spec:
  "prioritize_http3_remote_addresses addresses
   = take MAX_HTTP3_REMOTE_ADDRESSES
       (first_occurrences [] (filter (\<lambda>a. is_ipv4 (sa_ip a)) addresses @ filter (\<lambda>a. \<not> is_ipv4 (sa_ip a)) addresses))"
proof -
  let ?v4 = "filter (\<lambda>a. is_ipv4 (sa_ip a)) addresses" and ?v6 = "filter (\<lambda>a. \<not> is_ipv4 (sa_ip a)) addresses"
  let ?N = MAX_HTTP3_REMOTE_ADDRESSES and ?f = "first_occurrences []"
  have sub: "set (first_occurrences s xs) \<subseteq> set xs" for s xs :: "socket_addr list" by (induction s xs rule: first_occurrences.induct) auto
  have "set (take ?N (?f ?v4)) \<inter> set ?v6 = {}" using sub [of "[]" ?v4] set_take_subset [of ?N "?f ?v4"] by fastforce
  from first_occurrences_disjoint [OF this, of "[]"] have a: "first_occurrences (take ?N (?f ?v4)) ?v6 = ?f ?v6" by simp
  have "set ?v4 \<inter> set ?v6 = {}" by auto
  from first_occurrences_disjoint [OF this, of "[]"] have b: "first_occurrences ?v4 ?v6 = ?f ?v6" by simp
  have "prioritize_http3_remote_addresses addresses = take ?N (take ?N (?f ?v4) @ ?f ?v6)"
    by (simp add: prioritize_http3_remote_addresses_def prioritize_pass_take a)
  also have "\<dots> = take ?N (?f ?v4 @ ?f ?v6)" by (simp add: min_def)
  finally show ?thesis by (simp add: first_occurrences_append b)
qed

end
