(* ===== verification/Edge_Serve.thy ===== *)
theory Edge_Serve
  imports Edge_Relay
begin

text \<open>
  Starting the edge: the configuration of \<open>shph-edge/src/config.rs\<close> with its validation, and the part of the \<open>serve\<close> command
  (\<open>shph-edge/src/main.rs\<close>) that builds the configuration and from it the front door.  Reading the public key, the certificates and the
  sockets is not modelled.  The lemmas say exactly which configurations start and what a started front door guarantees.
\<close>

section \<open>Configuration\<close>

definition MAX_CONFIG_BYTES :: usize where "MAX_CONFIG_BYTES = 64 * 1024"

record tls_config =
  tls_cert :: "string option"
  tls_key :: "string option"
  tls_ca :: "string option"
  tls_server_name :: string

record socks_config =
  sk_listen :: socket_addr
  sk_max_connections :: usize

record edge_config =
  ec_listen :: socket_addr
  ec_backend :: string
  ec_audience :: string
  ec_public_key :: string
  ec_relay_path :: string
  ec_tls :: tls_config
  ec_limits :: edge_limits
  ec_socks :: socks_config

definition default_server_name :: string where "default_server_name = ''edge.invalid''"

definition socks_config_default :: socks_config where
  "socks_config_default = \<lparr>sk_listen = \<lparr>sa_ip = V4 [127, 0, 0, 1], sa_port = 10808\<rparr>, sk_max_connections = 128\<rparr>"

definition printable_ascii :: "string \<Rightarrow> bool" where
  "printable_ascii s \<longleftrightarrow> is_ascii s \<and> list_all (\<lambda>c. \<not> ((of_char c :: nat) \<le> 32 \<or> (of_char c :: nat) = 127)) s"

definition edge_config_validate :: "(string \<Rightarrow> (string \<times> string option) option) \<Rightarrow> edge_config \<Rightarrow> edge_config_error + unit" where
  "edge_config_validate parse_uri c =
     (case parse_socket_addr (ec_backend c) of None \<Rightarrow> Inl EdgeInvalidBackend | Some addr \<Rightarrow>
      if sa_port addr = 0 \<or> is_unspecified (sa_ip addr) then Inl EdgeInvalidBackend
      else if ec_audience c = [] \<or> 64 < length (ec_audience c) \<or> \<not> printable_ascii (ec_audience c) then Inl EdgeInvalidAudience
      else (case validate_relay_path parse_uri (ec_relay_path c) of Inl e \<Rightarrow> Inl e | Inr _ \<Rightarrow>
      let t = ec_tls c in
      if (tls_cert t \<noteq> None) \<noteq> (tls_key t \<noteq> None) then Inl EdgeIncompleteTls
      else if ((tls_cert t \<noteq> None \<or> tls_key t \<noteq> None) \<and> tls_server_name t = []) \<or> 253 < length (tls_server_name t)
          \<or> \<not> printable_ascii (tls_server_name t) \<or> CHR ''/'' \<in> set (tls_server_name t) \<or> CHR ''@'' \<in> set (tls_server_name t)
        then Inl EdgeInvalidServerName
      else if \<not> is_loopback (sa_ip (sk_listen (ec_socks c))) \<or> sk_max_connections (ec_socks c) = 0 \<or> 10000 < sk_max_connections (ec_socks c)
        then Inl EdgeInvalidLimits
      else limits_validate (ec_limits c)))"

text \<open>The TOML decoder is an argument; it is given the bytes once they are valid UTF-8.\<close>

definition from_toml_bytes ::
    "(string \<Rightarrow> (string \<times> string option) option) \<Rightarrow> (bytes \<Rightarrow> edge_config option) \<Rightarrow> bytes \<Rightarrow> edge_config_error + edge_config" where
  "from_toml_bytes parse_uri decode bs =
     (if MAX_CONFIG_BYTES < length bs then Inl EdgeTooLarge
      else (case decode bs of None \<Rightarrow> Inl EdgeMalformed | Some c \<Rightarrow>
        (case edge_config_validate parse_uri c of Inl e \<Rightarrow> Inl e | Inr _ \<Rightarrow> Inr c)))"

definition from_secs :: "u64 \<Rightarrow> duration" where "from_secs n = n * 1000000000"

definition config_max_lifetime :: "edge_config \<Rightarrow> duration" where
  "config_max_lifetime c = from_secs (el_max_lifetime_secs (ec_limits c))"

section \<open>The serve command\<close>

datatype serve_error =
    MissingTls | InvalidServeConfiguration edge_config_error | InvalidVerifier capability_error | InvalidRelayPathArg edge_config_error
  | InvalidReplayCapacity edge_config_error | InvalidVerificationRate edge_config_error

record serve_args =
  sv_listen :: socket_addr
  sv_backend :: string
  sv_audience :: string
  sv_cert :: "string option"
  sv_key :: "string option"
  sv_relay_path :: string
  sv_max_stream_bytes :: u64
  sv_max_verifications :: u64
  sv_http2_idle_timeout_ms :: u64
  sv_uniform_fallback :: bool

definition serve_config :: "serve_args \<Rightarrow> edge_config" where
  "serve_config a = \<lparr>ec_listen = sv_listen a, ec_backend = sv_backend a, ec_audience = sv_audience a, ec_public_key = [],
     ec_relay_path = sv_relay_path a,
     ec_tls = \<lparr>tls_cert = sv_cert a, tls_key = sv_key a, tls_ca = None, tls_server_name = ''edge.invalid''\<rparr>,
     ec_limits = edge_limits_default\<lparr>el_max_stream_bytes := sv_max_stream_bytes a, el_max_verifications := sv_max_verifications a,
       el_http2_idle_timeout_ms := sv_http2_idle_timeout_ms a\<rparr>,
     ec_socks = socks_config_default\<rparr>"

definition start_front_door ::
    "(string \<Rightarrow> (string \<times> string option) option) \<Rightarrow> bytes \<Rightarrow> bool \<Rightarrow> edge_config \<Rightarrow> serve_error + front_door \<times> edge_state" where
  "start_front_door parse_uri public_key uniform_fallback c =
     (case edge_config_validate parse_uri c of Inl e \<Rightarrow> Inl (InvalidServeConfiguration e) | Inr _ \<Rightarrow>
     (case verifier_new public_key (ec_audience c) (config_max_lifetime c) (from_secs (el_clock_skew_secs (ec_limits c))) of
        Inl e \<Rightarrow> Inl (InvalidVerifier e) | Inr v \<Rightarrow>
     (case front_door_with_path parse_uri v (el_max_token_bytes (ec_limits c)) (ec_relay_path c) of Inl e \<Rightarrow> Inl (InvalidRelayPathArg e) | Inr d1 \<Rightarrow>
     (case with_replay_capacity d1 (el_replay_capacity (ec_limits c)) of Inl e \<Rightarrow> Inl (InvalidReplayCapacity e) | Inr d2 \<Rightarrow>
     (case with_max_verifications_per_second d2 (el_max_verifications (ec_limits c)) of Inl e \<Rightarrow> Inl (InvalidVerificationRate e) | Inr d3 \<Rightarrow>
      Inr (with_uniform_fallback d3 uniform_fallback))))))"

definition serve :: "(string \<Rightarrow> (string \<times> string option) option) \<Rightarrow> bytes \<Rightarrow> serve_args \<Rightarrow> serve_error + front_door \<times> edge_state" where
  "serve parse_uri public_key a =
     (if sv_cert a = None \<or> sv_key a = None then Inl MissingTls
      else start_front_door parse_uri public_key (sv_uniform_fallback a) (serve_config a))"

section \<open>Which configurations start\<close>

definition config_retention :: "edge_config \<Rightarrow> u64" where
  "config_retention c = el_max_lifetime_secs (ec_limits c) + 2 * el_clock_skew_secs (ec_limits c) + 1"

definition config_verifier :: "bytes \<Rightarrow> edge_config \<Rightarrow> capability_verifier" where
  "config_verifier public_key c = \<lparr>cv_public_key = public_key, cv_audience = ec_audience c, cv_max_lifetime = config_max_lifetime c,
     cv_clock_skew = from_secs (el_clock_skew_secs (ec_limits c))\<rparr>"

definition config_door :: "bytes \<Rightarrow> bool \<Rightarrow> edge_config \<Rightarrow> front_door" where
  "config_door public_key uniform c = \<lparr>fd_verifier = config_verifier public_key c, fd_max_token_bytes = el_max_token_bytes (ec_limits c),
     fd_relay_path = ec_relay_path c, fd_uniform_fallback = uniform, fd_rate_limit = el_max_verifications (ec_limits c),
     fd_replay_capacity = el_replay_capacity (ec_limits c)\<rparr>"

lemma limits_validate_bounds:
  assumes "limits_validate l = Inr ()"
  shows "1 \<le> el_replay_capacity l" "el_replay_capacity l \<le> 1000000" "1 \<le> el_max_verifications l" "el_max_verifications l \<le> MAX_VERIFICATION_RATE"
    "1 \<le> el_max_lifetime_secs l" "el_max_lifetime_secs l \<le> 3600" "el_clock_skew_secs l \<le> 300"
    "el_max_verifications l * (el_max_lifetime_secs l + 2 * el_clock_skew_secs l + 1) \<le> el_replay_capacity l"
proof -
  show b: "1 \<le> el_replay_capacity l" "el_replay_capacity l \<le> 1000000" "1 \<le> el_max_verifications l" "el_max_verifications l \<le> MAX_VERIFICATION_RATE"
    "1 \<le> el_max_lifetime_secs l" "el_max_lifetime_secs l \<le> 3600" "el_clock_skew_secs l \<le> 300"
    using assms by (auto simp: limits_validate_def MAX_VERIFICATION_RATE_def Let_def split: if_splits)
  have "sat_mul u64_max (el_max_verifications l)
      (sat_add u64_max (sat_add u64_max (el_max_lifetime_secs l) (sat_mul u64_max (el_clock_skew_secs l) 2)) 1) \<le> el_replay_capacity l"
    using assms by (auto simp: limits_validate_def Let_def split: if_splits)
  moreover have "sat_add u64_max (sat_add u64_max (el_max_lifetime_secs l) (sat_mul u64_max (el_clock_skew_secs l) 2)) 1
      = el_max_lifetime_secs l + 2 * el_clock_skew_secs l + 1"
    using b by (simp add: sat_add_def sat_mul_def u64_max_def)
  ultimately show "el_max_verifications l * (el_max_lifetime_secs l + 2 * el_clock_skew_secs l + 1) \<le> el_replay_capacity l"
    using b(2) by (auto simp: sat_mul_def min_def u64_max_def split: if_splits)
qed

lemma as_secs_from_secs [simp]: "as_secs (from_secs n) = n"
  by (simp add: as_secs_def from_secs_def)

lemma config_retention_exact:
  assumes "limits_validate (ec_limits c) = Inr ()"
  shows "replay_retention_secs (config_verifier public_key c) = config_retention c" "config_retention c \<le> 4201"
  using limits_validate_bounds [OF assms]
  by (simp_all add: replay_retention_secs_def config_verifier_def config_max_lifetime_def config_retention_def sat_add_def sat_mul_def u64_max_def)

lemma config_validated:
  assumes "edge_config_validate parse_uri c = Inr ()"
  shows "limits_validate (ec_limits c) = Inr ()" "validate_relay_path parse_uri (ec_relay_path c) = Inr ()"
    "ec_audience c \<noteq> []" "length (ec_audience c) \<le> 64" "printable_ascii (ec_audience c)"
  using assms by (auto simp: edge_config_validate_def Let_def split: option.splits if_splits sum.splits)

lemma verifier_new_config:
  assumes "edge_config_validate parse_uri c = Inr ()"
  shows "verifier_new public_key (ec_audience c) (config_max_lifetime c) (from_secs (el_clock_skew_secs (ec_limits c))) =
     (if set (ec_audience c) \<inter> {CHR ''/'', CHR 0x5C} = {} then Inr (config_verifier public_key c) else Inl CapInvalidAudience)"
proof -
  note v = config_validated [OF assms]
  have "list_all audience_char (ec_audience c) \<longleftrightarrow> set (ec_audience c) \<inter> {CHR ''/'', CHR 0x5C} = {}"
    using v(5) by (auto simp: printable_ascii_def audience_char_def list_all_iff)
  moreover have "is_ascii (ec_audience c)" using v(5) by (simp add: printable_ascii_def)
  moreover have "1 \<le> el_max_lifetime_secs (ec_limits c)" using limits_validate_bounds(5) [OF v(1)] .
  ultimately show ?thesis using v(3,4)
    by (simp add: verifier_new_def validate_shape_def MAX_AUDIENCE_LEN_def config_max_lifetime_def config_verifier_def)
qed

lemma start_front_door_exact:
  assumes "edge_config_validate parse_uri c = Inr ()"
  shows "start_front_door parse_uri public_key uniform c =
     (if set (ec_audience c) \<inter> {CHR ''/'', CHR 0x5C} \<noteq> {} then Inl (InvalidVerifier CapInvalidAudience)
      else if el_replay_capacity (ec_limits c) < 256 * config_retention c then Inl (InvalidReplayCapacity EdgeInvalidLimits)
      else Inr (config_door public_key uniform c, \<lparr>es_rate = 0, es_cache = fresh_cache (el_replay_capacity (ec_limits c))\<rparr>))"
proof -
  note v = config_validated [OF assms]
  note b = limits_validate_bounds [OF v(1)] and ret = config_retention_exact [OF v(1)]
  have "el_max_verifications (ec_limits c) * config_retention c \<le> el_replay_capacity (ec_limits c)" using b(8) by (simp add: config_retention_def)
  moreover have "256 * config_retention c \<le> u64_max" using ret(2) by (simp add: u64_max_def)
  moreover have "sat_mul u64_max (el_max_verifications (ec_limits c)) (config_retention c) = el_max_verifications (ec_limits c) * config_retention c"
    using calculation(1) b(2) by (simp add: sat_mul_def u64_max_def)
  ultimately show ?thesis using b ret(1)
    by (simp add: start_front_door_def assms verifier_new_config [OF assms] front_door_with_path_def v(2) replay_cache_new_def
      DEFAULT_REPLAY_CAPACITY_def DEFAULT_MAX_VERIFICATIONS_PER_SECOND_def with_replay_capacity_def with_max_verifications_per_second_def
      with_uniform_fallback_def rate_limit_new_def config_door_def fresh_cache_def sat_mul_def min_absorb2)
qed

text \<open>C23. Which configurations start the edge, and what a started edge is.  A configuration starts exactly when it is valid, its audience
  has neither a slash nor a backslash, and its replay capacity covers the retention of a capability at the default rate of 256
  verifications per second, whatever rate it sets; the \<open>serve\<close> command, which keeps the default capacity and lifetime, needs only the first two
  and both TLS files.  A started front door is in a reachable initial state with the capacity its replay guarantee asks for.\<close>

theorem edge_starts_iff:
  "((\<exists>d. start_front_door parse_uri public_key uniform c = Inr d) \<longleftrightarrow>
      edge_config_validate parse_uri c = Inr () \<and> set (ec_audience c) \<inter> {CHR ''/'', CHR 0x5C} = {}
      \<and> 256 * config_retention c \<le> el_replay_capacity (ec_limits c))
   \<and> ((\<exists>d. serve parse_uri public_key a = Inr d) \<longleftrightarrow>
      sv_cert a \<noteq> None \<and> sv_key a \<noteq> None \<and> edge_config_validate parse_uri (serve_config a) = Inr ()
      \<and> set (sv_audience a) \<inter> {CHR ''/'', CHR 0x5C} = {})
   \<and> (\<forall>fd st. start_front_door parse_uri public_key uniform c = Inr (fd, st) \<longrightarrow>
      front_door_sized fd \<and> edge_reachable S U fd [] st)"
proof (intro conjI allI impI)
  have valid: "edge_config_validate parse_uri c = Inr ()" if "start_front_door parse_uri public_key uniform c = Inr d" for d uniform c
    using that by (auto simp: start_front_door_def split: sum.splits)
  have iff: "(\<exists>d. start_front_door parse_uri public_key uniform c = Inr d) \<longleftrightarrow>
      edge_config_validate parse_uri c = Inr () \<and> set (ec_audience c) \<inter> {CHR ''/'', CHR 0x5C} = {}
      \<and> 256 * config_retention c \<le> el_replay_capacity (ec_limits c)" for uniform c
    using valid [of uniform c] start_front_door_exact [of parse_uri c public_key uniform] by (metis (lifting) Inl_Inr_False not_le)
  then show "(\<exists>d. start_front_door parse_uri public_key uniform c = Inr d) \<longleftrightarrow>
      edge_config_validate parse_uri c = Inr () \<and> set (ec_audience c) \<inter> {CHR ''/'', CHR 0x5C} = {}
      \<and> 256 * config_retention c \<le> el_replay_capacity (ec_limits c)" .
  have "256 * config_retention (serve_config a) \<le> el_replay_capacity (ec_limits (serve_config a))"
    by (simp add: config_retention_def serve_config_def edge_limits_default_def DEFAULT_REPLAY_CAPACITY_def)
  with iff [of "sv_uniform_fallback a" "serve_config a"] show "(\<exists>d. serve parse_uri public_key a = Inr d) \<longleftrightarrow>
      sv_cert a \<noteq> None \<and> sv_key a \<noteq> None \<and> edge_config_validate parse_uri (serve_config a) = Inr ()
      \<and> set (sv_audience a) \<inter> {CHR ''/'', CHR 0x5C} = {}"
    by (auto simp: serve_def serve_config_def)
  fix fd st
  assume s: "start_front_door parse_uri public_key uniform c = Inr (fd, st)"
  note v = valid [OF s]
  from s start_front_door_exact [OF v] have d: "fd = config_door public_key uniform c"
    "st = \<lparr>es_rate = 0, es_cache = fresh_cache (fd_replay_capacity fd)\<rparr>"
    by (auto simp: config_door_def split: if_splits)
  show "edge_reachable S U fd [] st" unfolding d(2) by (rule edge_start)
  note l = config_validated(1) [OF v]
  note b = limits_validate_bounds [OF l]
  have "sat_mul u64_max (el_max_verifications (ec_limits c)) (config_retention c) \<le> el_replay_capacity (ec_limits c)"
    using b(8) by (simp add: sat_mul_def config_retention_def min.coboundedI2)
  with b config_retention_exact(1) [OF l] show "front_door_sized fd"
    by (simp add: d(1) front_door_sized_def config_door_def)
qed

section \<open>A concrete configuration\<close>

definition sample_args :: serve_args where
  "sample_args = \<lparr>sv_listen = \<lparr>sa_ip = V4 [127, 0, 0, 1], sa_port = 8443\<rparr>, sv_backend = ''10.0.0.7:80'', sv_audience = ''edge'', sv_cert = Some ''c'',
     sv_key = Some ''k'', sv_relay_path = DEFAULT_RELAY_PATH, sv_max_stream_bytes = 1024, sv_max_verifications = 1, sv_http2_idle_timeout_ms = 30000,
     sv_uniform_fallback = False\<rparr>"

definition low_rate_config :: edge_config where
  "low_rate_config = (serve_config sample_args)\<lparr>ec_limits := (ec_limits (serve_config sample_args))\<lparr>el_replay_capacity := 1000\<rparr>\<rparr>"

lemma sample_backend:
  "parse_socket_addr ''10.0.0.7:80'' = Some \<lparr>sa_ip = V4 [10, 0, 0, 7], sa_port = 80\<rparr>" "\<not> is_unspecified (V4 [10, 0, 0, 7])"
proof -
  have four: "(4 :: nat) = Suc (Suc (Suc (Suc 0)))" by simp
  show "parse_socket_addr ''10.0.0.7:80'' = Some \<lparr>sa_ip = V4 [10, 0, 0, 7], sa_port = 80\<rparr>"
    unfolding parse_socket_addr_def parse_with_def read_socket_addr_def read_ipv4_addr_def four
    by (simp add: read_port_def read_separator_def read_given_char_def read_number_def to_digit_def digits_value_def range_defs)
  show "\<not> is_unspecified (V4 [10, 0, 0, 7])" by code_simp
qed

lemma sample_path: "validate_relay_path (\<lambda>p. Some (p, None)) DEFAULT_RELAY_PATH = Inr ()"
  by (simp add: validate_relay_path_def DEFAULT_RELAY_PATH_def MAX_RELAY_PATH_BYTES_def is_ascii_def path_char_def)

lemma sample_config_valid:
  assumes "c \<in> {serve_config sample_args, low_rate_config}"
  shows "edge_config_validate (\<lambda>p. Some (p, None)) c = Inr ()"
  using assms
  by (auto simp: edge_config_validate_def low_rate_config_def serve_config_def sample_args_def sample_backend sample_path printable_ascii_def
      is_ascii_def socks_config_default_def edge_limits_default_def limits_validate_def DEFAULT_REPLAY_CAPACITY_def
      DEFAULT_HTTP2_IDLE_TIMEOUT_MS_def sat_add_def sat_mul_def u64_max_def Let_def simp del: is_unspecified.simps)

theorem edge_starts_iff_witness:
  "(\<exists>d. serve (\<lambda>p. Some (p, None)) [] sample_args = Inr d)
   \<and> edge_config_validate (\<lambda>p. Some (p, None)) low_rate_config = Inr ()
   \<and> (\<nexists>d. start_front_door (\<lambda>p. Some (p, None)) [] False low_rate_config = Inr d)
   \<and> (\<exists>fd st. start_front_door (\<lambda>p. Some (p, None)) [] False (serve_config sample_args) = Inr (fd, st) \<and> front_door_sized fd)"
proof -
  note v = sample_config_valid
  note T = edge_starts_iff [of "\<lambda>p. Some (p, None)" "[]" False]
  have a: "\<exists>d. serve (\<lambda>p. Some (p, None)) [] sample_args = Inr d"
    using T [THEN conjunct2, THEN conjunct1, of sample_args] v by (simp add: sample_args_def)
  have b: "\<nexists>d. start_front_door (\<lambda>p. Some (p, None)) [] False low_rate_config = Inr d"
    using T [THEN conjunct1, of low_rate_config]
    by (simp add: low_rate_config_def config_retention_def serve_config_def edge_limits_default_def)
  have "\<exists>d. start_front_door (\<lambda>p. Some (p, None)) [] False (serve_config sample_args) = Inr d"
    using T [THEN conjunct1, of "serve_config sample_args"] v
    by (simp add: config_retention_def serve_config_def edge_limits_default_def DEFAULT_REPLAY_CAPACITY_def sample_args_def)
  with T [THEN conjunct2, THEN conjunct2] a b v show ?thesis by (metis insertI1 insertI2 surj_pair)
qed

end
