(* ===== verification/Edge_Pool.thy ===== *)
theory Edge_Pool
  imports Edge_Serve
begin

text \<open>
  The HTTP/2 connection pool of the SOCKS5 side of the edge, \<open>Http2Pool\<close> of \<open>shph-edge/src/carrier.rs\<close>, as a step relation over any
  number of concurrent acquisitions.  A connection is its free stream slots and whether it is usable; connecting, TLS and the HTTP library
  are the outcomes of a step.  The lock \<open>acquire_lock\<close> is held from the check of the tokens until the stream is handed out, the
  connection attempt in between included.  Connections may die and streams may be released at any point.  The lemmas show that
  the limits on connections and streams hold in every interleaving and that no capability token is used twice.
\<close>

section \<open>The pool\<close>

datatype pool_pc =
    Waiting
  | Locked
  | Connecting
  | Parked
  | Served nat string
  | Released nat string
  | Failed carrier_error

record http2_pool =
  pl_tokens :: "string list"
  pl_conns :: "nat list"
  pl_table :: "(nat \<times> bool) list"
  pl_lock :: "nat option"
  pl_tasks :: "pool_pc list"

fun edge_config_error_text :: "edge_config_error \<Rightarrow> string" where
  "edge_config_error_text EdgeTooLarge = ''configuration is larger than 64 KiB''"
| "edge_config_error_text EdgeMalformed = ''configuration is malformed''"
| "edge_config_error_text EdgeInvalidBackend = ''backend must be a numeric socket address''"
| "edge_config_error_text EdgeInvalidAudience = ''audience is invalid''"
| "edge_config_error_text EdgeIncompleteTls = ''TLS certificate and key must be configured together''"
| "edge_config_error_text EdgeInvalidServerName = ''TLS server name is invalid''"
| "edge_config_error_text EdgeInvalidRelayPath = ''HTTP/2 relay path is invalid''"
| "edge_config_error_text EdgeInvalidLimits = ''one or more configured limits are outside the safe bounds''"

text \<open>\<open>Http2Pool::new\<close>: the tokens of the new pool.  The name check of the TLS library is an argument.\<close>

definition pool_new ::
    "(string \<Rightarrow> (string \<times> string option) option) \<Rightarrow> (string \<Rightarrow> bool) \<Rightarrow> (string \<Rightarrow> bool) \<Rightarrow> edge_config \<Rightarrow> edge_uri \<Rightarrow> string \<Rightarrow>
     carrier_error + string list" where
  "pool_new parse_uri header_ok server_name_ok c uri raw =
     (case edge_config_validate parse_uri c of Inl e \<Rightarrow> Inl (CarrierHttp (''invalid edge configuration: '' @ edge_config_error_text e)) | Inr _ \<Rightarrow>
     (case validate_h2_uri_with_path parse_uri uri (ec_relay_path c) of Inl e \<Rightarrow> Inl e | Inr _ \<Rightarrow>
     (case parse_capability_tokens header_ok raw (el_max_token_bytes (ec_limits c)) of Inl e \<Rightarrow> Inl e | Inr tokens \<Rightarrow>
      if \<not> server_name_ok (tls_server_name (ec_tls c)) then Inl (CarrierTls ''invalid server name'') else Inr tokens)))"

definition pool_start :: "string list \<Rightarrow> nat \<Rightarrow> http2_pool" where
  "pool_start tokens n = \<lparr>pl_tokens = tokens, pl_conns = [], pl_table = [], pl_lock = None, pl_tasks = replicate n Waiting\<rparr>"

definition is_usable :: "(nat \<times> bool) list \<Rightarrow> nat \<Rightarrow> bool" where
  "is_usable table c \<longleftrightarrow> snd (table ! c)"

definition can_lease :: "(nat \<times> bool) list \<Rightarrow> nat \<Rightarrow> bool" where
  "can_lease table c \<longleftrightarrow> is_usable table c \<and> 0 < fst (table ! c)"

definition take_slot :: "nat \<Rightarrow> (nat \<times> bool) list \<Rightarrow> (nat \<times> bool) list" where
  "take_slot c table = table[c := (fst (table ! c) - 1, snd (table ! c))]"

definition drop_slot :: "nat \<Rightarrow> (nat \<times> bool) list \<Rightarrow> (nat \<times> bool) list" where
  "drop_slot c table = table[c := (fst (table ! c) + 1, snd (table ! c))]"

definition kill :: "nat list \<Rightarrow> (nat \<times> bool) list \<Rightarrow> (nat \<times> bool) list" where
  "kill dead table = map (\<lambda>(c, f, u). (f, u \<and> c \<notin> set dead)) (zip [0..<length table] table)"

definition exhausted :: carrier_error where
  "exhausted = CarrierHttp ''capability token bundle is exhausted''"

definition acquisition_cancelled :: carrier_error where
  "acquisition_cancelled = CarrierHttp ''HTTP/2 pool acquisition cancelled''"

definition connection_cancelled :: carrier_error where
  "connection_cancelled = CarrierHttp ''HTTP/2 pool connection cancelled''"

definition finish :: "nat \<Rightarrow> pool_pc \<Rightarrow> http2_pool \<Rightarrow> http2_pool" where
  "finish i pc p = p\<lparr>pl_tasks := (pl_tasks p)[i := pc], pl_lock := None\<rparr>"

text \<open>What task \<open>i\<close> does under the lock before it connects; \<open>dead\<close> are the connections that die between the two looks at them.\<close>

definition pool_turn :: "nat \<Rightarrow> nat list \<Rightarrow> nat \<Rightarrow> http2_pool \<Rightarrow> http2_pool" where
  "pool_turn max_connections dead i p =
     (case pl_tokens p of
        [] \<Rightarrow> finish i (Failed exhausted) p
      | t # ts \<Rightarrow>
          let conns = filter (is_usable (pl_table p)) (pl_conns p);
              p1 = p\<lparr>pl_conns := conns, pl_table := kill dead (pl_table p)\<rparr> in
          (case find (can_lease (pl_table p1)) conns of
             Some c \<Rightarrow> finish i (Served c t) (p1\<lparr>pl_tokens := ts, pl_table := take_slot c (pl_table p1)\<rparr>)
           | None \<Rightarrow>
               if length conns < max_connections then p1\<lparr>pl_tasks := (pl_tasks p1)[i := Connecting]\<rparr>
               else finish i Parked p1))"

datatype connect_outcome = Connected | Closed_During_Setup | Lease_Lost

text \<open>What it does once a connection is there.\<close>

definition pool_connected :: "nat \<Rightarrow> connect_outcome \<Rightarrow> nat \<Rightarrow> http2_pool \<Rightarrow> http2_pool" where
  "pool_connected max_streams outcome i p =
     (let c = length (pl_table p) in
      case outcome of
        Closed_During_Setup \<Rightarrow>
          finish i (Failed (CarrierHttp ''HTTP/2 connection closed during setup'')) (p\<lparr>pl_table := pl_table p @ [(max_streams, False)]\<rparr>)
      | Lease_Lost \<Rightarrow>
          finish i (Failed (CarrierHttp ''HTTP/2 stream lease unavailable'')) (p\<lparr>pl_table := pl_table p @ [(max_streams, False)]\<rparr>)
      | Connected \<Rightarrow>
          if max_streams = 0
            then finish i (Failed (CarrierHttp ''HTTP/2 stream lease unavailable'')) (p\<lparr>pl_table := pl_table p @ [(max_streams, True)]\<rparr>)
          else let p1 = p\<lparr>pl_conns := pl_conns p @ [c]\<rparr> in
            (case pl_tokens p1 of
               [] \<Rightarrow> finish i (Failed exhausted) (p1\<lparr>pl_table := pl_table p1 @ [(max_streams, True)]\<rparr>)
             | t # ts \<Rightarrow> finish i (Served c t) (p1\<lparr>pl_tokens := ts, pl_table := pl_table p1 @ [(max_streams - 1, True)]\<rparr>)))"

inductive pool_step :: "nat \<Rightarrow> nat \<Rightarrow> http2_pool \<Rightarrow> http2_pool \<Rightarrow> bool" for max_connections max_streams where
  lock: "\<lbrakk>i < length (pl_tasks p); pl_tasks p ! i = Waiting; pl_lock p = None\<rbrakk> \<Longrightarrow>
     pool_step max_connections max_streams p (p\<lparr>pl_tasks := (pl_tasks p)[i := Locked], pl_lock := Some i\<rparr>)"
| turn: "\<lbrakk>i < length (pl_tasks p); pl_tasks p ! i = Locked\<rbrakk> \<Longrightarrow>
     pool_step max_connections max_streams p (pool_turn max_connections dead i p)"
| connected: "\<lbrakk>i < length (pl_tasks p); pl_tasks p ! i = Connecting\<rbrakk> \<Longrightarrow>
     pool_step max_connections max_streams p (pool_connected max_streams outcome i p)"
| connect_failed: "\<lbrakk>i < length (pl_tasks p); pl_tasks p ! i = Connecting\<rbrakk> \<Longrightarrow>
     pool_step max_connections max_streams p (finish i (Failed e) p)"
| cancelled_waiting: "\<lbrakk>i < length (pl_tasks p); pl_tasks p ! i \<in> {Waiting, Parked}\<rbrakk> \<Longrightarrow>
     pool_step max_connections max_streams p (p\<lparr>pl_tasks := (pl_tasks p)[i := Failed acquisition_cancelled]\<rparr>)"
| cancelled_connecting: "\<lbrakk>i < length (pl_tasks p); pl_tasks p ! i = Connecting\<rbrakk> \<Longrightarrow>
     pool_step max_connections max_streams p (finish i (Failed connection_cancelled) p)"
| notified: "\<lbrakk>i < length (pl_tasks p); pl_tasks p ! i = Parked\<rbrakk> \<Longrightarrow>
     pool_step max_connections max_streams p (p\<lparr>pl_tasks := (pl_tasks p)[i := Waiting]\<rparr>)"
| release: "\<lbrakk>i < length (pl_tasks p); pl_tasks p ! i = Served c t\<rbrakk> \<Longrightarrow>
     pool_step max_connections max_streams p (p\<lparr>pl_tasks := (pl_tasks p)[i := Released c t], pl_table := drop_slot c (pl_table p)\<rparr>)"
| die: "pool_step max_connections max_streams p (p\<lparr>pl_table := kill dead (pl_table p)\<rparr>)"

inductive pool_reachable :: "nat \<Rightarrow> nat \<Rightarrow> string list \<Rightarrow> nat \<Rightarrow> http2_pool \<Rightarrow> bool" for max_connections max_streams tokens n where
  start: "pool_reachable max_connections max_streams tokens n (pool_start tokens n)"
| step: "pool_reachable max_connections max_streams tokens n p \<Longrightarrow> pool_step max_connections max_streams p p' \<Longrightarrow>
     pool_reachable max_connections max_streams tokens n p'"

section \<open>Counting over an updated list\<close>

lemma length_filter_update:
  "i < length xs \<Longrightarrow> length (filter P (xs[i := x])) + (if P (xs ! i) then 1 else 0) = length (filter P xs) + (if P x then 1 else 0)"
proof (induction xs arbitrary: i)
  case (Cons y ys)
  then show ?case by (cases i) auto
qed simp

definition option_mset :: "'a option \<Rightarrow> 'a multiset" where
  "option_mset a = (case a of None \<Rightarrow> {#} | Some x \<Rightarrow> {#x#})"

lemma mset_map_filter_update:
  "i < length xs \<Longrightarrow> mset (List.map_filter f (xs[i := x])) + option_mset (f (xs ! i)) = mset (List.map_filter f xs) + option_mset (f x)"
proof (induction xs arbitrary: i)
  case (Cons y ys)
  show ?case
  proof (cases i)
    case 0
    then show ?thesis by (auto simp: map_filter_simps option_mset_def split: option.splits)
  next
    case (Suc j)
    with Cons.IH [of j] Cons.prems show ?thesis by (auto simp: map_filter_simps split: option.splits)
  qed
qed simp

section \<open>The invariant\<close>

definition lock_ok :: "pool_pc list \<Rightarrow> nat option \<Rightarrow> bool" where
  "lock_ok tasks l \<longleftrightarrow> (\<forall>i<length tasks. tasks ! i \<in> {Locked, Connecting} \<longleftrightarrow> l = Some i)"

fun serves :: "nat \<Rightarrow> pool_pc \<Rightarrow> bool" where
  "serves c (Served d t) = (d = c)"
| "serves c _ = False"

fun token_of :: "pool_pc \<Rightarrow> string option" where
  "token_of (Served c t) = Some t"
| "token_of (Released c t) = Some t"
| "token_of _ = None"

definition held :: "nat \<Rightarrow> pool_pc list \<Rightarrow> nat" where
  "held c tasks = length (filter (serves c) tasks)"

definition slots_ok :: "nat \<Rightarrow> (nat \<times> bool) list \<Rightarrow> pool_pc list \<Rightarrow> bool" where
  "slots_ok max_streams table tasks \<longleftrightarrow>
     (\<forall>c<length table. fst (table ! c) + held c tasks = max_streams) \<and> (\<forall>c. length table \<le> c \<longrightarrow> held c tasks = 0)"

definition tokens_ok :: "string list \<Rightarrow> string list \<Rightarrow> pool_pc list \<Rightarrow> bool" where
  "tokens_ok tokens left tasks \<longleftrightarrow> mset (List.map_filter token_of tasks) + mset left = mset tokens"

definition conns_ok :: "nat \<Rightarrow> http2_pool \<Rightarrow> bool" where
  "conns_ok max_connections p \<longleftrightarrow> length (pl_conns p) \<le> max_connections \<and> set (pl_conns p) \<subseteq> {..<length (pl_table p)}
     \<and> (\<forall>i<length (pl_tasks p). pl_tasks p ! i = Connecting \<longrightarrow> length (pl_conns p) < max_connections \<and> pl_tokens p \<noteq> [])"

lemma lock_ok_update:
  assumes "lock_ok tasks l" and "i < length tasks" and "pc \<in> {Locked, Connecting} \<Longrightarrow> l = None \<or> l = Some i"
    and "l' = (if pc \<in> {Locked, Connecting} then Some i else if l = Some i then None else l)"
  shows "lock_ok (tasks[i := pc]) l'"
  using assms unfolding lock_ok_def by (auto simp: nth_list_update split: if_splits)

lemma held_update: "i < length tasks \<Longrightarrow>
   held c (tasks[i := pc]) + (if serves c (tasks ! i) then 1 else 0) = held c tasks + (if serves c pc then 1 else 0)"
  unfolding held_def by (rule length_filter_update)

lemma tokens_ok_update:
  assumes "tokens_ok tokens left tasks" and "i < length tasks"
    and "option_mset (token_of pc) + mset left' = option_mset (token_of (tasks ! i)) + mset left"
  shows "tokens_ok tokens left' (tasks[i := pc])"
proof -
  note u = mset_map_filter_update [OF assms(2), of token_of pc]
  have "mset (List.map_filter token_of (tasks[i := pc])) + mset left' + option_mset (token_of (tasks ! i)) + option_mset (token_of pc)
      = mset (List.map_filter token_of tasks) + option_mset (token_of pc) + option_mset (token_of (tasks ! i)) + mset left"
    using u assms(3) by (simp add: ac_simps)
  then show ?thesis using assms(1) by (simp add: tokens_ok_def ac_simps)
qed

lemma length_kill [simp]: "length (kill dead table) = length table"
  by (simp add: kill_def)

lemma fst_kill [simp]: "c < length table \<Longrightarrow> fst (kill dead table ! c) = fst (table ! c)"
  by (simp add: kill_def split: prod.splits)

lemma slots_ok_table:
  "slots_ok ms table tasks \<Longrightarrow> length table' = length table \<Longrightarrow> \<forall>c<length table. fst (table' ! c) = fst (table ! c) \<Longrightarrow> slots_ok ms table' tasks"
  by (auto simp: slots_ok_def)

lemma slots_ok_quiet:
  assumes "slots_ok ms table tasks" and "i < length tasks" and "\<forall>c. \<not> serves c (tasks ! i)" and "\<forall>c. \<not> serves c pc"
  shows "slots_ok ms table (tasks[i := pc])"
proof -
  have "held c (tasks[i := pc]) = held c tasks" for c using held_update [OF assms(2), of c pc] assms(3,4) by simp
  with assms(1) show ?thesis by (simp add: slots_ok_def)
qed

lemma slots_ok_take:
  assumes "slots_ok ms table tasks" and "i < length tasks" and "\<forall>c. \<not> serves c (tasks ! i)"
    and "c < length table" and "0 < fst (table ! c)"
  shows "slots_ok ms (take_slot c table) (tasks[i := Served c t])"
proof -
  have "held d (tasks[i := Served c t]) = held d tasks + (if c = d then 1 else 0)" for d
    using held_update [OF assms(2), of d "Served c t"] assms(3) by simp
  with assms(1,4,5) show ?thesis by (auto simp: slots_ok_def take_slot_def nth_list_update)
qed

lemma slots_ok_drop:
  assumes "slots_ok ms table tasks" and "i < length tasks" and "tasks ! i = Served c t"
  shows "slots_ok ms (drop_slot c table) (tasks[i := Released c t])"
proof -
  have h: "held d (tasks[i := Released c t]) + (if c = d then 1 else 0) = held d tasks" for d
    using held_update [OF assms(2), of d "Released c t"] assms(3) by simp
  have "c < length table" using h [of c] assms(1) by (auto simp: slots_ok_def not_le [symmetric])
  moreover have "held c tasks = Suc (held c (tasks[i := Released c t]))" using h [of c] by simp
  moreover have "held d (tasks[i := Released c t]) = held d tasks" if "d \<noteq> c" for d using h [of d] that by simp
  ultimately show ?thesis using assms(1) unfolding slots_ok_def drop_slot_def
    by (metis add_Suc_right add_Suc_shift fst_conv length_list_update not_le nth_list_update plus_1_eq_Suc add.commute)
qed

lemma slots_ok_grow:
  assumes "slots_ok ms table tasks"
  shows "slots_ok ms (table @ [(ms, u)]) tasks"
  using assms by (auto simp: slots_ok_def nth_append less_Suc_eq)

definition pool_inv :: "nat \<Rightarrow> nat \<Rightarrow> string list \<Rightarrow> http2_pool \<Rightarrow> bool" where
  "pool_inv mc ms tokens p \<longleftrightarrow> lock_ok (pl_tasks p) (pl_lock p) \<and> conns_ok mc p \<and> slots_ok ms (pl_table p) (pl_tasks p)
     \<and> tokens_ok tokens (pl_tokens p) (pl_tasks p)"

text \<open>While one task holds the lock, no other is connecting.\<close>

lemma lock_exclusive:
  "lock_ok tasks (Some i) \<Longrightarrow> j < length tasks \<Longrightarrow> j \<noteq> i \<Longrightarrow> tasks ! j \<noteq> Connecting"
  by (auto simp: lock_ok_def)

lemma lock_held: "lock_ok tasks l \<Longrightarrow> i < length tasks \<Longrightarrow> tasks ! i \<in> {Locked, Connecting} \<Longrightarrow> l = Some i"
  by (auto simp: lock_ok_def)

lemma pool_inv_finish:
  assumes inv: "pool_inv mc ms tokens p" and i: "i < length (pl_tasks p)" "pl_tasks p ! i \<in> {Locked, Connecting}"
    and pc: "pc \<notin> {Locked, Connecting}"
    and q: "pl_tasks q = pl_tasks p" "pl_lock q = pl_lock p" "length (pl_conns q) \<le> mc" "set (pl_conns q) \<subseteq> {..<length (pl_table q)}"
    and s: "slots_ok ms (pl_table q) ((pl_tasks p)[i := pc])" and t: "option_mset (token_of pc) + mset (pl_tokens q) = mset (pl_tokens p)"
  shows "pool_inv mc ms tokens (finish i pc q)"
proof -
  have l: "lock_ok (pl_tasks p) (Some i)" "pl_lock p = Some i" using lock_held [OF _ i] inv by (auto simp: pool_inv_def)
  have "lock_ok ((pl_tasks p)[i := pc]) None" by (rule lock_ok_update [OF l(1) i(1)]) (use pc in auto)
  moreover have "(pl_tasks p)[i := pc] ! j \<noteq> Connecting" if "j < length (pl_tasks p)" for j
    using that pc lock_exclusive [OF l(1) that] by (cases "j = i") auto
  then have "conns_ok mc (finish i pc q)" using q by (simp add: conns_ok_def finish_def)
  moreover note calculation
  moreover have "tokens_ok tokens (pl_tokens q) ((pl_tasks p)[i := pc])"
  proof (rule tokens_ok_update)
    show "tokens_ok tokens (pl_tokens p) (pl_tasks p)" using inv by (simp add: pool_inv_def)
    show "option_mset (token_of pc) + mset (pl_tokens q) = option_mset (token_of (pl_tasks p ! i)) + mset (pl_tokens p)"
      using t i(2) by (auto simp: option_mset_def)
  qed (rule i)
  ultimately show ?thesis using s q by (simp add: pool_inv_def finish_def)
qed

lemma pool_turn_inv:
  assumes inv: "pool_inv mc ms tokens p" and i: "i < length (pl_tasks p)" "pl_tasks p ! i = Locked"
  shows "pool_inv mc ms tokens (pool_turn mc dead i p)"
proof -
  let ?conns = "filter (is_usable (pl_table p)) (pl_conns p)" and ?table = "kill dead (pl_table p)"
  have c0: "length (pl_conns p) \<le> mc" "set (pl_conns p) \<subseteq> {..<length (pl_table p)}" using inv by (auto simp: pool_inv_def conns_ok_def)
  have c: "length ?conns \<le> mc" "set ?conns \<subseteq> {..<length ?table}"
    using c0(1) length_filter_le [of "is_usable (pl_table p)" "pl_conns p"] by linarith (use c0(2) in auto)
  have slots: "slots_ok ms (pl_table p) (pl_tasks p)" using inv by (simp add: pool_inv_def)
  then have slots': "slots_ok ms ?table (pl_tasks p)" by (rule slots_ok_table) auto
  have quiet: "\<forall>c. \<not> serves c (pl_tasks p ! i)" using i by simp
  note fin = pool_inv_finish [OF inv i(1)]
  note l = lock_held [of "pl_tasks p" "pl_lock p", OF _ i(1)]
  show ?thesis
  proof (cases "pl_tokens p")
    case Nil
    have "pool_inv mc ms tokens (finish i (Failed exhausted) p)"
      by (rule fin) (use inv i slots_ok_quiet [OF slots i(1) quiet] Nil in \<open>auto simp: pool_inv_def conns_ok_def option_mset_def\<close>)
    with Nil show ?thesis by (simp add: pool_turn_def)
  next
    case (Cons t ts)
    show ?thesis
    proof (cases "find (can_lease ?table) ?conns")
      case (Some c)
      then have cc: "c \<in> set ?conns" "can_lease ?table c" by (metis find_Some_iff nth_mem)+
      have "slots_ok ms (take_slot c ?table) ((pl_tasks p)[i := Served c t])"
        by (rule slots_ok_take [OF slots' i(1) quiet]) (use cc c in \<open>auto simp: can_lease_def\<close>)
      then have "pool_inv mc ms tokens (finish i (Served c t) (p\<lparr>pl_conns := ?conns, pl_tokens := ts, pl_table := take_slot c ?table\<rparr>))"
        by (intro fin) (use i c Cons in \<open>simp_all add: option_mset_def take_slot_def\<close>)
      with Cons Some show ?thesis by (simp add: pool_turn_def Let_def)
    next
      case None
      show ?thesis
      proof (cases "length ?conns < mc")
        case True
        have lk: "pl_lock p = Some i" "lock_ok (pl_tasks p) (pl_lock p)" using l inv i(2) by (auto simp: pool_inv_def)
        have "lock_ok ((pl_tasks p)[i := Connecting]) (Some i)" by (rule lock_ok_update [OF lk(2) i(1)]) (use lk in auto)
        moreover have "tokens_ok tokens (pl_tokens p) ((pl_tasks p)[i := Connecting])"
          by (rule tokens_ok_update [OF _ i(1)]) (use inv i in \<open>auto simp: pool_inv_def option_mset_def\<close>)
        moreover have "slots_ok ms ?table ((pl_tasks p)[i := Connecting])" by (rule slots_ok_quiet [OF slots' i(1) quiet]) simp
        ultimately show ?thesis using Cons None True c lk(1) by (simp add: pool_turn_def Let_def pool_inv_def conns_ok_def)
      next
        case False
        have "pool_inv mc ms tokens (finish i Parked (p\<lparr>pl_conns := ?conns, pl_table := ?table\<rparr>))"
          by (rule fin) (use i c slots_ok_quiet [OF slots' i(1) quiet] in \<open>simp_all add: option_mset_def\<close>)
        with Cons None False show ?thesis by (simp add: pool_turn_def Let_def)
      qed
    qed
  qed
qed

lemma pool_connected_inv:
  assumes inv: "pool_inv mc ms tokens p" and i: "i < length (pl_tasks p)" "pl_tasks p ! i = Connecting"
  shows "pool_inv mc ms tokens (pool_connected ms outcome i p)"
proof -
  have c: "length (pl_conns p) < mc" "set (pl_conns p) \<subseteq> {..<length (pl_table p)}" "pl_tokens p \<noteq> []"
    using inv i by (auto simp: pool_inv_def conns_ok_def)
  have slots: "slots_ok ms (pl_table p) (pl_tasks p)" using inv by (simp add: pool_inv_def)
  have quiet: "\<forall>c. \<not> serves c (pl_tasks p ! i)" using i by simp
  note fin = pool_inv_finish [OF inv i(1)]
  have failed: "pool_inv mc ms tokens (finish i (Failed e) (p\<lparr>pl_table := pl_table p @ [(ms, u)]\<rparr>))" for e u
    by (rule fin) (use i c slots_ok_quiet [OF slots_ok_grow [OF slots] i(1) quiet] in \<open>auto simp: option_mset_def\<close>)
  obtain t ts where t: "pl_tokens p = t # ts" using c(3) by (cases "pl_tokens p") auto
  let ?c = "length (pl_table p)"
  have "slots_ok ms (pl_table p @ [(ms - 1, True)]) ((pl_tasks p)[i := Served ?c t])" if "ms \<noteq> 0"
    using slots_ok_take [OF slots_ok_grow [OF slots, of True] i(1) quiet, of ?c t] that by (simp add: take_slot_def)
  then have served: "pool_inv mc ms tokens (finish i (Served ?c t) (p\<lparr>pl_conns := pl_conns p @ [?c], pl_tokens := ts, pl_table := pl_table p @ [(ms - 1, True)]\<rparr>))"
    if "ms \<noteq> 0" using that by (intro fin) (use i c t in \<open>auto simp: option_mset_def\<close>)
  have "pool_connected ms outcome i p =
      (if outcome = Connected \<and> ms \<noteq> 0
       then finish i (Served ?c t) (p\<lparr>pl_conns := pl_conns p @ [?c], pl_tokens := ts, pl_table := pl_table p @ [(ms - 1, True)]\<rparr>)
       else finish i (Failed (CarrierHttp (if outcome = Closed_During_Setup then ''HTTP/2 connection closed during setup''
          else ''HTTP/2 stream lease unavailable''))) (p\<lparr>pl_table := pl_table p @ [(ms, outcome = Connected)]\<rparr>))"
    using t by (cases outcome) (simp_all add: pool_connected_def Let_def)
  with failed served show ?thesis by (simp only: split: if_split) blast
qed

text \<open>A change of one task that takes no token, no slot and no lock.\<close>

lemma pool_inv_task:
  assumes inv: "pool_inv mc ms tokens p" and i: "i < length (pl_tasks p)" "pl_tasks p ! i \<notin> {Locked, Connecting}"
    and pc: "pc \<notin> {Locked, Connecting}" and t: "token_of pc = token_of (pl_tasks p ! i)"
    and s: "slots_ok ms table ((pl_tasks p)[i := pc])" "length table = length (pl_table p)"
  shows "pool_inv mc ms tokens (p\<lparr>pl_tasks := (pl_tasks p)[i := pc], pl_table := table\<rparr>)"
proof -
  have "pl_lock p \<noteq> Some i" using inv i by (auto simp: pool_inv_def lock_ok_def)
  then have "lock_ok ((pl_tasks p)[i := pc]) (pl_lock p)"
    by (intro lock_ok_update [of "pl_tasks p" "pl_lock p"]) (use inv i pc in \<open>auto simp: pool_inv_def\<close>)
  moreover have "tokens_ok tokens (pl_tokens p) ((pl_tasks p)[i := pc])"
    by (rule tokens_ok_update [OF _ i(1)]) (use inv t in \<open>auto simp: pool_inv_def\<close>)
  moreover have "pl_tasks p ! j = Connecting" if "j < length (pl_tasks p)" "(pl_tasks p)[i := pc] ! j = Connecting" for j
    using that pc by (cases "j = i") auto
  ultimately show ?thesis using inv s by (auto simp: pool_inv_def conns_ok_def)
qed

lemma pool_step_inv: "pool_step mc ms p p' \<Longrightarrow> pool_inv mc ms tokens p \<Longrightarrow> pool_inv mc ms tokens p'"
proof (induction rule: pool_step.induct)
  case (lock i p)
  have "lock_ok ((pl_tasks p)[i := Locked]) (Some i)"
    by (rule lock_ok_update [of "pl_tasks p" "pl_lock p"]) (use lock in \<open>auto simp: pool_inv_def\<close>)
  moreover have "tokens_ok tokens (pl_tokens p) ((pl_tasks p)[i := Locked])"
    by (rule tokens_ok_update) (use lock in \<open>auto simp: pool_inv_def option_mset_def\<close>)
  moreover have "slots_ok ms (pl_table p) ((pl_tasks p)[i := Locked])"
    by (rule slots_ok_quiet) (use lock in \<open>auto simp: pool_inv_def\<close>)
  moreover have "pl_tasks p ! j = Connecting" if "j < length (pl_tasks p)" "(pl_tasks p)[i := Locked] ! j = Connecting" for j
    using that by (cases "j = i") auto
  ultimately show ?case using lock.prems by (auto simp: pool_inv_def conns_ok_def)
next
  case (turn i p dead)
  then show ?case by (intro pool_turn_inv)
next
  case (connected i p outcome)
  then show ?case by (intro pool_connected_inv)
next
  case (connect_failed i p e)
  then show ?case
    by (intro pool_inv_finish) (auto simp: pool_inv_def conns_ok_def option_mset_def intro: slots_ok_quiet)
next
  case (cancelled_connecting i p)
  then show ?case
    by (intro pool_inv_finish) (auto simp: pool_inv_def conns_ok_def option_mset_def intro: slots_ok_quiet)
next
  case (cancelled_waiting i p)
  then have "slots_ok ms (pl_table p) ((pl_tasks p)[i := Failed acquisition_cancelled])"
    by (intro slots_ok_quiet) (auto simp: pool_inv_def)
  with cancelled_waiting pool_inv_task [of mc ms tokens p i "Failed acquisition_cancelled" "pl_table p"] show ?case by auto
next
  case (notified i p)
  then have "slots_ok ms (pl_table p) ((pl_tasks p)[i := Waiting])" by (intro slots_ok_quiet) (auto simp: pool_inv_def)
  with notified pool_inv_task [of mc ms tokens p i Waiting "pl_table p"] show ?case by auto
next
  case (release i p c t)
  then have "slots_ok ms (drop_slot c (pl_table p)) ((pl_tasks p)[i := Released c t])" by (intro slots_ok_drop) (auto simp: pool_inv_def)
  with release pool_inv_task [of mc ms tokens p i "Released c t" "drop_slot c (pl_table p)"] show ?case by (auto simp: drop_slot_def)
next
  case (die p dead)
  then have "slots_ok ms (pl_table p) (pl_tasks p)" by (simp add: pool_inv_def)
  then have "slots_ok ms (kill dead (pl_table p)) (pl_tasks p)" by (rule slots_ok_table) auto
  with die show ?case by (simp add: pool_inv_def conns_ok_def)
qed

lemma pool_reachable_inv: "pool_reachable mc ms tokens n p \<Longrightarrow> pool_inv mc ms tokens p"
proof (induction rule: pool_reachable.induct)
  case start
  have "List.map_filter token_of (replicate n Waiting) = []" by (induction n) (simp_all add: map_filter_simps)
  then show ?case
    by (auto simp: pool_start_def pool_inv_def lock_ok_def conns_ok_def slots_ok_def held_def tokens_ok_def)
qed (rule pool_step_inv)

text \<open>C21. The HTTP/2 pool keeps its limits and never reuses a capability.  In every state that any number of concurrent acquisitions can
  reach, with connections dying, failing and being cancelled and streams released at any point: there are never more pooled
  connections than configured, never more open streams on a connection than configured, and at most one connection attempt, for which
  a token is left; and the tokens of all streams handed out so far, together with those left, are exactly the bundle.\<close>

theorem http2_pool_limits:
  assumes "pool_reachable max_connections max_streams tokens n p"
  shows "length (pl_conns p) \<le> max_connections
    \<and> (\<forall>c. length (filter (serves c) (pl_tasks p)) \<le> max_streams)
    \<and> (\<forall>i j. i < length (pl_tasks p) \<longrightarrow> j < length (pl_tasks p) \<longrightarrow> pl_tasks p ! i = Connecting \<longrightarrow> pl_tasks p ! j = Connecting \<longrightarrow>
        i = j \<and> pl_tokens p \<noteq> [])
    \<and> mset (List.map_filter token_of (pl_tasks p)) + mset (pl_tokens p) = mset tokens"
proof -
  note inv = pool_reachable_inv [OF assms]
  have "held c (pl_tasks p) \<le> max_streams" for c
    using inv by (cases "c < length (pl_table p)") (auto simp: pool_inv_def slots_ok_def)
  moreover have "i = j \<and> pl_tokens p \<noteq> []"
    if "i < length (pl_tasks p)" "j < length (pl_tasks p)" "pl_tasks p ! i = Connecting" "pl_tasks p ! j = Connecting" for i j
  proof -
    have "lock_ok (pl_tasks p) (pl_lock p)" using inv by (simp add: pool_inv_def)
    from lock_held [OF this that(1)] lock_held [OF this that(2)] that(3,4) inv that(1) show ?thesis
      by (auto simp: pool_inv_def conns_ok_def)
  qed
  ultimately show ?thesis using inv by (auto simp: pool_inv_def conns_ok_def tokens_ok_def held_def)
qed

text \<open>Two tasks share a pool of one connection with one stream: the second waits until the first stream is released.\<close>

lemma sample_pool:
  "pool_reachable 1 1 [''a'', ''b''] 2
     \<lparr>pl_tokens = [], pl_conns = [0], pl_table = [(0, True)], pl_lock = None, pl_tasks = [Released 0 ''a'', Served 0 ''b'']\<rparr>"
proof -
  let ?R = "pool_reachable 1 1 [''a'', ''b''] 2"
  let ?P = "\<lambda>ts cs tb l tasks. \<lparr>pl_tokens = ts, pl_conns = cs, pl_table = tb, pl_lock = l, pl_tasks = tasks\<rparr>"
  have go: "?R p \<Longrightarrow> pool_step 1 1 p p' \<Longrightarrow> p' = q \<Longrightarrow> ?R q" for p p' q using pool_reachable.step by blast
  have s0: "?R (?P [''a'', ''b''] [] [] None [Waiting, Waiting])"
    using pool_reachable.start [of 1 1 "[''a'', ''b'']" 2] by (simp add: pool_start_def numeral_2_eq_2)
  have s1: "?R (?P [''a'', ''b''] [] [] (Some 0) [Locked, Waiting])" by (rule go [OF s0 pool_step.lock [of 0]]) simp_all
  have s2: "?R (?P [''a'', ''b''] [] [] (Some 0) [Connecting, Waiting])"
    by (rule go [OF s1 pool_step.turn [of 0 _ 1 1 "[]"]]) (simp_all add: pool_turn_def kill_def)
  have s3: "?R (?P [''b''] [0] [(0, True)] None [Served 0 ''a'', Waiting])"
    by (rule go [OF s2 pool_step.connected [of 0 _ 1 1 Connected]]) (simp_all add: pool_connected_def finish_def)
  have s4: "?R (?P [''b''] [0] [(0, True)] (Some 1) [Served 0 ''a'', Locked])" by (rule go [OF s3 pool_step.lock [of 1]]) simp_all
  have s5: "?R (?P [''b''] [0] [(0, True)] None [Served 0 ''a'', Parked])"
    by (rule go [OF s4 pool_step.turn [of 1 _ 1 1 "[]"]]) (simp_all add: pool_turn_def kill_def is_usable_def can_lease_def finish_def)
  have s6: "?R (?P [''b''] [0] [(1, True)] None [Released 0 ''a'', Parked])"
    by (rule go [OF s5 pool_step.release [of 0 _ 0 "''a''"]]) (simp_all add: drop_slot_def)
  have s7: "?R (?P [''b''] [0] [(1, True)] None [Released 0 ''a'', Waiting])" by (rule go [OF s6 pool_step.notified [of 1]]) simp_all
  have s8: "?R (?P [''b''] [0] [(1, True)] (Some 1) [Released 0 ''a'', Locked])" by (rule go [OF s7 pool_step.lock [of 1]]) simp_all
  show ?thesis
    by (rule go [OF s8 pool_step.turn [of 1 _ 1 1 "[]"]]) (simp_all add: pool_turn_def kill_def is_usable_def can_lease_def take_slot_def finish_def)
qed

theorem http2_pool_limits_witness:
  "length [0 :: nat] \<le> 1 \<and> length (filter (serves 0) [Released 0 ''a'', Served 0 ''b'']) \<le> 1
   \<and> mset (List.map_filter token_of [Released 0 ''a'', Served 0 ''b'']) = mset [''a'', ''b'']"
  using http2_pool_limits [OF sample_pool] by simp

end
