(* ===== verification/Spec2Isabelle.thy ===== *)
theory Spec2Isabelle
  imports Handshake Cookie Shroud2_Adaptive Onion Cover Framing Profile_Padding Phantom_One Shroud3 Roadmap Metrics Snap_Runtime Negotiated Identity_Record Edge_Pool
begin

text \<open>
  SHPH is a private tunnel.  Two peers with pinned identities run an authenticated, optionally post-quantum hybrid handshake
  and exchange encrypted frames over TCP or QUIC; inner envelopes change the size and timing of the traffic; identity
  records, onion relays and an HTTP edge help the peers to find and reach each other.  This library models the program's own
  logic, file by file under \<open>src/\<close>, and proves the theorems that make it correct.  Operating-system calls and third-party libraries
  are parameters with named laws, each of which a concrete instance is shown to satisfy.

  \<^bold>\<open>Conventions.\<close>  A Rust scalar that is only compared, indexed or added with a checked or saturating operation is a \<^typ>\<open>nat\<close> with
  those operations written out; bytes, bitmaps and atomic words are machine words.  A fallible function returns \<open>Ok\<close> or \<open>Err\<close>, or a
  sum with its own error type.  State is a record passed through; interleavings are step relations over the atomic operations.  A
  loop without a bound (rejection sampling) is a partial function whose \<open>None\<close> means that it does not return, and its users prove
  that it returns under the stated law of the generator.  No model has fuel.

  \<^bold>\<open>Foundations.\<close>
  \<^item> \<open>Shph_Prelude\<close>: scalars, byte codecs, UTF-8 text with \<open>trim\<close>, \<open>is_control\<close> and \<open>is_whitespace\<close>, weighted choice, the error enum of
    \<open>shph-core/src/error.rs\<close>.
  \<^item> \<open>Interfaces\<close>: the contracts that several components promise, as locales: replay filters, ordered buffers, codecs with padding, samplers, prefix
    codes.  Each is interpreted on the definitions of the components that promise it.

  \<^bold>\<open>Sessions\<close> (\<open>shph-core\<close>).
  \<^item> \<open>Replay_Window\<close>, \<open>Session_Cipher\<close> (\<open>crypto.rs\<close>): the sliding window on 64-bit words refines a specification that remembers every
    nonce; ciphers never reuse a nonce, deliver at most once, and forged frames neither change the state nor suppress authentic ones.
  \<^item> \<open>Identity\<close>, \<open>Handshake\<close> (\<open>crypto.rs\<close>, \<open>pqc.rs\<close>, \<open>handshake.rs\<close>): key pairs, hellos, the hybrid exchange, transcripts and key derivation;
    a derived state authenticates a pinned and fresh peer, binds the whole transcript and, under the secure profile, the post-quantum secret.
    The theorem of this file composes the handshake with the ciphers.
  \<^item> \<open>Cookie\<close> (\<open>cookie.rs\<close>), \<open>Net\<close> and \<open>Ip_Text\<close> (\<open>net.rs\<close> and the address parsers of the standard library), \<open>Metrics\<close> (\<open>metrics.rs\<close>).
  \<^item> \<open>Gf257\<close>, \<open>Shamir\<close>, \<open>Roadmap\<close>, \<open>Audit_Journal\<close> (\<open>roadmap.rs\<close>): secret sharing recovers the secret, and fewer shares than the threshold
    are equally likely for every secret when the random words are uniform; the audit journal is a bounded log; spool paths stay in their directory.

  \<^bold>\<open>Traffic shaping\<close> (\<open>shph-core\<close>, \<open>shph-obfuscation\<close>, \<open>shph-transport\<close>).
  \<^item> \<open>Framing\<close> (\<open>stealth.rs\<close>, \<open>framing.rs\<close>), \<open>Profile_Padding\<close> (\<open>shph-obfuscation/src/lib.rs\<close>), \<open>Phantom_One\<close> (\<open>phantom_one.rs\<close>), \<open>Shroud2\<close> and
    \<open>Shroud2_Adaptive\<close> (\<open>shroud2/mod.rs\<close>, \<open>shroud2/workload.rs\<close>), \<open>Shroud3\<close> (\<open>shroud3.rs\<close>), \<open>Cover\<close> (\<open>cover.rs\<close>): encoders and decoders with their state; round trips,
    exact acceptance, replay protection, order of batches, and cover traffic granted exactly as the calls before allow.

  \<^bold>\<open>Sessions over the network\<close> (\<open>shph-transport\<close>).
  \<^item> \<open>Tcp_Session\<close> (\<open>lib.rs\<close>): encrypted frames over a stream cut into arbitrary segments are delivered exactly.
  \<^item> \<open>Envelope_Policy\<close>, \<open>Negotiated\<close> (\<open>envelope_policy.rs\<close>): offers, their negotiation and the sessions under the agreed policy; both sides
    agree and a session refines the list of payloads sent; over QUIC the cover budget decides exactly which data frames are returned.
  \<^item> \<open>Onion\<close> (\<open>onion.rs\<close>): a circuit opens exactly when every hop agrees, and the shared byte quota holds under every interleaving.

  \<^bold>\<open>Finding and reaching peers.\<close>
  \<^item> \<open>Snap_Graph\<close>, \<open>Snap\<close> (\<open>shph-snap/src/lib.rs\<close>) and \<open>Snap_Runtime\<close> (\<open>shph-cli/src/main.rs\<close>): profiles, plans and their execution over any environment;
    the fallback check terminates and is exact, a plan holds exactly the entries its mode allows in the documented order, a payload is tried at most as often as allowed.
  \<^item> \<open>Identity_Record\<close> (\<open>shph-identity/src/lib.rs\<close>): signed records and the resolver; a verified record is signed by the key its subject names and
    the resolver follows one hash-linked chain.

  \<^bold>\<open>The edge\<close> (\<open>shph-edge\<close>).
  \<^item> \<open>Edge_Capability\<close> (\<open>capability.rs\<close>, the rate limiter of \<open>frontdoor.rs\<close>): tokens are exact and used at most once; the lock-free limiter is exact
    under every interleaving.
  \<^item> \<open>Edge_Frontdoor\<close> (\<open>frontdoor.rs\<close>, \<open>config.rs\<close>, admission in \<open>carrier.rs\<close>): what a relayed request has passed; requests prepare concurrently and
    commit under the lock, and, as long as the wall clock keeps pace with the monotonic clock and commits do not see it go back, the replay cache never refuses a fresh
    capability for lack of room.
  \<^item> \<open>Edge_Relay\<close> (\<open>relay.rs\<close>, \<open>carrier.rs\<close>, the SOCKS5 client of \<open>shph-transport/src/lib.rs\<close>): forwarding is transparent and bounded, and the two ends
    of SOCKS5 understand each other.
  \<^item> \<open>Edge_Serve\<close> (\<open>config.rs\<close>, \<open>main.rs\<close>): exactly which configurations start.
  \<^item> \<open>Edge_Pool\<close> (\<open>Http2Pool\<close> of \<open>carrier.rs\<close>): limits and single use of tokens under every interleaving of acquisitions and failures.

  \<^bold>\<open>Not modelled.\<close>  Files, permissions and links (\<open>keystore.rs\<close>, \<open>file.rs\<close>, \<open>LocalDirectoryProvider\<close>); sockets, TLS, HTTP and QUIC drivers
  (\<open>standards_quic.rs\<close>, \<open>standards_tun.rs\<close>, \<open>snap_adapter.rs\<close>, the servers of \<open>carrier.rs\<close>, the laboratory sessions of \<open>shph-transport/src/lib.rs\<close>); JSON and TOML decoding
  (\<open>shph-config\<close>, serde in \<open>shph-snap\<close> and \<open>shph-identity\<close>); floating-point summaries and histogram weights; argument parsing, printing, drawing and
  process control (\<open>shph-cli\<close>, \<open>shph-tui\<close>); operating-system tunnel devices and firewalls (\<open>shph-tun\<close>); \<open>ja4.rs\<close>, benchmarks and fuzz targets.
  They are calls of code outside the repository, or computations that no modelled component relies on; where a model meets them, their outcome is an argument.
\<close>

section \<open>From the handshake to the session\<close>

text \<open>C1. An established session works.  Two honest peers as in the handshake agreement complete the handshake; the
  session ciphers keyed with the two derived states then deliver every message, in order and in both directions,
  in strict mode and with a replay window of any requested width.\<close>

theorem established_session_delivers:
  assumes S: "suite_ok S" and R: "rng_ok Ra" "rng_ok Rb" and i: "identity_ok S ia" "identity_ok S ib"
    and t: "ta \<le> u64_max" "tb \<le> u64_max"
    and ba: "build_hello_with_profile S Ra (Some ta) ia profile ga = (Ok ma, ga')"
    and bb: "build_hello_with_profile S Rb (Some tb) ib profile gb = (Ok mb, gb')"
    and ne: "ik_public ia \<noteq> ik_public ib"
    and nz: "derive_shared S (local_ephemeral ma) (ik_public (local_ephemeral mb)) \<noteq> replicate 32 0"
    and w: "abs_diff na tb \<le> 300" "abs_diff nb ta \<le> 300"
    and pin: "pin_for_identity ib \<in> set pa" "pin_for_identity ia \<in> set pb"
    and A: "aead_ok A" and enc: "\<forall>k n p. length k = 32 \<longrightarrow> p \<in> set msgs \<longrightarrow> aead_encrypt A k (nonce_bytes n) p \<noteq> None"
    and few: "length msgs \<le> AEAD_NONCE_LIMIT"
  shows "\<exists>ct ma' mb' sa sb.
     (if uses_pqc profile
      then finalize_initiator_pq S (Some na) r ia ma (local_hello mb) pa = (Ok ct, ma')
         \<and> absorb_responder_pq S (Some nb) ib mb (local_hello ma) ct pb = (Ok (), mb')
      else ma' = ma \<and> mb' = mb)
     \<and> verify_and_derive_with_profile S (Some na) ia ma' (local_hello mb) True pa = Ok sa
     \<and> verify_and_derive_with_profile S (Some nb) ib mb' (local_hello ma) False pb = Ok sb
     \<and> (\<forall>(here, there)\<in>{(hs_session_keys sa, hs_session_keys sb), (hs_session_keys sb, hs_session_keys sa)}.
          \<forall>rc\<in>{receive_cipher_new (recv_key there), receive_cipher_new_with_replay_window (recv_key there) sz}.
            fst (recv_run A rc (ok_values (fst (send_run A (send_cipher_new (send_key here)) msgs)))) = map Ok msgs)"
proof -
  note HA = build_honest [OF S R(1) i(1) t(1) ba] and HB = build_honest [OF S R(2) i(2) t(2) bb]
  have p: "hm_profile ma = hm_profile mb" using HA(2) HB(2) by simp
  from honest_exchange [OF S HA(1) HB(1) p ne HA(3,4,5) HB(3,4,5) nz _ _ pin, of na nb r] w
  obtain ct ma' mb' sa sb where x: "if uses_pqc profile
      then finalize_initiator_pq S (Some na) r ia ma (local_hello mb) pa = (Ok ct, ma')
         \<and> absorb_responder_pq S (Some nb) ib mb (local_hello ma) ct pb = (Ok (), mb')
      else ma' = ma \<and> mb' = mb"
    and d: "verify_and_derive_with_profile S (Some na) ia ma' (local_hello mb) True pa = Ok sa"
      "verify_and_derive_with_profile S (Some nb) ib mb' (local_hello ma) False pb = Ok sb" and ag: "agreed sa sb"
    unfolding HA(2,6) HB(6) by blast
  have deliver: "fst (recv_run A rc (ok_values (fst (send_run A (send_cipher_new k) msgs)))) = map Ok msgs"
    if "length k = 32" "rc \<in> {receive_cipher_new k, receive_cipher_new_with_replay_window k sz}" for k rc
    using that enc by (intro in_order_delivery [OF A that(1) few]) auto
  have k: "send_key (hs_session_keys sa) = recv_key (hs_session_keys sb)" "recv_key (hs_session_keys sa) = send_key (hs_session_keys sb)"
    "length (recv_key (hs_session_keys sb)) = 32" "length (send_key (hs_session_keys sb)) = 32"
    using ag by (auto simp: agreed_def)
  show ?thesis
    by (intro exI conjI, rule x, rule d(1), rule d(2)) (use deliver k in \<open>simp add: k\<close>)
qed

theorem established_session_delivers_witness:
  "\<exists>ma mb ct ma' mb' sa sb.
     finalize_initiator_pq plain_suite (Some 1000) [] (sample_identity 1) ma (local_hello mb) [pin_for_identity (sample_identity 2)] = (Ok ct, ma')
     \<and> absorb_responder_pq plain_suite (Some 900) (sample_identity 2) mb (local_hello ma) ct [pin_for_identity (sample_identity 1)] = (Ok (), mb')
     \<and> verify_and_derive_with_profile plain_suite (Some 1000) (sample_identity 1) ma' (local_hello mb) True
          [pin_for_identity (sample_identity 2)] = Ok sa
     \<and> verify_and_derive_with_profile plain_suite (Some 900) (sample_identity 2) mb' (local_hello ma) False
          [pin_for_identity (sample_identity 1)] = Ok sb
     \<and> fst (recv_run tag_aead (receive_cipher_new (recv_key (hs_session_keys sb)))
          (ok_values (fst (send_run tag_aead (send_cipher_new (send_key (hs_session_keys sa))) [[1, 2], [3]])))) = [Ok [1, 2], Ok [3]]"
proof -
  obtain ma ga' where a: "build_hello_with_profile plain_suite counter_rng (Some 990) (sample_identity 1) SecureDefault 0 = (Ok ma, ga')"
    "local_ephemeral ma = identity_from_seeds plain_suite (map (\<lambda>i. of_nat (0 + i)) [0..<32]) (map (\<lambda>i. of_nat (0 + 32 + i)) [0..<32])"
    using sample_build [of 990 1 SecureDefault 0] by (auto simp: u64_max_def)
  obtain mb gb' where b: "build_hello_with_profile plain_suite counter_rng (Some 890) (sample_identity 2) SecureDefault 7 = (Ok mb, gb')"
    "local_ephemeral mb = identity_from_seeds plain_suite (map (\<lambda>i. of_nat (7 + i)) [0..<32]) (map (\<lambda>i. of_nat (7 + 32 + i)) [0..<32])"
    using sample_build [of 890 2 SecureDefault 7] by (auto simp: u64_max_def)
  have nz: "derive_shared plain_suite (local_ephemeral ma) (ik_public (local_ephemeral mb)) \<noteq> replicate 32 0"
    unfolding a(2) b(2) by (rule sample_shared)
  have t: "(990 :: nat) \<le> u64_max" "(890 :: nat) \<le> u64_max" by (simp_all add: u64_max_def)
  have "\<forall>k n p. length k = 32 \<longrightarrow> p \<in> set [[1, 2], [3]] \<longrightarrow> aead_encrypt tag_aead k (nonce_bytes n) p \<noteq> None"
    by (simp add: tag_aead_def)
  from established_session_delivers [OF plain_suite_ok counter_rng_ok counter_rng_ok sample_identity_ok sample_identity_ok
      t a(1) b(1) sample_identity_distinct nz _ _ _ _ tag_aead_ok this, of 1000 900
      "[pin_for_identity (sample_identity 2)]" "[pin_for_identity (sample_identity 1)]" "[]" 64]
  show ?thesis by (simp add: abs_diff_def AEAD_NONCE_LIMIT_def) blast
qed

end
